(* ===== verification/Prelude.thy ===== *)
theory Prelude
  imports Main "HOL-Library.AList" "HOL-Library.Char_ord" "HOL-Library.List_Lexorder"
    "HOL-Library.Sublist"
begin

section \<open>Prelude: Python values, dictionaries, sorting, loops\<close>

text \<open>
  What the component theories share: the part of Python's standard semantics the
  source uses (string methods, dictionaries with insertion order, stable sorts,
  \<open>min\<close>/\<open>max\<close> with a key, exceptions as values), and the generic lemmas about it.

  Strings of type \<open>string\<close> stand for Python strings whose code points are below 256;
  \<open>py_space\<close> and \<open>py_lower_char\<close> agree with \<open>str.isspace\<close> and \<open>str.lower\<close> on all
  of them.  The synchronisation protocol, whose checks look at surrogates and at
  UTF-16 order, uses lists of code points instead (theory Sync\_Protocol).
\<close>

named_theorems dict_simps "lookups after dictionary operations"
named_theorems keeps "operations that keep an invariant"

subsection \<open>Exceptions as values\<close>

text \<open>
  An exception is its class and the fixed part of its message; a function that may
  raise returns \<open>exn + 'a\<close>.
\<close>

datatype exn =
    TypeErr string
  | ValueErr string
  | KeyErr string
  | IndexErr string
  | RuntimeErr string
  | PermissionErr string
  | IdentityClaimErr "string list"
  | RegistryErr string
  | MemoryNotFoundErr
  | CursorExpired string
  | Backpressure string
  | BatchRejected string
  | DeliveryBusy string
  | CryptoErr string
  | OtherErr string

type_synonym 'a result = "exn + 'a"

fun bindR :: "'a result \<Rightarrow> ('a \<Rightarrow> 'b result) \<Rightarrow> 'b result" where
  "bindR (Inl e) f = Inl e"
| "bindR (Inr x) f = f x"

fun mapR :: "('a \<Rightarrow> 'b result) \<Rightarrow> 'a list \<Rightarrow> 'b list result" where
  "mapR f [] = Inr []"
| "mapR f (x # xs) = bindR (f x) (\<lambda>y. bindR (mapR f xs) (\<lambda>ys. Inr (y # ys)))"

lemma bindR_Inr_iff [simp]: "bindR m f = Inr y \<longleftrightarrow> (\<exists>x. m = Inr x \<and> f x = Inr y)"
  by (cases m) auto

lemma bindR_Inl_iff: "bindR m f = Inl e \<longleftrightarrow> m = Inl e \<or> (\<exists>x. m = Inr x \<and> f x = Inl e)"
  by (cases m) auto

lemma mapR_length: "mapR f xs = Inr ys \<Longrightarrow> length ys = length xs"
  by (induction xs arbitrary: ys) auto

lemma mapR_Inr_map: "(\<And>x. x \<in> set xs \<Longrightarrow> f x = Inr (g x)) \<Longrightarrow> mapR f xs = Inr (map g xs)"
  by (induction xs) auto

subsection \<open>String methods\<close>

definition py_space :: "char \<Rightarrow> bool" where
  "py_space c = (let n = (of_char c :: nat) in
     9 \<le> n \<and> n \<le> 13 \<or> 28 \<le> n \<and> n \<le> 32 \<or> n = 133 \<or> n = 160)"

definition py_strip :: "string \<Rightarrow> string" where
  "py_strip s = rev (dropWhile py_space (rev (dropWhile py_space s)))"

definition py_lower_char :: "char \<Rightarrow> char" where
  "py_lower_char c = (let n = (of_char c :: nat) in
     if 65 \<le> n \<and> n \<le> 90 \<or> 192 \<le> n \<and> n \<le> 222 \<and> n \<noteq> 215 then char_of (n + 32) else c)"

definition py_lower :: "string \<Rightarrow> string" where
  "py_lower s = map py_lower_char s"

fun split_on :: "'a \<Rightarrow> 'a list \<Rightarrow> 'a list list" where
  "split_on c [] = [[]]"
| "split_on c (x # xs) =
     (if x = c then [] # split_on c xs
      else (case split_on c xs of [] \<Rightarrow> [[x]] | w # ws \<Rightarrow> (x # w) # ws))"

fun py_join :: "'a list \<Rightarrow> 'a list list \<Rightarrow> 'a list" where
  "py_join sep [] = []"
| "py_join sep [w] = w"
| "py_join sep (w # v # ws) = w @ sep @ py_join sep (v # ws)"

text \<open>Python's truth value of an optional string: absent and empty are both false.\<close>

fun truthy :: "string option \<Rightarrow> bool" where
  "truthy None = False"
| "truthy (Some s) = (s \<noteq> [])"

text \<open>\<open>x or d\<close> for an optional string \<open>x\<close>.\<close>

definition or_else :: "string option \<Rightarrow> string option \<Rightarrow> string option" where
  "or_else x d = (if truthy x then x else d)"

lemma truthy_iff: "truthy x \<longleftrightarrow> (\<exists>s. x = Some s \<and> s \<noteq> [])"
  by (cases x) auto

lemma dropWhile_last_kept: "dropWhile P xs \<noteq> [] \<Longrightarrow> last (dropWhile P xs) = last xs"
  by (induction xs) (auto split: if_splits)

lemma py_strip_no_space_ends:
  assumes "py_strip s \<noteq> []"
  shows "\<not> py_space (hd (py_strip s))" and "\<not> py_space (last (py_strip s))"
proof -
  let ?d = "dropWhile py_space s"
  have ne: "dropWhile py_space (rev ?d) \<noteq> []"
    using assms by (simp add: py_strip_def)
  then have d: "?d \<noteq> []" by (cases "?d") simp_all
  have "hd (py_strip s) = last (dropWhile py_space (rev ?d))"
    using ne by (simp add: py_strip_def hd_rev)
  also have "\<dots> = hd ?d"
    using ne d by (simp add: dropWhile_last_kept last_rev)
  finally show "\<not> py_space (hd (py_strip s))"
    using d by (simp add: hd_dropWhile)
  have "last (py_strip s) = hd (dropWhile py_space (rev ?d))"
    using ne by (simp add: py_strip_def last_rev)
  then show "\<not> py_space (last (py_strip s))"
    using ne by (simp add: hd_dropWhile)
qed

lemma dropWhile_id_hd: "xs \<noteq> [] \<Longrightarrow> \<not> P (hd xs) \<Longrightarrow> dropWhile P xs = xs"
  by (cases xs) auto

lemma py_strip_idem [simp]: "py_strip (py_strip s) = py_strip s"
proof (cases "py_strip s = []")
  case True
  show ?thesis unfolding True by (simp add: py_strip_def)
next
  case False
  let ?t = "py_strip s"
  have "dropWhile py_space ?t = ?t"
    using False py_strip_no_space_ends(1)[OF False] by (rule dropWhile_id_hd)
  moreover have "dropWhile py_space (rev ?t) = rev ?t"
    using False py_strip_no_space_ends(2)[OF False]
    by (intro dropWhile_id_hd) (auto simp: hd_rev)
  ultimately show ?thesis by (simp add: py_strip_def [of ?t])
qed

lemma py_strip_Nil [simp]: "py_strip [] = []"
  by (simp add: py_strip_def)

lemma split_on_nonempty [simp]: "split_on c xs \<noteq> []"
  by (induction xs) (auto split: list.splits)

lemma split_on_single: "c \<notin> set w \<Longrightarrow> split_on c w = [w]"
  by (induction w) auto

lemma split_on_append: "c \<notin> set w \<Longrightarrow> split_on c (w @ c # xs) = w # split_on c xs"
  by (induction w) auto

lemma split_on_join:
  "ws \<noteq> [] \<Longrightarrow> (\<And>w. w \<in> set ws \<Longrightarrow> c \<notin> set w) \<Longrightarrow> split_on c (py_join [c] ws) = ws"
  by (induction "[c]" ws rule: py_join.induct) (auto simp: split_on_single split_on_append)

subsection \<open>Dictionaries with insertion order\<close>

text \<open>
  A Python \<open>dict\<close> is an association list with distinct keys, in insertion order:
  storing under a present key keeps its position, a new key goes to the end.  The
  library's association lists have exactly these operations.
\<close>

type_synonym ('k, 'v) dict = "('k \<times> 'v) list"

abbreviation dict_get :: "('k, 'v) dict \<Rightarrow> 'k \<Rightarrow> 'v option" where
  "dict_get \<equiv> map_of"

abbreviation dict_set :: "'k \<Rightarrow> 'v \<Rightarrow> ('k, 'v) dict \<Rightarrow> ('k, 'v) dict" where
  "dict_set \<equiv> AList.update"

abbreviation dict_pop :: "'k \<Rightarrow> ('k, 'v) dict \<Rightarrow> ('k, 'v) dict" where
  "dict_pop \<equiv> AList.delete"

abbreviation dict_wf :: "('k, 'v) dict \<Rightarrow> bool" where
  "dict_wf d \<equiv> distinct (map fst d)"

definition has_key :: "('k, 'v) dict \<Rightarrow> 'k \<Rightarrow> bool" where
  "has_key d k = (map_of d k \<noteq> None)"

text \<open>\<open>d.update(e)\<close> and \<open>d.setdefault(k, []).append(v)\<close>.\<close>

definition dict_update :: "('k, 'v) dict \<Rightarrow> ('k, 'v) dict \<Rightarrow> ('k, 'v) dict" where
  "dict_update d e = fold (\<lambda>(k, v). dict_set k v) e d"

definition dict_append :: "'k \<Rightarrow> 'v \<Rightarrow> ('k, 'v list) dict \<Rightarrow> ('k, 'v list) dict" where
  "dict_append k v d = dict_set k ((case dict_get d k of None \<Rightarrow> [] | Some vs \<Rightarrow> vs) @ [v]) d"

definition dict_default :: "('k, 'v) dict \<Rightarrow> 'k \<Rightarrow> 'v \<Rightarrow> 'v" where
  "dict_default d k v = (case dict_get d k of None \<Rightarrow> v | Some w \<Rightarrow> w)"

lemma dict_get_set [dict_simps]:
  "dict_get (dict_set k v d) k' = (if k' = k then Some v else dict_get d k')"
  by (simp add: update_conv)

lemma dict_get_pop [dict_simps]:
  "dict_get (dict_pop k d) k' = (if k' = k then None else dict_get d k')"
  by (simp add: delete_conv)

lemma dict_wf_set [keeps]: "dict_wf d \<Longrightarrow> dict_wf (dict_set k v d)"
  by (simp add: distinct_update)

lemma dict_wf_pop [keeps]: "dict_wf d \<Longrightarrow> dict_wf (dict_pop k d)"
  by (simp add: distinct_delete)

lemma set_dict_pop: "set (dict_pop k d) = {p \<in> set d. fst p \<noteq> k}"
  by (auto simp: AList.delete_eq)

lemma length_dict_set:
  "length (dict_set k v d) = (if k \<in> fst ` set d then length d else Suc (length d))"
  by (induction d) auto

lemma length_dict_pop_le: "length (dict_pop k d) \<le> length d"
  by (simp add: AList.delete_eq)

lemma length_dict_pop_wf:
  "dict_wf d \<Longrightarrow> length (dict_pop k d) = (if k \<in> fst ` set d then length d - 1 else length d)"
proof (induction d)
  case Nil
  then show ?case by simp
next
  case (Cons p d)
  obtain k' v where p: "p = (k', v)" by (cases p)
  show ?case
  proof (cases "k' = k")
    case True
    then have "k \<notin> fst ` set d" using Cons.prems p by auto
    then show ?thesis using True p by simp
  next
    case False
    have pos: "k \<in> fst ` set d \<Longrightarrow> 0 < length d" by (cases d) auto
    from False Cons p pos show ?thesis by simp
  qed
qed

lemma has_key_iff: "has_key d k \<longleftrightarrow> k \<in> fst ` set d"
  by (auto simp: has_key_def map_of_eq_None_iff)

lemma dict_get_in_set: "dict_get d k = Some v \<Longrightarrow> (k, v) \<in> set d"
  by (rule map_of_SomeD)

lemma in_set_dict_get: "dict_wf d \<Longrightarrow> (k, v) \<in> set d \<Longrightarrow> dict_get d k = Some v"
  by (rule map_of_is_SomeI)

lemma set_dict_map_of: "dict_wf d \<Longrightarrow> set d = {(k, v). dict_get d k = Some v}"
  by (auto dest: map_of_SomeD)

lemma set_dict_set:
  assumes wf: "dict_wf d"
  shows "set (dict_set k v d) = insert (k, v) {p \<in> set d. fst p \<noteq> k}"
proof -
  have "set (dict_set k v d) = {(k', v'). dict_get (dict_set k v d) k' = Some v'}"
    using wf by (intro set_dict_map_of distinct_update)
  also have "\<dots> = insert (k, v) {p \<in> {(k', v'). dict_get d k' = Some v'}. fst p \<noteq> k}"
    by (auto simp: dict_get_set split: if_splits)
  finally show ?thesis using set_dict_map_of [OF wf] by simp
qed

subsection \<open>Stable sorts, and min and max with a key\<close>

text \<open>
  \<open>sorted(xs, key=f)\<close> is the library's stable \<open>sort_key\<close>; \<open>reverse=True\<close> keeps the
  original order of equal elements.  \<open>min\<close> and \<open>max\<close> return the first of equal elements.
\<close>

definition sort_desc :: "('a \<Rightarrow> 'k::linorder) \<Rightarrow> 'a list \<Rightarrow> 'a list" where
  "sort_desc f xs = rev (sort_key f (rev xs))"

fun first_min :: "('a \<Rightarrow> 'k::linorder) \<Rightarrow> 'a list \<Rightarrow> 'a option" where
  "first_min f [] = None"
| "first_min f (x # xs) =
     (case first_min f xs of None \<Rightarrow> Some x
      | Some y \<Rightarrow> if f y < f x then Some y else Some x)"

fun first_max :: "('a \<Rightarrow> 'k::linorder) \<Rightarrow> 'a list \<Rightarrow> 'a option" where
  "first_max f [] = None"
| "first_max f (x # xs) =
     (case first_max f xs of None \<Rightarrow> Some x
      | Some y \<Rightarrow> if f x < f y then Some y else Some x)"

lemma set_sort_desc [simp]: "set (sort_desc f xs) = set xs"
  by (simp add: sort_desc_def)

lemma length_sort_desc [simp]: "length (sort_desc f xs) = length xs"
  by (simp add: sort_desc_def)

lemma distinct_sort_desc [simp]: "distinct (sort_desc f xs) = distinct xs"
  by (simp add: sort_desc_def)

lemma sort_desc_sorted: "sorted_wrt (\<ge>) (map f (sort_desc f xs))"
  using sorted_sort_key [of f "rev xs"]
  by (simp add: sort_desc_def rev_map [symmetric] sorted_wrt_rev)

lemma first_min_None [simp]: "first_min f xs = None \<longleftrightarrow> xs = []"
  by (cases xs) (auto split: option.splits)

lemma first_min_Some:
  "first_min f xs = Some m \<Longrightarrow> m \<in> set xs \<and> (\<forall>x\<in>set xs. f m \<le> f x)"
proof (induction xs arbitrary: m)
  case Nil
  then show ?case by simp
next
  case (Cons x xs)
  show ?case
  proof (cases "first_min f xs")
    case None
    with Cons.prems show ?thesis by auto
  next
    case (Some y)
    from Cons.IH[OF Some] have "y \<in> set xs" and "\<forall>z\<in>set xs. f y \<le> f z" by auto
    with Cons.prems Some show ?thesis by (auto split: if_splits intro: order_trans)
  qed
qed

lemma first_max_None [simp]: "first_max f xs = None \<longleftrightarrow> xs = []"
  by (cases xs) (auto split: option.splits)

lemma first_max_Some:
  "first_max f xs = Some m \<Longrightarrow> m \<in> set xs \<and> (\<forall>x\<in>set xs. f x \<le> f m)"
proof (induction xs arbitrary: m)
  case Nil
  then show ?case by simp
next
  case (Cons x xs)
  show ?case
  proof (cases "first_max f xs")
    case None
    with Cons.prems show ?thesis by auto
  next
    case (Some y)
    from Cons.IH[OF Some] have "y \<in> set xs" and "\<forall>z\<in>set xs. f z \<le> f y" by auto
    with Cons.prems Some show ?thesis by (auto split: if_splits intro: order_trans)
  qed
qed

lemma find_SomeD: "find P xs = Some x \<Longrightarrow> x \<in> set xs \<and> P x"
  by (induction xs) (auto split: if_splits)

lemma find_None_ball: "find P xs = None \<longleftrightarrow> (\<forall>x\<in>set xs. \<not> P x)"
  by (induction xs) auto

subsection \<open>Dates\<close>

text \<open>
  A \<open>datetime\<close> is an instant in microseconds: UTC for an aware value, local clock
  time for a naive one.  \<open>datetime.fromisoformat\<close> is an argument of the definitions
  that parse stored strings (\<open>None\<close> is its \<open>ValueError\<close>), so what is proved holds for
  every set of accepted formats.
\<close>

datatype py_datetime = Naive int | Aware int

type_synonym iso_parser = "string \<Rightarrow> py_datetime option"

text \<open>\<open>value.replace(tzinfo=UTC)\<close> when the parsed value has no zone.\<close>

fun as_utc :: "py_datetime \<Rightarrow> int" where
  "as_utc (Naive t) = t"
| "as_utc (Aware t) = t"

abbreviation seconds :: "int \<Rightarrow> int" where
  "seconds n \<equiv> n * 1000000"

subsection \<open>Loops with an early exit\<close>

text \<open>
  A \<open>while True\<close> loop is its body, which either goes on with a new state or leaves
  with a result, run with fuel.  The locale states what makes such a loop total: an
  invariant the body keeps and a measure it decreases.
\<close>

datatype ('s, 'r) loop_next = Again 's | Leave 'r

fun run_loop :: "nat \<Rightarrow> ('s \<Rightarrow> ('s, 'r) loop_next) \<Rightarrow> 's \<Rightarrow> 'r option" where
  "run_loop 0 body s = None"
| "run_loop (Suc n) body s =
     (case body s of Again s' \<Rightarrow> run_loop n body s' | Leave r \<Rightarrow> Some r)"

lemma run_loop_mono: "run_loop n body s = Some r \<Longrightarrow> n \<le> m \<Longrightarrow> run_loop m body s = Some r"
proof (induction n arbitrary: s m)
  case 0
  then show ?case by simp
next
  case (Suc n)
  then obtain m' where "m = Suc m'" "n \<le> m'" by (cases m) auto
  with Suc show ?case by (auto split: loop_next.splits)
qed

fun next_ok :: "('s \<Rightarrow> bool) \<Rightarrow> ('r \<Rightarrow> bool) \<Rightarrow> ('s, 'r) loop_next \<Rightarrow> bool" where
  "next_ok I Q (Again s) = I s"
| "next_ok I Q (Leave r) = Q r"

lemma next_ok_mono: "next_ok I Q x \<Longrightarrow> (\<And>r. Q r \<Longrightarrow> Q' r) \<Longrightarrow> next_ok I Q' x"
  by (cases x) auto

lemma run_loop_post:
  assumes step: "\<And>s. I s \<Longrightarrow> next_ok I Q (body s)"
  shows "I s \<Longrightarrow> run_loop n body s = Some r \<Longrightarrow> Q r"
proof (induction n arbitrary: s)
  case 0
  then show ?case by simp
next
  case (Suc n)
  with step [OF Suc.prems(1)] show ?case by (cases "body s") auto
qed

locale decreasing_loop =
  fixes body :: "'s \<Rightarrow> ('s, 'r) loop_next"
    and inv :: "'s \<Rightarrow> bool"
    and weight :: "'s \<Rightarrow> nat"
  assumes inv_step: "\<lbrakk>inv s; body s = Again s'\<rbrakk> \<Longrightarrow> inv s'"
    and weight_step: "\<lbrakk>inv s; body s = Again s'\<rbrakk> \<Longrightarrow> weight s' < weight s"
begin

lemma enough_fuel: "inv s \<Longrightarrow> weight s < n \<Longrightarrow> \<exists>r. run_loop n body s = Some r"
proof (induction n arbitrary: s)
  case 0
  then show ?case by simp
next
  case (Suc n)
  show ?case
  proof (cases "body s")
    case (Again s')
    with Suc.prems have "inv s'" "weight s' < n"
      using inv_step weight_step by (auto dest: weight_step intro: less_le_trans)
    with Suc.IH Again show ?thesis by auto
  next
    case (Leave r)
    then show ?thesis by simp
  qed
qed

end

end
