(* ===== verification/Memory_Model.thy ===== *)
theory Memory_Model
  imports Prelude Complex_Main
begin

section \<open>The typed memory nodes\<close>

text \<open>
  The data model of \<^verbatim>\<open>memplex/models\<close>: \<^verbatim>\<open>MemoryNode\<close> and its four subclasses
  (\<^verbatim>\<open>memory.py\<close>), field values and identifier validation (\<^verbatim>\<open>misc.py\<close>), graph edges
  (\<^verbatim>\<open>graph.py\<close>) and the raw-paragraph view of \<^verbatim>\<open>authorization.py\<close>.  A subclass is a
  variant of the field \<open>body\<close>; \<open>isinstance\<close> is a case distinction on it.  Fields that
  hold floating-point numbers are rationals (rounding is not modelled).
\<close>

subsection \<open>Field values, edges, nodes\<close>

datatype source_kind = REQUIREMENT | MEETING | CODE | WIKI

record field_value =
  desc :: string
  sources :: "string list"
  source_method :: string
  weight :: rat
  observation :: "rat option"
  fv_created_at :: "int option"
  status :: string

datatype attr_value = AStr string | ANotStr

record function_fields =
  trigger :: "field_value list"
  condition :: "field_value list"
  action :: "field_value list"
  benefit :: "field_value list"
  name_normalized :: string
  attributes :: "(string, attr_value) dict"
  priority_from_source :: "string option"
  source_authority :: "string option"

record fact_fields =
  subject :: string
  predicate :: string
  object_text :: string
  valid_until :: "string option"
  valid_from :: "string option"
  invalid_at :: "string option"

record preference_fields =
  aspect :: string
  preference :: string
  subject_id :: "string option"

record observation_fields =
  event :: string
  context_text :: string
  observed_at :: "string option"
  actor :: string
  category :: string

record paragraph_fields =
  raw_text :: string
  context_historical :: bool

datatype node_body =
    FunctionB function_fields
  | FactB fact_fields
  | PreferenceB preference_fields
  | ObservationB observation_fields
  | ParagraphB paragraph_fields

record memory_node =
  node_id :: string
  memory_type :: string
  node_name :: string
  node_domain :: "string option"
  confidence :: rat
  source_type :: source_kind
  owner :: "string option"
  tenant_id :: "string option"
  owner_subject_id :: "string option"
  workspace_id :: "string option"
  visibility :: "string option"
  provenance :: "(string, string) dict"
  version :: int
  created_at :: "string option"
  updated_at :: "string option"
  origin_session :: "string option"
  access_count :: int
  last_accessed_at :: "string option"
  source_paragraphs :: "string list"
  needs_review :: bool
  needs_review_until :: "string option"
  content_hash :: "string option"
  namespace :: "(string, string) dict"
  knowledge_tier :: "string option"
  trust_tier :: int
  body :: node_body

record graph_edge =
  edge_source :: string
  edge_target :: string
  edge_type :: string
  edge_weight :: rat

subsection \<open>Identifier and domain validation\<close>

definition MAX_FUNC_ID_LENGTH :: nat where
  "MAX_FUNC_ID_LENGTH = 128"

text \<open>The pattern \<^verbatim>\<open>^[a-zA-Z0-9_-]+$\<close>, matched in full.\<close>

definition func_id_char :: "char \<Rightarrow> bool" where
  "func_id_char c = (let n = (of_char c :: nat) in
     97 \<le> n \<and> n \<le> 122 \<or> 65 \<le> n \<and> n \<le> 90 \<or> 48 \<le> n \<and> n \<le> 57 \<or> n = 95 \<or> n = 45)"

definition validate_func_id :: "string \<Rightarrow> string result" where
  "validate_func_id func_id =
     (if prefix ''domain_'' func_id then Inl (ValueErr ''reserved domain_ namespace'')
      else if MAX_FUNC_ID_LENGTH < length func_id then Inl (ValueErr ''func id too long'')
      else if func_id = [] \<or> \<not> list_all func_id_char func_id
        then Inl (ValueErr ''func id has illegal characters'')
      else Inr func_id)"

definition domain_node_id :: "string \<Rightarrow> string" where
  "domain_node_id domain =
     ''domain_'' @ py_lower (map (\<lambda>c. if c = CHR '' '' then CHR ''_'' else c) domain)"

text \<open>
  \<open>validate_belongs_to_edges\<close>: the dictionary of functions by id (a later function
  replaces an earlier one of the same id), then the edges in order.  Every function
  is validated first; \<open>validate_domain\<close> accepts every optional string.
\<close>

definition function_index :: "memory_node list \<Rightarrow> (string, memory_node) dict" where
  "function_index functions = fold (\<lambda>f d. dict_set (node_id f) f d) functions []"

fun check_belongs_to :: "(string, memory_node) dict \<Rightarrow> graph_edge list \<Rightarrow> unit result" where
  "check_belongs_to by_id [] = Inr ()"
| "check_belongs_to by_id (e # es) =
     (if edge_type e \<noteq> ''BELONGS_TO'' then check_belongs_to by_id es
      else case dict_get by_id (edge_source e) of
        None \<Rightarrow> Inl (ValueErr ''BELONGS_TO source must be a durable Function'')
      | Some src \<Rightarrow>
          (if truthy (node_domain src)
              \<and> edge_target e = domain_node_id (the (node_domain src))
           then check_belongs_to by_id es
           else Inl (ValueErr ''BELONGS_TO target must match source domain'')))"

definition validate_belongs_to_edges :: "memory_node list \<Rightarrow> graph_edge list \<Rightarrow> unit result" where
  "validate_belongs_to_edges functions edges =
     bindR (mapR (\<lambda>f. validate_func_id (node_id f)) functions)
       (\<lambda>_. check_belongs_to (function_index functions) edges)"

subsection \<open>Editing one role of a function\<close>

definition is_active :: "field_value \<Rightarrow> bool" where
  "is_active v = (status v = ''active'')"

fun role_values :: "string \<Rightarrow> function_fields \<Rightarrow> field_value list" where
  "role_values role f =
     (if role = ''trigger'' then trigger f
      else if role = ''condition'' then condition f
      else if role = ''action'' then action f
      else if role = ''benefit'' then benefit f
      else [])"

fun set_role :: "string \<Rightarrow> field_value list \<Rightarrow> function_fields \<Rightarrow> function_fields" where
  "set_role role vs f =
     (if role = ''trigger'' then f\<lparr>trigger := vs\<rparr>
      else if role = ''condition'' then f\<lparr>condition := vs\<rparr>
      else if role = ''action'' then f\<lparr>action := vs\<rparr>
      else if role = ''benefit'' then f\<lparr>benefit := vs\<rparr>
      else f)"

definition ROLES :: "string list" where
  "ROLES = [''trigger'', ''condition'', ''action'', ''benefit'']"

definition active_body :: "function_fields \<Rightarrow> string list" where
  "active_body f = map desc (filter is_active (trigger f @ condition f @ action f @ benefit f))"

text \<open>
  The loop of \<open>_matches_content_name\<close>: strip the longest candidate that starts the
  remaining title, then leading white space.  Candidates are not empty, so the
  remaining title gets shorter.
\<close>

function strip_candidates :: "string list \<Rightarrow> bool \<Rightarrow> string \<Rightarrow> bool" where
  "strip_candidates cands full remaining =
     (if remaining = [] then True
      else case find (\<lambda>t. prefix t remaining) (filter (\<lambda>t. t \<noteq> []) cands) of
        None \<Rightarrow> full \<and> list_ex (\<lambda>t. prefix remaining t) (filter (\<lambda>t. t \<noteq> []) cands)
      | Some m \<Rightarrow>
          strip_candidates cands full (dropWhile py_space (drop (length m) remaining)))"
  by pat_completeness auto
termination
proof (relation "measure (\<lambda>(_, _, r). length r)", goal_cases)
  case 1
  show ?case by simp
next
  case (2 cands full remaining m)
  then have "m \<noteq> []" "remaining \<noteq> []" by (auto dest!: find_SomeD)
  then have "length (drop (length m) remaining) < length remaining" by simp
  then show ?case
    using length_dropWhile_le [of py_space "drop (length m) remaining"] by simp
qed

declare strip_candidates.simps [simp del]

definition matches_content_name :: "string \<Rightarrow> string list \<Rightarrow> bool" where
  "matches_content_name name texts =
     (if name = [] \<or> 50 < length name then False
      else if list_ex (\<lambda>t. name = take 50 t) texts then True
      else strip_candidates (sort_desc length (filter (\<lambda>t. t \<noteq> []) texts)) (length name = 50) name)"

definition deprecate :: "field_value \<Rightarrow> field_value" where
  "deprecate v = (if is_active v then v\<lparr>status := ''deprecated''\<rparr> else v)"

definition manual_value :: "string \<Rightarrow> int \<Rightarrow> field_value" where
  "manual_value new_value now =
     \<lparr>desc = new_value, sources = [''manual''], source_method = ''manual'', weight = 1,
      observation = None, fv_created_at = Some now, status = ''active''\<rparr>"

text \<open>
  \<open>",".join(sorted(...))\<close> of the roles edited so far.
\<close>

definition edited_roles :: "attr_value option \<Rightarrow> string \<Rightarrow> string" where
  "edited_roles previous role =
     (let old = (case previous of Some (AStr s) \<Rightarrow> split_on CHR '','' s
                 | Some ANotStr \<Rightarrow> [] | None \<Rightarrow> [[]])
      in py_join '',''
           (filter (\<lambda>r. r \<in> set old \<or> r = role)
              [''action'', ''benefit'', ''condition'', ''trigger'']))"

definition update_role ::
  "(int \<Rightarrow> string) \<Rightarrow> int \<Rightarrow> memory_node \<Rightarrow> function_fields \<Rightarrow> string \<Rightarrow> string
   \<Rightarrow> (string option \<times> memory_node) result" where
  "update_role isoformat now n f role new_value =
     (if role \<notin> set ROLES then Inl (ValueErr ''Unknown role'')
      else
        let values = role_values role f;
            old_value = (case filter is_active values of [] \<Rightarrow> None | v # _ \<Rightarrow> Some (desc v));
            name_origin = dict_get (attributes f) ''memplex_name_from_content'';
            content_name = (name_origin = Some (AStr ''true'')
              \<or> name_origin = None \<and> matches_content_name (node_name n) (active_body f));
            f1 = set_role role (manual_value new_value now # map deprecate values) f;
            attrs = (if content_name
                     then dict_set ''memplex_name_from_content'' (AStr ''true'') (attributes f1)
                     else attributes f1);
            name1 = (if content_name then take 50 (py_join '' '' (active_body f1))
                     else node_name n);
            attrs1 = dict_set ''memplex_role_updates''
              (AStr (edited_roles (dict_get attrs ''memplex_role_updates'') role)) attrs
        in Inr (old_value,
             n\<lparr>node_name := name1, version := version n + 1,
               updated_at := Some (isoformat now),
               body := FunctionB (f1\<lparr>attributes := attrs1\<rparr>)\<rparr>))"

subsection \<open>Trust tiers\<close>

definition TRUST_TIER_DEFAULT :: int where
  "TRUST_TIER_DEFAULT = 3"

text \<open>A payload value of any type; booleans are not integers here.\<close>

datatype payload_value = PVBool bool | PVInt int | PVOther

fun coerce_trust_tier :: "payload_value \<Rightarrow> int" where
  "coerce_trust_tier (PVBool b) = TRUST_TIER_DEFAULT"
| "coerce_trust_tier (PVInt i) = (if i \<in> {1, 2, 3, 4} then i else TRUST_TIER_DEFAULT)"
| "coerce_trust_tier PVOther = TRUST_TIER_DEFAULT"

subsection \<open>Lemmas\<close>

lemma role_values_set_role:
  "r \<in> set ROLES \<Longrightarrow> q \<in> set ROLES \<Longrightarrow>
   role_values q (set_role r vs f) = (if q = r then vs else role_values q f)"
  by (auto simp: ROLES_def)

lemma attributes_set_role [simp]: "attributes (set_role r vs f) = attributes f"
  by simp

lemma role_values_attributes [simp]: "role_values q (f\<lparr>attributes := a\<rparr>) = role_values q f"
  by simp

lemma filter_active_deprecate [simp]: "filter is_active (map deprecate vs) = []"
  by (induction vs) (auto simp: deprecate_def is_active_def)

lemma desc_deprecate [simp]: "desc (deprecate v) = desc v"
  by (simp add: deprecate_def)

lemma is_active_manual [simp]: "is_active (manual_value s t)"
  by (simp add: is_active_def manual_value_def)

lemma desc_manual [simp]: "desc (manual_value s t) = s"
  by (simp add: manual_value_def)

text \<open>
  editing a role returns the desc of the role's first active value, leaves the new
  value as the only active one of that role, keeps every earlier value as evidence
  behind it, does not touch the other roles, and increases the version by one.
\<close>
theorem update_role_correct:
  assumes "update_role isoformat now n f role new_value = Inr (old, n')"
  shows "\<exists>f'. body n' = FunctionB f' \<and> version n' = version n + 1
    \<and> filter is_active (role_values role f') = [manual_value new_value now]
    \<and> map desc (role_values role f') = new_value # map desc (role_values role f)
    \<and> (\<forall>q \<in> set ROLES - {role}. role_values q f' = role_values q f)
    \<and> old = map_option desc (find is_active (role_values role f))"
proof -
  have role: "role \<in> set ROLES"
    using assms by (auto simp: update_role_def split: if_splits)
  have find: "(case filter is_active vs of [] \<Rightarrow> None | v # _ \<Rightarrow> Some (desc v))
      = map_option desc (find is_active vs)" for vs
    by (induction vs) auto
  have upd: "role_values q (set_role role vs f) = (if q = role then vs else role_values q f)"
    if "q \<in> set ROLES" for q vs
    using role that by (rule role_values_set_role)
  show ?thesis
    using assms role upd
    by (auto simp: update_role_def Let_def find comp_def
        simp del: role_values.simps set_role.simps)
qed

definition sample_function :: function_fields where
  "sample_function = \<lparr>trigger = [], condition = [],
     action = [manual_value ''old'' 1], benefit = [], name_normalized = [],
     attributes = [], priority_from_source = None,
     source_authority = None\<rparr>"

definition sample_node :: memory_node where
  "sample_node = \<lparr>node_id = ''f1'', memory_type = ''function'', node_name = ''old'',
     node_domain = None, confidence = 1, source_type = WIKI, owner = Some ''alice'',
     tenant_id = Some ''t1'', owner_subject_id = Some ''alice'',
     workspace_id = Some ''w1'', visibility = Some ''workspace'', provenance = [],
     version = 1, created_at = None, updated_at = None, origin_session = None,
     access_count = 0, last_accessed_at = None, source_paragraphs = [], needs_review = False,
     needs_review_until = None, content_hash = None, namespace = [], knowledge_tier = None, trust_tier = 3,
     body = FunctionB sample_function\<rparr>"

lemma sample_update:
  "\<exists>r. update_role (\<lambda>_. ''now'') 5 sample_node sample_function ''action'' ''new'' = Inr r"
  by (simp add: update_role_def ROLES_def Let_def)

theorem update_role_correct_witness:
  "\<exists>old n' f'. update_role (\<lambda>_. ''now'') 5 sample_node sample_function ''action'' ''new''
      = Inr (old, n') \<and> body n' = FunctionB f'
    \<and> filter is_active (role_values ''action'' f') = [manual_value ''new'' 5]"
proof -
  obtain old n' where
    u: "update_role (\<lambda>_. ''now'') 5 sample_node sample_function ''action'' ''new'' = Inr (old, n')"
    using sample_update by (metis surj_pair)
  from update_role_correct [OF u] u show ?thesis by blast
qed

lemma check_belongs_to_iff:
  "check_belongs_to d es = Inr () \<longleftrightarrow>
    (\<forall>e \<in> set es. edge_type e = ''BELONGS_TO'' \<longrightarrow>
      (\<exists>src dom. dict_get d (edge_source e) = Some src \<and> node_domain src = Some dom
         \<and> dom \<noteq> [] \<and> edge_target e = domain_node_id dom))"
  by (induction es) (auto simp: truthy_iff split: option.splits)

text \<open>
  the BELONGS\_TO contract: validation succeeds exactly when every function id is
  valid and every BELONGS\_TO edge starts at a function of the graph with a non-empty
  domain and ends at that domain's virtual node.
\<close>
theorem validate_belongs_to_edges_iff:
  "validate_belongs_to_edges fs es = Inr () \<longleftrightarrow>
    (\<exists>ids. mapR (\<lambda>f. validate_func_id (node_id f)) fs = Inr ids) \<and>
    (\<forall>e \<in> set es. edge_type e = ''BELONGS_TO'' \<longrightarrow>
      (\<exists>src dom. dict_get (function_index fs) (edge_source e) = Some src
         \<and> node_domain src = Some dom
         \<and> dom \<noteq> [] \<and> edge_target e = domain_node_id dom))"
  by (simp add: validate_belongs_to_edges_def check_belongs_to_iff)

theorem validate_belongs_to_edges_iff_witness:
  "validate_belongs_to_edges [sample_node\<lparr>node_domain := Some ''Billing Team''\<rparr>]
     [\<lparr>edge_source = ''f1'', edge_target = ''domain_billing_team'', edge_type = ''BELONGS_TO'',
       edge_weight = 1\<rparr>] = Inr ()"
proof -
  let ?n = "sample_node\<lparr>node_domain := Some ''Billing Team''\<rparr>"
  have "validate_func_id ''f1'' = Inr ''f1''"
    by (simp add: validate_func_id_def func_id_char_def MAX_FUNC_ID_LENGTH_def)
  moreover have "domain_node_id ''Billing Team'' = ''domain_billing_team''"
    by (simp add: domain_node_id_def py_lower_def py_lower_char_def char_of_def bit_Suc_0_iff)
  ultimately show ?thesis
    unfolding validate_belongs_to_edges_iff
    by (simp add: function_index_def sample_node_def)
qed

end
