(* ===== verification/Temporal.thy ===== *)
theory Temporal
  imports Memory_Model
begin

section \<open>Bi-temporal fact validity\<close>

text \<open>
  \<^verbatim>\<open>memplex/temporal.py\<close>, and the part of \<^verbatim>\<open>memplex/capture_identity.py\<close> that
  decides which facts may contradict each other.  A fact is a memory node whose body
  is \<open>FactB\<close>; \<open>getattr(fact, "subject", "")\<close> is a total function with the default for
  other nodes.  The functions mutate the facts they are given; the model returns the
  changed list next to the list of superseded facts.
\<close>

subsection \<open>Fields of a fact with the defaults of getattr\<close>

fun fact_of :: "node_body \<Rightarrow> fact_fields option" where
  "fact_of (FactB f) = Some f"
| "fact_of _ = None"

definition is_fact :: "memory_node \<Rightarrow> bool" where
  "is_fact n = (fact_of (body n) \<noteq> None)"

definition get_invalid_at :: "memory_node \<Rightarrow> string option" where
  "get_invalid_at n = (case fact_of (body n) of None \<Rightarrow> None | Some f \<Rightarrow> invalid_at f)"

definition get_valid_from :: "memory_node \<Rightarrow> string option" where
  "get_valid_from n = (case fact_of (body n) of None \<Rightarrow> None | Some f \<Rightarrow> valid_from f)"

definition get_valid_until :: "memory_node \<Rightarrow> string option" where
  "get_valid_until n = (case fact_of (body n) of None \<Rightarrow> None | Some f \<Rightarrow> valid_until f)"

definition set_invalid_at :: "string \<Rightarrow> memory_node \<Rightarrow> memory_node" where
  "set_invalid_at stamp n = (case fact_of (body n) of None \<Rightarrow> n
     | Some f \<Rightarrow> n\<lparr>body := FactB (f\<lparr>invalid_at := Some stamp\<rparr>)\<rparr>)"

definition fact_key :: "memory_node \<Rightarrow> string \<times> string" where
  "fact_key n = (case fact_of (body n) of None \<Rightarrow> ([], [])
     | Some f \<Rightarrow> (py_lower (py_strip (subject f)), py_lower (py_strip (predicate f))))"

subsection \<open>Validity at a point in time\<close>

definition parse_stamp :: "iso_parser \<Rightarrow> string option \<Rightarrow> int option" where
  "parse_stamp fromiso v = (if truthy v then map_option as_utc (fromiso (the v)) else None)"

definition is_valid_at :: "iso_parser \<Rightarrow> int \<Rightarrow> memory_node \<Rightarrow> bool" where
  "is_valid_at fromiso when fct =
     (let start = parse_stamp fromiso (get_valid_from fct);
          finish = parse_stamp fromiso (get_invalid_at fct);
          shelf = parse_stamp fromiso (get_valid_until fct)
      in if (case start of Some s \<Rightarrow> when < s | None \<Rightarrow> False) then False
         else if (case finish of Some e \<Rightarrow> e \<le> when | None \<Rightarrow> False) then False
         else \<not> (case shelf of Some e \<Rightarrow> e \<le> when | None \<Rightarrow> False))"

definition facts_valid_at :: "iso_parser \<Rightarrow> int \<Rightarrow> memory_node list \<Rightarrow> memory_node list" where
  "facts_valid_at fromiso as_of facts = filter (is_valid_at fromiso as_of) facts"

subsection \<open>Superseding contradicted facts\<close>

text \<open>
  The loop over the existing facts: its result is the list with the stamped facts in
  place, and the stamped facts in order.  \<open>clock\<close> is the time \<open>is_valid_at\<close> reads.
\<close>

fun supersede_loop ::
  "iso_parser \<Rightarrow> int \<Rightarrow> string \<Rightarrow> (string \<times> string) \<Rightarrow> string \<Rightarrow> memory_node list
   \<Rightarrow> memory_node list \<times> memory_node list" where
  "supersede_loop fromiso clock stamp slot new_id [] = ([], [])"
| "supersede_loop fromiso clock stamp slot new_id (fct # existing) =
     (let (rest, superseded) = supersede_loop fromiso clock stamp slot new_id existing
      in if node_id fct = new_id then (fct # rest, superseded)
         else if fact_key fct \<noteq> slot then (fct # rest, superseded)
         else if get_invalid_at fct \<noteq> None then (fct # rest, superseded)
         else if \<not> is_valid_at fromiso clock fct then (fct # rest, superseded)
         else (set_invalid_at stamp fct # rest, set_invalid_at stamp fct # superseded))"

definition supersede_contradicted ::
  "iso_parser \<Rightarrow> (int \<Rightarrow> string) \<Rightarrow> int \<Rightarrow> memory_node \<Rightarrow> memory_node list \<Rightarrow> string option
   \<Rightarrow> memory_node list \<times> memory_node list" where
  "supersede_contradicted fromiso isoformat clock new_fact existing now =
     (let stamp = (if truthy now then the now else isoformat clock)
      in supersede_loop fromiso clock stamp (fact_key new_fact) (node_id new_fact) existing)"

subsection \<open>Capture scopes\<close>

definition CAPTURE_PREFIXES :: "string list" where
  "CAPTURE_PREFIXES = [''func_capture_v1_'', ''fact_capture_v1_'', ''pref_capture_v1_'']"

definition is_captured :: "memory_node \<Rightarrow> bool" where
  "is_captured n = list_ex (\<lambda>p. prefix p (node_id n)) CAPTURE_PREFIXES"

definition blank :: "string option \<Rightarrow> bool" where
  "blank v = (case v of None \<Rightarrow> True | Some s \<Rightarrow> py_strip s = [])"

definition capture_scope :: "memory_node \<Rightarrow> string list option" where
  "capture_scope n =
     (case visibility n of None \<Rightarrow> None
      | Some vis \<Rightarrow>
         if vis \<notin> {''user'', ''workspace'', ''session''} then None
         else
           let values = [tenant_id n, owner_subject_id n, Some vis]
                 @ (if vis \<in> {''workspace'', ''session''} then [workspace_id n] else [])
                 @ (if vis = ''session''
                    then [dict_get (provenance n) ''agent_id'', origin_session n] else [])
           in if list_ex blank values then None else Some (map the values))"

definition capture_scopes_match :: "memory_node \<Rightarrow> memory_node \<Rightarrow> bool" where
  "capture_scopes_match l r =
     (if \<not> is_captured l \<and> \<not> is_captured r then True
      else capture_scope l \<noteq> None \<and> capture_scope l = capture_scope r)"

subsection \<open>Lemmas\<close>

definition contradicts ::
  "iso_parser \<Rightarrow> int \<Rightarrow> memory_node \<Rightarrow> memory_node \<Rightarrow> bool" where
  "contradicts fromiso clock new_fact fct \<longleftrightarrow>
     node_id fct \<noteq> node_id new_fact \<and> fact_key fct = fact_key new_fact
     \<and> get_invalid_at fct = None \<and> is_valid_at fromiso clock fct"

lemma get_set_invalid_at [simp]:
  "is_fact n \<Longrightarrow> get_invalid_at (set_invalid_at s n) = Some s"
  by (auto simp: is_fact_def get_invalid_at_def set_invalid_at_def)

lemma set_invalid_at_frame [simp]:
  "node_id (set_invalid_at s n) = node_id n"
  "fact_key (set_invalid_at s n) = fact_key n"
  "get_valid_from (set_invalid_at s n) = get_valid_from n"
  "get_valid_until (set_invalid_at s n) = get_valid_until n"
  "is_fact (set_invalid_at s n) = is_fact n"
  by (auto simp: set_invalid_at_def fact_key_def get_valid_from_def get_valid_until_def
      is_fact_def split: option.splits)

lemma supersede_loop_eq:
  "supersede_loop fromiso clock stamp (fact_key f) (node_id f) existing =
     (map (\<lambda>g. if contradicts fromiso clock f g then set_invalid_at stamp g else g) existing,
      map (set_invalid_at stamp) (filter (contradicts fromiso clock f) existing))"
  by (induction existing) (auto simp: contradicts_def)

lemma is_valid_at_invalid:
  "parse_stamp fromiso (get_invalid_at n) = Some e \<Longrightarrow> e \<le> when \<Longrightarrow> \<not> is_valid_at fromiso when n"
  by (simp add: is_valid_at_def Let_def)

lemma is_valid_at_before:
  assumes "get_invalid_at n = None" "is_fact n" "s \<noteq> []" "fromiso s = Some d" "when < as_utc d"
  shows "is_valid_at fromiso when (set_invalid_at s n) = is_valid_at fromiso when n"
  using assms by (simp add: is_valid_at_def Let_def parse_stamp_def)

text \<open>
  superseding keeps history.  With a readable stamp at time t: (1) before t every
  stored fact is valid exactly when it was; (2) from t on no stored fact of the new
  fact's slot is valid, other than the new fact itself and facts that were already
  superseded or not valid at the time of the write; (3) facts of other slots, and the
  order and identity of the stored facts, do not change.
\<close>
theorem supersede_contradicted_history:
  assumes facts: "\<And>g. g \<in> set existing \<Longrightarrow> is_fact g"
    and stamp: "stamp \<noteq> []" "fromiso stamp = Some d"
    and run: "supersede_contradicted fromiso isoformat clock f existing (Some stamp)
                = (existing', superseded)"
    and i: "i < length existing"
  shows "length existing' = length existing
    \<and> node_id (existing' ! i) = node_id (existing ! i)
    \<and> (when < as_utc d \<longrightarrow>
         is_valid_at fromiso when (existing' ! i) = is_valid_at fromiso when (existing ! i))
    \<and> (as_utc d \<le> when \<and> fact_key (existing ! i) = fact_key f
         \<and> node_id (existing ! i) \<noteq> node_id f \<and> get_invalid_at (existing ! i) = None
         \<and> is_valid_at fromiso clock (existing ! i)
         \<longrightarrow> \<not> is_valid_at fromiso when (existing' ! i))
    \<and> (fact_key (existing ! i) \<noteq> fact_key f \<longrightarrow> existing' ! i = existing ! i)"
proof -
  let ?g = "existing ! i"
  have ex: "existing' = map (\<lambda>g. if contradicts fromiso clock f g
      then set_invalid_at stamp g else g) existing"
    using run stamp by (simp add: supersede_contradicted_def supersede_loop_eq)
  have g: "is_fact ?g" using facts i by simp
  have nth: "existing' ! i = (if contradicts fromiso clock f ?g then set_invalid_at stamp ?g else ?g)"
    using i by (simp add: ex)
  have parsed: "parse_stamp fromiso (get_invalid_at (set_invalid_at stamp ?g)) = Some (as_utc d)"
    using g stamp by (simp add: parse_stamp_def)
  show ?thesis
  proof (cases "contradicts fromiso clock f ?g")
    case True
    then have none: "get_invalid_at ?g = None" and key: "fact_key ?g = fact_key f"
      by (simp_all add: contradicts_def)
    have "is_valid_at fromiso when (set_invalid_at stamp ?g) = is_valid_at fromiso when ?g"
      if "when < as_utc d"
      using none g stamp that by (rule is_valid_at_before)
    with True nth key show ?thesis
      using is_valid_at_invalid [OF parsed] by (simp add: ex)
  next
    case False
    then have same: "existing' ! i = ?g" using nth by simp
    have len: "length existing' = length existing" by (simp add: ex)
    from False show ?thesis unfolding same by (auto simp: len contradicts_def)
  qed
qed

definition fact_node :: "string \<Rightarrow> string \<Rightarrow> string \<Rightarrow> string \<Rightarrow> memory_node" where
  "fact_node i s p ob = sample_node\<lparr>node_id := i, memory_type := ''fact'',
     body := FactB \<lparr>subject = s, predicate = p, object_text = ob, valid_until = None,
       valid_from = None, invalid_at = None\<rparr>\<rparr>"

lemmas fact_node_simps =
  fact_node_def sample_node_def fact_key_def get_invalid_at_def get_valid_from_def
  get_valid_until_def is_fact_def set_invalid_at_def

definition toy_iso :: iso_parser where
  "toy_iso s = (if s = ''t5'' then Some (Aware 5) else if s = ''t9'' then Some (Aware 9) else None)"

theorem supersede_contradicted_history_witness:
  "\<exists>ex' sup. supersede_contradicted toy_iso (\<lambda>_. ''t5'') 5 (fact_node ''b'' ''user'' ''city'' ''Vienna'')
      [fact_node ''a'' ''user'' ''city'' ''Berlin''] (Some ''t5'') = (ex', sup)
    \<and> \<not> is_valid_at toy_iso 7 (ex' ! 0) \<and> is_valid_at toy_iso 3 (ex' ! 0)"
proof -
  let ?new = "fact_node ''b'' ''user'' ''city'' ''Vienna''"
  let ?old = "fact_node ''a'' ''user'' ''city'' ''Berlin''"
  obtain ex' sup where run:
    "supersede_contradicted toy_iso (\<lambda>_. ''t5'') 5 ?new [?old] (Some ''t5'') = (ex', sup)"
    by (metis surj_pair)
  have fact: "g \<in> set [?old] \<Longrightarrow> is_fact g" for g by (simp add: fact_node_simps)
  have fromiso: "toy_iso ''t5'' = Some (Aware 5)" by (simp add: toy_iso_def)
  have valid: "is_valid_at toy_iso w ?old" for w
    by (simp add: is_valid_at_def parse_stamp_def fact_node_simps Let_def)
  have slot: "fact_key ?old = fact_key ?new" "node_id ?old \<noteq> node_id ?new"
    "get_invalid_at ?old = None"
    by (simp_all add: fact_node_simps)
  note h = supersede_contradicted_history [OF fact _ fromiso run]
  from h [of 0 7] h [of 0 3] valid slot have "\<not> is_valid_at toy_iso 7 (ex' ! 0)"
    and "is_valid_at toy_iso 3 (ex' ! 0)"
    by simp_all
  with run show ?thesis by blast
qed

text \<open>
  a fact that says the same thing is superseded like one that contradicts: the
  object of a fact does not matter, only its slot and its identifier.  The stamp is the
  time of the write, whatever the new fact's own \<open>valid_from\<close> says.
\<close>
theorem supersede_ignores_object:
  assumes "is_fact g" "fact_key g = fact_key f" "node_id g \<noteq> node_id f"
    and "get_invalid_at g = None" "is_valid_at fromiso clock g"
  shows "supersede_contradicted fromiso isoformat clock f [g] None =
    ([set_invalid_at (isoformat clock) g], [set_invalid_at (isoformat clock) g])"
  using assms
  by (simp add: supersede_contradicted_def supersede_loop_eq contradicts_def Let_def)

theorem supersede_ignores_object_witness:
  "supersede_contradicted toy_iso (\<lambda>_. ''t9'') 9 (fact_node ''b'' ''user'' ''city'' ''Berlin'')
      [fact_node ''a'' ''user'' ''city'' ''Berlin''] None =
   ([set_invalid_at ''t9'' (fact_node ''a'' ''user'' ''city'' ''Berlin'')],
    [set_invalid_at ''t9'' (fact_node ''a'' ''user'' ''city'' ''Berlin'')])"
  by (rule supersede_ignores_object)
    (simp_all add: fact_node_simps is_valid_at_def parse_stamp_def Let_def)

text \<open>
  capture scopes separate writers.  Two nodes of which at least one was captured
  may contradict each other only if both carry a complete canonical scope and agree on
  tenant, owner and visibility, and on the workspace unless the memory is a user memory.
\<close>
theorem capture_scopes_match_identity:
  assumes "capture_scopes_match l r" and "is_captured l \<or> is_captured r"
  shows "tenant_id l = tenant_id r \<and> owner_subject_id l = owner_subject_id r
    \<and> visibility l = visibility r \<and> tenant_id l \<noteq> None
    \<and> (visibility l \<noteq> Some ''user'' \<longrightarrow> workspace_id l = workspace_id r)
    \<and> (visibility l = Some ''session'' \<longrightarrow> origin_session l = origin_session r)"
  using assms
  by (auto simp: capture_scopes_match_def capture_scope_def blank_def Let_def
      split: option.splits if_splits)

theorem capture_scopes_match_identity_witness:
  "capture_scopes_match (sample_node\<lparr>node_id := ''func_capture_v1_x''\<rparr>) sample_node
    \<and> tenant_id (sample_node\<lparr>node_id := ''func_capture_v1_x''\<rparr>) = tenant_id sample_node"
proof -
  let ?l = "sample_node\<lparr>node_id := ''func_capture_v1_x''\<rparr>"
  have cap: "is_captured ?l"
    by (simp add: is_captured_def CAPTURE_PREFIXES_def sample_node_def)
  have m: "capture_scopes_match ?l sample_node"
    by (simp add: capture_scopes_match_def capture_scope_def sample_node_def blank_def
        py_strip_def py_space_def)
  from capture_scopes_match_identity [OF m] cap m show ?thesis by simp
qed

end
