(* ===== verification/Fact_Store.thy ===== *)
theory Fact_Store
  imports Temporal
begin

section \<open>The fact-store interface and the maintenance that uses it\<close>

text \<open>
  The store methods the maintenance code calls (\<^verbatim>\<open>list_facts\<close>, \<^verbatim>\<open>add_fact\<close>,
  \<^verbatim>\<open>get_fact\<close>), as the locale \<open>fact_store\<close>, and its two clients:
  \<^verbatim>\<open>improve_facts\<close> of \<^verbatim>\<open>memplex/improve.py\<close> and the batch supersession of
  \<^verbatim>\<open>memplex/service.py\<close>.  The clients' definitions take the store's methods as
  arguments; their lemmas are proved once, under the interface's laws.
\<close>

subsection \<open>Best-effort persistence\<close>

fun persist_all ::
  "('st \<Rightarrow> memory_node \<Rightarrow> 'st result) \<Rightarrow> memory_node list \<Rightarrow> 'st \<Rightarrow> 'st" where
  "persist_all add [] st = st"
| "persist_all add (f # fs) st =
     (case add st f of Inl _ \<Rightarrow> persist_all add fs st | Inr st' \<Rightarrow> persist_all add fs st')"

subsection \<open>improve: deduplicate and expire\<close>

text \<open>
  One pass over the listed facts: already superseded facts are left alone, a fact past
  its shelf life is stamped, every other fact goes to the bucket of its slot.
\<close>

definition past_shelf :: "iso_parser \<Rightarrow> int \<Rightarrow> memory_node \<Rightarrow> bool" where
  "past_shelf fromiso clock n =
     (case parse_stamp fromiso (get_valid_until n) of None \<Rightarrow> False | Some e \<Rightarrow> e \<le> clock)"

fun improve_scan ::
  "iso_parser \<Rightarrow> int \<Rightarrow> string \<Rightarrow> memory_node list
   \<Rightarrow> ((string \<times> string), memory_node list) dict \<Rightarrow> memory_node list
   \<Rightarrow> ((string \<times> string), memory_node list) dict \<times> memory_node list" where
  "improve_scan fromiso clock stamp [] buckets expired = (buckets, expired)"
| "improve_scan fromiso clock stamp (f # fs) buckets expired =
     (if get_invalid_at f \<noteq> None then improve_scan fromiso clock stamp fs buckets expired
      else if past_shelf fromiso clock f
        then improve_scan fromiso clock stamp fs buckets (expired @ [set_invalid_at stamp f])
      else improve_scan fromiso clock stamp fs (dict_append (fact_key f) f buckets) expired)"

definition updated_key :: "memory_node \<Rightarrow> string" where
  "updated_key n = (case updated_at n of None \<Rightarrow> [] | Some s \<Rightarrow> s)"

definition bucket_losers :: "memory_node list \<Rightarrow> memory_node list" where
  "bucket_losers bucket =
     (if length bucket < 2 then [] else tl (sort_desc updated_key bucket))"

definition dedup_updates ::
  "string \<Rightarrow> ((string \<times> string), memory_node list) dict \<Rightarrow> memory_node list" where
  "dedup_updates stamp buckets =
     concat (map (\<lambda>(slot, bucket). map (set_invalid_at stamp) (bucket_losers bucket)) buckets)"

record improve_report =
  deduplicated :: nat
  expired_count :: nat
  index_rebuilt :: bool

definition improve_updates ::
  "iso_parser \<Rightarrow> int \<Rightarrow> string \<Rightarrow> memory_node list \<Rightarrow> memory_node list \<times> memory_node list" where
  "improve_updates fromiso clock stamp facts =
     (let (buckets, expired) = improve_scan fromiso clock stamp facts [] []
      in (dedup_updates stamp buckets, expired))"

text \<open>
  \<open>rebuild\<close> is the store's \<open>rebuild_search_index\<close>: \<open>None\<close> if it has none, else what the
  call returns.
\<close>

definition improve_facts ::
  "('st \<Rightarrow> nat \<Rightarrow> nat \<Rightarrow> memory_node list result) \<Rightarrow> ('st \<Rightarrow> memory_node \<Rightarrow> 'st result)
   \<Rightarrow> ('st \<Rightarrow> 'st result) option \<Rightarrow> iso_parser \<Rightarrow> int \<Rightarrow> string \<Rightarrow> 'st
   \<Rightarrow> 'st \<times> improve_report" where
  "improve_facts list_facts add_fact rebuild fromiso clock stamp st =
     (case list_facts st 0 100000 of
        Inl _ \<Rightarrow> (st, \<lparr>deduplicated = 0, expired_count = 0, index_rebuilt = False\<rparr>)
      | Inr facts \<Rightarrow>
          let (dedups, expired) = improve_updates fromiso clock stamp facts;
              st1 = persist_all add_fact (dedups @ expired) st;
              (st2, rebuilt) = (case rebuild of None \<Rightarrow> (st1, False)
                | Some r \<Rightarrow> (case r st1 of Inl _ \<Rightarrow> (st1, False) | Inr s \<Rightarrow> (s, True)))
          in (st2, \<lparr>deduplicated = length dedups, expired_count = length expired,
                    index_rebuilt = rebuilt\<rparr>))"

subsection \<open>Superseding for a batch of new facts\<close>

text \<open>
  The generator passed to \<open>supersede_contradicted\<close> yields the objects of the listing
  themselves, so the stamps are visible to the later new facts of the batch:
  \<open>merge_back\<close> puts the processed candidates back at their positions.
\<close>

fun merge_back :: "('a \<Rightarrow> bool) \<Rightarrow> 'a list \<Rightarrow> 'a list \<Rightarrow> 'a list" where
  "merge_back P [] ys = []"
| "merge_back P (x # xs) ys =
     (if P x then (case ys of [] \<Rightarrow> x # merge_back P xs [] | y # ys' \<Rightarrow> y # merge_back P xs ys')
      else x # merge_back P xs ys)"

definition object_of :: "memory_node \<Rightarrow> string" where
  "object_of n = (case fact_of (body n) of None \<Rightarrow> [] | Some f \<Rightarrow> object_text f)"

definition may_contradict :: "memory_node \<Rightarrow> memory_node \<Rightarrow> bool" where
  "may_contradict new_fact old_fact =
     (capture_scopes_match new_fact old_fact
      \<and> \<not> (dict_get (provenance new_fact) ''capture_input'' = Some ''factual_capture_v1''
           \<and> object_of new_fact = object_of old_fact))"

definition fill_valid_from :: "string \<Rightarrow> memory_node \<Rightarrow> memory_node" where
  "fill_valid_from now n = (case fact_of (body n) of None \<Rightarrow> n
     | Some f \<Rightarrow> if truthy (valid_from f) then n
                  else n\<lparr>body := FactB (f\<lparr>valid_from := Some now\<rparr>)\<rparr>)"

fun supersede_each ::
  "('st \<Rightarrow> memory_node \<Rightarrow> 'st result) \<Rightarrow> iso_parser \<Rightarrow> (int \<Rightarrow> string) \<Rightarrow> int
   \<Rightarrow> memory_node list \<Rightarrow> memory_node list \<Rightarrow> 'st \<Rightarrow> memory_node list \<times> 'st" where
  "supersede_each add_fact fromiso isoformat clock [] existing st = ([], st)"
| "supersede_each add_fact fromiso isoformat clock (new_fact # facts) existing st =
     (let new1 = fill_valid_from (isoformat clock) new_fact;
          cands = filter (may_contradict new1) existing;
          (cands', superseded) =
            supersede_contradicted fromiso isoformat clock new1 cands None;
          existing' = merge_back (may_contradict new1) existing cands';
          (news, st') = supersede_each add_fact fromiso isoformat clock facts existing'
                          (persist_all add_fact superseded st)
      in (new1 # news, st'))"

definition supersede_contradicted_facts_batch ::
  "('st \<Rightarrow> nat \<Rightarrow> nat \<Rightarrow> memory_node list result) \<Rightarrow> ('st \<Rightarrow> memory_node \<Rightarrow> 'st result)
   \<Rightarrow> iso_parser \<Rightarrow> (int \<Rightarrow> string) \<Rightarrow> int \<Rightarrow> memory_node list \<Rightarrow> 'st
   \<Rightarrow> memory_node list \<times> 'st" where
  "supersede_contradicted_facts_batch list_facts add_fact fromiso isoformat clock facts st =
     (case list_facts st 0 1000 of
        Inl _ \<Rightarrow> (facts, st)
      | Inr existing \<Rightarrow> supersede_each add_fact fromiso isoformat clock facts existing st)"

subsection \<open>The scan, described by filters\<close>

lemma improve_scan_expired:
  "snd (improve_scan fromiso clock stamp fs b e) =
     e @ map (set_invalid_at stamp)
       (filter (\<lambda>f. get_invalid_at f = None \<and> past_shelf fromiso clock f) fs)"
  by (induction fs arbitrary: b e) auto

definition maintained :: "iso_parser \<Rightarrow> int \<Rightarrow> memory_node \<Rightarrow> bool" where
  "maintained fromiso clock f \<longleftrightarrow> get_invalid_at f = None \<and> \<not> past_shelf fromiso clock f"

definition bucket_at :: "((string \<times> string), memory_node list) dict \<Rightarrow> string \<times> string
    \<Rightarrow> memory_node list" where
  "bucket_at b slot = (case dict_get b slot of None \<Rightarrow> [] | Some l \<Rightarrow> l)"

lemma bucket_at_append:
  "bucket_at (dict_append k v b) slot = (if slot = k then bucket_at b k @ [v] else bucket_at b slot)"
  by (simp add: bucket_at_def dict_append_def dict_simps)

lemma improve_scan_bucket:
  "bucket_at (fst (improve_scan fromiso clock stamp fs b e)) slot =
     bucket_at b slot @ filter (\<lambda>f. maintained fromiso clock f \<and> fact_key f = slot) fs"
  by (induction fs arbitrary: b e) (auto simp: bucket_at_append maintained_def)

lemma improve_scan_wf [keeps]:
  "dict_wf b \<Longrightarrow> dict_wf (fst (improve_scan fromiso clock stamp fs b e))"
  by (induction fs arbitrary: b e) (auto simp: dict_append_def distinct_update)

text \<open>The losers of a slot: every maintained fact of it but one.\<close>

definition losers :: "iso_parser \<Rightarrow> int \<Rightarrow> memory_node list \<Rightarrow> memory_node list" where
  "losers fromiso clock fs =
     concat (map (\<lambda>(slot, bucket). bucket_losers bucket)
       (fst (improve_scan fromiso clock [] fs [] [])))"

lemma improve_scan_buckets_stamp:
  "fst (improve_scan fromiso clock stamp fs b e) = fst (improve_scan fromiso clock stamp' fs b e')"
  by (induction fs arbitrary: b e e') auto

lemma improve_updates_eq:
  "improve_updates fromiso clock stamp fs =
     (map (set_invalid_at stamp) (losers fromiso clock fs),
      map (set_invalid_at stamp)
        (filter (\<lambda>f. get_invalid_at f = None \<and> past_shelf fromiso clock f) fs))"
proof -
  have "fst (improve_scan fromiso clock stamp fs [] []) = fst (improve_scan fromiso clock [] fs [] [])"
    by (rule improve_scan_buckets_stamp)
  then show ?thesis
    using improve_scan_expired [of fromiso clock stamp fs "[]" "[]"]
    by (simp add: improve_updates_def losers_def dedup_updates_def map_concat comp_def
        case_prod_unfold)
qed

lemma bucket_in_scan:
  assumes "(slot, bucket) \<in> set (fst (improve_scan fromiso clock stamp fs [] []))"
  shows "bucket = filter (\<lambda>f. maintained fromiso clock f \<and> fact_key f = slot) fs"
proof -
  have "dict_get (fst (improve_scan fromiso clock stamp fs [] [])) slot = Some bucket"
    using assms by (intro in_set_dict_get improve_scan_wf) simp_all
  then show ?thesis
    using improve_scan_bucket [of fromiso clock stamp fs "[]" "[]" slot]
    by (simp add: bucket_at_def)
qed

lemma set_bucket_losers: "set (bucket_losers bucket) \<subseteq> set bucket"
proof -
  have "set (tl (sort_desc updated_key bucket)) \<subseteq> set (sort_desc updated_key bucket)"
    by (cases "sort_desc updated_key bucket") auto
  then show ?thesis by (auto simp: bucket_losers_def)
qed

lemma losers_maintained:
  "f \<in> set (losers fromiso clock fs) \<Longrightarrow> f \<in> set fs \<and> maintained fromiso clock f"
  using set_bucket_losers by (fastforce simp: losers_def dest: bucket_in_scan)

lemma two_in_bucket_one_loses:
  assumes "f \<in> set bucket" "g \<in> set bucket" "f \<noteq> g"
  shows "f \<in> set (bucket_losers bucket) \<or> g \<in> set (bucket_losers bucket)"
proof -
  have "card {f, g} \<le> card (set bucket)"
    using assms by (intro card_mono) auto
  then have len: "2 \<le> length bucket"
    using assms(3) card_length [of bucket] by simp
  obtain w rest where s: "sort_desc updated_key bucket = w # rest"
    using len by (cases "sort_desc updated_key bucket")
      (auto dest: arg_cong [where f = length])
  have "set bucket = insert w (set rest)"
    using set_sort_desc [of updated_key bucket] by (simp add: s)
  then show ?thesis using assms len by (auto simp: bucket_losers_def s)
qed

lemma slot_has_one_winner:
  assumes "f \<in> set fs" "g \<in> set fs" "f \<noteq> g" "fact_key f = fact_key g"
    and "maintained fromiso clock f" "maintained fromiso clock g"
  shows "f \<in> set (losers fromiso clock fs) \<or> g \<in> set (losers fromiso clock fs)"
proof -
  define b where "b = fst (improve_scan fromiso clock [] fs [] [])"
  define l where "l = filter (\<lambda>h. maintained fromiso clock h \<and> fact_key h = fact_key f) fs"
  have at: "bucket_at b (fact_key f) = l"
    using improve_scan_bucket [of fromiso clock "[]" fs "[]" "[]" "fact_key f"]
    by (simp add: bucket_at_def b_def l_def)
  have in_l: "f \<in> set l" "g \<in> set l" using assms by (auto simp: l_def)
  then have lose: "f \<in> set (bucket_losers l) \<or> g \<in> set (bucket_losers l)"
    using assms(3) by (rule two_in_bucket_one_loses)
  have "dict_get b (fact_key f) = Some l"
    using at in_l by (cases "dict_get b (fact_key f)") (auto simp: bucket_at_def)
  then have mem: "(fact_key f, l) \<in> set b" by (rule dict_get_in_set)
  have "x \<in> set (losers fromiso clock fs)" if "x \<in> set (bucket_losers l)" for x
    unfolding losers_def b_def [symmetric] set_concat set_map
    using mem that by (intro UN_I) (erule imageI, simp)
  with lose show ?thesis by blast
qed

subsection \<open>The interface\<close>

text \<open>
  What the clients rely on: a listing returns the stored facts, each once; storing a fact
  replaces the one of its identifier, keeping its body, and no other.
\<close>

definition same_record :: "memory_node \<Rightarrow> memory_node \<Rightarrow> bool" where
  "same_record a b \<longleftrightarrow> node_id a = node_id b \<and> body a = body b \<and> tenant_id a = tenant_id b
     \<and> provenance a = provenance b"

lemma same_record_fields:
  assumes "same_record a b"
  shows "node_id a = node_id b" "fact_key a = fact_key b" "get_invalid_at a = get_invalid_at b"
    "get_valid_until a = get_valid_until b" "is_fact a = is_fact b"
    "past_shelf fromiso clock a = past_shelf fromiso clock b"
  using assms
  by (auto simp: same_record_def fact_key_def get_invalid_at_def get_valid_until_def
      is_fact_def past_shelf_def)

lemma set_invalid_at_scope [simp]:
  "tenant_id (set_invalid_at s n) = tenant_id n"
  "owner_subject_id (set_invalid_at s n) = owner_subject_id n"
  "visibility (set_invalid_at s n) = visibility n"
  "workspace_id (set_invalid_at s n) = workspace_id n"
  "provenance (set_invalid_at s n) = provenance n"
  "origin_session (set_invalid_at s n) = origin_session n"
  "object_of (set_invalid_at s n) = object_of n"
  by (auto simp: set_invalid_at_def object_of_def split: option.splits)

lemma capture_scope_stamped [simp]:
  "capture_scope (set_invalid_at s g) = capture_scope g"
  "is_captured (set_invalid_at s g) = is_captured g"
  unfolding capture_scope_def is_captured_def set_invalid_at_frame set_invalid_at_scope
  by (rule refl)+

lemma may_contradict_stamped [simp]: "may_contradict n (set_invalid_at s g) = may_contradict n g"
  by (simp add: may_contradict_def capture_scopes_match_def)

lemma fill_valid_from_frame [simp]:
  "node_id (fill_valid_from t n) = node_id n" "fact_key (fill_valid_from t n) = fact_key n"
  by (auto simp: fill_valid_from_def fact_key_def split: option.splits)

lemma contradicts_fill [simp]:
  "contradicts fromiso clock (fill_valid_from t n) = contradicts fromiso clock n"
  by (simp add: contradicts_def fun_eq_iff)

lemma merge_back_map: "merge_back P xs (map h (filter P xs)) = map (\<lambda>x. if P x then h x else x) xs"
  by (induction xs) auto

text \<open>The facts of a listing a batch may change: same slot, compatible scope, other id.\<close>

definition contestable :: "int \<Rightarrow> (int \<Rightarrow> string) \<Rightarrow> memory_node list \<Rightarrow> memory_node \<Rightarrow> bool" where
  "contestable clock isoformat news g \<longleftrightarrow> (\<exists>n \<in> set news.
     may_contradict (fill_valid_from (isoformat clock) n) g \<and> fact_key g = fact_key n
     \<and> node_id g \<noteq> node_id n)"

locale fact_store =
  fixes list_facts :: "'st \<Rightarrow> nat \<Rightarrow> nat \<Rightarrow> memory_node list result"
    and add_fact :: "'st \<Rightarrow> memory_node \<Rightarrow> 'st result"
    and get_fact :: "'st \<Rightarrow> string \<Rightarrow> memory_node option"
    and rebuild :: "('st \<Rightarrow> 'st result) option"
    and wf :: "'st \<Rightarrow> bool"
  assumes list_stored:
      "\<lbrakk>wf st; list_facts st 0 n = Inr fs; f \<in> set fs\<rbrakk> \<Longrightarrow> get_fact st (node_id f) = Some f"
    and list_complete:
      "\<lbrakk>wf st; list_facts st 0 n = Inr fs; length fs < n; get_fact st i = Some f\<rbrakk>
       \<Longrightarrow> f \<in> set fs"
    and stored: "\<lbrakk>wf st; get_fact st i = Some f\<rbrakk> \<Longrightarrow> node_id f = i \<and> is_fact f"
    and add_same: "\<lbrakk>wf st; is_fact f; add_fact st f = Inr st'\<rbrakk>
       \<Longrightarrow> \<exists>f'. get_fact st' (node_id f) = Some f' \<and> same_record f' f"
    and add_other: "\<lbrakk>wf st; is_fact f; add_fact st f = Inr st'; i \<noteq> node_id f\<rbrakk>
       \<Longrightarrow> get_fact st' i = get_fact st i"
    and add_wf: "\<lbrakk>wf st; is_fact f; add_fact st f = Inr st'\<rbrakk> \<Longrightarrow> wf st'"
    and rebuild_keeps: "\<lbrakk>rebuild = Some r; r st = Inr st'\<rbrakk> \<Longrightarrow> get_fact st' = get_fact st"
begin

abbreviation facts_only :: "memory_node list \<Rightarrow> bool" where
  "facts_only us \<equiv> \<forall>u \<in> set us. is_fact u"

lemma persist_wf: "wf st \<Longrightarrow> facts_only us \<Longrightarrow> wf (persist_all add_fact us st)"
  by (induction us arbitrary: st) (auto split: sum.splits dest: add_wf)

lemma persist_other:
  "wf st \<Longrightarrow> facts_only us \<Longrightarrow> i \<notin> node_id ` set us
   \<Longrightarrow> get_fact (persist_all add_fact us st) i = get_fact st i"
proof (induction us arbitrary: st)
  case Nil
  then show ?case by simp
next
  case (Cons u us)
  show ?case
  proof (cases "add_fact st u")
    case (Inl e)
    with Cons show ?thesis by simp
  next
    case (Inr st')
    have "wf st'" using Cons.prems Inr by (auto intro: add_wf)
    then have "get_fact (persist_all add_fact us st') i = get_fact st' i"
      using Cons.IH Cons.prems by simp
    moreover have "get_fact st' i = get_fact st i"
      using Cons.prems by (intro add_other [OF _ _ Inr]) auto
    ultimately show ?thesis using Inr by simp
  qed
qed

text \<open>Whatever fails, a stored fact is either as before or one of the updates.\<close>

lemma persist_cases:
  "wf st \<Longrightarrow> facts_only us \<Longrightarrow> get_fact (persist_all add_fact us st) i = get_fact st i
    \<or> (\<exists>u f'. u \<in> set us \<and> node_id u = i
        \<and> get_fact (persist_all add_fact us st) i = Some f' \<and> same_record f' u)"
proof (induction us arbitrary: st)
  case Nil
  then show ?case by simp
next
  case (Cons u us)
  show ?case
  proof (cases "add_fact st u")
    case (Inl e)
    with Cons show ?thesis by fastforce
  next
    case (Inr st')
    have wf': "wf st'" using Cons.prems Inr by (auto intro: add_wf)
    have "get_fact st' i = get_fact st i \<or>
        (\<exists>f'. node_id u = i \<and> get_fact st' i = Some f' \<and> same_record f' u)"
      using add_same [OF _ _ Inr] add_other [OF _ _ Inr] Cons.prems by (cases "i = node_id u") auto
    with Cons.IH [OF wf'] Cons.prems Inr show ?thesis by fastforce
  qed
qed

lemma persist_done:
  assumes ok: "\<And>s f. wf s \<Longrightarrow> \<exists>s'. add_fact s f = Inr s'"
  shows "wf st \<Longrightarrow> facts_only us \<Longrightarrow> i \<in> node_id ` set us \<Longrightarrow> \<exists>u f'. u \<in> set us \<and> node_id u = i
    \<and> get_fact (persist_all add_fact us st) i = Some f' \<and> same_record f' u"
proof (induction us arbitrary: st)
  case Nil
  then show ?case by simp
next
  case (Cons v us)
  from ok [OF Cons.prems(1)] obtain st' where st': "add_fact st v = Inr st'" by blast
  have wf': "wf st'" using Cons.prems st' by (auto intro: add_wf)
  show ?case
  proof (cases "i \<in> node_id ` set us")
    case True
    with Cons.IH [OF wf' _ True] Cons.prems(2) st' show ?thesis by fastforce
  next
    case False
    then have i: "i = node_id v" using Cons.prems(3) by auto
    have "get_fact (persist_all add_fact us st') i = get_fact st' i"
      using wf' False Cons.prems(2) by (intro persist_other) auto
    with add_same [OF Cons.prems(1) _ st'] Cons.prems(2) i st' show ?thesis by auto
  qed
qed

lemma listed:
  assumes "wf st" "list_facts st 0 n = Inr fs" "f \<in> set fs"
  shows "is_fact f" "get_fact st (node_id f) = Some f"
  using assms list_stored stored by blast+

text \<open>What \<open>improve_facts\<close> writes: stamped copies of listed, not yet superseded facts.\<close>

lemma improve_writes:
  assumes "improve_updates fromiso clock stamp fs = (dedups, expired)" "u \<in> set (dedups @ expired)"
  shows "\<exists>f. f \<in> set fs \<and> get_invalid_at f = None \<and> u = set_invalid_at stamp f"
  using assms
  by (auto simp: improve_updates_eq maintained_def dest!: losers_maintained) blast

lemma improve_store:
  assumes "list_facts st 0 100000 = Inr fs"
    and "improve_updates fromiso clock stamp fs = (dedups, expired)"
  shows "get_fact (fst (improve_facts list_facts add_fact rebuild fromiso clock stamp st))
    = get_fact (persist_all add_fact (dedups @ expired) st)"
  using assms rebuild_keeps
  by (auto simp: improve_facts_def Let_def split: option.splits sum.splits)

lemma improve_history:
  assumes wf: "wf st" and a: "get_fact st i = Some a"
  shows "\<exists>a'. get_fact (fst (improve_facts list_facts add_fact rebuild fromiso clock stamp st)) i
      = Some a' \<and> fact_key a' = fact_key a
    \<and> (get_invalid_at a' = get_invalid_at a
       \<or> get_invalid_at a = None \<and> get_invalid_at a' = Some stamp)"
proof (cases "list_facts st 0 100000")
  case (Inl e)
  then show ?thesis using a by (simp add: improve_facts_def)
next
  case (Inr fs)
  obtain dedups expired where us: "improve_updates fromiso clock stamp fs = (dedups, expired)"
    by (cases "improve_updates fromiso clock stamp fs")
  let ?us = "dedups @ expired"
  have facts: "facts_only ?us"
    using improve_writes [OF us] listed(1) [OF wf Inr] by fastforce
  from persist_cases [OF wf facts, of i] show ?thesis
  proof
    assume "get_fact (persist_all add_fact ?us st) i = get_fact st i"
    with a show ?thesis by (simp add: improve_store [OF Inr us])
  next
    assume "\<exists>u f'. u \<in> set ?us \<and> node_id u = i
        \<and> get_fact (persist_all add_fact ?us st) i = Some f' \<and> same_record f' u"
    then obtain u f' where u: "u \<in> set ?us" "node_id u = i"
        "get_fact (persist_all add_fact ?us st) i = Some f'" "same_record f' u"
      by blast
    from improve_writes [OF us u(1)] obtain f where
      f: "f \<in> set fs" "get_invalid_at f = None" "u = set_invalid_at stamp f" by blast
    have "f = a" using listed(2) [OF wf Inr f(1)] f(3) u(2) a by simp
    with f u listed(1) [OF wf Inr f(1)] show ?thesis
      by (simp add: improve_store [OF Inr us] same_record_fields)
  qed
qed

lemma improve_one_valid:
  assumes wf: "wf st" and ok: "\<And>s f. wf s \<Longrightarrow> \<exists>s'. add_fact s f = Inr s'"
    and list: "list_facts st 0 100000 = Inr fs" "length fs < 100000"
    and st': "st' = fst (improve_facts list_facts add_fact rebuild fromiso clock stamp st)"
    and a: "get_fact st' i = Some a" "maintained fromiso clock a"
    and b: "get_fact st' j = Some b" "maintained fromiso clock b"
    and slot: "fact_key a = fact_key b"
  shows "i = j"
proof -
  obtain dedups expired where us: "improve_updates fromiso clock stamp fs = (dedups, expired)"
    by (cases "improve_updates fromiso clock stamp fs")
  let ?us = "dedups @ expired"
  have facts: "facts_only ?us"
    using improve_writes [OF us] listed(1) [OF wf list(1)] by fastforce
  have untouched: "k \<notin> node_id ` set ?us \<and> get_fact st k = Some c \<and> c \<in> set fs"
    if c: "get_fact st' k = Some c" "maintained fromiso clock c" for k c
  proof -
    have out: "k \<notin> node_id ` set ?us"
    proof
      assume "k \<in> node_id ` set ?us"
      from persist_done [OF ok wf facts this] obtain u where
        u: "u \<in> set ?us" "same_record c u"
        using c(1) by (auto simp: st' improve_store [OF list(1) us])
      from improve_writes [OF us u(1)] obtain f where f: "u = set_invalid_at stamp f" by blast
      have "is_fact u" using facts u(1) by blast
      with f have "get_invalid_at u = Some stamp" by simp
      with u(2) have "get_invalid_at c = Some stamp" by (simp add: same_record_fields(3))
      with c(2) show False by (simp add: maintained_def)
    qed
    with c(1) have "get_fact st k = Some c"
      using persist_other [OF wf facts out] by (simp add: st' improve_store [OF list(1) us])
    with out list_complete [OF wf list] show ?thesis by blast
  qed
  have ids: "node_id a = i" "node_id b = j"
    using untouched [OF a] untouched [OF b] stored [OF wf] by auto
  have "a = b"
  proof (rule ccontr)
    assume "a \<noteq> b"
    then have "a \<in> set (losers fromiso clock fs) \<or> b \<in> set (losers fromiso clock fs)"
      using slot_has_one_winner untouched [OF a] untouched [OF b] slot a(2) b(2) by blast
    then have "i \<in> node_id ` set dedups \<or> j \<in> node_id ` set dedups"
      using us ids by (auto simp: improve_updates_eq image_iff)
    with untouched [OF a] untouched [OF b] show False by auto
  qed
  with ids show ?thesis by simp
qed

lemma supersede_each_frame:
  "wf st \<Longrightarrow> facts_only ex \<Longrightarrow>
   supersede_each add_fact fromiso isoformat clock news ex st = (news', st') \<Longrightarrow>
   get_fact st' i \<noteq> get_fact st i \<Longrightarrow>
   \<exists>g \<in> set ex. node_id g = i \<and> contestable clock isoformat news g"
proof (induction news arbitrary: ex st news' st')
  case Nil
  then show ?case by simp
next
  case (Cons n news)
  let ?n = "fill_valid_from (isoformat clock) n"
  let ?hit = "\<lambda>g. may_contradict ?n g \<and> contradicts fromiso clock n g"
  let ?stamp = "set_invalid_at (isoformat clock)"
  define ex1 where "ex1 = map (\<lambda>g. if ?hit g then ?stamp g else g) ex"
  define sup where "sup = map ?stamp (filter (contradicts fromiso clock n)
    (filter (may_contradict ?n) ex))"
  have run: "supersede_contradicted fromiso isoformat clock ?n (filter (may_contradict ?n) ex) None
    = (map (\<lambda>g. if contradicts fromiso clock n g then ?stamp g else g)
        (filter (may_contradict ?n) ex), sup)"
    by (simp add: supersede_contradicted_def supersede_loop_eq sup_def Let_def)
  have merged: "merge_back (may_contradict ?n) ex
      (map (\<lambda>g. if contradicts fromiso clock n g then ?stamp g else g)
        (filter (may_contradict ?n) ex)) = ex1"
    unfolding merge_back_map ex1_def by (rule map_cong) auto
  obtain news1 where deeper: "supersede_each add_fact fromiso isoformat clock news ex1
      (persist_all add_fact sup st) = (news1, st')"
    using Cons.prems(3) by (auto simp: run merged Let_def split: prod.splits)
  have sup_facts: "facts_only sup" and ex1_facts: "facts_only ex1"
    using Cons.prems(2) by (auto simp: sup_def ex1_def)
  show ?case
  proof (cases "get_fact st' i = get_fact (persist_all add_fact sup st) i")
    case False
    from Cons.IH [OF persist_wf [OF Cons.prems(1) sup_facts] ex1_facts deeper False]
    show ?thesis by (auto simp: ex1_def contestable_def split: if_splits)
  next
    case True
    with Cons.prems(4) have "get_fact (persist_all add_fact sup st) i \<noteq> get_fact st i" by simp
    with persist_other [OF Cons.prems(1) sup_facts] have "i \<in> node_id ` set sup" by blast
    then show ?thesis by (auto simp: sup_def contestable_def contradicts_def)
  qed
qed

lemma batch_frame:
  assumes "wf st" and changed: "get_fact (snd (supersede_contradicted_facts_batch list_facts add_fact
      fromiso isoformat clock news st)) i \<noteq> get_fact st i"
  shows "\<exists>fs. list_facts st 0 1000 = Inr fs \<and>
    (\<exists>g \<in> set fs. node_id g = i \<and> contestable clock isoformat news g)"
proof (cases "list_facts st 0 1000")
  case (Inl e)
  then show ?thesis using changed by (simp add: supersede_contradicted_facts_batch_def)
next
  case (Inr fs)
  obtain n' st' where run:
    "supersede_each add_fact fromiso isoformat clock news fs st = (n', st')" by (metis surj_pair)
  have "facts_only fs" using listed(1) [OF assms(1) Inr] by blast
  from supersede_each_frame [OF assms(1) this run] changed run Inr
  show ?thesis by (simp add: supersede_contradicted_facts_batch_def)
qed

end

end
