(* ===== verification/Lite_Facts.thy ===== *)
theory Lite_Facts
  imports Fact_Store
begin

section \<open>The fact table of the Lite store\<close>

text \<open>
  The fact methods of \<^verbatim>\<open>LiteMemoryStore\<close> (\<^verbatim>\<open>memplex/storage/lite/store.py\<close>) over
  the resident dictionary of facts and the changelog.  The durable commit and the
  check of the resident graph are the arguments \<open>commit\<close> and \<open>graph_ok\<close>: the store
  reloads its committed state when either raises, so a failed call changes nothing.
\<close>

record lite_store =
  lite_facts :: "(string, memory_node) dict"
  changelog :: "(string \<times> string) list"

definition fill_times :: "string \<Rightarrow> memory_node \<Rightarrow> memory_node" where
  "fill_times now n =
     n\<lparr>created_at := (if truthy (created_at n) then created_at n else Some now),
       updated_at := (if truthy (updated_at n) then updated_at n else Some now)\<rparr>"

definition lite_add_fact ::
  "(lite_store \<Rightarrow> unit result) \<Rightarrow> (lite_store \<Rightarrow> unit result) \<Rightarrow> string
   \<Rightarrow> lite_store \<Rightarrow> memory_node \<Rightarrow> lite_store result" where
  "lite_add_fact graph_ok commit now st n =
     bindR (graph_ok st) (\<lambda>_.
       let event_type = (if has_key (lite_facts st) (node_id n) then ''updated'' else ''created'');
           st' = st\<lparr>lite_facts := dict_set (node_id n) (fill_times now n) (lite_facts st),
                    changelog := changelog st @ [(node_id n, event_type)]\<rparr>
       in bindR (commit st') (\<lambda>_. Inr st'))"

definition lite_get_fact :: "lite_store \<Rightarrow> string \<Rightarrow> memory_node option" where
  "lite_get_fact st fact_id = dict_get (lite_facts st) fact_id"

definition lite_list_facts ::
  "string option \<Rightarrow> lite_store \<Rightarrow> nat \<Rightarrow> nat \<Rightarrow> memory_node list result" where
  "lite_list_facts owner_filter st offset limit =
     (let facts = map snd (lite_facts st);
          facts' = (case owner_filter of None \<Rightarrow> facts
                    | Some ow \<Rightarrow> filter (\<lambda>f. owner f = Some ow) facts)
      in Inr (take limit (drop offset facts')))"

definition lite_delete_fact ::
  "(lite_store \<Rightarrow> unit result) \<Rightarrow> (lite_store \<Rightarrow> unit result) \<Rightarrow> lite_store \<Rightarrow> string
   \<Rightarrow> lite_store result" where
  "lite_delete_fact graph_ok commit st fact_id =
     bindR (graph_ok st) (\<lambda>_.
       if has_key (lite_facts st) fact_id
       then let st' = st\<lparr>lite_facts := dict_pop fact_id (lite_facts st)\<rparr>
            in bindR (commit st') (\<lambda>_. Inr st')
       else Inr st)"

text \<open>
  \<open>rebuild_search_index\<close> reloads the committed pair and rebuilds the search index; the
  index is not part of this state, so the facts stay as they are, or the call raises.
\<close>

definition lite_rebuild :: "(lite_store \<Rightarrow> unit result) \<Rightarrow> lite_store \<Rightarrow> lite_store result" where
  "lite_rebuild index_rebuild st = bindR (index_rebuild st) (\<lambda>_. Inr st)"

subsection \<open>The table's invariant\<close>

definition lite_wf :: "lite_store \<Rightarrow> bool" where
  "lite_wf st \<longleftrightarrow> dict_wf (lite_facts st)
     \<and> (\<forall>(k, n) \<in> set (lite_facts st). node_id n = k \<and> is_fact n)"

lemma fill_times_frame [simp]:
  "node_id (fill_times t n) = node_id n" "body (fill_times t n) = body n"
  "tenant_id (fill_times t n) = tenant_id n" "provenance (fill_times t n) = provenance n"
  by (simp_all add: fill_times_def)

lemma is_fact_fill_times [simp]: "is_fact (fill_times t n) = is_fact n"
  by (simp add: is_fact_def)

lemma lite_add_facts:
  "lite_add_fact g c now st n = Inr st'
   \<Longrightarrow> lite_facts st' = dict_set (node_id n) (fill_times now n) (lite_facts st)"
  by (auto simp: lite_add_fact_def Let_def)

lemma lite_wf_get: "lite_wf st \<Longrightarrow> lite_get_fact st i = Some f \<Longrightarrow> node_id f = i \<and> is_fact f"
  by (auto simp: lite_wf_def lite_get_fact_def dest!: map_of_SomeD)

lemma lite_wf_add [keeps]:
  assumes "lite_wf st" "is_fact n" "lite_add_fact g c now st n = Inr st'"
  shows "lite_wf st'"
  using assms lite_add_facts [OF assms(3)]
  by (auto simp: lite_wf_def distinct_update set_dict_set)

lemma lite_wf_delete [keeps]:
  assumes "lite_wf st" "lite_delete_fact g c st i = Inr st'"
  shows "lite_wf st'"
  using assms
  by (auto simp: lite_wf_def lite_delete_fact_def Let_def distinct_delete set_dict_pop
      split: if_splits)

lemma set_lite_list: "lite_list_facts None st 0 n = Inr fs \<Longrightarrow> set fs \<subseteq> snd ` set (lite_facts st)"
  by (auto simp: lite_list_facts_def dest!: in_set_takeD)

interpretation lite: fact_store "lite_list_facts None" "lite_add_fact g c now" lite_get_fact
  "Some (lite_rebuild ix)" lite_wf for g c now ix
proof
  fix st n fs f
  assume wf: "lite_wf st" and l: "lite_list_facts None st 0 n = Inr fs" and f: "f \<in> set fs"
  from set_lite_list [OF l] f obtain k where "(k, f) \<in> set (lite_facts st)" by auto
  with wf show "lite_get_fact st (node_id f) = Some f"
    by (auto simp: lite_wf_def lite_get_fact_def intro: map_of_is_SomeI)
next
  fix st n fs i f
  assume l: "lite_list_facts None st 0 n = Inr fs" "length fs < n"
    and f: "lite_get_fact st i = Some f"
  then have "fs = map snd (lite_facts st)" by (auto simp: lite_list_facts_def)
  with f show "f \<in> set fs" by (force simp: lite_get_fact_def dest: map_of_SomeD)
next
  fix st i f
  assume "lite_wf st" "lite_get_fact st i = Some f"
  then show "node_id f = i \<and> is_fact f" by (rule lite_wf_get)
next
  fix st f st'
  assume "lite_add_fact g c now st f = Inr st'"
  then show "\<exists>f'. lite_get_fact st' (node_id f) = Some f' \<and> same_record f' f"
    by (simp add: lite_get_fact_def lite_add_facts dict_simps same_record_def)
next
  fix st f st' i
  assume "lite_add_fact g c now st f = Inr st'" "i \<noteq> node_id f"
  then show "lite_get_fact st' i = lite_get_fact st i"
    by (simp add: lite_get_fact_def lite_add_facts dict_simps)
next
  fix st f st'
  assume "lite_wf st" "is_fact f" "lite_add_fact g c now st f = Inr st'"
  then show "lite_wf st'" by (rule lite_wf_add)
next
  fix r st st'
  assume "Some (lite_rebuild ix) = Some r" "r st = Inr st'"
  then show "lite_get_fact st' = lite_get_fact st" by (auto simp: lite_rebuild_def)
qed

subsection \<open>Maintenance over the Lite table\<close>

abbreviation improve_lite ::
  "(lite_store \<Rightarrow> unit result) \<Rightarrow> (lite_store \<Rightarrow> unit result) \<Rightarrow> (lite_store \<Rightarrow> unit result)
   \<Rightarrow> iso_parser \<Rightarrow> int \<Rightarrow> string \<Rightarrow> lite_store \<Rightarrow> lite_store" where
  "improve_lite g c ix fromiso clock stamp st \<equiv>
     fst (improve_facts (lite_list_facts None) (lite_add_fact g c stamp) (Some (lite_rebuild ix))
            fromiso clock stamp st)"

definition sample_store :: lite_store where
  "sample_store =
     \<lparr>lite_facts = [(''a'', fact_node ''a'' ''user'' ''city'' ''Berlin''),
                    (''b'', fact_node ''b'' ''User '' ''city'' ''Vienna'')],
      changelog = []\<rparr>"

lemma sample_store_wf: "lite_wf sample_store"
  by (simp add: lite_wf_def sample_store_def fact_node_simps)

text \<open>
  the maintenance pass never loses history.  Whatever store calls fail, every stored
  fact is still stored afterwards, in its slot, and its \<open>invalid_at\<close> is unchanged or went
  from absent to the stamp of the pass.
\<close>
theorem improve_keeps_history:
  assumes "lite_wf st" and "lite_get_fact st i = Some a"
  shows "\<exists>a'. lite_get_fact (improve_lite g c ix fromiso clock stamp st) i = Some a'
    \<and> fact_key a' = fact_key a
    \<and> (get_invalid_at a' = get_invalid_at a
       \<or> get_invalid_at a = None \<and> get_invalid_at a' = Some stamp)"
  using assms by (rule lite.improve_history)

theorem improve_keeps_history_witness:
  "\<exists>a'. lite_get_fact (improve_lite (\<lambda>_. Inr ()) (\<lambda>_. Inl (OtherErr ''disk'')) (\<lambda>_. Inr ())
      toy_iso 3 ''t5'' sample_store) ''a'' = Some a' \<and> fact_key a' = (''user'', ''city'')"
proof -
  have a: "lite_get_fact sample_store ''a'' = Some (fact_node ''a'' ''user'' ''city'' ''Berlin'')"
    by (simp add: lite_get_fact_def sample_store_def)
  have k: "fact_key (fact_node ''a'' ''user'' ''city'' ''Berlin'') = (''user'', ''city'')"
    by (simp add: fact_key_def fact_node_def py_strip_def py_space_def py_lower_def
        py_lower_char_def)
  from improve_keeps_history [OF sample_store_wf a] k show ?thesis by metis
qed

text \<open>
  C24: the maintenance pass leaves one current fact per slot.  If the store's writes
  succeed and it holds fewer than 100000 facts, two facts that are afterwards neither
  superseded nor past their shelf life and share subject and predicate are the same.
\<close>

theorem improve_leaves_one_per_slot:
  assumes "lite_wf st" and ok: "\<And>s. g s = Inr ()" "\<And>s. c s = Inr ()"
    and few: "length (lite_facts st) < 100000"
    and a: "lite_get_fact (improve_lite g c ix fromiso clock stamp st) i = Some a"
      "maintained fromiso clock a"
    and b: "lite_get_fact (improve_lite g c ix fromiso clock stamp st) j = Some b"
      "maintained fromiso clock b"
    and slot: "fact_key a = fact_key b"
  shows "i = j"
proof -
  have list: "lite_list_facts None st 0 100000 = Inr (map snd (lite_facts st))"
    "length (map snd (lite_facts st)) < 100000"
    using few by (simp_all add: lite_list_facts_def)
  have adds: "\<exists>s'. lite_add_fact g c stamp s f = Inr s'" for s f
    using ok by (simp add: lite_add_fact_def Let_def)
  show ?thesis
    by (rule lite.improve_one_valid [OF assms(1) adds list refl a b slot])
qed

lemma fact_key_case:
  "fact_key (fact_node ''a'' ''user'' ''city'' x) = fact_key (fact_node ''b'' ''User '' ''city'' y)"
  by (simp add: fact_key_def fact_node_def py_strip_def py_space_def py_lower_def
      py_lower_char_def char_of_def bit_Suc_0_iff)

theorem improve_leaves_one_per_slot_witness:
  "\<not> (maintained toy_iso 3 (the (lite_get_fact
          (improve_lite (\<lambda>_. Inr ()) (\<lambda>_. Inr ()) (\<lambda>_. Inr ()) toy_iso 3 ''t5'' sample_store) ''a''))
     \<and> maintained toy_iso 3 (the (lite_get_fact
          (improve_lite (\<lambda>_. Inr ()) (\<lambda>_. Inr ()) (\<lambda>_. Inr ()) toy_iso 3 ''t5'' sample_store) ''b'')))"
proof -
  let ?st = "improve_lite (\<lambda>_. Inr ()) (\<lambda>_. Inr ()) (\<lambda>_. Inr ()) toy_iso 3 ''t5'' sample_store"
  have stored: "lite_get_fact sample_store ''a'' = Some (fact_node ''a'' ''user'' ''city'' ''Berlin'')"
    "lite_get_fact sample_store ''b'' = Some (fact_node ''b'' ''User '' ''city'' ''Vienna'')"
    by (simp_all add: lite_get_fact_def sample_store_def)
  from lite.improve_history [OF sample_store_wf stored(1)]
    lite.improve_history [OF sample_store_wf stored(2)]
  obtain a b where ab: "lite_get_fact ?st ''a'' = Some a" "lite_get_fact ?st ''b'' = Some b"
    and slot: "fact_key a = fact_key b"
    using fact_key_case by metis
  have few: "length (lite_facts sample_store) < 100000" by (simp add: sample_store_def)
  have "''a'' = ''b''" if "maintained toy_iso 3 a" "maintained toy_iso 3 b"
    by (rule improve_leaves_one_per_slot
        [OF sample_store_wf _ _ few ab(1) that(1) ab(2) that(2) slot]) simp_all
  then show ?thesis using ab by auto
qed

text \<open>
  a write changes old facts only by supersession.  After a batch of new facts, a
  stored fact that changed was among the first 1000 the store lists, lies in the slot of
  a new fact of another identifier, and has a compatible capture scope.
\<close>
theorem batch_supersession_is_scoped:
  assumes "lite_wf st"
    and "lite_get_fact (snd (supersede_contradicted_facts_batch (lite_list_facts None)
           (lite_add_fact g c now) fromiso isoformat clock news st)) i \<noteq> lite_get_fact st i"
  shows "\<exists>old \<in> set (take 1000 (map snd (lite_facts st))). node_id old = i
    \<and> (\<exists>n \<in> set news. fact_key old = fact_key n \<and> node_id old \<noteq> node_id n
          \<and> may_contradict (fill_valid_from (isoformat clock) n) old)"
  using lite.batch_frame [OF assms]
  by (auto simp: contestable_def lite_list_facts_def)

theorem batch_supersession_is_scoped_witness:
  "\<exists>old \<in> set (take 1000 (map snd (lite_facts sample_store))). node_id old = ''a''"
proof -
  let ?st' = "snd (supersede_contradicted_facts_batch (lite_list_facts None)
    (lite_add_fact (\<lambda>_. Inr ()) (\<lambda>_. Inr ()) ''t5'') toy_iso (\<lambda>_. ''t5'') 5
    [fact_node ''c'' ''user'' ''city'' ''Rome''] sample_store)"
  have "lite_get_fact ?st' ''a'' \<noteq> lite_get_fact sample_store ''a''"
    by (simp add: supersede_contradicted_facts_batch_def lite_list_facts_def sample_store_def
        may_contradict_def capture_scopes_match_def is_captured_def CAPTURE_PREFIXES_def
        supersede_contradicted_def fill_valid_from_def fact_node_simps Let_def
        py_strip_def py_space_def py_lower_def py_lower_char_def is_valid_at_def parse_stamp_def
        lite_add_fact_def lite_get_fact_def object_of_def fill_times_def)
  from batch_supersession_is_scoped [OF sample_store_wf this] show ?thesis by blast
qed

end
