(* ===== verification/Identity.thy ===== *)
theory Identity
  imports Memory_Model
begin

section \<open>Authenticated identity\<close>

text \<open>
  \<^verbatim>\<open>memplex/auth.py\<close>: principals and request contexts with the checks of their
  constructors, the server-side principal registry, the resolution of a host identity
  from the process environment, and the projection of an identity onto a memory node.
  SHA-256 is the argument \<open>sha256\<close>; JSON parsing has happened, its outcome is a value of
  \<open>registry_env\<close>.
\<close>

subsection \<open>Principals and contexts\<close>

definition required_identifier :: "string \<Rightarrow> string \<Rightarrow> string result" where
  "required_identifier value field_name =
     (if py_strip value = [] then Inl (ValueErr (field_name @ '' must be a non-empty string''))
      else Inr (py_strip value))"

text \<open>An optional field is normalised only when it is present and not empty.\<close>

definition optional_identifier :: "string \<Rightarrow> string \<Rightarrow> string result" where
  "optional_identifier value field_name =
     (if value = [] then Inr value else required_identifier value field_name)"

definition clean_roles :: "string list \<Rightarrow> string set" where
  "clean_roles rs = set (map py_strip (filter (\<lambda>r. py_strip r \<noteq> []) rs))"

record principal =
  prin_tenant :: string
  prin_subject :: string
  prin_roles :: "string set"
  prin_authentication :: "string option"

definition make_principal ::
  "string \<Rightarrow> string \<Rightarrow> string list \<Rightarrow> string option \<Rightarrow> principal result" where
  "make_principal tenant subj rs auth_id =
     bindR (required_identifier tenant ''tenant_id'') (\<lambda>t.
     bindR (required_identifier subj ''subject_id'') (\<lambda>s.
     bindR (case auth_id of None \<Rightarrow> Inr None
            | Some a \<Rightarrow> bindR (required_identifier a ''authentication_id'') (\<lambda>v. Inr (Some v)))
       (\<lambda>a. Inr \<lparr>prin_tenant = t, prin_subject = s, prin_roles = clean_roles rs,
                 prin_authentication = a\<rparr>)))"

record auth_context =
  ctx_principal :: principal
  ctx_workspace :: string
  ctx_agent :: string
  ctx_session :: string
  ctx_request :: string
  ctx_provenance :: "(string, string) dict"

definition make_context ::
  "principal \<Rightarrow> string \<Rightarrow> string \<Rightarrow> string \<Rightarrow> string \<Rightarrow> (string, string) dict
   \<Rightarrow> auth_context result" where
  "make_context p workspace agent session request prov =
     bindR (required_identifier workspace ''workspace_id'') (\<lambda>w.
     bindR (optional_identifier agent ''agent_id'') (\<lambda>a.
     bindR (optional_identifier session ''session_id'') (\<lambda>s.
     bindR (optional_identifier request ''request_id'') (\<lambda>r.
       Inr \<lparr>ctx_principal = p, ctx_workspace = w, ctx_agent = a, ctx_session = s,
            ctx_request = r, ctx_provenance = prov\<rparr>))))"

definition LOCAL_DEVELOPMENT_TENANT_ID :: string where
  "LOCAL_DEVELOPMENT_TENANT_ID = ''local''"

definition LOCAL_DEVELOPMENT_SUBJECT_ID :: string where
  "LOCAL_DEVELOPMENT_SUBJECT_ID = ''local-development''"

definition LOCAL_DEVELOPMENT_WORKSPACE_ID :: string where
  "LOCAL_DEVELOPMENT_WORKSPACE_ID = ''local-development''"

definition local_development_context :: "auth_context result" where
  "local_development_context =
     bindR (make_principal LOCAL_DEVELOPMENT_TENANT_ID LOCAL_DEVELOPMENT_SUBJECT_ID
             [LOCAL_DEVELOPMENT_SUBJECT_ID] (Some LOCAL_DEVELOPMENT_SUBJECT_ID)) (\<lambda>p.
       make_context p LOCAL_DEVELOPMENT_WORKSPACE_ID ''memplex'' LOCAL_DEVELOPMENT_SUBJECT_ID
         LOCAL_DEVELOPMENT_SUBJECT_ID [(''trust_boundary'', ''local-development'')])"

definition hot_tier_tenant :: "string \<Rightarrow> string" where
  "hot_tier_tenant tenant =
     (if prefix ''local-process-'' tenant then LOCAL_DEVELOPMENT_TENANT_ID else tenant)"

subsection \<open>The principal registry\<close>

record principal_credential =
  credential_id :: string
  token_sha256 :: string
  cred_tenant :: string
  cred_subject :: string
  cred_workspace :: string
  cred_agent :: string
  cred_roles :: "string list"

definition hex_digit :: "char \<Rightarrow> bool" where
  "hex_digit c = (c \<in> set ''0123456789abcdef'')"

definition make_credential ::
  "string \<Rightarrow> string \<Rightarrow> string \<Rightarrow> string \<Rightarrow> string \<Rightarrow> string \<Rightarrow> string list
   \<Rightarrow> principal_credential result" where
  "make_credential cid token tenant subj workspace agent rs =
     bindR (required_identifier cid ''credential_id'') (\<lambda>cid1.
     bindR (required_identifier token ''token_sha256'') (\<lambda>tok1.
     bindR (required_identifier tenant ''tenant_id'') (\<lambda>ten1.
     bindR (required_identifier subj ''subject_id'') (\<lambda>sub1.
     bindR (required_identifier workspace ''workspace_id'') (\<lambda>ws1.
       let digest = py_lower tok1 in
       if length digest \<noteq> 64 \<or> \<not> list_all hex_digit digest
       then Inl (RegistryErr ''token_sha256 must be a SHA-256 hex digest'')
       else bindR (optional_identifier agent ''agent_id'') (\<lambda>ag1.
         Inr \<lparr>credential_id = cid1, token_sha256 = digest, cred_tenant = ten1,
              cred_subject = sub1, cred_workspace = ws1, cred_agent = ag1,
              cred_roles = map py_strip (filter (\<lambda>r. py_strip r \<noteq> []) rs)\<rparr>))))))"

text \<open>
  A value of the parsed registry entry.  \<open>RFalsy\<close> stands for the false values that are
  not strings (null, zero, false); as an agent it is kept and behaves as the empty
  string wherever it is used.
\<close>

datatype raw_value = RStr string | RFalsy | RScalar | RSeq "raw_value list"
  | RMapping "(string \<times> raw_value) list"

fun role_strings :: "raw_value list \<Rightarrow> string list result" where
  "role_strings [] = Inr []"
| "role_strings (RStr s # vs) = bindR (role_strings vs) (\<lambda>ss. Inr (s # ss))"
| "role_strings (RSeq _ # vs) = Inl (TypeErr ''unhashable type'')"
| "role_strings (RMapping _ # vs) = Inl (TypeErr ''unhashable type'')"
| "role_strings (RFalsy # vs) = role_strings vs"
| "role_strings (RScalar # vs) = role_strings vs"

definition required_key :: "(string, raw_value) dict \<Rightarrow> string \<Rightarrow> raw_value result" where
  "required_key raw k = (case dict_get raw k of None \<Rightarrow> Inl (KeyErr k) | Some v \<Rightarrow> Inr v)"

definition wrap_entry_error :: "'a result \<Rightarrow> 'a result" where
  "wrap_entry_error r = (case r of
       Inr x \<Rightarrow> Inr x
     | Inl (KeyErr k) \<Rightarrow> Inl (RegistryErr (''principal registry entry missing '' @ k))
     | Inl (TypeErr m) \<Rightarrow> Inl (RegistryErr (''invalid principal registry entry: '' @ m))
     | Inl (ValueErr m) \<Rightarrow> Inl (RegistryErr (''invalid principal registry entry: '' @ m))
     | Inl (RegistryErr m) \<Rightarrow> Inl (RegistryErr (''invalid principal registry entry: '' @ m))
     | Inl e \<Rightarrow> Inl e)"

definition raw_required :: "raw_value \<Rightarrow> string \<Rightarrow> string result" where
  "raw_required v field_name =
     (case v of RStr s \<Rightarrow> bindR (required_identifier s field_name) (\<lambda>_. Inr s)
      | _ \<Rightarrow> Inl (ValueErr (field_name @ '' must be a non-empty string'')))"

text \<open>The agent: a string, a false value, or a true value that is not a string.\<close>

definition raw_agent :: "raw_value \<Rightarrow> string option" where
  "raw_agent v = (case v of RStr a \<Rightarrow> Some a | RFalsy \<Rightarrow> Some [] | RSeq [] \<Rightarrow> Some []
      | RMapping [] \<Rightarrow> Some [] | _ \<Rightarrow> None)"

definition construct_credential ::
  "raw_value \<Rightarrow> raw_value \<Rightarrow> raw_value \<Rightarrow> raw_value \<Rightarrow> raw_value \<Rightarrow> raw_value \<Rightarrow> string list
   \<Rightarrow> principal_credential result" where
  "construct_credential c t n s w a rs =
     bindR (raw_required c ''credential_id'') (\<lambda>c1.
     bindR (raw_required t ''token_sha256'') (\<lambda>t1.
     bindR (raw_required n ''tenant_id'') (\<lambda>n1.
     bindR (raw_required s ''subject_id'') (\<lambda>s1.
     bindR (raw_required w ''workspace_id'') (\<lambda>w1.
       (case raw_agent a of
          Some a1 \<Rightarrow> make_credential c1 t1 n1 s1 w1 a1 rs
        | None \<Rightarrow> bindR (make_credential c1 t1 n1 s1 w1 [] rs) (\<lambda>_.
            Inl (ValueErr ''agent_id must be a non-empty string''))))))))"

definition credential_from_mapping ::
  "(string, raw_value) dict option \<Rightarrow> principal_credential result" where
  "credential_from_mapping entry =
     (case entry of None \<Rightarrow> Inl (RegistryErr ''principal registry entries must be objects'')
      | Some raw \<Rightarrow>
         (case dict_default raw ''roles'' (RSeq []) of
            RSeq rs \<Rightarrow>
              wrap_entry_error (
                bindR (required_key raw ''credential_id'') (\<lambda>c.
                bindR (required_key raw ''token_sha256'') (\<lambda>t.
                bindR (required_key raw ''tenant_id'') (\<lambda>n.
                bindR (required_key raw ''subject_id'') (\<lambda>s.
                bindR (required_key raw ''workspace_id'') (\<lambda>w.
                bindR (role_strings rs) (\<lambda>rss.
                  construct_credential c t n s w (dict_default raw ''agent_id'' (RStr []))
                    rss)))))))
          | _ \<Rightarrow> Inl (RegistryErr ''principal roles must be a list of strings'')))"

type_synonym principal_registry = "principal_credential list"

definition make_registry :: "principal_credential list \<Rightarrow> principal_registry result" where
  "make_registry creds =
     (if creds = [] then Inl (RegistryErr ''principal registry must contain at least one credential'')
      else if \<not> distinct (map credential_id creds)
        then Inl (RegistryErr ''principal registry credential_id values must be unique'')
      else if \<not> distinct (map token_sha256 creds)
        then Inl (RegistryErr ''principal registry token_sha256 values must be unique'')
      else Inr creds)"

text \<open>\<^verbatim>\<open>MEMPLEX_PRINCIPALS_JSON\<close>: absent, not JSON, not a list, or a list of entries.\<close>

datatype registry_env =
    EnvAbsent
  | EnvNotJson
  | EnvNotList
  | EnvEntries "(string, raw_value) dict option list"

definition registry_from_environment :: "registry_env \<Rightarrow> principal_registry option result" where
  "registry_from_environment env =
     (case env of
        EnvAbsent \<Rightarrow> Inr None
      | EnvNotJson \<Rightarrow> Inl (RegistryErr ''MEMPLEX_PRINCIPALS_JSON must be valid JSON'')
      | EnvNotList \<Rightarrow> Inl (RegistryErr ''MEMPLEX_PRINCIPALS_JSON must be a JSON list'')
      | EnvEntries entries \<Rightarrow>
          bindR (mapR credential_from_mapping entries) (\<lambda>creds.
          bindR (make_registry creds) (\<lambda>r. Inr (Some r))))"

text \<open>The digest loop compares with every credential; a later match replaces an earlier one.\<close>

fun match_credential :: "string \<Rightarrow> principal_credential list \<Rightarrow> principal_credential option
    \<Rightarrow> principal_credential option" where
  "match_credential presented [] matched = matched"
| "match_credential presented (c # cs) matched =
     match_credential presented cs (if presented = token_sha256 c then Some c else matched)"

definition authenticate ::
  "(string \<Rightarrow> string) \<Rightarrow> principal_registry \<Rightarrow> string \<Rightarrow> string \<Rightarrow> string
   \<Rightarrow> (string, string) dict \<Rightarrow> auth_context option result" where
  "authenticate sha256 registry token request session prov =
     (if token = [] then Inr None
      else case match_credential (sha256 token) registry None of
        None \<Rightarrow> Inr None
      | Some m \<Rightarrow>
          bindR (make_principal (cred_tenant m) (cred_subject m) (cred_roles m)
                   (Some (credential_id m))) (\<lambda>p.
          bindR (make_context p (cred_workspace m) (cred_agent m) session request prov)
            (\<lambda>c. Inr (Some c))))"

definition resolve_environment_authorization ::
  "(string \<Rightarrow> string) \<Rightarrow> registry_env \<Rightarrow> string \<Rightarrow> string option \<Rightarrow> string \<Rightarrow> string
   \<Rightarrow> (string, string) dict \<Rightarrow> bool \<Rightarrow> auth_context option result" where
  "resolve_environment_authorization sha256 env token agent session request prov require_registry =
     bindR (case agent of None \<Rightarrow> Inr None
            | Some a \<Rightarrow> bindR (required_identifier a ''agent_id'') (\<lambda>v. Inr (Some v)))
       (\<lambda>current_agent.
     bindR (case registry_from_environment env of
              Inl _ \<Rightarrow> Inl (PermissionErr ''Invalid principal registry'')
            | Inr r \<Rightarrow> Inr r)
       (\<lambda>registry.
     (case registry of
        None \<Rightarrow> (if require_registry
                 then Inl (PermissionErr ''a principal registry is required'') else Inr None)
      | Some reg \<Rightarrow>
          if token = [] then Inl (PermissionErr ''MEMPLEX_PRINCIPAL_TOKEN is required'')
          else
            let supplied = dict_update [(''identity_source'', ''principal-registry'')] prov in
            bindR (authenticate sha256 reg token request session supplied) (\<lambda>found.
            (case found of
               None \<Rightarrow> Inl (PermissionErr ''MEMPLEX_PRINCIPAL_TOKEN is not accepted'')
             | Some context \<Rightarrow>
                 (case current_agent of
                    None \<Rightarrow> Inr (Some context)
                  | Some cur \<Rightarrow>
                      if ctx_agent context \<noteq> [] \<and> ctx_agent context \<noteq> cur
                      then Inl (PermissionErr ''principal credential is bound to another agent'')
                      else bindR (make_context (ctx_principal context) (ctx_workspace context)
                                    cur session request supplied) (\<lambda>c. Inr (Some c))))))))"

subsection \<open>Projecting an identity onto a node\<close>

definition claim_conflicts :: "string option \<Rightarrow> string \<Rightarrow> bool" where
  "claim_conflicts value expected =
     (case value of None \<Rightarrow> False
      | Some v \<Rightarrow> py_strip v \<noteq> [] \<and> py_strip v \<noteq> expected)"

definition identity_claims :: "memory_node \<Rightarrow> auth_context
    \<Rightarrow> (string \<times> string option \<times> string) list" where
  "identity_claims node c =
     (let p = ctx_principal c in
      [(''tenant_id'', tenant_id node, prin_tenant p),
       (''owner_subject_id'', owner_subject_id node, prin_subject p),
       (''owner'', owner node, prin_subject p),
       (''workspace_id'', workspace_id node, ctx_workspace c),
       (''memplex_tenant_id'', dict_get (namespace node) ''memplex_tenant_id'', prin_tenant p),
       (''memplex_subject_id'', dict_get (namespace node) ''memplex_subject_id'', prin_subject p),
       (''memplex_workspace_id'', dict_get (namespace node) ''memplex_workspace_id'',
         ctx_workspace c)])"

definition bound_namespace :: "memory_node \<Rightarrow> auth_context \<Rightarrow> (string, string) dict" where
  "bound_namespace node c =
     (let p = ctx_principal c;
          ns1 = dict_update (namespace node)
            [(''memplex_tenant_id'', prin_tenant p), (''memplex_subject_id'', prin_subject p),
             (''memplex_workspace_id'', ctx_workspace c)];
          ns2 = (if truthy (node_domain node)
                 then dict_set ''domain'' (the (node_domain node)) ns1 else ns1)
      in (if truthy (knowledge_tier node)
          then dict_set ''knowledge_tier'' (the (knowledge_tier node)) ns2 else ns2))"

definition bound_provenance :: "auth_context \<Rightarrow> (string, string) dict" where
  "bound_provenance c =
     dict_update (ctx_provenance c)
       [(''agent_id'', ctx_agent c),
        (''authentication_id'',
          case prin_authentication (ctx_principal c) of None \<Rightarrow> [] | Some a \<Rightarrow> a),
        (''request_id'', ctx_request c),
        (''session_id'', ctx_session c)]"

definition bind_node_identity ::
  "memory_node \<Rightarrow> auth_context \<Rightarrow> string \<Rightarrow> bool \<Rightarrow> memory_node result" where
  "bind_node_identity node c vis reject_conflicts =
     (if py_strip vis = [] then Inl (ValueErr ''visibility must be a non-empty string'')
      else
        let conflicts = map fst (filter (\<lambda>(f, v, e). claim_conflicts v e) (identity_claims node c))
        in if reject_conflicts \<and> conflicts \<noteq> [] then Inl (IdentityClaimErr (sort conflicts))
           else Inr (node\<lparr>tenant_id := Some (prin_tenant (ctx_principal c)),
                  owner_subject_id := Some (prin_subject (ctx_principal c)),
                  owner := Some (prin_subject (ctx_principal c)),
                  workspace_id := Some (ctx_workspace c),
                  visibility := Some (py_strip vis),
                  origin_session := (if ctx_session c = [] then None else Some (ctx_session c)),
                  namespace := bound_namespace node c,
                  provenance := bound_provenance c\<rparr>))"

subsection \<open>Lemmas\<close>

lemma dict_update_Nil [simp]: "dict_update d [] = d"
  by (simp add: dict_update_def)

lemma dict_update_Cons [simp]: "dict_update d ((k, v) # e) = dict_update (dict_set k v d) e"
  by (simp add: dict_update_def)

lemma required_identifier_Inr:
  "required_identifier v f = Inr w \<longleftrightarrow> w = py_strip v \<and> py_strip v \<noteq> []"
  by (auto simp: required_identifier_def)

lemma optional_identifier_Inr:
  "optional_identifier v f = Inr w \<longleftrightarrow> (v = [] \<and> w = [] \<or> v \<noteq> [] \<and> w = py_strip v \<and> w \<noteq> [])"
  by (auto simp: optional_identifier_def required_identifier_Inr)

text \<open>A normalised value: what the constructors leave in an identity field.\<close>

definition normalised :: "string \<Rightarrow> bool" where
  "normalised s \<longleftrightarrow> py_strip s = s \<and> s \<noteq> []"

definition context_ok :: "auth_context \<Rightarrow> bool" where
  "context_ok c \<longleftrightarrow> normalised (prin_tenant (ctx_principal c))
     \<and> normalised (prin_subject (ctx_principal c)) \<and> normalised (ctx_workspace c)
     \<and> (ctx_agent c = [] \<or> normalised (ctx_agent c))
     \<and> (ctx_session c = [] \<or> normalised (ctx_session c))"

lemma required_identifier_normalised: "required_identifier v f = Inr w \<Longrightarrow> normalised w"
  by (auto simp: required_identifier_Inr normalised_def)

lemma make_principal_Inr:
  "make_principal t s rs a = Inr p \<Longrightarrow>
   prin_tenant p = py_strip t \<and> prin_subject p = py_strip s
   \<and> normalised (prin_tenant p) \<and> normalised (prin_subject p)
   \<and> prin_roles p = clean_roles rs \<and> prin_authentication p = map_option py_strip a"
  by (auto simp: make_principal_def required_identifier_Inr normalised_def split: option.splits)

lemma make_context_Inr:
  "make_context p w a s r prov = Inr c \<Longrightarrow>
   ctx_principal c = p \<and> ctx_workspace c = py_strip w \<and> normalised (ctx_workspace c)
   \<and> ctx_agent c = py_strip a \<and> (ctx_agent c = [] \<or> normalised (ctx_agent c))
   \<and> ctx_session c = py_strip s \<and> (ctx_session c = [] \<or> normalised (ctx_session c))
   \<and> ctx_provenance c = prov"
  by (auto simp: make_context_def required_identifier_Inr optional_identifier_Inr normalised_def)

lemma match_credential_Some:
  "match_credential d cs m = Some c \<Longrightarrow> c \<in> set cs \<and> token_sha256 c = d \<or> m = Some c"
  by (induction cs arbitrary: m) (auto split: if_splits)

lemma match_credential_hit:
  "c \<in> set cs \<Longrightarrow> token_sha256 c = d \<Longrightarrow> \<exists>c'. match_credential d cs m = Some c'"
proof (induction cs arbitrary: m)
  case Nil
  then show ?case by simp
next
  case (Cons x xs)
  have keep: "\<exists>c'. match_credential d ys (Some y) = Some c'" for ys y
    by (induction ys arbitrary: y) auto
  show ?case
  proof (cases "c = x")
    case True
    with Cons.prems keep show ?thesis by auto
  next
    case False
    with Cons show ?thesis by simp
  qed
qed



lemma make_registry_Inr:
  "make_registry creds = Inr reg \<longleftrightarrow>
   reg = creds \<and> creds \<noteq> [] \<and> distinct (map credential_id creds)
   \<and> distinct (map token_sha256 creds)"
  by (auto simp: make_registry_def)

lemma registry_from_environment_Some:
  "registry_from_environment env = Inr (Some reg) \<Longrightarrow> distinct (map token_sha256 reg)"
  by (auto simp: registry_from_environment_def make_registry_Inr split: registry_env.splits)

text \<open>What \<open>authenticate\<close> returns, over the credential that carries the digest.\<close>

definition context_of :: "principal_credential \<Rightarrow> auth_context \<Rightarrow> bool" where
  "context_of m c \<longleftrightarrow>
     prin_tenant (ctx_principal c) = py_strip (cred_tenant m)
     \<and> prin_subject (ctx_principal c) = py_strip (cred_subject m)
     \<and> prin_authentication (ctx_principal c) = Some (py_strip (credential_id m))
     \<and> prin_roles (ctx_principal c) = clean_roles (cred_roles m)
     \<and> ctx_workspace c = py_strip (cred_workspace m) \<and> context_ok c"

lemma authenticate_Some:
  assumes "authenticate sha256 reg token request session prov = Inr (Some c)"
  obtains m where "m \<in> set reg" "token_sha256 m = sha256 token" "context_of m c"
    "ctx_agent c = py_strip (cred_agent m)" "token \<noteq> []"
proof -
  obtain m p where m: "match_credential (sha256 token) reg None = Some m"
    and p: "make_principal (cred_tenant m) (cred_subject m) (cred_roles m)
              (Some (credential_id m)) = Inr p"
    and c: "make_context p (cred_workspace m) (cred_agent m) session request prov = Inr c"
    and tok: "token \<noteq> []"
    using assms by (auto simp: authenticate_def split: if_splits option.splits)
  have "context_of m c" and "ctx_agent c = py_strip (cred_agent m)"
    using make_principal_Inr [OF p] make_context_Inr [OF c]
    by (auto simp: context_of_def context_ok_def)
  with that match_credential_Some [OF m] tok show thesis by auto
qed

lemma same_digest_same_credential:
  "distinct (map token_sha256 reg) \<Longrightarrow> m \<in> set reg \<Longrightarrow> n \<in> set reg
   \<Longrightarrow> token_sha256 m = token_sha256 n \<Longrightarrow> m = n"
  by (auto simp: distinct_map inj_on_def)

text \<open>A registry of two credentials, the second one bound to a host.\<close>

definition sample_credential :: "string \<Rightarrow> string \<Rightarrow> string \<Rightarrow> principal_credential" where
  "sample_credential cid digest agent =
     \<lparr>credential_id = cid, token_sha256 = digest, cred_tenant = ''t'', cred_subject = cid,
      cred_workspace = ''w'', cred_agent = agent, cred_roles = [''writer'']\<rparr>"

definition sample_context :: auth_context where
  "sample_context =
     \<lparr>ctx_principal = \<lparr>prin_tenant = ''t'', prin_subject = ''b'', prin_roles = {''writer''},
        prin_authentication = Some ''b''\<rparr>,
      ctx_workspace = ''w'', ctx_agent = ''host'', ctx_session = ''s'', ctx_request = [],
      ctx_provenance = []\<rparr>"

lemmas strip_eval = py_strip_def py_space_def

text \<open>
  C25: authentication is sound and does not depend on the order of the registry.  With a
  registry accepted by its constructor, a token yields a context only if it is not empty
  and exactly one credential carries its digest; the context then has that credential's
  tenant, subject, authentication id, roles, workspace and host.
\<close>

theorem authenticate_sound:
  assumes reg: "make_registry creds = Inr reg"
    and auth: "authenticate sha256 reg token request session prov = Inr (Some c)"
  shows "token \<noteq> [] \<and> (\<exists>!m. m \<in> set creds \<and> token_sha256 m = sha256 token)
    \<and> (\<exists>m \<in> set creds. token_sha256 m = sha256 token \<and> context_of m c
          \<and> ctx_agent c = py_strip (cred_agent m))"
proof -
  have reg': "reg = creds" "distinct (map token_sha256 creds)"
    using reg by (auto simp: make_registry_Inr)
  from auth show ?thesis
    by (rule authenticate_Some) (auto simp: reg' intro: same_digest_same_credential [OF reg'(2)])
qed

theorem authenticate_sound_witness:
  "\<exists>!m. m \<in> set [sample_credential ''a'' ''d1'' [], sample_credential ''b'' ''d2'' ''host'']
     \<and> token_sha256 m = ''d2''"
proof -
  let ?creds = "[sample_credential ''a'' ''d1'' [], sample_credential ''b'' ''d2'' ''host'']"
  have reg: "make_registry ?creds = Inr ?creds"
    by (simp add: make_registry_def sample_credential_def)
  have auth: "authenticate (\<lambda>t. if t = ''tok'' then ''d2'' else ''d3'') ?creds ''tok'' [] ''s'' []
      = Inr (Some sample_context)"
    by (simp add: authenticate_def sample_credential_def sample_context_def make_principal_def
        make_context_def required_identifier_def optional_identifier_def clean_roles_def strip_eval)
  show ?thesis using authenticate_sound [OF reg auth] by simp
qed

text \<open>
  C26: a configured registry is authoritative.  Whenever the environment holds a registry
  the resolution never answers "no identity", and a context it returns belongs to the one
  credential whose digest is the token's; a credential bound to a host is only ever used
  by that host, and a context returned for a named host carries that host.
\<close>

theorem resolve_environment_authoritative:
  assumes env: "env \<noteq> EnvAbsent"
    and res: "resolve_environment_authorization sha256 env token agent session request prov req
      = Inr r"
  shows "\<exists>c reg m. r = Some c \<and> registry_from_environment env = Inr (Some reg)
     \<and> m \<in> set reg \<and> token_sha256 m = sha256 token \<and> context_of m c
     \<and> (\<forall>a. agent = Some a \<longrightarrow> ctx_agent c = py_strip a
           \<and> (py_strip (cred_agent m) = [] \<or> py_strip (cred_agent m) = py_strip a))"
proof -
  obtain reg where reg: "registry_from_environment env = Inr (Some reg)"
    using res env
    by (cases env) (auto simp: resolve_environment_authorization_def registry_from_environment_def
        split: sum.splits)
  let ?prov = "dict_update [(''identity_source'', ''principal-registry'')] prov"
  obtain c0 where c0: "authenticate sha256 reg token request session ?prov = Inr (Some c0)"
    and rest: "(case agent of None \<Rightarrow> r = Some c0
        | Some a \<Rightarrow> (ctx_agent c0 = [] \<or> ctx_agent c0 = py_strip a) \<and> (\<exists>c.
            make_context (ctx_principal c0) (ctx_workspace c0) (py_strip a) session request ?prov
              = Inr c \<and> r = Some c))"
    using res reg unfolding resolve_environment_authorization_def
    by (auto simp: Let_def required_identifier_Inr
        split: option.splits if_splits simp del: dict_update_Nil dict_update_Cons)
  obtain m where m: "m \<in> set reg" "token_sha256 m = sha256 token" "context_of m c0"
    "ctx_agent c0 = py_strip (cred_agent m)"
    using c0 by (rule authenticate_Some)
  show ?thesis
  proof (cases agent)
    case None
    with rest m reg show ?thesis by auto
  next
    case (Some a)
    with rest obtain c where c: "make_context (ctx_principal c0) (ctx_workspace c0) (py_strip a)
        session request ?prov = Inr c" "r = Some c"
      and host: "ctx_agent c0 = [] \<or> ctx_agent c0 = py_strip a" by auto
    have "context_of m c" using m(3) make_context_Inr [OF c(1)]
      by (auto simp: context_of_def context_ok_def normalised_def)
    then show ?thesis using make_context_Inr [OF c(1)] c(2) host m reg Some by auto
  qed
qed

text \<open>The environment holding one credential of user b, bound to host.\<close>

definition sample_digest :: string where
  "sample_digest = replicate 64 CHR ''a''"

definition sample_env :: registry_env where
  "sample_env = EnvEntries [Some
     [(''credential_id'', RStr ''b''), (''token_sha256'', RStr sample_digest),
      (''tenant_id'', RStr ''t''), (''subject_id'', RStr ''b''), (''workspace_id'', RStr '' w''),
      (''agent_id'', RStr ''host''), (''roles'', RSeq [RStr ''writer''])]]"

lemma sample_digest_facts:
  "py_strip sample_digest = sample_digest" "py_lower sample_digest = sample_digest"
  "length sample_digest = 64" "list_all hex_digit sample_digest" "sample_digest \<noteq> []"
  by (simp_all add: sample_digest_def strip_eval py_lower_def py_lower_char_def hex_digit_def
      list_all_iff)

lemma sample_resolution:
  "resolve_environment_authorization (\<lambda>_. sample_digest) sample_env ''tok'' (Some ''host'') ''s'' []
     [] True
   = Inr (Some (sample_context\<lparr>ctx_provenance := [(''identity_source'', ''principal-registry'')]\<rparr>))"
proof -
  have strips: "py_strip ''b'' = ''b''" "py_strip ''t'' = ''t''" "py_strip '' w'' = ''w''"
    "py_strip ''host'' = ''host''" "py_strip ''writer'' = ''writer''"
    by (simp_all add: strip_eval)
  have "credential_from_mapping (Some
     [(''credential_id'', RStr ''b''), (''token_sha256'', RStr sample_digest),
      (''tenant_id'', RStr ''t''), (''subject_id'', RStr ''b''), (''workspace_id'', RStr '' w''),
      (''agent_id'', RStr ''host''), (''roles'', RSeq [RStr ''writer''])])
     = Inr ((sample_credential ''b'' sample_digest ''host''))"
    by (simp add: credential_from_mapping_def dict_default_def required_key_def raw_required_def
        wrap_entry_error_def construct_credential_def required_identifier_def raw_agent_def
        make_credential_def optional_identifier_def sample_digest_facts sample_credential_def
        strips Let_def)
  then have "registry_from_environment sample_env
      = Inr (Some [sample_credential ''b'' sample_digest ''host''])"
    by (simp add: registry_from_environment_def sample_env_def make_registry_def)
  then show ?thesis
    by (simp add: resolve_environment_authorization_def authenticate_def sample_credential_def
        sample_context_def make_principal_def make_context_def required_identifier_def
        optional_identifier_def clean_roles_def strip_eval)
qed

theorem resolve_environment_authoritative_witness:
  "\<exists>c. resolve_environment_authorization (\<lambda>_. sample_digest) sample_env ''tok'' (Some ''host'')
     ''s'' [] [] True = Inr (Some c) \<and> ctx_agent c = ''host''"
proof -
  have "sample_env \<noteq> EnvAbsent" by (simp add: sample_env_def)
  from resolve_environment_authoritative [OF this sample_resolution]
  have "ctx_agent (sample_context\<lparr>ctx_provenance := [(''identity_source'', ''principal-registry'')]\<rparr>)
      = py_strip ''host''" by auto
  then show ?thesis using sample_resolution by (auto simp: strip_eval)
qed

text \<open>
  Binding twice: \<open>update\<close> with what is already there changes nothing, and the identity
  fields of a bound node are exactly the context's.
\<close>

lemma dict_set_same: "dict_get d k = Some v \<Longrightarrow> dict_set k v d = d"
  by (induction d) (auto split: if_splits)

lemma claim_conflicts_Some: "normalised e \<Longrightarrow> claim_conflicts (Some v) e \<longleftrightarrow>
    py_strip v \<noteq> [] \<and> py_strip v \<noteq> e"
  by (simp add: claim_conflicts_def)

definition identity_conflicts :: "memory_node \<Rightarrow> auth_context \<Rightarrow> bool" where
  "identity_conflicts node c \<longleftrightarrow>
     claim_conflicts (tenant_id node) (prin_tenant (ctx_principal c))
     \<or> claim_conflicts (owner_subject_id node) (prin_subject (ctx_principal c))
     \<or> claim_conflicts (owner node) (prin_subject (ctx_principal c))
     \<or> claim_conflicts (workspace_id node) (ctx_workspace c)
     \<or> claim_conflicts (dict_get (namespace node) ''memplex_tenant_id'')
         (prin_tenant (ctx_principal c))
     \<or> claim_conflicts (dict_get (namespace node) ''memplex_subject_id'')
         (prin_subject (ctx_principal c))
     \<or> claim_conflicts (dict_get (namespace node) ''memplex_workspace_id'') (ctx_workspace c)"

lemma conflicts_Nil_iff:
  "map fst (filter (\<lambda>(f, v, e). claim_conflicts v e) (identity_claims node c)) = []
   \<longleftrightarrow> \<not> identity_conflicts node c"
  by (simp add: identity_claims_def identity_conflicts_def Let_def)

lemma bind_node_identity_Inr:
  "bind_node_identity node c vis rj = Inr r \<longleftrightarrow>
   py_strip vis \<noteq> [] \<and> (rj \<longrightarrow> \<not> identity_conflicts node c)
   \<and> r = node\<lparr>tenant_id := Some (prin_tenant (ctx_principal c)),
          owner_subject_id := Some (prin_subject (ctx_principal c)),
          owner := Some (prin_subject (ctx_principal c)),
          workspace_id := Some (ctx_workspace c), visibility := Some (py_strip vis),
          origin_session := (if ctx_session c = [] then None else Some (ctx_session c)),
          namespace := bound_namespace node c, provenance := bound_provenance c\<rparr>"
  unfolding bind_node_identity_def Let_def conflicts_Nil_iff by auto

lemma bound_namespace_get:
  "dict_get (bound_namespace node c) ''memplex_tenant_id'' = Some (prin_tenant (ctx_principal c))"
  "dict_get (bound_namespace node c) ''memplex_subject_id'' = Some (prin_subject (ctx_principal c))"
  "dict_get (bound_namespace node c) ''memplex_workspace_id'' = Some (ctx_workspace c)"
  "truthy (node_domain node) \<Longrightarrow> dict_get (bound_namespace node c) ''domain'' = node_domain node"
  "truthy (knowledge_tier node) \<Longrightarrow>
     dict_get (bound_namespace node c) ''knowledge_tier'' = knowledge_tier node"
  by (auto simp: bound_namespace_def Let_def dict_simps truthy_iff)

lemma bound_namespace_idem:
  assumes "node_domain r = node_domain node" "knowledge_tier r = knowledge_tier node"
    "namespace r = bound_namespace node c"
  shows "bound_namespace r c = bound_namespace node c"
proof -
  note g = bound_namespace_get [of node c]
  have "dict_update (bound_namespace node c)
      [(''memplex_tenant_id'', prin_tenant (ctx_principal c)),
       (''memplex_subject_id'', prin_subject (ctx_principal c)),
       (''memplex_workspace_id'', ctx_workspace c)] = bound_namespace node c"
    by (simp add: dict_set_same g(1-3))
  then show ?thesis
    using g(4,5) by (auto simp: bound_namespace_def [of r] Let_def assms truthy_iff dict_set_same)
qed

lemma own_identity_no_conflict:
  assumes "context_ok c" and "bind_node_identity node c vis rj = Inr r"
  shows "\<not> identity_conflicts r c"
  using assms
  by (auto simp: bind_node_identity_Inr identity_conflicts_def claim_conflicts_def
      bound_namespace_get context_ok_def normalised_def)

text \<open>
  a forged identity is rejected and a genuine one is bound.  With conflict
  rejection on, binding fails exactly when the visibility is blank or one of the seven
  identity claims of the payload contradicts the context; when it succeeds the node's
  identity fields and namespace keys are the context's, everything the payload said
  besides is kept, and binding the result again changes nothing.
\<close>
theorem bind_node_identity_correct:
  assumes c: "context_ok c" and vis: "py_strip vis \<noteq> []"
  shows "(identity_conflicts node c \<longrightarrow>
      (\<exists>fs. fs \<noteq> [] \<and> bind_node_identity node c vis True = Inl (IdentityClaimErr fs)))
    \<and> (\<not> identity_conflicts node c \<longrightarrow> (\<exists>r. bind_node_identity node c vis True = Inr r
        \<and> tenant_id r = Some (prin_tenant (ctx_principal c))
        \<and> owner_subject_id r = Some (prin_subject (ctx_principal c)) \<and> owner r = owner_subject_id r
        \<and> workspace_id r = Some (ctx_workspace c)
        \<and> dict_get (namespace r) ''memplex_tenant_id'' = tenant_id r
        \<and> node_id r = node_id node \<and> body r = body node
        \<and> bind_node_identity r c vis True = Inr r))"
proof (intro conjI impI)
  assume "identity_conflicts node c"
  then have "map fst (filter (\<lambda>(f, v, e). claim_conflicts v e) (identity_claims node c)) \<noteq> []"
    by (simp only: conflicts_Nil_iff not_not)
  then show "\<exists>fs. fs \<noteq> [] \<and> bind_node_identity node c vis True = Inl (IdentityClaimErr fs)"
    unfolding bind_node_identity_def Let_def using vis
    by (metis (no_types, lifting) length_0_conv length_sort)
next
  assume "\<not> identity_conflicts node c"
  then obtain r where r: "bind_node_identity node c vis True = Inr r"
    and rd: "r = node\<lparr>tenant_id := Some (prin_tenant (ctx_principal c)),
          owner_subject_id := Some (prin_subject (ctx_principal c)),
          owner := Some (prin_subject (ctx_principal c)),
          workspace_id := Some (ctx_workspace c), visibility := Some (py_strip vis),
          origin_session := (if ctx_session c = [] then None else Some (ctx_session c)),
          namespace := bound_namespace node c, provenance := bound_provenance c\<rparr>"
    using vis by (simp add: bind_node_identity_Inr)
  have "bound_namespace r c = bound_namespace node c"
    by (rule bound_namespace_idem) (simp_all add: rd)
  then have "bind_node_identity r c vis True = Inr r"
    using own_identity_no_conflict [OF c r] vis by (simp add: bind_node_identity_Inr rd)
  with r show "\<exists>r. bind_node_identity node c vis True = Inr r
        \<and> tenant_id r = Some (prin_tenant (ctx_principal c))
        \<and> owner_subject_id r = Some (prin_subject (ctx_principal c)) \<and> owner r = owner_subject_id r
        \<and> workspace_id r = Some (ctx_workspace c)
        \<and> dict_get (namespace r) ''memplex_tenant_id'' = tenant_id r
        \<and> node_id r = node_id node \<and> body r = body node
        \<and> bind_node_identity r c vis True = Inr r"
    by (intro exI [of _ r]) (simp add: rd bound_namespace_get)
qed

lemma sample_context_ok: "context_ok sample_context"
  by (simp add: context_ok_def sample_context_def normalised_def strip_eval)

theorem bind_node_identity_correct_witness:
  "\<exists>fs. fs \<noteq> [] \<and> bind_node_identity (sample_node\<lparr>owner := Some ''mallory''\<rparr>) sample_context
     ''workspace'' True = Inl (IdentityClaimErr fs)"
proof -
  have "identity_conflicts (sample_node\<lparr>owner := Some ''mallory''\<rparr>) sample_context"
    by (simp add: identity_conflicts_def claim_conflicts_def sample_context_def strip_eval)
  moreover have "py_strip ''workspace'' \<noteq> []" by (simp add: strip_eval)
  ultimately show ?thesis
    using bind_node_identity_correct [OF sample_context_ok, of "''workspace''"] by blast
qed

end
