(* ===== verification/Authorization.thy ===== *)
theory Authorization
  imports Identity Temporal
begin

section \<open>Authorization and lineage\<close>

text \<open>
  \<^verbatim>\<open>memplex/authorization.py\<close> and \<^verbatim>\<open>memplex/factual_lineage.py\<close>: the visibility
  of one node to a request context, the lineage of derived nodes (written by
  \<open>bind_derivation_lineage\<close>, checked at read time), and the iterative evaluation
  \<open>_SnapshotAuthorization.check\<close> with its cache of verdicts.  JSON, the fingerprint
  (SHA-256 over a JSON text) and the injection guard are arguments.
\<close>

subsection \<open>The node's own scope\<close>

definition identity_value :: "string option \<Rightarrow> (string, string) dict \<Rightarrow> string \<Rightarrow> string option" where
  "identity_value typed ns key =
     (let value = (if typed = None \<or> py_strip (the typed) = [] then dict_get ns key else typed)
      in case value of None \<Rightarrow> None | Some s \<Rightarrow> (if py_strip s = [] then None else Some (py_strip s)))"

definition node_tenant :: "memory_node \<Rightarrow> string option" where
  "node_tenant n = identity_value (tenant_id n) (namespace n) ''memplex_tenant_id''"

definition is_local_development_context :: "auth_context \<Rightarrow> bool" where
  "is_local_development_context c =
     (prin_tenant (ctx_principal c) = ''local''
      \<and> prin_subject (ctx_principal c) = ''local-development''
      \<and> ''local-development'' \<in> prin_roles (ctx_principal c)
      \<and> ctx_workspace c = ''local-development''
      \<and> dict_get (ctx_provenance c) ''trust_boundary'' = Some ''local-development'')"

definition agent_has_grant :: "memory_node \<Rightarrow> auth_context \<Rightarrow> bool" where
  "agent_has_grant n c =
     (case dict_get (namespace n) ''memplex_grants'' of None \<Rightarrow> False
      | Some raw \<Rightarrow> raw \<noteq> [] \<and>
          (let caller = (if ctx_agent c \<noteq> [] then ctx_agent c else prin_subject (ctx_principal c))
           in caller \<noteq> [] \<and>
              caller \<in> set (map py_strip
                (filter (\<lambda>part. py_strip part \<noteq> []) (split_on CHR '','' raw)))))"

definition node_visibility :: "memory_node \<Rightarrow> string" where
  "node_visibility n =
     (let v = or_else (visibility n) (dict_get (namespace n) ''memplex_visibility'')
      in py_lower (py_strip (if truthy v then the v else ''workspace'')))"

definition node_subject :: "memory_node \<Rightarrow> string option" where
  "node_subject n =
     (case identity_value (owner_subject_id n) (namespace n) ''memplex_subject_id'' of
        Some s \<Rightarrow> Some s
      | None \<Rightarrow> (case owner n of None \<Rightarrow> None
                 | Some ow \<Rightarrow> if py_strip ow = [] then None else Some (py_strip ow)))"

definition node_workspace :: "memory_node \<Rightarrow> string option" where
  "node_workspace n = identity_value (workspace_id n) (namespace n) ''memplex_workspace_id''"

definition source_agent :: "memory_node \<Rightarrow> string option" where
  "source_agent n =
     or_else (dict_get (provenance n) ''agent_id'')
       (or_else (dict_get (namespace n) ''memplex_source_agent'')
                (dict_get (namespace n) ''memplex_agent''))"

definition is_node_in_scope :: "memory_node \<Rightarrow> auth_context \<Rightarrow> bool" where
  "is_node_in_scope n c =
     (case node_tenant n of
        None \<Rightarrow> is_local_development_context c
      | Some t \<Rightarrow>
          if t \<noteq> prin_tenant (ctx_principal c) then False
          else if node_visibility n = ''user''
            then node_subject n = Some (prin_subject (ctx_principal c)) \<or> agent_has_grant n c
          else if node_visibility n = ''workspace''
            then truthy (node_workspace n) \<and> ctx_workspace c \<noteq> []
                 \<and> node_workspace n = Some (ctx_workspace c)
          else if node_visibility n = ''session''
            then truthy (node_workspace n) \<and> ctx_workspace c \<noteq> []
                 \<and> truthy (node_subject n) \<and> prin_subject (ctx_principal c) \<noteq> []
                 \<and> truthy (origin_session n) \<and> ctx_session c \<noteq> []
                 \<and> truthy (source_agent n) \<and> ctx_agent c \<noteq> []
                 \<and> node_workspace n = Some (ctx_workspace c)
                 \<and> node_subject n = Some (prin_subject (ctx_principal c))
                 \<and> origin_session n = Some (ctx_session c)
                 \<and> source_agent n = Some (ctx_agent c)
          else False)"

subsection \<open>Declared lineage\<close>

definition VISIBILITY_RESTRICTIVENESS :: "(string, int) dict" where
  "VISIBILITY_RESTRICTIVENESS = [(''user'', 0), (''session'', 1), (''workspace'', 2)]"

definition visibility_rank :: "string \<Rightarrow> int" where
  "visibility_rank v = dict_default VISIBILITY_RESTRICTIVENESS v (-1)"

definition declared_visibility :: "memory_node \<Rightarrow> string" where
  "declared_visibility n =
     (let v = or_else (visibility n) (dict_get (namespace n) ''memplex_visibility'')
      in py_lower (py_strip (if truthy v then the v else [])))"

definition bind_derivation_lineage ::
  "memory_node \<Rightarrow> memory_node list \<Rightarrow> string \<Rightarrow> memory_node result" where
  "bind_derivation_lineage n source_nodes derivation_version =
     (if source_nodes = []
      then Inl (ValueErr ''derivation lineage requires at least one source'')
      else if list_ex (\<lambda>s. node_id s = []) source_nodes
      then Inl (ValueErr ''derivation source is missing its id'')
      else
        let ids = map node_id source_nodes;
            ranks = map (\<lambda>s. visibility_rank (declared_visibility s)) source_nodes;
            ns = dict_set ''memplex_derivation'' derivation_version
                   (dict_set ''memplex_source_refs'' (py_join '','' ids) (namespace n));
            most_restrictive = Min (set ranks);
            vis = (if most_restrictive < 0 then Some ''user''
                   else case find (\<lambda>(name, rank). rank = most_restrictive) VISIBILITY_RESTRICTIVENESS of
                     Some (name, _) \<Rightarrow> Some name
                   | None \<Rightarrow> visibility n)
        in Inr (n\<lparr>namespace := ns, visibility := vis\<rparr>))"

text \<open>\<open>dict.fromkeys\<close> keeps the first occurrence of every id.\<close>

fun first_occurrences :: "'a list \<Rightarrow> 'a list" where
  "first_occurrences [] = []"
| "first_occurrences (x # xs) = x # filter (\<lambda>y. y \<noteq> x) (first_occurrences xs)"

definition source_ids :: "memory_node \<Rightarrow> string list" where
  "source_ids n =
     (case dict_get (namespace n) ''memplex_source_refs'' of
        None \<Rightarrow> []
      | Some refs \<Rightarrow> if refs = [] then []
                    else first_occurrences (filter (\<lambda>p. p \<noteq> []) (split_on CHR '','' refs)))"

subsection \<open>Evidence of captured facts\<close>

type_synonym 'l lookup_fun = "'l \<Rightarrow> string \<Rightarrow> memory_node option result \<times> 'l"

text \<open>
  \<open>ev_parse\<close> is \<open>json.loads\<close> of the stored snapshots: \<open>None\<close> when it raises or does not
  give an object; a value of the object that is not a string is \<open>None\<close>.
\<close>

record evidence_env =
  ev_fromiso :: iso_parser
  ev_clock :: int
  ev_suspected :: "memory_node \<Rightarrow> bool"
  ev_fingerprint :: "memory_node \<Rightarrow> string result"
  ev_parse :: "string \<Rightarrow> (string, string option) dict option"

definition source_is_current :: "evidence_env \<Rightarrow> memory_node \<Rightarrow> bool" where
  "source_is_current ev n =
     (\<not> (case body n of ParagraphB p \<Rightarrow> context_historical p | _ \<Rightarrow> False)
      \<and> \<not> ev_suspected ev n
      \<and> (memory_type n \<noteq> ''fact'' \<or> is_valid_at (ev_fromiso ev) (ev_clock ev) n))"

text \<open>
  The loop over the expected fingerprints stops at the first mismatch; a lookup that
  raises counts as one.  A lookup object has a state of its own.
\<close>

fun match_snapshots ::
  "evidence_env \<Rightarrow> 'l lookup_fun \<Rightarrow> (string \<times> string option) list \<Rightarrow> 'l \<Rightarrow> bool \<times> 'l" where
  "match_snapshots ev get [] l = (True, l)"
| "match_snapshots ev get ((sid, fp) # rest) l =
     (case get l sid of
        (Inr (Some src), l') \<Rightarrow>
          if node_id src = sid \<and> source_is_current ev src
             \<and> (case ev_fingerprint ev src of Inl _ \<Rightarrow> False | Inr f \<Rightarrow> fp = Some f)
          then match_snapshots ev get rest l' else (False, l')
      | (_, l') \<Rightarrow> (False, l'))"

definition factual_sources_match ::
  "evidence_env \<Rightarrow> 'l lookup_fun \<Rightarrow> memory_node \<Rightarrow> 'l \<Rightarrow> bool \<times> 'l" where
  "factual_sources_match ev get n l =
     (if dict_get (provenance n) ''extraction'' \<noteq> Some ''factual_capture_v1'' then (True, l)
      else case dict_get (provenance n) ''source_snapshots'' of None \<Rightarrow> (False, l)
      | Some raw \<Rightarrow> (case ev_parse ev raw of None \<Rightarrow> (False, l)
      | Some expected \<Rightarrow> (case dict_get (namespace n) ''memplex_source_refs'' of None \<Rightarrow> (False, l)
      | Some r \<Rightarrow>
          if fst ` set expected \<noteq> set (split_on CHR '','' r) then (False, l)
          else match_snapshots ev get expected l)))"

definition capture_audit_provenance :: "memory_node \<Rightarrow> (string, string) dict" where
  "capture_audit_provenance n =
     (if dict_get (provenance n) ''extraction'' = Some ''factual_capture_v1''
         \<or> dict_get (provenance n) ''capture_input'' = Some ''factual_capture_v1''
      then filter (\<lambda>(k, v). k \<in> {''extraction'', ''authority'', ''author_role'',
             ''reference_datetime'', ''evidence'', ''source_snapshots'', ''capture_input''})
             (provenance n)
      else [])"

subsection \<open>The iterative evaluation\<close>

text \<open>
  \<open>snap_legacy_path\<close> and \<open>snap_identityless\<close> are the two switches of the constructor;
  \<open>None\<close> and \<open>False\<close> are the strict snapshot semantics.  The stack holds a node, its
  sources once it was visited, and the position of the next edge.
\<close>

type_synonym verdict = "bool \<times> string"

record 'l snapshot =
  snap_context :: auth_context
  snap_lookup :: "'l lookup_fun"
  snap_failure :: "'l \<Rightarrow> string"
  snap_legacy_path :: "string set option"
  snap_identityless :: bool

record 'l check_state =
  chk_stack :: "(memory_node \<times> string list option \<times> nat) list"
  chk_active :: "string set"
  chk_verdicts :: "(string, verdict) dict"
  chk_lookup :: 'l

type_synonym 'l check_result = "verdict result \<times> (string, verdict) dict \<times> 'l"

definition effective_sources :: "'l snapshot \<Rightarrow> memory_node \<Rightarrow> string list" where
  "effective_sources sn n =
     (if snap_identityless sn \<and> node_tenant n = None then [] else source_ids n)"

definition complete_entry :: "string \<Rightarrow> verdict \<Rightarrow> 'l check_state \<Rightarrow> 'l check_state" where
  "complete_entry cid v st =
     st\<lparr>chk_stack := tl (chk_stack st), chk_active := chk_active st - {cid},
        chk_verdicts := dict_set cid v (chk_verdicts st)\<rparr>"

definition fetch_source ::
  "'l snapshot \<Rightarrow> string \<Rightarrow> string \<Rightarrow> 'l check_state
   \<Rightarrow> ('l check_state, 'l check_result) loop_next" where
  "fetch_source sn cid s st =
     (case snap_lookup sn (chk_lookup st) s of
        (Inl _, l) \<Rightarrow> Again (complete_entry cid (False, ''lookup_error'') (st\<lparr>chk_lookup := l\<rparr>))
      | (Inr None, l) \<Rightarrow>
          Again (st\<lparr>chk_lookup := l, chk_verdicts := dict_set s
            (False, if snap_failure sn l = [] then ''missing'' else snap_failure sn l)
            (chk_verdicts st)\<rparr>)
      | (Inr (Some m), l) \<Rightarrow>
          if snap_legacy_path sn \<noteq> None \<and> node_id m \<noteq> s
          then Leave (Inr (False, ''legacy_alias''), chk_verdicts st, l)
          else Again (st\<lparr>chk_lookup := l, chk_stack := (m, None, 0) # chk_stack st\<rparr>))"

definition visit_edge ::
  "'l snapshot \<Rightarrow> memory_node \<Rightarrow> string list \<Rightarrow> nat \<Rightarrow> 'l check_state
   \<Rightarrow> ('l check_state, 'l check_result) loop_next" where
  "visit_edge sn current ss position st =
     (if length ss \<le> position then Again (complete_entry (node_id current) (True, []) st)
      else case dict_get (chk_verdicts st) (ss ! position) of
          Some v \<Rightarrow>
            if \<not> fst v then Again (complete_entry (node_id current) v st)
            else Again (st\<lparr>chk_stack := (current, Some ss, position + 1) # tl (chk_stack st)\<rparr>)
        | None \<Rightarrow>
            if ss ! position \<in> chk_active st \<and> snap_legacy_path sn = None
            then Again (complete_entry (node_id current) (False, ''denied'') st)
            else fetch_source sn (node_id current) (ss ! position) st)"

definition first_visit ::
  "evidence_env \<Rightarrow> 'l snapshot \<Rightarrow> memory_node \<Rightarrow> nat \<Rightarrow> 'l check_state
   \<Rightarrow> ('l check_state, 'l check_result) loop_next" where
  "first_visit ev sn current position st =
     (if \<not> is_node_in_scope current (snap_context sn)
      then Again (complete_entry (node_id current) (False, ''denied'') st)
      else case factual_sources_match ev (snap_lookup sn) current (chk_lookup st) of (matching, l) \<Rightarrow>
        let st' = st\<lparr>chk_lookup := l\<rparr>; ss = effective_sources sn current in
        if \<not> matching then Again (complete_entry (node_id current) (False, ''source_changed'') st')
        else if ss \<noteq> [] \<and> node_id current \<in> chk_active st'
        then Again (complete_entry (node_id current) (False, ''denied'') st')
        else visit_edge sn current ss position
          (st'\<lparr>chk_active := insert (node_id current) (chk_active st'),
               chk_stack := (current, Some ss, position) # tl (chk_stack st')\<rparr>))"

definition snapshot_step ::
  "evidence_env \<Rightarrow> 'l snapshot \<Rightarrow> string \<Rightarrow> 'l check_state
   \<Rightarrow> ('l check_state, 'l check_result) loop_next" where
  "snapshot_step ev sn root_id st =
     (case chk_stack st of
        [] \<Rightarrow> Leave (case dict_get (chk_verdicts st) root_id of
                      None \<Rightarrow> Inl (KeyErr root_id) | Some v \<Rightarrow> Inr v, chk_verdicts st, chk_lookup st)
      | (current, Some ss, position) # rest \<Rightarrow> visit_edge sn current ss position st
      | (current, None, position) # rest \<Rightarrow> first_visit ev sn current position st)"

definition start_state ::
  "'l snapshot \<Rightarrow> (string, verdict) dict \<Rightarrow> memory_node \<Rightarrow> 'l \<Rightarrow> 'l check_state" where
  "start_state sn cache n l =
     \<lparr>chk_stack = [(n, None, 0)],
      chk_active = (case snap_legacy_path sn of None \<Rightarrow> {} | Some p \<Rightarrow> p),
      chk_verdicts = cache, chk_lookup = l\<rparr>"

text \<open>\<open>check\<close>, with fuel for its loop: the verdict, the cache and the lookup it leaves.\<close>

definition snapshot_check ::
  "nat \<Rightarrow> evidence_env \<Rightarrow> 'l snapshot \<Rightarrow> (string, verdict) dict \<Rightarrow> memory_node \<Rightarrow> 'l
   \<Rightarrow> 'l check_result option" where
  "snapshot_check fuel ev sn cache n l =
     (case dict_get cache (node_id n) of
        Some v \<Rightarrow> Some (Inr v, cache, l)
      | None \<Rightarrow> run_loop fuel (snapshot_step ev sn (node_id n)) (start_state sn cache n l))"


subsection \<open>What a visible node is\<close>

text \<open>
  The specification, over the committed sources as a map: a node's evidence holds, and
  it is visible when it is in scope, its evidence holds and every source exists and is
  visible.  The least such relation, so no node on a cycle of sources is visible.
\<close>

definition snapshot_holds ::
  "evidence_env \<Rightarrow> (string \<Rightarrow> memory_node option) \<Rightarrow> string \<times> string option \<Rightarrow> bool" where
  "snapshot_holds ev source e \<longleftrightarrow>
     (\<exists>src f. source (fst e) = Some src \<and> node_id src = fst e \<and> source_is_current ev src
        \<and> ev_fingerprint ev src = Inr f \<and> snd e = Some f)"

definition evidence_ok ::
  "evidence_env \<Rightarrow> (string \<Rightarrow> memory_node option) \<Rightarrow> memory_node \<Rightarrow> bool" where
  "evidence_ok ev source n \<longleftrightarrow>
     dict_get (provenance n) ''extraction'' \<noteq> Some ''factual_capture_v1''
     \<or> (\<exists>raw expected r. dict_get (provenance n) ''source_snapshots'' = Some raw
          \<and> ev_parse ev raw = Some expected
          \<and> dict_get (namespace n) ''memplex_source_refs'' = Some r
          \<and> fst ` set expected = set (split_on CHR '','' r)
          \<and> (\<forall>e \<in> set expected. snapshot_holds ev source e))"

inductive lineage_ok ::
  "evidence_env \<Rightarrow> auth_context \<Rightarrow> (string \<Rightarrow> memory_node option) \<Rightarrow> (memory_node \<Rightarrow> string list)
   \<Rightarrow> memory_node \<Rightarrow> bool"
  for ev c source srcs where
  visible: "\<lbrakk>is_node_in_scope n c; evidence_ok ev source n;
      \<And>s. s \<in> set (srcs n) \<Longrightarrow> \<exists>m. source s = Some m \<and> lineage_ok ev c source srcs m\<rbrakk>
    \<Longrightarrow> lineage_ok ev c source srcs n"

inductive_simps lineage_ok_iff: "lineage_ok ev c source srcs n"

definition source_edge ::
  "(string \<Rightarrow> memory_node option) \<Rightarrow> (memory_node \<Rightarrow> string list) \<Rightarrow> (memory_node \<times> memory_node) set" where
  "source_edge source srcs = {(n, m). \<exists>s \<in> set (srcs n). source s = Some m}"

lemma lineage_ok_edge:
  "lineage_ok ev c source srcs n \<Longrightarrow> (n, m) \<in> source_edge source srcs
   \<Longrightarrow> lineage_ok ev c source srcs m"
  by (auto simp: source_edge_def lineage_ok_iff [of ev c source srcs n])

lemma lineage_ok_path:
  "(n, m) \<in> (source_edge source srcs)\<^sup>* \<Longrightarrow> lineage_ok ev c source srcs n
   \<Longrightarrow> lineage_ok ev c source srcs m"
  by (induction rule: rtrancl_induct) (auto intro: lineage_ok_edge)

lemma lineage_ok_acyclic:
  "lineage_ok ev c source srcs n \<Longrightarrow> (n, n) \<notin> (source_edge source srcs)\<^sup>+"
proof (induction rule: lineage_ok.induct)
  case (visible n)
  show ?case
  proof
    assume "(n, n) \<in> (source_edge source srcs)\<^sup>+"
    then obtain m where m: "(n, m) \<in> source_edge source srcs"
      "(m, n) \<in> (source_edge source srcs)\<^sup>*"
      by (meson tranclD)
    have "(m, m) \<in> (source_edge source srcs)\<^sup>+"
      using m by (meson rtrancl_into_trancl1)
    with m(1) visible.IH show False unfolding source_edge_def by fastforce
  qed
qed

subsection \<open>Lookup objects\<close>

text \<open>
  The contract of a lookup object: its answers are nodes of \<open>source\<close>, under their own
  ids.  An exact one answers whenever \<open>source\<close> has the node.
\<close>

locale lookup_object =
  fixes get :: "'l lookup_fun"
    and linv :: "'l \<Rightarrow> bool"
    and source :: "string \<Rightarrow> memory_node option"
  assumes get_inv: "\<lbrakk>linv l; get l s = (r, l')\<rbrakk> \<Longrightarrow> linv l'"
    and get_sound: "\<lbrakk>linv l; get l s = (Inr (Some m), l')\<rbrakk> \<Longrightarrow> source s = Some m"
    and source_id: "source s = Some m \<Longrightarrow> node_id m = s"
begin

lemma match_snapshots_inv:
  "match_snapshots ev get es l = (b, l') \<Longrightarrow> linv l \<Longrightarrow> linv l'"
proof (induction es arbitrary: l)
  case Nil
  then show ?case by simp
next
  case (Cons x es)
  obtain r l1 where x: "get l (fst x) = (r, l1)" by (metis surj_pair)
  with Cons.prems(2) have "linv l1" by (blast intro: get_inv)
  with x Cons show ?case
    by (cases x) (auto split: sum.splits option.splits if_splits)
qed

lemma match_snapshots_sound:
  "match_snapshots ev get es l = (True, l') \<Longrightarrow> linv l \<Longrightarrow> e \<in> set es \<Longrightarrow> snapshot_holds ev source e"
proof (induction es arbitrary: l)
  case Nil
  then show ?case by simp
next
  case (Cons x es)
  then obtain src l1 f where x: "get l (fst x) = (Inr (Some src), l1)" "node_id src = fst x"
      "source_is_current ev src" "ev_fingerprint ev src = Inr f" "snd x = Some f"
    and rest: "match_snapshots ev get es l1 = (True, l')"
    by (cases x) (auto split: prod.splits sum.splits option.splits if_splits)
  have "snapshot_holds ev source x"
    using x get_sound [OF Cons.prems(2) x(1)] by (auto simp: snapshot_holds_def)
  with Cons.IH [OF rest get_inv [OF Cons.prems(2) x(1)]] Cons.prems(3) show ?case by auto
qed

lemma factual_inv:
  "factual_sources_match ev get n l = (b, l') \<Longrightarrow> linv l \<Longrightarrow> linv l'"
  by (auto simp: factual_sources_match_def split: if_splits option.splits dest: match_snapshots_inv)

lemma factual_sound:
  "factual_sources_match ev get n l = (True, l') \<Longrightarrow> linv l \<Longrightarrow> evidence_ok ev source n"
  by (auto simp: factual_sources_match_def evidence_ok_def split: if_splits option.splits
      dest: match_snapshots_sound)

end

locale exact_lookup = lookup_object +
  assumes get_exact: "\<lbrakk>linv l; source s = Some m\<rbrakk> \<Longrightarrow> \<exists>l'. get l s = (Inr (Some m), l')"
begin

lemma match_snapshots_exact:
  "linv l \<Longrightarrow> (\<forall>e \<in> set es. snapshot_holds ev source e)
   \<Longrightarrow> \<exists>l'. match_snapshots ev get es l = (True, l')"
proof (induction es arbitrary: l)
  case Nil
  then show ?case by simp
next
  case (Cons e es)
  obtain src f where src: "source (fst e) = Some src" "node_id src = fst e"
    "source_is_current ev src" "ev_fingerprint ev src = Inr f" "snd e = Some f"
    using Cons.prems by (auto simp: snapshot_holds_def)
  obtain l1 where l1: "get l (fst e) = (Inr (Some src), l1)"
    using get_exact [OF Cons.prems(1) src(1)] by blast
  obtain l' where "match_snapshots ev get es l1 = (True, l')"
    using Cons.IH [OF get_inv [OF Cons.prems(1) l1]] Cons.prems(2) by auto
  with l1 src show ?case by (cases e) auto
qed

lemma factual_exact:
  "linv l \<Longrightarrow> evidence_ok ev source n \<Longrightarrow> \<exists>l'. factual_sources_match ev get n l = (True, l')"
  by (auto simp: evidence_ok_def factual_sources_match_def match_snapshots_exact)

end

text \<open>A store read as it is: the answers of a function that does not change.\<close>

definition pure_lookup :: "(string \<Rightarrow> memory_node option result) \<Rightarrow> unit lookup_fun" where
  "pure_lookup f l s = (f s, ())"

definition known :: "(string \<Rightarrow> memory_node option result) \<Rightarrow> string \<Rightarrow> memory_node option" where
  "known f s = (case f s of Inr (Some m) \<Rightarrow> if node_id m = s then Some m else None | _ \<Rightarrow> None)"

definition own_ids :: "(string \<Rightarrow> memory_node option result) \<Rightarrow> bool" where
  "own_ids f \<longleftrightarrow> (\<forall>s m. f s = Inr (Some m) \<longrightarrow> node_id m = s)"

interpretation pure: exact_lookup "pure_lookup f" "\<lambda>_. own_ids f" "known f" for f
  by unfold_locales
    (auto simp: pure_lookup_def known_def own_ids_def split: sum.splits option.splits if_splits)

subsection \<open>Soundness of the evaluation\<close>

definition visible_id ::
  "evidence_env \<Rightarrow> 'l snapshot \<Rightarrow> (string \<Rightarrow> memory_node option) \<Rightarrow> string \<Rightarrow> bool" where
  "visible_id ev sn source s \<longleftrightarrow>
     (\<exists>m. source s = Some m \<and> lineage_ok ev (snap_context sn) source (effective_sources sn) m)"

definition cache_sound ::
  "evidence_env \<Rightarrow> 'l snapshot \<Rightarrow> (string \<Rightarrow> memory_node option) \<Rightarrow> (string, verdict) dict \<Rightarrow> bool" where
  "cache_sound ev sn source cache \<longleftrightarrow>
     (\<forall>s r. dict_get cache s = Some (True, r) \<longrightarrow> visible_id ev sn source s)"

fun entry_ok ::
  "evidence_env \<Rightarrow> 'l snapshot \<Rightarrow> (string \<Rightarrow> memory_node option)
   \<Rightarrow> memory_node \<times> string list option \<times> nat \<Rightarrow> bool" where
  "entry_ok ev sn source (n, None, p) \<longleftrightarrow> source (node_id n) = Some n \<and> p = 0"
| "entry_ok ev sn source (n, Some ss, p) \<longleftrightarrow>
     source (node_id n) = Some n \<and> is_node_in_scope n (snap_context sn)
     \<and> evidence_ok ev source n \<and> ss = effective_sources sn n
     \<and> (\<forall>s \<in> set (take p ss). visible_id ev sn source s)"

definition check_sound ::
  "evidence_env \<Rightarrow> 'l snapshot \<Rightarrow> ('l \<Rightarrow> bool) \<Rightarrow> (string \<Rightarrow> memory_node option)
   \<Rightarrow> 'l check_state \<Rightarrow> bool" where
  "check_sound ev sn linv source st \<longleftrightarrow>
     linv (chk_lookup st) \<and> cache_sound ev sn source (chk_verdicts st)
     \<and> list_all (entry_ok ev sn source) (chk_stack st)"

definition not_visible ::
  "evidence_env \<Rightarrow> 'l snapshot \<Rightarrow> ('l \<Rightarrow> bool) \<Rightarrow> (string \<Rightarrow> memory_node option)
   \<Rightarrow> 'l check_result \<Rightarrow> bool" where
  "not_visible ev sn linv source r \<longleftrightarrow>
     (\<forall>why. fst r \<noteq> Inr (True, why)) \<and> cache_sound ev sn source (fst (snd r)) \<and> linv (snd (snd r))"

lemma cache_sound_set:
  "cache_sound ev sn source cache \<Longrightarrow> (fst v \<Longrightarrow> visible_id ev sn source s)
   \<Longrightarrow> cache_sound ev sn source (dict_set s v cache)"
  by (auto simp: cache_sound_def dict_simps split: if_splits)

lemma complete_sound:
  assumes "check_sound ev sn linv source st" "chk_stack st \<noteq> []"
    "fst v \<Longrightarrow> visible_id ev sn source cid"
  shows "check_sound ev sn linv source (complete_entry cid v st)"
  using assms by (cases "chk_stack st") (auto simp: check_sound_def complete_entry_def cache_sound_set)

context lookup_object
begin

lemma fetch_sound:
  assumes st: "check_sound ev sn linv source st" and get: "snap_lookup sn = get"
    and ne: "chk_stack st \<noteq> []"
  shows "next_ok (check_sound ev sn linv source) (not_visible ev sn linv source)
    (fetch_source sn cid s st)"
proof -
  obtain r l where r: "get (chk_lookup st) s = (r, l)" by (metis surj_pair)
  have l: "linv l" using st r by (auto simp: check_sound_def intro: get_inv)
  have found: "source (node_id m) = Some m" if "r = Inr (Some m)" for m
  proof -
    have "source s = Some m" using st r that by (auto simp: check_sound_def dest: get_sound)
    then show ?thesis using source_id by metis
  qed
  have "check_sound ev sn linv source (complete_entry cid (False, ''lookup_error'') (st\<lparr>chk_lookup := l\<rparr>))"
    using st l ne by (intro complete_sound) (auto simp: check_sound_def)
  then show ?thesis
    using st l found
    by (cases r rule: sum.exhaust)
      (auto simp: fetch_source_def get r check_sound_def not_visible_def intro!: cache_sound_set
        split: option.splits)
qed

lemma visit_sound:
  assumes st: "check_sound ev sn linv source st" and get: "snap_lookup sn = get"
    and top: "chk_stack st = (n, Some ss, p) # rest"
  shows "next_ok (check_sound ev sn linv source) (not_visible ev sn linv source)
    (visit_edge sn n ss p st)"
proof (cases "length ss \<le> p")
  case True
  have "visible_id ev sn source (node_id n)"
    using st top True
    by (auto simp: check_sound_def visible_id_def intro!: lineage_ok.visible)
  then show ?thesis
    using st top True by (auto simp: visit_edge_def intro!: complete_sound)
next
  case False
  have ne: "chk_stack st \<noteq> []" using top by simp
  show ?thesis
  proof (cases "dict_get (chk_verdicts st) (ss ! p)")
    case None
    have "check_sound ev sn linv source (complete_entry (node_id n) (False, ''denied'') st)"
      using st ne by (rule complete_sound) simp
    with None False fetch_sound [OF st get ne] show ?thesis by (simp add: visit_edge_def)
  next
    case (Some v)
    show ?thesis
    proof (cases "fst v")
      case True
      then have "visible_id ev sn source (ss ! p)"
        using st Some by (cases v) (auto simp: check_sound_def cache_sound_def)
      with st top False have "check_sound ev sn linv source
          (st\<lparr>chk_stack := (n, Some ss, p + 1) # tl (chk_stack st)\<rparr>)"
        by (auto simp: check_sound_def take_Suc_conv_app_nth)
      with Some True False show ?thesis by (simp add: visit_edge_def)
    next
      case neg: False
      with st ne have "check_sound ev sn linv source (complete_entry (node_id n) v st)"
        by (intro complete_sound) auto
      with Some neg False show ?thesis by (simp add: visit_edge_def)
    qed
  qed
qed

lemma first_visit_sound:
  assumes st: "check_sound ev sn linv source st" and get: "snap_lookup sn = get"
    and top: "chk_stack st = (n, None, p) # rest"
  shows "next_ok (check_sound ev sn linv source) (not_visible ev sn linv source)
    (first_visit ev sn n p st)"
proof -
  obtain b l where fm: "factual_sources_match ev get n (chk_lookup st) = (b, l)"
    by (metis surj_pair)
  have l: "linv l" using factual_inv [OF fm] st by (simp add: check_sound_def)
  have ev: "evidence_ok ev source n" if b
    using factual_sound that fm st by (auto simp: check_sound_def)
  let ?ss = "effective_sources sn n"
  let ?st = "st\<lparr>chk_lookup := l, chk_active := insert (node_id n) (chk_active st),
      chk_stack := (n, Some ?ss, p) # rest\<rparr>"
  have fails: "check_sound ev sn linv source (complete_entry (node_id n) (False, r) st')"
    if "st' = st \<or> st' = st\<lparr>chk_lookup := l\<rparr>" for r st'
    using st l that top by (intro complete_sound) (auto simp: check_sound_def)
  have visit: "next_ok (check_sound ev sn linv source) (not_visible ev sn linv source)
      (visit_edge sn n ?ss p ?st)" if "is_node_in_scope n (snap_context sn)" b
    using st l ev that top get by (intro visit_sound) (auto simp: check_sound_def)
  have eq: "st\<lparr>chk_lookup := l, chk_active := insert (node_id n) (chk_active st),
      chk_stack := (n, Some ?ss, p) # tl (chk_stack (st\<lparr>chk_lookup := l\<rparr>))\<rparr> = ?st"
    using top by simp
  show ?thesis
    using fails visit by (simp add: first_visit_def get fm Let_def top)
qed

lemma step_sound:
  assumes st: "check_sound ev sn linv source st" and get: "snap_lookup sn = get"
  shows "next_ok (check_sound ev sn linv source)
    (\<lambda>(v, cache, l). (\<forall>r. v = Inr (True, r) \<longrightarrow> visible_id ev sn source root_id)
        \<and> cache_sound ev sn source cache \<and> linv l)
    (snapshot_step ev sn root_id st)"
proof (cases "chk_stack st")
  case Nil
  with st show ?thesis
    by (auto simp: snapshot_step_def check_sound_def cache_sound_def split: option.splits)
next
  case (Cons e rest)
  obtain n so p where e: "e = (n, so, p)" by (cases e)
  have "next_ok (check_sound ev sn linv source) (not_visible ev sn linv source)
      (snapshot_step ev sn root_id st)"
    using visit_sound [OF st get] first_visit_sound [OF st get] Cons e
    by (cases so) (simp_all add: snapshot_step_def)
  then show ?thesis by (rule next_ok_mono) (auto simp: not_visible_def)
qed

lemma check_visible:
  assumes cache: "cache_sound ev sn source cache" and get: "snap_lookup sn = get"
    and n: "source (node_id n) = Some n" and l: "linv l"
    and run: "snapshot_check fuel ev sn cache n l = Some (v, cache', l')"
  shows "(\<forall>r. v = Inr (True, r) \<longrightarrow> visible_id ev sn source (node_id n))
    \<and> cache_sound ev sn source cache' \<and> linv l'"
proof (cases "dict_get cache (node_id n)")
  case (Some w)
  with run cache l show ?thesis by (auto simp: snapshot_check_def cache_sound_def)
next
  case None
  have loop: "run_loop fuel (snapshot_step ev sn (node_id n)) (start_state sn cache n l)
      = Some (v, cache', l')"
    using None run by (simp add: snapshot_check_def)
  have init: "check_sound ev sn linv source (start_state sn cache n l)"
    using cache n l by (simp add: check_sound_def start_state_def)
  have step: "next_ok (check_sound ev sn linv source)
    (\<lambda>(v, cache, l). (\<forall>r. v = Inr (True, r) \<longrightarrow> visible_id ev sn source (node_id n))
        \<and> cache_sound ev sn source cache \<and> linv l) (snapshot_step ev sn (node_id n) st)"
    if "check_sound ev sn linv source st" for st
    using that get by (rule step_sound)
  from run_loop_post [OF step init loop] show ?thesis by simp
qed

end

subsection \<open>Totality of the strict evaluation\<close>

text \<open>
  In the strict mode the stack is a path of source edges over distinct nodes without a
  verdict, and the active ids are those of the visited entries.
\<close>

abbreviation entry_id :: "memory_node \<times> string list option \<times> nat \<Rightarrow> string" where
  "entry_id e \<equiv> node_id (fst e)"

fun stack_chain :: "(memory_node \<times> string list option \<times> nat) list \<Rightarrow> bool" where
  "stack_chain [] = True"
| "stack_chain [e] = True"
| "stack_chain (e # (n, None, p) # rest) = False"
| "stack_chain (e # (n, Some ss, p) # rest) =
     (p < length ss \<and> ss ! p = entry_id e \<and> stack_chain ((n, Some ss, p) # rest))"

fun visited_ids :: "(memory_node \<times> string list option \<times> nat) list \<Rightarrow> string list" where
  "visited_ids [] = []"
| "visited_ids ((n, None, p) # rest) = visited_ids rest"
| "visited_ids ((n, Some ss, p) # rest) = node_id n # visited_ids rest"

definition stack_inv :: "string \<Rightarrow> 'l check_state \<Rightarrow> bool" where
  "stack_inv root_id st \<longleftrightarrow>
     stack_chain (chk_stack st) \<and> distinct (map entry_id (chk_stack st))
     \<and> chk_active st = set (visited_ids (chk_stack st))
     \<and> (\<forall>e \<in> set (chk_stack st). dict_get (chk_verdicts st) (entry_id e) = None)
     \<and> (if chk_stack st = [] then dict_get (chk_verdicts st) root_id \<noteq> None
        else entry_id (last (chk_stack st)) = root_id)"

text \<open>The measure: ids without a verdict, then free stack room, then edges left.\<close>

definition edge_bound :: "'l snapshot \<Rightarrow> (string \<Rightarrow> memory_node option) \<Rightarrow> nat" where
  "edge_bound sn source = Max (insert 0 ((\<lambda>n. length (effective_sources sn n)) ` ran source))"

definition all_ids :: "'l snapshot \<Rightarrow> (string \<Rightarrow> memory_node option) \<Rightarrow> string set" where
  "all_ids sn source = dom source \<union> (\<Union>n \<in> ran source. set (effective_sources sn n))"

fun entry_weight :: "nat \<Rightarrow> memory_node \<times> string list option \<times> nat \<Rightarrow> nat" where
  "entry_weight b (n, None, p) = b + 2"
| "entry_weight b (n, Some ss, p) = length ss - p"

definition stack_weight ::
  "'l snapshot \<Rightarrow> (string \<Rightarrow> memory_node option)
   \<Rightarrow> (memory_node \<times> string list option \<times> nat) list \<Rightarrow> nat" where
  "stack_weight sn source stack =
     (card (dom source) - length stack) * (edge_bound sn source + 3)
     + sum_list (map (entry_weight (edge_bound sn source)) stack)"

definition check_weight ::
  "'l snapshot \<Rightarrow> (string \<Rightarrow> memory_node option) \<Rightarrow> 'l check_state \<Rightarrow> nat" where
  "check_weight sn source st =
     card (all_ids sn source - {s. dict_get (chk_verdicts st) s \<noteq> None})
       * (card (dom source) * (edge_bound sn source + 3) + 1)
     + stack_weight sn source (chk_stack st)"

lemma visited_in_stack: "set (visited_ids stk) \<subseteq> entry_id ` set stk"
  by (induction stk rule: visited_ids.induct) auto

lemma chain_visited: "stack_chain (e # stk) \<Longrightarrow> visited_ids stk = map entry_id stk"
  by (induction "e # stk" arbitrary: e stk rule: stack_chain.induct) auto

lemma chain_tl: "stack_chain (e # stk) \<Longrightarrow> stack_chain stk"
  by (cases "e # stk" rule: stack_chain.cases) auto

lemma stack_inv_complete:
  assumes inv: "stack_inv root_id st" and top: "chk_stack st = e # rest" "cid = entry_id e"
  shows "stack_inv root_id (complete_entry cid v st)"
proof -
  have ch: "stack_chain (e # rest)" and d: "distinct (map entry_id (e # rest))"
    and act: "chk_active st = set (visited_ids (e # rest))"
    using inv top by (auto simp: stack_inv_def)
  have vis: "visited_ids rest = map entry_id rest" and tl: "stack_chain rest"
    using chain_visited [OF ch] chain_tl [OF ch] by auto
  have "set (visited_ids (e # rest)) - {entry_id e} = entry_id ` set rest"
    using d vis by (cases e; cases "fst (snd e)") auto
  then show ?thesis
    using inv top tl act vis by (auto simp: stack_inv_def complete_entry_def dict_simps)
qed

lemma finite_all_ids: "finite (dom source) \<Longrightarrow> finite (all_ids sn source)"
  by (auto simp: all_ids_def finite_ran)

lemma sources_le_bound:
  "finite (dom source) \<Longrightarrow> source s = Some n \<Longrightarrow> length (effective_sources sn n) \<le> edge_bound sn source"
  unfolding edge_bound_def by (intro Max_ge) (auto simp: finite_ran intro: ranI)

lemma stack_weight_le:
  assumes fin: "finite (dom source)" and ok: "list_all (entry_ok ev sn source) stack"
    and dist: "distinct (map entry_id stack)"
  shows "length stack \<le> card (dom source)"
    and "stack_weight sn source stack \<le> card (dom source) * (edge_bound sn source + 3)"
proof -
  let ?b = "edge_bound sn source"
  have "set (map entry_id stack) \<subseteq> dom source"
  proof
    fix x assume "x \<in> set (map entry_id stack)"
    then obtain n so p where "(n, so, p) \<in> set stack" "x = node_id n" by auto
    with ok show "x \<in> dom source" by (cases so) (auto simp: list_all_iff)
  qed
  then have "card (set (map entry_id stack)) \<le> card (dom source)" by (rule card_mono [OF fin])
  then show len: "length stack \<le> card (dom source)"
    using dist by (simp add: distinct_card del: set_map)
  have "entry_weight ?b e \<le> ?b + 3" if "e \<in> set stack" for e
  proof -
    obtain n so p where e: "e = (n, so, p)" by (cases e)
    show ?thesis
    proof (cases so)
      case None
      then show ?thesis using e by simp
    next
      case (Some ss)
      then have "ss = effective_sources sn n" "source (node_id n) = Some n"
        using ok that e by (auto simp: list_all_iff)
      then show ?thesis using sources_le_bound [OF fin, of "node_id n" n sn] e Some by simp
    qed
  qed
  then have "sum_list (map (entry_weight ?b) stack) \<le> length stack * (?b + 3)"
    by (induction stack) (auto simp: add_mono)
  then show "stack_weight sn source stack \<le> card (dom source) * (?b + 3)"
    using len by (simp add: stack_weight_def diff_mult_distrib)
qed

lemma verdict_decreases:
  assumes fin: "finite (dom source)" and s: "s \<in> all_ids sn source"
    and new: "dict_get (chk_verdicts st) s = None"
    and st': "chk_verdicts st' = dict_set s v (chk_verdicts st)"
    and ok: "list_all (entry_ok ev sn source) (chk_stack st')"
    and dist: "distinct (map entry_id (chk_stack st'))"
  shows "check_weight sn source st' < check_weight sn source st"
proof -
  let ?D = "\<lambda>st. all_ids sn source - {s. dict_get (chk_verdicts st) s \<noteq> None}"
  have "?D st' \<subset> ?D st" using s new by (auto simp: st' dict_simps)
  then have card: "card (?D st') < card (?D st)"
    by (intro psubset_card_mono) (auto simp: finite_all_ids fin)
  have w: "stack_weight sn source (chk_stack st') \<le> card (dom source) * (edge_bound sn source + 3)"
    using stack_weight_le [OF fin ok dist] by simp
  let ?k = "card (dom source) * (edge_bound sn source + 3) + 1"
  have "card (?D st') * ?k + ?k \<le> card (?D st) * ?k"
    using card mult_le_mono1 [of "Suc (card (?D st'))" "card (?D st)" ?k] by simp
  then show ?thesis using w by (simp add: check_weight_def)
qed

definition strict_inv ::
  "evidence_env \<Rightarrow> 'l snapshot \<Rightarrow> ('l \<Rightarrow> bool) \<Rightarrow> (string \<Rightarrow> memory_node option) \<Rightarrow> string
   \<Rightarrow> 'l check_state \<Rightarrow> bool" where
  "strict_inv ev sn linv source root_id st \<longleftrightarrow>
     finite (dom source) \<and> check_sound ev sn linv source st \<and> stack_inv root_id st"

lemma strict_inv_lookup:
  "strict_inv ev sn linv source root_id st \<Longrightarrow> linv l
   \<Longrightarrow> strict_inv ev sn linv source root_id (st\<lparr>chk_lookup := l\<rparr>)"
  by (simp add: strict_inv_def check_sound_def stack_inv_def)

text \<open>A step that goes on keeps the invariant and makes the measure smaller.\<close>

definition progress ::
  "evidence_env \<Rightarrow> 'l snapshot \<Rightarrow> ('l \<Rightarrow> bool) \<Rightarrow> (string \<Rightarrow> memory_node option) \<Rightarrow> string
   \<Rightarrow> nat \<Rightarrow> 'l check_state \<Rightarrow> bool" where
  "progress ev sn linv source root_id w st \<longleftrightarrow>
     stack_inv root_id st \<and> check_weight sn source st < w"

lemma complete_progress:
  assumes inv: "strict_inv ev sn linv source root_id st" and top: "chk_stack st = e # rest"
    and cid: "cid = entry_id e"
  shows "progress ev sn linv source root_id (check_weight sn source st) (complete_entry cid v st)"
proof -
  obtain n so p where e: "e = (n, so, p)" by (cases e)
  have "source cid = Some n"
    using inv top cid e by (cases so) (auto simp: strict_inv_def check_sound_def)
  then have "cid \<in> all_ids sn source" by (auto simp: all_ids_def)
  moreover have "dict_get (chk_verdicts st) cid = None"
    using inv top cid by (auto simp: strict_inv_def stack_inv_def)
  ultimately have "check_weight sn source (complete_entry cid v st) < check_weight sn source st"
    using inv top
    by (intro verdict_decreases [where ev = ev and v = v and s = cid])
      (auto simp: strict_inv_def check_sound_def stack_inv_def complete_entry_def)
  moreover have "stack_inv root_id (complete_entry cid v st)"
    using inv by (intro stack_inv_complete [OF _ top cid]) (simp add: strict_inv_def)
  ultimately show ?thesis by (simp add: progress_def)
qed

context lookup_object
begin

lemma fetch_progress:
  assumes inv: "strict_inv ev sn linv source root_id st" and get: "snap_lookup sn = get"
    and strict: "snap_legacy_path sn = None"
    and top: "chk_stack st = (n, Some ss, p) # rest" and p: "p < length ss"
    and new: "dict_get (chk_verdicts st) (ss ! p) = None" "ss ! p \<notin> chk_active st"
  shows "next_ok (progress ev sn linv source root_id (check_weight sn source st)) (\<lambda>_. False)
    (fetch_source sn (node_id n) (ss ! p) st)"
proof -
  let ?s = "ss ! p"
  obtain r l where r: "get (chk_lookup st) ?s = (r, l)" by (metis surj_pair)
  have n: "source (node_id n) = Some n" "ss = effective_sources sn n"
    using inv top by (auto simp: strict_inv_def check_sound_def)
  have fin: "finite (dom source)" using inv by (simp add: strict_inv_def)
  have ch: "stack_chain (chk_stack st)" "distinct (map entry_id (chk_stack st))"
    and act: "chk_active st = entry_id ` set (chk_stack st)"
    using inv top chain_visited [of "(n, Some ss, p)" rest]
    by (auto simp: strict_inv_def stack_inv_def)
  have s: "?s \<in> all_ids sn source"
    using n p by (auto simp: all_ids_def intro!: bexI [of _ n] ranI)
  have fresh: "entry_id e \<noteq> ?s" if "e \<in> set (chk_stack st)" for e
    using new(2) act that by (metis imageI)
  show ?thesis
  proof (cases r)
    case (Inl e)
    have "strict_inv ev sn linv source root_id (st\<lparr>chk_lookup := l\<rparr>)"
      using inv r by (auto simp: strict_inv_def check_sound_def stack_inv_def intro: get_inv)
    then have "progress ev sn linv source root_id (check_weight sn source (st\<lparr>chk_lookup := l\<rparr>))
        (complete_entry (node_id n) (False, ''lookup_error'') (st\<lparr>chk_lookup := l\<rparr>))"
      using top by (intro complete_progress) auto
    then show ?thesis
      using r Inl by (simp add: fetch_source_def get check_weight_def)
  next
    case (Inr found)
    show ?thesis
    proof (cases found)
      case None
      let ?v = "(False, if snap_failure sn l = [] then ''missing'' else snap_failure sn l)"
      let ?st = "st\<lparr>chk_lookup := l, chk_verdicts := dict_set ?s ?v (chk_verdicts st)\<rparr>"
      have "check_weight sn source ?st < check_weight sn source st"
        using inv s new fin ch
        by (intro verdict_decreases [where ev = ev and v = ?v and s = ?s])
          (auto simp: strict_inv_def check_sound_def)
      moreover have "stack_inv root_id ?st"
        using inv new fresh top by (auto simp: strict_inv_def stack_inv_def dict_simps)
      ultimately show ?thesis
        using r Inr None by (simp add: fetch_source_def get progress_def)
    next
      case (Some m)
      have src: "source ?s = Some m"
        using inv r Inr Some by (auto simp: strict_inv_def check_sound_def dest: get_sound)
      then have id: "node_id m = ?s" by (rule source_id)
      let ?st = "st\<lparr>chk_lookup := l, chk_stack := (m, None, 0) # chk_stack st\<rparr>"
      have ch': "distinct (map entry_id (chk_stack ?st))"
        using ch new(2) act id by auto
      have "list_all (entry_ok ev sn source) (chk_stack ?st)"
        using inv src id by (auto simp: strict_inv_def check_sound_def)
      from stack_weight_le(1) [OF fin this ch']
      have "length (chk_stack st) < card (dom source)" by simp
      then have "stack_weight sn source (chk_stack ?st) < stack_weight sn source (chk_stack st)"
        by (simp add: stack_weight_def Suc_diff_Suc [symmetric] del: Suc_diff_Suc)
      then have "check_weight sn source ?st < check_weight sn source st"
        by (simp add: check_weight_def)
      moreover have "stack_inv root_id ?st"
        using inv ch' ch new act top id p by (auto simp: strict_inv_def stack_inv_def)
      ultimately show ?thesis
        using r Inr Some strict by (simp add: fetch_source_def get progress_def)
    qed
  qed
qed

lemma visit_progress:
  assumes inv: "strict_inv ev sn linv source root_id st" and get: "snap_lookup sn = get"
    and strict: "snap_legacy_path sn = None"
    and top: "chk_stack st = (n, Some ss, p) # rest"
  shows "next_ok (progress ev sn linv source root_id (check_weight sn source st)) (\<lambda>_. False)
    (visit_edge sn n ss p st)"
proof -
  have fails: "progress ev sn linv source root_id (check_weight sn source st)
      (complete_entry (node_id n) v st)" for v
    using inv top by (intro complete_progress) auto
  show ?thesis
  proof (cases "p < length ss")
    case False
    then show ?thesis using fails by (simp add: visit_edge_def)
  next
    case True
    show ?thesis
    proof (cases "dict_get (chk_verdicts st) (ss ! p)")
      case None
      then show ?thesis
        using True fails strict fetch_progress [OF inv get strict top True None]
        by (auto simp: visit_edge_def)
    next
      case (Some v)
      let ?st = "st\<lparr>chk_stack := (n, Some ss, p + 1) # rest\<rparr>"
      have "check_weight sn source ?st < check_weight sn source st"
        using True by (simp add: check_weight_def stack_weight_def top)
      moreover have "stack_chain ((n, Some ss, p + 1) # rest)"
        if "stack_chain ((n, Some ss, p) # rest)"
        using that by (cases "(n, Some ss, p) # rest" rule: stack_chain.cases) auto
      ultimately have "progress ev sn linv source root_id (check_weight sn source st) ?st"
        using inv top by (auto simp: progress_def strict_inv_def stack_inv_def)
      with True Some fails top show ?thesis by (auto simp: visit_edge_def)
    qed
  qed
qed

lemma first_visit_progress:
  assumes inv: "strict_inv ev sn linv source root_id st" and get: "snap_lookup sn = get"
    and strict: "snap_legacy_path sn = None"
    and top: "chk_stack st = (n, None, p) # rest"
  shows "next_ok (progress ev sn linv source root_id (check_weight sn source st)) (\<lambda>_. False)
    (first_visit ev sn n p st)"
proof -
  obtain b l where fm: "factual_sources_match ev get n (chk_lookup st) = (b, l)"
    by (metis surj_pair)
  have l: "linv l" using factual_inv [OF fm] inv by (simp add: strict_inv_def check_sound_def)
  let ?ss = "effective_sources sn n"
  let ?st = "st\<lparr>chk_lookup := l, chk_active := insert (node_id n) (chk_active st),
      chk_stack := (n, Some ?ss, p) # rest\<rparr>"
  have fails: "progress ev sn linv source root_id (check_weight sn source st)
      (complete_entry (node_id n) v st')" if "st' = st \<or> st' = st\<lparr>chk_lookup := l\<rparr>" for v st'
  proof -
    have "strict_inv ev sn linv source root_id st'"
      using that inv strict_inv_lookup [OF inv l] by auto
    moreover have "chk_stack st' = (n, None, p) # rest" using that top by auto
    ultimately have "progress ev sn linv source root_id (check_weight sn source st')
        (complete_entry (node_id n) v st')"
      by (rule complete_progress) simp
    moreover have "check_weight sn source st' = check_weight sn source st"
      using that by (auto simp: check_weight_def)
    ultimately show ?thesis by simp
  qed
  have n: "source (node_id n) = Some n" and p0: "p = 0" and fin: "finite (dom source)"
    using inv top by (auto simp: strict_inv_def check_sound_def)
  have visit: "next_ok (progress ev sn linv source root_id (check_weight sn source st)) (\<lambda>_. False)
      (visit_edge sn n ?ss p ?st)"
    if scope: "is_node_in_scope n (snap_context sn)" and b
  proof -
    have "evidence_ok ev source n"
      using factual_sound [of ev n] that(2) fm inv by (auto simp: strict_inv_def check_sound_def)
    moreover have "stack_chain ((n, Some ?ss, p) # rest)" if "stack_chain ((n, None, p) # rest)"
      using that by (cases "(n, None :: string list option, p) # rest" rule: stack_chain.cases) auto
    ultimately have inv': "strict_inv ev sn linv source root_id ?st"
      using inv l n p0 scope top by (auto simp: strict_inv_def check_sound_def stack_inv_def)
    have "check_weight sn source ?st < check_weight sn source st"
      using sources_le_bound [OF fin n, of sn]
      by (simp add: check_weight_def stack_weight_def top p0)
    then show ?thesis
      using visit_progress [OF inv' get strict, of n ?ss p rest]
      by (cases "visit_edge sn n ?ss p ?st") (auto simp: progress_def)
  qed
  show ?thesis
    using fails visit top by (simp add: first_visit_def get fm Let_def)
qed

lemma step_progress:
  assumes inv: "strict_inv ev sn linv source root_id st" and get: "snap_lookup sn = get"
    and strict: "snap_legacy_path sn = None"
    and step: "snapshot_step ev sn root_id st = Again st'"
  shows "strict_inv ev sn linv source root_id st' \<and> check_weight sn source st' < check_weight sn source st"
proof -
  have "next_ok (progress ev sn linv source root_id (check_weight sn source st)) (\<lambda>_. False)
      (snapshot_step ev sn root_id st)"
  proof (cases "chk_stack st")
    case Nil
    with step show ?thesis by (simp add: snapshot_step_def)
  next
    case (Cons e rest)
    obtain n so p where e: "e = (n, so, p)" by (cases e)
    show ?thesis
      using visit_progress [OF inv get strict] first_visit_progress [OF inv get strict] Cons e
      by (cases so) (simp_all add: snapshot_step_def)
  qed
  moreover have "check_sound ev sn linv source st'"
    using step_sound [OF _ get, of ev st root_id] inv step by (simp add: strict_inv_def)
  ultimately show ?thesis
    using inv step by (simp add: progress_def strict_inv_def)
qed

lemma start_strict:
  assumes "finite (dom source)" "cache_sound ev sn source cache" "source (node_id n) = Some n"
    "linv l" "snap_legacy_path sn = None" "dict_get cache (node_id n) = None"
  shows "strict_inv ev sn linv source (node_id n) (start_state sn cache n l)"
  using assms by (simp add: strict_inv_def check_sound_def stack_inv_def start_state_def)

end

text \<open>So the loop of \<open>check\<close> always ends, whatever the lookup object.\<close>

sublocale lookup_object \<subseteq> strict: decreasing_loop
    "snapshot_step ev sn root_id"
    "\<lambda>st. snap_lookup sn = get \<and> snap_legacy_path sn = None \<and> strict_inv ev sn linv source root_id st"
    "check_weight sn source"
  for ev sn root_id
  by unfold_locales (auto dest: step_progress)

context lookup_object
begin

lemma check_total:
  assumes fin: "finite (dom source)"
    and get: "snap_lookup sn = get" and strict: "snap_legacy_path sn = None"
    and sound: "cache_sound ev sn source cache" and n: "source (node_id n) = Some n"
    and l: "linv l"
  shows "\<exists>k r. \<forall>j \<ge> k. snapshot_check j ev sn cache n l = Some r"
proof (cases "dict_get cache (node_id n)")
  case (Some v)
  then show ?thesis by (auto simp: snapshot_check_def)
next
  case None
  let ?st = "start_state sn cache n l"
  let ?k = "Suc (check_weight sn source ?st)"
  have inv: "snap_lookup sn = get \<and> snap_legacy_path sn = None
      \<and> strict_inv ev sn linv source (node_id n) ?st"
    using start_strict [OF fin sound n l strict None] get strict by simp
  obtain r where run: "run_loop ?k (snapshot_step ev sn (node_id n)) ?st = Some r"
    using strict.enough_fuel [OF inv, of ?k] by auto
  have "snapshot_check j ev sn cache n l = Some r" if "?k \<le> j" for j
    using run_loop_mono [OF run that] None by (simp add: snapshot_check_def)
  then show ?thesis by blast
qed

end

subsection \<open>Exactness of the strict evaluation\<close>

definition cache_exact ::
  "evidence_env \<Rightarrow> 'l snapshot \<Rightarrow> (string \<Rightarrow> memory_node option) \<Rightarrow> (string, verdict) dict \<Rightarrow> bool" where
  "cache_exact ev sn source cache \<longleftrightarrow>
     (\<forall>s r. dict_get cache s = Some (False, r) \<longrightarrow> \<not> visible_id ev sn source s)"

lemma cache_exact_set:
  "cache_exact ev sn source cache \<Longrightarrow> (\<not> fst v \<Longrightarrow> \<not> visible_id ev sn source s)
   \<Longrightarrow> cache_exact ev sn source (dict_set s v cache)"
  by (auto simp: cache_exact_def dict_simps split: if_splits)

lemma entry_source: "entry_ok ev sn source e \<Longrightarrow> source (entry_id e) = Some (fst e)"
  by (cases e; cases "fst (snd e)") auto

lemma chain_path:
  "stack_chain (e # stk) \<Longrightarrow> list_all (entry_ok ev sn source) (e # stk) \<Longrightarrow> e' \<in> set (e # stk)
   \<Longrightarrow> (fst e', fst e) \<in> (source_edge source (effective_sources sn))\<^sup>*"
proof (induction stk arbitrary: e)
  case Nil
  then show ?case by simp
next
  case (Cons x stk)
  obtain n ss p where x: "x = (n, Some ss, p)" "p < length ss" "ss ! p = entry_id e"
    "stack_chain (x # stk)"
    using Cons.prems(1) by (cases "e # x # stk" rule: stack_chain.cases) auto
  have "ss = effective_sources sn n" using Cons.prems(2) x by simp
  moreover have "source (entry_id e) = Some (fst e)"
    using Cons.prems(2) by (auto intro: entry_source)
  ultimately have "(fst x, fst e) \<in> source_edge source (effective_sources sn)"
    using x nth_mem [OF x(2)] by (auto simp: source_edge_def)
  moreover have "(fst e', fst x) \<in> (source_edge source (effective_sources sn))\<^sup>*"
    if "e' \<in> set (x # stk)"
    using that Cons.IH [OF x(4)] Cons.prems(2) by simp
  ultimately show ?case
    using Cons.prems(3) by (auto intro: rtrancl_into_rtrancl)
qed

lemma invisible_source:
  assumes "source (node_id n) = Some n" "s \<in> set (effective_sources sn n)"
    "\<not> visible_id ev sn source s"
  shows "\<not> visible_id ev sn source (node_id n)"
  using assms by (auto simp: visible_id_def lineage_ok_iff [of ev "snap_context sn" source _ n])

lemma cycle_invisible:
  assumes inv: "strict_inv ev sn linv source root_id st"
    and top: "chk_stack st = (n, so, p) # rest"
    and s: "s \<in> set (effective_sources sn n)" "s \<in> chk_active st"
  shows "\<not> visible_id ev sn source (node_id n)"
proof
  assume vis: "visible_id ev sn source (node_id n)"
  have entries: "list_all (entry_ok ev sn source) ((n, so, p) # rest)"
    and chain: "stack_chain ((n, so, p) # rest)"
    using inv top by (simp_all add: strict_inv_def check_sound_def stack_inv_def)
  have "chk_active st = set (visited_ids (chk_stack st))"
    using inv by (simp add: strict_inv_def stack_inv_def)
  then have "s \<in> entry_id ` set (chk_stack st)"
    using s(2) visited_in_stack [of "chk_stack st"] by blast
  then obtain e' where "e' \<in> set (chk_stack st)" "s = entry_id e'" by (rule imageE)
  then have e': "e' \<in> set ((n, so, p) # rest)" "entry_id e' = s" by (simp_all only: top)
  have all_ok: "entry_ok ev sn source e" if "e \<in> set ((n, so, p) # rest)" for e
    using entries that by (simp only: list_all_iff)
  have n: "source (node_id n) = Some n" and src: "source s = Some (fst e')"
    using entry_source [OF all_ok [of "(n, so, p)"]] entry_source [OF all_ok [OF e'(1)]] e'(2)
    by simp_all
  have "(n, fst e') \<in> source_edge source (effective_sources sn)"
    using s(1) src by (auto simp: source_edge_def)
  then have "(n, n) \<in> (source_edge source (effective_sources sn))\<^sup>+"
    using chain_path [OF chain entries e'(1)] by (simp add: rtrancl_into_trancl2)
  then show False
    using vis n lineage_ok_acyclic by (fastforce simp: visible_id_def)
qed

abbreviation exact_next ::
  "evidence_env \<Rightarrow> 'l snapshot \<Rightarrow> (string \<Rightarrow> memory_node option)
   \<Rightarrow> ('l check_state, 'l check_result) loop_next \<Rightarrow> bool" where
  "exact_next ev sn source \<equiv>
     next_ok (\<lambda>st. cache_exact ev sn source (chk_verdicts st)) (\<lambda>_. False)"

context exact_lookup
begin

lemma visit_exact:
  assumes inv: "strict_inv ev sn linv source root_id st" and get: "snap_lookup sn = get"
    and strict: "snap_legacy_path sn = None"
    and exact: "cache_exact ev sn source (chk_verdicts st)"
    and top: "chk_stack st = (n, Some ss, p) # rest"
  shows "exact_next ev sn source (visit_edge sn n ss p st)"
proof -
  have n: "source (node_id n) = Some n" "ss = effective_sources sn n"
    and l: "linv (chk_lookup st)"
    using inv top by (auto simp: strict_inv_def check_sound_def)
  have fails: "cache_exact ev sn source (chk_verdicts (complete_entry (node_id n) v st'))"
    if "chk_verdicts st' = chk_verdicts st" "\<not> fst v \<Longrightarrow> \<not> visible_id ev sn source (node_id n)"
    for v st'
    using exact that by (auto simp: complete_entry_def intro!: cache_exact_set)
  show ?thesis
  proof (cases "p < length ss")
    case False
    then show ?thesis using fails [of st "(True, [])"] by (simp add: visit_edge_def)
  next
    case True
    then have s: "ss ! p \<in> set (effective_sources sn n)" using n by simp
    show ?thesis
    proof (cases "dict_get (chk_verdicts st) (ss ! p)")
      case None
      obtain r l' where r: "get (chk_lookup st) (ss ! p) = (r, l')" by (metis surj_pair)
      have gone: "\<not> visible_id ev sn source (ss ! p)" if "\<forall>m. r \<noteq> Inr (Some m)"
        using that get_exact [OF l, of "ss ! p"] r by (auto simp: visible_id_def)
      have "exact_next ev sn source (fetch_source sn (node_id n) (ss ! p) st)"
        using exact gone fails [of "st\<lparr>chk_lookup := l'\<rparr>"] invisible_source [where n = n and source = source and s = "ss ! p", OF n(1) s, of ev] strict
        by (cases r rule: sum.exhaust)
          (auto simp: fetch_source_def get r intro!: cache_exact_set split: option.splits)
      then show ?thesis
        using True None fails [of st] cycle_invisible [OF inv top s] by (auto simp: visit_edge_def)
    next
      case (Some v)
      have "\<not> fst v \<Longrightarrow> \<not> visible_id ev sn source (node_id n)"
        using exact Some invisible_source [where n = n and source = source and s = "ss ! p", OF n(1) s, of ev]
        by (cases v) (auto simp: cache_exact_def)
      then show ?thesis using True Some fails [of st v] exact by (auto simp: visit_edge_def)
    qed
  qed
qed

lemma first_visit_exact:
  assumes inv: "strict_inv ev sn linv source root_id st" and get: "snap_lookup sn = get"
    and strict: "snap_legacy_path sn = None"
    and exact: "cache_exact ev sn source (chk_verdicts st)"
    and top: "chk_stack st = (n, None, p) # rest"
  shows "exact_next ev sn source (first_visit ev sn n p st)"
proof -
  obtain b l where fm: "factual_sources_match ev get n (chk_lookup st) = (b, l)"
    by (metis surj_pair)
  have n: "source (node_id n) = Some n" and lk: "linv (chk_lookup st)" and p0: "p = 0"
    using inv top by (auto simp: strict_inv_def check_sound_def)
  have l: "linv l" using factual_inv [OF fm lk] .
  let ?ss = "effective_sources sn n"
  let ?st = "st\<lparr>chk_lookup := l, chk_active := insert (node_id n) (chk_active st),
      chk_stack := (n, Some ?ss, p) # rest\<rparr>"
  have fails: "cache_exact ev sn source (chk_verdicts (complete_entry (node_id n) v st'))"
    if "chk_verdicts st' = chk_verdicts st" "\<not> visible_id ev sn source (node_id n)" for v st'
    using exact that by (auto simp: complete_entry_def intro!: cache_exact_set)
  have inactive: "node_id n \<notin> chk_active st"
    using inv top visited_in_stack [of rest] by (auto simp: strict_inv_def stack_inv_def)
  have scope: "\<not> visible_id ev sn source (node_id n)"
    if "\<not> is_node_in_scope n (snap_context sn) \<or> \<not> b"
    using that n factual_exact [OF lk, of ev n] fm
    by (auto simp: visible_id_def lineage_ok_iff [of ev "snap_context sn" source _ n])
  have visit: "exact_next ev sn source (visit_edge sn n ?ss p ?st)"
    if "is_node_in_scope n (snap_context sn)" b
  proof -
    have "evidence_ok ev source n" using factual_sound [of ev n] that(2) fm lk by auto
    moreover have "stack_chain ((n, Some ?ss, p) # rest)" if "stack_chain ((n, None, p) # rest)"
      using that by (cases "(n, None :: string list option, p) # rest" rule: stack_chain.cases) auto
    ultimately have "strict_inv ev sn linv source root_id ?st"
      using inv l n p0 that top by (auto simp: strict_inv_def check_sound_def stack_inv_def)
    then show ?thesis
      using get strict exact by (intro visit_exact) auto
  qed
  show ?thesis
    using fails [of st] fails [of "st\<lparr>chk_lookup := l\<rparr>"] scope visit inactive top
    by (cases "is_node_in_scope n (snap_context sn)"; cases b)
      (simp_all add: first_visit_def get fm Let_def)
qed

lemma step_exact:
  assumes inv: "strict_inv ev sn linv source root_id st" and get: "snap_lookup sn = get"
    and strict: "snap_legacy_path sn = None"
    and exact: "cache_exact ev sn source (chk_verdicts st)"
  shows "next_ok (\<lambda>st. cache_exact ev sn source (chk_verdicts st))
    (\<lambda>(v, cache, l). (\<exists>b r. v = Inr (b, r) \<and> (\<not> b \<longrightarrow> \<not> visible_id ev sn source root_id))
       \<and> cache_exact ev sn source cache)
    (snapshot_step ev sn root_id st)"
proof (cases "chk_stack st")
  case Nil
  then obtain b r where "dict_get (chk_verdicts st) root_id = Some (b, r)"
    using inv by (auto simp: strict_inv_def stack_inv_def)
  with Nil exact show ?thesis by (auto simp: snapshot_step_def cache_exact_def)
next
  case (Cons e rest)
  obtain n so p where e: "e = (n, so, p)" by (cases e)
  have "exact_next ev sn source (snapshot_step ev sn root_id st)"
    using visit_exact [OF inv get strict exact] first_visit_exact [OF inv get strict exact] Cons e
    by (cases so) (simp_all add: snapshot_step_def)
  then show ?thesis by (rule next_ok_mono) simp
qed

end

lemma check_exact:
  assumes own: "own_ids f" and fin: "finite (dom (known f))"
    and get: "snap_lookup sn = pure_lookup f" and strict: "snap_legacy_path sn = None"
    and sound: "cache_sound ev sn (known f) cache" and exact: "cache_exact ev sn (known f) cache"
    and n: "known f (node_id n) = Some n" and new: "dict_get cache (node_id n) = None"
    and run: "run_loop k (snapshot_step ev sn (node_id n)) (start_state sn cache n ())
      = Some (v, cache', l)"
  shows "(\<exists>b r. v = Inr (b, r) \<and> (\<not> b \<longrightarrow> \<not> visible_id ev sn (known f) (node_id n)))
    \<and> cache_exact ev sn (known f) cache'"
proof -
  let ?I = "\<lambda>st. strict_inv ev sn (\<lambda>_. own_ids f) (known f) (node_id n) st
    \<and> cache_exact ev sn (known f) (chk_verdicts st)"
  let ?Q = "\<lambda>(v, cache', l). (\<exists>b r. v = Inr (b, r)
      \<and> (\<not> b \<longrightarrow> \<not> visible_id ev sn (known f) (node_id n)))
    \<and> cache_exact ev sn (known f) cache'"
  have step: "next_ok ?I ?Q (snapshot_step ev sn (node_id n) st)" if "?I st" for st
    using pure.step_exact [OF _ get strict, of ev "node_id n" st] that
      pure.step_progress [OF _ get strict, of ev "node_id n" st]
    by (cases "snapshot_step ev sn (node_id n) st") auto
  have init: "?I (start_state sn cache n ())"
    using pure.start_strict [OF fin sound n own strict new] exact by (simp add: start_state_def)
  from run_loop_post [where I = ?I and Q = ?Q, OF step init run] show ?thesis by simp
qed

text \<open>A node of tenant t1 that names itself as its source, and one that does not.\<close>

definition looping_node :: memory_node where
  "looping_node = sample_node\<lparr>namespace := [(''memplex_source_refs'', ''f1'')]\<rparr>"

definition t1_context :: auth_context where
  "t1_context =
     \<lparr>ctx_principal = \<lparr>prin_tenant = ''t1'', prin_subject = ''bob'', prin_roles = {},
        prin_authentication = None\<rparr>,
      ctx_workspace = ''w1'', ctx_agent = [], ctx_session = [], ctx_request = [],
      ctx_provenance = []\<rparr>"

definition plain_evidence :: evidence_env where
  "plain_evidence = \<lparr>ev_fromiso = toy_iso, ev_clock = 0, ev_suspected = (\<lambda>_. False),
     ev_fingerprint = (\<lambda>n. Inr (node_name n)), ev_parse = (\<lambda>_. None)\<rparr>"

definition one_node :: "memory_node \<Rightarrow> string \<Rightarrow> memory_node option result" where
  "one_node n s = Inr (if s = node_id n then Some n else None)"

definition strict_snapshot ::
  "auth_context \<Rightarrow> (string \<Rightarrow> memory_node option result) \<Rightarrow> unit snapshot" where
  "strict_snapshot c f = \<lparr>snap_context = c, snap_lookup = pure_lookup f, snap_failure = (\<lambda>_. []),
     snap_legacy_path = None, snap_identityless = False\<rparr>"

lemma one_node_facts:
  "own_ids (one_node n)" "finite (dom (known (one_node n)))"
  "known (one_node n) (node_id n) = Some n"
proof -
  show "own_ids (one_node n)" by (simp add: own_ids_def one_node_def)
  have "dom (known (one_node n)) \<subseteq> {node_id n}"
    by (auto simp: known_def one_node_def split: if_splits)
  then show "finite (dom (known (one_node n)))" by (rule finite_subset) simp
  show "known (one_node n) (node_id n) = Some n" by (simp add: known_def one_node_def)
qed

text \<open>
  C5: the iterative evaluation is a decision procedure.  Over a committed store whose
  lookup answers under the requested ids, the strict check of a node that is not in the
  cache ends (some fuel is enough, and more gives the same), never raises, and answers
  True exactly when the node is visible: in scope, its evidence current, and all its
  sources visible in turn, with no cycle.  The cache it leaves can be used again.
\<close>

theorem snapshot_check_decides:
  assumes own: "own_ids f" and fin: "finite (dom (known f))"
    and get: "snap_lookup sn = pure_lookup f" and strict: "snap_legacy_path sn = None"
    and sound: "cache_sound ev sn (known f) cache" and exact: "cache_exact ev sn (known f) cache"
    and n: "known f (node_id n) = Some n" and new: "dict_get cache (node_id n) = None"
  shows "\<exists>fuel b why cache'. (\<forall>k \<ge> fuel. snapshot_check k ev sn cache n () = Some (Inr (b, why), cache', ()))
    \<and> (b \<longleftrightarrow> lineage_ok ev (snap_context sn) (known f) (effective_sources sn) n)
    \<and> cache_sound ev sn (known f) cache' \<and> cache_exact ev sn (known f) cache'"
proof -
  obtain fuel r where total: "\<forall>k \<ge> fuel. snapshot_check k ev sn cache n () = Some r"
    using pure.check_total [OF fin get strict sound n own] by blast
  obtain v cache' l where r: "r = (v, cache', l)" by (cases r)
  have all: "snapshot_check k ev sn cache n () = Some (v, cache', ())" if "fuel \<le> k" for k
    using total that r by simp
  have run: "run_loop fuel (snapshot_step ev sn (node_id n)) (start_state sn cache n ())
      = Some (v, cache', l)"
    using total r new by (auto simp: snapshot_check_def)
  obtain b why where v: "v = Inr (b, why)"
    and neg: "\<not> b \<longrightarrow> \<not> visible_id ev sn (known f) (node_id n)"
    and ex: "cache_exact ev sn (known f) cache'"
    using check_exact [OF own fin get strict sound exact n new run] by blast
  have pos: "b \<longrightarrow> visible_id ev sn (known f) (node_id n)" and so: "cache_sound ev sn (known f) cache'"
    using pure.check_visible [OF sound get n own all [OF order_refl]] v by auto
  have "b \<longleftrightarrow> lineage_ok ev (snap_context sn) (known f) (effective_sources sn) n"
    using pos neg n by (auto simp: visible_id_def)
  with all v ex so show ?thesis by blast
qed

lemma empty_cache [simp]: "cache_sound ev sn source []" "cache_exact ev sn source []"
  by (simp_all add: cache_sound_def cache_exact_def)

lemma looping_not_visible:
  "\<not> lineage_ok ev c (known (one_node looping_node)) (effective_sources (strict_snapshot c f)) looping_node"
proof
  let ?e = "source_edge (known (one_node looping_node)) (effective_sources (strict_snapshot c f))"
  assume ok: "lineage_ok ev c (known (one_node looping_node))
      (effective_sources (strict_snapshot c f)) looping_node"
  have "''f1'' \<in> set (effective_sources (strict_snapshot c f) looping_node)"
    by (simp add: effective_sources_def strict_snapshot_def source_ids_def looping_node_def)
  moreover have "known (one_node looping_node) ''f1'' = Some looping_node"
    using one_node_facts(3) [of looping_node] by (simp add: looping_node_def sample_node_def)
  ultimately have "(looping_node, looping_node) \<in> ?e" by (auto simp: source_edge_def)
  then have "(looping_node, looping_node) \<in> ?e\<^sup>+" by blast
  with lineage_ok_acyclic [OF ok] show False by blast
qed

theorem snapshot_check_decides_witness:
  "\<exists>fuel why cache'. snapshot_check fuel plain_evidence
     (strict_snapshot t1_context (one_node looping_node)) [] looping_node ()
     = Some (Inr (False, why), cache', ())"
proof -
  let ?f = "one_node looping_node" and ?sn = "strict_snapshot t1_context (one_node looping_node)"
  have sn: "snap_lookup ?sn = pure_lookup ?f" "snap_legacy_path ?sn = None"
    by (simp_all add: strict_snapshot_def)
  have new: "dict_get [] (node_id looping_node) = None" by simp
  obtain fuel b why cache' where
    run: "\<forall>k \<ge> fuel. snapshot_check k plain_evidence ?sn [] looping_node ()
      = Some (Inr (b, why), cache', ())"
    and b: "b \<longleftrightarrow> lineage_ok plain_evidence (snap_context ?sn) (known ?f) (effective_sources ?sn)
      looping_node"
    using snapshot_check_decides [OF one_node_facts(1,2) sn empty_cache one_node_facts(3) new]
    by blast
  have "snap_context ?sn = t1_context" by (simp add: strict_snapshot_def)
  then have "\<not> b" using b looping_not_visible by simp
  with run show ?thesis by (metis order_refl)
qed

subsection \<open>The visibility gate\<close>

text \<open>
  \<open>is_node_visible\<close> and \<open>_sources_still_visible\<close>, with fuel for their mutual recursion
  (which only happens through a lookup that answers under another id).  The inner
  result is the raised exception or the answer.
\<close>

definition gate_snapshot ::
  "auth_context \<Rightarrow> (string \<Rightarrow> memory_node option result) \<Rightarrow> string set \<Rightarrow> bool \<Rightarrow> unit snapshot" where
  "gate_snapshot c lookup path identityless =
     \<lparr>snap_context = c, snap_lookup = pure_lookup lookup, snap_failure = (\<lambda>_. ''lookup_error''),
      snap_legacy_path = Some path, snap_identityless = identityless\<rparr>"

fun sources_loop ::
  "nat \<Rightarrow> evidence_env \<Rightarrow> unit snapshot \<Rightarrow> (string \<Rightarrow> memory_node option result)
   \<Rightarrow> (memory_node \<Rightarrow> bool result option) \<Rightarrow> (string, verdict) dict \<Rightarrow> string list
   \<Rightarrow> bool result option" where
  "sources_loop k ev sn lookup again cache [] = Some (Inr True)"
| "sources_loop k ev sn lookup again cache (s # ss) =
     (case lookup s of
        Inl _ \<Rightarrow> Some (Inr False)
      | Inr None \<Rightarrow> Some (Inr False)
      | Inr (Some src) \<Rightarrow>
          (case (if node_id src = s then snapshot_check k ev sn cache src ()
                 else Some (Inr (False, ''legacy_alias''), cache, ())) of
             None \<Rightarrow> None
           | Some (Inl e, _, _) \<Rightarrow> Some (Inl e)
           | Some (Inr (b, why), cache', _) \<Rightarrow>
               (case (if why = ''legacy_alias'' then again src else Some (Inr b)) of
                  Some (Inr True) \<Rightarrow> sources_loop k ev sn lookup again cache' ss
                | r \<Rightarrow> r)))"

definition sources_still_visible ::
  "nat \<Rightarrow> evidence_env \<Rightarrow> auth_context \<Rightarrow> (string \<Rightarrow> memory_node option result) \<Rightarrow> bool
   \<Rightarrow> string set \<Rightarrow> (string set \<Rightarrow> memory_node \<Rightarrow> bool result option) \<Rightarrow> memory_node
   \<Rightarrow> bool result option" where
  "sources_still_visible k ev c lookup identityless path again n =
     (if \<not> fst (factual_sources_match ev (pure_lookup lookup) n ()) then Some (Inr False)
      else if source_ids n = [] then Some (Inr True)
      else if node_id n \<in> path then Some (Inr False)
      else let path' = insert (node_id n) path in
        sources_loop k ev (gate_snapshot c lookup path' identityless) lookup (again path') []
          (source_ids n))"

fun is_node_visible ::
  "nat \<Rightarrow> evidence_env \<Rightarrow> auth_context \<Rightarrow> (string \<Rightarrow> memory_node option result)
   \<Rightarrow> (string \<Rightarrow> memory_node option result) option \<Rightarrow> string set \<Rightarrow> memory_node
   \<Rightarrow> bool result option" where
  "is_node_visible 0 ev c typed_get source_lookup path n = None"
| "is_node_visible (Suc k) ev c typed_get source_lookup path n =
     (if \<not> is_node_in_scope n c then Some (Inr False)
      else if source_lookup = None \<and> node_tenant n = None then Some (Inr True)
      else sources_still_visible k ev c
        (case source_lookup of None \<Rightarrow> typed_get | Some f \<Rightarrow> f) (source_lookup = None) path
        (is_node_visible k ev c typed_get source_lookup) n)"

definition visible_node ::
  "nat \<Rightarrow> evidence_env \<Rightarrow> auth_context \<Rightarrow> (string \<Rightarrow> memory_node option result) \<Rightarrow> string
   \<Rightarrow> memory_node option result option" where
  "visible_node k ev c typed_get memory_id =
     (case typed_get memory_id of
        Inl _ \<Rightarrow> Some (Inr None)
      | Inr None \<Rightarrow> Some (Inr None)
      | Inr (Some n) \<Rightarrow>
          (case is_node_visible k ev c typed_get None {} n of
             None \<Rightarrow> None
           | Some (Inl e) \<Rightarrow> Some (Inl e)
           | Some (Inr b) \<Rightarrow> Some (Inr (if b then Some n else None))))"

definition require_visible_node ::
  "nat \<Rightarrow> evidence_env \<Rightarrow> auth_context \<Rightarrow> (string \<Rightarrow> memory_node option result) \<Rightarrow> string
   \<Rightarrow> memory_node result option" where
  "require_visible_node k ev c typed_get memory_id =
     (case visible_node k ev c typed_get memory_id of
        None \<Rightarrow> None
      | Some (Inl e) \<Rightarrow> Some (Inl e)
      | Some (Inr None) \<Rightarrow> Some (Inl MemoryNotFoundErr)
      | Some (Inr (Some n)) \<Rightarrow> Some (Inr n))"

fun filter_authorized_results ::
  "nat \<Rightarrow> evidence_env \<Rightarrow> auth_context \<Rightarrow> (string \<Rightarrow> memory_node option result) \<Rightarrow> string list
   \<Rightarrow> string list result option" where
  "filter_authorized_results k ev c typed_get [] = Some (Inr [])"
| "filter_authorized_results k ev c typed_get (r # rs) =
     (case visible_node k ev c typed_get r of
        None \<Rightarrow> None
      | Some (Inl e) \<Rightarrow> Some (Inl e)
      | Some (Inr found) \<Rightarrow>
          (case filter_authorized_results k ev c typed_get rs of
             Some (Inr kept) \<Rightarrow> Some (Inr (if found \<noteq> None then r # kept else kept))
           | other \<Rightarrow> other))"

definition is_production :: "string \<Rightarrow> bool" where
  "is_production profile = (py_lower (py_strip profile) = ''production'')"

definition require_authorization :: "string \<Rightarrow> auth_context option \<Rightarrow> auth_context result" where
  "require_authorization profile context =
     (case context of
        Some c \<Rightarrow> Inr c
      | None \<Rightarrow> if is_production profile
                then Inl (PermissionErr ''authorization context is required in production'')
                else local_development_context)"

text \<open>
  A node whose own scope and whose sources' scopes, all the way down, admit the caller.
\<close>

inductive scope_closed ::
  "auth_context \<Rightarrow> (string \<Rightarrow> memory_node option) \<Rightarrow> (memory_node \<Rightarrow> string list)
   \<Rightarrow> memory_node \<Rightarrow> bool"
  for c source srcs where
  closed: "\<lbrakk>is_node_in_scope n c;
      \<And>s. s \<in> set (srcs n) \<Longrightarrow> \<exists>m. source s = Some m \<and> scope_closed c source srcs m\<rbrakk>
    \<Longrightarrow> scope_closed c source srcs n"

inductive_simps scope_closed_iff: "scope_closed c source srcs n"

lemma lineage_scope_closed: "lineage_ok ev c source srcs n \<Longrightarrow> scope_closed c source srcs n"
  by (induction rule: lineage_ok.induct) (meson scope_closed.closed)

text \<open>Without an explicit lookup a node without a tenant has no declared sources.\<close>

definition gate_sources :: "bool \<Rightarrow> memory_node \<Rightarrow> string list" where
  "gate_sources identityless n =
     (if identityless \<and> node_tenant n = None then [] else source_ids n)"

lemma effective_gate [simp]:
  "effective_sources (gate_snapshot c lookup path i) = gate_sources i"
  by (rule ext) (simp add: effective_sources_def gate_snapshot_def gate_sources_def)

lemma gate_snapshot_context [simp]: "snap_context (gate_snapshot c lookup path i) = c"
  by (simp add: gate_snapshot_def)

lemma sources_loop_closed:
  assumes own: "own_ids lookup"
    and again: "\<And>m. again m = Some (Inr True) \<Longrightarrow> scope_closed c (known lookup) (gate_sources i) m"
  shows "sources_loop k ev (gate_snapshot c lookup path i) lookup again cache ss = Some (Inr True)
    \<Longrightarrow> cache_sound ev (gate_snapshot c lookup path i) (known lookup) cache
    \<Longrightarrow> s \<in> set ss
    \<Longrightarrow> \<exists>m. known lookup s = Some m \<and> scope_closed c (known lookup) (gate_sources i) m"
proof (induction ss arbitrary: cache)
  case Nil
  then show ?case by simp
next
  case (Cons x ss)
  let ?sn = "gate_snapshot c lookup path i"
  obtain src where x: "lookup x = Inr (Some src)"
    using Cons.prems(1) by (auto split: sum.splits option.splits)
  have id: "node_id src = x" using own x by (auto simp: own_ids_def)
  have kn: "known lookup x = Some src" using x id by (simp add: known_def)
  obtain b why cache' l where run: "snapshot_check k ev ?sn cache src () = Some (Inr (b, why), cache', l)"
    and ok: "(if why = ''legacy_alias'' then again src else Some (Inr b)) = Some (Inr True)"
    and rest: "sources_loop k ev ?sn lookup again cache' ss = Some (Inr True)"
    using Cons.prems(1) x id
    by (auto split: sum.splits option.splits prod.splits bool.splits if_splits)
  have get: "snap_lookup ?sn = pure_lookup lookup" by (simp add: gate_snapshot_def)
  have res: "(\<forall>r. Inr (b, why) = Inr (True, r) \<longrightarrow> visible_id ev ?sn (known lookup) (node_id src))
      \<and> cache_sound ev ?sn (known lookup) cache' \<and> own_ids lookup"
    using pure.check_visible [OF Cons.prems(2) get _ own run] kn id by simp
  have "scope_closed c (known lookup) (gate_sources i) src"
  proof (cases "why = ''legacy_alias''")
    case True
    then show ?thesis using ok again by simp
  next
    case False
    then show ?thesis
      using ok res kn id lineage_scope_closed
      by (auto simp: visible_id_def)
  qed
  with Cons.IH [OF rest] res kn Cons.prems(3) show ?case by auto
qed

lemma is_node_visible_closed:
  assumes own: "own_ids (case source_lookup of None \<Rightarrow> typed_get | Some f \<Rightarrow> f)"
  shows "is_node_visible k ev c typed_get source_lookup path n = Some (Inr True)
    \<Longrightarrow> scope_closed c (known (case source_lookup of None \<Rightarrow> typed_get | Some f \<Rightarrow> f))
          (gate_sources (source_lookup = None)) n"
proof (induction k arbitrary: path n)
  case 0
  then show ?case by simp
next
  case (Suc k)
  let ?lookup = "case source_lookup of None \<Rightarrow> typed_get | Some f \<Rightarrow> f"
  let ?i = "source_lookup = None"
  have scope: "is_node_in_scope n c" using Suc.prems by (auto split: if_splits)
  have "\<exists>m. known ?lookup s = Some m \<and> scope_closed c (known ?lookup) (gate_sources ?i) m"
    if s: "s \<in> set (gate_sources ?i n)" for s
  proof -
    have ids: "s \<in> set (source_ids n)" "\<not> (?i \<and> node_tenant n = None)"
      using s by (auto simp: gate_sources_def split: if_splits)
    let ?path = "insert (node_id n) path"
    have "sources_loop k ev (gate_snapshot c ?lookup ?path ?i) ?lookup
        (is_node_visible k ev c typed_get source_lookup ?path) [] (source_ids n) = Some (Inr True)"
      using Suc.prems scope ids
      by (auto simp: sources_still_visible_def Let_def split: if_splits)
    from sources_loop_closed [OF own Suc.IH this _ ids(1)] show ?thesis by simp
  qed
  with scope show ?case by (intro scope_closed.closed)
qed

subsection \<open>Derived nodes\<close>

lemma set_first_occurrences [simp]: "set (first_occurrences xs) = set xs"
  by (induction xs) auto

lemma distinct_first_occurrences [simp]: "distinct (first_occurrences xs)"
  by (induction xs) auto

lemma join_eq_Nil: "py_join [c] ws = [] \<longleftrightarrow> ws = [] \<or> ws = [[]]"
  by (induction "[c]" ws rule: py_join.induct) auto

lemma source_ids_join:
  assumes refs: "dict_get (namespace n) ''memplex_source_refs'' = Some (py_join '','' ids)"
    and ids: "ids \<noteq> []" "\<And>i. i \<in> set ids \<Longrightarrow> i \<noteq> [] \<and> CHR '','' \<notin> set i"
  shows "set (source_ids n) = set ids"
proof -
  have "split_on CHR '','' (py_join '','' ids) = ids"
    using ids by (intro split_on_join) auto
  moreover have "py_join '','' ids \<noteq> []"
    using ids by (auto simp: join_eq_Nil)
  moreover have "filter (\<lambda>p. p \<noteq> []) ids = ids"
    using ids(2) by (auto simp: filter_id_conv)
  ultimately show ?thesis by (simp add: source_ids_def refs)
qed

lemma bind_derivation_Inr:
  assumes "bind_derivation_lineage n srcs ver = Inr d"
  shows "srcs \<noteq> []" "\<forall>s \<in> set srcs. node_id s \<noteq> []"
    "dict_get (namespace d) ''memplex_source_refs'' = Some (py_join '','' (map node_id srcs))"
    "node_id d = node_id n" "tenant_id d = tenant_id n"
  using assms
  by (auto simp: bind_derivation_lineage_def Let_def dict_simps list_ex_iff split: if_splits)

lemma visibility_rank_cases:
  "visibility_rank v = (if v = ''user'' then 0 else if v = ''session'' then 1
     else if v = ''workspace'' then 2 else -1)"
  by (simp add: visibility_rank_def VISIBILITY_RESTRICTIVENESS_def dict_default_def)

lemma stamped_visibility:
  assumes bind: "bind_derivation_lineage n srcs ver = Inr d"
  shows "visibility d = Some (
        if \<exists>s \<in> set srcs. declared_visibility s \<notin> {''session'', ''workspace''} then ''user''
        else if \<exists>s \<in> set srcs. declared_visibility s = ''session'' then ''session'' else ''workspace'')"
proof -
  let ?ranks = "map (\<lambda>s. visibility_rank (declared_visibility s)) srcs"
  let ?low = "Min (set ?ranks)"
  have vis: "visibility d = (if ?low < 0 then Some ''user''
      else case find (\<lambda>(name, rank). rank = ?low) VISIBILITY_RESTRICTIVENESS of
        Some (name, _) \<Rightarrow> Some name | None \<Rightarrow> visibility n)"
    using bind by (auto simp: bind_derivation_lineage_def Let_def split: if_splits)
  have le: "?low \<le> visibility_rank (declared_visibility s)" if "s \<in> set srcs" for s
    using that by (intro Min_le) auto
  have "?low \<in> set ?ranks" using bind_derivation_Inr(1) [OF bind] by (intro Min_in) auto
  then obtain s where s: "s \<in> set srcs" "?low = visibility_rank (declared_visibility s)" by auto
  have named: "visibility d = Some (if ?low < 1 then ''user'' else if ?low = 1 then ''session'' else ''workspace'')"
    using vis s(2) by (auto simp: visibility_rank_cases VISIBILITY_RESTRICTIVENESS_def split: if_splits)
  have "finite (set ?ranks)" "set ?ranks \<noteq> {}" using s(1) by auto
  note low = Min_less_iff [OF this, of 1] Min_less_iff [OF this, of 2]
  have rank: "(visibility_rank v < 1) = (v \<notin> {''session'', ''workspace''})" "(visibility_rank v < 2) = (v \<noteq> ''workspace'')"
    for v by (simp_all add: visibility_rank_cases)
  have user: "(?low < 1) = (\<exists>s \<in> set srcs. declared_visibility s \<notin> {''session'', ''workspace''})"
    unfolding low using rank(1) by auto
  have below: "(?low < 2) = (\<exists>s \<in> set srcs. declared_visibility s \<noteq> ''workspace'')"
    unfolding low using rank(2) by auto
  show ?thesis
  proof (cases "?low < 1")
    case True
    then show ?thesis using named user by simp
  next
    case False
    then have "(?low = 1) = (\<exists>s \<in> set srcs. declared_visibility s = ''session'')"
      using user below by auto
    then show ?thesis using named False user by simp
  qed
qed

definition derived_node :: memory_node where
  "derived_node = sample_node\<lparr>node_id := ''d1'', namespace := [(''memplex_source_refs'', ''f1'')]\<rparr>"

definition two_nodes :: "string \<Rightarrow> memory_node option result" where
  "two_nodes s = Inr (if s = ''d1'' then Some derived_node
     else if s = ''f1'' then Some sample_node else None)"

lemma workspace_scope:
  "node_tenant n = Some ''t1'' \<Longrightarrow> node_visibility n = ''workspace'' \<Longrightarrow> node_workspace n = Some ''w1''
   \<Longrightarrow> is_node_in_scope n t1_context"
  by (simp add: is_node_in_scope_def t1_context_def)

lemma sample_identities:
  "node_tenant sample_node = Some ''t1''" "node_visibility sample_node = ''workspace''"
  "node_workspace sample_node = Some ''w1''" "node_tenant derived_node = Some ''t1''"
  "node_visibility derived_node = ''workspace''" "node_workspace derived_node = Some ''w1''"
  "source_ids derived_node = [''f1'']" "source_ids sample_node = []"
  by (simp_all add: node_tenant_def node_visibility_def node_workspace_def identity_value_def
      derived_node_def sample_node_def or_else_def strip_eval py_lower_def py_lower_char_def
      source_ids_def)

lemma no_evidence_needed:
  "factual_sources_match ev get sample_node l = (True, l)"
  "factual_sources_match ev get derived_node l = (True, l)"
  by (simp_all add: factual_sources_match_def derived_node_def sample_node_def)

lemma derived_visible:
  "is_node_visible 5 plain_evidence t1_context two_nodes None {} derived_node = Some (Inr True)"
proof -
  have ids: "node_id derived_node = ''d1''" "node_id sample_node = ''f1''"
    by (simp_all add: derived_node_def sample_node_def)
  have "snapshot_check 4 plain_evidence (gate_snapshot t1_context two_nodes {''d1''} True) []
      sample_node () = Some (Inr (True, []), [(''f1'', (True, []))], ())"
    by (simp add: snapshot_check_def eval_nat_numeral snapshot_step_def start_state_def
        first_visit_def visit_edge_def complete_entry_def workspace_scope sample_identities
        no_evidence_needed gate_snapshot_def effective_sources_def ids)
  then show ?thesis
    by (simp add: eval_nat_numeral sources_still_visible_def workspace_scope sample_identities
        no_evidence_needed two_nodes_def ids Let_def)
qed

text \<open>
  The gate over either lookup: a node it shows that has a tenant has its declared sources in
  the lookup, in the caller's scope, all the way down.
\<close>

lemma gate_shows_sources:
  assumes own: "own_ids (case source_lookup of None \<Rightarrow> typed_get | Some f \<Rightarrow> f)"
    and vis: "is_node_visible k ev c typed_get source_lookup path n = Some (Inr True)"
    and tenant: "node_tenant n \<noteq> None" and s: "s \<in> set (source_ids n)"
  obtains m where "(case source_lookup of None \<Rightarrow> typed_get | Some f \<Rightarrow> f) s = Inr (Some m)" "is_node_in_scope m c"
    "scope_closed c (known (case source_lookup of None \<Rightarrow> typed_get | Some f \<Rightarrow> f)) (gate_sources (source_lookup = None)) m"
proof -
  let ?lookup = "case source_lookup of None \<Rightarrow> typed_get | Some f \<Rightarrow> f"
  have cl: "scope_closed c (known ?lookup) (gate_sources (source_lookup = None)) n"
    by (rule is_node_visible_closed [OF own vis])
  have "s \<in> set (gate_sources (source_lookup = None) n)"
    using tenant s by (auto simp: gate_sources_def)
  then obtain m where m: "known ?lookup s = Some m"
    "scope_closed c (known ?lookup) (gate_sources (source_lookup = None)) m"
    using cl unfolding scope_closed_iff [of c _ _ n] by blast
  have "?lookup s = Inr (Some m)"
    using m(1) by (auto simp: known_def split: sum.splits option.splits if_splits)
  moreover have "is_node_in_scope m c" using m(2) unfolding scope_closed_iff [of c _ _ m] by blast
  ultimately show thesis using m(2) that by blast
qed

lemma visible_node_gate:
  assumes "visible_node k ev c typed_get i = Some (Inr (Some n))"
  shows "typed_get i = Inr (Some n)" "is_node_visible k ev c typed_get None {} n = Some (Inr True)"
  using assms by (auto simp: visible_node_def split: sum.splits option.splits if_splits)

lemma visible_in_scope: "is_node_visible k ev c typed_get source_lookup path n = Some (Inr True) \<Longrightarrow> is_node_in_scope n c"
  by (cases k) (auto split: if_splits)

text \<open>
  C10: a derived record is never wider than its sources.  Binding stamps the record
  \<open>workspace\<close> only when every source is, \<open>session\<close> only when every source is \<open>session\<close> or
  \<open>workspace\<close>, and \<open>user\<close> otherwise, and names the sources given.  That stamp alone can be
  wider than a source (see \<open>stamp_alone_can_widen\<close>), so the promise is kept at read time:
  whoever \<open>visible_node\<close> lets see the record, under whatever id and whatever was stamped, has
  every one of the sources in scope.  Two conditions, which the code states or relies on: the
  ids of the sources have no comma, and the store answers a lookup with the node of that id.
  The record has a tenant; the gate does not look at the sources of one that has none.
\<close>

theorem derivation_not_wider:
  assumes bind: "bind_derivation_lineage n srcs ver = Inr d"
    and ids: "\<forall>s \<in> set srcs. CHR '','' \<notin> set (node_id s)"
    and own: "own_ids typed_get" and tenant: "node_tenant d \<noteq> None"
  shows "set (source_ids d) = node_id ` set srcs
    \<and> visibility d = Some (
        if \<exists>s \<in> set srcs. declared_visibility s \<notin> {''session'', ''workspace''} then ''user''
        else if \<exists>s \<in> set srcs. declared_visibility s = ''session'' then ''session'' else ''workspace'')
    \<and> (visible_node k ev c typed_get i = Some (Inr (Some d)) \<longrightarrow>
        (\<forall>s \<in> set srcs. \<exists>m. typed_get (node_id s) = Inr (Some m) \<and> is_node_in_scope m c))"
proof -
  note b = bind_derivation_Inr [OF bind]
  have "set (source_ids d) = set (map node_id srcs)"
    using b ids by (intro source_ids_join) auto
  then have sids: "set (source_ids d) = node_id ` set srcs" by simp
  moreover have "\<exists>m. typed_get (node_id s) = Inr (Some m) \<and> is_node_in_scope m c"
    if vis: "visible_node k ev c typed_get i = Some (Inr (Some d))" and s: "s \<in> set srcs" for s
  proof (rule gate_shows_sources [OF _ visible_node_gate(2) [OF vis] tenant])
    show "own_ids (case None of None \<Rightarrow> typed_get | Some f \<Rightarrow> f)" using own by simp
    show "node_id s \<in> set (source_ids d)" using s sids by simp
  qed auto
  ultimately show ?thesis using stamped_visibility [OF bind] by blast
qed

lemma derived_shown: "visible_node 5 plain_evidence t1_context two_nodes ''d1'' = Some (Inr (Some derived_node))"
proof -
  have "two_nodes ''d1'' = Inr (Some derived_node)" by (simp add: two_nodes_def)
  then show ?thesis using derived_visible by (simp add: visible_node_def)
qed

lemma two_nodes_own: "own_ids two_nodes"
  by (simp add: own_ids_def two_nodes_def derived_node_def sample_node_def)

theorem derivation_not_wider_witness:
  "\<exists>d. bind_derivation_lineage (sample_node\<lparr>node_id := ''d1''\<rparr>) [sample_node] ''v1'' = Inr d
    \<and> set (source_ids d) = {''f1''} \<and> visibility d = Some ''workspace''"
proof -
  obtain d where d: "bind_derivation_lineage (sample_node\<lparr>node_id := ''d1''\<rparr>) [sample_node] ''v1'' = Inr d"
    by (simp add: bind_derivation_lineage_def Let_def sample_node_def)
  have ids: "\<forall>s \<in> set [sample_node]. CHR '','' \<notin> set (node_id s)" by (simp add: sample_node_def)
  have "tenant_id d = Some ''t1''" using bind_derivation_Inr(5) [OF d] by (simp add: sample_node_def)
  then have tenant: "node_tenant d \<noteq> None" by (simp add: node_tenant_def identity_value_def strip_eval)
  have "declared_visibility sample_node = ''workspace''"
    by (simp add: declared_visibility_def sample_node_def or_else_def strip_eval py_lower_def py_lower_char_def)
  then have "set (source_ids d) = {''f1''} \<and> visibility d = Some ''workspace''"
    using derivation_not_wider [OF d ids two_nodes_own tenant, of 5 plain_evidence t1_context "''d1''"]
    by (simp add: sample_node_def)
  with d show ?thesis by blast
qed

text \<open>
  The stamp alone can widen: a session source and a user source give a \<open>user\<close> record, which
  its owner has in scope in every session, while the session source is in scope in its own
  session only.
\<close>

theorem stamp_alone_can_widen:
  assumes sess: "declared_visibility a = ''session''" and user: "declared_visibility b = ''user''"
    and bind: "bind_derivation_lineage n [a, b] ver = Inr d"
    and owner: "node_tenant d = Some (prin_tenant (ctx_principal c))" "node_subject d = Some (prin_subject (ctx_principal c))"
    and other: "node_visibility a = ''session''" "node_tenant a \<noteq> None" "origin_session a \<noteq> Some (ctx_session c)"
  shows "is_node_in_scope d c \<and> \<not> is_node_in_scope a c"
proof -
  have "visibility d = Some ''user''" using stamped_visibility [OF bind] user by simp
  then have "node_visibility d = ''user''"
    by (simp add: node_visibility_def or_else_def strip_eval py_lower_def py_lower_char_def)
  then show ?thesis using owner other by (auto simp: is_node_in_scope_def)
qed

lemma stamped_scope: "bind_derivation_lineage n srcs ver = Inr d \<Longrightarrow> owner_subject_id d = owner_subject_id n \<and> owner d = owner n"
  by (auto simp: bind_derivation_lineage_def Let_def split: if_splits)

definition alice_context :: auth_context where
  "alice_context = t1_context\<lparr>ctx_principal := (ctx_principal t1_context)\<lparr>prin_subject := ''alice''\<rparr>, ctx_session := ''s2''\<rparr>"

definition session_source :: memory_node where
  "session_source = sample_node\<lparr>visibility := Some ''session'', origin_session := Some ''s1''\<rparr>"

lemma stamp_widens_once:
  "\<exists>d. bind_derivation_lineage (sample_node\<lparr>node_id := ''d1''\<rparr>)
      [session_source, sample_node\<lparr>node_id := ''f2'', visibility := Some ''user''\<rparr>] ''v1'' = Inr d
    \<and> is_node_in_scope d alice_context \<and> \<not> is_node_in_scope session_source alice_context"
proof -
  let ?b = "sample_node\<lparr>node_id := ''f2'', visibility := Some ''user''\<rparr>"
  obtain d where d: "bind_derivation_lineage (sample_node\<lparr>node_id := ''d1''\<rparr>) [session_source, ?b] ''v1'' = Inr d"
    by (simp add: bind_derivation_lineage_def Let_def sample_node_def session_source_def)
  have "declared_visibility session_source = ''session''" "declared_visibility ?b = ''user''"
    "node_visibility session_source = ''session''" "node_tenant session_source \<noteq> None"
    "origin_session session_source \<noteq> Some (ctx_session alice_context)"
    by (simp_all add: declared_visibility_def node_visibility_def node_tenant_def identity_value_def session_source_def
        sample_node_def or_else_def strip_eval py_lower_def py_lower_char_def alice_context_def)
  moreover have "node_tenant d = Some (prin_tenant (ctx_principal alice_context))"
    "node_subject d = Some (prin_subject (ctx_principal alice_context))"
    using bind_derivation_Inr(5) [OF d] stamped_scope [OF d]
    by (simp_all add: node_tenant_def node_subject_def identity_value_def sample_node_def strip_eval
        alice_context_def t1_context_def)
  ultimately show ?thesis using stamp_alone_can_widen [OF _ _ d] d by blast
qed

text \<open>
  C4: revoking a source hides the derivation.  What \<open>visible_node\<close> returns is the node stored
  under that id and is in the caller's scope; and if it has a tenant, every source it declares
  is in the store, in the caller's scope itself, and so are the sources' sources all the way
  down.  The store answers a lookup with the node of that id; a node without a tenant (of the
  local development mode) has no sources for this gate.
\<close>

theorem visible_node_has_visible_sources:
  assumes own: "own_ids typed_get" and vis: "visible_node k ev c typed_get i = Some (Inr (Some n))"
  shows "typed_get i = Inr (Some n) \<and> is_node_in_scope n c
    \<and> (node_tenant n \<noteq> None \<longrightarrow> (\<forall>s \<in> set (source_ids n). \<exists>m. typed_get s = Inr (Some m)
        \<and> is_node_in_scope m c \<and> scope_closed c (known typed_get) (gate_sources True) m))"
proof -
  note gate = visible_node_gate [OF vis]
  have own': "own_ids (case None of None \<Rightarrow> typed_get | Some f \<Rightarrow> f)" using own by simp
  have "\<exists>m. typed_get s = Inr (Some m) \<and> is_node_in_scope m c
      \<and> scope_closed c (known typed_get) (gate_sources True) m"
    if tenant: "node_tenant n \<noteq> None" and s: "s \<in> set (source_ids n)" for s
    by (rule gate_shows_sources [OF own' gate(2) tenant s]) auto
  then show ?thesis using gate(1) visible_in_scope [OF gate(2)] by blast
qed

theorem visible_node_has_visible_sources_witness:
  "is_node_in_scope derived_node t1_context \<and> is_node_in_scope sample_node t1_context"
proof -
  have "node_tenant derived_node \<noteq> None" by (simp add: sample_identities)
  with visible_node_has_visible_sources [OF two_nodes_own derived_shown]
  show ?thesis by (simp add: sample_identities two_nodes_def)
qed

subsection \<open>Typed lookup over a store\<close>

text \<open>
  A raw paragraph row is a dictionary; a missing or false value is \<open>None\<close>, and
  \<open>rr_trust\<close> is what \<open>int(...)\<close> makes of the tier.
\<close>

record raw_row =
  rr_id :: "string option"
  rr_name :: string
  rr_source :: "source_kind option"
  rr_tenant :: "string option"
  rr_workspace :: "string option"
  rr_owner_subject :: "string option"
  rr_owner_subject_id :: "string option"
  rr_session :: "string option"
  rr_provenance :: "(string, string) dict"
  rr_visibility :: "string option"
  rr_namespace :: "(string, string) dict"
  rr_trust :: "int result"
  rr_text :: string
  rr_historical :: bool

definition raw_paragraph_view :: "raw_row \<Rightarrow> memory_node result" where
  "raw_paragraph_view row =
     bindR (rr_trust row) (\<lambda>tier.
     Inr \<lparr>node_id = (case rr_id row of None \<Rightarrow> [] | Some i \<Rightarrow> i), memory_type = ''paragraph'',
       node_name = rr_name row, node_domain = None, confidence = 1,
       source_type = (case rr_source row of None \<Rightarrow> WIKI | Some k \<Rightarrow> k), owner = None,
       tenant_id = rr_tenant row,
       owner_subject_id = or_else (rr_owner_subject_id row) (rr_owner_subject row),
       workspace_id = rr_workspace row,
       visibility = Some (if truthy (rr_visibility row) then the (rr_visibility row) else ''workspace''),
       provenance = rr_provenance row, version = 1, created_at = None, updated_at = None,
       origin_session = rr_session row, access_count = 0, last_accessed_at = None,
       source_paragraphs = [], needs_review = False, needs_review_until = None,
       content_hash = None, namespace = rr_namespace row, knowledge_tier = None,
       trust_tier = tier,
       body = ParagraphB \<lparr>raw_text = rr_text row, context_historical = rr_historical row\<rparr>\<rparr>)"

text \<open>What a committed read returns for an id: a node, a raw row, or something else.\<close>

datatype read_value = NodeRow memory_node | RawRow raw_row | OtherRow

type_synonym context_reader = "string list \<Rightarrow> (string, read_value) dict result"

record typed_store =
  ts_get :: "string \<Rightarrow> memory_node option result"
  ts_getters :: "(string \<Rightarrow> memory_node option result) list"
  ts_reader :: "context_reader option"
  ts_paragraphs :: "(string, raw_row) dict option"

fun first_getter ::
  "(string \<Rightarrow> memory_node option result) list \<Rightarrow> string \<Rightarrow> memory_node option" where
  "first_getter [] i = None"
| "first_getter (g # gs) i =
     (case g i of Inr (Some n) \<Rightarrow> Some n | _ \<Rightarrow> first_getter gs i)"

definition typed_get :: "typed_store \<Rightarrow> string \<Rightarrow> memory_node option result" where
  "typed_get st i =
     bindR (ts_get st i) (\<lambda>found.
       case found of Some n \<Rightarrow> Inr (Some n)
       | None \<Rightarrow>
           (case first_getter (ts_getters st) i of Some n \<Rightarrow> Inr (Some n)
            | None \<Rightarrow>
                (case ts_reader st of
                   Some read \<Rightarrow>
                     (case read [i] of
                        Inl _ \<Rightarrow> Inr None
                      | Inr d \<Rightarrow>
                          (case dict_get d i of
                             Some (RawRow row) \<Rightarrow>
                               if rr_id row = Some i
                               then (case raw_paragraph_view row of Inl _ \<Rightarrow> Inr None
                                     | Inr n \<Rightarrow> Inr (Some n))
                               else Inr None
                           | _ \<Rightarrow> Inr None))
                 | None \<Rightarrow>
                     (case ts_paragraphs st of
                        None \<Rightarrow> Inr None
                      | Some rows \<Rightarrow>
                          (case dict_get rows i of None \<Rightarrow> Inr None
                           | Some row \<Rightarrow> bindR (raw_paragraph_view row) (\<lambda>n. Inr (Some n)))))))"

lemma raw_view_id: "raw_paragraph_view row = Inr n \<Longrightarrow> node_id n = (case rr_id row of None \<Rightarrow> [] | Some i \<Rightarrow> i)"
  by (auto simp: raw_paragraph_view_def)

text \<open>
  The typed lookup answers under the requested ids when the store's own getters and its
  in-memory paragraph table do; a row read through the committed reader is checked.
\<close>

lemma typed_get_own_ids:
  assumes "own_ids (ts_get st)" and "\<forall>g \<in> set (ts_getters st). own_ids g"
    and "\<And>rows i row. ts_paragraphs st = Some rows \<Longrightarrow> dict_get rows i = Some row \<Longrightarrow> rr_id row = Some i"
  shows "own_ids (typed_get st)"
proof -
  have getters: "node_id n = i" if "first_getter gs i = Some n" "\<forall>g \<in> set gs. own_ids g" for gs i n
    using that by (induction gs) (auto simp: own_ids_def split: sum.splits option.splits)
  show ?thesis
    unfolding own_ids_def
  proof (intro allI impI)
    fix i n assume "typed_get st i = Inr (Some n)"
    then show "node_id n = i"
      using assms(1) getters [OF _ assms(2)] assms(3) raw_view_id
      by (auto simp: typed_get_def own_ids_def
          split: option.splits sum.splits read_value.splits if_splits)
  qed
qed

end
