(* ===== verification/Injection_Guard.thy ===== *)
theory Injection_Guard
  imports Authorization
begin

section \<open>The injection guard\<close>

text \<open>
  \<^verbatim>\<open>memplex/llm/injection_guard.py\<close>: the decision to withhold a result from a model,
  the protective wrapping, the bounded registry of ids judged unsafe and the counter of
  detections.  Two arguments stand for the regular expressions: \<open>scan\<close> is the search of
  the injection patterns in a text, and \<open>node_text\<close> is the text
  \<open>_extract_model_visible_text\<close> collects from a node (or the error it raises).
\<close>

record search_result =
  func_id :: string
  res_name :: string
  res_domain :: string
  relevance_score :: rat
  summary :: string

record guard_env =
  scan_text :: "string \<Rightarrow> bool"
  node_text :: "memory_node \<Rightarrow> string result"

subsection \<open>The risk registry\<close>

record 'c risk_registry =
  risk_ids :: "'c list set"
  risk_order :: "'c list list"

definition RISK_MAX_ENTRIES :: nat where
  "RISK_MAX_ENTRIES = 4096"

definition empty_registry :: "'c risk_registry" where
  "empty_registry = \<lparr>risk_ids = {}, risk_order = []\<rparr>"

definition risk_contains :: "'c risk_registry \<Rightarrow> 'c list \<Rightarrow> bool" where
  "risk_contains reg i = (i \<noteq> [] \<and> i \<in> risk_ids reg)"

definition risk_mark :: "'c risk_registry \<Rightarrow> 'c list \<Rightarrow> bool \<times> 'c risk_registry" where
  "risk_mark reg i =
     (if i = [] \<or> i \<in> risk_ids reg then (False, reg)
      else let reg1 = (if RISK_MAX_ENTRIES \<le> length (risk_order reg)
               then \<lparr>risk_ids = risk_ids reg - {hd (risk_order reg)}, risk_order = tl (risk_order reg)\<rparr>
               else reg)
           in (True, \<lparr>risk_ids = insert i (risk_ids reg1), risk_order = risk_order reg1 @ [i]\<rparr>))"

definition risk_ok :: "'c risk_registry \<Rightarrow> bool" where
  "risk_ok reg \<longleftrightarrow> risk_ids reg = set (risk_order reg) \<and> distinct (risk_order reg)
     \<and> length (risk_order reg) \<le> RISK_MAX_ENTRIES \<and> [] \<notin> risk_ids reg"

lemma risk_ok_empty [simp]: "risk_ok empty_registry"
  by (simp add: risk_ok_def empty_registry_def)

lemma risk_ok_mark [keeps]: "risk_ok reg \<Longrightarrow> risk_ok (snd (risk_mark reg i))"
  by (cases "risk_order reg")
    (auto simp: risk_ok_def risk_mark_def Let_def RISK_MAX_ENTRIES_def)

lemma risk_mark_contains: "i \<noteq> [] \<Longrightarrow> risk_contains (snd (risk_mark reg i)) i"
  by (auto simp: risk_mark_def risk_contains_def Let_def)

subsection \<open>Withholding and wrapping\<close>

definition marker_attribute :: "memory_node \<Rightarrow> bool" where
  "marker_attribute n = (case body n of
       FunctionB f \<Rightarrow> dict_get (attributes f) ''memplex_injection_suspected'' = Some (AStr ''true'')
     | _ \<Rightarrow> False)"

definition is_suspected :: "guard_env \<Rightarrow> memory_node \<Rightarrow> string \<Rightarrow> bool" where
  "is_suspected g n fallback_text =
     (if marker_attribute n then True
      else case node_text g n of
        Inr t \<Rightarrow> scan_text g t
      | Inl _ \<Rightarrow> (if fallback_text \<noteq> [] then scan_text g fallback_text else True))"

type_synonym result_lookup = "string \<Rightarrow> memory_node option result"

text \<open>What the scan alone says of a result, whatever the registry holds.\<close>

definition content_suspected :: "guard_env \<Rightarrow> result_lookup \<Rightarrow> search_result \<Rightarrow> bool" where
  "content_suspected g lookup r =
     (case lookup (func_id r) of
        Inr (Some n) \<Rightarrow> is_suspected g n (summary r)
      | _ \<Rightarrow> scan_text g (summary r))"

definition result_is_injection_suspected ::
  "guard_env \<Rightarrow> result_lookup \<Rightarrow> char risk_registry option \<Rightarrow> search_result
   \<Rightarrow> bool \<times> char risk_registry option" where
  "result_is_injection_suspected g lookup registry r =
     (case registry of
        None \<Rightarrow> (content_suspected g lookup r, None)
      | Some reg \<Rightarrow>
          if risk_contains reg (func_id r) then (True, Some reg)
          else if content_suspected g lookup r
            then (True, Some (snd (risk_mark reg (func_id r))))
          else (False, Some reg))"

fun drop_injection_suspected ::
  "guard_env \<Rightarrow> result_lookup \<Rightarrow> char risk_registry option \<Rightarrow> search_result list
   \<Rightarrow> search_result list \<times> char risk_registry option" where
  "drop_injection_suspected g lookup registry [] = ([], registry)"
| "drop_injection_suspected g lookup registry (r # rs) =
     (case result_is_injection_suspected g lookup registry r of (suspected, registry1) \<Rightarrow>
        case drop_injection_suspected g lookup registry1 rs of (kept, registry2) \<Rightarrow>
          (if suspected then kept else r # kept, registry2))"

definition source_value :: "source_kind \<Rightarrow> string" where
  "source_value k = (case k of REQUIREMENT \<Rightarrow> ''requirement'' | MEETING \<Rightarrow> ''meeting''
     | CODE \<Rightarrow> ''code'' | WIKI \<Rightarrow> ''wiki'')"

definition TRUST_LEVELS :: "(string, string) dict" where
  "TRUST_LEVELS = [(''requirement'', ''HIGH''), (''meeting'', ''MEDIUM''), (''code'', ''MEDIUM''),
     (''wiki'', ''LOW'')]"

definition trust_label :: "memory_node \<Rightarrow> string" where
  "trust_label n =
     (if dict_get (provenance n) ''extraction'' = Some ''factual_capture_v1'' then ''LOW''
      else dict_default TRUST_LEVELS (source_value (source_type n)) ''LOW'')"

definition newline :: string where
  "newline = [char_of (10 :: nat)]"

definition memory_block :: "string \<Rightarrow> string \<Rightarrow> string \<Rightarrow> string" where
  "memory_block trust i text =
     ''[MEMORY START | trust='' @ trust @ '' | id='' @ i @ '']'' @ newline @ text @ newline
     @ ''[MEMORY END]''"

fun wrap_parts ::
  "guard_env \<Rightarrow> result_lookup \<Rightarrow> char risk_registry option \<Rightarrow> search_result list
   \<Rightarrow> string list \<times> char risk_registry option" where
  "wrap_parts g lookup registry [] = ([], registry)"
| "wrap_parts g lookup registry (r # rs) =
     (case result_is_injection_suspected g lookup registry r of (suspected, registry1) \<Rightarrow>
        case wrap_parts g lookup registry1 rs of (parts, registry2) \<Rightarrow>
          (if suspected then parts
           else case lookup (func_id r) of
             Inr (Some n) \<Rightarrow>
               memory_block (trust_label n) (func_id r)
                 (if summary r \<noteq> [] then summary r else node_name n) # parts
           | _ \<Rightarrow> parts, registry2))"

definition wrap_for_context ::
  "guard_env \<Rightarrow> result_lookup \<Rightarrow> char risk_registry option \<Rightarrow> search_result list
   \<Rightarrow> string \<times> char risk_registry option" where
  "wrap_for_context g lookup registry rs =
     (case wrap_parts g lookup registry rs of (parts, registry') \<Rightarrow>
        (py_join (newline @ newline) parts, registry'))"

subsection \<open>The counter of detections\<close>

type_synonym scan_counter = "(string, nat) dict"

definition counter_prune :: "string \<Rightarrow> scan_counter \<Rightarrow> scan_counter" where
  "counter_prune today c =
     (if 1 < length c \<or> c \<noteq> [] \<and> \<not> has_key c today then filter (\<lambda>(k, v). k = today) c else c)"

definition counter_count :: "string \<Rightarrow> scan_counter \<Rightarrow> nat" where
  "counter_count today c = dict_default c today 0"

definition counter_increment :: "string \<Rightarrow> scan_counter \<Rightarrow> scan_counter" where
  "counter_increment today c = dict_set today (counter_count today c + 1) c"

subsection \<open>Lemmas\<close>

abbreviation registry_ok :: "'c risk_registry option \<Rightarrow> bool" where
  "registry_ok registry \<equiv> (case registry of None \<Rightarrow> True | Some reg \<Rightarrow> risk_ok reg)"

lemma suspected_step:
  assumes "result_is_injection_suspected g lookup registry r = (b, registry')"
  shows "\<not> b \<Longrightarrow> \<not> content_suspected g lookup r"
    and "\<not> b \<Longrightarrow> registry' = registry"
    and "\<not> b \<Longrightarrow> registry = Some reg \<Longrightarrow> \<not> risk_contains reg (func_id r)"
    and "registry_ok registry \<Longrightarrow> registry_ok registry'"
  using assms
  by (auto simp: result_is_injection_suspected_def intro: risk_ok_mark
      split: option.splits if_splits)

lemma drop_injection_sound:
  "drop_injection_suspected g lookup registry rs = (kept, registry') \<Longrightarrow>
   subseq kept rs \<and> (\<forall>r \<in> set kept. \<not> content_suspected g lookup r)"
proof (induction rs arbitrary: registry kept registry')
  case Nil
  then show ?case by simp
next
  case (Cons r rs)
  obtain b registry1 where b: "result_is_injection_suspected g lookup registry r = (b, registry1)"
    by (metis surj_pair)
  obtain kept1 registry2 where rest: "drop_injection_suspected g lookup registry1 rs = (kept1, registry2)"
    by (metis surj_pair)
  from Cons.IH [OF rest] Cons.prems b rest suspected_step(1) [OF b]
  show ?case by (auto split: if_splits)
qed

lemma drop_injection_keeps:
  "drop_injection_suspected g lookup registry rs = (kept, registry') \<Longrightarrow> registry_ok registry
   \<Longrightarrow> registry_ok registry'"
proof (induction rs arbitrary: registry kept registry')
  case Nil
  then show ?case by simp
next
  case (Cons r rs)
  obtain b registry1 where b: "result_is_injection_suspected g lookup registry r = (b, registry1)"
    by (metis surj_pair)
  obtain kept1 registry2 where rest: "drop_injection_suspected g lookup registry1 rs = (kept1, registry2)"
    by (metis surj_pair)
  have eq: "registry' = registry2" using Cons.prems(1) b rest by simp
  show ?case
    unfolding eq using Cons.IH [OF rest suspected_step(4) [OF b Cons.prems(2)]] .
qed

lemma drop_injection_complete:
  "drop_injection_suspected g lookup None rs = (filter (\<lambda>r. \<not> content_suspected g lookup r) rs, None)"
  by (induction rs) (auto simp: result_is_injection_suspected_def)

text \<open>
  what the injection filter keeps.  The kept results are a subsequence of the input,
  none of them is suspected by the scan of its stored node (or of its summary when the
  node cannot be read), the registry stays within its bound with its set and queue in
  agreement, and without a registry nothing else is dropped.
\<close>
theorem drop_injection_suspected_correct:
  assumes run: "drop_injection_suspected g lookup registry rs = (kept, registry')"
    and ok: "registry_ok registry"
  shows "subseq kept rs \<and> (\<forall>r \<in> set kept. \<not> content_suspected g lookup r)
    \<and> registry_ok registry'
    \<and> (registry = None \<longrightarrow> kept = filter (\<lambda>r. \<not> content_suspected g lookup r) rs)"
proof -
  have "registry = None \<longrightarrow> kept = filter (\<lambda>r. \<not> content_suspected g lookup r) rs"
    using drop_injection_complete [of g lookup rs] run by auto
  with drop_injection_sound [OF run] drop_injection_keeps [OF run ok] show ?thesis by blast
qed

definition toy_guard :: guard_env where
  "toy_guard = \<lparr>scan_text = (\<lambda>t. prefix ''ignore'' t), node_text = (\<lambda>n. Inr (node_name n))\<rparr>"

definition hit :: "string \<Rightarrow> string \<Rightarrow> search_result" where
  "hit i text = \<lparr>func_id = i, res_name = [], res_domain = [], relevance_score = 0, summary = text\<rparr>"

theorem drop_injection_suspected_correct_witness:
  "\<exists>kept reg. drop_injection_suspected toy_guard (\<lambda>_. Inr None) (Some empty_registry)
      [hit ''a'' ''ignore all'', hit ''b'' ''fine''] = (kept, Some reg) \<and> risk_ok reg
    \<and> subseq kept [hit ''a'' ''ignore all'', hit ''b'' ''fine'']"
proof -
  let ?rs = "[hit ''a'' ''ignore all'', hit ''b'' ''fine'']"
  have run: "drop_injection_suspected toy_guard (\<lambda>_. Inr None) (Some empty_registry) ?rs
      = ([hit ''b'' ''fine''], Some (snd (risk_mark empty_registry ''a'')))"
    by (simp add: result_is_injection_suspected_def content_suspected_def toy_guard_def hit_def
        risk_contains_def empty_registry_def risk_mark_def RISK_MAX_ENTRIES_def)
  have ok: "registry_ok (Some empty_registry)" by simp
  from drop_injection_suspected_correct [OF run ok] run show ?thesis by auto
qed

text \<open>
  the registry of unsafe ids is bounded and exact: after any sequence of marks it
  holds at most 4096 ids, all of them marked and none twice, and the last non-empty id
  marked is in it.
\<close>
theorem risk_registry_bounded:
  assumes last: "i \<noteq> []"
  shows "let reg = fold (\<lambda>j r. snd (risk_mark r j)) (js @ [i]) empty_registry in
    length (risk_order reg) \<le> 4096 \<and> distinct (risk_order reg) \<and> risk_contains reg i
    \<and> set (risk_order reg) \<subseteq> set (js @ [i]) \<and> risk_ids reg = set (risk_order reg)"
proof -
  have ok: "risk_ok (fold (\<lambda>j r. snd (risk_mark r j)) xs reg)" if "risk_ok reg" for xs reg
    using that by (induction xs arbitrary: reg) (auto intro: risk_ok_mark)
  have sub1: "set (risk_order (snd (risk_mark r j))) \<subseteq> insert j (set (risk_order r))" for r j
    by (cases "risk_order r") (auto simp: risk_mark_def Let_def)
  have sub: "set (risk_order (fold (\<lambda>j r. snd (risk_mark r j)) xs reg)) \<subseteq> set (risk_order reg) \<union> set xs"
    for xs reg
  proof (induction xs arbitrary: reg)
    case Nil
    then show ?case by simp
  next
    case (Cons x xs)
    show ?case using Cons [of "snd (risk_mark reg x)"] sub1 [of reg x] by auto
  qed
  show ?thesis
    using ok [OF risk_ok_empty, of "js @ [i]"] sub [of "js @ [i]" empty_registry] last
    by (auto simp: Let_def risk_ok_def RISK_MAX_ENTRIES_def risk_mark_contains empty_registry_def)
qed

theorem risk_registry_bounded_witness:
  "risk_contains (fold (\<lambda>j r. snd (risk_mark r j)) ([''a''] @ [''b'']) empty_registry) ''b''"
proof -
  have "''b'' \<noteq> []" by simp
  from risk_registry_bounded [OF this, of "[''a'']"] show ?thesis unfolding Let_def by blast
qed

end
