(* ===== verification/Context_Assembly.thy ===== *)
theory Context_Assembly
  imports Injection_Guard
begin

section \<open>Context assembly\<close>

text \<open>
  \<^verbatim>\<open>memplex/context.py\<close> and the context entry of \<^verbatim>\<open>memplex/service.py\<close>: the cache of
  candidates, the committed lookup with its bound on lineage reads, the resolution of
  the ids a caller may see, the projection of one node, and the assembly under a token
  budget.
\<close>

definition MAX_CONTEXT_CANDIDATES :: nat where
  "MAX_CONTEXT_CANDIDATES = 500"

record context_candidate =
  cand_id :: string
  cand_origin :: string

record context_cache_key =
  key_storage :: string
  key_tenant :: string
  key_subject :: string
  key_workspace :: "string option"
  key_agent :: "string option"
  key_session :: "string option"
  key_query :: string

subsection \<open>The candidate cache\<close>

definition valid_cached_candidates :: "context_candidate list \<Rightarrow> bool" where
  "valid_cached_candidates cs =
     (length cs \<le> MAX_CONTEXT_CANDIDATES
      \<and> list_all (\<lambda>c. cand_origin c \<in> {''hot'', ''retrieval''}) cs)"

record candidate_cache =
  cache_max :: nat
  cache_entries :: "(context_cache_key, context_candidate list) dict"

definition make_cache :: "int \<Rightarrow> candidate_cache" where
  "make_cache max_entries = \<lparr>cache_max = nat (max 1 max_entries), cache_entries = []\<rparr>"

fun evict_oldest :: "nat \<Rightarrow> ('k \<times> 'v) list \<Rightarrow> ('k \<times> 'v) list" where
  "evict_oldest m [] = []"
| "evict_oldest m (e # es) = (if m < length (e # es) then evict_oldest m es else e # es)"

definition cache_put ::
  "context_cache_key \<Rightarrow> context_candidate list \<Rightarrow> candidate_cache \<Rightarrow> candidate_cache" where
  "cache_put key candidates c =
     (let bounded = take MAX_CONTEXT_CANDIDATES candidates in
      if \<not> valid_cached_candidates bounded
      then c\<lparr>cache_entries := dict_pop key (cache_entries c)\<rparr>
      else c\<lparr>cache_entries := evict_oldest (cache_max c) (dict_set key bounded (cache_entries c))\<rparr>)"

definition cache_pop ::
  "context_cache_key \<Rightarrow> candidate_cache \<Rightarrow> context_candidate list option \<times> candidate_cache" where
  "cache_pop key c =
     ((case dict_get (cache_entries c) key of None \<Rightarrow> None
       | Some cs \<Rightarrow> if valid_cached_candidates cs then Some cs else None),
      c\<lparr>cache_entries := dict_pop key (cache_entries c)\<rparr>)"

definition cache_invalidate :: "string option \<Rightarrow> candidate_cache \<Rightarrow> candidate_cache" where
  "cache_invalidate memory_id c =
     (case memory_id of
        None \<Rightarrow> c\<lparr>cache_entries := []\<rparr>
      | Some i \<Rightarrow> c\<lparr>cache_entries := filter (\<lambda>(k, cs).
          valid_cached_candidates cs \<and> \<not> list_ex (\<lambda>x. cand_id x = i) cs) (cache_entries c)\<rparr>)"

datatype cache_op =
    Put context_cache_key "context_candidate list"
  | Pop context_cache_key
  | Invalidate "string option"

fun cache_step :: "cache_op \<Rightarrow> candidate_cache \<Rightarrow> candidate_cache" where
  "cache_step (Put k cs) c = cache_put k cs c"
| "cache_step (Pop k) c = snd (cache_pop k c)"
| "cache_step (Invalidate i) c = cache_invalidate i c"

definition cache_ok :: "candidate_cache \<Rightarrow> bool" where
  "cache_ok c \<longleftrightarrow> 1 \<le> cache_max c \<and> length (cache_entries c) \<le> cache_max c
     \<and> dict_wf (cache_entries c)
     \<and> (\<forall>e \<in> set (cache_entries c). valid_cached_candidates (snd e))"

subsection \<open>The committed lookup\<close>

record committed =
  cl_nodes :: "(string, read_value) dict"
  cl_read :: "string set"
  cl_errors :: "string set"
  cl_reads :: nat
  cl_failure :: string

text \<open>The node of a stored value: a raw row is projected, and kept projected.\<close>

definition committed_node :: "committed \<Rightarrow> string \<Rightarrow> memory_node option result \<times> committed" where
  "committed_node cl i =
     (let missing = (\<lambda>c. (Inr None, c\<lparr>cl_failure := ''missing''\<rparr>));
          accept = (\<lambda>n c. if i = [] \<or> node_id n \<noteq> i then missing c else (Inr (Some n), c))
      in case dict_get (cl_nodes cl) i of
           Some (NodeRow n) \<Rightarrow> accept n cl
         | Some (RawRow row) \<Rightarrow>
             (case raw_paragraph_view row of
                Inl _ \<Rightarrow> (Inr None, cl\<lparr>cl_errors := insert i (cl_errors cl), cl_failure := ''lookup_error''\<rparr>)
              | Inr n \<Rightarrow> accept n (cl\<lparr>cl_nodes := dict_set i (NodeRow n) (cl_nodes cl)\<rparr>))
         | _ \<Rightarrow> missing cl)"

definition committed_fetch :: "context_reader \<Rightarrow> string \<Rightarrow> committed \<Rightarrow> committed" where
  "committed_fetch reader i cl =
     (let cl1 = cl\<lparr>cl_reads := cl_reads cl + 1, cl_read := insert i (cl_read cl)\<rparr>
      in case reader [i] of
           Inl _ \<Rightarrow> cl1\<lparr>cl_errors := insert i (cl_errors cl1)\<rparr>
         | Inr d \<Rightarrow> cl1\<lparr>cl_nodes := (case dict_get d i of None \<Rightarrow> dict_pop i (cl_nodes cl1)
                                     | Some v \<Rightarrow> dict_set i v (cl_nodes cl1))\<rparr>)"

definition committed_get :: "context_reader \<Rightarrow> committed lookup_fun" where
  "committed_get reader cl i =
     (if i \<notin> cl_read cl \<and> MAX_CONTEXT_CANDIDATES \<le> cl_reads cl
      then (Inr None, cl\<lparr>cl_failure := ''lineage_limit''\<rparr>)
      else
        let cl1 = (if i \<in> cl_read cl then cl else committed_fetch reader i cl)
        in if i \<in> cl_errors cl1 then (Inr None, cl1\<lparr>cl_failure := ''lookup_error''\<rparr>)
           else committed_node cl1 i)"

definition make_committed :: "context_reader \<Rightarrow> string list \<Rightarrow> committed result" where
  "make_committed reader ids =
     bindR (reader ids) (\<lambda>d. Inr \<lparr>cl_nodes = d, cl_read = set ids, cl_errors = {}, cl_reads = 0,
       cl_failure = []\<rparr>)"

subsection \<open>Resolving the ids a caller may see\<close>

type_synonym counter = "(string, int) dict"

definition count_up :: "string \<Rightarrow> counter \<Rightarrow> counter" where
  "count_up why c = dict_set why (dict_default c why 0 + 1) c"

fun collect_ids :: "string list \<Rightarrow> string list \<Rightarrow> string list" where
  "collect_ids [] ids = ids"
| "collect_ids (m # ms) ids =
     (let ids1 = (if m \<in> set ids then ids else ids @ [m])
      in if MAX_CONTEXT_CANDIDATES \<le> length ids1 then ids1 else collect_ids ms ids1)"

definition context_snapshot :: "auth_context \<Rightarrow> context_reader \<Rightarrow> committed snapshot" where
  "context_snapshot c reader =
     \<lparr>snap_context = c, snap_lookup = committed_get reader, snap_failure = cl_failure,
      snap_legacy_path = None, snap_identityless = False\<rparr>"

fun resolve_loop ::
  "nat \<Rightarrow> evidence_env \<Rightarrow> (memory_node \<Rightarrow> bool) \<Rightarrow> committed snapshot \<Rightarrow> string list
   \<Rightarrow> (string, verdict) dict \<Rightarrow> committed \<Rightarrow> (string, memory_node) dict \<Rightarrow> counter
   \<Rightarrow> ((string, memory_node) dict \<times> counter) option" where
  "resolve_loop k ev safe sn [] cache cl nodes dropped = Some (nodes, dropped)"
| "resolve_loop k ev safe sn (i # ids) cache cl nodes dropped =
     (case snap_lookup sn (cl\<lparr>cl_failure := []\<rparr>) i of
        (Inr (Some n), cl1) \<Rightarrow>
          (case snapshot_check k ev sn cache n cl1 of
             None \<Rightarrow> None
           | Some (Inl _, cache1, cl2) \<Rightarrow>
               resolve_loop k ev safe sn ids cache1 cl2 nodes (count_up ''lookup_error'' dropped)
           | Some (Inr (allowed, why), cache1, cl2) \<Rightarrow>
               if \<not> allowed then resolve_loop k ev safe sn ids cache1 cl2 nodes (count_up why dropped)
               else if \<not> safe n
                 then resolve_loop k ev safe sn ids cache1 cl2 nodes (count_up ''unsafe'' dropped)
               else resolve_loop k ev safe sn ids cache1 cl2 (dict_set i n nodes) dropped)
      | (_, cl1) \<Rightarrow>
          resolve_loop k ev safe sn ids cache cl1 nodes
            (count_up (if cl_failure cl1 = [] then ''missing'' else cl_failure cl1) dropped))"

definition resolve_context_snapshot ::
  "nat \<Rightarrow> evidence_env \<Rightarrow> (memory_node \<Rightarrow> bool) \<Rightarrow> auth_context \<Rightarrow> context_reader option
   \<Rightarrow> string list \<Rightarrow> ((string, memory_node) dict \<times> counter) result option" where
  "resolve_context_snapshot k ev safe c reader memory_ids =
     (let ids = collect_ids memory_ids [] in
      case reader of
        None \<Rightarrow> Some (Inr ([], [(''missing'', int (length ids))]))
      | Some read \<Rightarrow>
          if ids = [] then Some (Inr ([], []))
          else case make_committed read ids of
            Inl e \<Rightarrow> Some (Inl e)
          | Inr cl \<Rightarrow> map_option Inr
              (resolve_loop k ev safe (context_snapshot c read) ids [] cl [] []))"

subsection \<open>The committed lookup as a lookup object\<close>

text \<open>
  \<open>rows\<close> is what is committed: the reader's answers come from it.
\<close>

definition reader_of :: "context_reader \<Rightarrow> (string \<Rightarrow> read_value option) \<Rightarrow> bool" where
  "reader_of reader rows \<longleftrightarrow>
     (\<forall>ids d s v. reader ids = Inr d \<longrightarrow> dict_get d s = Some v \<longrightarrow> rows s = Some v)"

definition row_node :: "(string \<Rightarrow> read_value option) \<Rightarrow> string \<Rightarrow> memory_node option" where
  "row_node rows s =
     (case rows s of
        Some (NodeRow n) \<Rightarrow> if s \<noteq> [] \<and> node_id n = s then Some n else None
      | Some (RawRow row) \<Rightarrow>
          (case raw_paragraph_view row of
             Inr n \<Rightarrow> if s \<noteq> [] \<and> node_id n = s then Some n else None
           | Inl _ \<Rightarrow> None)
      | _ \<Rightarrow> None)"

definition committed_inv ::
  "context_reader \<Rightarrow> (string \<Rightarrow> read_value option) \<Rightarrow> committed \<Rightarrow> bool" where
  "committed_inv reader rows cl \<longleftrightarrow>
     reader_of reader rows \<and> cl_reads cl \<le> MAX_CONTEXT_CANDIDATES
     \<and> (\<forall>s v. dict_get (cl_nodes cl) s = Some v \<longrightarrow> rows s = Some v
          \<or> (\<exists>n row. v = NodeRow n \<and> rows s = Some (RawRow row) \<and> raw_paragraph_view row = Inr n))"

lemma committed_inv_frame:
  "committed_inv reader rows (cl\<lparr>cl_failure := f\<rparr>) = committed_inv reader rows cl"
  "committed_inv reader rows (cl\<lparr>cl_errors := e\<rparr>) = committed_inv reader rows cl"
  by (simp_all add: committed_inv_def)

lemma committed_node_spec:
  assumes inv: "committed_inv reader rows cl" and run: "committed_node cl i = (r, cl')"
  shows "committed_inv reader rows cl'" and "r = Inr (Some m) \<Longrightarrow> row_node rows i = Some m"
proof -
  have stored: "rows i = Some v \<or> (\<exists>n row. v = NodeRow n \<and> rows i = Some (RawRow row)
      \<and> raw_paragraph_view row = Inr n)" if "dict_get (cl_nodes cl) i = Some v" for v
    using inv that by (simp add: committed_inv_def)
  have both: "committed_inv reader rows cl' \<and> (\<forall>m. r = Inr (Some m) \<longrightarrow> row_node rows i = Some m)"
  proof (cases "dict_get (cl_nodes cl) i")
    case None
    with run inv show ?thesis by (auto simp: committed_node_def Let_def committed_inv_frame)
  next
    case (Some v)
    show ?thesis
    proof (cases v)
      case (NodeRow n)
      with run inv Some stored [OF Some] show ?thesis
        by (auto simp: committed_node_def Let_def committed_inv_frame row_node_def split: if_splits)
    next
      case (RawRow row)
      have row: "rows i = Some (RawRow row)" using stored [OF Some] RawRow by simp
      show ?thesis
      proof (cases "raw_paragraph_view row")
        case (Inl e)
        with run inv Some RawRow show ?thesis
          by (auto simp: committed_node_def Let_def committed_inv_frame)
      next
        case (Inr n)
        let ?cl = "cl\<lparr>cl_nodes := dict_set i (NodeRow n) (cl_nodes cl)\<rparr>"
        have "committed_inv reader rows ?cl"
          using inv row Inr by (simp add: committed_inv_def dict_simps)
        with run Some RawRow Inr row show ?thesis
          by (auto simp: committed_node_def Let_def committed_inv_frame row_node_def split: if_splits)
      qed
    next
      case OtherRow
      with run inv Some show ?thesis by (auto simp: committed_node_def Let_def committed_inv_frame)
    qed
  qed
  from both show "committed_inv reader rows cl'" by simp
  from both show "r = Inr (Some m) \<Longrightarrow> row_node rows i = Some m" by simp
qed

lemma committed_fetch_inv:
  assumes inv: "committed_inv reader rows cl" and room: "cl_reads cl < MAX_CONTEXT_CANDIDATES"
  shows "committed_inv reader rows (committed_fetch reader i cl)"
proof -
  have from_reader: "rows i = Some v" if "reader [i] = Inr d" "dict_get d i = Some v" for d v
    using inv that unfolding committed_inv_def reader_of_def by blast
  show ?thesis
    using inv room from_reader
    by (auto simp: committed_fetch_def Let_def committed_inv_def dict_simps
        split: sum.splits option.splits)
qed

lemma committed_get_spec:
  assumes inv: "committed_inv reader rows cl" and run: "committed_get reader cl i = (r, cl')"
  shows "committed_inv reader rows cl' \<and> (\<forall>m. r = Inr (Some m) \<longrightarrow> row_node rows i = Some m)"
proof (cases "i \<notin> cl_read cl \<and> MAX_CONTEXT_CANDIDATES \<le> cl_reads cl")
  case True
  with run inv show ?thesis by (auto simp: committed_get_def committed_inv_frame)
next
  case False
  define cl1 where "cl1 = (if i \<in> cl_read cl then cl else committed_fetch reader i cl)"
  have inv1: "committed_inv reader rows cl1"
    using inv False committed_fetch_inv [OF inv, of i] by (auto simp: cl1_def)
  have run1: "(if i \<in> cl_errors cl1 then (Inr None, cl1\<lparr>cl_failure := ''lookup_error''\<rparr>)
      else committed_node cl1 i) = (r, cl')"
    using run False unfolding committed_get_def cl1_def by (auto simp: Let_def)
  then show ?thesis
    using inv1 committed_node_spec [OF inv1]
    by (auto simp: committed_inv_frame split: if_splits)
qed

interpretation committed: lookup_object
    "committed_get reader" "committed_inv reader rows" "row_node rows"
  for reader rows
  by unfold_locales
    (auto dest: committed_get_spec simp: row_node_def
      split: option.splits read_value.splits sum.splits if_splits)

lemma make_committed_inv:
  "reader_of reader rows \<Longrightarrow> make_committed reader ids = Inr cl \<Longrightarrow> committed_inv reader rows cl"
  unfolding make_committed_def committed_inv_def reader_of_def by auto

subsection \<open>What is resolved\<close>

definition resolved_ok ::
  "evidence_env \<Rightarrow> (memory_node \<Rightarrow> bool) \<Rightarrow> auth_context \<Rightarrow> (string \<Rightarrow> read_value option)
   \<Rightarrow> string \<times> memory_node \<Rightarrow> bool" where
  "resolved_ok ev safe c rows e \<longleftrightarrow>
     row_node rows (fst e) = Some (snd e) \<and> node_id (snd e) = fst e \<and> safe (snd e)
     \<and> lineage_ok ev c (row_node rows) source_ids (snd e)"

lemma snapshot_sources [simp]:
  "effective_sources (context_snapshot c reader) = source_ids"
  "snap_context (context_snapshot c reader) = c"
  "snap_lookup (context_snapshot c reader) = committed_get reader"
  "snap_legacy_path (context_snapshot c reader) = None"
  by (simp_all add: context_snapshot_def effective_sources_def fun_eq_iff)

definition total_count :: "counter \<Rightarrow> int" where
  "total_count c = sum_list (map snd c)"

lemma total_count_up [simp]: "total_count (count_up why c) = total_count c + 1"
proof -
  have "sum_list (map snd (dict_set why (dict_default c why 0 + 1) c)) = sum_list (map snd c) + 1"
    by (induction c) (auto simp: dict_default_def)
  then show ?thesis by (simp add: total_count_def count_up_def)
qed

lemma resolve_loop_total:
  assumes fin: "finite (dom (row_node rows))"
  shows "distinct ids \<Longrightarrow> committed_inv reader rows cl
    \<Longrightarrow> cache_sound ev (context_snapshot c reader) (row_node rows) cache
    \<Longrightarrow> list_all (resolved_ok ev safe c rows) nodes \<Longrightarrow> dict_wf nodes \<Longrightarrow> fst ` set nodes \<inter> set ids = {}
    \<Longrightarrow> \<exists>k nodes' dropped'. (\<forall>j \<ge> k. resolve_loop j ev safe (context_snapshot c reader) ids cache cl
            nodes dropped = Some (nodes', dropped'))
        \<and> list_all (resolved_ok ev safe c rows) nodes' \<and> dict_wf nodes'
        \<and> fst ` set nodes' \<subseteq> fst ` set nodes \<union> set ids
        \<and> int (length nodes') + total_count dropped'
            = int (length nodes) + total_count dropped + int (length ids)"
proof (induction ids arbitrary: cache cl nodes dropped)
  case Nil
  then show ?case by auto
next
  case (Cons i ids)
  let ?sn = "context_snapshot c reader"
  obtain r cl1 where get: "committed_get reader (cl\<lparr>cl_failure := []\<rparr>) i = (r, cl1)"
    by (metis surj_pair)
  have inv0: "committed_inv reader rows (cl\<lparr>cl_failure := []\<rparr>)"
    using Cons.prems(2) by (simp add: committed_inv_frame)
  have inv1: "committed_inv reader rows cl1" using committed_get_spec [OF inv0 get] by simp
  have dist: "distinct ids" "i \<notin> set ids" "i \<notin> fst ` set nodes" "fst ` set nodes \<inter> set ids = {}"
    using Cons.prems by auto
  show ?case
  proof (cases "\<exists>n. r = Inr (Some n)")
    case False
    define dropped1 where "dropped1 =
      count_up (if cl_failure cl1 = [] then ''missing'' else cl_failure cl1) dropped"
    obtain k nodes' dropped' where ih: "\<forall>j \<ge> k. resolve_loop j ev safe ?sn ids cache cl1 nodes
        dropped1 = Some (nodes', dropped')"
      "list_all (resolved_ok ev safe c rows) nodes'" "dict_wf nodes'"
      "fst ` set nodes' \<subseteq> fst ` set nodes \<union> set ids"
      "int (length nodes') + total_count dropped'
         = int (length nodes) + total_count dropped1 + int (length ids)"
      using Cons.IH [OF dist(1) inv1 Cons.prems(3) Cons.prems(4,5) dist(4), of dropped1] by blast
    have step: "resolve_loop j ev safe ?sn (i # ids) cache cl nodes dropped = Some (nodes', dropped')"
      if "k \<le> j" for j
    proof -
      have "(\<exists>e. r = Inl e) \<or> r = Inr None"
        using False by (metis not_Some_eq old.sum.exhaust)
      then have "resolve_loop j ev safe ?sn (i # ids) cache cl nodes dropped
          = resolve_loop j ev safe ?sn ids cache cl1 nodes
             dropped1"
        using get by (auto simp: dropped1_def)
      also have "\<dots> = Some (nodes', dropped')" using ih(1) that by blast
      finally show ?thesis .
    qed
    have size: "int (length nodes') + total_count dropped'
        = int (length nodes) + total_count dropped + int (length (i # ids))"
      using ih(5) by (simp add: dropped1_def)
    have "fst ` set nodes' \<subseteq> fst ` set nodes \<union> set (i # ids)" using ih(4) by auto
    with step ih(2,3) size show ?thesis by blast
  next
    case True
    then obtain n where n: "r = Inr (Some n)" by blast
    have src: "row_node rows i = Some n" using committed_get_spec [OF inv0 get] n by simp
    have id: "node_id n = i" by (rule committed.source_id [OF src])
    have src': "row_node rows (node_id n) = Some n" using src id by simp
    obtain k1 res where "\<forall>j \<ge> k1. snapshot_check j ev ?sn cache n cl1 = Some res"
      using committed.check_total [OF fin, of ?sn reader ev cache n cl1] Cons.prems(3) src' inv1
      by auto
    then obtain v cache1 cl2 where
      chk: "\<forall>j \<ge> k1. snapshot_check j ev ?sn cache n cl1 = Some (v, cache1, cl2)"
      by (cases res) auto
    have post: "(\<forall>w. v = Inr (True, w) \<longrightarrow> visible_id ev ?sn (row_node rows) (node_id n))
        \<and> cache_sound ev ?sn (row_node rows) cache1 \<and> committed_inv reader rows cl2"
      using chk committed.check_visible [OF Cons.prems(3) _ src' inv1, where fuel = k1 and v = v and cache' = cache1 and l' = cl2]
      by simp
    define nodes1 where "nodes1 = (case v of Inr (True, w) \<Rightarrow> if safe n then dict_set i n nodes else nodes
        | _ \<Rightarrow> nodes)"
    define dropped1 where "dropped1 = (case v of Inl _ \<Rightarrow> count_up ''lookup_error'' dropped
        | Inr (b, w) \<Rightarrow> if \<not> b then count_up w dropped
            else if \<not> safe n then count_up ''unsafe'' dropped else dropped)"
    have len: "length (dict_set i n nodes) = Suc (length nodes)"
      using dist(3) by (simp add: length_dict_set)
    have set_eq: "set (dict_set i n nodes) = insert (i, n) (set nodes)"
      using dist(3) by (auto simp: set_dict_set [OF Cons.prems(5)])
    have ok1: "list_all (resolved_ok ev safe c rows) nodes1" "dict_wf nodes1"
      "fst ` set nodes1 \<inter> set ids = {}" "fst ` set nodes1 \<subseteq> insert i (fst ` set nodes)"
      "int (length nodes1) + total_count dropped1 = int (length nodes) + total_count dropped + 1"
      using post Cons.prems(4,5) src id dist len set_eq
      by (auto simp: nodes1_def dropped1_def resolved_ok_def visible_id_def list_all_iff
          intro: dict_wf_set split: sum.splits bool.splits)
    from post Cons.IH [OF dist(1) _ _ ok1(1,2,3), of cl2 cache1 dropped1]
    obtain k nodes' dropped' where ih: "\<forall>j \<ge> k. resolve_loop j ev safe ?sn ids cache1 cl2 nodes1
        dropped1 = Some (nodes', dropped')"
      "list_all (resolved_ok ev safe c rows) nodes'" "dict_wf nodes'"
      "fst ` set nodes' \<subseteq> fst ` set nodes1 \<union> set ids"
      "int (length nodes') + total_count dropped'
         = int (length nodes1) + total_count dropped1 + int (length ids)"
      by blast
    have step: "resolve_loop j ev safe ?sn (i # ids) cache cl nodes dropped = Some (nodes', dropped')"
      if "max k k1 \<le> j" for j
    proof -
      have "snapshot_check j ev ?sn cache n cl1 = Some (v, cache1, cl2)" using chk that by simp
      then have "resolve_loop j ev safe ?sn (i # ids) cache cl nodes dropped
          = resolve_loop j ev safe ?sn ids cache1 cl2 nodes1 dropped1"
        using get n
        by (cases v) (auto simp: nodes1_def dropped1_def split: bool.splits)
      also have "\<dots> = Some (nodes', dropped')" using ih(1) that by simp
      finally show ?thesis .
    qed
    have size: "int (length nodes') + total_count dropped'
        = int (length nodes) + total_count dropped + int (length (i # ids))"
      using ih(5) ok1(5) by simp
    have "fst ` set nodes' \<subseteq> fst ` set nodes \<union> set (i # ids)" using ih(4) ok1(4) by auto
    with step ih(2,3) size show ?thesis by blast
  qed
qed

lemma collect_ids_props:
  "distinct ids \<Longrightarrow> length ids < MAX_CONTEXT_CANDIDATES \<Longrightarrow>
   distinct (collect_ids ms ids) \<and> length (collect_ids ms ids) \<le> MAX_CONTEXT_CANDIDATES
   \<and> set (collect_ids ms ids) \<subseteq> set ids \<union> set ms"
proof (induction ms arbitrary: ids)
  case Nil
  then show ?case by simp
next
  case (Cons m ms)
  define ids1 where "ids1 = (if m \<in> set ids then ids else ids @ [m])"
  have ids1: "distinct ids1" "length ids1 \<le> MAX_CONTEXT_CANDIDATES" "set ids1 \<subseteq> insert m (set ids)"
    using Cons.prems by (auto simp: ids1_def)
  have eq: "collect_ids (m # ms) ids
      = (if MAX_CONTEXT_CANDIDATES \<le> length ids1 then ids1 else collect_ids ms ids1)"
    by (simp add: ids1_def Let_def)
  show ?case
  proof (cases "MAX_CONTEXT_CANDIDATES \<le> length ids1")
    case True
    with eq ids1 show ?thesis by auto
  next
    case False
    with eq ids1 Cons.IH [of ids1] show ?thesis by auto
  qed
qed

lemma finite_row_node: "finite (dom rows) \<Longrightarrow> finite (dom (row_node rows))"
  by (rule finite_subset [of _ "dom rows"]) (auto simp: row_node_def split: option.splits)

lemma resolve_snapshot_total:
  assumes rows: "reader_of reader rows" "finite (dom rows)"
    and read: "reader (collect_ids memory_ids []) = Inr d"
  shows "\<exists>k nodes dropped. (\<forall>j \<ge> k. resolve_context_snapshot j ev safe c (Some reader) memory_ids
        = Some (Inr (nodes, dropped)))
    \<and> (\<forall>(i, n) \<in> set nodes. i \<in> set memory_ids \<and> row_node rows i = Some n \<and> safe n
          \<and> is_node_in_scope n c \<and> lineage_ok ev c (row_node rows) source_ids n)
    \<and> int (length nodes) + total_count dropped = int (length (collect_ids memory_ids []))
    \<and> length (collect_ids memory_ids []) \<le> 500"
proof -
  let ?ids = "collect_ids memory_ids []"
  have ids: "distinct ?ids" "length ?ids \<le> 500" "set ?ids \<subseteq> set memory_ids"
    using collect_ids_props [of "[]" memory_ids] by (auto simp: MAX_CONTEXT_CANDIDATES_def)
  show ?thesis
  proof (cases "?ids = []")
    case True
    then have "resolve_context_snapshot j ev safe c (Some reader) memory_ids = Some (Inr ([], []))" for j
      by (simp add: resolve_context_snapshot_def)
    then show ?thesis
      using True by (intro exI [of _ 0] exI [of _ "[]"]) (simp add: total_count_def)
  next
    case False
    obtain cl where cl: "make_committed reader ?ids = Inr cl"
      using read by (simp add: make_committed_def)
    have inv: "committed_inv reader rows cl" by (rule make_committed_inv [OF rows(1) cl])
    obtain k nodes dropped where
      run: "\<forall>j \<ge> k. resolve_loop j ev safe (context_snapshot c reader) ?ids [] cl [] []
        = Some (nodes, dropped)"
      and res: "list_all (resolved_ok ev safe c rows) nodes" "fst ` set nodes \<subseteq> set ?ids"
        "int (length nodes) + total_count dropped = int (length ?ids)"
      using resolve_loop_total [OF finite_row_node [OF rows(2)] ids(1) inv, of ev c "[]" safe "[]" "[]"]
      by (auto simp: total_count_def)
    have "resolve_context_snapshot j ev safe c (Some reader) memory_ids = Some (Inr (nodes, dropped))"
      if "k \<le> j" for j
      using run that False cl by (simp add: resolve_context_snapshot_def)
    moreover have "i \<in> set memory_ids \<and> row_node rows i = Some n \<and> safe n
          \<and> is_node_in_scope n c \<and> lineage_ok ev c (row_node rows) source_ids n"
      if "(i, n) \<in> set nodes" for i n
    proof -
      have ok: "resolved_ok ev safe c rows (i, n)" using that res(1) by (simp add: list_all_iff)
      have "i \<in> fst ` set nodes" using that by force
      then show ?thesis
        using ok res(2) ids(3) by (auto simp: resolved_ok_def lineage_ok_iff [of ev c _ _ n])
    qed
    ultimately show ?thesis using res(3) ids(2) by blast
  qed
qed

text \<open>
  resolving the ids of a recall.  Over a finite committed snapshot whose first batch
  read succeeds, the resolution ends; every node it returns is the committed row under
  the requested id, safe for the model, in the caller's scope and visible with its whole
  lineage; and every one of the distinct ids (500 at most) is either returned or counted
  once as dropped.
\<close>
theorem resolve_context_only_visible:
  assumes rows: "reader_of reader rows" "finite (dom rows)"
    and read: "reader (collect_ids memory_ids []) = Inr d"
  shows "\<exists>k nodes dropped. (\<forall>j \<ge> k. resolve_context_snapshot j ev safe c (Some reader) memory_ids
        = Some (Inr (nodes, dropped)))
    \<and> (\<forall>(i, n) \<in> set nodes. i \<in> set memory_ids \<and> row_node rows i = Some n \<and> safe n
          \<and> is_node_in_scope n c \<and> lineage_ok ev c (row_node rows) source_ids n)
    \<and> int (length nodes) + total_count dropped = int (length (collect_ids memory_ids []))
    \<and> length (collect_ids memory_ids []) \<le> 500"
  by (rule resolve_snapshot_total [OF rows read])

definition t1_reader :: context_reader where
  "t1_reader ids = Inr (filter (\<lambda>(i, v). i \<in> set ids) [(''f1'', NodeRow sample_node)])"

theorem resolve_context_only_visible_witness:
  "\<exists>k nodes dropped. resolve_context_snapshot k plain_evidence (\<lambda>_. True) t1_context (Some t1_reader)
      [''f1'', ''f1'', ''x''] = Some (Inr (nodes, dropped)) \<and> int (length nodes) + total_count dropped = 2"
proof -
  let ?rows = "[''f1'' \<mapsto> NodeRow sample_node]"
  have rows: "reader_of t1_reader ?rows"
    by (auto simp: reader_of_def t1_reader_def split: if_splits)
  have fin: "finite (dom ?rows)" by simp
  have ids: "collect_ids [''f1'', ''f1'', ''x''] [] = [''f1'', ''x'']"
    by (simp add: MAX_CONTEXT_CANDIDATES_def)
  obtain d where read: "t1_reader (collect_ids [''f1'', ''f1'', ''x''] []) = Inr d"
    by (simp add: t1_reader_def)
  from resolve_context_only_visible [OF rows fin read, of plain_evidence "\<lambda>_. True" t1_context]
  obtain k nodes dropped where
    k: "\<forall>j \<ge> k. resolve_context_snapshot j plain_evidence (\<lambda>_. True) t1_context (Some t1_reader)
      [''f1'', ''f1'', ''x''] = Some (Inr (nodes, dropped))"
    and cnt: "int (length nodes) + total_count dropped
      = int (length (collect_ids [''f1'', ''f1'', ''x''] []))" by blast
  from k have "resolve_context_snapshot k plain_evidence (\<lambda>_. True) t1_context (Some t1_reader)
      [''f1'', ''f1'', ''x''] = Some (Inr (nodes, dropped))" by simp
  moreover have "int (length nodes) + total_count dropped = 2" using cnt unfolding ids by simp
  ultimately show ?thesis by blast
qed

subsection \<open>The cache\<close>

inductive cache_reach :: "int \<Rightarrow> candidate_cache \<Rightarrow> bool" for m where
  fresh: "cache_reach m (make_cache m)"
| step: "cache_reach m c \<Longrightarrow> cache_reach m (cache_step op c)"

lemma evict_oldest_drop: "evict_oldest m xs = drop (length xs - m) xs"
  by (induction xs) (auto simp: Suc_diff_le not_less)

lemma dict_wf_drop: "dict_wf d \<Longrightarrow> dict_wf (drop n d)"
  by (simp add: drop_map [symmetric])

lemma cache_put_ok: "cache_ok c \<Longrightarrow> cache_ok (cache_put k cs c)"
proof -
  assume ok: "cache_ok c"
  have pop: "length (dict_pop k (cache_entries c)) \<le> cache_max c"
    using ok length_dict_pop_le [of k "cache_entries c"] by (simp add: cache_ok_def)
  have "valid_cached_candidates (snd e)"
    if "valid_cached_candidates b" "e \<in> set (dict_set k b (cache_entries c))" for e b
    using that ok set_dict_set [of "cache_entries c" k b] by (auto simp: cache_ok_def)
  then have "valid_cached_candidates (snd e)"
    if "valid_cached_candidates b" "e \<in> set (drop n (dict_set k b (cache_entries c)))" for e b n
    using that in_set_dropD by fast
  then show ?thesis
    using ok pop
    by (auto simp: cache_put_def Let_def cache_ok_def evict_oldest_drop set_dict_pop
        intro!: dict_wf_drop dict_wf_set dict_wf_pop)
qed

lemma cache_pop_ok: "cache_ok c \<Longrightarrow> cache_ok (snd (cache_pop k c))"
  using length_dict_pop_le [of k "cache_entries c"]
  by (auto simp: cache_pop_def cache_ok_def set_dict_pop intro: dict_wf_pop order_trans)

lemma cache_invalidate_ok: "cache_ok c \<Longrightarrow> cache_ok (cache_invalidate i c)"
  by (auto simp: cache_invalidate_def cache_ok_def distinct_map_filter
      intro: order_trans [OF length_filter_le] split: option.splits)

lemma cache_step_ok [keeps]: "cache_ok c \<Longrightarrow> cache_ok (cache_step op c)"
  by (cases op) (simp_all add: cache_put_ok cache_pop_ok cache_invalidate_ok)

lemma cache_reach_ok: "cache_reach m c \<Longrightarrow> cache_ok c"
proof (induction rule: cache_reach.induct)
  case fresh
  show ?case by (simp add: make_cache_def cache_ok_def)
next
  case (step c op)
  then show ?case by (intro cache_step_ok)
qed

lemma cache_put_pop:
  assumes ok: "cache_ok c" and valid: "valid_cached_candidates (take MAX_CONTEXT_CANDIDATES cs)"
  shows "fst (cache_pop k (cache_put k cs c)) = Some (take MAX_CONTEXT_CANDIDATES cs)"
proof -
  let ?b = "take MAX_CONTEXT_CANDIDATES cs"
  let ?d = "dict_set k ?b (cache_entries c)"
  have wf: "dict_wf ?d" using ok by (auto simp: cache_ok_def intro: dict_wf_set)
  have "(k, ?b) \<in> set (drop (length ?d - cache_max c) ?d)"
  proof (cases "k \<in> fst ` set (cache_entries c)")
    case True
    then have "length ?d \<le> cache_max c" using ok by (simp add: cache_ok_def length_dict_set)
    moreover have "(k, ?b) \<in> set ?d" by (rule dict_get_in_set) (simp add: dict_simps)
    ultimately show ?thesis by simp
  next
    case False
    have app: "dict_set k b d = d @ [(k, b)]" if "k \<notin> fst ` set d" for b d
      using that by (induction d) auto
    show ?thesis using ok False by (simp add: app cache_ok_def)
  qed
  then have "dict_get (drop (length ?d - cache_max c) ?d) k = Some ?b"
    using wf by (intro in_set_dict_get dict_wf_drop)
  then show ?thesis
    using valid by (simp add: cache_pop_def cache_put_def Let_def evict_oldest_drop)
qed

text \<open>
  the prefetch cache.  Whatever the sequence of calls, it never holds more entries
  than its bound, at most one per key and only valid reference lists; what is put under
  a key is what is popped next, cut at 500 candidates, even when older entries had to
  go; and after the invalidation of an id no entry refers to it.
\<close>
theorem candidate_cache_correct:
  assumes reach: "cache_reach m c"
  shows "cache_ok c
    \<and> (valid_cached_candidates (take MAX_CONTEXT_CANDIDATES cs) \<longrightarrow>
         fst (cache_pop k (cache_put k cs c)) = Some (take MAX_CONTEXT_CANDIDATES cs)
         \<and> fst (cache_pop k (snd (cache_pop k (cache_put k cs c)))) = None)
    \<and> (\<forall>e \<in> set (cache_entries (cache_invalidate (Some i) c)). \<forall>x \<in> set (snd e). cand_id x \<noteq> i)"
  using cache_reach_ok [OF reach] cache_put_pop
  by (auto simp: cache_invalidate_def list_ex_iff cache_pop_def dict_simps)

theorem candidate_cache_correct_witness:
  "cache_ok (cache_step (Put \<lparr>key_storage = ''s'', key_tenant = ''t'', key_subject = ''u'',
      key_workspace = None, key_agent = None, key_session = None, key_query = ''q''\<rparr>
      [\<lparr>cand_id = ''f1'', cand_origin = ''hot''\<rparr>]) (make_cache 1))"
proof -
  have "cache_reach 1 (cache_step (Put \<lparr>key_storage = ''s'', key_tenant = ''t'', key_subject = ''u'',
      key_workspace = None, key_agent = None, key_session = None, key_query = ''q''\<rparr>
      [\<lparr>cand_id = ''f1'', cand_origin = ''hot''\<rparr>]) (make_cache 1))"
    by (intro cache_reach.intros)
  from candidate_cache_correct [OF this] show ?thesis by blast
qed

subsection \<open>Projecting one node\<close>

definition estimate_context_tokens :: "string \<Rightarrow> nat" where
  "estimate_context_tokens text = (if text = [] then 0 else length text div 4 + 1)"

definition join_text :: "string option list \<Rightarrow> string \<Rightarrow> string" where
  "join_text values sep =
     py_join sep (map py_strip (filter (\<lambda>v. py_strip v \<noteq> []) (map the (filter (\<lambda>v. v \<noteq> None) values))))"

definition current_node_text :: "memory_node \<Rightarrow> string" where
  "current_node_text n =
     (let fallback = (\<lambda>t. if t \<noteq> [] then t else join_text [Some (node_name n)] '' '') in
      case body n of
        FunctionB f \<Rightarrow> join_text ([Some (node_name n), node_domain n] @ map Some (active_body f)) newline
      | FactB f \<Rightarrow> fallback (join_text [Some (subject f), Some (predicate f), Some (object_text f)] '' '')
      | PreferenceB f \<Rightarrow> fallback (join_text [Some (aspect f), Some (preference f)] '' '')
      | ObservationB f \<Rightarrow> fallback (join_text [Some (event f), Some (context_text f)] '' '')
      | ParagraphB p \<Rightarrow> (if context_historical p then [] else join_text [Some (raw_text p)] '' ''))"

text \<open>
  The Unicode categories Cc and Cf below code point 256; there are no Zl and Zp there.
\<close>

definition framing_char :: "char \<Rightarrow> bool" where
  "framing_char c = (c \<in> set ''[]|\"'' \<or> c = char_of (39 :: nat)
     \<or> (let n = (of_char c :: nat) in n < 32 \<or> 127 \<le> n \<and> n < 160 \<or> n = 173))"

record context_fragment =
  frag_id :: string
  frag_name :: string
  frag_domain :: string
  frag_source :: source_kind
  frag_context :: string
  frag_tokens :: nat

definition projected_text :: "memory_node \<Rightarrow> string" where
  "projected_text n =
     join_text [Some (join_text [Some (node_name n)] '' ''), Some (join_text [node_domain n] '' ''),
       Some (current_node_text n), Some (source_value (source_type n))] newline"

definition unsafe_framing :: "string \<Rightarrow> string \<Rightarrow> bool" where
  "unsafe_framing i projected =
     (list_ex framing_char i \<or> sublist ''[MEMORY START'' projected
      \<or> sublist ''[MEMORY END]'' projected)"

record fragment_env =
  fe_guard :: guard_env
  fe_fromiso :: iso_parser
  fe_now :: int
  fe_allow :: "memory_node \<Rightarrow> bool result"

definition current_fragment ::
  "fragment_env \<Rightarrow> (string, memory_node) dict \<Rightarrow> char risk_registry option \<Rightarrow> string
   \<Rightarrow> (context_fragment option \<times> string) \<times> char risk_registry option" where
  "current_fragment fe nodes registry i =
     (case dict_get nodes i of
        None \<Rightarrow> ((None, ''missing''), registry)
      | Some n \<Rightarrow>
          if i = [] \<or> node_id n \<noteq> i then ((None, ''missing''), registry)
          else case fe_allow fe n of
            Inl _ \<Rightarrow> ((None, ''lookup_error''), registry)
          | Inr allowed \<Rightarrow>
              if \<not> allowed then ((None, ''denied''), registry)
              else if is_fact n \<and> \<not> is_valid_at (fe_fromiso fe) (fe_now fe) n
                then ((None, ''expired''), registry)
              else if current_node_text n = [] then ((None, ''empty''), registry)
              else if unsafe_framing i (projected_text n) then ((None, ''unsafe''), registry)
              else if scan_text (fe_guard fe) (projected_text n)
                then ((None, ''unsafe''), map_option (\<lambda>reg. snd (risk_mark reg i)) registry)
              else (case wrap_for_context (fe_guard fe) (\<lambda>s. Inr (dict_get nodes s)) registry
                      [\<lparr>func_id = i, res_name = [], res_domain = [], relevance_score = 0,
                        summary = current_node_text n\<rparr>] of
                  (fragment, registry1) \<Rightarrow>
                    if fragment = [] then ((None, ''unsafe''), registry1)
                    else ((Some \<lparr>frag_id = i,
                             frag_name = join_text [Some (node_name n)] '' '',
                             frag_domain = join_text [node_domain n] '' '',
                             frag_source = source_type n, frag_context = fragment,
                             frag_tokens = estimate_context_tokens fragment\<rparr>, []), registry1)))"

subsection \<open>Assembly under a budget\<close>

fun candidate_ids :: "context_candidate list \<Rightarrow> string list \<Rightarrow> counter \<Rightarrow> string list \<times> counter" where
  "candidate_ids [] ids dropped = (ids, dropped)"
| "candidate_ids (c # cs) ids dropped =
     (if cand_id c \<in> set ids then candidate_ids cs ids (count_up ''duplicate'' dropped)
      else if MAX_CONTEXT_CANDIDATES \<le> length ids
        then candidate_ids cs ids (count_up ''candidate_limit'' dropped)
      else candidate_ids cs (ids @ [cand_id c]) dropped)"

definition separator :: string where
  "separator = newline @ newline"

fun assemble_loop ::
  "fragment_env \<Rightarrow> nat \<Rightarrow> (string, memory_node) dict \<Rightarrow> string list \<Rightarrow> string
   \<Rightarrow> context_fragment list \<Rightarrow> counter \<Rightarrow> char risk_registry option
   \<Rightarrow> string \<times> context_fragment list \<times> counter \<times> char risk_registry option" where
  "assemble_loop fe max_tokens nodes [] context frags dropped registry
     = (context, frags, dropped, registry)"
| "assemble_loop fe max_tokens nodes (i # ids) context frags dropped registry =
     (case current_fragment fe nodes registry i of
        ((None, why), registry1) \<Rightarrow>
          assemble_loop fe max_tokens nodes ids context frags (count_up why dropped) registry1
      | ((Some f, _), registry1) \<Rightarrow>
          let proposed = (if context \<noteq> [] then context @ separator @ frag_context f
                          else frag_context f)
          in if max_tokens < estimate_context_tokens proposed
             then assemble_loop fe max_tokens nodes ids context frags
                    (count_up ''budget'' dropped) registry1
             else assemble_loop fe max_tokens nodes ids proposed (frags @ [f]) dropped registry1)"

record context_assembly =
  asm_context :: string
  asm_ids :: "string list"
  asm_tokens :: nat
  asm_truncated :: bool
  asm_dropped :: counter
  asm_fragments :: "context_fragment list"

definition assemble_context ::
  "fragment_env \<Rightarrow> context_candidate list \<Rightarrow> (string list \<Rightarrow> (string, memory_node) dict result)
   \<Rightarrow> int \<Rightarrow> char risk_registry option \<Rightarrow> (context_assembly \<times> char risk_registry option) result" where
  "assemble_context fe candidates resolve max_tokens registry =
     (if max_tokens < 0 then Inl (ValueErr ''max_tokens must be non-negative'')
      else case candidate_ids candidates [] [] of (ids, dropped0) \<Rightarrow>
        bindR (if ids = [] then Inr [] else resolve ids) (\<lambda>nodes.
          case assemble_loop fe (nat max_tokens) nodes ids [] [] dropped0 registry of
            (context, frags, dropped, registry1) \<Rightarrow>
              Inr (\<lparr>asm_context = context, asm_ids = map frag_id frags,
                    asm_tokens = estimate_context_tokens context,
                    asm_truncated = (dict_default dropped ''budget'' 0 \<noteq> 0
                      \<or> dict_default dropped ''candidate_limit'' 0 \<noteq> 0),
                    asm_dropped = dropped, asm_fragments = frags\<rparr>, registry1)))"

text \<open>
  The service's entry: the nodes come from the committed snapshot, whose own reasons
  replace the generic \<open>missing\<close> of the assembly.
\<close>

definition merge_drops :: "counter \<Rightarrow> counter \<Rightarrow> counter" where
  "merge_drops base extra =
     (let less = dict_set ''missing'' (dict_default base ''missing'' 0 - total_count extra) base;
          merged = fold (\<lambda>(k, v) d. dict_set k (dict_default d k 0 + v) d) extra less
      in filter (\<lambda>(k, v). 0 < v) merged)"

definition service_assemble_context ::
  "nat \<Rightarrow> evidence_env \<Rightarrow> (memory_node \<Rightarrow> bool) \<Rightarrow> auth_context \<Rightarrow> context_reader option
   \<Rightarrow> fragment_env \<Rightarrow> context_candidate list \<Rightarrow> int \<Rightarrow> char risk_registry option
   \<Rightarrow> (context_assembly \<times> char risk_registry option) result option" where
  "service_assemble_context k ev safe c reader fe candidates max_tokens registry =
     (let ids = fst (candidate_ids candidates [] []) in
      if max_tokens < 0 \<or> ids = []
      then Some (bindR (assemble_context fe candidates (\<lambda>_. Inr []) max_tokens registry)
        (\<lambda>(a, reg). Inr (a\<lparr>asm_dropped := merge_drops (asm_dropped a) []\<rparr>, reg)))
      else case resolve_context_snapshot k ev safe c reader ids of
        None \<Rightarrow> None
      | Some (Inl e) \<Rightarrow> Some (Inl e)
      | Some (Inr (nodes, drops)) \<Rightarrow>
          Some (bindR (assemble_context fe candidates (\<lambda>_. Inr nodes) max_tokens registry)
            (\<lambda>(a, reg). let merged = merge_drops (asm_dropped a) drops in
              Inr (a\<lparr>asm_dropped := merged,
                     asm_truncated := (asm_truncated a \<or> dict_default merged ''lineage_limit'' 0 \<noteq> 0)\<rparr>,
                   reg))))"

subsection \<open>What an assembled context contains\<close>

definition fragment_ok ::
  "fragment_env \<Rightarrow> (string, memory_node) dict \<Rightarrow> context_fragment \<Rightarrow> bool" where
  "fragment_ok fe nodes f \<longleftrightarrow>
     (\<exists>n. dict_get nodes (frag_id f) = Some n \<and> node_id n = frag_id f \<and> fe_allow fe n = Inr True
        \<and> (is_fact n \<longrightarrow> is_valid_at (fe_fromiso fe) (fe_now fe) n)
        \<and> \<not> unsafe_framing (frag_id f) (projected_text n)
        \<and> \<not> scan_text (fe_guard fe) (projected_text n)
        \<and> \<not> is_suspected (fe_guard fe) n (current_node_text n)
        \<and> frag_context f = memory_block (trust_label n) (frag_id f) (current_node_text n))"

lemma memory_block_nonempty [simp]: "memory_block t i x \<noteq> []"
  by (simp add: memory_block_def)

lemma wrap_single:
  assumes "wrap_for_context g lookup registry [r] = (fragment, registry')" "fragment \<noteq> []"
  shows "\<exists>n. lookup (func_id r) = Inr (Some n) \<and> \<not> content_suspected g lookup r
    \<and> fragment = memory_block (trust_label n) (func_id r)
        (if summary r \<noteq> [] then summary r else node_name n)"
proof -
  obtain b registry1 where b: "result_is_injection_suspected g lookup registry r = (b, registry1)"
    by (metis surj_pair)
  show ?thesis
    using assms b suspected_step(1) [OF b]
    by (auto simp: wrap_for_context_def split: sum.splits option.splits if_splits)
qed

lemma current_fragment_ok:
  assumes "current_fragment fe nodes registry i = ((Some f, why), registry')"
  shows "fragment_ok fe nodes f \<and> frag_id f = i"
proof -
  obtain n where n: "dict_get nodes i = Some n" "i \<noteq> []" "node_id n = i" "fe_allow fe n = Inr True"
      "is_fact n \<longrightarrow> is_valid_at (fe_fromiso fe) (fe_now fe) n" "current_node_text n \<noteq> []"
      "\<not> unsafe_framing i (projected_text n)" "\<not> scan_text (fe_guard fe) (projected_text n)"
    and f: "frag_id f = i" "frag_context f \<noteq> []"
      "wrap_for_context (fe_guard fe) (\<lambda>s. Inr (dict_get nodes s)) registry
        [\<lparr>func_id = i, res_name = [], res_domain = [], relevance_score = 0,
          summary = current_node_text n\<rparr>] = (frag_context f, registry')"
    using assms
    by (auto simp: current_fragment_def split: option.splits sum.splits if_splits prod.splits)
  show ?thesis
    using wrap_single [OF f(3) f(2)] n f(1)
    by (auto simp: fragment_ok_def content_suspected_def)
qed

lemma py_join_snoc:
  "py_join sep (ws @ [w]) = (if ws = [] then w else py_join sep ws @ sep @ w)"
  by (induction sep ws rule: py_join.induct) auto

lemma py_join_nonempty: "\<forall>w \<in> set ws. w \<noteq> [] \<Longrightarrow> py_join sep ws = [] \<longleftrightarrow> ws = []"
  by (cases "(sep, ws)" rule: py_join.cases) auto

definition loop_ok ::
  "fragment_env \<Rightarrow> nat \<Rightarrow> (string, memory_node) dict \<Rightarrow> string \<Rightarrow> context_fragment list \<Rightarrow> bool" where
  "loop_ok fe m nodes context frags \<longleftrightarrow>
     context = py_join separator (map frag_context frags) \<and> estimate_context_tokens context \<le> m
     \<and> list_all (fragment_ok fe nodes) frags"

lemma loop_ok_add:
  assumes ok: "loop_ok fe m nodes context frags" and f: "fragment_ok fe nodes f"
    and p: "proposed = (if context \<noteq> [] then context @ separator @ frag_context f else frag_context f)"
    and fits: "estimate_context_tokens proposed \<le> m"
  shows "loop_ok fe m nodes proposed (frags @ [f])"
proof -
  have "\<forall>w \<in> set (map frag_context frags). w \<noteq> []"
    using ok by (auto simp: loop_ok_def list_all_iff fragment_ok_def)
  then have "context = [] \<longleftrightarrow> frags = []"
    using ok py_join_nonempty [of "map frag_context frags" separator] by (simp add: loop_ok_def)
  then show ?thesis
    using ok f p fits by (auto simp: loop_ok_def py_join_snoc)
qed

lemma assemble_loop_correct:
  "assemble_loop fe m nodes ids acc frags dropped registry = (acc', frags', dropped', registry')
   \<Longrightarrow> loop_ok fe m nodes acc frags
   \<Longrightarrow> loop_ok fe m nodes acc' frags'
     \<and> (\<exists>more. map frag_id frags' = map frag_id frags @ more \<and> subseq more ids)
     \<and> int (length frags') + total_count dropped' = int (length frags) + total_count dropped + int (length ids)"
proof (induction ids arbitrary: acc frags dropped registry)
  case Nil
  then show ?case by auto
next
  case (Cons i ids)
  obtain fo why registry1 where cf: "current_fragment fe nodes registry i = ((fo, why), registry1)"
    by (metis surj_pair)
  show ?case
  proof (cases fo)
    case None
    have run: "assemble_loop fe m nodes ids acc frags (count_up why dropped) registry1
        = (acc', frags', dropped', registry')"
      using Cons.prems(1) cf None by simp
    from Cons.IH [OF run Cons.prems(2)] show ?thesis by auto
  next
    case (Some f)
    have f: "fragment_ok fe nodes f" "frag_id f = i"
      using current_fragment_ok cf Some by blast+
    define proposed where "proposed =
      (if acc \<noteq> [] then acc @ separator @ frag_context f else frag_context f)"
    show ?thesis
    proof (cases "m < estimate_context_tokens proposed")
      case True
      have run: "assemble_loop fe m nodes ids acc frags (count_up ''budget'' dropped) registry1
          = (acc', frags', dropped', registry')"
        using Cons.prems(1) cf Some True by (simp add: proposed_def Let_def)
      from Cons.IH [OF run Cons.prems(2)] show ?thesis by auto
    next
      case False
      have run: "assemble_loop fe m nodes ids proposed (frags @ [f]) dropped registry1
          = (acc', frags', dropped', registry')"
        using Cons.prems(1) cf Some False by (simp add: proposed_def Let_def)
      have ok: "loop_ok fe m nodes proposed (frags @ [f])"
        using False by (intro loop_ok_add [OF Cons.prems(2) f(1) proposed_def]) simp
      from Cons.IH [OF run ok] f(2) show ?thesis by auto
    qed
  qed
qed

lemma candidate_ids_props:
  "distinct ids \<Longrightarrow> length ids \<le> MAX_CONTEXT_CANDIDATES \<Longrightarrow> candidate_ids cs ids dropped = (ids', dropped')
   \<Longrightarrow> distinct ids' \<and> length ids' \<le> MAX_CONTEXT_CANDIDATES
     \<and> set ids' \<subseteq> set ids \<union> cand_id ` set cs
     \<and> int (length ids') + total_count dropped' = int (length ids) + total_count dropped + int (length cs)"
proof (induction cs arbitrary: ids dropped)
  case Nil
  then show ?case by simp
next
  case (Cons c cs)
  show ?case
  proof (cases "cand_id c \<in> set ids \<or> MAX_CONTEXT_CANDIDATES \<le> length ids")
    case True
    then obtain why where "candidate_ids cs ids (count_up why dropped) = (ids', dropped')"
      using Cons.prems(3) by (auto split: if_splits)
    from Cons.IH [OF Cons.prems(1,2) this] show ?thesis by auto
  next
    case False
    then have run: "candidate_ids cs (ids @ [cand_id c]) dropped = (ids', dropped')"
      using Cons.prems(3) by simp
    have "distinct (ids @ [cand_id c])" "length (ids @ [cand_id c]) \<le> MAX_CONTEXT_CANDIDATES"
      using Cons.prems False by auto
    from Cons.IH [OF this run] show ?thesis by auto
  qed
qed

lemma subseq_keeps_distinct: "subseq xs ys \<Longrightarrow> distinct ys \<Longrightarrow> distinct xs \<and> set xs \<subseteq> set ys"
  by (induction rule: list_emb.induct) auto

lemma assemble_context_props:
  assumes run: "assemble_context fe candidates (\<lambda>_. Inr nodes) max_tokens registry = Inr (a, registry')"
    and nodes: "candidates \<noteq> []"
  shows "asm_tokens a = estimate_context_tokens (asm_context a) \<and> int (asm_tokens a) \<le> max_tokens
    \<and> asm_context a = py_join separator (map frag_context (asm_fragments a))
    \<and> (\<forall>f \<in> set (asm_fragments a). fragment_ok fe nodes f)
    \<and> asm_ids a = map frag_id (asm_fragments a) \<and> distinct (asm_ids a)
    \<and> set (asm_ids a) \<subseteq> cand_id ` set candidates \<and> length (asm_ids a) \<le> 500
    \<and> int (length (asm_fragments a)) + total_count (asm_dropped a) = int (length candidates)"
proof -
  obtain ids dropped0 where ids: "candidate_ids candidates [] [] = (ids, dropped0)"
    by (metis surj_pair)
  have idp: "distinct ids" "length ids \<le> 500" "set ids \<subseteq> cand_id ` set candidates"
    "int (length ids) + total_count dropped0 = int (length candidates)"
    using candidate_ids_props [OF _ _ ids]
    by (auto simp: MAX_CONTEXT_CANDIDATES_def total_count_def [of "[]"])
  have "ids \<noteq> []"
  proof -
    obtain c cs where c: "candidates = c # cs" using nodes by (cases candidates) auto
    have grow: "set acc \<subseteq> set (fst (candidate_ids xs acc dr))" for xs acc dr
      by (induction xs arbitrary: acc dr) (auto, force)
    show ?thesis using grow [of "[cand_id c]" cs "[]"] ids c
      by (auto simp: MAX_CONTEXT_CANDIDATES_def)
  qed
  then obtain cx frags dropped where
    loop: "assemble_loop fe (nat max_tokens) nodes ids [] [] dropped0 registry
      = (cx, frags, dropped, registry')" and m: "0 \<le> max_tokens"
    and a: "asm_context a = cx" "asm_fragments a = frags" "asm_dropped a = dropped"
      "asm_ids a = map frag_id frags" "asm_tokens a = estimate_context_tokens cx"
    using run ids by (auto simp: assemble_context_def split: prod.splits if_splits)
  have "loop_ok fe (nat max_tokens) nodes [] []"
    by (simp add: loop_ok_def estimate_context_tokens_def)
  from assemble_loop_correct [OF loop this]
  have ok: "loop_ok fe (nat max_tokens) nodes cx frags" and sub: "subseq (map frag_id frags) ids"
    and cnt: "int (length frags) + total_count dropped = total_count dropped0 + int (length ids)"
    by auto
  have "distinct (map frag_id frags)" "set (map frag_id frags) \<subseteq> set ids"
    using subseq_keeps_distinct [OF sub idp(1)] by blast+
  moreover have "length (map frag_id frags) \<le> length ids" by (rule list_emb_length [OF sub])
  ultimately show ?thesis
    using ok cnt idp m a by (auto simp: loop_ok_def list_all_iff)
qed

text \<open>
  C27: an assembled context.  The text fits the budget by the estimate the function
  reports, and is exactly the blocks of the accepted fragments in the order of their
  candidates, no id twice; every fragment is the current projection of the resolved node
  under its id, allowed, in force if it is a fact, free of framing characters and passed
  by the injection scan; and every candidate is either accepted or counted once.
\<close>

theorem assemble_context_correct:
  assumes run: "assemble_context fe candidates (\<lambda>_. Inr nodes) max_tokens registry = Inr (a, registry')"
    and nodes: "candidates \<noteq> []"
  shows "asm_tokens a = estimate_context_tokens (asm_context a) \<and> int (asm_tokens a) \<le> max_tokens
    \<and> asm_context a = py_join separator (map frag_context (asm_fragments a))
    \<and> (\<forall>f \<in> set (asm_fragments a). fragment_ok fe nodes f)
    \<and> asm_ids a = map frag_id (asm_fragments a) \<and> distinct (asm_ids a)
    \<and> set (asm_ids a) \<subseteq> cand_id ` set candidates \<and> length (asm_ids a) \<le> 500
    \<and> int (length (asm_fragments a)) + total_count (asm_dropped a) = int (length candidates)"
  by (rule assemble_context_props [OF run nodes])

text \<open>The run of a recall of one unknown id.\<close>

theorem assemble_context_correct_witness:
  "\<exists>a reg. assemble_context \<lparr>fe_guard = toy_guard, fe_fromiso = toy_iso, fe_now = 0,
       fe_allow = (\<lambda>_. Inr True)\<rparr> [\<lparr>cand_id = ''x'', cand_origin = ''hot''\<rparr>] (\<lambda>_. Inr []) 10 None
       = Inr (a, reg) \<and> asm_tokens a = 0 \<and> total_count (asm_dropped a) = 1"
proof -
  let ?fe = "\<lparr>fe_guard = toy_guard, fe_fromiso = toy_iso, fe_now = 0, fe_allow = (\<lambda>_. Inr True)\<rparr>"
  let ?c = "[\<lparr>cand_id = ''x'', cand_origin = ''hot''\<rparr>]"
  obtain a where a: "assemble_context ?fe ?c (\<lambda>_. Inr []) 10 None = Inr (a, None)"
    "asm_context a = []" "asm_fragments a = []"
    by (simp add: assemble_context_def MAX_CONTEXT_CANDIDATES_def current_fragment_def)
  have "?c \<noteq> []" by simp
  from assemble_context_correct [OF a(1) this] a show ?thesis
    by (auto simp: estimate_context_tokens_def)
qed

lemma snapshot_check_mono:
  "snapshot_check k ev sn cache n l = Some r \<Longrightarrow> k \<le> j \<Longrightarrow> snapshot_check j ev sn cache n l = Some r"
  by (auto simp: snapshot_check_def intro: run_loop_mono split: option.splits)

lemma resolve_loop_mono:
  "resolve_loop k ev safe sn ids cache cl nodes dropped = Some r \<Longrightarrow> k \<le> j
   \<Longrightarrow> resolve_loop j ev safe sn ids cache cl nodes dropped = Some r"
proof (induction ids arbitrary: cache cl nodes dropped)
  case Nil
  then show ?case by simp
next
  case (Cons i ids)
  obtain found cl1 where get: "snap_lookup sn (cl\<lparr>cl_failure := []\<rparr>) i = (found, cl1)"
    by (metis surj_pair)
  show ?case
  proof (cases "\<exists>n. found = Inr (Some n)")
    case False
    then have "(\<exists>e. found = Inl e) \<or> found = Inr None"
      by (metis not_Some_eq old.sum.exhaust)
    then show ?thesis using Cons get by auto
  next
    case True
    then obtain n where n: "found = Inr (Some n)" by blast
    obtain v cache1 cl2 where "snapshot_check k ev sn cache n cl1 = Some (v, cache1, cl2)"
      using Cons.prems(1) get n by (auto split: option.splits)
    with snapshot_check_mono [OF this Cons.prems(2)] Cons get n show ?thesis
      by (cases v) (auto split: if_splits)
  qed
qed

lemma resolve_snapshot_mono:
  "resolve_context_snapshot k ev safe c reader ids = Some r \<Longrightarrow> k \<le> j
   \<Longrightarrow> resolve_context_snapshot j ev safe c reader ids = Some r"
  by (auto simp: resolve_context_snapshot_def Let_def dest: resolve_loop_mono
      split: option.splits if_splits sum.splits)

lemma resolve_snapshot_sound:
  assumes rows: "reader_of reader rows" "finite (dom rows)"
    and run: "resolve_context_snapshot k ev safe c (Some reader) ids = Some (Inr (nodes, drops))"
  shows "\<forall>(i, n) \<in> set nodes. row_node rows i = Some n \<and> safe n
          \<and> is_node_in_scope n c \<and> lineage_ok ev c (row_node rows) source_ids n"
proof (cases "collect_ids ids [] = []")
  case True
  then show ?thesis using run by (simp add: resolve_context_snapshot_def)
next
  case False
  obtain d where d: "reader (collect_ids ids []) = Inr d"
    using run False
    by (cases "reader (collect_ids ids [])")
      (auto simp: resolve_context_snapshot_def make_committed_def Let_def)
  obtain k0 nodes0 dropped0 where
    total: "\<forall>j \<ge> k0. resolve_context_snapshot j ev safe c (Some reader) ids = Some (Inr (nodes0, dropped0))"
    and ok: "\<forall>(i, n) \<in> set nodes0. i \<in> set ids \<and> row_node rows i = Some n \<and> safe n
          \<and> is_node_in_scope n c \<and> lineage_ok ev c (row_node rows) source_ids n"
    using resolve_snapshot_total [OF rows d, of ev safe c] by blast
  have "resolve_context_snapshot (max k k0) ev safe c (Some reader) ids = Some (Inr (nodes, drops))"
    by (rule resolve_snapshot_mono [OF run]) simp
  moreover have "resolve_context_snapshot (max k k0) ev safe c (Some reader) ids
      = Some (Inr (nodes0, dropped0))" using total by simp
  ultimately have "nodes = nodes0" by simp
  with ok show ?thesis by auto
qed

text \<open>
  C12: no recall leaks.  Whatever the candidates, if the service assembles a context for a
  caller over a finite committed snapshot, then every fragment is the block of a committed
  node under its own id that is in the caller's scope, visible with its whole lineage,
  judged safe by the snapshot, let through by the filter of the host, in force if it is a
  fact and free of framing text and of suspected injections; and the text is exactly these
  blocks within the budget.
\<close>

theorem service_context_only_visible:
  assumes rows: "reader_of reader rows" "finite (dom rows)"
    and run: "service_assemble_context k ev safe c (Some reader) fe candidates max_tokens registry
      = Some (Inr (a, registry'))"
  shows "(\<forall>f \<in> set (asm_fragments a). \<exists>n. row_node rows (frag_id f) = Some n
        \<and> is_node_in_scope n c \<and> lineage_ok ev c (row_node rows) source_ids n \<and> safe n
        \<and> fe_allow fe n = Inr True \<and> (is_fact n \<longrightarrow> is_valid_at (fe_fromiso fe) (fe_now fe) n)
        \<and> \<not> unsafe_framing (frag_id f) (projected_text n) \<and> \<not> scan_text (fe_guard fe) (projected_text n)
        \<and> \<not> is_suspected (fe_guard fe) n (current_node_text n)
        \<and> frag_context f = memory_block (trust_label n) (frag_id f) (current_node_text n))
    \<and> asm_context a = py_join separator (map frag_context (asm_fragments a))
    \<and> int (estimate_context_tokens (asm_context a)) \<le> max_tokens"
proof (cases "fst (candidate_ids candidates [] []) = []")
  case True
  then show ?thesis
    using run
    by (auto simp: service_assemble_context_def assemble_context_def estimate_context_tokens_def
        split: prod.splits if_splits)
next
  case False
  let ?ids = "fst (candidate_ids candidates [] [])"
  obtain nodes drops where res: "resolve_context_snapshot k ev safe c (Some reader) ?ids
        = Some (Inr (nodes, drops))" and m: "0 \<le> max_tokens"
    and asm: "\<exists>a0. assemble_context fe candidates (\<lambda>_. Inr nodes) max_tokens registry = Inr (a0, registry')
      \<and> asm_fragments a = asm_fragments a0 \<and> asm_context a = asm_context a0"
    using run False
    by (auto simp: service_assemble_context_def assemble_context_def Let_def
        split: option.splits sum.splits prod.splits if_splits)
  have ids: "candidates \<noteq> []" using False by auto
  have vis: "row_node rows i = Some n \<and> is_node_in_scope n c \<and> lineage_ok ev c (row_node rows) source_ids n
      \<and> safe n" if "(i, n) \<in> set nodes" for i n
    using resolve_snapshot_sound [OF rows res] that by blast
  obtain a0 where a0: "assemble_context fe candidates (\<lambda>_. Inr nodes) max_tokens registry = Inr (a0, registry')"
    "asm_fragments a = asm_fragments a0" "asm_context a = asm_context a0"
    using asm by blast
  note p = assemble_context_props [OF a0(1) ids]
  have "\<exists>n. row_node rows (frag_id f) = Some n \<and> is_node_in_scope n c
        \<and> lineage_ok ev c (row_node rows) source_ids n \<and> safe n
        \<and> fe_allow fe n = Inr True \<and> (is_fact n \<longrightarrow> is_valid_at (fe_fromiso fe) (fe_now fe) n)
        \<and> \<not> unsafe_framing (frag_id f) (projected_text n) \<and> \<not> scan_text (fe_guard fe) (projected_text n)
        \<and> \<not> is_suspected (fe_guard fe) n (current_node_text n)
        \<and> frag_context f = memory_block (trust_label n) (frag_id f) (current_node_text n)"
    if f: "f \<in> set (asm_fragments a)" for f
  proof -
    have "fragment_ok fe nodes f" using p f a0 by simp
    then obtain n where n: "dict_get nodes (frag_id f) = Some n" "fe_allow fe n = Inr True"
      "is_fact n \<longrightarrow> is_valid_at (fe_fromiso fe) (fe_now fe) n"
      "\<not> unsafe_framing (frag_id f) (projected_text n)" "\<not> scan_text (fe_guard fe) (projected_text n)"
      "\<not> is_suspected (fe_guard fe) n (current_node_text n)"
      "frag_context f = memory_block (trust_label n) (frag_id f) (current_node_text n)"
      by (auto simp: fragment_ok_def)
    show ?thesis using vis [OF dict_get_in_set [OF n(1)]] n(2-) by blast
  qed
  moreover have "int (estimate_context_tokens (asm_context a)) \<le> max_tokens"
    using p a0(3) by metis
  moreover have "asm_context a = py_join separator (map frag_context (asm_fragments a))"
    using p a0(2,3) by metis
  ultimately show ?thesis by blast
qed

theorem service_context_only_visible_witness:
  "\<exists>k a reg. service_assemble_context k plain_evidence (\<lambda>_. True) t1_context (Some t1_reader)
      \<lparr>fe_guard = toy_guard, fe_fromiso = toy_iso, fe_now = 0, fe_allow = (\<lambda>_. Inr True)\<rparr>
      [\<lparr>cand_id = ''f1'', cand_origin = ''hot''\<rparr>] 100 None = Some (Inr (a, reg))
    \<and> (\<forall>f \<in> set (asm_fragments a). frag_id f = ''f1'')"
proof -
  let ?fe = "\<lparr>fe_guard = toy_guard, fe_fromiso = toy_iso, fe_now = 0, fe_allow = (\<lambda>_. Inr True)\<rparr>"
  let ?c = "[\<lparr>cand_id = ''f1'', cand_origin = ''hot''\<rparr>]"
  let ?rows = "[''f1'' \<mapsto> NodeRow sample_node]"
  have rows: "reader_of t1_reader ?rows"
    by (auto simp: reader_of_def t1_reader_def split: if_splits)
  have fin: "finite (dom ?rows)" by simp
  obtain d where d: "t1_reader (collect_ids [''f1''] []) = Inr d" by (simp add: t1_reader_def)
  obtain k nodes drops where
    res: "resolve_context_snapshot k plain_evidence (\<lambda>_. True) t1_context (Some t1_reader) [''f1'']
      = Some (Inr (nodes, drops))"
    using resolve_snapshot_total [OF rows fin d, of plain_evidence "\<lambda>_. True" t1_context]
    by blast
  have ids: "candidate_ids ?c [] [] = ([''f1''], [])" by (simp add: MAX_CONTEXT_CANDIDATES_def)
  obtain a reg where run: "service_assemble_context k plain_evidence (\<lambda>_. True) t1_context
      (Some t1_reader) ?fe ?c 100 None = Some (Inr (a, reg))"
  proof -
    obtain cx frags dr rg where
      loop: "assemble_loop ?fe 100 nodes [''f1''] [] [] [] None = (cx, frags, dr, rg)"
      by (metis prod_cases4)
    show thesis
      using res ids loop
      by (intro that)
        (simp add: service_assemble_context_def assemble_context_def Let_def
          del: assemble_loop.simps candidate_ids.simps)
  qed
  from service_context_only_visible [OF rows fin run]
  have "\<forall>f \<in> set (asm_fragments a). frag_id f = ''f1''"
    by (auto simp: row_node_def split: if_splits)
  with run show ?thesis by blast
qed

end
