(* ===== verification/Working_Memory.thy ===== *)
theory Working_Memory
  imports Prelude
begin

section \<open>Working memory\<close>

text \<open>
  \<^verbatim>\<open>memplex/working_memory.py\<close>: the hot tier, two containers (legacy text entries and
  source references) under one capacity, with expiry, pinning and eviction of the
  oldest unpinned item.  The monotonic clock is an argument of each call, in
  microseconds; the lock makes every call one step.
\<close>

subsection \<open>State\<close>

record wm_entry =
  we_content :: string
  we_category :: string
  we_pinned :: bool
  we_expires :: "int option"
  we_created :: int
  we_owner :: "string option"
  we_workspace :: "string option"
  we_visibility :: string

record wm_reference =
  wr_memory_id :: string
  wr_ttl :: int
  wr_pinned :: bool
  wr_expires :: "int option"
  wr_sequence :: nat

type_synonym ref_key = "string \<times> string \<times> string"

record working_memory =
  wm_max :: nat
  wm_default_ttl :: int
  wm_entries :: "(string, wm_entry) dict"
  wm_sequences :: "(string, nat) dict"
  wm_references :: "(ref_key, wm_reference) dict"
  wm_counter :: nat

definition make_wm :: "int \<Rightarrow> int \<Rightarrow> working_memory" where
  "make_wm max_entries default_ttl =
     \<lparr>wm_max = nat (max 1 max_entries), wm_default_ttl = default_ttl, wm_entries = [],
      wm_sequences = [], wm_references = [], wm_counter = 0\<rparr>"

subsection \<open>Expiry and room\<close>

definition live :: "int \<Rightarrow> int option \<Rightarrow> bool" where
  "live now expires = (case expires of None \<Rightarrow> True | Some e \<Rightarrow> now < e)"

text \<open>Expired keys leave the container and, for entries, the table of sequences.\<close>

definition prune :: "int \<Rightarrow> working_memory \<Rightarrow> working_memory" where
  "prune now wm =
     (let gone = map fst (filter (\<lambda>(k, e). \<not> live now (we_expires e)) (wm_entries wm)) in
      wm\<lparr>wm_entries := filter (\<lambda>(k, e). live now (we_expires e)) (wm_entries wm),
         wm_sequences := filter (\<lambda>(k, s). k \<notin> set gone) (wm_sequences wm),
         wm_references := filter (\<lambda>(k, r). live now (wr_expires r)) (wm_references wm)\<rparr>)"

definition wm_size :: "working_memory \<Rightarrow> nat" where
  "wm_size wm = length (wm_entries wm) + length (wm_references wm)"

definition sequence_of :: "working_memory \<Rightarrow> string \<Rightarrow> nat" where
  "sequence_of wm k = dict_default (wm_sequences wm) k 0"

definition oldest_entry :: "working_memory \<Rightarrow> string option" where
  "oldest_entry wm =
     first_min (sequence_of wm) (map fst (filter (\<lambda>(k, e). \<not> we_pinned e) (wm_entries wm)))"

definition oldest_reference :: "working_memory \<Rightarrow> (ref_key \<times> wm_reference) option" where
  "oldest_reference wm =
     first_min (\<lambda>(k, r). wr_sequence r) (filter (\<lambda>(k, r). \<not> wr_pinned r) (wm_references wm))"

definition drop_entry :: "string \<Rightarrow> working_memory \<Rightarrow> working_memory" where
  "drop_entry k wm =
     wm\<lparr>wm_entries := dict_pop k (wm_entries wm), wm_sequences := dict_pop k (wm_sequences wm)\<rparr>"

definition make_room :: "working_memory \<Rightarrow> bool \<times> working_memory" where
  "make_room wm =
     (if wm_size wm < wm_max wm then (True, wm)
      else case (oldest_entry wm, oldest_reference wm) of
        (None, None) \<Rightarrow> (False, wm)
      | (None, Some (rk, r)) \<Rightarrow> (True, wm\<lparr>wm_references := dict_pop rk (wm_references wm)\<rparr>)
      | (Some ek, None) \<Rightarrow> (True, drop_entry ek wm)
      | (Some ek, Some (rk, r)) \<Rightarrow>
          if wr_sequence r < sequence_of wm ek
          then (True, wm\<lparr>wm_references := dict_pop rk (wm_references wm)\<rparr>)
          else (True, drop_entry ek wm))"

subsection \<open>Legacy entries\<close>

definition scoped_key :: "string \<Rightarrow> string option \<Rightarrow> string" where
  "scoped_key key scope = (if truthy scope then the scope @ ''::'' @ key else key)"

definition nonempty :: "string option \<Rightarrow> string option" where
  "nonempty s = (if truthy s then s else None)"

definition wm_add ::
  "int \<Rightarrow> string \<Rightarrow> string \<Rightarrow> string \<Rightarrow> int option \<Rightarrow> bool \<Rightarrow> string option \<Rightarrow> string option
   \<Rightarrow> string option \<Rightarrow> string \<Rightarrow> working_memory \<Rightarrow> working_memory" where
  "wm_add now key content category ttl pinned scope owner workspace vis wm =
     (if key = [] \<or> content = [] then wm
      else
        let k = scoped_key key scope;
            ttl' = (case ttl of None \<Rightarrow> wm_default_ttl wm | Some t \<Rightarrow> t);
            entry = \<lparr>we_content = content, we_category = category, we_pinned = pinned,
              we_expires = (if pinned then None else Some (now + max 0 ttl')), we_created = now,
              we_owner = nonempty owner, we_workspace = nonempty workspace,
              we_visibility = (if vis \<in> {''tenant'', ''workspace'', ''private''} then vis else ''tenant'')\<rparr>;
            wm1 = prune now wm;
            (room, wm2) = (if has_key (wm_entries wm1) k then (True, wm1) else make_room wm1)
        in if \<not> room then wm2
           else wm2\<lparr>wm_entries := dict_set k entry (wm_entries wm2),
                    wm_sequences := dict_set k (wm_counter wm2 + 1) (wm_sequences wm2),
                    wm_counter := wm_counter wm2 + 1\<rparr>)"

definition wm_pin :: "string \<Rightarrow> working_memory \<Rightarrow> bool \<times> working_memory" where
  "wm_pin key wm =
     (case dict_get (wm_entries wm) key of
        None \<Rightarrow> (False, wm)
      | Some e \<Rightarrow> (True, wm\<lparr>wm_entries :=
          dict_set key (e\<lparr>we_pinned := True, we_expires := None\<rparr>) (wm_entries wm)\<rparr>))"

definition wm_unpin :: "int \<Rightarrow> string \<Rightarrow> int option \<Rightarrow> working_memory \<Rightarrow> bool \<times> working_memory" where
  "wm_unpin now key ttl wm =
     (case dict_get (wm_entries wm) key of
        None \<Rightarrow> (False, wm)
      | Some e \<Rightarrow>
          let ttl' = (case ttl of None \<Rightarrow> wm_default_ttl wm | Some t \<Rightarrow> t) in
          (True, wm\<lparr>wm_entries := dict_set key
             (e\<lparr>we_pinned := False, we_expires := Some (now + max 0 ttl')\<rparr>) (wm_entries wm)\<rparr>))"

definition wm_remove :: "string \<Rightarrow> working_memory \<Rightarrow> bool \<times> working_memory" where
  "wm_remove key wm = (has_key (wm_entries wm) key, drop_entry key wm)"

definition wm_clear :: "working_memory \<Rightarrow> working_memory" where
  "wm_clear wm = wm\<lparr>wm_entries := [], wm_sequences := [], wm_references := []\<rparr>"

subsection \<open>References\<close>

definition add_reference ::
  "int \<Rightarrow> string \<Rightarrow> string \<Rightarrow> string \<Rightarrow> bool \<Rightarrow> int option \<Rightarrow> working_memory
   \<Rightarrow> bool \<times> working_memory" where
  "add_reference now memory_id storage tenant pinned ttl wm =
     (if memory_id = [] \<or> storage = [] \<or> tenant = [] then (False, wm)
      else
        let k = (storage, tenant, memory_id);
            ttl' = max 0 (case ttl of None \<Rightarrow> wm_default_ttl wm | Some t \<Rightarrow> t);
            wm1 = prune now wm;
            (room, wm2) = (if has_key (wm_references wm1) k then (True, wm1) else make_room wm1)
        in if \<not> room then (False, wm2)
           else (True, wm2\<lparr>wm_references := dict_set k
                  \<lparr>wr_memory_id = memory_id, wr_ttl = ttl', wr_pinned = pinned,
                   wr_expires = (if pinned then None else Some (now + ttl')),
                   wr_sequence = wm_counter wm2 + 1\<rparr> (wm_references wm2),
                  wm_counter := wm_counter wm2 + 1\<rparr>))"

definition recall_references ::
  "int \<Rightarrow> string \<Rightarrow> string \<Rightarrow> int \<Rightarrow> working_memory \<Rightarrow> string list \<times> working_memory" where
  "recall_references now storage tenant limit wm =
     (let wm1 = prune now wm;
          refs = map snd (filter (\<lambda>(k, r). fst k = storage \<and> fst (snd k) = tenant) (wm_references wm1))
      in (map wr_memory_id (take (nat (max 0 limit)) (sort_desc wr_sequence refs)), wm1))"

definition remove_reference :: "string \<Rightarrow> string \<Rightarrow> string \<Rightarrow> working_memory \<Rightarrow> bool \<times> working_memory" where
  "remove_reference memory_id storage tenant wm =
     (let k = (storage, tenant, memory_id) in
      (has_key (wm_references wm) k, wm\<lparr>wm_references := dict_pop k (wm_references wm)\<rparr>))"

definition set_reference_pinned ::
  "int \<Rightarrow> string \<Rightarrow> string \<Rightarrow> string \<Rightarrow> bool \<Rightarrow> int option \<Rightarrow> working_memory
   \<Rightarrow> bool \<times> working_memory" where
  "set_reference_pinned now memory_id storage tenant pinned ttl wm =
     (let wm1 = prune now wm; k = (storage, tenant, memory_id) in
      case dict_get (wm_references wm1) k of
        None \<Rightarrow> (False, wm1)
      | Some r \<Rightarrow>
          let ttl' = (case ttl of None \<Rightarrow> wr_ttl r | Some t \<Rightarrow> max 0 t) in
          (True, wm1\<lparr>wm_references := dict_set k
             (r\<lparr>wr_ttl := ttl', wr_pinned := pinned,
                wr_expires := (if pinned then None else Some (now + ttl'))\<rparr>) (wm_references wm1)\<rparr>))"

subsection \<open>Recall of entries\<close>

definition in_scope_key :: "string option \<Rightarrow> string \<Rightarrow> bool" where
  "in_scope_key scope key =
     (if truthy scope
      then (let p = the scope @ ''::'' in
            prefix p key \<and> \<not> sublist ''::'' (drop (length p) key))
      else \<not> sublist ''::'' key)"

definition recall_context ::
  "int \<Rightarrow> int \<Rightarrow> string option \<Rightarrow> (wm_entry \<Rightarrow> bool) option \<Rightarrow> working_memory
   \<Rightarrow> string list \<times> working_memory" where
  "recall_context now limit scope acl wm =
     (let wm1 = prune now wm;
          scoped = sort_desc we_created
            (map snd (filter (\<lambda>(k, e). in_scope_key scope k) (wm_entries wm1)));
          admitted = (case acl of None \<Rightarrow> scoped | Some f \<Rightarrow> filter f scoped)
      in (map we_content (take (nat (max 0 limit)) admitted), wm1))"

definition wm_len :: "int \<Rightarrow> working_memory \<Rightarrow> nat \<times> working_memory" where
  "wm_len now wm = (let wm1 = prune now wm in (wm_size wm1, wm1))"

subsection \<open>The invariant\<close>

text \<open>
  Every entry has its sequence number; numbers come from the counter; the two containers
  together stay within the cap; only pinned items have no deadline.
\<close>

definition entries_ok :: "nat \<Rightarrow> (string, wm_entry) dict \<Rightarrow> (string, nat) dict \<Rightarrow> bool" where
  "entries_ok c es ss \<longleftrightarrow> dict_wf es \<and> dict_wf ss \<and> fst ` set es = fst ` set ss
     \<and> (\<forall>p \<in> set ss. snd p \<le> c)
     \<and> (\<forall>p \<in> set es. we_pinned (snd p) \<longleftrightarrow> we_expires (snd p) = None)"

definition references_ok :: "nat \<Rightarrow> (ref_key, wm_reference) dict \<Rightarrow> bool" where
  "references_ok c rs \<longleftrightarrow> dict_wf rs
     \<and> (\<forall>p \<in> set rs. wr_sequence (snd p) \<le> c \<and> snd (snd (fst p)) = wr_memory_id (snd p)
          \<and> (wr_pinned (snd p) \<longleftrightarrow> wr_expires (snd p) = None))"

definition wm_ok :: "working_memory \<Rightarrow> bool" where
  "wm_ok wm \<longleftrightarrow> 1 \<le> wm_max wm \<and> wm_size wm \<le> wm_max wm
     \<and> entries_ok (wm_counter wm) (wm_entries wm) (wm_sequences wm)
     \<and> references_ok (wm_counter wm) (wm_references wm)"

datatype wm_op =
    Add string string string "int option" bool "string option" "string option" "string option" string
  | Pin string
  | Unpin string "int option"
  | Remove string
  | Clear
  | AddRef string string string bool "int option"
  | RemoveRef string string string
  | PinRef string string string bool "int option"
  | Recall "string option"
  | RecallRefs string string

fun wm_step :: "int \<Rightarrow> wm_op \<Rightarrow> working_memory \<Rightarrow> working_memory" where
  "wm_step now (Add k c cat ttl p sc ow ws vis) wm = wm_add now k c cat ttl p sc ow ws vis wm"
| "wm_step now (Pin k) wm = snd (wm_pin k wm)"
| "wm_step now (Unpin k ttl) wm = snd (wm_unpin now k ttl wm)"
| "wm_step now (Remove k) wm = snd (wm_remove k wm)"
| "wm_step now Clear wm = wm_clear wm"
| "wm_step now (AddRef i st tn p ttl) wm = snd (add_reference now i st tn p ttl wm)"
| "wm_step now (RemoveRef i st tn) wm = snd (remove_reference i st tn wm)"
| "wm_step now (PinRef i st tn p ttl) wm = snd (set_reference_pinned now i st tn p ttl wm)"
| "wm_step now (Recall sc) wm = snd (recall_context now 8 sc None wm)"
| "wm_step now (RecallRefs st tn) wm = snd (recall_references now st tn 8 wm)"

inductive wm_reach :: "int \<Rightarrow> int \<Rightarrow> working_memory \<Rightarrow> bool" for m ttl where
  fresh: "wm_reach m ttl (make_wm m ttl)"
| step: "wm_reach m ttl wm \<Longrightarrow> wm_reach m ttl (wm_step now op wm)"

subsection \<open>The invariant is kept\<close>

lemma dict_wf_filter: "dict_wf d \<Longrightarrow> dict_wf (filter P d)"
  by (simp add: distinct_map_filter)

lemma keys_dict_set: "fst ` set (dict_set k v d) = insert k (fst ` set d)"
  by (simp add: dom_update)

lemma keys_dict_pop: "fst ` set (dict_pop k d) = fst ` set d - {k}"
  by (auto simp: set_dict_pop)

lemma length_dict_pop_less: "k \<in> fst ` set d \<Longrightarrow> length (dict_pop k d) < length d"
proof (induction d)
  case Nil
  then show ?case by simp
next
  case (Cons p d)
  then show ?case using length_dict_pop_le [of k d]
    by (cases p; cases "fst p = k") (simp_all add: less_Suc_eq_le)
qed

lemma filtered_size: "length (filter P xs) + length (filter Q ys) \<le> length xs + length ys"
  by (intro add_mono length_filter_le)

lemma references_ok_filter: "references_ok c rs \<Longrightarrow> references_ok c (filter P rs)"
  by (auto simp: references_ok_def dict_wf_filter)

lemma references_ok_pop: "references_ok c rs \<Longrightarrow> references_ok c (dict_pop k rs)"
  by (auto simp: references_ok_def set_dict_pop intro: dict_wf_pop)

lemma references_ok_set:
  assumes "references_ok c rs" "c \<le> c'" "wr_sequence r \<le> c'" "snd (snd k) = wr_memory_id r"
    "wr_pinned r \<longleftrightarrow> wr_expires r = None"
  shows "references_ok c' (dict_set k r rs)"
  using assms set_dict_set [of rs k r]
  by (auto simp: references_ok_def intro: dict_wf_set)

lemma entries_ok_pop:
  assumes ok: "entries_ok c es ss" shows "entries_ok c (dict_pop k es) (dict_pop k ss)"
proof -
  have "fst ` set (dict_pop k es) = fst ` set (dict_pop k ss)"
    using ok by (simp only: keys_dict_pop entries_ok_def)
  then show ?thesis using ok unfolding entries_ok_def by (simp add: set_dict_pop dict_wf_pop)
qed

lemma entries_ok_set:
  assumes "entries_ok c es ss" "c \<le> c'" "n \<le> c'" "we_pinned e \<longleftrightarrow> we_expires e = None"
  shows "entries_ok c' (dict_set k e es) (dict_set k n ss)"
  using assms set_dict_set [of es k e] set_dict_set [of ss k n] unfolding entries_ok_def
  by (auto simp: keys_dict_set intro: dict_wf_set)

lemma entries_ok_update:
  assumes "entries_ok c es ss" "k \<in> fst ` set es" "we_pinned e \<longleftrightarrow> we_expires e = None"
  shows "entries_ok c (dict_set k e es) ss"
proof -
  have "fst ` set (dict_set k e es) = fst ` set es" using assms(2) by (simp add: keys_dict_set insert_absorb)
  then show ?thesis
    using assms set_dict_set [of es k e] unfolding entries_ok_def by (auto intro: dict_wf_set)
qed

lemma entries_ok_prune:
  assumes ok: "entries_ok c es ss"
  shows "entries_ok c (filter (\<lambda>(k, e). P e) es)
    (filter (\<lambda>(k, s). k \<notin> set (map fst (filter (\<lambda>(k, e). \<not> P e) es))) ss)"
proof -
  let ?live = "filter (\<lambda>(k, e). P e) es"
  let ?gone = "set (map fst (filter (\<lambda>(k, e). \<not> P e) es))"
  have wf: "dict_wf es" and dom: "fst ` set es = fst ` set ss"
    using ok by (auto simp: entries_ok_def)
  have uniq: "e = e'" if "(k, e) \<in> set es" "(k, e') \<in> set es" for k e e'
    using that wf by (simp add: eq_key_imp_eq_value)
  have "fst ` set ?live = fst ` set es - ?gone"
  proof (intro equalityI subsetI)
    fix k assume "k \<in> fst ` set ?live"
    then obtain e where e: "(k, e) \<in> set es" "P e" by auto
    moreover have "k \<notin> ?gone"
    proof
      assume "k \<in> ?gone"
      then obtain e' where "(k, e') \<in> set es" "\<not> P e'" by auto
      with uniq e show False by metis
    qed
    ultimately show "k \<in> fst ` set es - ?gone" by force
  next
    fix k assume k: "k \<in> fst ` set es - ?gone"
    then obtain e where e: "(k, e) \<in> set es" by auto
    with k have "P e" by force
    with e show "k \<in> fst ` set ?live" by force
  qed
  moreover have "fst ` set (filter (\<lambda>(k, s). k \<notin> ?gone) ss) = fst ` set ss - ?gone" by force
  ultimately have "fst ` set ?live = fst ` set (filter (\<lambda>(k, s). k \<notin> ?gone) ss)"
    using dom by simp
  then show ?thesis using ok unfolding entries_ok_def by (simp add: dict_wf_filter)
qed

lemma prune_ok [keeps]: "wm_ok wm \<Longrightarrow> wm_ok (prune now wm)"
  using filtered_size [of "\<lambda>(k, e). live now (we_expires e)" "wm_entries wm"
      "\<lambda>(k, r). live now (wr_expires r)" "wm_references wm"]
    entries_ok_prune [of "wm_counter wm" "wm_entries wm" "wm_sequences wm" "\<lambda>e. live now (we_expires e)"]
  by (simp add: wm_ok_def prune_def wm_size_def Let_def references_ok_filter)

lemma drop_entry_ok: "wm_ok wm \<Longrightarrow> wm_ok (drop_entry k wm)"
  using length_dict_pop_le [of k "wm_entries wm"]
  by (simp add: wm_ok_def drop_entry_def wm_size_def entries_ok_pop)

lemma drop_reference_ok: "wm_ok wm \<Longrightarrow> wm_ok (wm\<lparr>wm_references := dict_pop k (wm_references wm)\<rparr>)"
  using length_dict_pop_le [of k "wm_references wm"]
  by (simp add: wm_ok_def wm_size_def references_ok_pop)

lemma oldest_entry_Some:
  "oldest_entry wm = Some k \<Longrightarrow> \<exists>e. (k, e) \<in> set (wm_entries wm) \<and> \<not> we_pinned e
   \<and> (\<forall>(k', e') \<in> set (wm_entries wm). \<not> we_pinned e' \<longrightarrow> sequence_of wm k \<le> sequence_of wm k')"
  by (auto simp: oldest_entry_def dest!: first_min_Some) fastforce+

lemma oldest_reference_Some:
  "oldest_reference wm = Some (k, r) \<Longrightarrow> (k, r) \<in> set (wm_references wm) \<and> \<not> wr_pinned r
   \<and> (\<forall>(k', r') \<in> set (wm_references wm). \<not> wr_pinned r' \<longrightarrow> wr_sequence r \<le> wr_sequence r')"
  by (auto simp: oldest_reference_def dest!: first_min_Some) 

lemma oldest_None:
  "oldest_entry wm = None \<longleftrightarrow> (\<forall>(k, e) \<in> set (wm_entries wm). we_pinned e)"
  "oldest_reference wm = None \<longleftrightarrow> (\<forall>(k, r) \<in> set (wm_references wm). wr_pinned r)"
  by (auto simp: oldest_entry_def oldest_reference_def filter_empty_conv)

lemma make_room_size:
  assumes ok: "wm_ok wm" and room: "make_room wm = (True, wm')"
  shows "wm_size wm' < wm_max wm"
proof -
  have pos: "0 < wm_max wm" and sz: "wm_size wm \<le> wm_max wm"
    using ok by (auto simp: wm_ok_def)
  have entry: "wm_size (drop_entry k wm) < wm_max wm" if "oldest_entry wm = Some k" for k
  proof -
    have "k \<in> fst ` set (wm_entries wm)" using oldest_entry_Some [OF that] by force
    from length_dict_pop_less [OF this] sz show ?thesis
      by (simp add: wm_size_def drop_entry_def)
  qed
  have reference: "wm_size (wm\<lparr>wm_references := dict_pop k (wm_references wm)\<rparr>) < wm_max wm"
    if "oldest_reference wm = Some (k, r)" for k r
  proof -
    have "k \<in> fst ` set (wm_references wm)" using oldest_reference_Some [OF that] by force
    from length_dict_pop_less [OF this] sz show ?thesis by (simp add: wm_size_def)
  qed
  show ?thesis
    using room entry reference
    by (auto simp: make_room_def split: if_splits option.splits)
qed

lemma make_room_ok [keeps]: "wm_ok wm \<Longrightarrow> wm_ok (snd (make_room wm))"
  by (auto simp: make_room_def intro: drop_entry_ok drop_reference_ok split: option.splits)

lemma make_room_frame:
  "wm_max (snd (make_room wm)) = wm_max wm" "wm_counter (snd (make_room wm)) = wm_counter wm"
  by (auto simp: make_room_def drop_entry_def split: option.splits)

lemma store_entry_ok:
  assumes ok: "wm_ok wm" and room: "has_key (wm_entries wm) k \<or> wm_size wm < wm_max wm"
    and e: "we_pinned e \<longleftrightarrow> we_expires e = None"
  shows "wm_ok (wm\<lparr>wm_entries := dict_set k e (wm_entries wm),
      wm_sequences := dict_set k (wm_counter wm + 1) (wm_sequences wm),
      wm_counter := wm_counter wm + 1\<rparr>)"
proof -
  have "references_ok (wm_counter wm + 1) (wm_references wm)"
    using ok by (auto simp: wm_ok_def references_ok_def)
  then show ?thesis
    using ok room e
    by (auto simp: wm_ok_def wm_size_def length_dict_set has_key_iff intro!: entries_ok_set)
qed

lemma store_reference_ok:
  assumes ok: "wm_ok wm" and room: "has_key (wm_references wm) k \<or> wm_size wm < wm_max wm"
    and r: "wr_pinned r \<longleftrightarrow> wr_expires r = None" "wr_sequence r = wm_counter wm + 1"
      "snd (snd k) = wr_memory_id r"
  shows "wm_ok (wm\<lparr>wm_references := dict_set k r (wm_references wm), wm_counter := wm_counter wm + 1\<rparr>)"
proof -
  have "entries_ok (wm_counter wm + 1) (wm_entries wm) (wm_sequences wm)"
    using ok by (auto simp: wm_ok_def entries_ok_def)
  then show ?thesis
    using ok room r
    by (auto simp: wm_ok_def wm_size_def length_dict_set has_key_iff intro!: references_ok_set)
qed

lemma room_after:
  assumes ok: "wm_ok wm" and r: "(if present then (True, wm) else make_room wm) = (True, wm')"
  shows "wm_ok wm' \<and> (present \<and> wm' = wm \<or> wm_size wm' < wm_max wm')"
proof (cases present)
  case True
  with ok r show ?thesis by simp
next
  case False
  with r have m: "make_room wm = (True, wm')" by simp
  show ?thesis
    using make_room_size [OF ok m] make_room_ok [OF ok] make_room_frame [of wm] m by simp
qed

lemma wm_add_ok: 
  assumes ok: "wm_ok wm" shows "wm_ok (wm_add now key content cat ttl p sc ow ws vis wm)"
proof (cases "key = [] \<or> content = []")
  case True
  with ok show ?thesis by (simp add: wm_add_def)
next
  case False
  let ?wm1 = "prune now wm" and ?k = "scoped_key key sc"
  obtain room wm2 where r: "(if has_key (wm_entries ?wm1) ?k then (True, ?wm1) else make_room ?wm1)
      = (room, wm2)" by (metis surj_pair)
  have ok1: "wm_ok ?wm1" by (rule prune_ok [OF ok])
  have ok2: "wm_ok wm2"
    using r ok1 make_room_ok [OF ok1] by (cases "has_key (wm_entries ?wm1) ?k") auto
  show ?thesis
  proof (cases room)
    case True
    have "has_key (wm_entries wm2) ?k \<or> wm_size wm2 < wm_max wm2"
      using room_after [OF ok1, of "has_key (wm_entries ?wm1) ?k" wm2] r True by auto
    then show ?thesis
      using False r True store_entry_ok [OF ok2]
      by (simp add: wm_add_def Let_def)
  next
    case no: False
    then show ?thesis using False r ok2 by (simp add: wm_add_def Let_def)
  qed
qed

lemma add_reference_ok:
  assumes ok: "wm_ok wm" shows "wm_ok (snd (add_reference now i st tn p ttl wm))"
proof (cases "i = [] \<or> st = [] \<or> tn = []")
  case True
  with ok show ?thesis by (simp add: add_reference_def)
next
  case False
  let ?wm1 = "prune now wm" and ?k = "(st, tn, i)"
  obtain room wm2 where r: "(if has_key (wm_references ?wm1) ?k then (True, ?wm1) else make_room ?wm1)
      = (room, wm2)" by (metis surj_pair)
  have ok1: "wm_ok ?wm1" by (rule prune_ok [OF ok])
  have ok2: "wm_ok wm2"
    using r ok1 make_room_ok [OF ok1] by (cases "has_key (wm_references ?wm1) ?k") auto
  show ?thesis
  proof (cases room)
    case True
    have "has_key (wm_references wm2) ?k \<or> wm_size wm2 < wm_max wm2"
      using room_after [OF ok1, of "has_key (wm_references ?wm1) ?k" wm2] r True by auto
    then show ?thesis
      using False r True store_reference_ok [OF ok2]
      by (simp add: add_reference_def Let_def)
  next
    case no: False
    then show ?thesis using False r ok2 by (simp add: add_reference_def Let_def)
  qed
qed

lemma update_entry_ok:
  assumes ok: "wm_ok wm" and old: "dict_get (wm_entries wm) k = Some e0"
    and e: "we_pinned e \<longleftrightarrow> we_expires e = None"
  shows "wm_ok (wm\<lparr>wm_entries := dict_set k e (wm_entries wm)\<rparr>)"
proof -
  have k: "k \<in> fst ` set (wm_entries wm)" using dict_get_in_set [OF old] by force
  show ?thesis
    using ok entries_ok_update [OF _ k e, of "wm_counter wm" "wm_sequences wm"] k
    by (simp add: wm_ok_def wm_size_def length_dict_set)
qed

lemma update_reference_ok:
  assumes ok: "wm_ok wm" and old: "dict_get (wm_references wm) k = Some r0"
    and r: "wr_pinned r \<longleftrightarrow> wr_expires r = None" "wr_sequence r = wr_sequence r0"
      "wr_memory_id r = wr_memory_id r0"
  shows "wm_ok (wm\<lparr>wm_references := dict_set k r (wm_references wm)\<rparr>)"
proof -
  have k: "k \<in> fst ` set (wm_references wm)" using dict_get_in_set [OF old] by force
  have "wr_sequence r0 \<le> wm_counter wm \<and> snd (snd k) = wr_memory_id r0"
    using ok dict_get_in_set [OF old] by (fastforce simp: wm_ok_def references_ok_def)
  then show ?thesis
    using ok r k references_ok_set [of "wm_counter wm" "wm_references wm" "wm_counter wm" r k]
    by (simp add: wm_ok_def wm_size_def length_dict_set)
qed

lemma pin_ok: "wm_ok wm \<Longrightarrow> wm_ok (snd (wm_pin k wm))"
  by (auto simp: wm_pin_def intro: update_entry_ok split: option.splits)

lemma unpin_ok: "wm_ok wm \<Longrightarrow> wm_ok (snd (wm_unpin now k ttl wm))"
  by (auto simp: wm_unpin_def Let_def intro: update_entry_ok split: option.splits)

lemma pin_reference_ok: "wm_ok wm \<Longrightarrow> wm_ok (snd (set_reference_pinned now i st tn p ttl wm))"
  using update_reference_ok [OF prune_ok] prune_ok
  by (auto simp: set_reference_pinned_def Let_def split: option.splits)

lemma clear_ok: "wm_ok wm \<Longrightarrow> wm_ok (wm_clear wm)"
  by (simp add: wm_clear_def wm_ok_def wm_size_def entries_ok_def references_ok_def)

lemma wm_step_ok [keeps]: "wm_ok wm \<Longrightarrow> wm_ok (wm_step now op wm)"
  by (cases op)
    (simp_all add: wm_add_ok add_reference_ok pin_ok unpin_ok pin_reference_ok clear_ok prune_ok
      wm_remove_def drop_entry_ok remove_reference_def drop_reference_ok recall_context_def
      recall_references_def Let_def)

lemma wm_step_max: "wm_max (wm_step now op wm) = wm_max wm"
  by (cases op)
    (auto simp: wm_add_def add_reference_def wm_pin_def wm_unpin_def wm_remove_def wm_clear_def
      remove_reference_def recall_context_def recall_references_def set_reference_pinned_def
      drop_entry_def prune_def make_room_def Let_def split: option.splits prod.splits if_splits)

text \<open>
  C28: the hot tier's invariant.  After any sequence of calls at any clock readings,
  entries and references together never exceed the capacity, keys are unique, every
  entry has its sequence number, and an item has no deadline exactly when it is pinned.
\<close>

theorem working_memory_bounded:
  assumes reach: "wm_reach m ttl wm"
  shows "wm_ok wm \<and> wm_max wm = nat (max 1 m)
    \<and> length (wm_entries wm) + length (wm_references wm) \<le> nat (max 1 m)"
  using reach
proof (induction rule: wm_reach.induct)
  case fresh
  show ?case by (simp add: make_wm_def wm_ok_def wm_size_def entries_ok_def references_ok_def)
next
  case (step wm now op)
  have ok: "wm_ok (wm_step now op wm)" using step.IH by (intro wm_step_ok) simp
  have "wm_max (wm_step now op wm) = nat (max 1 m)" using step.IH by (simp add: wm_step_max)
  with ok show ?case by (simp add: wm_ok_def wm_size_def)
qed

theorem working_memory_bounded_witness:
  "length (wm_entries (wm_step 1 (Add ''b'' ''x'' ''note'' None False None None None ''tenant'')
     (wm_step 0 (Add ''a'' ''x'' ''note'' None True None None None ''tenant'') (make_wm 1 900)))) \<le> 1"
proof -
  have "wm_reach 1 900 (wm_step 1 (Add ''b'' ''x'' ''note'' None False None None None ''tenant'')
     (wm_step 0 (Add ''a'' ''x'' ''note'' None True None None None ''tenant'') (make_wm 1 900)))"
    by (intro wm_reach.intros)
  from working_memory_bounded [OF this] show ?thesis by simp
qed

text \<open>Eviction: what \<open>make_room\<close> removes.\<close>

definition unpinned_sequences :: "working_memory \<Rightarrow> nat set" where
  "unpinned_sequences wm =
     {sequence_of wm k | k e. (k, e) \<in> set (wm_entries wm) \<and> \<not> we_pinned e}
     \<union> {wr_sequence r | k r. (k, r) \<in> set (wm_references wm) \<and> \<not> wr_pinned r}"

lemma unpinned_le:
  assumes "\<And>k e. (k, e) \<in> set (wm_entries wm) \<Longrightarrow> \<not> we_pinned e \<Longrightarrow> b \<le> sequence_of wm k"
    and "\<And>k r. (k, r) \<in> set (wm_references wm) \<Longrightarrow> \<not> wr_pinned r \<Longrightarrow> b \<le> wr_sequence r"
  shows "\<forall>s \<in> unpinned_sequences wm. b \<le> s"
  using assms by (auto simp: unpinned_sequences_def)

lemma oldest_entry_le:
  "oldest_entry wm = Some k \<Longrightarrow> (k', e') \<in> set (wm_entries wm) \<Longrightarrow> \<not> we_pinned e'
   \<Longrightarrow> sequence_of wm k \<le> sequence_of wm k'"
  using oldest_entry_Some [of wm k] by blast

lemma oldest_reference_le:
  "oldest_reference wm = Some (k, r) \<Longrightarrow> (k', r') \<in> set (wm_references wm) \<Longrightarrow> \<not> wr_pinned r'
   \<Longrightarrow> wr_sequence r \<le> wr_sequence r'"
  using oldest_reference_Some [of wm k r] by blast

lemma make_room_evicts:
  assumes "make_room wm = (True, wm')" "\<not> wm_size wm < wm_max wm"
  shows "(\<exists>k e. (k, e) \<in> set (wm_entries wm) \<and> \<not> we_pinned e
            \<and> (\<forall>s \<in> unpinned_sequences wm. sequence_of wm k \<le> s) \<and> wm' = drop_entry k wm)
       \<or> (\<exists>k r. (k, r) \<in> set (wm_references wm) \<and> \<not> wr_pinned r
            \<and> (\<forall>s \<in> unpinned_sequences wm. wr_sequence r \<le> s)
            \<and> wm' = wm\<lparr>wm_references := dict_pop k (wm_references wm)\<rparr>)"
proof -
  have entry: "\<exists>e. (k, e) \<in> set (wm_entries wm) \<and> \<not> we_pinned e
      \<and> (\<forall>s \<in> unpinned_sequences wm. sequence_of wm k \<le> s)"
    if k: "oldest_entry wm = Some k"
      and other: "\<And>rk r. oldest_reference wm = Some (rk, r) \<Longrightarrow> sequence_of wm k \<le> wr_sequence r" for k
  proof -
    have "sequence_of wm k \<le> wr_sequence r'" if r': "(k', r') \<in> set (wm_references wm)" "\<not> wr_pinned r'" for k' r'
    proof (cases "oldest_reference wm")
      case None
      with oldest_None(2) [of wm] r' show ?thesis by blast
    next
      case (Some p)
      obtain rk r where p: "p = (rk, r)" by (cases p)
      have "wr_sequence r \<le> wr_sequence r'"
        using oldest_reference_le r' Some p by blast
      with other [of rk r] Some p show ?thesis by simp
    qed
    then have "\<forall>s \<in> unpinned_sequences wm. sequence_of wm k \<le> s"
      by (intro unpinned_le) (use oldest_entry_le [OF k] in blast)+
    with oldest_entry_Some [OF k] show ?thesis by blast
  qed
  have reference: "\<forall>s \<in> unpinned_sequences wm. wr_sequence r \<le> s"
    if k: "oldest_reference wm = Some (rk, r)"
      and other: "\<And>k. oldest_entry wm = Some k \<Longrightarrow> wr_sequence r \<le> sequence_of wm k" for rk r
  proof -
    have "wr_sequence r \<le> sequence_of wm k'" if e': "(k', e') \<in> set (wm_entries wm)" "\<not> we_pinned e'" for k' e'
    proof (cases "oldest_entry wm")
      case None
      with oldest_None(1) [of wm] e' show ?thesis by blast
    next
      case (Some k0)
      have "sequence_of wm k0 \<le> sequence_of wm k'" using oldest_entry_le [OF Some] e' by blast
      with other [OF Some] show ?thesis by simp
    qed
    then show ?thesis
      by (intro unpinned_le) (use oldest_reference_le [OF k] in blast)+
  qed
  show ?thesis
  proof (cases "oldest_entry wm")
    case None
    with assms obtain rk r where r: "oldest_reference wm = Some (rk, r)"
      "wm' = wm\<lparr>wm_references := dict_pop rk (wm_references wm)\<rparr>"
      by (auto simp: make_room_def split: option.splits)
    have "\<forall>s \<in> unpinned_sequences wm. wr_sequence r \<le> s"
      by (rule reference [OF r(1)]) (simp add: None)
    with r(2) oldest_reference_Some [OF r(1)] show ?thesis by blast
  next
    case (Some k)
    show ?thesis
    proof (cases "oldest_reference wm")
      case None
      with assms Some have "wm' = drop_entry k wm" by (simp add: make_room_def)
      moreover have "\<exists>e. (k, e) \<in> set (wm_entries wm) \<and> \<not> we_pinned e
          \<and> (\<forall>s \<in> unpinned_sequences wm. sequence_of wm k \<le> s)"
        by (rule entry [OF Some]) (simp add: None)
      ultimately show ?thesis by blast
    next
      case ref: (Some p)
      obtain rk r where p: "p = (rk, r)" by (cases p)
      show ?thesis
      proof (cases "wr_sequence r < sequence_of wm k")
        case True
        with assms Some ref p have "wm' = wm\<lparr>wm_references := dict_pop rk (wm_references wm)\<rparr>"
          by (simp add: make_room_def)
        moreover have "\<forall>s \<in> unpinned_sequences wm. wr_sequence r \<le> s"
          using True Some ref p by (intro reference [of rk]) auto
        ultimately show ?thesis using oldest_reference_Some [of wm rk r] ref p by blast
      next
        case False
        with assms Some ref p have "wm' = drop_entry k wm" by (simp add: make_room_def)
        moreover have "\<exists>e. (k, e) \<in> set (wm_entries wm) \<and> \<not> we_pinned e
            \<and> (\<forall>s \<in> unpinned_sequences wm. sequence_of wm k \<le> s)"
          using False ref p by (intro entry [OF Some]) auto
        ultimately show ?thesis by blast
      qed
    qed
  qed
qed

text \<open>
  eviction.  In a well-formed tier, making room fails exactly when the tier is full
  of pinned items, and then changes nothing; below the cap it changes nothing either; at
  the cap it removes exactly one item, unpinned, with the smallest sequence number of
  the unpinned items of both containers.
\<close>
theorem make_room_correct:
  assumes ok: "wm_ok wm" and run: "make_room wm = (b, wm')"
  shows "(b \<longleftrightarrow> wm_size wm < wm_max wm \<or> unpinned_sequences wm \<noteq> {})
    \<and> (\<not> b \<or> wm_size wm < wm_max wm \<longrightarrow> wm' = wm)
    \<and> (b \<and> \<not> wm_size wm < wm_max wm \<longrightarrow> wm_size wm' < wm_max wm \<and>
        ((\<exists>k e. (k, e) \<in> set (wm_entries wm) \<and> \<not> we_pinned e
            \<and> (\<forall>s \<in> unpinned_sequences wm. sequence_of wm k \<le> s) \<and> wm' = drop_entry k wm)
       \<or> (\<exists>k r. (k, r) \<in> set (wm_references wm) \<and> \<not> wr_pinned r
            \<and> (\<forall>s \<in> unpinned_sequences wm. wr_sequence r \<le> s)
            \<and> wm' = wm\<lparr>wm_references := dict_pop k (wm_references wm)\<rparr>)))"
proof -
  have none: "unpinned_sequences wm = {} \<longleftrightarrow> oldest_entry wm = None \<and> oldest_reference wm = None"
    unfolding oldest_None unpinned_sequences_def by blast
  have b: "b \<longleftrightarrow> wm_size wm < wm_max wm \<or> unpinned_sequences wm \<noteq> {}"
    using run unfolding none by (auto simp: make_room_def split: if_splits option.splits)
  have same: "wm' = wm" if "\<not> b \<or> wm_size wm < wm_max wm"
    using run that by (auto simp: make_room_def split: if_splits option.splits)
  have removed: "make_room wm = (True, wm')" if b
    using run that by simp
  show ?thesis
  proof (intro conjI impI)
    show "b \<longleftrightarrow> wm_size wm < wm_max wm \<or> unpinned_sequences wm \<noteq> {}" by (rule b)
    show "wm' = wm" if "\<not> b \<or> wm_size wm < wm_max wm" by (rule same [OF that])
    assume full: "b \<and> \<not> wm_size wm < wm_max wm"
    then have run': "make_room wm = (True, wm')" using removed by blast
    show "wm_size wm' < wm_max wm" by (rule make_room_size [OF ok run'])
    show "(\<exists>k e. (k, e) \<in> set (wm_entries wm) \<and> \<not> we_pinned e
            \<and> (\<forall>s \<in> unpinned_sequences wm. sequence_of wm k \<le> s) \<and> wm' = drop_entry k wm)
       \<or> (\<exists>k r. (k, r) \<in> set (wm_references wm) \<and> \<not> wr_pinned r
            \<and> (\<forall>s \<in> unpinned_sequences wm. wr_sequence r \<le> s)
            \<and> wm' = wm\<lparr>wm_references := dict_pop k (wm_references wm)\<rparr>)"
      using make_room_evicts [OF run'] full by blast
  qed
qed

theorem make_room_correct_witness:
  "fst (make_room (wm_step 0 (Add ''a'' ''x'' ''note'' None True None None None ''tenant'') (make_wm 1 900)))
   = False"
proof -
  let ?wm = "wm_step 0 (Add ''a'' ''x'' ''note'' None True None None None ''tenant'') (make_wm 1 900)"
  have ok: "wm_ok ?wm"
    by (intro wm_step_ok)
      (simp add: make_wm_def wm_ok_def wm_size_def entries_ok_def references_ok_def)
  have shape: "wm_size ?wm = 1" "wm_max ?wm = 1" "unpinned_sequences ?wm = {}"
    by (simp_all add: wm_add_def prune_def make_room_def make_wm_def scoped_key_def wm_size_def
        has_key_def unpinned_sequences_def nonempty_def Let_def)
  obtain b wm' where run: "make_room ?wm = (b, wm')" by (metis surj_pair)
  from make_room_correct [OF ok run] shape run show ?thesis by simp
qed

lemma distinct_map_sort_desc: "distinct (map f (sort_desc g xs)) = distinct (map f xs)"
  by (simp add: distinct_map)

text \<open>
  recall of references.  The ids returned are those of live references of exactly
  the storage namespace and tenant asked for, newest insertion first, at most the limit,
  and no id twice.
\<close>
theorem recall_references_correct:
  assumes ok: "wm_ok wm" and run: "recall_references now st tn limit wm = (ids, wm')"
  shows "wm_ok wm' \<and> length ids \<le> nat limit \<and> distinct ids
    \<and> (\<exists>rs. ids = map wr_memory_id rs \<and> sorted_wrt (\<ge>) (map wr_sequence rs)
        \<and> (\<forall>r \<in> set rs. ((st, tn, wr_memory_id r), r) \<in> set (wm_references wm)
              \<and> live now (wr_expires r)))"
proof -
  let ?wm1 = "prune now wm"
  let ?sel = "filter (\<lambda>(k, r). fst k = st \<and> fst (snd k) = tn) (wm_references ?wm1)"
  let ?rs = "take (nat (max 0 limit)) (sort_desc wr_sequence (map snd ?sel))"
  have eq: "ids = map wr_memory_id ?rs" "wm' = ?wm1"
    using run by (auto simp: recall_references_def Let_def)
  have ok1: "wm_ok ?wm1" by (rule prune_ok [OF ok])
  have refs: "references_ok (wm_counter ?wm1) (wm_references ?wm1)" using ok1 by (simp add: wm_ok_def)
  have key: "k = (st, tn, wr_memory_id r) \<and> (k, r) \<in> set (wm_references wm) \<and> live now (wr_expires r)"
    if "(k, r) \<in> set ?sel" for k r
    using that refs by (cases k) (auto simp: references_ok_def prune_def Let_def)
  have "distinct (map (wr_memory_id \<circ> snd) ?sel)"
  proof -
    have "distinct (map fst ?sel)" using refs by (simp add: references_ok_def dict_wf_filter)
    moreover have "map fst ?sel = map (\<lambda>p. (st, tn, wr_memory_id (snd p))) ?sel"
    proof (rule map_cong [OF refl])
      fix p assume p: "p \<in> set ?sel"
      obtain k r where kr: "p = (k, r)" by (cases p)
      with p have "k = (st, tn, wr_memory_id r)" using key by blast
      with kr show "fst p = (st, tn, wr_memory_id (snd p))" by simp
    qed
    moreover have "map (\<lambda>p. (st, tn, wr_memory_id (snd p))) ?sel
        = map (\<lambda>i. (st, tn, i)) (map (wr_memory_id \<circ> snd) ?sel)" by simp
    ultimately have "distinct (map (\<lambda>i. (st, tn, i)) (map (wr_memory_id \<circ> snd) ?sel))" by simp
    then show ?thesis by (simp only: distinct_map)
  qed
  then have "distinct (map wr_memory_id (sort_desc wr_sequence (map snd ?sel)))"
    by (simp only: distinct_map_sort_desc map_map)
  then have d: "distinct ids" unfolding eq by (simp add: take_map [symmetric] distinct_take)
  have "sorted_wrt (\<ge>) (map wr_sequence ?rs)"
    unfolding take_map [symmetric]
    by (rule sorted_wrt_take) (rule sort_desc_sorted)
  moreover have "((st, tn, wr_memory_id r), r) \<in> set (wm_references wm) \<and> live now (wr_expires r)"
    if "r \<in> set ?rs" for r
  proof -
    have "r \<in> snd ` set ?sel" using in_set_takeD [OF that] by simp
    then obtain k where "(k, r) \<in> set ?sel" by force
    from key [OF this] show ?thesis by blast
  qed
  ultimately show ?thesis using ok1 d by (auto simp: eq)
qed

theorem recall_references_correct_witness:
  "\<exists>ids wm'. recall_references 1 ''s'' ''t'' 8
     (wm_step 0 (AddRef ''f1'' ''s'' ''t'' False None) (make_wm 4 900)) = (ids, wm') \<and> distinct ids"
proof -
  let ?wm = "wm_step 0 (AddRef ''f1'' ''s'' ''t'' False None) (make_wm 4 900)"
  have ok: "wm_ok ?wm"
    by (intro wm_step_ok)
      (simp add: make_wm_def wm_ok_def wm_size_def entries_ok_def references_ok_def)
  obtain ids wm' where run: "recall_references 1 ''s'' ''t'' 8 ?wm = (ids, wm')" by (metis surj_pair)
  from recall_references_correct [OF ok run] run show ?thesis by blast
qed

text \<open>Keys and scopes without a colon never meet across scopes.\<close>

lemma sublist_colons: "sublist ''::'' xs \<Longrightarrow> CHR '':'' \<in> set xs"
  by (auto simp: sublist_def)

lemma scoped_key_scope:
  assumes "CHR '':'' \<notin> set key" "CHR '':'' \<notin> set s" "CHR '':'' \<notin> set t" "t \<noteq> []"
  shows "prefix (s @ ''::'') (t @ ''::'' @ key) \<longleftrightarrow> s = t"
proof
  assume "prefix (s @ ''::'') (t @ ''::'' @ key)"
  then obtain zs where eq: "t @ CHR '':'' # CHR '':'' # key = s @ CHR '':'' # CHR '':'' # zs"
    by (auto simp: prefix_def)
  have "takeWhile (\<lambda>c. c \<noteq> CHR '':'') (t @ CHR '':'' # CHR '':'' # key) = t"
    using assms by (auto simp: takeWhile_append)
  moreover have "takeWhile (\<lambda>c. c \<noteq> CHR '':'') (s @ CHR '':'' # CHR '':'' # zs) = s"
    using assms by (auto simp: takeWhile_append)
  ultimately show "s = t" using eq by simp
next
  assume "s = t"
  then show "prefix (s @ ''::'') (t @ ''::'' @ key)" by simp
qed

text \<open>
  scopes are isolated for keys and scopes without a colon: the entry stored under a
  key and a scope is seen by a recall exactly when the recall's scope is the same (an
  absent and an empty scope are the same).  The separator is not escaped, so an unscoped
  key may pose as a scoped one: "a::b" is seen by scope a and not by an unscoped recall.
\<close>
theorem scope_isolation:
  assumes "CHR '':'' \<notin> set key"
    and "\<forall>s. sc = Some s \<longrightarrow> CHR '':'' \<notin> set s" and "\<forall>s. sc' = Some s \<longrightarrow> CHR '':'' \<notin> set s"
  shows "(in_scope_key sc (scoped_key key sc') \<longleftrightarrow> nonempty sc = nonempty sc')
    \<and> in_scope_key (Some ''a'') (scoped_key ''a::b'' None) \<and> \<not> in_scope_key None (scoped_key ''a::b'' None)"
proof (intro conjI)
  have clean: "\<not> sublist ''::'' key" using assms(1) sublist_colons by blast
  have dirty: "sublist ''::'' (t @ ''::'' @ key)" for t by (rule sublist_appendI)
  show "in_scope_key sc (scoped_key key sc') \<longleftrightarrow> nonempty sc = nonempty sc'"
  proof (cases "truthy sc'")
    case True
    then obtain t where t: "sc' = Some t" "t \<noteq> []" by (auto simp: truthy_iff)
    show ?thesis
    proof (cases "truthy sc")
      case scoped: True
      then obtain s where s: "sc = Some s" "s \<noteq> []" by (auto simp: truthy_iff)
      have "prefix (s @ ''::'') (t @ ''::'' @ key) \<longleftrightarrow> s = t"
        using assms s t by (intro scoped_key_scope) auto
      then show ?thesis
        using s t clean by (auto simp: in_scope_key_def scoped_key_def nonempty_def Let_def)
    next
      case False
      then show ?thesis
        using t dirty [of t] by (simp add: in_scope_key_def scoped_key_def nonempty_def)
    qed
  next
    case False
    have "\<not> prefix (s @ ''::'') key" for s
      using assms(1) by (auto simp: prefix_def)
    then show ?thesis
      using False clean by (auto simp: in_scope_key_def scoped_key_def nonempty_def Let_def)
  qed
  show "in_scope_key (Some ''a'') (scoped_key ''a::b'' None)"
    by (simp add: in_scope_key_def scoped_key_def Let_def sublist_Cons_right)
  show "\<not> in_scope_key None (scoped_key ''a::b'' None)"
    using dirty sublist_appendI [of "''::''" "''a''" "''b''"]
    by (simp add: in_scope_key_def scoped_key_def)
qed

theorem scope_isolation_witness: "\<not> in_scope_key (Some ''t1'') (scoped_key ''m1'' (Some ''t2''))"
proof -
  have "CHR '':'' \<notin> set ''m1''" "\<forall>s. Some ''t1'' = Some s \<longrightarrow> CHR '':'' \<notin> set s"
    "\<forall>s. Some ''t2'' = Some s \<longrightarrow> CHR '':'' \<notin> set s" by auto
  from scope_isolation [OF this] show ?thesis by (simp add: nonempty_def)
qed

end
