(* ===== verification/Sync_Codec.thy ===== *)
theory Sync_Codec
  imports Prelude "HOL-Library.Multiset"
begin

section \<open>Canonical bytes of the synchronisation protocol\<close>

text \<open>
  The codec half of \<open>src/memplex/sync_protocol.py\<close>: strings as lists of code points
  with the checks on U+0000 and surrogates, UTF-8 and UTF-16BE, unpadded base64url, the
  RFC 8785 subset of JSON (keys ordered by their UTF-16BE bytes, integers within the
  JavaScript safe range, ECMAScript form of floats).  A byte is a natural number below
  256, a float is given by what the code reads of it.
\<close>

type_synonym ustring = "nat list"
type_synonym bytes = "nat list"

definition cp :: "string \<Rightarrow> ustring" where
  "cp s = map of_char s"

subsection \<open>Exact strings and integers\<close>

definition surrogate :: "nat \<Rightarrow> bool" where
  "surrogate n = (55296 \<le> n \<and> n \<le> 57343)"

definition scalar_string :: "ustring \<Rightarrow> bool" where
  "scalar_string s = (\<forall>n \<in> set s. n \<noteq> 0 \<and> \<not> surrogate n)"

definition assert_scalar :: "string \<Rightarrow> ustring \<Rightarrow> unit result" where
  "assert_scalar name s =
     (if 0 \<in> set s then Inl (ValueErr (name @ '' contains U+0000''))
      else if list_ex surrogate s then Inl (ValueErr (name @ '' contains a lone UTF-16 surrogate''))
      else Inr ())"

definition require_exact_string :: "string \<Rightarrow> bool \<Rightarrow> ustring \<Rightarrow> ustring result" where
  "require_exact_string name allow_empty s =
     bindR (assert_scalar name s) (\<lambda>_.
       if \<not> allow_empty \<and> s = [] then Inl (ValueErr (name @ '' must be non-empty'')) else Inr s)"

definition require_exact_int :: "string \<Rightarrow> int \<Rightarrow> int \<Rightarrow> int result" where
  "require_exact_int name minimum n =
     (if n < minimum then Inl (ValueErr (name @ '' must be >= minimum'')) else Inr n)"

text \<open>
  \<open>uuid.UUID(text)\<close> succeeds and prints back as the same text exactly for the 36
  characters of the canonical form, in lower case.
\<close>

definition lower_hex :: "nat \<Rightarrow> bool" where
  "lower_hex n = (48 \<le> n \<and> n \<le> 57 \<or> 97 \<le> n \<and> n \<le> 102)"

definition canonical_uuid :: "ustring \<Rightarrow> bool" where
  "canonical_uuid s = (length s = 36 \<and>
     list_all (\<lambda>(i, n). if i \<in> {8, 13, 18, 23} then n = 45 else lower_hex n) (enumerate 0 s))"

definition require_uuid :: "string \<Rightarrow> ustring \<Rightarrow> ustring result" where
  "require_uuid name s =
     bindR (require_exact_string name False s) (\<lambda>s.
       if canonical_uuid s then Inr s else Inl (ValueErr (name @ '' must be a canonical UUID'')))"

lemma assert_scalar_ok [simp]: "assert_scalar name s = Inr () \<longleftrightarrow> scalar_string s"
  by (auto simp: assert_scalar_def scalar_string_def list_ex_iff gr0_conv_Suc [symmetric] intro: gr0I)

lemma require_exact_string_ok [simp]:
  "require_exact_string name e s = Inr t \<longleftrightarrow> t = s \<and> scalar_string s \<and> (e \<or> s \<noteq> [])"
  by (auto simp: require_exact_string_def)

lemma require_uuid_ok [simp]:
  "require_uuid name s = Inr t \<longleftrightarrow> t = s \<and> scalar_string s \<and> s \<noteq> [] \<and> canonical_uuid s"
  by (auto simp: require_uuid_def)

lemma require_exact_int_ok [simp]: "require_exact_int name m n = Inr k \<longleftrightarrow> k = n \<and> m \<le> n"
  by (auto simp: require_exact_int_def)

subsection \<open>UTF-8 and UTF-16\<close>

definition utf8_char :: "nat \<Rightarrow> bytes" where
  "utf8_char n =
     (if n < 128 then [n]
      else if n < 2048 then [192 + n div 64, 128 + n mod 64]
      else if n < 65536 then [224 + n div 4096, 128 + n div 64 mod 64, 128 + n mod 64]
      else [240 + n div 262144, 128 + n div 4096 mod 64, 128 + n div 64 mod 64, 128 + n mod 64])"

definition utf8 :: "ustring \<Rightarrow> bytes" where
  "utf8 s = concat (map utf8_char s)"

definition continuation :: "nat \<Rightarrow> bool" where
  "continuation b = (128 \<le> b \<and> b < 192)"

text \<open>The strict decoder: no overlong form, no surrogate, nothing above U+10FFFF.\<close>

fun utf8_decode :: "bytes \<Rightarrow> ustring option" where
  "utf8_decode [] = Some []"
| "utf8_decode (b # bs) =
     (if b < 128 then map_option ((#) b) (utf8_decode bs)
      else case bs of [] \<Rightarrow> None | c # bs1 \<Rightarrow>
        if \<not> continuation c then None
        else if 192 \<le> b \<and> b < 224 then
          (let n = (b - 192) * 64 + (c - 128) in
           if n < 128 then None else map_option ((#) n) (utf8_decode bs1))
        else case bs1 of [] \<Rightarrow> None | d # bs2 \<Rightarrow>
          if \<not> continuation d then None
          else if 224 \<le> b \<and> b < 240 then
            (let n = (b - 224) * 4096 + (c - 128) * 64 + (d - 128) in
             if n < 2048 \<or> surrogate n then None else map_option ((#) n) (utf8_decode bs2))
          else case bs2 of [] \<Rightarrow> None | e # bs3 \<Rightarrow>
            if \<not> continuation e \<or> b < 240 \<or> 248 \<le> b then None
            else (let n = (b - 240) * 262144 + (c - 128) * 4096 + (d - 128) * 64 + (e - 128) in
              if n < 65536 \<or> 1114111 < n then None else map_option ((#) n) (utf8_decode bs3)))"

definition code_points :: "ustring \<Rightarrow> bool" where
  "code_points s = (\<forall>n \<in> set s. n \<le> 1114111)"

lemma digits64: "\<exists>a b. n = a * 64 + b \<and> b < (64::nat)"
  by (intro exI [of _ "n div 64"] exI [of _ "n mod 64"]) simp

lemma utf8_decode_char:
  assumes "n \<le> 1114111" "\<not> surrogate n"
  shows "utf8_decode (utf8_char n @ bs) = map_option ((#) n) (utf8_decode bs)"
proof -
  obtain a d where n: "n = a * 64 + d" and d: "d < 64" using digits64 by blast
  obtain b c where a: "a = b * 64 + c" and c: "c < 64" using digits64 by blast
  obtain e f where b: "b = e * 64 + f" and f: "f < 64" using digits64 by blast
  have da: "n div 64 = a" "n mod 64 = d" using n d by auto
  have db: "n div 4096 = b" "a mod 64 = c" "a div 64 = b" using n a c d by auto
  have de: "n div 262144 = e" "b mod 64 = f" using n a b c d f by auto
  consider "n < 128" | "128 \<le> n" "n < 2048" | "2048 \<le> n" "n < 65536" | "65536 \<le> n" by linarith
  then show ?thesis
  proof cases
    case 1
    then show ?thesis by (simp add: utf8_char_def)
  next
    case 2
    then have "a < 32" "2 \<le> a" using n d by auto
    then show ?thesis using 2 d by (simp add: utf8_char_def da continuation_def n)
  next
    case 3
    then have "b < 16" using n a by auto
    moreover have "utf8_char n = [224 + b, 128 + c, 128 + d]"
      using 3 by (simp add: utf8_char_def da db)
    moreover have "b * 4096 + c * 64 + d = n" by (simp add: n a)
    ultimately show ?thesis using 3 c d assms by (simp add: continuation_def)
  next
    case 4
    then have "e < 8" using n a b assms by auto
    moreover have "utf8_char n = [240 + e, 128 + f, 128 + c, 128 + d]"
      using 4 by (simp add: utf8_char_def da db de)
    moreover have "e * 262144 + f * 4096 + c * 64 + d = n" by (simp add: n a b)
    ultimately show ?thesis using 4 c d f assms by (simp add: continuation_def)
  qed
qed

lemma utf8_roundtrip:
  assumes "code_points s" "scalar_string s"
  shows "utf8_decode (utf8 s) = Some s"
  using assms
  by (induction s) (auto simp: utf8_def utf8_decode_char code_points_def scalar_string_def)

lemma utf8_bytes: "code_points s \<Longrightarrow> \<forall>b \<in> set (utf8 s). b < 256"
  by (auto simp: utf8_def utf8_char_def code_points_def split: if_splits)

lemma length_utf8: "length s \<le> length (utf8 s)"
  by (induction s) (auto simp: utf8_def utf8_char_def)

definition utf16be_char :: "nat \<Rightarrow> bytes" where
  "utf16be_char n =
     (if n < 65536 then [n div 256, n mod 256]
      else let h = 55296 + (n - 65536) div 1024; l = 56320 + (n - 65536) mod 1024 in
        [h div 256, h mod 256, l div 256, l mod 256])"

definition utf16be :: "ustring \<Rightarrow> bytes" where
  "utf16be s = concat (map utf16be_char s)"

subsection \<open>Base64url without padding\<close>

definition b64_char :: "nat \<Rightarrow> nat" where
  "b64_char n = (if n < 26 then 65 + n else if n < 52 then 71 + n else if n < 62 then n - 4
     else if n = 62 then 45 else 95)"

definition b64_value :: "nat \<Rightarrow> nat option" where
  "b64_value c =
     (if 65 \<le> c \<and> c \<le> 90 then Some (c - 65)
      else if 97 \<le> c \<and> c \<le> 122 then Some (c - 71)
      else if 48 \<le> c \<and> c \<le> 57 then Some (c + 4)
      else if c = 45 then Some 62 else if c = 95 then Some 63 else None)"

fun b64url_encode :: "bytes \<Rightarrow> ustring" where
  "b64url_encode [] = []"
| "b64url_encode [a] = [b64_char (a div 4), b64_char (a mod 4 * 16)]"
| "b64url_encode [a, b] =
     [b64_char (a div 4), b64_char (a mod 4 * 16 + b div 16), b64_char (b mod 16 * 4)]"
| "b64url_encode (a # b # c # r) =
     b64_char (a div 4) # b64_char (a mod 4 * 16 + b div 16)
     # b64_char (b mod 16 * 4 + c div 64) # b64_char (c mod 64) # b64url_encode r"

text \<open>\<open>b64decode\<close> of the padded text: the spare bits of the last character are ignored.\<close>

fun sextets_to_bytes :: "nat list \<Rightarrow> bytes option" where
  "sextets_to_bytes [] = Some []"
| "sextets_to_bytes [x] = None"
| "sextets_to_bytes [x, y] = Some [x * 4 + y div 16]"
| "sextets_to_bytes [x, y, z] = Some [x * 4 + y div 16, y mod 16 * 16 + z div 4]"
| "sextets_to_bytes (x # y # z # w # r) =
     map_option (\<lambda>bs. (x * 4 + y div 16) # (y mod 16 * 16 + z div 4) # (z mod 4 * 64 + w) # bs)
       (sextets_to_bytes r)"

definition b64url_decode :: "string \<Rightarrow> ustring \<Rightarrow> bytes result" where
  "b64url_decode name s =
     bindR (require_exact_string name False s) (\<lambda>s.
       if list_ex (\<lambda>c. b64_value c = None) s then Inl (ValueErr (name @ '' is not unpadded base64url''))
       else case sextets_to_bytes (map (the \<circ> b64_value) s) of
         None \<Rightarrow> Inl (ValueErr (name @ '' is not base64url''))
       | Some raw \<Rightarrow>
           if b64url_encode raw \<noteq> s then Inl (ValueErr (name @ '' is not canonical base64url''))
           else Inr raw)"

definition is_bytes :: "bytes \<Rightarrow> bool" where
  "is_bytes bs = (\<forall>b \<in> set bs. b < 256)"

definition b64_text :: "ustring \<Rightarrow> bool" where
  "b64_text s = (\<forall>c \<in> set s. \<exists>n < 64. c = b64_char n)"

lemma b64_value_char [simp]: "n < 64 \<Longrightarrow> b64_value (b64_char n) = Some n"
  by (auto simp: b64_value_def b64_char_def)

lemma b64_char_text:
  "n < 64 \<Longrightarrow> b64_char n \<noteq> 0 \<and> \<not> surrogate (b64_char n) \<and> b64_char n < 128
     \<and> b64_char n \<noteq> 58 \<and> b64_char n \<noteq> 46"
  by (auto simp: b64_char_def surrogate_def)

lemma b64_text_Cons [simp]: "b64_text (c # s) \<longleftrightarrow> (\<exists>n < 64. c = b64_char n) \<and> b64_text s"
  by (auto simp: b64_text_def)

lemma b64_text_Nil [simp]: "b64_text []"
  by (simp add: b64_text_def)

lemma is_bytes_Cons [simp]: "is_bytes (b # bs) \<longleftrightarrow> b < 256 \<and> is_bytes bs"
  by (auto simp: is_bytes_def)

lemma sextet_bounds:
  assumes "a < 256" "b < 256" "c < 256"
  shows "a div 4 < 64" "a mod 4 * 16 < 64" "a mod 4 * 16 + b div 16 < 64" "b mod 16 * 4 < 64"
    "b mod 16 * 4 + c div 64 < 64" "c mod 64 < (64::nat)"
  using assms by auto

lemma sextet_inverse:
  assumes "a < 256" "b < 256" "c < (256::nat)"
  shows "a div 4 * 4 + a mod 4 * 16 div 16 = a"
    "a div 4 * 4 + (a mod 4 * 16 + b div 16) div 16 = a"
    "(a mod 4 * 16 + b div 16) mod 16 * 16 + b mod 16 * 4 div 4 = b"
    "(a mod 4 * 16 + b div 16) mod 16 * 16 + (b mod 16 * 4 + c div 64) div 4 = b"
    "(b mod 16 * 4 + c div 64) mod 4 * 64 + c mod 64 = c"
proof -
  have "(a mod 4 * 16 + b div 16) div 16 = a mod 4" "(a mod 4 * 16 + b div 16) mod 16 = b div 16"
    "(b mod 16 * 4 + c div 64) div 4 = b mod 16" "(b mod 16 * 4 + c div 64) mod 4 = c div 64"
    using assms by auto
  then show "a div 4 * 4 + a mod 4 * 16 div 16 = a"
    "a div 4 * 4 + (a mod 4 * 16 + b div 16) div 16 = a"
    "(a mod 4 * 16 + b div 16) mod 16 * 16 + b mod 16 * 4 div 4 = b"
    "(a mod 4 * 16 + b div 16) mod 16 * 16 + (b mod 16 * 4 + c div 64) div 4 = b"
    "(b mod 16 * 4 + c div 64) mod 4 * 64 + c mod 64 = c" by auto
qed

lemma b64url_encode_text: "is_bytes bs \<Longrightarrow> b64_text (b64url_encode bs)"
proof (induction bs rule: b64url_encode.induct)
  case (2 a)
  then have "a mod 4 * 16 < 64" "a div 4 < 64" using sextet_bounds [of a 0 0] by simp_all
  then show ?case unfolding b64url_encode.simps b64_text_Cons using b64_text_Nil by blast
next
  case (3 a b)
  then have "a div 4 < 64" "a mod 4 * 16 + b div 16 < 64" "b mod 16 * 4 < 64"
    using sextet_bounds [of a b 0] by simp_all
  then show ?case unfolding b64url_encode.simps b64_text_Cons using b64_text_Nil by blast
next
  case (4 a b c r)
  then have "a < 256" "b < 256" "c < 256" "b64_text (b64url_encode r)" by simp_all
  then show ?case
    unfolding b64url_encode.simps b64_text_Cons using sextet_bounds [of a b c] by blast
qed simp

lemmas sextet_simps = b64url_encode.simps list.map comp_apply b64_value_char option.sel
  sextets_to_bytes.simps option.map

lemma b64_raw_roundtrip:
  "is_bytes bs \<Longrightarrow> sextets_to_bytes (map (the \<circ> b64_value) (b64url_encode bs)) = Some bs"
proof (induction bs rule: b64url_encode.induct)
  case (2 a)
  then have a: "a < 256" by simp
  show ?case
    by (simp only: sextet_simps sextet_bounds [OF a a a] sextet_inverse [OF a a a])
next
  case (3 a b)
  then have a: "a < 256" "b < 256" by simp_all
  show ?case
    by (simp only: sextet_simps sextet_bounds [OF a a(1)] sextet_inverse [OF a a(1)])
next
  case (4 a b c r)
  then have a: "a < 256" "b < 256" "c < 256" and r: "is_bytes r" by simp_all
  show ?case
    by (simp only: sextet_simps sextet_bounds [OF a] sextet_inverse [OF a] 4(1) [OF r, unfolded comp_def] comp_def)
qed simp

lemma b64_text_scalar: "b64_text s \<Longrightarrow> scalar_string s \<and> 58 \<notin> set s \<and> 46 \<notin> set s \<and> (\<forall>c \<in> set s. c < 128)"
  using b64_char_text by (fastforce simp: b64_text_def scalar_string_def)

lemma b64url_decode_encode:
  assumes "is_bytes bs" "bs \<noteq> []"
  shows "b64url_decode name (b64url_encode bs) = Inr bs"
proof -
  have enc: "b64_text (b64url_encode bs)" by (rule b64url_encode_text [OF assms(1)])
  have "b64url_encode bs \<noteq> []" using assms(2) by (cases bs rule: b64url_encode.cases) auto
  moreover have "\<not> list_ex (\<lambda>c. b64_value c = None) (b64url_encode bs)"
    using enc by (auto simp: list_ex_iff b64_text_def)
  ultimately show ?thesis
    using b64_text_scalar [OF enc] b64_raw_roundtrip [OF assms(1)]
    by (simp add: b64url_decode_def require_exact_string_def assert_scalar_ok)
qed

lemma b64url_decode_canonical:
  "b64url_decode name s = Inr bs \<Longrightarrow> b64url_encode bs = s \<and> s \<noteq> []"
  by (auto simp: b64url_decode_def split: if_splits option.splits)

text \<open>The code is injective on byte strings.\<close>

lemma b64url_encode_inj:
  assumes "is_bytes a" "is_bytes b" and eq: "b64url_encode a = b64url_encode b"
  shows "a = b"
proof -
  have "Some a = Some b"
    using b64_raw_roundtrip [OF assms(1)] b64_raw_roundtrip [OF assms(2)] unfolding eq by metis
  then show ?thesis by blast
qed

lemma length_b64url_encode: "3 * length (b64url_encode bs) \<le> 4 * length bs + 2"
  by (induction bs rule: b64url_encode.induct) simp_all

subsection \<open>Canonical JSON\<close>

text \<open>
  A float carries what the code reads of it: whether it is finite and zero, its \<open>repr\<close>
  (as a string of ASCII characters), and whether its magnitude lies in [1e-6, 1e21).
\<close>

record py_float =
  float_finite :: bool
  float_zero :: bool
  float_repr :: string
  float_plain :: bool

datatype json =
    JNull
  | JBool bool
  | JInt int
  | JFloat py_float
  | JStr ustring
  | JList "json list"
  | JObj "(ustring \<times> json) list"

definition MAX_SAFE :: int where
  "MAX_SAFE = 2 ^ 53 - 1"

fun all_ok :: "unit result list \<Rightarrow> unit result" where
  "all_ok [] = Inr ()"
| "all_ok (r # rs) = bindR r (\<lambda>_. all_ok rs)"

fun assert_json :: "json \<Rightarrow> unit result" where
  "assert_json JNull = Inr ()"
| "assert_json (JBool b) = Inr ()"
| "assert_json (JInt n) =
     (if MAX_SAFE < abs n then Inl (ValueErr ''canonical JSON rejects integers outside JavaScript safe range'')
      else Inr ())"
| "assert_json (JStr s) = assert_scalar ''JSON string'' s"
| "assert_json (JFloat f) =
     (if float_finite f then Inr () else Inl (ValueErr ''canonical JSON rejects non-finite floats''))"
| "assert_json (JList xs) = all_ok (map assert_json xs)"
| "assert_json (JObj kvs) = all_ok (map (\<lambda>(k, v).
     bindR (require_exact_string ''JSON object key'' False k) (\<lambda>_. assert_json v)) kvs)"

text \<open>Decimal numerals, and the ECMAScript form of a float from its \<open>repr\<close>.\<close>

fun show_nat :: "nat \<Rightarrow> string" where
  "show_nat n = (if n < 10 then [char_of (48 + n)] else show_nat (n div 10) @ [char_of (48 + n mod 10)])"

declare show_nat.simps [simp del]

definition show_int :: "int \<Rightarrow> string" where
  "show_int n = (if n < 0 then CHR ''-'' # show_nat (nat (- n)) else show_nat (nat n))"

fun read_nat :: "string \<Rightarrow> nat \<Rightarrow> nat" where
  "read_nat [] acc = acc"
| "read_nat (c # s) acc = read_nat s (10 * acc + (of_char c - 48))"

definition read_int :: "string \<Rightarrow> int" where
  "read_int s = (case s of [] \<Rightarrow> 0 | c # r \<Rightarrow>
     if c = CHR ''-'' then - int (read_nat r 0)
     else if c = CHR ''+'' then int (read_nat r 0) else int (read_nat s 0))"

definition removesuffix :: "string \<Rightarrow> string \<Rightarrow> string" where
  "removesuffix suf s = (if suffix suf s then take (length s - length suf) s else s)"

definition jcs_float :: "py_float \<Rightarrow> string" where
  "jcs_float f =
     (if float_zero f then ''0''
      else let rendered = float_repr f in
        if CHR ''e'' \<notin> set rendered \<and> CHR ''E'' \<notin> set rendered then removesuffix ''.0'' rendered
        else let lower = py_lower rendered;
                 mantissa = takeWhile (\<lambda>c. c \<noteq> CHR ''e'') lower;
                 exponent = read_int (drop 1 (dropWhile (\<lambda>c. c \<noteq> CHR ''e'') lower)) in
          if float_plain f then
            (let sgn = (if prefix ''-'' mantissa then ''-'' else '''');
                 digits = filter (\<lambda>c. c \<noteq> CHR ''.'') (dropWhile (\<lambda>c. c = CHR ''-'') mantissa);
                 position = 1 + exponent in
             if position \<le> 0 then sgn @ ''0.'' @ replicate (nat (- position)) (CHR ''0'') @ digits
             else if int (length digits) \<le> position then
               sgn @ digits @ replicate (nat position - length digits) (CHR ''0'')
             else sgn @ take (nat position) digits @ ''.'' @ drop (nat position) digits)
          else removesuffix ''.0'' mantissa @ ''e'' @ (if 0 \<le> exponent then ''+'' else '''')
            @ show_int exponent)"

text \<open>\<open>json.dumps\<close> of a string without \<open>ensure_ascii\<close>.\<close>

definition hex_digit_of :: "nat \<Rightarrow> nat" where
  "hex_digit_of n = (if n < 10 then 48 + n else 87 + n)"

definition json_char :: "nat \<Rightarrow> ustring" where
  "json_char n =
     (if n = 34 then [92, 34] else if n = 92 then [92, 92]
      else if n = 10 then [92, 110] else if n = 13 then [92, 114]
      else if n = 9 then [92, 116] else if n = 12 then [92, 102]
      else if n = 8 then [92, 98]
      else if n < 32 then [92, 117, 48, 48, hex_digit_of (n div 16), hex_digit_of (n mod 16)]
      else [n])"

definition json_string :: "ustring \<Rightarrow> ustring" where
  "json_string s = [34] @ concat (map json_char s) @ [34]"

fun jcs :: "json \<Rightarrow> ustring" where
  "jcs JNull = cp ''null''"
| "jcs (JBool b) = (if b then cp ''true'' else cp ''false'')"
| "jcs (JInt n) = cp (show_int n)"
| "jcs (JFloat f) = cp (jcs_float f)"
| "jcs (JStr s) = json_string s"
| "jcs (JList xs) = [91] @ py_join [44] (map jcs xs) @ [93]"
| "jcs (JObj kvs) =
     [123] @ py_join [44] (map snd (sort_key (utf16be \<circ> fst)
       (map (\<lambda>(k, v). (k, json_string k @ [58] @ jcs v)) kvs))) @ [125]"

text \<open>
  The order of the entries in the canonical text, and the value a parser that keeps the order
  of the text reads from it.
\<close>

abbreviation by_key :: "ustring \<times> 'v \<Rightarrow> bytes" where
  "by_key \<equiv> utf16be \<circ> fst"

fun in_order :: "json \<Rightarrow> json" where
  "in_order (JList xs) = JList (map in_order xs)"
| "in_order (JObj kvs) = JObj (sort_key by_key (map (\<lambda>(k, v). (k, in_order v)) kvs))"
| "in_order v = v"

lemma insort_map: "insort_key f (g x) (map g xs) = map g (insort_key (\<lambda>y. f (g y)) x xs)"
  by (induction xs) auto

lemma sort_map: "sort_key f (map g xs) = map g (sort_key (\<lambda>x. f (g x)) xs)"
  by (induction xs) (simp_all add: insort_map)

lemma sort_entries: "(\<And>x. fst (F x) = fst x) \<Longrightarrow> sort_key by_key (map F xs) = map F (sort_key by_key xs)"
  by (simp add: sort_map comp_def)

lemma sort_values: "sort_key by_key (map (\<lambda>(k, v). (k, g v)) kvs) = map (\<lambda>(k, v). (k, g v)) (sort_key by_key kvs)"
  by (rule sort_entries) auto

lemma sort_twice: "sort_key by_key (sort_key by_key xs) = sort_key by_key xs"
  by (rule sort_key_id_if_sorted) (rule sorted_sort_key)

lemma in_order_text [simp]: "in_order (JList (map JStr ss)) = JList (map JStr ss)"
  by simp

definition canonical_json_bytes :: "json \<Rightarrow> bytes result" where
  "canonical_json_bytes v = bindR (assert_json v) (\<lambda>_. Inr (utf8 (jcs v)))"

subsection \<open>One text per value\<close>

text \<open>
  Two JSON values are the same value when they differ in the order of their object
  entries at most, at any depth.
\<close>

inductive same_json :: "json \<Rightarrow> json \<Rightarrow> bool" where
  same_refl: "same_json v v"
| same_list: "list_all2 same_json xs ys \<Longrightarrow> same_json (JList xs) (JList ys)"
| same_obj: "list_all2 (\<lambda>p q. fst p = fst q \<and> same_json (snd p) (snd q)) kvs ls \<Longrightarrow>
    mset ls = mset ms \<Longrightarrow> distinct (map fst kvs) \<Longrightarrow> same_json (JObj kvs) (JObj ms)"

text \<open>Python strings have no code point above U+10FFFF.\<close>

fun json_points :: "json \<Rightarrow> bool" where
  "json_points (JStr s) = code_points s"
| "json_points (JList xs) = list_all json_points xs"
| "json_points (JObj kvs) = list_all (\<lambda>(k, v). code_points k \<and> json_points v) kvs"
| "json_points _ = True"

lemma utf16be_char_step:
  assumes eq: "utf16be_char x @ r = utf16be_char y @ s"
    and x: "x \<le> 1114111" "\<not> surrogate x" and y: "y \<le> 1114111" "\<not> surrogate y"
  shows "x = y \<and> r = s"
proof -
  have high: "216 \<le> (55296 + (n - 65536) div 1024) div 256 \<and> (55296 + (n - 65536) div 1024) div 256 \<le> 219"
    if "n \<le> 1114111" for n :: nat using that by auto
  have low: "\<not> (216 \<le> n div 256 \<and> n div 256 \<le> 219)" if "\<not> surrogate n" for n
    using that by (auto simp: surrogate_def)
  have join: "a = b" if "a div k = b div k" "a mod k = b mod k" for a b k :: nat
    using that by (metis div_mult_mod_eq)
  consider "x < 65536" "y < 65536" | "x < 65536" "65536 \<le> y" | "65536 \<le> x" "y < 65536"
    | "65536 \<le> x" "65536 \<le> y" by linarith
  then show ?thesis
  proof cases
    case 1
    with eq show ?thesis by (auto simp: utf16be_char_def intro: join)
  next
    case 2
    with eq low [OF x(2)] high [OF y(1)] show ?thesis by (auto simp: utf16be_char_def Let_def)
  next
    case 3
    with eq low [OF y(2)] high [OF x(1)] show ?thesis by (auto simp: utf16be_char_def Let_def)
  next
    case 4
    let ?h = "\<lambda>n. 55296 + (n - 65536) div (1024::nat)"
    let ?l = "\<lambda>n. 56320 + (n - 65536) mod (1024::nat)"
    have "?h x div 256 = ?h y div 256" "?h x mod 256 = ?h y mod 256"
      "?l x div 256 = ?l y div 256" "?l x mod 256 = ?l y mod 256" and rs: "r = s"
      using eq 4 unfolding utf16be_char_def Let_def by simp_all
    then have "?h x = ?h y" "?l x = ?l y" using join by metis+
    then have "x - 65536 = y - 65536" using join [of "x - 65536" 1024 "y - 65536"] by simp
    with 4 rs show ?thesis by simp
  qed
qed

lemma utf16be_inj:
  assumes "utf16be s = utf16be t" "code_points s" "scalar_string s" "code_points t" "scalar_string t"
  shows "s = t"
  using assms
proof (induction s arbitrary: t)
  case Nil
  then show ?case by (cases t) (auto simp: utf16be_def utf16be_char_def Let_def split: if_splits)
next
  case (Cons x s)
  then obtain y u where t: "t = y # u"
    by (cases t) (auto simp: utf16be_def utf16be_char_def Let_def split: if_splits)
  have "x = y \<and> utf16be s = utf16be u"
    by (rule utf16be_char_step) (use Cons.prems in \<open>auto simp: t utf16be_def code_points_def scalar_string_def\<close>)
  moreover have "code_points s" "scalar_string s" "code_points u" "scalar_string u"
    using Cons.prems by (auto simp: t code_points_def scalar_string_def)
  ultimately show ?case using Cons.IH t by blast
qed

lemma all_ok_iff: "all_ok rs = Inr () \<longleftrightarrow> (\<forall>r \<in> set rs. r = Inr ())"
  by (induction rs) auto

lemma jcs_same:
  assumes "same_json v w" "assert_json v = Inr ()" "json_points v"
  shows "assert_json w = Inr () \<and> jcs w = jcs v"
  using assms
proof (induction v w rule: same_json.induct)
  case (same_list xs ys)
  then have "list_all2 (\<lambda>x y. assert_json y = Inr () \<and> jcs y = jcs x) xs ys"
    by (auto simp: list_all2_conv_all_nth all_ok_iff list_all_length)
  then have "map jcs ys = map jcs xs" "\<forall>y \<in> set ys. assert_json y = Inr ()"
    by (auto simp: list_all2_conv_all_nth in_set_conv_nth intro!: nth_equalityI)
  then show ?case by (auto simp: all_ok_iff)
next
  case (same_obj kvs ls ms)
  let ?F = "\<lambda>(k, v). (k, json_string k @ [58] @ jcs v)"
  let ?key = "utf16be \<circ> fst :: ustring \<times> ustring \<Rightarrow> bytes"
  have keys: "scalar_string k \<and> code_points k \<and> k \<noteq> []" and vals: "assert_json v = Inr () \<and> json_points v"
    if "(k, v) \<in> set kvs" for k v
    using same_obj.prems that by (auto simp: all_ok_iff list_all_iff)
  have rel: "list_all2 (\<lambda>p q. fst p = fst q \<and> assert_json (snd q) = Inr () \<and> jcs (snd q) = jcs (snd p)) kvs ls"
    using same_obj.IH vals unfolding list_all2_conv_all_nth by (metis nth_mem prod.collapse)
  then have F: "map ?F kvs = map ?F ls"
    by (auto simp: list_all2_conv_all_nth split_beta intro!: nth_equalityI)
  have fsts: "map fst ls = map fst kvs" using rel by (auto simp: list_all2_conv_all_nth intro!: nth_equalityI)
  have ls: "assert_json v = Inr () \<and> k \<in> fst ` set kvs" if "(k, v) \<in> set ls" for k v
  proof -
    have "k \<in> set (map fst ls)" using that by force
    then have "k \<in> fst ` set kvs" unfolding fsts by simp
    moreover have "assert_json v = Inr ()"
      using rel that unfolding list_all2_conv_all_nth in_set_conv_nth by (metis snd_conv)
    ultimately show ?thesis by blast
  qed
  have set_ms: "set ms = set ls" using same_obj.hyps(1) by (metis set_mset_mset)
  have ok: "assert_json (JObj ms) = Inr ()"
    using ls keys by (force simp: all_ok_iff set_ms)
  have inj: "inj_on ?key (set (map ?F kvs))"
  proof (rule inj_onI)
    fix p q assume p: "p \<in> set (map ?F kvs)" and q: "q \<in> set (map ?F kvs)" and eq: "?key p = ?key q"
    from p obtain k v where kv: "(k, v) \<in> set kvs" "p = ?F (k, v)" by auto
    from q obtain k' v' where kv': "(k', v') \<in> set kvs" "q = ?F (k', v')" by auto
    have "k = k'" using eq keys [OF kv(1)] keys [OF kv'(1)] kv kv' by (auto intro: utf16be_inj)
    then have "v = v'" using same_obj.hyps(2) kv(1) kv'(1) by (metis eq_key_imp_eq_value)
    with \<open>k = k'\<close> kv kv' show "p = q" by simp
  qed
  have "mset (map ?F kvs) = mset (map ?F ms)" unfolding F using same_obj.hyps(1) by simp
  then have "sort_key ?key (map ?F kvs) = sort_key ?key (map ?F ms)"
    using inj by (intro sort_key_inj_key_eq) (simp_all del: map_map)
  then show ?case using ok by simp
qed simp

text \<open>
  C29: the canonical bytes do not depend on the order of object entries.  A value that is
  accepted has the same bytes, and so the same request digest, in every insertion order
  of its entries at any depth (keys distinct, as in a dict; no code point above U+10FFFF).
\<close>

theorem canonical_bytes_unique:
  assumes same: "same_json v w" and points: "json_points v" and ok: "canonical_json_bytes v = Inr b"
  shows "canonical_json_bytes w = Inr b"
  using jcs_same [OF same] points ok by (auto simp: canonical_json_bytes_def)

theorem canonical_bytes_unique_witness:
  "canonical_json_bytes (JObj [([98], JInt 1), ([97], JNull)])
     = canonical_json_bytes (JObj [([97], JNull), ([98], JInt 1)])"
proof -
  let ?v = "JObj [([97], JNull), ([98], JInt 1)]" and ?w = "JObj [([98], JInt 1), ([97], JNull)]"
  have same: "same_json ?v ?w"
    by (rule same_obj [of _ "[([97], JNull), ([98], JInt 1)]"]) (auto intro: same_refl)
  have points: "json_points ?v" by (simp add: code_points_def)
  have ok: "canonical_json_bytes ?v = Inr (utf8 (jcs ?v))"
    by (simp add: canonical_json_bytes_def assert_scalar_def require_exact_string_def surrogate_def MAX_SAFE_def del: jcs.simps)
  show ?thesis using canonical_bytes_unique [OF same points ok] ok by (simp only:)
qed

subsection \<open>A bound on the size\<close>

fun json_weight :: "json \<Rightarrow> nat" where
  "json_weight (JStr s) = 2 + 6 * length s"
| "json_weight (JList xs) = 2 + sum_list (map (\<lambda>x. 1 + json_weight x) xs)"
| "json_weight (JObj kvs) = 2 + sum_list (map (\<lambda>(k, v). 4 + 6 * length k + json_weight v) kvs)"
| "json_weight v = length (jcs v)"

lemma length_py_join_le: "length (py_join [c] ts) \<le> sum_list (map (\<lambda>t. 1 + length t) ts)"
  by (induction ts rule: induct_list012) simp_all

lemma length_json_string: "length (json_string s) \<le> 2 + 6 * length s"
proof -
  have "length (concat (map json_char s)) \<le> 6 * length s"
    by (induction s) (auto simp: json_char_def)
  then show ?thesis by (simp add: json_string_def)
qed

lemma length_utf8_le: "length (utf8 s) \<le> 4 * length s"
  by (induction s) (auto simp: utf8_def utf8_char_def)

lemma sum_list_le: "(\<And>x. x \<in> set xs \<Longrightarrow> f x \<le> (g x :: nat)) \<Longrightarrow> sum_list (map f xs) \<le> sum_list (map g xs)"
  by (rule sum_list_mono)

lemma sum_list_permuted: "mset xs = mset ys \<Longrightarrow> sum_list (map f xs) = (sum_list (map f ys) :: nat)"
  using sum_mset_sum_list [of "map f xs"] sum_mset_sum_list [of "map f ys"] by simp

lemma length_jcs: "length (jcs v) \<le> json_weight v"
proof (induction v rule: json_weight.induct)
  case (1 s)
  then show ?case using length_json_string by simp
next
  case (2 xs)
  have "length (py_join [44] (map jcs xs)) \<le> sum_list (map (\<lambda>x. 1 + length (jcs x)) xs)"
    using length_py_join_le [of 44 "map jcs xs"] by (simp add: comp_def)
  also have "\<dots> \<le> sum_list (map (\<lambda>x. 1 + json_weight x) xs)"
    by (rule sum_list_le) (use 2 in auto)
  finally show ?case by simp
next
  case (3 kvs)
  let ?F = "\<lambda>(k, v). (k, json_string k @ [58] @ jcs v)"
  let ?entries = "sort_key (utf16be \<circ> fst) (map ?F kvs)"
  have "sum_list (map (\<lambda>e. 1 + length (snd e)) ?entries)
      = sum_list (map (\<lambda>e. 1 + length (snd e)) (map ?F kvs))"
    by (rule sum_list_permuted) simp
  also have "\<dots> = sum_list (map (\<lambda>(k, v). 2 + length (json_string k) + length (jcs v)) kvs)"
    by (induction kvs) auto
  also have "\<dots> \<le> sum_list (map (\<lambda>(k, v). 4 + 6 * length k + json_weight v) kvs)"
  proof (rule sum_list_le)
    fix p assume p: "p \<in> set kvs"
    obtain k v where kv: "p = (k, v)" by (cases p)
    have "length (jcs v) \<le> json_weight v" using 3 p kv by blast
    then show "(case p of (k, v) \<Rightarrow> 2 + length (json_string k) + length (jcs v))
        \<le> (case p of (k, v) \<Rightarrow> 4 + 6 * length k + json_weight v)"
      using length_json_string [of k] by (simp add: kv)
  qed
  finally have "length (py_join [44] (map snd ?entries))
      \<le> sum_list (map (\<lambda>(k, v). 4 + 6 * length k + json_weight v) kvs)"
    using length_py_join_le [of 44 "map snd ?entries"] by (simp add: comp_def)
  then show ?case by simp
qed simp_all

end
