(* ===== verification/Sync_Protocol.thy ===== *)
theory Sync_Protocol
  imports Sync_Codec "HOL-Library.Product_Lexorder"
begin

section \<open>The records of the synchronisation protocol\<close>

text \<open>
  The data half of \<open>src/memplex/sync_protocol.py\<close> and \<open>src/memplex/sync_repository.py\<close>:
  scopes, versions and entity keys with their texts, events, batches, pages, snapshot
  pages and signed cursors, each with the validation its constructor runs and its wire
  form.  A value that arrives from outside is a \<open>json\<close>; what the constructors accept is
  a record whose version and entity key are kept parsed (the two codecs are shown to be
  one-to-one).  Times are microseconds; the calendar text of a time, \<open>json.loads\<close>, SHA-256
  and HMAC are parameters.
\<close>

text \<open>
  What \<open>json.loads\<close> does with a text it does not read: the \<open>JSONDecodeError\<close> of a malformed
  text, or another exception (\<open>ValueError\<close> for an integer of too many digits,
  \<open>RecursionError\<close> for deep nesting).
\<close>

datatype loads_failure = JSONDecodeError | Loads_raises exn

record wire_env =
  time_to_wire :: "int \<Rightarrow> ustring"
  time_from_wire :: "ustring \<Rightarrow> int option"
  json_loads :: "ustring \<Rightarrow> loads_failure + json"

datatype sync_node_type = FunctionT | FactT | PreferenceT | ObservationT | EdgeT | ParagraphT

datatype sync_operation = Upsert | Tombstone

definition node_type_value :: "sync_node_type \<Rightarrow> ustring" where
  "node_type_value t = cp (case t of FunctionT \<Rightarrow> ''function'' | FactT \<Rightarrow> ''fact''
     | PreferenceT \<Rightarrow> ''preference'' | ObservationT \<Rightarrow> ''observation'' | EdgeT \<Rightarrow> ''edge''
     | ParagraphT \<Rightarrow> ''paragraph'')"

definition operation_value :: "sync_operation \<Rightarrow> ustring" where
  "operation_value p = cp (case p of Upsert \<Rightarrow> ''upsert'' | Tombstone \<Rightarrow> ''tombstone'')"

definition node_type_of :: "json \<Rightarrow> sync_node_type option" where
  "node_type_of j = find (\<lambda>t. j = JStr (node_type_value t))
     [FunctionT, FactT, PreferenceT, ObservationT, EdgeT, ParagraphT]"

definition operation_of :: "json \<Rightarrow> sync_operation option" where
  "operation_of j = find (\<lambda>p. j = JStr (operation_value p)) [Upsert, Tombstone]"

subsection \<open>Values of the wire\<close>

definition str_value :: "string \<Rightarrow> json \<Rightarrow> ustring result" where
  "str_value name j = (case j of JStr s \<Rightarrow> require_exact_string name False s
     | _ \<Rightarrow> Inl (TypeErr (name @ '' must be a string'')))"

definition optional_str :: "string \<Rightarrow> json \<Rightarrow> ustring option result" where
  "optional_str name j = (case j of JNull \<Rightarrow> Inr None
     | _ \<Rightarrow> bindR (str_value name j) (\<lambda>s. Inr (Some s)))"

definition uuid_value :: "string \<Rightarrow> json \<Rightarrow> ustring result" where
  "uuid_value name j = bindR (str_value name j) (require_uuid name)"

definition int_value :: "string \<Rightarrow> json \<Rightarrow> int result" where
  "int_value name j = (case j of JInt n \<Rightarrow> require_exact_int name 0 n
     | _ \<Rightarrow> Inl (TypeErr (name @ '' must be an exact int'')))"

definition json_opt :: "ustring option \<Rightarrow> json" where
  "json_opt x = (case x of None \<Rightarrow> JNull | Some s \<Rightarrow> JStr s)"

text \<open>An exact dictionary: the values of the expected fields, in the order asked for.\<close>

definition exact_dict :: "string list \<Rightarrow> string \<Rightarrow> json \<Rightarrow> json list result" where
  "exact_dict names name j =
     (case j of JObj kvs \<Rightarrow>
        if fst ` set kvs \<noteq> cp ` set names then Inl (ValueErr (name @ '' fields do not match protocol''))
        else Inr (map (\<lambda>f. the (map_of kvs (cp f))) names)
      | _ \<Rightarrow> Inl (TypeErr (name @ '' must be an exact dict'')))"

definition to_obj :: "string list \<Rightarrow> json list \<Rightarrow> json" where
  "to_obj names vs = JObj (zip (map cp names) vs)"

lemma cp_inj: "cp s = cp t \<longleftrightarrow> s = t"
proof
  assume "cp s = cp t"
  then have "map (of_char :: char \<Rightarrow> nat) s = map of_char t" by (simp add: cp_def)
  then show "s = t" by (rule map_injective) (simp add: inj_def)
qed simp

lemma guard_ok [simp]: "(if c then Inl e else r) = Inr y \<longleftrightarrow> \<not> c \<and> r = Inr y"
  by simp

lemma json_opt_eq [simp]: "json_opt x = json_opt y \<longleftrightarrow> x = y"
  by (cases x; cases y) (auto simp: json_opt_def)

lemma exact_dict_to_obj:
  assumes "distinct names" "length vs = length names"
  shows "exact_dict names name (to_obj names vs) = Inr vs"
proof -
  have d: "distinct (map cp names)" using assms(1) by (simp add: distinct_map inj_on_def cp_inj)
  have "the (map_of (zip (map cp names) vs) (cp (names ! i))) = vs ! i" if "i < length names" for i
    using that assms d map_of_zip_nth [of "map cp names" vs i] by simp
  then have "map (\<lambda>f. the (map_of (zip (map cp names) vs) (cp f))) names = vs"
    using assms by (auto intro: nth_equalityI)
  moreover have "fst ` set (zip (map cp names) vs) = cp ` set names"
  proof -
    have "fst ` set (zip (map cp names) vs) = set (map fst (zip (map cp names) vs))" by simp
    also have "\<dots> = cp ` set names" using assms by (simp only: map_fst_zip length_map set_map)
    finally show ?thesis .
  qed
  ultimately show ?thesis by (simp add: exact_dict_def to_obj_def)
qed

lemma cp_names: "distinct names \<Longrightarrow> distinct (map cp names)"
  by (simp add: distinct_map inj_on_def cp_inj)

lemma exact_dict_sorted:
  assumes "distinct (map fst kvs)"
  shows "exact_dict names name (JObj (sort_key by_key kvs)) = exact_dict names name (JObj kvs)"
proof -
  have "distinct (map fst (sort_key by_key kvs))"
    using assms by (simp only: distinct_map set_sort distinct_sort)
  from map_of_inject_set [OF this assms] show ?thesis by (simp add: exact_dict_def)
qed

text \<open>The fields of an object whose values were changed one by one and whose entries were sorted.\<close>

lemma exact_dict_entries:
  assumes "distinct names" "length vs = length names"
  shows "exact_dict names name (JObj (sort_key by_key (map (\<lambda>(k, v). (k, g v)) (zip (map cp names) vs)))) = Inr (map g vs)"
proof -
  let ?kvs = "zip (map cp names) (map g vs)"
  have "map (\<lambda>(k, v). (k, g v)) (zip (map cp names) vs) = ?kvs" by (simp add: zip_map2)
  moreover have "distinct (map fst ?kvs)"
    using cp_names [OF assms(1)] assms(2) by (simp add: map_fst_zip)
  ultimately show ?thesis
    using exact_dict_to_obj [OF assms(1), of "map g vs" name] assms(2)
    by (simp add: exact_dict_sorted to_obj_def)
qed

lemma exact_dict_in_order:
  "distinct names \<Longrightarrow> length vs = length names \<Longrightarrow>
    exact_dict names name (in_order (to_obj names vs)) = Inr (map in_order vs)"
  using exact_dict_entries [of names vs name in_order] by (simp add: to_obj_def)

lemma str_value_ok [simp]:
  "str_value name j = Inr s \<longleftrightarrow> j = JStr s \<and> scalar_string s \<and> s \<noteq> []"
  by (auto simp: str_value_def split: json.splits)

lemma uuid_value_ok [simp]:
  "uuid_value name j = Inr s \<longleftrightarrow> j = JStr s \<and> scalar_string s \<and> s \<noteq> [] \<and> canonical_uuid s"
  by (auto simp: uuid_value_def)

lemma int_value_ok [simp]: "int_value name j = Inr n \<longleftrightarrow> j = JInt n \<and> 0 \<le> n"
  by (auto simp: int_value_def split: json.splits)

definition opt_ok :: "ustring option \<Rightarrow> bool" where
  "opt_ok x = (\<forall>s. x = Some s \<longrightarrow> scalar_string s \<and> s \<noteq> [])"

lemma optional_str_ok [simp]:
  "optional_str name j = Inr x \<longleftrightarrow> j = json_opt x \<and> opt_ok x"
  by (cases j; cases x) (auto simp: optional_str_def json_opt_def opt_ok_def)

subsection \<open>Scopes\<close>

record sync_scope =
  sc_tenant :: ustring
  sc_owner :: ustring
  sc_workspace :: "ustring option"
  sc_visibility :: ustring
  sc_agent :: "ustring option"
  sc_session :: "ustring option"

definition make_scope :: "json \<Rightarrow> json \<Rightarrow> json \<Rightarrow> json \<Rightarrow> json \<Rightarrow> json \<Rightarrow> sync_scope result" where
  "make_scope tenant owner workspace visibility agent session =
     bindR (str_value ''tenant_id'' tenant) (\<lambda>t.
     bindR (str_value ''owner_subject_id'' owner) (\<lambda>ow.
     bindR (str_value ''visibility'' visibility) (\<lambda>v.
       if v \<notin> {cp ''user'', cp ''workspace'', cp ''session''} then
         Inl (ValueErr ''visibility must be user, workspace, or session'')
       else
     bindR (optional_str ''workspace_id'' workspace) (\<lambda>w.
     bindR (optional_str ''agent_id'' agent) (\<lambda>a.
     bindR (optional_str ''session_id'' session) (\<lambda>s.
       if v \<in> {cp ''workspace'', cp ''session''} \<and> w = None then
         Inl (ValueErr ''visibility requires workspace_id'')
       else if v = cp ''session'' \<and> (a = None \<or> s = None) then
         Inl (ValueErr ''session visibility requires agent_id and session_id'')
       else Inr \<lparr>sc_tenant = t, sc_owner = ow, sc_workspace = w, sc_visibility = v,
                 sc_agent = a, sc_session = s\<rparr>))))))"

definition SCOPE_FIELDS :: "string list" where
  "SCOPE_FIELDS = [''tenant_id'', ''owner_subject_id'', ''workspace_id'', ''visibility'', ''agent_id'', ''session_id'']"

definition scope_from_dict :: "json \<Rightarrow> sync_scope result" where
  "scope_from_dict j =
     bindR (exact_dict SCOPE_FIELDS ''scope'' j) (\<lambda>vs.
       make_scope (vs ! 0) (vs ! 1) (vs ! 2) (vs ! 3) (vs ! 4) (vs ! 5))"

definition scope_to_dict :: "sync_scope \<Rightarrow> json" where
  "scope_to_dict s = to_obj SCOPE_FIELDS
     [JStr (sc_tenant s), JStr (sc_owner s), json_opt (sc_workspace s), JStr (sc_visibility s),
      json_opt (sc_agent s), json_opt (sc_session s)]"

text \<open>What the constructor accepts.\<close>

definition scope_ok :: "sync_scope \<Rightarrow> bool" where
  "scope_ok s = (scalar_string (sc_tenant s) \<and> sc_tenant s \<noteq> [] \<and> scalar_string (sc_owner s) \<and> sc_owner s \<noteq> []
     \<and> scalar_string (sc_visibility s)
     \<and> opt_ok (sc_workspace s) \<and> opt_ok (sc_agent s) \<and> opt_ok (sc_session s)
     \<and> sc_visibility s \<in> {cp ''user'', cp ''workspace'', cp ''session''}
     \<and> (sc_visibility s \<noteq> cp ''user'' \<longrightarrow> sc_workspace s \<noteq> None)
     \<and> (sc_visibility s = cp ''session'' \<longrightarrow> sc_agent s \<noteq> None \<and> sc_session s \<noteq> None))"

lemma make_scope_ok:
  "make_scope t ow w v a s = Inr sc \<longleftrightarrow> t = JStr (sc_tenant sc) \<and> ow = JStr (sc_owner sc)
     \<and> w = json_opt (sc_workspace sc) \<and> v = JStr (sc_visibility sc) \<and> a = json_opt (sc_agent sc)
     \<and> s = json_opt (sc_session sc) \<and> scope_ok sc"
proof -
  have ne: "cp ''user'' \<noteq> cp ''workspace''" "cp ''user'' \<noteq> cp ''session''" "cp ''workspace'' \<noteq> cp ''session''"
    "cp ''user'' \<noteq> []" "cp ''workspace'' \<noteq> []" "cp ''session'' \<noteq> []"
    by (simp_all add: cp_def)
  show ?thesis
    by (cases sc) (use ne in \<open>auto simp: make_scope_def scope_ok_def cp_inj split del: if_split\<close>)
qed

lemma scope_roundtrip: "scope_ok s \<Longrightarrow> scope_from_dict (scope_to_dict s) = Inr s"
  by (simp add: scope_from_dict_def scope_to_dict_def exact_dict_to_obj SCOPE_FIELDS_def make_scope_ok)

subsection \<open>Versions\<close>

text \<open>
  \<open>SyncVersion\<close> orders by UTC time, then origin, then event id; strings compare by code
  points.
\<close>

datatype sync_version = SyncVersion (occurred_at: int) (version_origin: ustring) (version_event: ustring)

definition order_key :: "sync_version \<Rightarrow> int \<times> ustring \<times> ustring" where
  "order_key v = (occurred_at v, version_origin v, version_event v)"

lemma order_key_inj: "order_key v = order_key w \<longleftrightarrow> v = w"
  by (cases v; cases w) (auto simp: order_key_def)

definition version_lt :: "sync_version \<Rightarrow> sync_version \<Rightarrow> bool" where
  "version_lt v w = (order_key v < order_key w)"

instantiation sync_version :: linorder
begin

definition less_eq_sync_version :: "sync_version \<Rightarrow> sync_version \<Rightarrow> bool" where
  "less_eq_sync_version v w = (version_lt v w \<or> v = w)"

definition less_sync_version :: "sync_version \<Rightarrow> sync_version \<Rightarrow> bool" where
  "less_sync_version v w = version_lt v w"

instance
  by standard
    (auto simp: less_eq_sync_version_def less_sync_version_def version_lt_def order_key_inj [symmetric])

end

definition make_version :: "int \<Rightarrow> json \<Rightarrow> json \<Rightarrow> sync_version result" where
  "make_version t orig eid =
     bindR (str_value ''origin_node_id'' orig) (\<lambda>ow.
     bindR (uuid_value ''event_id'' eid) (\<lambda>e. Inr (SyncVersion t ow e)))"

definition version_payload :: "wire_env \<Rightarrow> sync_version \<Rightarrow> json" where
  "version_payload env v =
     JList [JStr (time_to_wire env (occurred_at v)), JStr (version_origin v), JStr (version_event v)]"

definition version_text :: "wire_env \<Rightarrow> sync_version \<Rightarrow> ustring result" where
  "version_text env v =
     bindR (canonical_json_bytes (version_payload env v)) (\<lambda>b. Inr (cp ''v1:'' @ b64url_encode b))"

text \<open>\<open>text.split(":", maxsplit=1)\<close>: what stands before and after the first separator.\<close>

definition split_once :: "'a \<Rightarrow> 'a list \<Rightarrow> ('a list \<times> 'a list) option" where
  "split_once c s = (case dropWhile (\<lambda>x. x \<noteq> c) s of [] \<Rightarrow> None
     | _ # r \<Rightarrow> Some (takeWhile (\<lambda>x. x \<noteq> c) s, r))"

definition time_value :: "wire_env \<Rightarrow> string \<Rightarrow> json \<Rightarrow> int result" where
  "time_value env name j =
     bindR (str_value name j) (\<lambda>s. case time_from_wire env s of
       None \<Rightarrow> Inl (ValueErr (name @ '' must use canonical UTC microseconds'')) | Some t \<Rightarrow> Inr t)"

text \<open>
  \<open>json.loads(b.decode("utf-8"))\<close> under \<open>except (UnicodeDecodeError, json.JSONDecodeError)\<close>,
  which raises \<open>err\<close>; any other exception of the parser escapes.
\<close>

definition load_utf8 :: "wire_env \<Rightarrow> exn \<Rightarrow> bytes \<Rightarrow> json result" where
  "load_utf8 env err b =
     (case utf8_decode b of None \<Rightarrow> Inl err | Some s \<Rightarrow>
        (case json_loads env s of
           Inr v \<Rightarrow> Inr v
         | Inl JSONDecodeError \<Rightarrow> Inl err
         | Inl (Loads_raises e) \<Rightarrow> Inl e))"

definition json_triple :: "string \<Rightarrow> json \<Rightarrow> (json \<times> json \<times> json) result" where
  "json_triple name j = (case j of JList [a, b, c] \<Rightarrow> Inr (a, b, c)
     | _ \<Rightarrow> Inl (ValueErr (name @ '' payload has invalid shape'')))"

lemma json_triple_ok [simp]: "json_triple name j = Inr (a, b, c) \<longleftrightarrow> j = JList [a, b, c]"
  by (auto simp: json_triple_def split: json.splits list.splits)

definition parse_version :: "wire_env \<Rightarrow> json \<Rightarrow> sync_version result" where
  "parse_version env j =
     bindR (str_value ''version'' j) (\<lambda>s.
     case split_once 58 s of
       None \<Rightarrow> Inl (ValueErr ''version has invalid shape'')
     | Some (tag, rest) \<Rightarrow>
        if tag \<noteq> cp ''v1'' then Inl (ValueErr ''version has invalid shape'') else
     bindR (b64url_decode ''version payload'' rest) (\<lambda>b.
     bindR (load_utf8 env (ValueErr ''version payload is not canonical JSON'') b) (\<lambda>decoded.
     bindR (json_triple ''version'' decoded) (\<lambda>(t, orig, eid).
     bindR (time_value env ''version timestamp'' t) (\<lambda>time.
     bindR (make_version time orig eid) (\<lambda>v.
     bindR (version_text env v) (\<lambda>txt.
       if txt \<noteq> s then Inl (ValueErr ''version is not canonical'') else Inr v)))))))"

definition version_ok :: "sync_version \<Rightarrow> bool" where
  "version_ok v = (scalar_string (version_origin v) \<and> version_origin v \<noteq> []
     \<and> scalar_string (version_event v) \<and> version_event v \<noteq> [] \<and> canonical_uuid (version_event v))"

lemma make_version_ok [simp]:
  "make_version t orig eid = Inr v \<longleftrightarrow> orig = JStr (version_origin v) \<and> eid = JStr (version_event v)
     \<and> occurred_at v = t \<and> version_ok v"
  by (cases v) (auto simp: make_version_def version_ok_def)

definition valid_point :: "nat \<Rightarrow> bool" where
  "valid_point n = (n \<noteq> 0 \<and> \<not> surrogate n \<and> n \<le> 1114111)"

abbreviation valid_text :: "ustring \<Rightarrow> bool" where
  "valid_text s \<equiv> list_all valid_point s"

text \<open>
  What the codecs rely on of the standard library, at one value: \<open>json.loads\<close> reads the
  canonical text of a value back as that value, its objects with their entries in the order
  of the text, and the calendar text of a time is scalar and reads back.
\<close>

definition loads_back :: "wire_env \<Rightarrow> json \<Rightarrow> bool" where
  "loads_back env v = (json_loads env (jcs v) = Inr (in_order v))"

definition time_back :: "wire_env \<Rightarrow> int \<Rightarrow> bool" where
  "time_back env t = (time_from_wire env (time_to_wire env t) = Some t
     \<and> list_all valid_point (time_to_wire env t) \<and> time_to_wire env t \<noteq> [])"

lemma valid_text_iff: "valid_text s \<longleftrightarrow> scalar_string s \<and> code_points s"
  by (auto simp: valid_point_def scalar_string_def code_points_def list_all_iff)

lemma valid_ascii [simp]: "n \<noteq> 0 \<Longrightarrow> n < 128 \<Longrightarrow> valid_point n"
  by (simp add: valid_point_def surrogate_def)

lemma hex_digit_valid: "n < 16 \<Longrightarrow> valid_point (hex_digit_of n)"
  by (rule valid_ascii) (auto simp: hex_digit_of_def)

lemma json_char_valid:
  assumes "valid_point n" shows "valid_text (json_char n)"
proof (cases "n < 32")
  case True
  then have "valid_point (hex_digit_of (n div 16))" "valid_point (hex_digit_of (n mod 16))"
    by (auto intro: hex_digit_valid)
  then show ?thesis using assms by (simp add: json_char_def)
next
  case False
  then show ?thesis using assms by (simp add: json_char_def)
qed

lemma json_string_valid: "valid_text s \<Longrightarrow> valid_text (json_string s)"
  using json_char_valid by (auto simp: json_string_def list_all_iff)

lemma py_join_valid: "list_all valid_text ts \<Longrightarrow> valid_text (py_join [44] ts)"
  by (induction ts rule: induct_list012) simp_all

lemma json_strings_valid:
  assumes "list_all valid_text ss" shows "valid_text (jcs (JList (map JStr ss)))"
proof -
  have "valid_text (py_join [44] (map json_string ss))"
    using assms by (intro py_join_valid) (auto simp: list_all_iff json_string_valid [unfolded list_all_iff])
  then show ?thesis by (simp add: comp_def)
qed

lemma load_utf8_back:
  assumes "loads_back env (JList (map JStr ss))" "list_all valid_text ss"
  shows "load_utf8 env err (utf8 (jcs (JList (map JStr ss)))) = Inr (JList (map JStr ss))"
  using assms json_strings_valid [OF assms(2)] unfolding valid_text_iff
  by (simp add: load_utf8_def loads_back_def utf8_roundtrip del: jcs.simps)

lemma utf8_is_bytes: "code_points s \<Longrightarrow> is_bytes (utf8 s)"
  using utf8_bytes by (simp add: is_bytes_def)

lemma decode_utf8_text:
  assumes "code_points s" "s \<noteq> []"
  shows "b64url_decode name (b64url_encode (utf8 s)) = Inr (utf8 s)"
proof (rule b64url_decode_encode)
  show "utf8 s \<noteq> []" using assms(2) length_utf8 [of s] by auto
qed (rule utf8_is_bytes [OF assms(1)])

lemma canonical_uuid_valid: "canonical_uuid s \<Longrightarrow> valid_text s \<and> s \<noteq> []"
proof -
  assume u: "canonical_uuid s"
  have "valid_point (s ! i)" if "i < length s" for i
  proof -
    have "(i, s ! i) \<in> set (enumerate 0 s)" using that by (simp add: in_set_enumerate_eq)
    with u have "if i \<in> {8, 13, 18, 23} then s ! i = 45 else lower_hex (s ! i)"
      by (auto simp: canonical_uuid_def list_all_iff)
    then show ?thesis by (auto simp: lower_hex_def split: if_splits intro: valid_ascii)
  qed
  moreover have "s \<noteq> []" using u by (auto simp: canonical_uuid_def)
  ultimately show ?thesis by (simp add: list_all_length)
qed

lemma split_once_prefix: "c \<notin> set w \<Longrightarrow> split_once c (w @ c # r) = Some (w, r)"
  by (auto simp: split_once_def dropWhile_append takeWhile_append)

lemma jcs_list_nonempty [simp]: "jcs (JList xs) \<noteq> []"
  by simp

lemma assert_json_strings: "list_all valid_text ss \<Longrightarrow> assert_json (JList (map JStr ss)) = Inr ()"
  by (induction ss) (simp_all add: valid_text_iff)

lemma canonical_json_strings:
  "list_all valid_text ss \<Longrightarrow>
    canonical_json_bytes (JList (map JStr ss)) = Inr (utf8 (jcs (JList (map JStr ss))))"
  unfolding canonical_json_bytes_def by (simp only: assert_json_strings bindR.simps)

lemma v1_tag: "cp ''v1:'' = cp ''v1'' @ [58]" "58 \<notin> set (cp ''v1'')"
  by (simp_all add: cp_def)

lemma parse_version_sound:
  assumes "parse_version env j = Inr v"
  shows "\<exists>txt. j = JStr txt \<and> version_text env v = Inr txt \<and> version_ok v"
  using assms
  by (auto simp: parse_version_def split: option.splits)

lemma version_roundtrip:
  assumes ok: "version_ok v" "code_points (version_origin v)"
    and time: "time_back env (occurred_at v)" and loads: "loads_back env (version_payload env v)"
  shows "\<exists>txt. version_text env v = Inr txt \<and> parse_version env (JStr txt) = Inr v"
proof -
  let ?ss = "[time_to_wire env (occurred_at v), version_origin v, version_event v]"
  let ?w = "jcs (version_payload env v)"
  have payload: "version_payload env v = JList (map JStr ?ss)" by (simp add: version_payload_def)
  have ss: "list_all valid_text ?ss"
    using ok time canonical_uuid_valid [of "version_event v"]
    by (simp add: version_ok_def time_back_def valid_text_iff)
  have wv: "valid_text ?w" unfolding payload by (rule json_strings_valid [OF ss])
  have shown: "version_text env v = Inr (cp ''v1'' @ 58 # b64url_encode (utf8 ?w))"
    unfolding version_text_def payload canonical_json_strings [OF ss] by (simp add: v1_tag del: jcs.simps)
  have cpw: "code_points ?w" using wv by (simp only: valid_text_iff)
  have bytes: "is_bytes (utf8 ?w)" "?w \<noteq> []" by (rule utf8_is_bytes [OF cpw]) (simp add: payload)
  have scalar: "scalar_string (cp ''v1'' @ 58 # b64url_encode (utf8 ?w))"
    using b64_text_scalar [OF b64url_encode_text [OF bytes(1)]]
    by (auto simp: scalar_string_def cp_def surrogate_def)
  have "load_utf8 env (ValueErr ''version payload is not canonical JSON'') (utf8 ?w) = Inr (JList (map JStr ?ss))"
    unfolding payload by (rule load_utf8_back [OF _ ss]) (use loads payload in simp)
  moreover have "b64url_decode ''version payload'' (b64url_encode (utf8 ?w)) = Inr (utf8 ?w)"
    by (rule decode_utf8_text [OF cpw bytes(2)])
  moreover have "str_value ''version'' (JStr (cp ''v1'' @ 58 # b64url_encode (utf8 ?w)))
      = Inr (cp ''v1'' @ 58 # b64url_encode (utf8 ?w))" using scalar by simp
  moreover have "time_value env ''version timestamp'' (JStr (time_to_wire env (occurred_at v)))
      = Inr (occurred_at v)"
  proof -
    have "str_value ''version timestamp'' (JStr (time_to_wire env (occurred_at v)))
        = Inr (time_to_wire env (occurred_at v))"
      using time by (simp add: time_back_def valid_text_iff)
    then show ?thesis using time by (simp add: time_value_def time_back_def)
  qed
  moreover have "make_version (occurred_at v) (JStr (version_origin v)) (JStr (version_event v)) = Inr v"
    using ok by simp
  ultimately have "parse_version env (JStr (cp ''v1'' @ 58 # b64url_encode (utf8 ?w))) = Inr v"
    using shown by (simp add: parse_version_def json_triple_def split_once_prefix v1_tag)
  with shown show ?thesis by blast
qed

text \<open>
  the text of a version.  A version with a valid origin and event id has a text, and
  parsing the text gives the version back (given that \<open>json.loads\<close> reads back its payload
  and the calendar text of its time is plain text that reads back); and whatever text is
  accepted is the text of the version it gives, so no version has two accepted texts.
\<close>
theorem version_codec:
  assumes ok: "version_ok v" "code_points (version_origin v)"
    and time: "time_back env (occurred_at v)" and loads: "loads_back env (version_payload env v)"
  shows "(\<exists>txt. version_text env v = Inr txt \<and> parse_version env (JStr txt) = Inr v)
    \<and> (\<forall>j w. parse_version env j = Inr w \<longrightarrow> (\<exists>txt. j = JStr txt \<and> version_text env w = Inr txt \<and> version_ok w))"
  using version_roundtrip [OF assms] parse_version_sound by blast

definition epoch_text :: ustring where
  "epoch_text = cp ''1970-01-01T00:00:00.000000Z''"

definition sample_uuid :: ustring where
  "sample_uuid = cp ''00000000-0000-4000-8000-000000000001''"

text \<open>An environment whose only time is the epoch and whose reader knows one value.\<close>

definition sample_env :: "json \<Rightarrow> wire_env" where
  "sample_env v = \<lparr>time_to_wire = (\<lambda>_. epoch_text), time_from_wire = (\<lambda>s. if s = epoch_text then Some 0 else None),
     json_loads = (\<lambda>s. if s = jcs v then Inr (in_order v) else Inl JSONDecodeError)\<rparr>"

lemma cp_ascii: "s \<noteq> [] \<Longrightarrow> list_all (\<lambda>c. 0 < (of_char c :: nat) \<and> (of_char c :: nat) < 128) s \<Longrightarrow> valid_text (cp s) \<and> cp s \<noteq> []"
  by (auto simp: cp_def list_all_iff)

lemma epoch_ok: "time_back (sample_env v) 0"
  using cp_ascii [of "''1970-01-01T00:00:00.000000Z''"]
  by (simp add: time_back_def sample_env_def epoch_text_def)

lemma sample_uuid_ok: "canonical_uuid sample_uuid"
  by (simp add: canonical_uuid_def sample_uuid_def cp_def lower_hex_def)

lemma uuid_scalar: "canonical_uuid s \<Longrightarrow> scalar_string s \<and> s \<noteq> [] \<and> code_points s"
  using canonical_uuid_valid valid_text_iff by blast

definition sample_version :: sync_version where
  "sample_version = SyncVersion 0 (cp ''node-a'') sample_uuid"

lemma node_a_ok: "scalar_string (cp ''node-a'') \<and> code_points (cp ''node-a'') \<and> cp ''node-a'' \<noteq> []"
  using cp_ascii [of "''node-a''"] unfolding valid_text_iff by simp

lemma sample_version_ok: "version_ok sample_version"
  using node_a_ok uuid_scalar [OF sample_uuid_ok] sample_uuid_ok
  by (simp add: version_ok_def sample_version_def)

theorem version_codec_witness:
  "\<exists>env txt. version_text env sample_version = Inr txt \<and> parse_version env (JStr txt) = Inr sample_version"
proof -
  let ?v = "version_payload (sample_env JNull) sample_version"
  let ?env = "sample_env ?v"
  have p: "version_payload ?env sample_version = ?v" by (simp add: version_payload_def sample_env_def)
  have "loads_back ?env (version_payload ?env sample_version)"
    unfolding p by (simp add: loads_back_def sample_env_def del: jcs.simps)
  moreover have "time_back ?env (occurred_at sample_version)"
    using epoch_ok by (simp add: sample_version_def)
  moreover have "code_points (version_origin sample_version)"
    using node_a_ok by (simp add: sample_version_def)
  ultimately show ?thesis using version_codec [OF sample_version_ok] by blast
qed

subsection \<open>Entity keys\<close>

datatype entity_key = NodeKey ustring | EdgeKey ustring ustring ustring

definition MAX_ENTITY_ID_BYTES :: nat where "MAX_ENTITY_ID_BYTES = 256"

definition MAX_ENTITY_KEY_BYTES :: nat where "MAX_ENTITY_KEY_BYTES = 1200"

definition validate_entity_id :: "string \<Rightarrow> json \<Rightarrow> ustring result" where
  "validate_entity_id name j =
     bindR (str_value name j) (\<lambda>s.
       if MAX_ENTITY_ID_BYTES < length (utf8 s) then Inl (ValueErr (name @ '' exceeds maximum size''))
       else Inr s)"

definition edge_payload :: "ustring \<Rightarrow> ustring \<Rightarrow> ustring \<Rightarrow> json" where
  "edge_payload s t e = JList (map JStr [s, t, e])"

fun key_text :: "entity_key \<Rightarrow> ustring result" where
  "key_text (NodeKey i) = Inr (cp ''node:v1:'' @ b64url_encode (utf8 i))"
| "key_text (EdgeKey s t e) =
     bindR (canonical_json_bytes (edge_payload s t e)) (\<lambda>b. Inr (cp ''edge:v1:'' @ b64url_encode b))"

definition check_key_size :: "entity_key \<Rightarrow> entity_key result" where
  "check_key_size k = bindR (key_text k) (\<lambda>txt.
     if MAX_ENTITY_KEY_BYTES < length txt then Inl (ValueErr ''entity key exceeds maximum size'') else Inr k)"

definition make_node_key :: "json \<Rightarrow> entity_key result" where
  "make_node_key i = bindR (validate_entity_id ''node_id'' i) (\<lambda>s. check_key_size (NodeKey s))"

definition make_edge_key :: "json \<Rightarrow> json \<Rightarrow> json \<Rightarrow> entity_key result" where
  "make_edge_key s t e =
     bindR (validate_entity_id ''source_id'' s) (\<lambda>s.
     bindR (validate_entity_id ''target_id'' t) (\<lambda>t.
     bindR (validate_entity_id ''edge_type'' e) (\<lambda>e. check_key_size (EdgeKey s t e))))"

definition key_parts :: "ustring \<Rightarrow> (ustring \<times> ustring) result" where
  "key_parts s = (case split_on 58 s of
       [kind, tag, body] \<Rightarrow>
         if tag = cp ''v1'' then Inr (kind, body) else Inl (ValueErr ''unknown entity key version'')
     | _ \<Rightarrow> Inl (ValueErr ''unknown entity key version''))"

definition decode_key :: "wire_env \<Rightarrow> ustring \<Rightarrow> bytes \<Rightarrow> entity_key result" where
  "decode_key env kind raw =
     (if kind = cp ''node'' then
        (case utf8_decode raw of None \<Rightarrow> Inl (ValueErr ''node id is not UTF-8'')
         | Some i \<Rightarrow> make_node_key (JStr i))
      else if kind = cp ''edge'' then
        bindR (load_utf8 env (ValueErr ''edge payload is not canonical JSON'') raw) (\<lambda>v.
        bindR (json_triple ''edge'' v) (\<lambda>(a, b, c). make_edge_key a b c))
      else Inl (ValueErr ''unknown entity key kind''))"

definition parse_key :: "wire_env \<Rightarrow> json \<Rightarrow> entity_key result" where
  "parse_key env j =
     bindR (str_value ''entity_key'' j) (\<lambda>s.
       if list_ex (\<lambda>c. 128 \<le> c) s then Inl (ValueErr ''entity key is not ASCII'')
       else if MAX_ENTITY_KEY_BYTES < length s then Inl (ValueErr ''entity key exceeds maximum size'')
       else bindR (key_parts s) (\<lambda>(kind, body).
         bindR (b64url_decode ''entity_key payload'' body) (\<lambda>raw.
         bindR (decode_key env kind raw) (\<lambda>k.
         bindR (key_text k) (\<lambda>txt.
           if txt \<noteq> s then Inl (ValueErr ''entity key is not canonical'') else Inr k)))))"

fun key_ids :: "entity_key \<Rightarrow> ustring list" where
  "key_ids (NodeKey i) = [i]"
| "key_ids (EdgeKey s t e) = [s, t, e]"

definition key_ok :: "entity_key \<Rightarrow> bool" where
  "key_ok k = ((\<forall>s \<in> set (key_ids k). scalar_string s \<and> s \<noteq> [] \<and> length (utf8 s) \<le> 256)
     \<and> (\<exists>txt. key_text k = Inr txt \<and> length txt \<le> 1200))"

lemma check_key_size_ok [simp]:
  "check_key_size k = Inr k' \<longleftrightarrow> k' = k \<and> (\<exists>txt. key_text k = Inr txt \<and> length txt \<le> 1200)"
  by (auto simp: check_key_size_def MAX_ENTITY_KEY_BYTES_def)

lemma validate_entity_id_ok [simp]:
  "validate_entity_id name j = Inr s \<longleftrightarrow> j = JStr s \<and> scalar_string s \<and> s \<noteq> [] \<and> length (utf8 s) \<le> 256"
  by (auto simp: validate_entity_id_def MAX_ENTITY_ID_BYTES_def)

lemma make_node_key_ok: "make_node_key j = Inr k \<longleftrightarrow> (\<exists>i. j = JStr i \<and> k = NodeKey i \<and> key_ok k)"
  by (auto simp: make_node_key_def key_ok_def simp del: key_text.simps)

lemma make_edge_key_ok:
  "make_edge_key a b c = Inr k \<longleftrightarrow>
     (\<exists>s t e. a = JStr s \<and> b = JStr t \<and> c = JStr e \<and> k = EdgeKey s t e \<and> key_ok k)"
  by (auto simp: make_edge_key_def key_ok_def simp del: key_text.simps)

lemma decode_key_sound: "decode_key env kind raw = Inr k \<Longrightarrow> key_ok k"
  by (auto simp: decode_key_def make_node_key_ok make_edge_key_ok split: option.splits if_splits)

lemma parse_key_sound:
  assumes "parse_key env j = Inr k"
  shows "key_ok k \<and> (\<exists>txt. j = JStr txt \<and> key_text k = Inr txt)"
  using assms decode_key_sound unfolding parse_key_def
  by (auto simp del: key_text.simps)

text \<open>The parts of a key's text: the kind, the tag and the code, which have no colon.\<close>

definition key_kind :: "entity_key \<Rightarrow> ustring" where
  "key_kind k = (case k of NodeKey _ \<Rightarrow> cp ''node'' | EdgeKey _ _ _ \<Rightarrow> cp ''edge'')"

definition key_raw :: "entity_key \<Rightarrow> ustring" where
  "key_raw k = (case k of NodeKey i \<Rightarrow> i | EdgeKey s t e \<Rightarrow> jcs (edge_payload s t e))"

definition key_points :: "entity_key \<Rightarrow> bool" where
  "key_points k = (\<forall>s \<in> set (key_ids k). code_points s)"

lemma key_raw_valid:
  assumes "key_ok k" "key_points k" shows "valid_text (key_raw k) \<and> key_raw k \<noteq> []"
proof (cases k)
  case (NodeKey i)
  then show ?thesis using assms by (simp add: key_raw_def key_ok_def key_points_def valid_text_iff)
next
  case (EdgeKey s t e)
  then have "list_all valid_text [s, t, e]"
    using assms by (simp add: key_ok_def key_points_def valid_text_iff)
  from json_strings_valid [OF this] show ?thesis
    by (simp add: EdgeKey key_raw_def edge_payload_def del: jcs.simps list.map)
qed

lemma key_text_parts:
  assumes "key_ok k" "key_points k"
  shows "key_text k = Inr (key_kind k @ 58 # cp ''v1'' @ 58 # b64url_encode (utf8 (key_raw k)))"
proof (cases k)
  case (NodeKey i)
  then show ?thesis by (simp add: key_kind_def key_raw_def cp_def)
next
  case (EdgeKey s t e)
  then have "list_all valid_text [s, t, e]"
    using assms by (simp add: key_ok_def key_points_def valid_text_iff)
  from canonical_json_strings [OF this] show ?thesis
    by (simp add: EdgeKey key_kind_def key_raw_def edge_payload_def del: jcs.simps list.map) (simp add: cp_def)
qed

definition key_readable :: "wire_env \<Rightarrow> entity_key \<Rightarrow> bool" where
  "key_readable env k = (case k of NodeKey _ \<Rightarrow> True | EdgeKey s t e \<Rightarrow> loads_back env (edge_payload s t e))"

lemma decode_key_back:
  assumes "key_ok k" "key_points k" "key_readable env k"
  shows "decode_key env (key_kind k) (utf8 (key_raw k)) = Inr k"
proof (cases k)
  case (NodeKey i)
  then have "utf8_decode (utf8 i) = Some i"
    using assms by (intro utf8_roundtrip) (auto simp: key_ok_def key_points_def)
  then show ?thesis using NodeKey assms
    by (simp add: decode_key_def key_kind_def key_raw_def make_node_key_ok del: key_text.simps)
next
  case (EdgeKey s t e)
  then have v: "list_all valid_text [s, t, e]"
    using assms by (simp add: key_ok_def key_points_def valid_text_iff)
  have l: "loads_back env (JList (map JStr [s, t, e]))"
    using assms(3) EdgeKey by (simp add: key_readable_def edge_payload_def)
  have "make_edge_key (JStr s) (JStr t) (JStr e) = Inr k"
    using assms EdgeKey by (simp add: make_edge_key_ok)
  then show ?thesis
    using load_utf8_back [OF l v] EdgeKey
    by (simp add: decode_key_def key_kind_def key_raw_def edge_payload_def json_triple_def cp_inj del: jcs.simps)
qed

lemma parse_key_text:
  assumes ok: "key_ok k" "key_points k" "key_readable env k"
  shows "\<exists>txt. key_text k = Inr txt \<and> parse_key env (JStr txt) = Inr k"
proof -
  let ?raw = "key_raw k" and ?code = "b64url_encode (utf8 (key_raw k))"
  let ?txt = "key_kind k @ 58 # cp ''v1'' @ 58 # ?code"
  have raw: "code_points ?raw" "?raw \<noteq> []" using key_raw_valid [OF ok(1,2)] by (auto simp: valid_text_iff)
  have shown: "key_text k = Inr ?txt" by (rule key_text_parts [OF ok(1,2)])
  have kinds: "list_all valid_point (key_kind k) \<and> 58 \<notin> set (key_kind k) \<and> (\<forall>c \<in> set (key_kind k). c < 128)"
    by (cases k) (simp_all add: key_kind_def cp_def)
  have enc: "scalar_string ?code \<and> 58 \<notin> set ?code \<and> 46 \<notin> set ?code \<and> (\<forall>c \<in> set ?code. c < 128)"
    by (rule b64_text_scalar [OF b64url_encode_text [OF utf8_is_bytes [OF raw(1)]]])
  have scalar: "scalar_string ?txt"
    using kinds enc unfolding valid_text_iff by (auto simp: scalar_string_def cp_def surrogate_def)
  have ascii: "\<not> list_ex (\<lambda>c. 128 \<le> c) ?txt"
    using kinds enc by (auto simp: list_ex_iff cp_def)
  have size: "length ?txt \<le> 1200" using ok(1) shown by (auto simp: key_ok_def)
  have parts: "key_parts ?txt = Inr (key_kind k, ?code)"
  proof -
    have "split_on 58 ?txt = [key_kind k, cp ''v1'', ?code]"
      using kinds enc v1_tag by (simp add: split_on_append split_on_single)
    then show ?thesis by (simp add: key_parts_def)
  qed
  have "parse_key env (JStr ?txt) = Inr k"
    using scalar ascii size parts decode_utf8_text [OF raw] decode_key_back [OF ok] shown
    by (simp add: parse_key_def str_value_def require_exact_string_def MAX_ENTITY_KEY_BYTES_def)
  with shown show ?thesis by blast
qed

text \<open>
  the text of an entity key.  Every key a constructor accepts has a text within 1200
  bytes that parses back to it (for an edge, given that \<open>json.loads\<close> reads back its three
  ids); whatever is accepted is the text of the accepted key it gives; so two accepted
  keys have the same text only if they are the same key.  The text of a node never comes
  near the limit: it is at most 350 characters.
\<close>
theorem entity_key_codec:
  assumes ok: "key_ok k" "key_points k" "key_readable env k"
  shows "(\<exists>txt. key_text k = Inr txt \<and> length txt \<le> 1200 \<and> parse_key env (JStr txt) = Inr k)
    \<and> (\<forall>j k'. parse_key env j = Inr k' \<longrightarrow> key_ok k' \<and> (\<exists>txt. j = JStr txt \<and> key_text k' = Inr txt))
    \<and> (\<forall>k'. key_ok k' \<and> key_points k' \<and> key_readable env k' \<and> key_text k' = key_text k \<longrightarrow> k' = k)
    \<and> (\<forall>i txt. k = NodeKey i \<and> key_text k = Inr txt \<longrightarrow> length txt \<le> 350)"
proof (intro conjI allI impI)
  show "\<exists>txt. key_text k = Inr txt \<and> length txt \<le> 1200 \<and> parse_key env (JStr txt) = Inr k"
    using parse_key_text [OF ok] ok(1) by (auto simp: key_ok_def)
next
  fix k' assume "key_ok k' \<and> key_points k' \<and> key_readable env k' \<and> key_text k' = key_text k"
  then show "k' = k" using parse_key_text [of k' env] parse_key_text [OF ok] by auto
next
  fix i w assume node: "k = NodeKey i \<and> key_text k = Inr w"
  then have "length (utf8 i) \<le> 256" using ok(1) by (simp add: key_ok_def)
  with node length_b64url_encode [of "utf8 i"] show "length w \<le> 350" by (auto simp: cp_def)
qed (use parse_key_sound in blast)+

theorem entity_key_codec_witness:
  "\<exists>txt env. key_text (NodeKey (cp ''node-a'')) = Inr txt \<and> parse_key env (JStr txt) = Inr (NodeKey (cp ''node-a''))"
proof -
  have shown: "key_text (NodeKey (cp ''node-a'')) = Inr (cp ''node:v1:'' @ b64url_encode (utf8 (cp ''node-a'')))"
    by simp
  have bytes: "utf8 (cp ''node-a'') = [110, 111, 100, 101, 45, 97]" by (simp add: utf8_def utf8_char_def cp_def)
  have "key_ok (NodeKey (cp ''node-a''))"
    unfolding key_ok_def using node_a_ok by (simp add: bytes) (simp add: cp_def)
  moreover have "key_points (NodeKey (cp ''node-a''))" using node_a_ok by (simp add: key_points_def)
  moreover have "key_readable (sample_env JNull) (NodeKey (cp ''node-a''))" by (simp add: key_readable_def)
  ultimately show ?thesis using entity_key_codec by blast
qed

subsection \<open>Events\<close>

record sync_event =
  ev_id :: ustring
  ev_origin :: ustring
  ev_type :: sync_node_type
  ev_key :: entity_key
  ev_operation :: sync_operation
  ev_version :: sync_version
  ev_scope :: sync_scope
  ev_payload :: "json option"

definition is_edge_key :: "entity_key \<Rightarrow> bool" where
  "is_edge_key k = (case k of EdgeKey _ _ _ \<Rightarrow> True | _ \<Rightarrow> False)"

text \<open>
  The constructor's checks, on the parts already parsed.  A payload is an exact dict or
  absent; freezing it is the identity on values.
\<close>

definition check_payload :: "sync_operation \<Rightarrow> json \<Rightarrow> json option result" where
  "check_payload oper payload =
     (case payload of
        JObj kvs \<Rightarrow>
          if oper = Tombstone then Inl (ValueErr ''tombstone payload must be None'')
          else bindR (assert_json payload) (\<lambda>_. Inr (Some payload))
      | JNull \<Rightarrow>
          if oper = Upsert then Inl (TypeErr ''upsert payload must be an exact dict'') else Inr None
      | _ \<Rightarrow>
          if oper = Upsert then Inl (TypeErr ''upsert payload must be an exact dict'')
          else Inl (ValueErr ''tombstone payload must be None''))"

definition make_event ::
    "wire_env \<Rightarrow> json \<Rightarrow> json \<Rightarrow> json \<Rightarrow> sync_node_type \<Rightarrow> entity_key \<Rightarrow> sync_operation \<Rightarrow>
     json \<Rightarrow> sync_scope \<Rightarrow> json \<Rightarrow> sync_event result" where
  "make_event env protocol eid orig ntype key oper ver scope payload =
     (if protocol \<noteq> JInt 1 then Inl (ValueErr ''unsupported protocol_version'') else
     bindR (uuid_value ''event_id'' eid) (\<lambda>e.
     bindR (str_value ''origin_node_id'' orig) (\<lambda>ow.
     bindR (parse_version env ver) (\<lambda>v.
       if version_origin v \<noteq> ow \<or> version_event v \<noteq> e then
         Inl (ValueErr ''version must bind event id and origin node'')
       else if (ntype = EdgeT) \<noteq> is_edge_key key then
         Inl (ValueErr ''node_type and entity_key kind must agree'')
       else bindR (check_payload oper payload) (\<lambda>p.
         Inr \<lparr>ev_id = e, ev_origin = ow, ev_type = ntype, ev_key = key, ev_operation = oper,
              ev_version = v, ev_scope = scope, ev_payload = p\<rparr>)))))"

definition EVENT_FIELDS :: "string list" where
  "EVENT_FIELDS = [''protocol_version'', ''event_id'', ''origin_node_id'', ''node_type'', ''entity_key'',
     ''operation'', ''version'', ''scope'', ''payload'']"

definition event_from_dict :: "wire_env \<Rightarrow> json \<Rightarrow> sync_event result" where
  "event_from_dict env j =
     bindR (exact_dict EVENT_FIELDS ''event'' j) (\<lambda>vs.
     case (node_type_of (vs ! 3), operation_of (vs ! 5)) of
       (Some t, Some p) \<Rightarrow>
         bindR (parse_key env (vs ! 4)) (\<lambda>k.
         bindR (scope_from_dict (vs ! 7)) (\<lambda>sc.
           make_event env (vs ! 0) (vs ! 1) (vs ! 2) t k p (vs ! 6) sc (vs ! 8)))
     | _ \<Rightarrow> Inl (ValueErr ''event uses an unknown enum value''))"

definition event_to_dict :: "wire_env \<Rightarrow> sync_event \<Rightarrow> json result" where
  "event_to_dict env e =
     bindR (key_text (ev_key e)) (\<lambda>k.
     bindR (version_text env (ev_version e)) (\<lambda>v.
       Inr (to_obj EVENT_FIELDS
         [JInt 1, JStr (ev_id e), JStr (ev_origin e), JStr (node_type_value (ev_type e)), JStr k,
          JStr (operation_value (ev_operation e)), JStr v, scope_to_dict (ev_scope e),
          (case ev_payload e of None \<Rightarrow> JNull | Some p \<Rightarrow> p)])))"

text \<open>What the constructors accept.\<close>

definition event_ok :: "sync_event \<Rightarrow> bool" where
  "event_ok e = (canonical_uuid (ev_id e) \<and> scalar_string (ev_origin e) \<and> ev_origin e \<noteq> []
     \<and> version_ok (ev_version e) \<and> version_origin (ev_version e) = ev_origin e
     \<and> version_event (ev_version e) = ev_id e \<and> key_ok (ev_key e)
     \<and> (ev_type e = EdgeT \<longleftrightarrow> is_edge_key (ev_key e)) \<and> scope_ok (ev_scope e)
     \<and> (case ev_payload e of None \<Rightarrow> ev_operation e = Tombstone
        | Some p \<Rightarrow> ev_operation e = Upsert \<and> (\<exists>kvs. p = JObj kvs) \<and> assert_json p = Inr ()))"

lemma node_type_of_value [simp]: "node_type_of (JStr (node_type_value t)) = Some t"
  by (cases t) (simp_all add: node_type_of_def node_type_value_def cp_inj)

lemma operation_of_value [simp]: "operation_of (JStr (operation_value p)) = Some p"
  by (cases p) (simp_all add: operation_of_def operation_value_def cp_inj)

lemma check_payload_ok:
  "check_payload oper j = Inr p \<longleftrightarrow> j = (case p of None \<Rightarrow> JNull | Some q \<Rightarrow> q) \<and>
     (case p of None \<Rightarrow> oper = Tombstone
      | Some q \<Rightarrow> oper = Upsert \<and> (\<exists>kvs. q = JObj kvs) \<and> assert_json q = Inr ())"
  by (cases oper; cases j; cases p) (auto simp: check_payload_def simp del: assert_json.simps)

lemma scope_from_dict_sound: "scope_from_dict j = Inr s \<Longrightarrow> scope_ok s"
  by (auto simp: scope_from_dict_def make_scope_ok)

lemma make_event_ok:
  "make_event env protocol eid orig t k p ver sc payload = Inr e \<longleftrightarrow>
     protocol = JInt 1 \<and> eid = JStr (ev_id e) \<and> canonical_uuid (ev_id e)
     \<and> orig = JStr (ev_origin e) \<and> scalar_string (ev_origin e) \<and> ev_origin e \<noteq> []
     \<and> parse_version env ver = Inr (ev_version e) \<and> version_origin (ev_version e) = ev_origin e
     \<and> version_event (ev_version e) = ev_id e \<and> (t = EdgeT \<longleftrightarrow> is_edge_key k)
     \<and> ev_type e = t \<and> ev_key e = k \<and> ev_operation e = p \<and> ev_scope e = sc
     \<and> check_payload p payload = Inr (ev_payload e)"
  using uuid_scalar [of "ev_id e"]
  by (cases e) (auto simp: make_event_def split del: if_split)

lemma event_from_dict_sound:
  assumes "event_from_dict env j = Inr e"
  shows "event_ok e"
  using assms parse_version_sound parse_key_sound scope_from_dict_sound
  by (fastforce simp: event_from_dict_def make_event_ok event_ok_def check_payload_ok split: option.splits)

definition event_points :: "sync_event \<Rightarrow> bool" where
  "event_points e = (code_points (ev_origin e) \<and> key_points (ev_key e))"

definition event_readable :: "wire_env \<Rightarrow> sync_event \<Rightarrow> bool" where
  "event_readable env e = (time_back env (occurred_at (ev_version e))
     \<and> loads_back env (version_payload env (ev_version e)) \<and> key_readable env (ev_key e))"

text \<open>
  Events survive the wire.  Whatever the decoder accepts is a valid event: bound to
  its version, its key of the right kind, its scope complete for its visibility, a
  payload exactly when it is an upsert; and the wire form of every valid event decodes to
  that event (given that \<open>json.loads\<close> reads the canonical texts inside its version and its
  key back, and the calendar text of its time reads back).
\<close>
theorem event_wire_roundtrip:
  assumes ok: "event_ok e" and points: "event_points e" and env: "event_readable env e"
  shows "(\<exists>j. event_to_dict env e = Inr j \<and> event_from_dict env j = Inr e)
    \<and> (\<forall>j f. event_from_dict env j = Inr f \<longrightarrow> event_ok f)"
proof (intro conjI allI impI)
  obtain kt where kt: "key_text (ev_key e) = Inr kt" "parse_key env (JStr kt) = Inr (ev_key e)"
    using parse_key_text [of "ev_key e" env] ok points env
    by (auto simp: event_ok_def event_points_def event_readable_def)
  have "code_points (version_origin (ev_version e))"
    using ok points by (simp add: event_ok_def event_points_def)
  then obtain vt where vt: "version_text env (ev_version e) = Inr vt"
    "parse_version env (JStr vt) = Inr (ev_version e)"
    using version_roundtrip [of "ev_version e" env] ok env
    by (auto simp: event_ok_def event_readable_def)
  let ?vs = "[JInt 1, JStr (ev_id e), JStr (ev_origin e), JStr (node_type_value (ev_type e)), JStr kt,
    JStr (operation_value (ev_operation e)), JStr vt, scope_to_dict (ev_scope e),
    (case ev_payload e of None \<Rightarrow> JNull | Some p \<Rightarrow> p)]"
  have "exact_dict EVENT_FIELDS ''event'' (to_obj EVENT_FIELDS ?vs) = Inr ?vs"
    by (rule exact_dict_to_obj) (simp_all add: EVENT_FIELDS_def)
  moreover have "scope_from_dict (scope_to_dict (ev_scope e)) = Inr (ev_scope e)"
    using ok by (intro scope_roundtrip) (simp add: event_ok_def)
  moreover have "make_event env (JInt 1) (JStr (ev_id e)) (JStr (ev_origin e)) (ev_type e) (ev_key e)
      (ev_operation e) (JStr vt) (ev_scope e) (case ev_payload e of None \<Rightarrow> JNull | Some p \<Rightarrow> p) = Inr e"
    using ok vt by (auto simp: make_event_ok event_ok_def check_payload_ok split: option.splits)
  ultimately have "event_from_dict env (to_obj EVENT_FIELDS ?vs) = Inr e"
    using kt(2) by (simp add: event_from_dict_def)
  then show "\<exists>j. event_to_dict env e = Inr j \<and> event_from_dict env j = Inr e"
    using kt(1) vt(1) by (simp add: event_to_dict_def)
qed (rule event_from_dict_sound)

definition sample_scope :: sync_scope where
  "sample_scope = \<lparr>sc_tenant = cp ''node-a'', sc_owner = cp ''node-a'', sc_workspace = None,
     sc_visibility = cp ''user'', sc_agent = None, sc_session = None\<rparr>"

lemma sample_scope_ok: "scope_ok sample_scope"
  using node_a_ok cp_ascii [of "''user''"]
  by (simp add: scope_ok_def sample_scope_def opt_ok_def cp_inj valid_text_iff)

definition sample_event :: sync_event where
  "sample_event = \<lparr>ev_id = sample_uuid, ev_origin = cp ''node-a'', ev_type = FactT,
     ev_key = NodeKey (cp ''node-a''), ev_operation = Tombstone, ev_version = sample_version,
     ev_scope = sample_scope, ev_payload = None\<rparr>"

lemma sample_key_ok: "key_ok (NodeKey (cp ''node-a''))"
proof -
  have bytes: "utf8 (cp ''node-a'') = [110, 111, 100, 101, 45, 97]" by (simp add: utf8_def utf8_char_def cp_def)
  show ?thesis unfolding key_ok_def using node_a_ok by (simp add: bytes) (simp add: cp_def)
qed

lemma sample_event_ok: "event_ok sample_event" "event_points sample_event"
  using node_a_ok sample_uuid_ok sample_version_ok sample_key_ok sample_scope_ok
  by (simp_all add: event_ok_def event_points_def sample_event_def sample_version_def is_edge_key_def key_points_def)

theorem event_wire_roundtrip_witness:
  "\<exists>env j. event_to_dict env sample_event = Inr j \<and> event_from_dict env j = Inr sample_event"
proof -
  let ?v = "version_payload (sample_env JNull) sample_version"
  have p: "version_payload (sample_env ?v) sample_version = ?v" by (simp add: version_payload_def sample_env_def)
  have v: "ev_version sample_event = sample_version" "ev_key sample_event = NodeKey (cp ''node-a'')"
    by (simp_all add: sample_event_def)
  have "loads_back (sample_env ?v) (version_payload (sample_env ?v) sample_version)"
    unfolding p by (simp add: loads_back_def sample_env_def del: jcs.simps)
  then have "event_readable (sample_env ?v) sample_event"
    unfolding event_readable_def v using epoch_ok by (simp add: key_readable_def sample_version_def)
  from event_wire_roundtrip [OF sample_event_ok this] show ?thesis by blast
qed

end
