(* ===== verification/Sync_Pages.thy ===== *)
theory Sync_Pages
  imports Sync_Protocol
begin

section \<open>Batches, pages and signed cursors\<close>

text \<open>
  The compound records of \<open>src/memplex/sync_protocol.py\<close> and the entry checks of
  \<open>src/memplex/sync_repository.py\<close>: batches with their digest, pages of the event stream,
  snapshot pages with their anchors, cursor claims and the HMAC codec that signs them,
  receipts and deliveries, the capture policy and the validation of an incoming page.
\<close>

subsection \<open>Batches\<close>

definition MAX_BATCH_EVENTS :: nat where "MAX_BATCH_EVENTS = 1000"

definition MAX_BATCH_BYTES :: nat where "MAX_BATCH_BYTES = 4 * 1024 * 1024"

record sync_batch =
  bt_id :: ustring
  bt_origin :: ustring
  bt_events :: "sync_event list"

text \<open>The loop over the events, with the ids and the (key, version) identities seen.\<close>

fun check_batch_events ::
    "ustring \<Rightarrow> ustring option \<Rightarrow> ustring list \<Rightarrow> (entity_key \<times> sync_version) list \<Rightarrow> sync_event list \<Rightarrow> unit result" where
  "check_batch_events orig tenant ids identities [] = Inr ()"
| "check_batch_events orig tenant ids identities (e # es) =
     (if ev_origin e \<noteq> orig then Inl (BatchRejected ''batch origin must match every event'')
      else if tenant \<noteq> None \<and> tenant \<noteq> Some (sc_tenant (ev_scope e)) then
        Inl (BatchRejected ''batch events must share one tenant scope'')
      else if ev_id e \<in> set ids \<or> (ev_key e, ev_version e) \<in> set identities then
        Inl (BatchRejected ''batch has duplicate event identity'')
      else check_batch_events orig (Some (sc_tenant (ev_scope e))) (ev_id e # ids)
             ((ev_key e, ev_version e) # identities) es)"

definition BATCH_FIELDS :: "string list" where
  "BATCH_FIELDS = [''protocol_version'', ''batch_id'', ''origin_node_id'', ''events'']"

definition batch_to_dict :: "wire_env \<Rightarrow> sync_batch \<Rightarrow> json result" where
  "batch_to_dict env b = bindR (mapR (event_to_dict env) (bt_events b)) (\<lambda>es.
     Inr (to_obj BATCH_FIELDS [JInt 1, JStr (bt_id b), JStr (bt_origin b), JList es]))"

definition canonical_bytes :: "wire_env \<Rightarrow> sync_batch \<Rightarrow> bytes result" where
  "canonical_bytes env b = bindR (batch_to_dict env b) canonical_json_bytes"

definition request_digest :: "(bytes \<Rightarrow> ustring) \<Rightarrow> wire_env \<Rightarrow> sync_batch \<Rightarrow> ustring result" where
  "request_digest sha256 env b = bindR (canonical_bytes env b) (\<lambda>bs. Inr (sha256 bs))"

definition make_batch :: "wire_env \<Rightarrow> json \<Rightarrow> json \<Rightarrow> json \<Rightarrow> sync_event list \<Rightarrow> sync_batch result" where
  "make_batch env protocol bid orig es =
     (if protocol \<noteq> JInt 1 then Inl (BatchRejected ''unsupported protocol_version'') else
     bindR (uuid_value ''batch_id'' bid) (\<lambda>i.
     bindR (str_value ''origin_node_id'' orig) (\<lambda>ow.
       if es = [] then Inl (BatchRejected ''events must be a non-empty tuple'')
       else if MAX_BATCH_EVENTS < length es then Inl (BatchRejected ''batch exceeds event limit'')
       else bindR (check_batch_events ow None [] [] es) (\<lambda>_.
         let b = \<lparr>bt_id = i, bt_origin = ow, bt_events = es\<rparr> in
         bindR (canonical_bytes env b) (\<lambda>bs.
           if MAX_BATCH_BYTES < length bs then Inl (BatchRejected ''batch exceeds byte limit'')
           else Inr b)))))"

definition list_value :: "string \<Rightarrow> json \<Rightarrow> json list result" where
  "list_value name j = (case j of JList xs \<Rightarrow> Inr xs | _ \<Rightarrow> Inl (TypeErr (name @ '' must be a list'')))"

definition batch_from_dict :: "wire_env \<Rightarrow> json \<Rightarrow> sync_batch result" where
  "batch_from_dict env j =
     bindR (exact_dict BATCH_FIELDS ''batch'' j) (\<lambda>vs.
     bindR (list_value ''batch events'' (vs ! 3)) (\<lambda>es.
     bindR (mapR (event_from_dict env) es) (\<lambda>events.
       make_batch env (vs ! 0) (vs ! 1) (vs ! 2) events)))"

text \<open>What a batch promises.\<close>

definition batch_ok :: "sync_batch \<Rightarrow> bool" where
  "batch_ok b = (canonical_uuid (bt_id b) \<and> bt_events b \<noteq> [] \<and> length (bt_events b) \<le> 1000
     \<and> (\<forall>e \<in> set (bt_events b). ev_origin e = bt_origin b
          \<and> sc_tenant (ev_scope e) = sc_tenant (ev_scope (hd (bt_events b))))
     \<and> distinct (map ev_id (bt_events b))
     \<and> distinct (map (\<lambda>e. (ev_key e, ev_version e)) (bt_events b)))"

lemma check_batch_events_iff:
  "check_batch_events orig tenant ids identities es = Inr () \<longleftrightarrow>
     (\<forall>e \<in> set es. ev_origin e = orig)
     \<and> (\<forall>e \<in> set es. sc_tenant (ev_scope e) = (case tenant of Some t \<Rightarrow> t | None \<Rightarrow> sc_tenant (ev_scope (hd es))))
     \<and> distinct (map ev_id es) \<and> (\<forall>e \<in> set es. ev_id e \<notin> set ids)
     \<and> distinct (map (\<lambda>e. (ev_key e, ev_version e)) es)
     \<and> (\<forall>e \<in> set es. (ev_key e, ev_version e) \<notin> set identities)"
proof (induction es arbitrary: tenant ids identities)
  case (Cons e es)
  show ?case
  proof (cases tenant)
    case None
    then show ?thesis by (simp add: image_iff Cons.IH ball_conj_distrib eq_commute [of "ev_id e"] eq_commute [of "ev_key e"] eq_commute [of "ev_version e"]) blast
  next
    case (Some t)
    then show ?thesis by (simp add: image_iff Cons.IH ball_conj_distrib eq_commute [of "ev_id e"] eq_commute [of "ev_key e"] eq_commute [of "ev_version e"]) blast
  qed
qed simp

lemma batch_from_dict_sound:
  assumes "batch_from_dict env j = Inr b"
  shows "batch_ok b" "\<forall>e \<in> set (bt_events b). event_ok e"
    "\<exists>bs. canonical_bytes env b = Inr bs \<and> length bs \<le> 4 * 1024 * 1024"
proof -
  obtain vs es events where events: "mapR (event_from_dict env) es = Inr events"
    and made: "make_batch env (vs ! 0) (vs ! 1) (vs ! 2) events = Inr b"
    using assms by (auto simp: batch_from_dict_def)
  from made have b: "bt_events b = events" "events \<noteq> []" "length events \<le> 1000" "canonical_uuid (bt_id b)"
    "check_batch_events (bt_origin b) None [] [] events = Inr ()"
    "\<exists>bs. canonical_bytes env b = Inr bs \<and> length bs \<le> MAX_BATCH_BYTES"
    by (auto simp: make_batch_def MAX_BATCH_EVENTS_def Let_def split del: if_split)
  from b(5) show "batch_ok b"
    using b(2-4) unfolding check_batch_events_iff option.case batch_ok_def b(1) by blast
  have "\<forall>e \<in> set events. event_ok e"
    using events by (induction es arbitrary: events) (auto intro: event_from_dict_sound)
  then show "\<forall>e \<in> set (bt_events b). event_ok e" by (simp add: b(1))
  show "\<exists>bs. canonical_bytes env b = Inr bs \<and> length bs \<le> 4 * 1024 * 1024"
    using b(6) by (simp add: MAX_BATCH_BYTES_def)
qed

lemma make_batch_admits:
  assumes ok: "batch_ok b" "scalar_string (bt_origin b)" "bt_origin b \<noteq> []"
    "canonical_bytes env b = Inr bs" "length bs \<le> 4 * 1024 * 1024"
  shows "make_batch env (JInt 1) (JStr (bt_id b)) (JStr (bt_origin b)) (bt_events b) = Inr b"
proof -
  have "check_batch_events (bt_origin b) None [] [] (bt_events b) = Inr ()"
    using ok unfolding check_batch_events_iff option.case batch_ok_def list.set(1) empty_iff by blast
  then show ?thesis
    using ok uuid_scalar [of "bt_id b"]
    by (cases b) (simp add: Let_def make_batch_def batch_ok_def MAX_BATCH_EVENTS_def MAX_BATCH_BYTES_def str_value_def
      uuid_value_def require_uuid_def require_exact_string_def)
qed

text \<open>
  C30: the admission of a batch.  The decoder admits only batches of 1 to 1000 valid
  events of one origin and one tenant, no event id and no (entity, version) pair twice,
  of at most 4 MiB in canonical form; and a batch of valid events with these properties
  is admitted.
\<close>

theorem batch_admission:
  "(\<forall>j b. batch_from_dict env j = Inr b \<longrightarrow> batch_ok b \<and> (\<forall>e \<in> set (bt_events b). event_ok e)
      \<and> (\<exists>bs. canonical_bytes env b = Inr bs \<and> length bs \<le> 4 * 1024 * 1024))
   \<and> (\<forall>b bs. batch_ok b \<and> scalar_string (bt_origin b) \<and> bt_origin b \<noteq> []
      \<and> canonical_bytes env b = Inr bs \<and> length bs \<le> 4 * 1024 * 1024 \<longrightarrow>
      make_batch env (JInt 1) (JStr (bt_id b)) (JStr (bt_origin b)) (bt_events b) = Inr b)"
proof (intro conjI allI impI)
  fix j b assume "batch_from_dict env j = Inr b"
  note sound = batch_from_dict_sound [OF this]
  show "batch_ok b" "\<forall>e \<in> set (bt_events b). event_ok e"
    "\<exists>bs. canonical_bytes env b = Inr bs \<and> length bs \<le> 4 * 1024 * 1024" by (rule sound)+
next
  fix b bs
  assume ok: "batch_ok b \<and> scalar_string (bt_origin b) \<and> bt_origin b \<noteq> []
      \<and> canonical_bytes env b = Inr bs \<and> length bs \<le> 4 * 1024 * 1024"
  then show "make_batch env (JInt 1) (JStr (bt_id b)) (JStr (bt_origin b)) (bt_events b) = Inr b"
    by (intro make_batch_admits) auto
qed

definition sample_batch :: sync_batch where
  "sample_batch = \<lparr>bt_id = sample_uuid, bt_origin = cp ''node-a'', bt_events = [sample_event]\<rparr>"

lemma sample_batch_ok: "batch_ok sample_batch"
  using sample_uuid_ok by (simp add: batch_ok_def sample_batch_def sample_event_def)

lemma length_b64url_le: "length (b64url_encode bs) \<le> 2 * length bs + 1"
  using length_b64url_encode [of bs] by simp

lemma sample_version_text:
  "\<exists>vt. version_text (sample_env v) sample_version = Inr vt \<and> length vt \<le> 6000 \<and> valid_text vt"
proof -
  let ?ss = "[epoch_text, cp ''node-a'', sample_uuid]"
  have p: "version_payload (sample_env v) sample_version = JList (map JStr ?ss)"
    by (simp add: version_payload_def sample_env_def sample_version_def)
  have ss: "list_all valid_text ?ss"
    using epoch_ok [of JNull] node_a_ok canonical_uuid_valid [OF sample_uuid_ok]
    by (simp add: time_back_def sample_env_def valid_text_iff)
  let ?w = "jcs (JList (map JStr ?ss))"
  have "json_weight (JList (map JStr ?ss)) \<le> 500"
    by (simp add: epoch_text_def sample_uuid_def cp_def)
  then have "length ?w \<le> 500" using length_jcs le_trans by blast
  then have "length (b64url_encode (utf8 ?w)) \<le> 4001"
    using length_b64url_le [of "utf8 ?w"] length_utf8_le [of ?w] by linarith
  moreover have "is_bytes (utf8 ?w)"
    using json_strings_valid [OF ss] unfolding valid_text_iff by (blast intro: utf8_is_bytes)
  then have "valid_text (b64url_encode (utf8 ?w))"
    using b64_text_scalar [OF b64url_encode_text] by (fastforce simp: valid_text_iff code_points_def)
  moreover have "valid_text (cp ''v1:'')" by (simp add: cp_def)
  ultimately show ?thesis
    unfolding version_text_def p canonical_json_strings [OF ss] by (auto simp: cp_def simp del: jcs.simps list.map)
qed

lemma sample_batch_bytes:
  "\<exists>bs. canonical_bytes (sample_env v) sample_batch = Inr bs \<and> length bs \<le> 4 * 1024 * 1024"
proof -
  obtain vt where vt: "version_text (sample_env v) sample_version = Inr vt" "length vt \<le> 6000" "valid_text vt"
    using sample_version_text by blast
  obtain kt where kt: "key_text (NodeKey (cp ''node-a'')) = Inr kt" "length kt \<le> 1200"
    and kv: "valid_text kt"
  proof -
    have eq: "key_text (NodeKey (cp ''node-a''))
        = Inr (key_kind (NodeKey (cp ''node-a'')) @ 58 # cp ''v1'' @ 58 # b64url_encode (utf8 (cp ''node-a'')))"
      using key_text_parts [OF sample_key_ok] node_a_ok by (simp add: key_points_def key_raw_def)
    have "is_bytes (utf8 (cp ''node-a''))" using node_a_ok by (simp add: utf8_is_bytes)
    then have "valid_text (b64url_encode (utf8 (cp ''node-a'')))"
      using b64_text_scalar [OF b64url_encode_text] by (fastforce simp: valid_text_iff code_points_def)
    then show ?thesis
      using that eq sample_key_ok unfolding key_ok_def by (simp add: key_kind_def cp_def del: key_text.simps)
  qed
  let ?e = "to_obj EVENT_FIELDS [JInt 1, JStr sample_uuid, JStr (cp ''node-a''), JStr (node_type_value FactT),
    JStr kt, JStr (operation_value Tombstone), JStr vt, scope_to_dict sample_scope, JNull]"
  let ?b = "to_obj BATCH_FIELDS [JInt 1, JStr sample_uuid, JStr (cp ''node-a''), JList [?e]]"
  have e: "event_to_dict (sample_env v) sample_event = Inr ?e"
    using vt(1) kt(1) by (simp add: event_to_dict_def sample_event_def del: key_text.simps)
  have b: "batch_to_dict (sample_env v) sample_batch = Inr ?b"
    using e by (simp add: batch_to_dict_def sample_batch_def)
  have names: "valid_text (cp f) \<and> cp f \<noteq> []"
    if "f \<in> set (BATCH_FIELDS @ EVENT_FIELDS @ SCOPE_FIELDS)" for f
    using that by (auto simp: BATCH_FIELDS_def EVENT_FIELDS_def SCOPE_FIELDS_def cp_def)
  have obj: "assert_json (to_obj fs vs) = Inr ()"
    if "set fs \<subseteq> set (BATCH_FIELDS @ EVENT_FIELDS @ SCOPE_FIELDS)" "\<forall>x \<in> set vs. assert_json x = Inr ()" for fs vs
  proof -
    have "bindR (require_exact_string ''JSON object key'' False k) (\<lambda>_. assert_json x) = Inr ()"
      if "(k, x) \<in> set (zip (map cp fs) vs)" for k x
    proof -
      from that have "k \<in> cp ` set fs" "x \<in> set vs" by (auto dest: set_zip_leftD set_zip_rightD)
      then show ?thesis using \<open>set fs \<subseteq> _\<close> \<open>\<forall>x \<in> set vs. _\<close> names unfolding valid_text_iff by auto
    qed
    then show ?thesis by (auto simp: to_obj_def all_ok_iff)
  qed
  have strs: "scalar_string (node_type_value FactT)" "scalar_string (operation_value Tombstone)"
    "scalar_string (cp ''user'')" "scalar_string sample_uuid" "scalar_string (cp ''node-a'')"
    "scalar_string kt" "scalar_string vt"
    using node_a_ok uuid_scalar [OF sample_uuid_ok] vt(3) kv
    by (simp_all add: node_type_value_def operation_value_def scalar_string_def cp_def surrogate_def
      valid_text_iff [unfolded scalar_string_def])
  have "assert_json (scope_to_dict sample_scope) = Inr ()"
    unfolding scope_to_dict_def by (rule obj) (use strs in \<open>auto simp: sample_scope_def json_opt_def\<close>)
  then have "assert_json ?e = Inr ()"
    by (intro obj) (use strs in \<open>auto simp: MAX_SAFE_def\<close>)
  then have "assert_json ?b = Inr ()"
    by (intro obj) (use strs in \<open>auto simp: MAX_SAFE_def\<close>)
  then have bytes: "canonical_bytes (sample_env v) sample_batch = Inr (utf8 (jcs ?b))"
    unfolding canonical_bytes_def b by (simp add: canonical_json_bytes_def del: jcs.simps)
  have "json_weight ?b \<le> 60000"
    using vt(2) kt(2)
    by (simp add: to_obj_def BATCH_FIELDS_def EVENT_FIELDS_def SCOPE_FIELDS_def scope_to_dict_def sample_scope_def
      json_opt_def sample_uuid_def node_type_value_def operation_value_def cp_def show_int_def show_nat.simps)
  then have "length (jcs ?b) \<le> 60000" using length_jcs le_trans by blast
  then have "length (utf8 (jcs ?b)) \<le> 240000" using length_utf8_le [of "jcs ?b"] by linarith
  with bytes show ?thesis by auto
qed

theorem batch_admission_witness:
  "\<exists>env. make_batch env (JInt 1) (JStr sample_uuid) (JStr (cp ''node-a'')) [sample_event] = Inr sample_batch"
proof -
  obtain bs where "canonical_bytes (sample_env JNull) sample_batch = Inr bs" "length bs \<le> 4 * 1024 * 1024"
    using sample_batch_bytes by blast
  moreover have "scalar_string (bt_origin sample_batch) \<and> bt_origin sample_batch \<noteq> []"
    using node_a_ok by (simp add: sample_batch_def)
  ultimately have "make_batch (sample_env JNull) (JInt 1) (JStr (bt_id sample_batch)) (JStr (bt_origin sample_batch))
      (bt_events sample_batch) = Inr sample_batch"
    using batch_admission sample_batch_ok by blast
  then show ?thesis unfolding sample_batch_def by auto
qed

subsection \<open>Pages of the stream\<close>

text \<open>A stream item pairs a sequence number, at least 1, with its event.\<close>

type_synonym stream_item = "int \<times> sync_event"

definition make_item :: "int \<Rightarrow> sync_event \<Rightarrow> stream_item result" where
  "make_item n e = bindR (require_exact_int ''stream_seq'' 1 n) (\<lambda>n. Inr (n, e))"

record sync_page =
  pg_items :: "stream_item list"
  pg_snapshot :: int
  pg_next :: int
  pg_more :: bool

fun check_order :: "int \<Rightarrow> int \<Rightarrow> stream_item list \<Rightarrow> unit result" where
  "check_order previous snapshot [] = Inr ()"
| "check_order previous snapshot ((n, e) # items) =
     (if n \<le> previous \<or> snapshot < n then
        Inl (ValueErr ''stream items must be strictly ordered within snapshot'')
      else check_order n snapshot items)"

definition check_continuation :: "sync_page \<Rightarrow> unit result" where
  "check_continuation p =
     (if pg_more p then
        (if pg_items p = [] \<or> pg_next p \<noteq> fst (last (pg_items p)) then
           Inl (ValueErr ''has_more page must continue from its final item'') else Inr ())
      else if pg_next p \<noteq> pg_snapshot p then
        Inl (ValueErr ''complete page must advance cursor to snapshot sequence'')
      else Inr ())"

definition make_page :: "stream_item list \<Rightarrow> int \<Rightarrow> int \<Rightarrow> bool \<Rightarrow> sync_page result" where
  "make_page items snapshot next_seq has_more =
     (let p = \<lparr>pg_items = items, pg_snapshot = snapshot, pg_next = next_seq, pg_more = has_more\<rparr> in
     bindR (require_exact_int ''snapshot_seq'' 0 snapshot) (\<lambda>_.
     bindR (require_exact_int ''next_after_seq'' 0 next_seq) (\<lambda>_.
     bindR (check_order 0 snapshot items) (\<lambda>_.
     bindR (check_continuation p) (\<lambda>_. Inr p)))))"

definition page_ok :: "sync_page \<Rightarrow> bool" where
  "page_ok p = (0 \<le> pg_snapshot p \<and> sorted_wrt (<) (map fst (pg_items p))
     \<and> (\<forall>n \<in> fst ` set (pg_items p). 0 < n \<and> n \<le> pg_snapshot p)
     \<and> pg_next p = (if pg_more p then fst (last (pg_items p)) else pg_snapshot p)
     \<and> (pg_more p \<longrightarrow> pg_items p \<noteq> []))"

lemma check_order_iff:
  "check_order m snapshot items = Inr () \<longleftrightarrow>
     sorted_wrt (<) (map fst items) \<and> (\<forall>n \<in> fst ` set items. m < n \<and> n \<le> snapshot)"
proof (induction m snapshot items rule: check_order.induct)
  case (2 m snapshot n e items)
  then show ?case by (fastforce simp: not_le not_less)
qed simp

lemma page_ok_next: "page_ok p \<Longrightarrow> 0 \<le> pg_next p \<and> pg_next p \<le> pg_snapshot p"
  by (auto simp: page_ok_def less_imp_le)

lemma check_continuation_iff:
  "check_continuation p = Inr () \<longleftrightarrow>
     pg_next p = (if pg_more p then fst (last (pg_items p)) else pg_snapshot p)
     \<and> (pg_more p \<longrightarrow> pg_items p \<noteq> [])"
  by (auto simp: check_continuation_def)

lemma make_page_iff:
  "make_page items s n m = Inr p \<longleftrightarrow>
     p = \<lparr>pg_items = items, pg_snapshot = s, pg_next = n, pg_more = m\<rparr> \<and> page_ok p"
proof
  assume "make_page items s n m = Inr p"
  then show "p = \<lparr>pg_items = items, pg_snapshot = s, pg_next = n, pg_more = m\<rparr> \<and> page_ok p"
    unfolding page_ok_def by (fastforce simp: make_page_def Let_def check_order_iff check_continuation_iff)
next
  assume p: "p = \<lparr>pg_items = items, pg_snapshot = s, pg_next = n, pg_more = m\<rparr> \<and> page_ok p"
  then have ok: "page_ok p" and eq: "p = \<lparr>pg_items = items, pg_snapshot = s, pg_next = n, pg_more = m\<rparr>"
    by blast+
  have parts: "pg_items p = items" "pg_snapshot p = s" "pg_next p = n" by (simp_all add: eq)
  have "check_order 0 (pg_snapshot p) (pg_items p) = Inr ()"
    using ok unfolding check_order_iff page_ok_def by blast
  moreover have "check_continuation p = Inr ()"
    using ok unfolding check_continuation_iff page_ok_def by blast
  moreover have "0 \<le> pg_snapshot p" "0 \<le> pg_next p" using page_ok_next [OF ok] ok by (auto simp: page_ok_def)
  ultimately show "make_page items s n m = Inr p"
    unfolding make_page_def Let_def eq [symmetric] parts by simp
qed

subsection \<open>The entry check of a page\<close>

fun incoming_events ::
    "ustring \<Rightarrow> int \<Rightarrow> int \<Rightarrow> (ustring \<times> ustring) list \<Rightarrow> stream_item list \<Rightarrow> sync_event list result" where
  "incoming_events tenant snapshot previous identities [] = Inr []"
| "incoming_events tenant snapshot previous identities ((n, e) # items) =
     (if n \<le> previous \<or> snapshot < n then
        Inl (ValueErr ''page stream items must be strictly ordered within snapshot'')
      else if sc_tenant (ev_scope e) \<noteq> tenant then
        Inl (ValueErr ''page event tenant does not match repository tenant'')
      else if (ev_origin e, ev_id e) \<in> set identities then
        Inl (ValueErr ''page contains duplicate event identities'')
      else bindR (incoming_events tenant snapshot n ((ev_origin e, ev_id e) # identities) items)
             (\<lambda>es. Inr (e # es)))"

definition validate_incoming_page :: "ustring \<Rightarrow> sync_page \<Rightarrow> sync_event list result" where
  "validate_incoming_page tenant p =
     (if tenant = [] then Inl (ValueErr ''tenant_id must be non-empty'')
      else if pg_snapshot p < 0 \<or> pg_next p < 0 then
        Inl (ValueErr ''page cursor sequences must be non-negative'')
      else bindR (incoming_events tenant (pg_snapshot p) 0 [] (pg_items p)) (\<lambda>es.
        if pg_more p then
          (if pg_items p = [] \<or> pg_next p \<noteq> fst (last (pg_items p)) then
             Inl (ValueErr ''page cursor must continue from its final item'') else Inr es)
        else if pg_next p \<noteq> pg_snapshot p then
          Inl (ValueErr ''complete page cursor must advance to snapshot sequence'')
        else Inr es))"

lemma incoming_events_iff:
  "incoming_events tenant s m identities items = Inr es \<longleftrightarrow> es = map snd items
     \<and> check_order m s items = Inr ()
     \<and> (\<forall>e \<in> set es. sc_tenant (ev_scope e) = tenant)
     \<and> distinct (map (\<lambda>e. (ev_origin e, ev_id e)) es)
     \<and> (\<forall>e \<in> set es. (ev_origin e, ev_id e) \<notin> set identities)"
proof (induction items arbitrary: m identities es)
  case (Cons a items)
  obtain n e where a: "a = (n, e)" by (cases a)
  define w where "w = map snd items"
  have map: "map snd (a # items) = e # w" by (simp add: a w_def)
  note IH = Cons.IH [folded w_def]
  show ?case
  proof (cases "es = e # w")
    case True
    show ?thesis
      unfolding map unfolding a True incoming_events.simps check_order.simps guard_ok bindR_Inr_iff IH
      by (simp add: w_def [symmetric] ball_conj_distrib image_iff eq_commute [of "ev_id e"]
          eq_commute [of "ev_origin e"]) blast
  next
    case False
    then show ?thesis unfolding map unfolding a incoming_events.simps guard_ok bindR_Inr_iff IH by blast
  qed
qed auto

text \<open>
  the gate for remote pages.  \<open>validate_incoming_page\<close> accepts a page exactly when
  the tenant is named, the page is well formed (sequence numbers strictly increasing from
  1 up to its snapshot, cursor at the last item or at the snapshot), every event belongs
  to the tenant and no (origin, event id) pair comes twice; and then it returns the events
  in their order.
\<close>
theorem validate_incoming_page_iff:
  "validate_incoming_page tenant p = Inr es \<longleftrightarrow>
     tenant \<noteq> [] \<and> page_ok p \<and> es = map snd (pg_items p)
     \<and> (\<forall>e \<in> set es. sc_tenant (ev_scope e) = tenant)
     \<and> distinct (map (\<lambda>e. (ev_origin e, ev_id e)) es)"
proof -
  have "validate_incoming_page tenant p = Inr es \<longleftrightarrow>
      tenant \<noteq> [] \<and> 0 \<le> pg_snapshot p \<and> 0 \<le> pg_next p
      \<and> incoming_events tenant (pg_snapshot p) 0 [] (pg_items p) = Inr es
      \<and> pg_next p = (if pg_more p then fst (last (pg_items p)) else pg_snapshot p)
      \<and> (pg_more p \<longrightarrow> pg_items p \<noteq> [])"
    by (auto simp: validate_incoming_page_def not_less)
  then show ?thesis
    using page_ok_next [of p] unfolding incoming_events_iff check_order_iff page_ok_def by auto
qed

theorem validate_incoming_page_iff_witness:
  "validate_incoming_page (cp ''node-a'')
     \<lparr>pg_items = [(1, sample_event)], pg_snapshot = 1, pg_next = 1, pg_more = False\<rparr> = Inr [sample_event]"
proof -
  let ?p = "\<lparr>pg_items = [(1, sample_event)], pg_snapshot = 1, pg_next = 1, pg_more = False\<rparr>"
  have "page_ok ?p" by (simp add: page_ok_def)
  moreover have "sc_tenant (ev_scope sample_event) = cp ''node-a''"
    by (simp add: sample_event_def sample_scope_def)
  ultimately show ?thesis using validate_incoming_page_iff [of "cp ''node-a''" ?p "[sample_event]"] node_a_ok by simp
qed

subsection \<open>Small records of the repository\<close>

record capture_policy =
  cap_required :: bool
  cap_node :: ustring

text \<open>\<open>strip\<close> is a parameter: it removes Unicode white space.\<close>

definition make_policy :: "(ustring \<Rightarrow> ustring) \<Rightarrow> ustring \<Rightarrow> ustring \<Rightarrow> capture_policy result" where
  "make_policy strip mode node =
     (if mode \<notin> {cp ''off'', cp ''required''} then
        Inl (ValueErr ''SyncCapturePolicy.mode must be off or required'')
      else if mode = cp ''required'' then
        (if node = [] then Inl (ValueErr ''local_node_id must be non-empty when mode is required'')
         else if strip node = [] then Inl (ValueErr ''local_node_id must be non-empty after strip'')
         else Inr \<lparr>cap_required = True, cap_node = strip node\<rparr>)
      else Inr \<lparr>cap_required = False, cap_node = node\<rparr>)"

record dead_letter_entry =
  dl_target :: ustring
  dl_event :: ustring
  dl_attempt :: int
  dl_error :: ustring

definition make_dead_letter :: "ustring \<Rightarrow> ustring \<Rightarrow> int \<Rightarrow> ustring \<Rightarrow> dead_letter_entry result" where
  "make_dead_letter target eid attempt err =
     (if target = [] then Inl (ValueErr ''target_id must be a non-empty exact str'')
      else if eid = [] then Inl (ValueErr ''event_id must be a non-empty exact str'')
      else if err = [] then Inl (ValueErr ''error_code must be a non-empty exact str'')
      else if attempt < 1 then Inl (ValueErr ''attempt must be a positive exact int'')
      else Inr \<lparr>dl_target = target, dl_event = eid, dl_attempt = attempt, dl_error = err\<rparr>)"

record sync_receipt =
  rc_event :: ustring
  rc_outcome :: ustring

definition make_receipt :: "json \<Rightarrow> json \<Rightarrow> sync_receipt result" where
  "make_receipt eid outcome =
     bindR (uuid_value ''event_id'' eid) (\<lambda>e.
     bindR (str_value ''outcome'' outcome) (\<lambda>w.
       if w \<notin> {cp ''accepted'', cp ''duplicate'', cp ''rejected_conflict''} then
         Inl (ValueErr ''unknown receipt outcome'')
       else Inr \<lparr>rc_event = e, rc_outcome = w\<rparr>))"

record batch_result =
  br_batch :: ustring
  br_digest :: ustring
  br_outcome :: ustring
  br_receipts :: "sync_receipt list"

definition sha256_hex_text :: "ustring \<Rightarrow> bool" where
  "sha256_hex_text s = (length s = 64 \<and> list_all lower_hex s)"

definition make_batch_result :: "json \<Rightarrow> json \<Rightarrow> json \<Rightarrow> sync_receipt list \<Rightarrow> batch_result result" where
  "make_batch_result bid digest outcome receipts =
     bindR (uuid_value ''batch_id'' bid) (\<lambda>b.
     bindR (str_value ''request_digest'' digest) (\<lambda>d.
       if \<not> sha256_hex_text d then Inl (ValueErr ''request_digest must be SHA-256 hex'') else
     bindR (str_value ''outcome'' outcome) (\<lambda>w.
       if w \<notin> {cp ''accepted'', cp ''duplicate''} then Inl (ValueErr ''unknown batch outcome'')
       else Inr \<lparr>br_batch = b, br_digest = d, br_outcome = w, br_receipts = receipts\<rparr>)))"

record sync_delivery =
  sd_target :: ustring
  sd_event :: sync_event
  sd_attempt :: int
  sd_lease :: ustring
  sd_expires :: int

subsection \<open>Snapshot anchors and pages\<close>

text \<open>An anchor orders by the text of its node type, then the text of its key.\<close>

type_synonym anchor = "sync_node_type \<times> entity_key"

definition key_name :: "entity_key \<Rightarrow> ustring" where
  "key_name k = (case key_text k of Inr s \<Rightarrow> s | Inl _ \<Rightarrow> [])"

definition anchor_order :: "anchor \<Rightarrow> ustring \<times> ustring" where
  "anchor_order a = (node_type_value (fst a), key_name (snd a))"

definition make_anchor :: "sync_node_type \<Rightarrow> entity_key \<Rightarrow> anchor result" where
  "make_anchor t k =
     (if (t = EdgeT) \<noteq> is_edge_key k then Inl (ValueErr ''snapshot anchor node type and key kind must agree'')
      else Inr (t, k))"

definition event_anchor :: "sync_event \<Rightarrow> anchor" where
  "event_anchor e = (ev_type e, ev_key e)"

definition ANCHOR_FIELDS :: "string list" where
  "ANCHOR_FIELDS = [''node_type'', ''entity_key'']"

definition anchor_from_dict :: "wire_env \<Rightarrow> json \<Rightarrow> anchor result" where
  "anchor_from_dict env j =
     bindR (exact_dict ANCHOR_FIELDS ''snapshot anchor'' j) (\<lambda>vs.
     case node_type_of (vs ! 0) of
       None \<Rightarrow> Inl (ValueErr ''snapshot anchor uses unknown node type'')
     | Some t \<Rightarrow> bindR (parse_key env (vs ! 1)) (make_anchor t))"

definition anchor_to_dict :: "anchor \<Rightarrow> json" where
  "anchor_to_dict a = to_obj ANCHOR_FIELDS [JStr (node_type_value (fst a)), JStr (key_name (snd a))]"

record snapshot_page =
  sp_events :: "sync_event list"
  sp_id :: ustring
  sp_anchor :: "anchor option"
  sp_resume :: int
  sp_more :: bool

text \<open>\<open>pairwise\<close>: no event may stand at or after its successor.\<close>

fun ascending :: "'k::linorder list \<Rightarrow> bool" where
  "ascending (x # y # zs) = (x < y \<and> ascending (y # zs))"
| "ascending _ = True"

definition make_snapshot_page ::
    "sync_event list \<Rightarrow> ustring \<Rightarrow> anchor option \<Rightarrow> int \<Rightarrow> bool \<Rightarrow> snapshot_page result" where
  "make_snapshot_page events sid next_anchor resume has_more =
     bindR (require_exact_string ''snapshot_id'' False sid) (\<lambda>sid.
     bindR (require_exact_int ''resume_seq'' 0 resume) (\<lambda>resume.
       if \<not> ascending (map (anchor_order \<circ> event_anchor) events) then
         Inl (ValueErr ''snapshot events must be strictly canonical ordered'')
       else if has_more \<and> (events = [] \<or> next_anchor \<noteq> Some (event_anchor (last events))) then
         Inl (ValueErr ''has_more snapshot must continue from its final anchor'')
       else if \<not> has_more \<and> next_anchor \<noteq> None then
         Inl (ValueErr ''complete snapshot page cannot return a next anchor'')
       else Inr \<lparr>sp_events = events, sp_id = sid, sp_anchor = next_anchor, sp_resume = resume,
                 sp_more = has_more\<rparr>))"

lemma ascending_sorted_wrt: "ascending xs \<longleftrightarrow> sorted_wrt (<) xs"
  by (induction xs rule: ascending.induct) (auto intro: less_trans)

subsection \<open>Signed cursors\<close>

record cursor_claims =
  cl_key :: ustring
  cl_tenant :: ustring
  cl_remote :: ustring
  cl_consumer :: ustring
  cl_after :: int
  cl_snapshot :: int
  cl_snapshot_id :: "ustring option"
  cl_anchor :: "anchor option"
  cl_issued :: int
  cl_expires :: int

definition make_claims ::
    "json \<Rightarrow> json \<Rightarrow> json \<Rightarrow> json \<Rightarrow> json \<Rightarrow> json \<Rightarrow> json \<Rightarrow> json \<Rightarrow> anchor option \<Rightarrow> int \<Rightarrow> int \<Rightarrow> cursor_claims result" where
  "make_claims ver key tenant remote consumer after snap sid anchor issued expires =
     (if ver \<noteq> JInt 1 then Inl (ValueErr ''unsupported cursor version'') else
     bindR (str_value ''key_id'' key) (\<lambda>k.
     bindR (str_value ''tenant_binding'' tenant) (\<lambda>t.
     bindR (str_value ''remote_binding'' remote) (\<lambda>r.
     bindR (str_value ''consumer_binding'' consumer) (\<lambda>c.
     bindR (int_value ''after_seq'' after) (\<lambda>a.
     bindR (int_value ''snapshot_seq'' snap) (\<lambda>s.
       if s < a then Inl (ValueErr ''after_seq cannot exceed snapshot_seq'') else
     bindR (optional_str ''snapshot_id'' sid) (\<lambda>i.
       if (i = None) \<noteq> (anchor = None) then
         Inl (ValueErr ''snapshot cursor id and anchor must be both present or absent'')
       else if expires \<le> issued then Inl (ValueErr ''expires_at must follow issued_at'')
       else Inr \<lparr>cl_key = k, cl_tenant = t, cl_remote = r, cl_consumer = c, cl_after = a,
         cl_snapshot = s, cl_snapshot_id = i, cl_anchor = anchor, cl_issued = issued,
         cl_expires = expires\<rparr>))))))))"

definition CLAIM_FIELDS :: "string list" where
  "CLAIM_FIELDS = [''version'', ''key_id'', ''tenant_binding'', ''remote_binding'', ''consumer_binding'',
     ''after_seq'', ''snapshot_seq'', ''snapshot_id'', ''snapshot_after'', ''issued_at'', ''expires_at'']"

definition claims_to_dict :: "wire_env \<Rightarrow> cursor_claims \<Rightarrow> json" where
  "claims_to_dict env c = to_obj CLAIM_FIELDS
     [JInt 1, JStr (cl_key c), JStr (cl_tenant c), JStr (cl_remote c), JStr (cl_consumer c),
      JInt (cl_after c), JInt (cl_snapshot c), json_opt (cl_snapshot_id c),
      (case cl_anchor c of None \<Rightarrow> JNull | Some a \<Rightarrow> anchor_to_dict a),
      JStr (time_to_wire env (cl_issued c)), JStr (time_to_wire env (cl_expires c))]"

definition optional_anchor :: "wire_env \<Rightarrow> json \<Rightarrow> anchor option result" where
  "optional_anchor env j =
     (if j = JNull then Inr None else bindR (anchor_from_dict env j) (\<lambda>a. Inr (Some a)))"

definition claims_from_dict :: "wire_env \<Rightarrow> json \<Rightarrow> cursor_claims result" where
  "claims_from_dict env j =
     bindR (exact_dict CLAIM_FIELDS ''cursor claims'' j) (\<lambda>vs.
     bindR (optional_anchor env (vs ! 8)) (\<lambda>anchor.
     bindR (time_value env ''issued_at'' (vs ! 9)) (\<lambda>issued.
     bindR (time_value env ''expires_at'' (vs ! 10)) (\<lambda>expires.
       make_claims (vs ! 0) (vs ! 1) (vs ! 2) (vs ! 3) (vs ! 4) (vs ! 5) (vs ! 6) (vs ! 7)
         anchor issued expires))))"

record cursor_codec =
  cc_active :: ustring
  cc_secret :: bytes
  cc_keys :: "(ustring, bytes) dict"

definition validate_secret :: "string \<Rightarrow> ustring \<Rightarrow> bytes result" where
  "validate_secret name s =
     bindR (require_exact_string name False s) (\<lambda>s.
       if length (utf8 s) < 32 then Inl (ValueErr (name @ '' must be at least 32 bytes'')) else Inr (utf8 s))"

fun add_keys :: "ustring \<Rightarrow> (ustring, ustring) dict \<Rightarrow> (ustring, bytes) dict \<Rightarrow> (ustring, bytes) dict result" where
  "add_keys active [] keys = Inr keys"
| "add_keys active ((k, s) # rest) keys =
     bindR (require_exact_string ''previous key id'' False k) (\<lambda>k.
       if k = active then Inl (ValueErr ''previous keys cannot replace active key'')
       else bindR (validate_secret ''previous secret'' s) (\<lambda>b. add_keys active rest (dict_set k b keys)))"

definition make_codec :: "ustring \<Rightarrow> ustring \<Rightarrow> (ustring, ustring) dict \<Rightarrow> cursor_codec result" where
  "make_codec active secret previous =
     bindR (require_exact_string ''active_key_id'' False active) (\<lambda>a.
     bindR (validate_secret ''active_secret'' secret) (\<lambda>b.
     bindR (add_keys a previous [(a, b)]) (\<lambda>keys.
       Inr \<lparr>cc_active = a, cc_secret = b, cc_keys = keys\<rparr>)))"

text \<open>\<open>hmac\<close> is the parameter: the HMAC-SHA256 digest of a message under a secret.\<close>

type_synonym hmac = "bytes \<Rightarrow> bytes \<Rightarrow> bytes"

definition encode_cursor :: "hmac \<Rightarrow> wire_env \<Rightarrow> cursor_codec \<Rightarrow> cursor_claims \<Rightarrow> ustring result" where
  "encode_cursor hmac env cc c =
     (let c = c\<lparr>cl_key := cc_active cc\<rparr> in
      bindR (canonical_json_bytes (claims_to_dict env c)) (\<lambda>payload.
        Inr (b64url_encode payload @ 46 # b64url_encode (hmac (cc_secret cc) payload))))"

definition cursor_parts :: "ustring \<Rightarrow> (ustring \<times> ustring) result" where
  "cursor_parts s = (case split_on 46 s of [p, g] \<Rightarrow> Inr (p, g) | _ \<Rightarrow> Inl (ValueErr ''invalid cursor''))"

definition check_cursor ::
    "hmac \<Rightarrow> wire_env \<Rightarrow> cursor_codec \<Rightarrow> json \<Rightarrow> ustring \<Rightarrow> ustring \<Rightarrow> ustring \<Rightarrow> int \<Rightarrow> cursor_claims result" where
  "check_cursor hmac env cc token tenant remote consumer now =
     bindR (str_value ''cursor'' token) (\<lambda>s.
     bindR (cursor_parts s) (\<lambda>(p, g).
     bindR (b64url_decode ''cursor payload'' p) (\<lambda>payload.
     bindR (b64url_decode ''cursor signature'' g) (\<lambda>signature.
     bindR (load_utf8 env (ValueErr ''invalid cursor'') payload) (\<lambda>raw.
     bindR (claims_from_dict env raw) (\<lambda>c.
     bindR (canonical_json_bytes (claims_to_dict env c)) (\<lambda>canonical.
       if canonical \<noteq> payload then Inl (ValueErr ''noncanonical cursor'')
       else case dict_get (cc_keys cc) (cl_key c) of
         None \<Rightarrow> Inl (ValueErr ''invalid signature'')
       | Some secret \<Rightarrow>
          if signature \<noteq> hmac secret payload then Inl (ValueErr ''invalid signature'')
          else if cl_tenant c \<noteq> tenant then Inl (ValueErr ''binding mismatch'')
          else if cl_remote c \<noteq> remote then Inl (ValueErr ''binding mismatch'')
          else if cl_consumer c \<noteq> consumer then Inl (ValueErr ''binding mismatch'')
          else if cl_expires c \<le> now then Inl (ValueErr ''cursor expired'')
          else Inr c)))))))"

text \<open>Every fault of the decoder is reported as the one opaque error.\<close>

definition decode_cursor ::
    "hmac \<Rightarrow> wire_env \<Rightarrow> cursor_codec \<Rightarrow> json \<Rightarrow> ustring \<Rightarrow> ustring \<Rightarrow> ustring \<Rightarrow> int \<Rightarrow> cursor_claims result" where
  "decode_cursor hmac env cc token tenant remote consumer now =
     (case check_cursor hmac env cc token tenant remote consumer now of
        Inr c \<Rightarrow> Inr c | Inl _ \<Rightarrow> Inl (CursorExpired ''invalid_cursor''))"

lemma decode_cursor_ok [simp]:
  "decode_cursor hmac env cc token t r c now = Inr x \<longleftrightarrow> check_cursor hmac env cc token t r c now = Inr x"
  by (auto simp: decode_cursor_def split: sum.splits)

lemma split_on_two: "split_on c s = [p, g] \<Longrightarrow> s = p @ c # g"
proof (induction s arbitrary: p)
  case (Cons x s)
  show ?case
  proof (cases "x = c")
    case True
    with Cons.prems have p: "p = []" and sg: "split_on c s = [g]" by auto
    have "s = g" if "split_on c s = [g]" for s :: "'a list" and g
      using that by (induction s arbitrary: g) (auto split: if_splits list.splits)
    with sg p True show ?thesis by simp
  next
    case False
    with Cons.prems obtain q where "split_on c s = [q, g]" "p = x # q"
      by (auto split: list.splits)
    with Cons.IH show ?thesis by simp
  qed
qed simp

text \<open>
  C23: cursors cannot be forged or replayed elsewhere.  The decoder fails with the one
  opaque error, whatever is wrong; and when it accepts a token, the token is the canonical
  text of the returned claims followed by their HMAC under a configured key (the key the
  claims name), the claims are bound to exactly the tenant, remote and consumer that
  present it, and they have not expired.
\<close>

theorem cursor_decode_sound:
  "(\<forall>e. decode_cursor hmac env cc token tenant remote consumer now = Inl e \<longrightarrow> e = CursorExpired ''invalid_cursor'')
   \<and> (\<forall>c. decode_cursor hmac env cc token tenant remote consumer now = Inr c \<longrightarrow>
       cl_tenant c = tenant \<and> cl_remote c = remote \<and> cl_consumer c = consumer \<and> now < cl_expires c
       \<and> (\<exists>payload secret. canonical_json_bytes (claims_to_dict env c) = Inr payload
            \<and> dict_get (cc_keys cc) (cl_key c) = Some secret
            \<and> token = JStr (b64url_encode payload @ 46 # b64url_encode (hmac secret payload))))"
proof (intro conjI allI impI)
  fix e assume "decode_cursor hmac env cc token tenant remote consumer now = Inl e"
  then show "e = CursorExpired ''invalid_cursor''" by (auto simp: decode_cursor_def split: sum.splits)
next
  fix c assume "decode_cursor hmac env cc token tenant remote consumer now = Inr c"
  then have run: "check_cursor hmac env cc token tenant remote consumer now = Inr c" by simp
  then obtain s p g payload signature secret where s: "token = JStr s" "cursor_parts s = Inr (p, g)"
    and d: "b64url_decode ''cursor payload'' p = Inr payload" "b64url_decode ''cursor signature'' g = Inr signature"
    and k: "canonical_json_bytes (claims_to_dict env c) = Inr payload"
      "dict_get (cc_keys cc) (cl_key c) = Some secret" "signature = hmac secret payload"
      "cl_tenant c = tenant" "cl_remote c = remote" "cl_consumer c = consumer" "now < cl_expires c"
    by (auto simp: check_cursor_def not_le split: option.splits)
  have "s = p @ 46 # g"
    using s(2) by (auto simp: cursor_parts_def intro: split_on_two split: list.splits)
  moreover have "b64url_encode payload = p" "b64url_encode signature = g"
    using d b64url_decode_canonical by blast+
  ultimately show "\<exists>payload secret. canonical_json_bytes (claims_to_dict env c) = Inr payload
      \<and> dict_get (cc_keys cc) (cl_key c) = Some secret
      \<and> token = JStr (b64url_encode payload @ 46 # b64url_encode (hmac secret payload))"
    using s(1) k by blast
  show "cl_tenant c = tenant" "cl_remote c = remote" "cl_consumer c = consumer" "now < cl_expires c"
    using k by auto
qed

subsection \<open>Cursors that are issued are accepted\<close>

fun float_free :: "json \<Rightarrow> bool" where
  "float_free (JFloat f) = False"
| "float_free (JList xs) = list_all float_free xs"
| "float_free (JObj kvs) = list_all (\<lambda>(k, v). float_free v) kvs"
| "float_free _ = True"

lemma show_nat_valid: "valid_text (cp (show_nat n))"
proof (induction n rule: show_nat.induct)
  case (1 n)
  have digit: "valid_point (of_char (char_of (48 + d :: nat) :: char))" if "d < 10" for d
    using that by simp
  show ?case
  proof (cases "n < 10")
    case True
    then show ?thesis using digit by (simp add: show_nat.simps [of n] cp_def)
  next
    case False
    have "valid_text (cp (show_nat (n div 10)))" using 1 False by simp
    moreover have "valid_point (of_char (char_of (48 + n mod 10 :: nat) :: char))" by (rule digit) simp
    ultimately show ?thesis using False by (simp add: show_nat.simps [of n] cp_def)
  qed
qed

lemma show_int_valid: "valid_text (cp (show_int n))"
  using show_nat_valid by (auto simp: show_int_def cp_def)

lemma valid_join: "\<forall>t \<in> set ts. valid_text t \<Longrightarrow> valid_text (py_join [44] ts)"
  by (rule py_join_valid) (simp add: list_all_iff)

text \<open>The text of every float is valid.\<close>

fun float_valid :: "json \<Rightarrow> bool" where
  "float_valid (JFloat f) = valid_text (cp (jcs_float f))"
| "float_valid (JList xs) = list_all float_valid xs"
| "float_valid (JObj kvs) = list_all (\<lambda>(k, v). float_valid v) kvs"
| "float_valid _ = True"

lemma float_free_valid: "float_free v \<Longrightarrow> float_valid v"
  by (induction v rule: float_valid.induct) (auto simp: list_all_iff)

lemma jcs_valid:
  "assert_json v = Inr () \<Longrightarrow> json_points v \<Longrightarrow> float_valid v \<Longrightarrow> valid_text (jcs v)"
proof (induction v rule: jcs.induct)
  case (2 b)
  then show ?case by (simp add: cp_def)
next
  case (3 n)
  then show ?case using show_int_valid by simp
next
  case (5 s)
  then have "valid_text s" by (simp add: valid_text_iff)
  then show ?case by (simp add: json_string_valid)
next
  case (6 xs)
  have "valid_text (jcs x)" if "x \<in> set xs" for x
    using 6 that by (auto simp: all_ok_iff list_all_iff)
  then have "valid_text (py_join [44] (map jcs xs))" by (intro valid_join) auto
  then show ?case by simp
next
  case (7 kvs)
  let ?F = "\<lambda>(k, v). (k, json_string k @ [58] @ jcs v)"
  have "valid_text (json_string k @ [58] @ jcs v)" if kv: "(k, v) \<in> set kvs" for k v
  proof -
    have "valid_text k" "assert_json v = Inr ()" "json_points v" "float_valid v"
      using 7(2-4) kv by (auto simp: all_ok_iff list_all_iff valid_text_iff [unfolded list_all_iff])
    then show ?thesis using 7(1) kv json_string_valid by auto
  qed
  then have "valid_text (py_join [44] (map snd (sort_key (utf16be \<circ> fst) (map ?F kvs))))"
    by (intro valid_join) force
  then show ?case by simp
qed (simp_all add: cp_def)

lemma jcs_nonempty: "float_free v \<Longrightarrow> jcs v \<noteq> []"
proof (cases v)
  case (JInt n)
  have "show_nat m \<noteq> []" for m by (subst show_nat.simps) simp
  then show ?thesis by (simp add: JInt cp_def show_int_def)
qed (auto simp: json_string_def cp_def)

definition claims_ok :: "cursor_claims \<Rightarrow> bool" where
  "claims_ok c = ((\<forall>s \<in> {cl_key c, cl_tenant c, cl_remote c, cl_consumer c}. valid_text s \<and> s \<noteq> [])
     \<and> opt_ok (cl_snapshot_id c) \<and> (\<forall>s. cl_snapshot_id c = Some s \<longrightarrow> code_points s)
     \<and> 0 \<le> cl_after c \<and> cl_after c \<le> cl_snapshot c \<and> cl_snapshot c \<le> MAX_SAFE
     \<and> (cl_snapshot_id c = None \<longleftrightarrow> cl_anchor c = None)
     \<and> (\<forall>t k. cl_anchor c = Some (t, k) \<longrightarrow> key_ok k \<and> key_points k \<and> (t = EdgeT \<longleftrightarrow> is_edge_key k))
     \<and> cl_issued c < cl_expires c)"

definition claims_readable :: "wire_env \<Rightarrow> cursor_claims \<Rightarrow> bool" where
  "claims_readable env c = (time_back env (cl_issued c) \<and> time_back env (cl_expires c)
     \<and> (\<forall>t k. cl_anchor c = Some (t, k) \<longrightarrow> key_readable env k) \<and> loads_back env (claims_to_dict env c))"

lemma anchor_roundtrip:
  assumes "key_ok k" "key_points k" "key_readable env k" "t = EdgeT \<longleftrightarrow> is_edge_key k"
  shows "anchor_from_dict env (in_order (anchor_to_dict (t, k))) = Inr (t, k)"
proof -
  obtain kt where kt: "key_text k = Inr kt" "parse_key env (JStr kt) = Inr k"
    using parse_key_text assms by blast
  have "exact_dict ANCHOR_FIELDS ''snapshot anchor'' (in_order (anchor_to_dict (t, k)))
      = Inr [JStr (node_type_value t), JStr kt]"
    unfolding anchor_to_dict_def using kt
    by (subst exact_dict_in_order) (simp_all add: ANCHOR_FIELDS_def key_name_def)
  then show ?thesis using kt assms(4) by (simp add: anchor_from_dict_def make_anchor_def)
qed

lemma claims_roundtrip:
  assumes ok: "claims_ok c" and env: "claims_readable env c"
  shows "claims_from_dict env (in_order (claims_to_dict env c)) = Inr c"
proof -
  let ?an = "case cl_anchor c of None \<Rightarrow> JNull | Some a \<Rightarrow> anchor_to_dict a"
  let ?vs = "[JInt 1, JStr (cl_key c), JStr (cl_tenant c), JStr (cl_remote c), JStr (cl_consumer c),
      JInt (cl_after c), JInt (cl_snapshot c), json_opt (cl_snapshot_id c), ?an,
      JStr (time_to_wire env (cl_issued c)), JStr (time_to_wire env (cl_expires c))]"
  have "exact_dict CLAIM_FIELDS ''cursor claims'' (in_order (claims_to_dict env c)) = Inr (map in_order ?vs)"
    unfolding claims_to_dict_def by (rule exact_dict_in_order) (simp_all add: CLAIM_FIELDS_def)
  then have d: "exact_dict CLAIM_FIELDS ''cursor claims'' (in_order (claims_to_dict env c)) =
      Inr [JInt 1, JStr (cl_key c), JStr (cl_tenant c), JStr (cl_remote c), JStr (cl_consumer c),
        JInt (cl_after c), JInt (cl_snapshot c), json_opt (cl_snapshot_id c), in_order ?an,
        JStr (time_to_wire env (cl_issued c)), JStr (time_to_wire env (cl_expires c))]"
    by (simp add: json_opt_def split: option.split)
  have an: "optional_anchor env (in_order ?an) = Inr (cl_anchor c)"
  proof (cases "cl_anchor c")
    case (Some a)
    obtain t k where a: "a = (t, k)" by (cases a)
    have "anchor_from_dict env (in_order (anchor_to_dict (t, k))) = Inr (t, k)"
      using ok env Some a by (intro anchor_roundtrip) (auto simp: claims_ok_def claims_readable_def)
    then show ?thesis using Some a by (simp add: optional_anchor_def anchor_to_dict_def to_obj_def)
  qed (simp add: optional_anchor_def)
  have time: "time_value env n (JStr (time_to_wire env t)) = Inr t" if "time_back env t" for n t
    using that by (simp add: time_value_def time_back_def str_value_def require_exact_string_def valid_text_iff)
  have "make_claims (JInt 1) (JStr (cl_key c)) (JStr (cl_tenant c)) (JStr (cl_remote c)) (JStr (cl_consumer c))
      (JInt (cl_after c)) (JInt (cl_snapshot c)) (json_opt (cl_snapshot_id c)) (cl_anchor c)
      (cl_issued c) (cl_expires c) = Inr c"
    using ok by (cases c) (auto simp: make_claims_def claims_ok_def valid_text_iff split del: if_split)
  then show ?thesis using d an time env by (simp add: claims_from_dict_def claims_readable_def)
qed

definition plain_json :: "json \<Rightarrow> bool" where
  "plain_json v = (assert_json v = Inr () \<and> json_points v \<and> float_free v)"

lemma plain_str: "valid_text s \<Longrightarrow> plain_json (JStr s)"
  by (simp add: plain_json_def valid_text_iff)

lemma plain_to_obj:
  assumes "\<forall>f \<in> set fs. valid_text (cp f) \<and> cp f \<noteq> []" "\<forall>v \<in> set vs. plain_json v"
  shows "plain_json (to_obj fs vs)"
proof -
  have "valid_text k \<and> k \<noteq> [] \<and> plain_json v" if "(k, v) \<in> set (zip (map cp fs) vs)" for k v
  proof -
    from that have "k \<in> cp ` set fs" "v \<in> set vs" by (auto dest: set_zip_leftD set_zip_rightD)
    then show ?thesis using assms by auto
  qed
  then show ?thesis
    by (fastforce simp: plain_json_def to_obj_def all_ok_iff list_all_iff [of "\<lambda>(k, v). P k v" for P] valid_text_iff)
qed

lemma key_name_valid:
  assumes "key_ok k" "key_points k" shows "valid_text (key_name k)"
proof -
  have "valid_text (b64url_encode (utf8 (key_raw k)))"
    using b64_text_scalar [OF b64url_encode_text [OF utf8_is_bytes]] key_raw_valid [OF assms]
    by (fastforce simp: valid_text_iff code_points_def)
  moreover have "valid_text (key_kind k)" by (cases k) (simp_all add: key_kind_def cp_def)
  ultimately show ?thesis using key_text_parts [OF assms] by (simp add: key_name_def cp_def)
qed

lemma claims_dict_plain:
  assumes ok: "claims_ok c" and env: "claims_readable env c"
  shows "plain_json (claims_to_dict env c)"
proof -
  let ?an = "case cl_anchor c of None \<Rightarrow> JNull | Some a \<Rightarrow> anchor_to_dict a"
  have an: "plain_json ?an"
  proof (cases "cl_anchor c")
    case (Some a)
    obtain t k where a: "a = (t, k)" by (cases a)
    then have "valid_text (key_name k)" using ok Some key_name_valid by (simp add: claims_ok_def)
    moreover have "valid_text (node_type_value t)" by (cases t) (simp_all add: node_type_value_def cp_def)
    ultimately have "plain_json (anchor_to_dict (t, k))"
      unfolding anchor_to_dict_def by (intro plain_to_obj) (simp_all add: plain_str ANCHOR_FIELDS_def cp_def)
    then show ?thesis using Some a by simp
  qed (simp add: plain_json_def)
  have "plain_json (JInt (cl_after c))" "plain_json (JInt (cl_snapshot c))" "plain_json (JInt 1)"
    using ok by (auto simp: plain_json_def claims_ok_def MAX_SAFE_def)
  moreover have "plain_json (json_opt (cl_snapshot_id c))"
    using ok by (auto simp: plain_json_def claims_ok_def json_opt_def opt_ok_def split: option.split)
  moreover have "plain_json (JStr (time_to_wire env (cl_issued c)))" "plain_json (JStr (time_to_wire env (cl_expires c)))"
    using env by (auto simp: claims_readable_def time_back_def intro: plain_str)
  moreover have "\<forall>s \<in> {cl_key c, cl_tenant c, cl_remote c, cl_consumer c}. plain_json (JStr s)"
    using ok by (auto simp: claims_ok_def intro: plain_str)
  moreover have "\<forall>f \<in> set CLAIM_FIELDS. valid_text (cp f) \<and> cp f \<noteq> []"
    by (simp add: CLAIM_FIELDS_def cp_def)
  ultimately show ?thesis
    unfolding claims_to_dict_def using an by (intro plain_to_obj) simp_all
qed

lemma issued_cursor_accepted:
  assumes ok: "claims_ok c" and env: "claims_readable env c" and active: "cl_key c = cc_active cc"
    and key: "dict_get (cc_keys cc) (cc_active cc) = Some (cc_secret cc)"
    and digest: "\<forall>m. is_bytes (hmac (cc_secret cc) m) \<and> hmac (cc_secret cc) m \<noteq> []"
    and fresh: "now < cl_expires c"
  shows "\<exists>token. encode_cursor hmac env cc c = Inr token
    \<and> decode_cursor hmac env cc (JStr token) (cl_tenant c) (cl_remote c) (cl_consumer c) now = Inr c"
proof -
  let ?d = "claims_to_dict env c"
  let ?m = "utf8 (jcs ?d)"
  let ?g = "hmac (cc_secret cc) ?m"
  have plain: "plain_json ?d" by (rule claims_dict_plain [OF ok env])
  then have canon: "canonical_json_bytes ?d = Inr ?m"
    by (simp add: canonical_json_bytes_def plain_json_def del: jcs.simps)
  have valid: "valid_text (jcs ?d)" "jcs ?d \<noteq> []"
    using plain jcs_valid jcs_nonempty float_free_valid by (auto simp: plain_json_def simp del: jcs.simps)
  then have cpd: "code_points (jcs ?d)" and scd: "scalar_string (jcs ?d)" by (auto simp only: valid_text_iff)
  have m: "is_bytes ?m" "?m \<noteq> []"
    using utf8_is_bytes [OF cpd] valid(2) length_utf8 [of "jcs ?d"] by auto
  have load: "load_utf8 env err ?m = Inr (in_order ?d)" for err
    using env utf8_roundtrip [OF cpd scd] by (simp add: load_utf8_def claims_readable_def loads_back_def)
  have c: "c\<lparr>cl_key := cc_active cc\<rparr> = c" using active by (cases c) simp
  let ?token = "b64url_encode ?m @ 46 # b64url_encode ?g"
  have enc: "encode_cursor hmac env cc c = Inr ?token"
    unfolding encode_cursor_def c Let_def canon by simp
  have tm: "scalar_string (b64url_encode ?m) \<and> 46 \<notin> set (b64url_encode ?m)"
    "scalar_string (b64url_encode ?g) \<and> 46 \<notin> set (b64url_encode ?g)"
    using b64_text_scalar [OF b64url_encode_text] m(1) digest by blast+
  then have "scalar_string ?token" by (auto simp: scalar_string_def surrogate_def)
  then have str: "str_value ''cursor'' (JStr ?token) = Inr ?token" by simp
  have parts: "cursor_parts ?token = Inr (b64url_encode ?m, b64url_encode ?g)"
    using tm by (simp add: cursor_parts_def split_on_append split_on_single)
  have "b64url_decode n (b64url_encode ?m) = Inr ?m" "b64url_decode n (b64url_encode ?g) = Inr ?g" for n
    using b64url_decode_encode m digest by blast+
  then have "check_cursor hmac env cc (JStr ?token) (cl_tenant c) (cl_remote c) (cl_consumer c) now = Inr c"
    using str parts load claims_roundtrip [OF ok env] canon active key fresh
    by (simp add: check_cursor_def)
  with enc show ?thesis by auto
qed

text \<open>
  C31: issued cursors come back.  The token a codec issues for valid claims under its
  active key decodes, with the same bindings and before the expiry, to those claims
  (given that \<open>json.loads\<close> reads the canonical text back with the entries of every object in
  the order of the text, which is not the order of \<open>claims_to_dict\<close>; that the calendar text
  reads back; and that a digest is a non-empty byte string).
\<close>

theorem cursor_roundtrip:
  assumes ok: "claims_ok c" and env: "claims_readable env c" and active: "cl_key c = cc_active cc"
    and key: "dict_get (cc_keys cc) (cc_active cc) = Some (cc_secret cc)"
    and digest: "\<forall>m. is_bytes (hmac (cc_secret cc) m) \<and> hmac (cc_secret cc) m \<noteq> []"
    and fresh: "now < cl_expires c"
  shows "\<exists>token. encode_cursor hmac env cc c = Inr token
    \<and> decode_cursor hmac env cc (JStr token) (cl_tenant c) (cl_remote c) (cl_consumer c) now = Inr c"
  using assms by (rule issued_cursor_accepted)

definition sample_claims :: cursor_claims where
  "sample_claims = \<lparr>cl_key = cp ''node-a'', cl_tenant = cp ''node-a'', cl_remote = cp ''node-a'',
     cl_consumer = cp ''node-a'', cl_after = 3, cl_snapshot = 5, cl_snapshot_id = None,
     cl_anchor = None, cl_issued = 0, cl_expires = 1\<rparr>"

definition tick_text :: ustring where
  "tick_text = cp ''1970-01-01T00:00:00.000001Z''"

definition tick_env :: "json \<Rightarrow> wire_env" where
  "tick_env v = \<lparr>time_to_wire = (\<lambda>t. if t = 0 then epoch_text else tick_text),
     time_from_wire = (\<lambda>s. if s = epoch_text then Some 0 else if s = tick_text then Some 1 else None),
     json_loads = (\<lambda>s. if s = jcs v then Inr (in_order v) else Inl JSONDecodeError)\<rparr>"

definition sample_codec :: cursor_codec where
  "sample_codec = \<lparr>cc_active = cp ''node-a'', cc_secret = replicate 32 65,
     cc_keys = [(cp ''node-a'', replicate 32 65)]\<rparr>"

lemma sample_claims_ok: "claims_ok sample_claims"
  using node_a_ok by (simp add: claims_ok_def sample_claims_def MAX_SAFE_def opt_ok_def valid_text_iff)

lemma sample_claims_readable: "claims_readable (tick_env (claims_to_dict (tick_env JNull) sample_claims)) sample_claims"
proof -
  let ?v = "claims_to_dict (tick_env JNull) sample_claims"
  have same: "claims_to_dict (tick_env ?v) sample_claims = ?v" by (simp add: claims_to_dict_def tick_env_def)
  have ne: "tick_text \<noteq> epoch_text" by (simp add: tick_text_def epoch_text_def cp_inj)
  have "time_back (tick_env ?v) 0" "time_back (tick_env ?v) 1"
    using ne cp_ascii [of "''1970-01-01T00:00:00.000000Z''"] cp_ascii [of "''1970-01-01T00:00:00.000001Z''"]
    by (simp_all add: time_back_def tick_env_def tick_text_def epoch_text_def)
  then show ?thesis
    unfolding claims_readable_def same
    by (simp add: loads_back_def tick_env_def sample_claims_def del: jcs.simps)
qed

definition sample_hmac :: hmac where
  "sample_hmac k m = take 1 k"

theorem cursor_roundtrip_witness:
  "\<exists>env token. encode_cursor sample_hmac env sample_codec sample_claims = Inr token
    \<and> decode_cursor sample_hmac env sample_codec (JStr token) (cp ''node-a'') (cp ''node-a'') (cp ''node-a'') 0
        = Inr sample_claims"
  using cursor_roundtrip [OF sample_claims_ok sample_claims_readable, of sample_codec sample_hmac 0]
  by (auto simp: sample_codec_def sample_claims_def sample_hmac_def is_bytes_def)

theorem cursor_decode_sound_witness:
  "\<exists>env payload. canonical_json_bytes (claims_to_dict env sample_claims) = Inr payload
    \<and> decode_cursor sample_hmac env sample_codec
        (JStr (b64url_encode payload @ 46 # b64url_encode (sample_hmac (replicate 32 65) payload)))
        (cp ''node-a'') (cp ''node-a'') (cp ''node-a'') 0 = Inr sample_claims"
proof -
  let ?env = "tick_env (claims_to_dict (tick_env JNull) sample_claims)" and ?a = "cp ''node-a''"
  obtain token where token: "decode_cursor sample_hmac ?env sample_codec (JStr token) ?a ?a ?a 0 = Inr sample_claims"
    using issued_cursor_accepted [OF sample_claims_ok sample_claims_readable, of sample_codec sample_hmac 0]
    by (auto simp: sample_codec_def sample_claims_def sample_hmac_def is_bytes_def)
  then obtain payload secret where "canonical_json_bytes (claims_to_dict ?env sample_claims) = Inr payload"
    "dict_get (cc_keys sample_codec) (cl_key sample_claims) = Some secret"
    "JStr token = JStr (b64url_encode payload @ 46 # b64url_encode (sample_hmac secret payload))"
    using cursor_decode_sound by blast
  moreover from this(2) have "secret = replicate 32 65"
    by (simp add: sample_codec_def sample_claims_def)
  ultimately show ?thesis using token by auto
qed

end
