(* ===== verification/Lite_Sync.thy ===== *)
theory Lite_Sync
  imports Sync_Pages
begin

section \<open>The sync repository of the lite store\<close>

text \<open>
  \<open>src/memplex/storage/lite/sync_repository.py\<close>: the outbox of captured events, the
  deliveries leased to targets, the cursors of consumers, the inbox of applied events, the
  version of every entity, batches, snapshots and compaction.  The \<open>sync\<close> subtree of the
  store is the record \<open>sync_state\<close>; the business state it commits with is a type variable,
  applied to by a parameter (theory Lite\_Business gives it).  An operation on the subtree
  alone is a function to the new state or an error, run by \<open>sync_mutation\<close>, which keeps
  the old state on an error as \<open>_mutation\<close> does by reloading; the two caches of the
  repository object survive that reload.  All readings of the clock within one operation
  are one argument, and a fresh UUID is an argument too.  Entity keys and versions are
  kept parsed; their texts are one-to-one (Sync\_Protocol).
\<close>

subsection \<open>Configuration and state\<close>

record sync_config =
  cf_policy :: capture_policy
  cf_max_pending :: int
  cf_max_attempts :: int
  cf_snapshot_ttl :: int
  cf_max_items :: int
  cf_per_tenant :: int
  cf_per_remote :: int
  cf_consumer_ttl :: int
  cf_retention :: int

definition local_node :: "sync_config \<Rightarrow> ustring" where
  "local_node cfg = cap_node (cf_policy cfg)"

definition make_config ::
    "capture_policy \<Rightarrow> int \<Rightarrow> int \<Rightarrow> int \<Rightarrow> int \<Rightarrow> int \<Rightarrow> int \<Rightarrow> int \<Rightarrow> int \<Rightarrow> sync_config result" where
  "make_config policy pending attempts ttl items tenant remote consumer retention =
     (case find (\<lambda>(name, v). v < 1)
         [(''max_pending_events'', pending), (''max_attempts'', attempts), (''snapshot_ttl_seconds'', ttl),
          (''max_snapshot_items'', items), (''max_active_snapshots_per_tenant'', tenant),
          (''max_active_snapshots_per_remote'', remote), (''consumer_ttl_seconds'', consumer),
          (''retention_min_seconds'', retention)] of
        Some (name, v) \<Rightarrow> Inl (ValueErr (name @ '' must be >= 1''))
      | None \<Rightarrow> Inr \<lparr>cf_policy = policy, cf_max_pending = pending, cf_max_attempts = attempts,
          cf_snapshot_ttl = ttl, cf_max_items = items, cf_per_tenant = tenant, cf_per_remote = remote,
          cf_consumer_ttl = consumer, cf_retention = retention\<rparr>)"

datatype delivery_state = Pending | Leased | Delivered | DeadLetter

record delivery =
  dv_target :: ustring
  dv_seq :: int
  dv_state :: delivery_state
  dv_attempts :: int
  dv_next :: int
  dv_lease :: "ustring option"
  dv_until :: "int option"
  dv_error :: "ustring option"

record target_row =
  tg_id :: ustring
  tg_node :: ustring
  tg_bootstrap :: int
  tg_enabled :: bool

record outbox_row =
  ob_seq :: int
  ob_event :: sync_event
  ob_created :: int

type_synonym entity = "sync_node_type \<times> entity_key"

record version_row =
  vr_entity :: entity
  vr_version :: sync_version
  vr_deleted :: bool
  vr_event :: ustring
  vr_seq :: int

record cursor_row =
  cr_remote :: ustring
  cr_consumer :: ustring
  cr_after :: int
  cr_updated :: int

record inbox_row =
  ib_origin :: ustring
  ib_event :: ustring
  ib_outcome :: ustring
  ib_seq :: "int option"

record batch_row =
  bx_id :: ustring
  bx_digest :: ustring
  bx_response :: batch_result
  bx_created :: int

record snapshot_row =
  ss_id :: ustring
  ss_remote :: ustring
  ss_consumer :: ustring
  ss_request :: ustring
  ss_resume :: int
  ss_expires :: int

record snapshot_item =
  si_snapshot :: ustring
  si_event :: sync_event

record sync_state =
  sy_binding :: "ustring option"
  sy_outbox :: "outbox_row list"
  sy_versions :: "version_row list"
  sy_targets :: "target_row list"
  sy_deliveries :: "delivery list"
  sy_cursors :: "cursor_row list"
  sy_inbound :: "cursor_row list"
  sy_inbox :: "inbox_row list"
  sy_batches :: "batch_row list"
  sy_snapshots :: "snapshot_row list"
  sy_items :: "snapshot_item list"
  sy_next :: int
  sy_floor :: int
  sy_compacted :: int

definition empty_sync :: sync_state where
  "empty_sync = \<lparr>sy_binding = None, sy_outbox = [], sy_versions = [], sy_targets = [], sy_deliveries = [],
     sy_cursors = [], sy_inbound = [], sy_inbox = [], sy_batches = [], sy_snapshots = [], sy_items = [],
     sy_next = 1, sy_floor = 0, sy_compacted = 0\<rparr>"

text \<open>The repository object: the store's two halves and the two caches of \<open>_append_event\<close>.\<close>

record 'b repo =
  rp_sync :: sync_state
  rp_business :: 'b
  rp_ids :: "ustring list option"
  rp_positions :: "((entity \<times> nat) list \<times> nat) option"

definition sync_mutation :: "(sync_state \<Rightarrow> ('a \<times> sync_state) result) \<Rightarrow> 'b repo \<Rightarrow> 'a result \<times> 'b repo" where
  "sync_mutation f rp = (case f (rp_sync rp) of
      Inl e \<Rightarrow> (Inl e, rp) | Inr (x, st) \<Rightarrow> (Inr x, rp\<lparr>rp_sync := st\<rparr>))"

definition mutation :: "('b repo \<Rightarrow> 'a result \<times> 'b repo) \<Rightarrow> 'b repo \<Rightarrow> 'a result \<times> 'b repo" where
  "mutation f rp = (case f rp of
      (Inr x, rp') \<Rightarrow> (Inr x, rp')
    | (Inl e, rp') \<Rightarrow> (Inl e, rp\<lparr>rp_ids := rp_ids rp', rp_positions := rp_positions rp'\<rparr>))"

definition require_str :: "string \<Rightarrow> ustring \<Rightarrow> ustring result" where
  "require_str name s = (if s = [] then Inl (ValueErr (name @ '' must be non-empty'')) else Inr s)"

definition require_int :: "string \<Rightarrow> int \<Rightarrow> int \<Rightarrow> int result" where
  "require_int name minimum n = (if n < minimum then Inl (ValueErr (name @ '' must be >= minimum'')) else Inr n)"

subsection \<open>Appending an event\<close>

definition bind_tenant :: "ustring \<Rightarrow> sync_state \<Rightarrow> sync_state result" where
  "bind_tenant tenant st =
     bindR (require_str ''tenant_id'' tenant) (\<lambda>t.
     case sy_binding st of
       None \<Rightarrow> Inr (st\<lparr>sy_binding := Some t\<rparr>)
     | Some c \<Rightarrow> if c \<noteq> t then Inl (ValueErr ''sync-enabled Lite supports a single tenant'') else Inr st)"

definition active_deliveries :: "sync_state \<Rightarrow> nat" where
  "active_deliveries st = length (filter (\<lambda>d. dv_state d \<in> {Pending, Leased, DeadLetter}) (sy_deliveries st))"

definition assert_quota :: "sync_config \<Rightarrow> nat \<Rightarrow> sync_state \<Rightarrow> unit result" where
  "assert_quota cfg additional st =
     (if cf_max_pending cfg < int (active_deliveries st + additional) then
        Inl (Backpressure ''sync pending delivery quota exceeded'') else Inr ())"

definition outbox_ids :: "sync_state \<Rightarrow> ustring list" where
  "outbox_ids st = map (ev_id \<circ> ob_event) (sy_outbox st)"

definition version_entities :: "sync_state \<Rightarrow> entity list" where
  "version_entities st = map vr_entity (sy_versions st)"

definition event_entity :: "sync_event \<Rightarrow> entity" where
  "event_entity e = (ev_type e, ev_key e)"

text \<open>The id cache is rebuilt when its size differs from the outbox's length.\<close>

definition current_ids :: "'b repo \<Rightarrow> ustring list" where
  "current_ids rp = (let fresh = remdups (outbox_ids (rp_sync rp)) in
     case rp_ids rp of None \<Rightarrow> fresh
     | Some ids \<Rightarrow> if length ids \<noteq> length (sy_outbox (rp_sync rp)) then fresh else ids)"

definition index_entities :: "entity list \<Rightarrow> (entity \<times> nat) list" where
  "index_entities es = rev (zip es [0..<length es])"

text \<open>The positions likewise, by the number of version rows.\<close>

definition current_positions :: "sync_state \<Rightarrow> ((entity \<times> nat) list \<times> nat) option \<Rightarrow> (entity \<times> nat) list" where
  "current_positions st cache = (let fresh = index_entities (version_entities st) in
     case cache of None \<Rightarrow> fresh
     | Some (ps, n) \<Rightarrow> if n \<noteq> length (sy_versions st) then fresh else ps)"

definition enabled_targets :: "sync_state \<Rightarrow> sync_event \<Rightarrow> target_row list" where
  "enabled_targets st e = filter (\<lambda>t. tg_enabled t \<and> tg_node t \<noteq> ev_origin e) (sy_targets st)"

definition new_version :: "sync_event \<Rightarrow> int \<Rightarrow> version_row" where
  "new_version e n = \<lparr>vr_entity = event_entity e, vr_version = ev_version e,
     vr_deleted = (ev_operation e = Tombstone), vr_event = ev_id e, vr_seq = n\<rparr>"

definition new_delivery :: "ustring \<Rightarrow> int \<Rightarrow> int \<Rightarrow> delivery" where
  "new_delivery target n due = \<lparr>dv_target = target, dv_seq = n, dv_state = Pending, dv_attempts = 0,
     dv_next = due, dv_lease = None, dv_until = None, dv_error = None\<rparr>"

definition push_event :: "sync_event \<Rightarrow> int \<Rightarrow> version_row list \<Rightarrow> sync_state \<Rightarrow> sync_state" where
  "push_event e n versions st = st\<lparr>
     sy_next := n + 1,
     sy_outbox := sy_outbox st @ [\<lparr>ob_seq = n, ob_event = e, ob_created = occurred_at (ev_version e)\<rparr>],
     sy_versions := versions,
     sy_deliveries := sy_deliveries st @
       map (\<lambda>t. new_delivery (tg_id t) n (occurred_at (ev_version e))) (enabled_targets st e)\<rparr>"

definition append_event :: "sync_config \<Rightarrow> sync_event \<Rightarrow> 'b repo \<Rightarrow> int result \<times> 'b repo" where
  "append_event cfg e rp =
     (case bind_tenant (sc_tenant (ev_scope e)) (rp_sync rp) of
        Inl err \<Rightarrow> (Inl err, rp)
      | Inr st \<Rightarrow>
         let ids = current_ids rp; rp = rp\<lparr>rp_sync := st, rp_ids := Some ids\<rparr> in
         if ev_id e \<in> set ids then (Inl (ValueErr ''event_id already exists''), rp)
         else case assert_quota cfg (length (enabled_targets st e)) st of
           Inl err \<Rightarrow> (Inl err, rp)
         | Inr _ \<Rightarrow>
            let n = sy_next st;
                ps = current_positions st (rp_positions rp);
                ent = event_entity e;
                (versions, ps') =
                  (case dict_get ps ent of
                     None \<Rightarrow> (sy_versions st @ [new_version e n],
                             ((ent, length (sy_versions st)) # ps, length (sy_versions st) + 1))
                   | Some i \<Rightarrow> ((sy_versions st)[i := new_version e n], (ps, length (sy_versions st)))) in
            (Inr n, rp\<lparr>rp_sync := push_event e n versions st, rp_ids := Some (ev_id e # ids),
                       rp_positions := Some ps'\<rparr>))"

definition capture_local_event :: "sync_config \<Rightarrow> sync_event \<Rightarrow> 'b repo \<Rightarrow> int option result \<times> 'b repo" where
  "capture_local_event cfg e rp =
     (if \<not> cap_required (cf_policy cfg) then (Inr None, rp)
      else if ev_origin e \<noteq> local_node cfg then
        (Inl (ValueErr ''local capture origin does not match configured node''), rp)
      else case append_event cfg e rp of
        (Inl err, rp') \<Rightarrow> (Inl err, rp') | (Inr n, rp') \<Rightarrow> (Inr (Some n), rp'))"

subsection \<open>Delivery to targets\<close>

definition outbox_row_of :: "sync_state \<Rightarrow> int \<Rightarrow> outbox_row option" where
  "outbox_row_of st n = find (\<lambda>r. ob_seq r = n) (rev (sy_outbox st))"

definition find_target :: "ustring \<Rightarrow> sync_state \<Rightarrow> target_row option" where
  "find_target t st = find (\<lambda>r. tg_id r = t) (sy_targets st)"

definition register_target :: "sync_config \<Rightarrow> int \<Rightarrow> ustring \<Rightarrow> ustring \<Rightarrow> sync_state \<Rightarrow> (unit \<times> sync_state) result" where
  "register_target cfg now target bootstrap st =
     bindR (require_str ''target_id'' target) (\<lambda>target.
     bindR (require_str ''bootstrap'' bootstrap) (\<lambda>bootstrap.
       if bootstrap \<notin> {cp ''future'', cp ''retained''} then
         Inl (ValueErr ''bootstrap must be future or retained'')
       else if target = local_node cfg then Inl (ValueErr ''target_id must not target this node'')
       else if find_target target st \<noteq> None then Inr ((), st)
       else
         let seq = (if bootstrap = cp ''future'' then sy_next st - 1 else sy_floor st);
             retained = filter (\<lambda>r. bootstrap = cp ''retained'' \<and> seq \<le> ob_seq r
               \<and> ev_origin (ob_event r) \<noteq> target) (sy_outbox st) in
         bindR (assert_quota cfg (length retained) st) (\<lambda>_.
           Inr ((), st\<lparr>
             sy_targets := sy_targets st @ [\<lparr>tg_id = target, tg_node = target, tg_bootstrap = seq, tg_enabled = True\<rparr>],
             sy_deliveries := sy_deliveries st @ map (\<lambda>r. new_delivery target (ob_seq r) now) retained\<rparr>))))"

text \<open>An expired lease returns to the queue, or to the dead letters after the last attempt.\<close>

definition expire_lease :: "sync_config \<Rightarrow> ustring \<Rightarrow> int \<Rightarrow> delivery \<Rightarrow> delivery" where
  "expire_lease cfg target now d =
     (if dv_target d = target \<and> dv_state d = Leased \<and> the (dv_until d) \<le> now then
        d\<lparr>dv_state := (if cf_max_attempts cfg \<le> dv_attempts d then DeadLetter else Pending),
          dv_lease := None, dv_until := None,
          dv_error := (if cf_max_attempts cfg \<le> dv_attempts d then Some (cp ''lease_expired'') else None)\<rparr>
      else d)"

text \<open>Which deliveries are due; the lookup of the outbox row may raise.\<close>

definition is_due :: "sync_config \<Rightarrow> ustring \<Rightarrow> int \<Rightarrow> delivery \<Rightarrow> bool" where
  "is_due cfg target now d = (dv_target d = target \<and> dv_state d = Pending
     \<and> dv_attempts d < cf_max_attempts cfg \<and> dv_next d \<le> now)"

definition claimable :: "sync_config \<Rightarrow> ustring \<Rightarrow> int \<Rightarrow> sync_state \<Rightarrow> delivery \<Rightarrow> bool result" where
  "claimable cfg target now st d =
     (if is_due cfg target now d then
        (case outbox_row_of st (dv_seq d) of
           None \<Rightarrow> Inl (KeyErr ''stream_seq'')
         | Some r \<Rightarrow> Inr (ev_origin (ob_event r) = local_node cfg))
      else Inr False)"

fun filterR :: "('a \<Rightarrow> bool result) \<Rightarrow> 'a list \<Rightarrow> 'a list result" where
  "filterR p [] = Inr []"
| "filterR p (x # xs) = bindR (p x) (\<lambda>b. bindR (filterR p xs) (\<lambda>ys. Inr (if b then x # ys else ys)))"

definition lease_row :: "ustring \<Rightarrow> int \<Rightarrow> delivery \<Rightarrow> delivery" where
  "lease_row lease until d = d\<lparr>dv_state := Leased, dv_attempts := dv_attempts d + 1,
     dv_lease := Some lease, dv_until := Some until, dv_error := None\<rparr>"

text \<open>The positions of the claimed rows get the fresh leases, in stream order.\<close>

fun lease_all :: "(nat \<Rightarrow> ustring) \<Rightarrow> int \<Rightarrow> nat \<Rightarrow> nat list \<Rightarrow> delivery list \<Rightarrow> delivery list" where
  "lease_all fresh until n [] ds = ds"
| "lease_all fresh until n (i # is) ds =
     lease_all fresh until (Suc n) is (ds[i := lease_row (fresh n) until (ds ! i)])"

definition claimed_delivery :: "sync_state \<Rightarrow> ustring \<Rightarrow> int \<Rightarrow> delivery \<Rightarrow> sync_delivery" where
  "claimed_delivery st lease until d = \<lparr>sd_target = dv_target d,
     sd_event = ob_event (the (outbox_row_of st (dv_seq d))), sd_attempt = dv_attempts d + 1,
     sd_lease = lease, sd_expires = until\<rparr>"

definition claim ::
    "sync_config \<Rightarrow> (nat \<Rightarrow> ustring) \<Rightarrow> int \<Rightarrow> ustring \<Rightarrow> int \<Rightarrow> int \<Rightarrow> sync_state \<Rightarrow> (sync_delivery list \<times> sync_state) result" where
  "claim cfg fresh now target limit lease_seconds st =
     bindR (require_str ''target_id'' target) (\<lambda>target.
     bindR (require_int ''limit'' 1 limit) (\<lambda>limit.
     bindR (require_int ''lease_seconds'' 1 lease_seconds) (\<lambda>lease_seconds.
       case find_target target st of
         None \<Rightarrow> Inr ([], st)
       | Some t \<Rightarrow>
          if \<not> tg_enabled t then Inr ([], st)
          else
            let ds = map (expire_lease cfg target now) (sy_deliveries st);
                until = now + seconds lease_seconds in
            bindR (filterR (\<lambda>i. claimable cfg target now st (ds ! i)) [0..<length ds]) (\<lambda>is.
              let picked = take (nat limit) (sort_key (\<lambda>i. dv_seq (ds ! i)) is) in
              Inr (map (\<lambda>(n, i). claimed_delivery st (fresh n) until (ds ! i)) (enumerate 0 picked),
                   st\<lparr>sy_deliveries := lease_all fresh until 0 picked ds\<rparr>)))))"

definition delivery_index :: "sync_state \<Rightarrow> sync_delivery \<Rightarrow> nat option" where
  "delivery_index st sd = find (\<lambda>i. let d = sy_deliveries st ! i in
      dv_target d = sd_target sd \<and>
      (case outbox_row_of st (dv_seq d) of None \<Rightarrow> False | Some r \<Rightarrow> ev_id (ob_event r) = ev_id (sd_event sd)))
     [0..<length (sy_deliveries st)]"

definition require_active_lease :: "int \<Rightarrow> delivery \<Rightarrow> sync_delivery \<Rightarrow> unit result" where
  "require_active_lease now d sd =
     (if dv_state d \<noteq> Leased \<or> dv_lease d \<noteq> Some (sd_lease sd) \<or> the (dv_until d) \<le> now then
        Inl (DeliveryBusy ''delivery lease is no longer active'')
      else Inr ())"

definition mark_delivered :: "delivery \<Rightarrow> delivery" where
  "mark_delivered d = d\<lparr>dv_state := Delivered, dv_lease := None, dv_until := None, dv_error := None\<rparr>"

definition set_row :: "nat \<Rightarrow> delivery \<Rightarrow> sync_state \<Rightarrow> sync_state" where
  "set_row i d st = st\<lparr>sy_deliveries := (sy_deliveries st)[i := d]\<rparr>"

fun ack_rows :: "int \<Rightarrow> sync_state \<Rightarrow> sync_delivery list \<Rightarrow> nat list result" where
  "ack_rows now st [] = Inr []"
| "ack_rows now st (sd # sds) =
     (case delivery_index st sd of
        None \<Rightarrow> ack_rows now st sds
      | Some i \<Rightarrow>
         let d = sy_deliveries st ! i in
         if dv_state d = Delivered then ack_rows now st sds
         else bindR (require_active_lease now d sd) (\<lambda>_.
           bindR (ack_rows now st sds) (\<lambda>is. Inr (i # is))))"

definition ack_batch ::
    "int \<Rightarrow> sync_delivery list \<Rightarrow> sync_receipt list \<Rightarrow> sync_state \<Rightarrow> (unit \<times> sync_state) result" where
  "ack_batch now sds receipts st =
     (if length sds \<noteq> length receipts then Inl (ValueErr ''delivery and receipt cardinality mismatch'')
      else if \<not> distinct (map rc_event receipts)
          \<or> set (map rc_event receipts) \<noteq> set (map (ev_id \<circ> sd_event) sds) then
        Inl (ValueErr ''delivery and receipt identity mismatch'')
      else bindR (ack_rows now st sds) (\<lambda>is.
        Inr ((), fold (\<lambda>i st. set_row i (mark_delivered (sy_deliveries st ! i)) st) is st)))"

definition to_dead_letter :: "ustring \<Rightarrow> int \<Rightarrow> delivery \<Rightarrow> delivery" where
  "to_dead_letter err now d = d\<lparr>dv_state := DeadLetter, dv_lease := None, dv_until := None,
     dv_next := now, dv_error := Some err\<rparr>"

definition retry_delay :: "int \<Rightarrow> int" where
  "retry_delay attempts = min 60 (2 ^ nat (max (attempts - 1) 0))"

definition to_retry :: "ustring \<Rightarrow> int \<Rightarrow> delivery \<Rightarrow> delivery" where
  "to_retry err now d = d\<lparr>dv_state := Pending, dv_lease := None, dv_until := None,
     dv_next := now + seconds (retry_delay (dv_attempts d)), dv_error := Some err\<rparr>"

text \<open>
  \<open>sync_fail\<close> and \<open>sync_dead_letter\<close>: the lease is checked against the clock, the given time
  only dates the next attempt.
\<close>

definition fail_delivery ::
    "sync_config \<Rightarrow> int \<Rightarrow> sync_delivery \<Rightarrow> ustring \<Rightarrow> int \<Rightarrow> sync_state \<Rightarrow> (unit \<times> sync_state) result" where
  "fail_delivery cfg clock sd err now st =
     bindR (require_str ''error_code'' err) (\<lambda>err.
     case delivery_index st sd of
       None \<Rightarrow> Inr ((), st)
     | Some i \<Rightarrow>
        let d = sy_deliveries st ! i in
        bindR (require_active_lease clock d sd) (\<lambda>_.
          Inr ((), set_row i (if cf_max_attempts cfg \<le> dv_attempts d then to_dead_letter err now d
                              else to_retry err now d) st)))"

definition dead_letter ::
    "int \<Rightarrow> sync_delivery \<Rightarrow> ustring \<Rightarrow> int \<Rightarrow> sync_state \<Rightarrow> (unit \<times> sync_state) result" where
  "dead_letter clock sd err now st =
     bindR (require_str ''error_code'' err) (\<lambda>err.
     case delivery_index st sd of
       None \<Rightarrow> Inr ((), st)
     | Some i \<Rightarrow>
        let d = sy_deliveries st ! i in
        bindR (require_active_lease clock d sd) (\<lambda>_. Inr ((), set_row i (to_dead_letter err now d) st)))"

definition replay_dead_letter ::
    "int \<Rightarrow> ustring \<Rightarrow> ustring \<Rightarrow> sync_state \<Rightarrow> (bool \<times> sync_state) result" where
  "replay_dead_letter now target eid st =
     bindR (require_str ''target_id'' target) (\<lambda>target.
     bindR (require_str ''event_id'' eid) (\<lambda>eid.
       case find (\<lambda>i. let d = sy_deliveries st ! i in
             dv_target d = target \<and> dv_state d = DeadLetter \<and>
             (case outbox_row_of st (dv_seq d) of None \<Rightarrow> False | Some r \<Rightarrow> ev_id (ob_event r) = eid))
           [0..<length (sy_deliveries st)] of
         None \<Rightarrow> Inr (False, st)
       | Some i \<Rightarrow> Inr (True, set_row i ((sy_deliveries st ! i)\<lparr>dv_state := Pending, dv_attempts := 0,
             dv_lease := None, dv_until := None, dv_next := now, dv_error := None\<rparr>) st)))"

definition set_target_enabled :: "ustring \<Rightarrow> bool \<Rightarrow> sync_state \<Rightarrow> (unit \<times> sync_state) result" where
  "set_target_enabled target enabled st =
     bindR (require_str ''target_id'' target) (\<lambda>target.
     case find_target target st of
       None \<Rightarrow> Inl (ValueErr ''target not found'')
     | Some t \<Rightarrow> Inr ((), st\<lparr>sy_targets := map (\<lambda>r. if r = t then r\<lparr>tg_enabled := enabled\<rparr> else r) (sy_targets st)\<rparr>))"

definition dead_letter_rows :: "int \<Rightarrow> sync_state \<Rightarrow> dead_letter_entry list result" where
  "dead_letter_rows limit st =
     bindR (require_int ''limit'' 1 limit) (\<lambda>limit.
     mapR (\<lambda>d. case outbox_row_of st (dv_seq d) of
         None \<Rightarrow> Inl (KeyErr ''stream_seq'')
       | Some r \<Rightarrow> make_dead_letter (dv_target d) (ev_id (ob_event r)) (dv_attempts d)
           (case dv_error d of Some w \<Rightarrow> if w = [] then cp ''delivery_failed'' else w
            | None \<Rightarrow> cp ''delivery_failed''))
       (take (nat limit) (sort_key (\<lambda>d. (dv_target d, dv_seq d))
          (filter (\<lambda>d. dv_state d = DeadLetter) (sy_deliveries st)))))"

record sync_status =
  su_pending :: nat
  su_leased :: nat
  su_delivered :: nat
  su_disabled :: nat
  su_dead :: nat

definition status_of :: "delivery list \<Rightarrow> target_row list \<Rightarrow> sync_status" where
  "status_of ds ts =
     (let count = (\<lambda>s. length (filter (\<lambda>d. dv_state d = s) ds)) in
      \<lparr>su_pending = count Pending, su_leased = count Leased, su_delivered = count Delivered,
       su_disabled = length (filter (\<lambda>t. \<not> tg_enabled t) ts), su_dead = count DeadLetter\<rparr>)"

definition repository_status :: "sync_state \<Rightarrow> sync_status" where
  "repository_status st = status_of (sy_deliveries st) (sy_targets st)"

definition dispatch_status :: "sync_config \<Rightarrow> sync_state \<Rightarrow> sync_status result" where
  "dispatch_status cfg st =
     bindR (filterR (\<lambda>d. case outbox_row_of st (dv_seq d) of
         None \<Rightarrow> Inl (KeyErr ''stream_seq'')
       | Some r \<Rightarrow> Inr (ev_origin (ob_event r) = local_node cfg)) (sy_deliveries st))
       (\<lambda>ds. Inr (status_of ds (sy_targets st)))"

subsection \<open>Reading the stream\<close>

definition find_cursor :: "ustring \<Rightarrow> ustring \<Rightarrow> cursor_row list \<Rightarrow> cursor_row option" where
  "find_cursor remote consumer rows = find (\<lambda>r. cr_remote r = remote \<and> cr_consumer r = consumer) rows"

text \<open>Progress of a consumer: a new row, or the first row of the consumer advanced.\<close>

definition put_cursor :: "(int \<Rightarrow> int) \<Rightarrow> int \<Rightarrow> int \<Rightarrow> ustring \<Rightarrow> ustring \<Rightarrow> cursor_row list \<Rightarrow> cursor_row list" where
  "put_cursor advance initial now remote consumer rows =
     (case find_cursor remote consumer rows of
        None \<Rightarrow> rows @ [\<lparr>cr_remote = remote, cr_consumer = consumer, cr_after = initial, cr_updated = now\<rparr>]
      | Some c \<Rightarrow> map (\<lambda>r. if r = c then r\<lparr>cr_after := advance (cr_after r), cr_updated := now\<rparr> else r) rows)"

definition newest_seq :: "int \<Rightarrow> sync_state \<Rightarrow> int" where
  "newest_seq after st = (case map ob_seq (sy_outbox st) of [] \<Rightarrow> after | n # ns \<Rightarrow> fold max ns n)"

text \<open>A presented cursor confirms the deliveries up to it.\<close>

definition confirm_delivery :: "sync_state \<Rightarrow> ustring \<Rightarrow> int \<Rightarrow> delivery \<Rightarrow> delivery" where
  "confirm_delivery st remote after d =
     (if dv_target d = remote \<and> dv_state d \<in> {Pending, Leased} \<and> dv_seq d \<le> after
         \<and> (case outbox_row_of st (dv_seq d) of None \<Rightarrow> False | Some r \<Rightarrow> ev_origin (ob_event r) \<noteq> remote)
      then mark_delivered d else d)"

definition cursor_invalid :: "int \<Rightarrow> sync_state \<Rightarrow> ustring \<Rightarrow> ustring \<Rightarrow> cursor_claims \<Rightarrow> bool" where
  "cursor_invalid now st remote consumer c =
     (Some (cl_tenant c) \<noteq> sy_binding st \<or> cl_remote c \<noteq> remote \<or> cl_consumer c \<noteq> consumer
      \<or> cl_expires c \<le> now)"

definition page_rows :: "sync_state \<Rightarrow> ustring \<Rightarrow> int \<Rightarrow> int \<Rightarrow> outbox_row list" where
  "page_rows st remote after snap =
     filter (\<lambda>r. after < ob_seq r \<and> ob_seq r \<le> snap \<and> ev_origin (ob_event r) \<noteq> remote) (sy_outbox st)"

definition read_page ::
    "int \<Rightarrow> ustring \<Rightarrow> ustring \<Rightarrow> cursor_claims option \<Rightarrow> int \<Rightarrow> sync_state \<Rightarrow> (sync_page \<times> sync_state) result" where
  "read_page now remote consumer cursor limit st =
     bindR (require_str ''remote_id'' remote) (\<lambda>remote.
     bindR (require_str ''consumer_id'' consumer) (\<lambda>consumer.
     bindR (require_int ''limit'' 1 limit) (\<lambda>limit.
       let after = (case cursor of
             None \<Rightarrow> (case find_cursor remote consumer (sy_cursors st) of None \<Rightarrow> 0 | Some r \<Rightarrow> cr_after r)
           | Some c \<Rightarrow> cl_after c);
           snap = (case cursor of
             None \<Rightarrow> newest_seq after st
           | Some c \<Rightarrow> if cl_after c = cl_snapshot c then newest_seq after st else cl_snapshot c) in
       if after < sy_floor st then Inl (CursorExpired ''cursor_expired'')
       else if (case cursor of None \<Rightarrow> False
           | Some c \<Rightarrow> cursor_invalid now st remote consumer c \<or> cl_snapshot_id c \<noteq> None) then
         Inl (CursorExpired ''invalid_cursor'')
       else
         let st' = st\<lparr>
               sy_deliveries := (if cursor = None then sy_deliveries st
                 else map (confirm_delivery st remote after) (sy_deliveries st)),
               sy_cursors := put_cursor (max after) after now remote consumer (sy_cursors st)\<rparr>;
             rows = page_rows st remote after snap;
             selected = take (nat limit) rows;
             has_more = nat limit < length rows in
         bindR (mapR (\<lambda>r. make_item (ob_seq r) (ob_event r)) selected) (\<lambda>items.
         bindR (make_page items snap (if has_more then fst (last items) else snap) has_more) (\<lambda>p.
           Inr (p, st'))))))"

subsection \<open>Snapshots\<close>

definition cleanup_snapshots :: "int \<Rightarrow> sync_state \<Rightarrow> sync_state" where
  "cleanup_snapshots now st =
     (let expired = set (map ss_id (filter (\<lambda>s. ss_expires s \<le> now) (sy_snapshots st))) in
      st\<lparr>sy_snapshots := filter (\<lambda>s. ss_id s \<notin> expired) (sy_snapshots st),
         sy_items := filter (\<lambda>i. si_snapshot i \<notin> expired) (sy_items st)\<rparr>)"

definition item_order :: "snapshot_item \<Rightarrow> ustring \<times> ustring" where
  "item_order i = anchor_order (event_anchor (si_event i))"

definition snapshot_rows :: "sync_state \<Rightarrow> ustring \<Rightarrow> snapshot_item list" where
  "snapshot_rows st sid = sort_key item_order (filter (\<lambda>i. si_snapshot i = sid) (sy_items st))"

definition page_of_snapshot :: "ustring \<Rightarrow> int \<Rightarrow> sync_event list \<Rightarrow> int \<Rightarrow> snapshot_page result" where
  "page_of_snapshot sid resume events limit =
     (let selected = take (nat limit) events; has_more = nat limit < length events in
      make_snapshot_page selected sid
        (if has_more \<and> selected \<noteq> [] then Some (event_anchor (last selected)) else None) resume has_more)"

text \<open>\<open>current\<close> lists the events of the business state, binding the tenant as it goes.\<close>

definition create_snapshot ::
    "sync_config \<Rightarrow> (sync_state \<Rightarrow> (sync_event list \<times> sync_state) result) \<Rightarrow> ustring \<Rightarrow> int \<Rightarrow>
     ustring \<Rightarrow> ustring \<Rightarrow> ustring \<Rightarrow> int \<Rightarrow> sync_state \<Rightarrow> (snapshot_page \<times> sync_state) result" where
  "create_snapshot cfg current fresh now remote consumer request limit st =
     bindR (require_str ''remote_id'' remote) (\<lambda>remote.
     bindR (require_str ''consumer_id'' consumer) (\<lambda>consumer.
     bindR (require_str ''request_id'' request) (\<lambda>request.
     bindR (require_int ''limit'' 1 limit) (\<lambda>limit.
       let st = cleanup_snapshots now st in
       bindR (case find (\<lambda>s. ss_remote s = remote \<and> ss_consumer s = consumer \<and> ss_request s = request) (sy_snapshots st) of
           Some s \<Rightarrow> Inr (s, st)
         | None \<Rightarrow>
            if cf_per_remote cfg \<le> int (length (filter (\<lambda>s. ss_remote s = remote) (sy_snapshots st))) then
              Inl (Backpressure ''snapshot_in_progress'')
            else if cf_per_tenant cfg \<le> int (length (sy_snapshots st)) then
              Inl (Backpressure ''snapshot_in_progress'')
            else bindR (current st) (\<lambda>(events, st).
              if cf_max_items cfg < int (length events) then Inl (Backpressure ''snapshot_too_large'')
              else
                let s = \<lparr>ss_id = fresh, ss_remote = remote, ss_consumer = consumer, ss_request = request,
                         ss_resume = sy_next st - 1, ss_expires = now + seconds (cf_snapshot_ttl cfg)\<rparr> in
                Inr (s, st\<lparr>sy_snapshots := sy_snapshots st @ [s],
                          sy_items := sy_items st @ map (\<lambda>e. \<lparr>si_snapshot = fresh, si_event = e\<rparr>) events\<rparr>)))
         (\<lambda>(s, st).
           bindR (page_of_snapshot (ss_id s) (ss_resume s) (map si_event (snapshot_rows st (ss_id s))) limit)
             (\<lambda>p. Inr (p, st)))))))"

text \<open>
  An expired snapshot is reported after the mutation has committed its clean-up, so the
  outcome is inside the result.
\<close>

definition read_snapshot_page ::
    "int \<Rightarrow> ustring \<Rightarrow> ustring \<Rightarrow> cursor_claims \<Rightarrow> int \<Rightarrow> sync_state \<Rightarrow> (snapshot_page result \<times> sync_state) result" where
  "read_snapshot_page now remote consumer cursor limit st =
     bindR (require_str ''remote_id'' remote) (\<lambda>remote.
     bindR (require_str ''consumer_id'' consumer) (\<lambda>consumer.
     case cl_snapshot_id cursor of
       None \<Rightarrow> Inl (TypeErr ''cursor must be a snapshot SyncCursorClaims'')
     | Some sid \<Rightarrow>
     bindR (require_int ''limit'' 1 limit) (\<lambda>limit.
       let st = cleanup_snapshots now st in
       if cursor_invalid now st remote consumer cursor then Inl (CursorExpired ''invalid_cursor'')
       else case find (\<lambda>s. ss_id s = sid) (sy_snapshots st) of
         None \<Rightarrow> Inr (Inl (CursorExpired ''snapshot_expired''), st)
       | Some s \<Rightarrow>
          if ss_remote s \<noteq> remote \<or> ss_consumer s \<noteq> consumer \<or> ss_resume s \<noteq> cl_snapshot cursor then
            Inl (CursorExpired ''invalid_cursor'')
          else
            let rows = snapshot_rows st sid in
            bindR (case cl_anchor cursor of
                None \<Rightarrow> Inr rows
              | Some a \<Rightarrow>
                 if \<not> list_ex (\<lambda>i. item_order i = anchor_order a) rows then
                   Inl (CursorExpired ''invalid_cursor'')
                 else Inr (filter (\<lambda>i. anchor_order a < item_order i) rows))
              (\<lambda>rows. bindR (page_of_snapshot sid (ss_resume s) (map si_event rows) limit)
                (\<lambda>p. Inr (Inr p, st))))))"

subsection \<open>Applying remote events\<close>

definition entity_version :: "sync_state \<Rightarrow> entity \<Rightarrow> version_row option" where
  "entity_version st k = find (\<lambda>r. vr_entity r = k) (sy_versions st)"

definition find_inbox :: "sync_state \<Rightarrow> sync_event \<Rightarrow> inbox_row option" where
  "find_inbox st e = find (\<lambda>r. ib_origin r = ev_origin e \<and> ib_event r = ev_id e) (sy_inbox st)"

definition push_inbox :: "sync_event \<Rightarrow> ustring \<Rightarrow> int option \<Rightarrow> sync_state \<Rightarrow> sync_state" where
  "push_inbox e outcome n st =
     st\<lparr>sy_inbox := sy_inbox st @ [\<lparr>ib_origin = ev_origin e, ib_event = ev_id e, ib_outcome = outcome, ib_seq = n\<rparr>]\<rparr>"

datatype outcome = Accepted | Duplicate | Conflict

definition outcome_text :: "outcome \<Rightarrow> ustring" where
  "outcome_text r = cp (case r of Accepted \<Rightarrow> ''accepted'' | Duplicate \<Rightarrow> ''duplicate'' | Conflict \<Rightarrow> ''rejected_conflict'')"

text \<open>
  The business state takes an event with the edge tombstones already applied in the batch
  (a parameter: see Lite\_Business).
\<close>

type_synonym 'b apply_business = "sync_event \<Rightarrow> entity_key list \<Rightarrow> 'b \<Rightarrow> (entity_key list \<times> 'b) result"

definition superseded :: "sync_state \<Rightarrow> sync_event \<Rightarrow> bool" where
  "superseded st e = (case entity_version st (event_entity e) of
     None \<Rightarrow> False | Some cur \<Rightarrow> ev_version e \<le> vr_version cur)"

definition apply_event ::
    "sync_config \<Rightarrow> 'b apply_business \<Rightarrow> sync_event \<Rightarrow> entity_key list \<Rightarrow> 'b repo \<Rightarrow>
     (outcome \<times> entity_key list) result \<times> 'b repo" where
  "apply_event cfg ab e tombs rp =
     (case find_inbox (rp_sync rp) e of
        Some row \<Rightarrow>
          (Inr (if ib_outcome row = outcome_text Conflict then Conflict else Duplicate, tombs), rp)
      | None \<Rightarrow>
         if superseded (rp_sync rp) e then
           (Inr (Conflict, tombs), rp\<lparr>rp_sync := push_inbox e (outcome_text Conflict) None (rp_sync rp)\<rparr>)
         else case ab e tombs (rp_business rp) of
           Inl err \<Rightarrow> (Inl err, rp)
         | Inr (tombs', b) \<Rightarrow>
            case append_event cfg e (rp\<lparr>rp_business := b\<rparr>) of
              (Inl err, rp') \<Rightarrow> (Inl err, rp')
            | (Inr n, rp') \<Rightarrow>
                (Inr (Accepted, tombs'),
                 rp'\<lparr>rp_sync := push_inbox e (outcome_text Accepted) (Some n) (rp_sync rp')\<rparr>))"

fun apply_events ::
    "sync_config \<Rightarrow> 'b apply_business \<Rightarrow> sync_event list \<Rightarrow> entity_key list \<Rightarrow> 'b repo \<Rightarrow>
     outcome list result \<times> 'b repo" where
  "apply_events cfg ab [] tombs rp = (Inr [], rp)"
| "apply_events cfg ab (e # es) tombs rp =
     (case apply_event cfg ab e tombs rp of
        (Inl err, rp') \<Rightarrow> (Inl err, rp')
      | (Inr (r, tombs'), rp') \<Rightarrow>
         (case apply_events cfg ab es tombs' rp' of
            (Inl err, rp'') \<Rightarrow> (Inl err, rp'') | (Inr rs, rp'') \<Rightarrow> (Inr (r # rs), rp'')))"

definition receipts_of :: "sync_event list \<Rightarrow> outcome list \<Rightarrow> sync_receipt list" where
  "receipts_of es rs = map (\<lambda>(e, r). \<lparr>rc_event = ev_id e, rc_outcome = outcome_text r\<rparr>) (zip es rs)"

text \<open>\<open>digest\<close> is the request digest of the batch, fixed when the batch was made.\<close>

definition apply_batch_body ::
    "sync_config \<Rightarrow> 'b apply_business \<Rightarrow> int \<Rightarrow> ustring \<Rightarrow> sync_batch \<Rightarrow> 'b repo \<Rightarrow> batch_result result \<times> 'b repo" where
  "apply_batch_body cfg ab now digest bt rp =
     (case bind_tenant (sc_tenant (ev_scope (hd (bt_events bt)))) (rp_sync rp) of
       Inl err \<Rightarrow> (Inl err, rp)
     | Inr st \<Rightarrow>
        let rp = rp\<lparr>rp_sync := st\<rparr> in
        case find (\<lambda>r. bx_id r = bt_id bt) (sy_batches st) of
          Some row \<Rightarrow>
            if bx_digest row \<noteq> digest then (Inl (ValueErr ''batch digest conflict''), rp)
            else (Inr (bx_response row), rp)
        | None \<Rightarrow>
           case apply_events cfg ab (bt_events bt) [] rp of
             (Inl err, rp') \<Rightarrow> (Inl err, rp')
           | (Inr rs, rp') \<Rightarrow>
              let res = \<lparr>br_batch = bt_id bt, br_digest = digest, br_outcome = cp ''accepted'',
                         br_receipts = receipts_of (bt_events bt) rs\<rparr> in
              (Inr res, rp'\<lparr>rp_sync := (rp_sync rp')\<lparr>sy_batches := sy_batches (rp_sync rp') @
                 [\<lparr>bx_id = bt_id bt, bx_digest = digest, bx_response = res, bx_created = now\<rparr>]\<rparr>\<rparr>))"

definition apply_batch ::
    "sync_config \<Rightarrow> 'b apply_business \<Rightarrow> int \<Rightarrow> ustring \<Rightarrow> sync_batch \<Rightarrow> 'b repo \<Rightarrow> batch_result result \<times> 'b repo" where
  "apply_batch cfg ab now digest bt = mutation (apply_batch_body cfg ab now digest bt)"

record apply_result =
  ar_applied :: nat
  ar_duplicate :: nat
  ar_conflict :: nat
  ar_cursor :: int

definition count_outcome :: "outcome \<Rightarrow> outcome list \<Rightarrow> nat" where
  "count_outcome r rs = length (filter (\<lambda>x. x = r) rs)"

definition page_tenant :: "sync_page \<Rightarrow> sync_state \<Rightarrow> ustring" where
  "page_tenant p st =
     (let bound = (case sy_binding st of None \<Rightarrow> [] | Some t \<Rightarrow> t);
          named = (if bound \<noteq> [] then bound
            else case pg_items p of [] \<Rightarrow> [] | (n, e) # _ \<Rightarrow> sc_tenant (ev_scope e)) in
      if named = [] then cp ''unbound-lite'' else named)"

text \<open>The page after validation, with the tenant of its first event bound.\<close>

definition apply_page_events ::
    "sync_config \<Rightarrow> 'b apply_business \<Rightarrow> int \<Rightarrow> ustring \<Rightarrow> sync_page \<Rightarrow> sync_event list \<Rightarrow> 'b repo \<Rightarrow>
     apply_result result \<times> 'b repo" where
  "apply_page_events cfg ab now remote p events rp =
     (let confirmed = (case find_cursor remote (local_node cfg) (sy_inbound (rp_sync rp)) of
            None \<Rightarrow> 0 | Some c \<Rightarrow> cr_after c) in
      if pg_next p < confirmed then (Inl (ValueErr ''page cursor regresses confirmed progress''), rp)
      else if pg_items p \<noteq> [] \<and> fst (hd (pg_items p)) \<le> confirmed \<and> confirmed < pg_next p then
        (Inl (ValueErr ''page partially overlaps confirmed progress''), rp)
      else if pg_next p \<le> confirmed then
        (Inr \<lparr>ar_applied = 0, ar_duplicate = 0, ar_conflict = 0, ar_cursor = confirmed\<rparr>, rp)
      else case apply_events cfg ab events [] rp of
        (Inl err, rp') \<Rightarrow> (Inl err, rp')
      | (Inr rs, rp') \<Rightarrow>
         (Inr \<lparr>ar_applied = count_outcome Accepted rs, ar_duplicate = count_outcome Duplicate rs,
               ar_conflict = count_outcome Conflict rs, ar_cursor = pg_next p\<rparr>,
          rp'\<lparr>rp_sync := (rp_sync rp')\<lparr>sy_inbound := put_cursor (\<lambda>_. pg_next p) (pg_next p) now
            remote (local_node cfg) (sy_inbound (rp_sync rp'))\<rparr>\<rparr>))"

definition apply_page_body ::
    "sync_config \<Rightarrow> 'b apply_business \<Rightarrow> int \<Rightarrow> ustring \<Rightarrow> sync_page \<Rightarrow> 'b repo \<Rightarrow> apply_result result \<times> 'b repo" where
  "apply_page_body cfg ab now remote p rp =
     (case validate_incoming_page (page_tenant p (rp_sync rp)) p of
        Inl err \<Rightarrow> (Inl err, rp)
      | Inr events \<Rightarrow>
         case (case events of [] \<Rightarrow> Inr (rp_sync rp)
               | e # _ \<Rightarrow> bind_tenant (sc_tenant (ev_scope e)) (rp_sync rp)) of
           Inl err \<Rightarrow> (Inl err, rp)
         | Inr st \<Rightarrow> apply_page_events cfg ab now remote p events (rp\<lparr>rp_sync := st\<rparr>))"

definition apply_page ::
    "sync_config \<Rightarrow> 'b apply_business \<Rightarrow> int \<Rightarrow> ustring \<Rightarrow> sync_page \<Rightarrow> 'b repo \<Rightarrow> apply_result result \<times> 'b repo" where
  "apply_page cfg ab now remote p rp =
     (case bindR (require_str ''remote_id'' remote) (\<lambda>remote.
        if remote = local_node cfg then Inl (ValueErr ''remote_id must not identify this node'')
        else validate_incoming_page (page_tenant p (rp_sync rp)) p) of
        Inl err \<Rightarrow> (Inl err, rp)
      | Inr _ \<Rightarrow> mutation (apply_page_body cfg ab now remote p) rp)"

subsection \<open>Compaction\<close>

definition drop_stale :: "int \<Rightarrow> cursor_row list \<Rightarrow> cursor_row list" where
  "drop_stale cutoff rows = filter (\<lambda>r. cutoff < cr_updated r) rows"

definition delivered_to :: "sync_state \<Rightarrow> int \<Rightarrow> target_row \<Rightarrow> bool" where
  "delivered_to st n t = (\<exists>d \<in> set (sy_deliveries st). dv_seq d = n \<and> dv_target d = tg_id t \<and> dv_state d = Delivered)"

text \<open>An enabled target that still has to see the event keeps it.\<close>

definition awaited :: "sync_state \<Rightarrow> int \<Rightarrow> bool" where
  "awaited st n = (\<exists>t \<in> set (sy_targets st). tg_enabled t \<and> tg_bootstrap t < n \<and> \<not> delivered_to st n t)"

fun compact_scan :: "sync_state \<Rightarrow> nat \<Rightarrow> int \<Rightarrow> int \<Rightarrow> outbox_row list \<Rightarrow> int list \<Rightarrow> int list" where
  "compact_scan st limit upper before [] acc = acc"
| "compact_scan st limit upper before (r # rs) acc =
     (if ob_seq r \<le> sy_floor st then compact_scan st limit upper before rs acc
      else if limit \<le> length acc \<or> upper < ob_seq r then acc
      else if before < ob_created r then acc
      else if awaited st (ob_seq r) then acc
      else compact_scan st limit upper before rs (acc @ [ob_seq r]))"

definition compact :: "sync_config \<Rightarrow> int \<Rightarrow> int \<Rightarrow> sync_state \<Rightarrow> (nat \<times> sync_state) result" where
  "compact cfg now limit st =
     bindR (require_int ''limit'' 1 limit) (\<lambda>limit.
       let before = now - seconds (cf_retention cfg);
           cutoff = now - seconds (cf_consumer_ttl cfg);
           st = cleanup_snapshots now st;
           st = st\<lparr>sy_cursors := drop_stale cutoff (sy_cursors st), sy_inbound := drop_stale cutoff (sy_inbound st)\<rparr>;
           pins = map cr_after (sy_cursors st) @ map ss_resume (sy_snapshots st);
           upper = (if pins = [] then sy_next st - 1 else Min (set pins));
           candidates = compact_scan st (nat limit) upper before (sy_outbox st) [] in
       if candidates = [] then Inr (0, st)
       else Inr (length candidates, st\<lparr>
         sy_outbox := filter (\<lambda>r. ob_seq r \<notin> set candidates) (sy_outbox st),
         sy_deliveries := filter (\<lambda>d. dv_seq d \<notin> set candidates) (sy_deliveries st),
         sy_floor := last candidates, sy_compacted := last candidates\<rparr>))"

end
