(* ===== verification/Sync_Invariants.thy ===== *)
theory Sync_Invariants
  imports Lite_Sync
begin

section \<open>The invariant of the sync repository\<close>

text \<open>
  The reference version of \<open>_append_event\<close> without its two caches, the invariant of the
  \<open>sync\<close> subtree, and its preservation by every operation, rolled back or not.
\<close>

subsection \<open>Appending by linear scans\<close>

text \<open>What \<open>_append_event\<close> does when duplicate ids and the version row are looked up directly.\<close>

definition put_version :: "sync_event \<Rightarrow> int \<Rightarrow> version_row list \<Rightarrow> version_row list" where
  "put_version e n rows =
     (if event_entity e \<in> vr_entity ` set rows then
        map (\<lambda>r. if vr_entity r = event_entity e then new_version e n else r) rows
      else rows @ [new_version e n])"

definition append_ref :: "sync_config \<Rightarrow> sync_event \<Rightarrow> sync_state \<Rightarrow> (int \<times> sync_state) result" where
  "append_ref cfg e st =
     bindR (bind_tenant (sc_tenant (ev_scope e)) st) (\<lambda>st.
       if ev_id e \<in> set (outbox_ids st) then Inl (ValueErr ''event_id already exists'')
       else bindR (assert_quota cfg (length (enabled_targets st e)) st) (\<lambda>_.
         Inr (sy_next st, push_event e (sy_next st) (put_version e (sy_next st) (sy_versions st)) st)))"

definition ids_fit :: "sync_state \<Rightarrow> ustring list option \<Rightarrow> bool" where
  "ids_fit st cache = (\<forall>ids. cache = Some ids \<longrightarrow> length (sy_outbox st) \<le> length ids \<and>
     (length ids = length (sy_outbox st) \<longrightarrow> set ids = set (outbox_ids st)))"

definition index_of :: "(entity \<times> nat) list \<Rightarrow> entity list \<Rightarrow> bool" where
  "index_of ps es = (\<forall>k i. dict_get ps k = Some i \<longleftrightarrow> i < length es \<and> es ! i = k)"

definition positions_fit :: "sync_state \<Rightarrow> ((entity \<times> nat) list \<times> nat) option \<Rightarrow> bool" where
  "positions_fit st cache = (\<forall>ps n. cache = Some (ps, n) \<longrightarrow> length (sy_versions st) \<le> n \<and>
     (n = length (sy_versions st) \<longrightarrow> index_of ps (version_entities st)))"

definition caches_fit :: "sync_state \<Rightarrow> 'b repo \<Rightarrow> bool" where
  "caches_fit st rp = (ids_fit st (rp_ids rp) \<and> positions_fit st (rp_positions rp))"

text \<open>How a mutation may grow the two lists the caches watch.\<close>

definition grows :: "sync_state \<Rightarrow> sync_state \<Rightarrow> bool" where
  "grows st st' = (prefix (sy_outbox st) (sy_outbox st') \<and> prefix (version_entities st) (version_entities st'))"

lemma grows_refl [simp]: "grows st st"
  by (simp add: grows_def)

lemma grows_trans: "grows a b \<Longrightarrow> grows b c \<Longrightarrow> grows a c"
  unfolding grows_def by (meson prefix_order.trans)

lemma length_version_entities [simp]: "length (version_entities st) = length (sy_versions st)"
  by (simp add: version_entities_def)

lemma length_outbox_ids [simp]: "length (outbox_ids st) = length (sy_outbox st)"
  by (simp add: outbox_ids_def)

lemma prefix_same_length: "prefix xs ys \<Longrightarrow> length ys \<le> length xs \<Longrightarrow> ys = xs"
  by (auto simp: prefix_def)

text \<open>Caches that fit the grown state fit the state it grew from: a roll-back is safe.\<close>

lemma caches_rollback:
  assumes "caches_fit st' rp" "grows st st'"
  shows "caches_fit st rp"
proof -
  have le: "length (sy_outbox st) \<le> length (sy_outbox st')" "length (sy_versions st) \<le> length (sy_versions st')"
    using assms(2) unfolding grows_def by (metis length_version_entities prefix_length_le)+
  have "sy_outbox st' = sy_outbox st" if "length (sy_outbox st') \<le> length (sy_outbox st)"
    using assms(2) that prefix_same_length unfolding grows_def by blast
  then have "ids_fit st (rp_ids rp)"
    using assms(1) le(1) by (auto simp: caches_fit_def ids_fit_def outbox_ids_def)
  moreover have "version_entities st' = version_entities st" if "length (sy_versions st') \<le> length (sy_versions st)"
    using assms(2) that prefix_same_length unfolding grows_def by (metis length_version_entities)
  then have "positions_fit st (rp_positions rp)"
    using assms(1) le(2) by (auto simp: caches_fit_def positions_fit_def)
  ultimately show ?thesis by (simp add: caches_fit_def)
qed

lemma index_ofD: "index_of ps es \<Longrightarrow> dict_get ps k = Some i \<longleftrightarrow> i < length es \<and> es ! i = k"
  unfolding index_of_def by blast

lemma index_ofI: "(\<And>k i. dict_get ps k = Some i \<longleftrightarrow> i < length es \<and> es ! i = k) \<Longrightarrow> index_of ps es"
  unfolding index_of_def by blast

lemma index_entities_of:
  assumes "distinct es" shows "index_of (index_entities es) es"
proof -
  let ?zs = "zip es [0..<length es]"
  have "distinct (map fst (rev ?zs))" using assms by (simp add: rev_map [symmetric])
  then have "map_of (rev ?zs) k = Some i \<longleftrightarrow> (k, i) \<in> set ?zs" for k i
    by (simp add: map_of_eq_Some_iff)
  moreover have "(k, i) \<in> set ?zs \<longleftrightarrow> i < length es \<and> es ! i = k" for k i
    by (auto simp: in_set_zip)
  ultimately show ?thesis by (intro index_ofI) (simp add: index_entities_def)
qed

lemma index_of_append:
  assumes "index_of ps es" "k \<notin> set es"
  shows "index_of ((k, length es) # ps) (es @ [k])"
proof (rule index_ofI)
  fix k' i
  show "dict_get ((k, length es) # ps) k' = Some i \<longleftrightarrow> i < length (es @ [k]) \<and> (es @ [k]) ! i = k'"
  proof (cases "k' = k")
    case True
    have "(es @ [k]) ! i = k \<longleftrightarrow> i = length es" if "i < Suc (length es)"
      using that assms(2) by (cases "i < length es") (auto simp: nth_append dest: nth_mem)
    then show ?thesis using True by auto
  next
    case False
    then have "i < length (es @ [k]) \<and> (es @ [k]) ! i = k' \<longleftrightarrow> i < length es \<and> es ! i = k'"
      by (auto simp: nth_append less_Suc_eq)
    then show ?thesis using False index_ofD [OF assms(1), of k' i] by simp
  qed
qed

lemma index_of_None: "index_of ps es \<Longrightarrow> dict_get ps k = None \<longleftrightarrow> k \<notin> set es"
  using index_ofD [of ps es k] by (cases "dict_get ps k") (auto simp: in_set_conv_nth)

lemma bind_tenant_frame:
  "bind_tenant t st = Inr st' \<Longrightarrow> t \<noteq> [] \<and> st' = st\<lparr>sy_binding := Some t\<rparr> \<and> (sy_binding st = None \<or> sy_binding st = Some t)"
  by (cases st) (auto simp: bind_tenant_def require_str_def split: if_splits option.splits)

lemma map_update_at:
  assumes "distinct (map f xs)" "i < length xs" "f (xs ! i) = k"
  shows "xs[i := y] = map (\<lambda>x. if f x = k then y else x) xs"
proof (rule nth_equalityI)
  fix j assume j: "j < length (xs[i := y])"
  then have "f (xs ! j) = k \<longleftrightarrow> j = i"
    using assms by (metis length_list_update length_map nth_eq_iff_index_eq nth_map)
  with j show "xs[i := y] ! j = map (\<lambda>x. if f x = k then y else x) xs ! j" by (auto simp: nth_list_update)
qed simp

lemma current_ids_fit: "ids_fit (rp_sync rp) (rp_ids rp) \<Longrightarrow> set (current_ids rp) = set (outbox_ids (rp_sync rp))"
  by (auto simp: current_ids_def ids_fit_def Let_def split: option.splits)

lemma current_ids_length:
  "ids_fit (rp_sync rp) (rp_ids rp) \<Longrightarrow> distinct (outbox_ids (rp_sync rp)) \<Longrightarrow>
    length (current_ids rp) = length (sy_outbox (rp_sync rp))"
  by (auto simp: current_ids_def ids_fit_def Let_def distinct_remdups_id split: option.splits)

lemma current_positions_fit:
  "positions_fit st cache \<Longrightarrow> distinct (version_entities st) \<Longrightarrow>
    index_of (current_positions st cache) (version_entities st)"
  by (auto simp: current_positions_def positions_fit_def Let_def index_entities_of split: option.splits)

text \<open>The optimised routine equals the reference, and leaves caches that fit.\<close>

lemma append_event_ref:
  assumes fit: "caches_fit (rp_sync rp) rp"
    and d: "distinct (outbox_ids (rp_sync rp))" "distinct (version_entities (rp_sync rp))"
    and run: "append_event cfg e rp = (r, rp')"
  shows "caches_fit (rp_sync rp') rp' \<and> grows (rp_sync rp) (rp_sync rp') \<and> rp_business rp' = rp_business rp
    \<and> (case r of Inl err \<Rightarrow> append_ref cfg e (rp_sync rp) = Inl err
       | Inr n \<Rightarrow> append_ref cfg e (rp_sync rp) = Inr (n, rp_sync rp'))"
proof (cases "bind_tenant (sc_tenant (ev_scope e)) (rp_sync rp)")
  case (Inl err)
  then show ?thesis using run fit by (auto simp: append_event_def append_ref_def)
next
  case (Inr st)
  then have st: "st = (rp_sync rp)\<lparr>sy_binding := Some (sc_tenant (ev_scope e))\<rparr>" using bind_tenant_frame by blast
  have same: "outbox_ids st = outbox_ids (rp_sync rp)" "version_entities st = version_entities (rp_sync rp)"
    "sy_outbox st = sy_outbox (rp_sync rp)" "sy_versions st = sy_versions (rp_sync rp)"
    by (simp_all add: st outbox_ids_def version_entities_def)
  let ?ids = "current_ids rp"
  have ids: "set ?ids = set (outbox_ids st)" "length ?ids = length (sy_outbox st)"
    using fit d current_ids_fit current_ids_length same by (auto simp: caches_fit_def)
  let ?n = "sy_next st" and ?ent = "event_entity e"
  let ?ps = "current_positions st (rp_positions rp)"
  have ps: "index_of ?ps (version_entities st)"
    using fit d same by (intro current_positions_fit) (auto simp: caches_fit_def positions_fit_def)
  let ?rp1 = "rp\<lparr>rp_sync := st, rp_ids := Some ?ids\<rparr>"
  have fit1: "caches_fit st ?rp1"
    using fit ids same by (auto simp: caches_fit_def ids_fit_def positions_fit_def)
  have grow1: "grows (rp_sync rp) st" by (simp add: grows_def same)
  show ?thesis
  proof (cases "ev_id e \<in> set ?ids \<or> (\<exists>err. assert_quota cfg (length (enabled_targets st e)) st = Inl err)")
    case True
    then show ?thesis
      using run Inr fit1 grow1 ids
      by (auto simp: append_event_def append_ref_def Let_def split: sum.splits if_splits)
  next
    case False
    then have new: "ev_id e \<notin> set ?ids" and quota: "assert_quota cfg (length (enabled_targets st e)) st = Inr ()"
      by (auto simp: assert_quota_def split: if_splits)
    let ?vs = "put_version e ?n (sy_versions st)"
    have ents: "vr_entity ` set (sy_versions st) = set (version_entities st)" by (simp add: version_entities_def)
    obtain ps' where upd: "(case dict_get ?ps ?ent of
          None \<Rightarrow> (sy_versions st @ [new_version e ?n], ((?ent, length (sy_versions st)) # ?ps, length (sy_versions st) + 1))
        | Some i \<Rightarrow> ((sy_versions st)[i := new_version e ?n], (?ps, length (sy_versions st)))) = (?vs, ps')"
      and ps': "snd ps' = length ?vs" "index_of (fst ps') (map vr_entity ?vs)"
      and pre: "prefix (version_entities st) (map vr_entity ?vs)"
    proof (cases "dict_get ?ps ?ent")
      case None
      then have notin: "?ent \<notin> set (version_entities st)" using index_of_None [OF ps] by blast
      then have vs: "?vs = sy_versions st @ [new_version e ?n]" by (simp add: put_version_def ents)
      have ents': "map vr_entity ?vs = version_entities st @ [?ent]"
        unfolding vs by (simp add: version_entities_def new_version_def)
      show ?thesis
      proof (rule that)
        show "(case dict_get ?ps ?ent of
            None \<Rightarrow> (sy_versions st @ [new_version e ?n], ((?ent, length (sy_versions st)) # ?ps, length (sy_versions st) + 1))
          | Some i \<Rightarrow> ((sy_versions st)[i := new_version e ?n], (?ps, length (sy_versions st))))
          = (?vs, ((?ent, length (sy_versions st)) # ?ps, length (sy_versions st) + 1))"
          unfolding vs None by simp
        show "index_of (fst ((?ent, length (sy_versions st)) # ?ps, length (sy_versions st) + 1)) (map vr_entity ?vs)"
          unfolding ents' fst_conv using index_of_append [OF ps notin] unfolding length_version_entities .
        show "prefix (version_entities st) (map vr_entity ?vs)" unfolding ents' by simp
      qed (simp add: vs)
    next
      case (Some i)
      then have i: "i < length (sy_versions st)" "vr_entity (sy_versions st ! i) = ?ent"
        using index_ofD [OF ps] by (auto simp: version_entities_def)
      then have mem: "?ent \<in> vr_entity ` set (sy_versions st)" by (metis image_eqI nth_mem)
      have "(sy_versions st)[i := new_version e ?n] = ?vs"
        using map_update_at [of vr_entity "sy_versions st" i ?ent] d(2) same i mem
        by (simp add: put_version_def version_entities_def)
      moreover have "map vr_entity ?vs = version_entities st"
        using mem by (auto simp: put_version_def version_entities_def new_version_def)
      ultimately show ?thesis using that [of "(?ps, length (sy_versions st))"] Some ps
        by (simp add: put_version_def mem)
    qed
    let ?st' = "push_event e ?n ?vs st"
    have rp': "rp' = ?rp1\<lparr>rp_sync := ?st', rp_ids := Some (ev_id e # ?ids), rp_positions := Some ps'\<rparr>" "r = Inr ?n"
      using run Inr new quota upd by (simp_all add: append_event_def Let_def)
    have "append_ref cfg e (rp_sync rp) = Inr (?n, ?st')"
      using Inr new quota ids by (simp add: append_ref_def)
    moreover have "ids_fit ?st' (Some (ev_id e # ?ids))"
      using ids by (auto simp: ids_fit_def push_event_def outbox_ids_def)
    moreover have "positions_fit ?st' (Some ps')"
      using ps' by (cases ps') (simp add: positions_fit_def push_event_def version_entities_def)
    moreover have "grows (rp_sync rp) ?st'"
      using pre same by (simp add: grows_def push_event_def version_entities_def)
    ultimately show ?thesis using rp' by (simp add: caches_fit_def)
  qed
qed

subsection \<open>The invariant\<close>

text \<open>A delivery row by itself: leased exactly while it names a lease, attempts within the cap.\<close>

definition row_ok :: "sync_config \<Rightarrow> delivery \<Rightarrow> bool" where
  "row_ok cfg d = ((dv_state d = Leased \<longleftrightarrow> dv_lease d \<noteq> None) \<and> (dv_lease d = None \<longleftrightarrow> dv_until d = None)
     \<and> 0 \<le> dv_attempts d \<and> dv_attempts d \<le> cf_max_attempts cfg
     \<and> (dv_state d = Leased \<longrightarrow> 1 \<le> dv_attempts d)
     \<and> (dv_state d = Pending \<longrightarrow> dv_attempts d < cf_max_attempts cfg))"

definition delivery_key :: "delivery \<Rightarrow> ustring \<times> int" where
  "delivery_key d = (dv_target d, dv_seq d)"

definition outbox_ok :: "sync_state \<Rightarrow> bool" where
  "outbox_ok st = (sorted_wrt (<) (map ob_seq (sy_outbox st))
     \<and> (\<forall>r \<in> set (sy_outbox st). sy_floor st < ob_seq r \<and> ob_seq r < sy_next st
          \<and> sy_binding st = Some (sc_tenant (ev_scope (ob_event r))))
     \<and> distinct (outbox_ids st) \<and> 0 \<le> sy_floor st \<and> sy_floor st < sy_next st)"

definition targets_ok :: "sync_config \<Rightarrow> sync_state \<Rightarrow> bool" where
  "targets_ok cfg st = (distinct (map tg_id (sy_targets st))
     \<and> (\<forall>t \<in> set (sy_targets st). tg_node t = tg_id t \<and> tg_id t \<noteq> local_node cfg))"

text \<open>A delivery belongs to an event of the outbox, to a known target, and never to the event's origin.\<close>

definition placed :: "sync_state \<Rightarrow> ustring \<times> int \<Rightarrow> bool" where
  "placed st k = (fst k \<in> tg_id ` set (sy_targets st)
     \<and> (\<exists>r \<in> set (sy_outbox st). ob_seq r = snd k \<and> ev_origin (ob_event r) \<noteq> fst k))"

definition live_row :: "delivery \<Rightarrow> bool" where
  "live_row d = (dv_state d \<noteq> Delivered)"

definition deliveries_ok :: "sync_config \<Rightarrow> sync_state \<Rightarrow> bool" where
  "deliveries_ok cfg st = ((\<forall>d \<in> set (sy_deliveries st). row_ok cfg d)
     \<and> (\<forall>k \<in> set (map delivery_key (sy_deliveries st)). placed st k)
     \<and> distinct (map delivery_key (sy_deliveries st))
     \<and> int (length (filter live_row (sy_deliveries st))) \<le> cf_max_pending cfg)"

definition inbox_key :: "inbox_row \<Rightarrow> ustring \<times> ustring" where
  "inbox_key r = (ib_origin r, ib_event r)"

definition sync_ok :: "sync_config \<Rightarrow> sync_state \<Rightarrow> bool" where
  "sync_ok cfg st = (outbox_ok st \<and> targets_ok cfg st \<and> deliveries_ok cfg st
     \<and> distinct (version_entities st) \<and> distinct (map inbox_key (sy_inbox st)))"

lemmas sync_ok_defs = sync_ok_def outbox_ok_def targets_ok_def deliveries_ok_def placed_def
  version_entities_def outbox_ids_def

definition config_ok :: "sync_config \<Rightarrow> bool" where
  "config_ok cfg = (1 \<le> cf_max_attempts cfg \<and> 1 \<le> cf_max_pending cfg)"

lemma active_deliveries_live: "active_deliveries st = length (filter live_row (sy_deliveries st))"
proof -
  have "dv_state d \<in> {Pending, Leased, DeadLetter} \<longleftrightarrow> live_row d" for d
    by (cases "dv_state d") (auto simp: live_row_def)
  then show ?thesis by (simp add: active_deliveries_def)
qed

lemma assert_quota_ok: "assert_quota cfg n st = Inr () \<longleftrightarrow>
    int (length (filter live_row (sy_deliveries st))) + int n \<le> cf_max_pending cfg"
  by (auto simp: assert_quota_def active_deliveries_live not_less)

lemma empty_sync_ok: "config_ok cfg \<Longrightarrow> sync_ok cfg empty_sync"
  by (simp add: sync_ok_defs empty_sync_def config_ok_def)

subsection \<open>Changing rows in place\<close>

definition row_step :: "sync_config \<Rightarrow> delivery \<Rightarrow> delivery \<Rightarrow> bool" where
  "row_step cfg d d' = (delivery_key d' = delivery_key d \<and> row_ok cfg d' \<and> (live_row d' \<longrightarrow> live_row d))"

lemma row_step_refl: "row_ok cfg d \<Longrightarrow> row_step cfg d d"
  by (simp add: row_step_def)

lemma row_steps_live:
  "list_all2 (row_step cfg) xs ys \<Longrightarrow> length (filter live_row ys) \<le> length (filter live_row xs)"
  by (induction rule: list_all2_induct) (auto simp: row_step_def)

lemma row_steps_keys: "list_all2 (row_step cfg) xs ys \<Longrightarrow> map delivery_key ys = map delivery_key xs"
  by (induction rule: list_all2_induct) (auto simp: row_step_def)

lemma row_steps_ok: "list_all2 (row_step cfg) xs ys \<Longrightarrow> \<forall>d \<in> set ys. row_ok cfg d"
  by (induction rule: list_all2_induct) (auto simp: row_step_def)

lemma row_steps_trans:
  "list_all2 (row_step cfg) xs ys \<Longrightarrow> list_all2 (row_step cfg) ys zs \<Longrightarrow> list_all2 (row_step cfg) xs zs"
  by (rule list_all2_trans [of "row_step cfg" "row_step cfg"]) (auto simp: row_step_def)

lemma row_steps_map:
  "(\<And>d. d \<in> set ds \<Longrightarrow> row_step cfg d (f d)) \<Longrightarrow> list_all2 (row_step cfg) ds (map f ds)"
  by (induction ds) auto

lemma row_steps_update:
  assumes "\<forall>d \<in> set ds. row_ok cfg d" "i < length ds \<Longrightarrow> row_step cfg (ds ! i) d"
  shows "list_all2 (row_step cfg) ds (ds[i := d])"
proof (rule list_all2_all_nthI)
  fix j assume "j < length ds"
  then show "row_step cfg (ds ! j) (ds[i := d] ! j)"
    using assms by (cases "i = j") (auto intro: row_step_refl)
qed simp

lemma sync_ok_rows:
  assumes ok: "sync_ok cfg st" and rows: "list_all2 (row_step cfg) (sy_deliveries st) ds"
  shows "sync_ok cfg (st\<lparr>sy_deliveries := ds\<rparr>)"
proof -
  have "deliveries_ok cfg (st\<lparr>sy_deliveries := ds\<rparr>)"
    using ok row_steps_live [OF rows] row_steps_keys [OF rows] row_steps_ok [OF rows]
    by (auto simp: sync_ok_def deliveries_ok_def placed_def)
  then show ?thesis using ok by (simp add: sync_ok_defs)
qed

lemma sync_ok_rowD: "sync_ok cfg st \<Longrightarrow> d \<in> set (sy_deliveries st) \<Longrightarrow> row_ok cfg d"
  by (simp add: sync_ok_def deliveries_ok_def)

lemma sync_ok_set_row:
  assumes "sync_ok cfg st" "i < length (sy_deliveries st) \<Longrightarrow> row_step cfg (sy_deliveries st ! i) d"
  shows "sync_ok cfg (set_row i d st)"
  unfolding set_row_def using assms by (intro sync_ok_rows row_steps_update) (auto intro: sync_ok_rowD)

text \<open>The rows each operation writes.\<close>

lemma expire_lease_step: "row_ok cfg d \<Longrightarrow> row_step cfg d (expire_lease cfg t now d)"
  by (auto simp: row_step_def expire_lease_def row_ok_def delivery_key_def live_row_def)

lemma lease_row_step:
  "row_ok cfg d \<Longrightarrow> is_due cfg t now d \<Longrightarrow> row_step cfg d (lease_row l u d)"
  by (auto simp: row_step_def lease_row_def row_ok_def is_due_def delivery_key_def live_row_def)

lemma mark_delivered_step: "row_ok cfg d \<Longrightarrow> row_step cfg d (mark_delivered d)"
  by (auto simp: row_step_def mark_delivered_def row_ok_def delivery_key_def live_row_def)

lemma to_dead_letter_step:
  "row_ok cfg d \<Longrightarrow> dv_state d = Leased \<Longrightarrow> row_step cfg d (to_dead_letter err now d)"
  by (auto simp: row_step_def to_dead_letter_def row_ok_def delivery_key_def live_row_def)

lemma to_retry_step:
  "row_ok cfg d \<Longrightarrow> dv_state d = Leased \<Longrightarrow> dv_attempts d < cf_max_attempts cfg \<Longrightarrow>
    row_step cfg d (to_retry err now d)"
  by (auto simp: row_step_def to_retry_def row_ok_def delivery_key_def live_row_def)

lemma replay_step:
  "config_ok cfg \<Longrightarrow> dv_state d = DeadLetter \<Longrightarrow>
    row_step cfg d (d\<lparr>dv_state := Pending, dv_attempts := 0, dv_lease := None, dv_until := None,
      dv_next := now, dv_error := None\<rparr>)"
  by (auto simp: row_step_def row_ok_def delivery_key_def live_row_def config_ok_def)

lemma confirm_delivery_step: "row_ok cfg d \<Longrightarrow> row_step cfg d (confirm_delivery st remote after d)"
  by (simp add: confirm_delivery_def mark_delivered_step row_step_refl)

end
