(* ===== verification/Sync_Steps.thy ===== *)
theory Sync_Steps
  imports Sync_Invariants
begin

section \<open>Every operation of the sync repository keeps its invariant\<close>

text \<open>
  Preservation of \<open>sync_ok\<close> (theory Sync\_Invariants), one lemma per operation on the
  subtree, in the order of the source.
\<close>

lemma require_str_Inr [simp]: "require_str name s = Inr x \<longleftrightarrow> s \<noteq> [] \<and> x = s"
  by (auto simp: require_str_def)

lemma require_int_Inr [simp]: "require_int name m n = Inr x \<longleftrightarrow> m \<le> n \<and> x = n"
  by (auto simp: require_int_def)

lemma bindR_require:
  "bindR (require_str name s) f = Inr y \<longleftrightarrow> s \<noteq> [] \<and> f s = Inr y"
  "bindR (require_int name m n) g = Inr y \<longleftrightarrow> m \<le> n \<and> g n = Inr y"
  by auto

subsection \<open>Appending\<close>

lemma bind_tenant_ok:
  assumes "sync_ok cfg st" "bind_tenant t st = Inr st'" shows "sync_ok cfg st'"
proof -
  have "st' = st\<lparr>sy_binding := Some t\<rparr>" "sy_binding st = None \<or> sy_binding st = Some t"
    using bind_tenant_frame [OF assms(2)] by auto
  then show ?thesis using assms(1) by (auto simp: sync_ok_defs)
qed

lemma put_version_entities:
  "map vr_entity (put_version e n rows) =
    (if event_entity e \<in> vr_entity ` set rows then map vr_entity rows
     else map vr_entity rows @ [event_entity e])"
  by (auto simp: put_version_def new_version_def)

lemma put_version_distinct: "distinct (map vr_entity rows) \<Longrightarrow> distinct (map vr_entity (put_version e n rows))"
  by (auto simp: put_version_entities)

lemma placed_mono:
  "placed st k \<Longrightarrow> set (sy_outbox st) \<subseteq> set (sy_outbox st') \<Longrightarrow> tg_id ` set (sy_targets st) \<subseteq> tg_id ` set (sy_targets st') \<Longrightarrow>
    placed st' k"
  by (auto simp: placed_def)

lemma sync_ok_placed: "sync_ok cfg st \<Longrightarrow> k \<in> set (map delivery_key (sy_deliveries st)) \<Longrightarrow> placed st k"
  by (auto simp: sync_ok_def deliveries_ok_def)

lemma sync_ok_outbox:
  "sync_ok cfg st \<Longrightarrow> r \<in> set (sy_outbox st) \<Longrightarrow>
    sy_floor st < ob_seq r \<and> ob_seq r < sy_next st \<and> sy_binding st = Some (sc_tenant (ev_scope (ob_event r)))"
  by (simp add: sync_ok_def outbox_ok_def)

lemma sync_ok_key_seq:
  assumes "sync_ok cfg st" "k \<in> set (map delivery_key (sy_deliveries st))"
  shows "snd k < sy_next st"
proof -
  obtain r where "r \<in> set (sy_outbox st)" "ob_seq r = snd k"
    using sync_ok_placed [OF assms] by (auto simp: placed_def)
  then show ?thesis using sync_ok_outbox [OF assms(1)] by metis
qed

lemma sync_ok_key_target:
  "sync_ok cfg st \<Longrightarrow> k \<in> set (map delivery_key (sy_deliveries st)) \<Longrightarrow> fst k \<in> tg_id ` set (sy_targets st)"
  using sync_ok_placed by (auto simp: placed_def)

lemma new_delivery_row_ok: "config_ok cfg \<Longrightarrow> row_ok cfg (new_delivery t n due)"
  by (simp add: config_ok_def row_ok_def new_delivery_def)

lemma new_delivery_facts [simp]:
  "live_row (new_delivery t n due)" "delivery_key (new_delivery t n due) = (t, n)"
  by (simp_all add: live_row_def new_delivery_def delivery_key_def)

lemma filter_all: "(\<And>x. x \<in> set xs \<Longrightarrow> P x) \<Longrightarrow> filter P xs = xs"
  by (induction xs) auto

lemma distinct_pair_map: "distinct (map f xs) \<Longrightarrow> distinct (map (\<lambda>x. (f x, n)) xs)"
  by (induction xs) auto

text \<open>Rows added for distinct, well placed keys that no row has yet.\<close>

lemma deliveries_ok_add:
  assumes ok: "deliveries_ok cfg st" and cfg: "config_ok cfg"
    and grow: "set (sy_outbox st) \<subseteq> set (sy_outbox st')" "tg_id ` set (sy_targets st) \<subseteq> tg_id ` set (sy_targets st')"
    and rows: "sy_deliveries st' = sy_deliveries st @ map (\<lambda>(t, n). new_delivery t n due) ks"
    and new: "distinct ks" "set ks \<inter> set (map delivery_key (sy_deliveries st)) = {}" "\<forall>k \<in> set ks. placed st' k"
    and quota: "assert_quota cfg (length ks) st = Inr ()"
  shows "deliveries_ok cfg st'"
proof -
  let ?new = "map (\<lambda>(t, n). new_delivery t n due) ks"
  have keys: "map delivery_key ?new = ks" by (induction ks) auto
  have live: "length (filter live_row ?new) = length ks" by (induction ks) auto
  have "\<forall>d \<in> set ?new. row_ok cfg d" using cfg by (auto intro: new_delivery_row_ok)
  moreover have "placed st' k" if "k \<in> set (map delivery_key (sy_deliveries st))" for k
    using ok that grow by (auto simp: deliveries_ok_def intro: placed_mono)
  ultimately show ?thesis
    using ok new quota unfolding deliveries_ok_def rows map_append keys filter_append length_append live assert_quota_ok
    by auto
qed

lemma append_ref_ok:
  assumes cfg: "config_ok cfg" and ok0: "sync_ok cfg st0" and run: "append_ref cfg e st0 = Inr (n, st')"
  shows "sync_ok cfg st'"
proof -
  obtain st where st: "bind_tenant (sc_tenant (ev_scope e)) st0 = Inr st"
    and new: "ev_id e \<notin> set (outbox_ids st)" and quota: "assert_quota cfg (length (enabled_targets st e)) st = Inr ()"
    and res: "n = sy_next st" "st' = push_event e (sy_next st) (put_version e (sy_next st) (sy_versions st)) st"
    using run by (auto simp: append_ref_def split: if_splits)
  have ok: "sync_ok cfg st" using bind_tenant_ok [OF ok0 st] .
  have bound: "sy_binding st = Some (sc_tenant (ev_scope e))" using bind_tenant_frame [OF st] by simp
  let ?ts = "enabled_targets st e" and ?row = "\<lparr>ob_seq = n, ob_event = e, ob_created = occurred_at (ev_version e)\<rparr>"
  have out: "sy_outbox st' = sy_outbox st @ [?row]" and tg: "sy_targets st' = sy_targets st"
    by (simp_all add: res push_event_def)
  have "outbox_ok st'"
    using ok bound new
    by (auto simp: sync_ok_def outbox_ok_def res push_event_def outbox_ids_def sorted_wrt_append)
  moreover have "targets_ok cfg st'" using ok by (simp add: sync_ok_def targets_ok_def tg)
  moreover have "deliveries_ok cfg st'"
  proof (rule deliveries_ok_add)
    show "deliveries_ok cfg st" using ok by (simp add: sync_ok_def)
    show "sy_deliveries st' = sy_deliveries st @
        map (\<lambda>(t, n). new_delivery t n (occurred_at (ev_version e))) (map (\<lambda>t. (tg_id t, n)) ?ts)"
      by (simp add: res push_event_def comp_def)
    have "distinct (map tg_id ?ts)"
      using ok unfolding sync_ok_def targets_ok_def enabled_targets_def by (blast intro: distinct_map_filter)
    then show "distinct (map (\<lambda>t. (tg_id t, n)) ?ts)" by (rule distinct_pair_map)
    have "snd k < n" if "k \<in> set (map delivery_key (sy_deliveries st))" for k
      using sync_ok_key_seq [OF ok that] by (simp add: res)
    then show "set (map (\<lambda>t. (tg_id t, n)) ?ts) \<inter> set (map delivery_key (sy_deliveries st)) = {}"
      by fastforce
    show "\<forall>k \<in> set (map (\<lambda>t. (tg_id t, n)) ?ts). placed st' k"
      using ok by (auto simp: placed_def out tg enabled_targets_def sync_ok_def targets_ok_def)
  qed (use cfg quota in \<open>auto simp: out tg\<close>)
  moreover have "distinct (version_entities st')"
    using ok put_version_distinct [of "sy_versions st"]
    by (simp add: sync_ok_def version_entities_def res push_event_def)
  ultimately show ?thesis using ok by (simp add: sync_ok_def res push_event_def)
qed

subsection \<open>Targets and leases\<close>

lemma find_target_None: "find_target t st = None \<longleftrightarrow> t \<notin> tg_id ` set (sy_targets st)"
  by (auto simp: find_target_def find_None_iff)

lemma register_target_ok:
  assumes cfg: "config_ok cfg" and ok: "sync_ok cfg st"
    and run: "register_target cfg now target bootstrap st = Inr (u, st')"
  shows "sync_ok cfg st'"
proof (cases "st' = st")
  case True then show ?thesis using ok by simp
next
  case False
  define seq where "seq = (if bootstrap = cp ''future'' then sy_next st - 1 else sy_floor st)"
  define rs where "rs = filter (\<lambda>r. bootstrap = cp ''retained'' \<and> seq \<le> ob_seq r \<and> ev_origin (ob_event r) \<noteq> target) (sy_outbox st)"
  let ?row = "\<lparr>tg_id = target, tg_node = target, tg_bootstrap = seq, tg_enabled = True\<rparr>"
  have new: "find_target target st = None" "target \<noteq> local_node cfg" and quota: "assert_quota cfg (length rs) st = Inr ()"
    and st': "st' = st\<lparr>sy_targets := sy_targets st @ [?row],
       sy_deliveries := sy_deliveries st @ map (\<lambda>r. new_delivery target (ob_seq r) now) rs\<rparr>"
    using run False
    by (auto simp: register_target_def require_str_def Let_def seq_def [symmetric] rs_def [symmetric]
      split: if_splits)
  have sub: "set rs \<subseteq> set (sy_outbox st)" by (auto simp: rs_def)
  have "deliveries_ok cfg st'"
  proof (rule deliveries_ok_add)
    show "deliveries_ok cfg st" using ok by (simp add: sync_ok_def)
    show "sy_deliveries st' = sy_deliveries st @ map (\<lambda>(t, n). new_delivery t n now) (map (\<lambda>r. (target, ob_seq r)) rs)"
      by (simp add: st' comp_def)
    have "distinct (map ob_seq (sy_outbox st))"
      using ok by (simp add: sync_ok_def outbox_ok_def strict_sorted_iff)
    then have "distinct (map ob_seq rs)" unfolding rs_def by (rule distinct_map_filter)
    then show "distinct (map (\<lambda>r. (target, ob_seq r)) rs)" by (induction rs) auto
    have "fst k \<noteq> target" if "k \<in> set (map delivery_key (sy_deliveries st))" for k
      using sync_ok_key_target [OF ok that] new by (auto simp: find_target_None)
    then show "set (map (\<lambda>r. (target, ob_seq r)) rs) \<inter> set (map delivery_key (sy_deliveries st)) = {}"
      by fastforce
    show "\<forall>k \<in> set (map (\<lambda>r. (target, ob_seq r)) rs). placed st' k"
      by (auto simp: placed_def st' rs_def)
  qed (use cfg quota in \<open>auto simp: st'\<close>)
  moreover have "targets_ok cfg st'"
    using ok new by (auto simp: sync_ok_def targets_ok_def st' find_target_None image_iff)
  ultimately show ?thesis using ok by (simp add: sync_ok_def outbox_ok_def st' version_entities_def outbox_ids_def)
qed

lemma filterR_Inr: "filterR p xs = Inr ys \<Longrightarrow> ys = filter (\<lambda>x. p x = Inr True) xs"
  by (induction xs arbitrary: ys) (auto split: if_splits)

lemma lease_all_steps:
  "distinct is \<Longrightarrow> \<forall>d \<in> set ds. row_ok cfg d \<Longrightarrow> \<forall>i \<in> set is. i < length ds \<and> is_due cfg t now (ds ! i) \<Longrightarrow>
    list_all2 (row_step cfg) ds (lease_all fresh u n is ds)"
proof (induction "is" arbitrary: n ds)
  case Nil then show ?case by (auto intro!: list.rel_refl_strong row_step_refl)
next
  case (Cons i "is")
  let ?ds = "ds[i := lease_row (fresh n) u (ds ! i)]"
  have step: "list_all2 (row_step cfg) ds ?ds"
    using Cons.prems by (intro row_steps_update) (auto intro: lease_row_step)
  have "list_all2 (row_step cfg) ?ds (lease_all fresh u (Suc n) is ?ds)"
  proof (rule Cons.IH)
    show "\<forall>d \<in> set ?ds. row_ok cfg d" using row_steps_ok [OF step] .
    show "\<forall>j \<in> set is. j < length ?ds \<and> is_due cfg t now (?ds ! j)"
      using Cons.prems by (auto simp: nth_list_update)
  qed (use Cons.prems in simp)
  then show ?case using row_steps_trans [OF step] by simp
qed

text \<open>What a successful claim does to the rows.\<close>

lemma claim_shape:
  assumes "claim cfg fresh now target limit secs st = Inr (out, st')"
  obtains (idle) "out = []" "st' = st"
  | (leased) t picked where
      "find_target target st = Some t" "tg_enabled t"
      "picked = take (nat limit) (sort_key (\<lambda>i. dv_seq (map (expire_lease cfg target now) (sy_deliveries st) ! i))
         (filter (\<lambda>i. claimable cfg target now st (map (expire_lease cfg target now) (sy_deliveries st) ! i) = Inr True)
           [0..<length (sy_deliveries st)]))"
      "out = map (\<lambda>(n, i). claimed_delivery st (fresh n) (now + seconds secs)
         (map (expire_lease cfg target now) (sy_deliveries st) ! i)) (enumerate 0 picked)"
      "st' = st\<lparr>sy_deliveries := lease_all fresh (now + seconds secs) 0 picked
         (map (expire_lease cfg target now) (sy_deliveries st))\<rparr>"
proof -
  have args: "target \<noteq> []" "1 \<le> limit" "1 \<le> secs"
    using assms by (auto simp: claim_def require_str_def require_int_def split: if_splits)
  show thesis
  proof (cases "\<exists>t. find_target target st = Some t \<and> tg_enabled t")
    case True
    then obtain t where t: "find_target target st = Some t" "tg_enabled t" by blast
    show ?thesis
      using assms args
      by (auto simp: claim_def require_str_def require_int_def t Let_def dest!: filterR_Inr intro!: leased [OF t])
  next
    case False
    then show ?thesis
      using assms args idle
      by (auto simp: claim_def require_str_def require_int_def split: option.splits)
  qed
qed

lemma claimable_due: "claimable cfg target now st d = Inr True \<Longrightarrow> is_due cfg target now d"
  by (auto simp: claimable_def split: if_splits)

lemma claim_ok:
  assumes ok: "sync_ok cfg st" and run: "claim cfg fresh now target limit secs st = Inr (out, st')"
  shows "sync_ok cfg st'"
  using run
proof (cases rule: claim_shape)
  case idle then show ?thesis using ok by simp
next
  case (leased t picked)
  let ?ds = "map (expire_lease cfg target now) (sy_deliveries st)"
  have expire: "list_all2 (row_step cfg) (sy_deliveries st) ?ds"
    using ok by (intro row_steps_map expire_lease_step) (rule sync_ok_rowD)
  have "list_all2 (row_step cfg) ?ds (lease_all fresh (now + seconds secs) 0 picked ?ds)"
  proof (rule lease_all_steps [where t = target and now = now])
    show "distinct picked" by (simp add: leased(3) distinct_take)
    show "\<forall>i \<in> set picked. i < length ?ds \<and> is_due cfg target now (?ds ! i)"
      using claimable_due by (auto simp: leased(3) dest!: in_set_takeD)
  qed (rule row_steps_ok [OF expire])
  then show ?thesis using sync_ok_rows [OF ok row_steps_trans [OF expire]] leased(5) by simp
qed

subsection \<open>Settling a delivery\<close>

lemma ack_batch_ok:
  assumes ok: "sync_ok cfg st" and run: "ack_batch now sds receipts st = Inr (u, st')"
  shows "sync_ok cfg st'"
proof -
  obtain "is" where "st' = fold (\<lambda>i st. set_row i (mark_delivered (sy_deliveries st ! i)) st) is st"
    using run by (auto simp: ack_batch_def split: if_splits)
  moreover have "sync_ok cfg (fold (\<lambda>i st. set_row i (mark_delivered (sy_deliveries st ! i)) st) is st)" for "is"
    using ok
  proof (induction "is" arbitrary: st)
    case (Cons i "is")
    have "sync_ok cfg (set_row i (mark_delivered (sy_deliveries st ! i)) st)"
      using Cons.prems by (intro sync_ok_set_row mark_delivered_step) (auto intro: sync_ok_rowD)
    then show ?case using Cons.IH by simp
  qed simp
  ultimately show ?thesis by simp
qed

lemma require_active_lease_Inr:
  "require_active_lease now d sd = Inr u \<longleftrightarrow>
    dv_state d = Leased \<and> dv_lease d = Some (sd_lease sd) \<and> now < the (dv_until d)"
  by (auto simp: require_active_lease_def)

text \<open>A settled lease: nothing to do, or one leased row rewritten.\<close>

lemma set_leased_row_ok:
  assumes ok: "sync_ok cfg st" and lease: "require_active_lease now (sy_deliveries st ! i) sd = Inr u"
    and step: "\<And>d. row_ok cfg d \<Longrightarrow> dv_state d = Leased \<Longrightarrow> row_step cfg d (f d)"
  shows "sync_ok cfg (set_row i (f (sy_deliveries st ! i)) st)"
  using ok lease by (intro sync_ok_set_row step) (auto simp: require_active_lease_Inr intro: sync_ok_rowD)

lemma fail_delivery_ok:
  assumes ok: "sync_ok cfg st" and run: "fail_delivery cfg clock sd err now st = Inr (u, st')"
  shows "sync_ok cfg st'"
proof -
  define f where "f d = (if cf_max_attempts cfg \<le> dv_attempts d then to_dead_letter err now d else to_retry err now d)" for d
  have step: "row_step cfg d (f d)" if "row_ok cfg d" "dv_state d = Leased" for d
    using that to_dead_letter_step to_retry_step by (simp add: f_def)
  show ?thesis
  proof (cases "delivery_index st sd")
    case None
    then show ?thesis using run ok by (auto simp: fail_delivery_def)
  next
    case (Some i)
    then have "require_active_lease clock (sy_deliveries st ! i) sd = Inr ()" "st' = set_row i (f (sy_deliveries st ! i)) st"
      using run by (auto simp add: fail_delivery_def Let_def f_def)
    then show ?thesis using set_leased_row_ok [OF ok _ step] by simp
  qed
qed

lemma dead_letter_ok:
  assumes "sync_ok cfg st" "dead_letter clock sd err now st = Inr (u, st')" shows "sync_ok cfg st'"
  using assms set_leased_row_ok [OF assms(1), where f = "to_dead_letter err now"] to_dead_letter_step
  by (auto simp: dead_letter_def require_str_def Let_def split: if_split_asm option.splits)

lemma replay_dead_letter_ok:
  assumes cfg: "config_ok cfg" and ok: "sync_ok cfg st"
    and run: "replay_dead_letter now target eid st = Inr (b, st')"
  shows "sync_ok cfg st'"
proof (cases b)
  case False
  then show ?thesis using run ok by (auto simp: replay_dead_letter_def require_str_def split: if_splits option.splits)
next
  case True
  then obtain i where i: "dv_state (sy_deliveries st ! i) = DeadLetter"
    "st' = set_row i ((sy_deliveries st ! i)\<lparr>dv_state := Pending, dv_attempts := 0,
        dv_lease := None, dv_until := None, dv_next := now, dv_error := None\<rparr>) st"
    using run by (auto simp: replay_dead_letter_def require_str_def Let_def find_Some_iff split: if_splits option.splits)
  show ?thesis unfolding i(2) using cfg ok i(1) by (intro sync_ok_set_row replay_step)
qed

lemma set_target_enabled_ok:
  assumes "sync_ok cfg st" "set_target_enabled target b st = Inr (u, st')" shows "sync_ok cfg st'"
proof -
  obtain f where st': "st' = st\<lparr>sy_targets := map f (sy_targets st)\<rparr>"
    and f: "\<And>r. tg_id (f r) = tg_id r" "\<And>r. tg_node (f r) = tg_node r"
  proof -
    obtain t where "st' = st\<lparr>sy_targets := map (\<lambda>r. if r = t then r\<lparr>tg_enabled := b\<rparr> else r) (sy_targets st)\<rparr>"
      using assms(2) by (auto simp: set_target_enabled_def split: option.splits)
    then show ?thesis by (rule that) auto
  qed
  have ids: "map tg_id (map f ts) = map tg_id ts" for ts using f(1) by simp
  then have "tg_id ` set (map f (sy_targets st)) = tg_id ` set (sy_targets st)" by (metis list.set_map)
  then have "placed st' = placed st" by (intro ext) (simp add: placed_def st')
  then have "deliveries_ok cfg st'" using assms(1) by (simp add: sync_ok_def deliveries_ok_def st')
  moreover have "targets_ok cfg st'"
    using assms(1) f ids [of "sy_targets st"] unfolding sync_ok_def targets_ok_def by (simp add: st' del: map_map)
  ultimately show ?thesis
    using assms(1) by (simp add: sync_ok_def outbox_ok_def version_entities_def outbox_ids_def st')
qed

subsection \<open>Pages and snapshots\<close>

lemma sync_ok_frame:
  "sync_ok cfg st \<Longrightarrow> sync_ok cfg (st\<lparr>sy_cursors := cs\<rparr>)" "sync_ok cfg st \<Longrightarrow> sync_ok cfg (st\<lparr>sy_inbound := is\<rparr>)"
  "sync_ok cfg st \<Longrightarrow> sync_ok cfg (st\<lparr>sy_batches := bs\<rparr>)"
  "sync_ok cfg st \<Longrightarrow> sync_ok cfg (st\<lparr>sy_snapshots := ss\<rparr>)" "sync_ok cfg st \<Longrightarrow> sync_ok cfg (st\<lparr>sy_items := xs\<rparr>)"
  by (simp_all add: sync_ok_defs)

lemma read_page_shape:
  assumes run: "read_page now remote consumer cursor limit st = Inr (p, st')"
  obtains after where "st' = st\<lparr>
      sy_deliveries := (if cursor = None then sy_deliveries st else map (confirm_delivery st remote after) (sy_deliveries st)),
      sy_cursors := put_cursor (max after) after now remote consumer (sy_cursors st)\<rparr>"
proof -
  define after where "after = (case cursor of
      None \<Rightarrow> (case find_cursor remote consumer (sy_cursors st) of None \<Rightarrow> 0 | Some r \<Rightarrow> cr_after r)
    | Some c \<Rightarrow> cl_after c)"
  show thesis
    using run unfolding read_page_def Let_def bindR_require after_def [symmetric]
    by (intro that [of after]) (auto simp del: not_None_eq split: if_split_asm)
qed

lemma read_page_ok:
  assumes ok: "sync_ok cfg st" and run: "read_page now remote consumer cursor limit st = Inr (p, st')"
  shows "sync_ok cfg st'"
proof -
  obtain after where st': "st' = st\<lparr>
      sy_deliveries := (if cursor = None then sy_deliveries st else map (confirm_delivery st remote after) (sy_deliveries st)),
      sy_cursors := put_cursor (max after) after now remote consumer (sy_cursors st)\<rparr>"
    using read_page_shape [OF run] by blast
  have "list_all2 (row_step cfg) (sy_deliveries st) (map (confirm_delivery st remote after) (sy_deliveries st))" for after
    using ok by (intro row_steps_map confirm_delivery_step) (rule sync_ok_rowD)
  moreover have "list_all2 (row_step cfg) (sy_deliveries st) (sy_deliveries st)"
    using ok by (intro list.rel_refl_strong row_step_refl) (rule sync_ok_rowD)
  ultimately have "list_all2 (row_step cfg) (sy_deliveries st) (if cursor = None then sy_deliveries st
      else map (confirm_delivery st remote after) (sy_deliveries st))" by simp
  from sync_ok_frame(1) [OF sync_ok_rows [OF ok this]] show ?thesis by (simp add: st')
qed

lemma cleanup_snapshots_ok: "sync_ok cfg st \<Longrightarrow> sync_ok cfg (cleanup_snapshots now st)"
  unfolding cleanup_snapshots_def Let_def by (intro sync_ok_frame)

text \<open>Listing the business state may bind the tenant, and does nothing else to the subtree.\<close>

definition binds_only :: "sync_state \<Rightarrow> sync_state \<Rightarrow> bool" where
  "binds_only st st' = (\<exists>b. st' = st\<lparr>sy_binding := b\<rparr> \<and> (sy_binding st = None \<or> b = sy_binding st))"

lemma binds_only_refl [simp]: "binds_only st st"
  unfolding binds_only_def by (rule exI [of _ "sy_binding st"]) simp

lemma bind_tenant_binds: "bind_tenant t st = Inr st' \<Longrightarrow> binds_only st st'"
  unfolding binds_only_def using bind_tenant_frame [of t st st'] by auto

lemma binds_only_ok:
  assumes "sync_ok cfg st" "binds_only st st'" shows "sync_ok cfg st'"
proof -
  obtain b where "st' = st\<lparr>sy_binding := b\<rparr>" "sy_binding st = None \<or> b = sy_binding st"
    using assms(2) by (auto simp: binds_only_def)
  then show ?thesis using assms(1) by (auto simp: sync_ok_defs)
qed

lemma create_snapshot_ok:
  assumes law: "\<And>st es st'. current st = Inr (es, st') \<Longrightarrow> binds_only st st'"
    and ok: "sync_ok cfg st" and run: "create_snapshot cfg current fresh now remote consumer request limit st = Inr (p, st')"
  shows "sync_ok cfg st'"
proof -
  have ok': "sync_ok cfg (cleanup_snapshots now st)" by (rule cleanup_snapshots_ok [OF ok])
  have ok1: "sync_ok cfg st1" if "current (cleanup_snapshots now st) = Inr (es, st1)" for es st1
    using law [OF that] binds_only_ok [OF ok'] by simp
  obtain s where "(s, st') \<in> {(s, cleanup_snapshots now st) | s. True} \<or>
      (\<exists>es st1. current (cleanup_snapshots now st) = Inr (es, st1) \<and>
        st' = st1\<lparr>sy_snapshots := sy_snapshots st1 @ [s],
          sy_items := sy_items st1 @ map (\<lambda>e. \<lparr>si_snapshot = fresh, si_event = e\<rparr>) es\<rparr>)"
    using run unfolding create_snapshot_def Let_def bindR_Inr_iff
    by (auto split: if_split_asm option.split_asm)
  then show ?thesis using ok' ok1 by (auto intro!: sync_ok_frame)
qed

lemma read_snapshot_page_ok:
  assumes ok: "sync_ok cfg st" and run: "read_snapshot_page now remote consumer cursor limit st = Inr (p, st')"
  shows "sync_ok cfg st'"
proof -
  have "st' = cleanup_snapshots now st"
    using run unfolding read_snapshot_page_def Let_def bindR_Inr_iff
    by (auto split: if_split_asm option.split_asm)
  then show ?thesis using cleanup_snapshots_ok [OF ok] by simp
qed

subsection \<open>Compaction\<close>

lemma sync_ok_sorted: "sync_ok cfg st \<Longrightarrow> sorted_wrt (<) (map ob_seq (sy_outbox st))"
  by (simp add: sync_ok_def outbox_ok_def)

text \<open>The scan takes a prefix of the outbox, every row of which may go.\<close>

lemma compact_scan_take:
  assumes "\<forall>r \<in> set rs. sy_floor st < ob_seq r"
  obtains k where "k \<le> length rs" "compact_scan st limit upper before rs acc = acc @ map ob_seq (take k rs)"
    "\<forall>r \<in> set (take k rs). ob_seq r \<le> upper \<and> ob_created r \<le> before \<and> \<not> awaited st (ob_seq r)"
proof -
  have "\<exists>k \<le> length rs. compact_scan st limit upper before rs acc = acc @ map ob_seq (take k rs) \<and>
    (\<forall>r \<in> set (take k rs). ob_seq r \<le> upper \<and> ob_created r \<le> before \<and> \<not> awaited st (ob_seq r))"
    using assms
  proof (induction rs arbitrary: acc)
    case (Cons r rs)
    let ?scan = "compact_scan st limit upper before"
    show ?case
    proof (cases "?scan (r # rs) acc = acc")
      case True then show ?thesis by (intro exI [of _ 0]) simp
    next
      case False
      then have step: "?scan (r # rs) acc = ?scan rs (acc @ [ob_seq r])"
        and r: "ob_seq r \<le> upper" "ob_created r \<le> before" "\<not> awaited st (ob_seq r)"
        using Cons.prems by (auto split: if_splits)
      obtain k where "k \<le> length rs" "?scan rs (acc @ [ob_seq r]) = (acc @ [ob_seq r]) @ map ob_seq (take k rs)"
        "\<forall>r \<in> set (take k rs). ob_seq r \<le> upper \<and> ob_created r \<le> before \<and> \<not> awaited st (ob_seq r)"
        using Cons.IH [of "acc @ [ob_seq r]"] Cons.prems by auto
      with r step show ?thesis by (intro exI [of _ "Suc k"]) auto
    qed
  qed simp
  then show thesis using that by blast
qed

lemma filter_seqs_drop:
  assumes "sorted_wrt (<) (map ob_seq rows)"
  shows "filter (\<lambda>r. ob_seq r \<notin> set (map ob_seq (take k rows))) rows = drop k rows"
proof -
  have d: "distinct (map ob_seq (take k rows @ drop k rows))" using assms by (simp add: strict_sorted_iff)
  have "filter (\<lambda>r. ob_seq r \<notin> set (map ob_seq (take k rows))) (take k rows @ drop k rows) =
      filter (\<lambda>r. ob_seq r \<notin> set (map ob_seq (take k rows))) (drop k rows)"
    by (simp add: filter_empty_conv del: append_take_drop_id)
  also have "\<dots> = drop k rows"
    using d unfolding map_append distinct_append by (intro filter_all) (auto simp del: append_take_drop_id)
  finally show ?thesis by simp
qed

text \<open>The clean-up that precedes the scan.\<close>

definition compact_clean :: "sync_config \<Rightarrow> int \<Rightarrow> sync_state \<Rightarrow> sync_state" where
  "compact_clean cfg now st = (let st = cleanup_snapshots now st; cutoff = now - seconds (cf_consumer_ttl cfg) in
     st\<lparr>sy_cursors := drop_stale cutoff (sy_cursors st), sy_inbound := drop_stale cutoff (sy_inbound st)\<rparr>)"

lemma compact_clean_frame [simp]:
  "sy_outbox (compact_clean cfg now st) = sy_outbox st" "sy_deliveries (compact_clean cfg now st) = sy_deliveries st"
  "sy_targets (compact_clean cfg now st) = sy_targets st" "sy_versions (compact_clean cfg now st) = sy_versions st"
  "sy_floor (compact_clean cfg now st) = sy_floor st" "awaited (compact_clean cfg now st) = awaited st"
  "sy_inbox (compact_clean cfg now st) = sy_inbox st"
  by (simp_all add: compact_clean_def cleanup_snapshots_def Let_def awaited_def delivered_to_def fun_eq_iff)

lemma compact_clean_ok: "sync_ok cfg st \<Longrightarrow> sync_ok cfg (compact_clean cfg now st)"
  unfolding compact_clean_def Let_def by (intro sync_ok_frame cleanup_snapshots_ok)

text \<open>What a successful compaction leaves, and what let each dropped row go.\<close>

lemma compact_shape:
  assumes ok: "sync_ok cfg st" and run: "compact cfg now limit st = Inr (n, st')"
  obtains "n \<le> length (sy_outbox st)"
    "st' = (compact_clean cfg now st)\<lparr>sy_outbox := drop n (sy_outbox st),
       sy_deliveries := filter (\<lambda>d. dv_seq d \<notin> ob_seq ` set (take n (sy_outbox st))) (sy_deliveries st),
       sy_floor := (if n = 0 then sy_floor st else ob_seq (sy_outbox st ! (n - 1))),
       sy_compacted := (if n = 0 then sy_compacted (compact_clean cfg now st) else ob_seq (sy_outbox st ! (n - 1)))\<rparr>"
    "\<And>r. r \<in> set (take n (sy_outbox st)) \<Longrightarrow> ob_created r \<le> now - seconds (cf_retention cfg) \<and> \<not> awaited st (ob_seq r)"
    "\<And>r p. r \<in> set (take n (sy_outbox st)) \<Longrightarrow> p \<in> set (map cr_after (sy_cursors st') @ map ss_resume (sy_snapshots st')) \<Longrightarrow>
      ob_seq r \<le> p"
proof -
  define st1 where "st1 = compact_clean cfg now st"
  have st1: "sy_outbox st1 = sy_outbox st" "sy_deliveries st1 = sy_deliveries st" "sy_floor st1 = sy_floor st"
    "awaited st1 = awaited st"
    by (simp_all add: st1_def)
  define pins where "pins = map cr_after (sy_cursors st1) @ map ss_resume (sy_snapshots st1)"
  define upper where "upper = (if pins = [] then sy_next st1 - 1 else Min (set pins))"
  define before where "before = now - seconds (cf_retention cfg)"
  have above: "\<forall>r \<in> set (sy_outbox st1). sy_floor st1 < ob_seq r"
    unfolding st1 using sync_ok_outbox [OF ok] by blast
  obtain k where k: "k \<le> length (sy_outbox st)"
    "compact_scan st1 (nat limit) upper before (sy_outbox st1) [] = [] @ map ob_seq (take k (sy_outbox st))"
    "\<forall>r \<in> set (take k (sy_outbox st)). ob_seq r \<le> upper \<and> ob_created r \<le> before \<and> \<not> awaited st (ob_seq r)"
    by (rule compact_scan_take [OF above, of "nat limit" upper before "[]"]) (auto simp: st1)
  let ?cs = "map ob_seq (take k (sy_outbox st))"
  define scan where "scan = compact_scan st1 (nat limit) upper before (sy_outbox st1) []"
  have "(if scan = [] then Inr (0, st1) else Inr (length scan, st1\<lparr>
      sy_outbox := filter (\<lambda>r. ob_seq r \<notin> set scan) (sy_outbox st1),
      sy_deliveries := filter (\<lambda>d. dv_seq d \<notin> set scan) (sy_deliveries st1),
      sy_floor := last scan, sy_compacted := last scan\<rparr>)) = (Inr (n, st') :: (nat \<times> sync_state) result)"
    using run
    unfolding scan_def upper_def pins_def before_def st1_def compact_def bindR_require Let_def compact_clean_def
    by (rule conjunct2)
  moreover have "scan = ?cs" using k(2) by (simp add: scan_def)
  ultimately have "(if ?cs = [] then Inr (0, st1) else Inr (length ?cs, st1\<lparr>
      sy_outbox := filter (\<lambda>r. ob_seq r \<notin> set ?cs) (sy_outbox st1),
      sy_deliveries := filter (\<lambda>d. dv_seq d \<notin> set ?cs) (sy_deliveries st1),
      sy_floor := last ?cs, sy_compacted := last ?cs\<rparr>)) = (Inr (n, st') :: (nat \<times> sync_state) result)"
    by (simp only:)
  then have n: "n = k" and st': "st' = (if k = 0 then st1 else st1\<lparr>sy_outbox := drop k (sy_outbox st),
      sy_deliveries := filter (\<lambda>d. dv_seq d \<notin> set ?cs) (sy_deliveries st),
      sy_floor := last ?cs, sy_compacted := last ?cs\<rparr>)"
    using k(1) filter_seqs_drop [OF sync_ok_sorted [OF ok]] by (auto simp: st1 split: if_split_asm)
  have last: "k \<noteq> 0 \<Longrightarrow> last ?cs = ob_seq (sy_outbox st ! (k - 1))"
  proof -
    assume "k \<noteq> 0"
    then have "map ob_seq (take k (sy_outbox st)) \<noteq> []" "length (map ob_seq (take k (sy_outbox st))) = k" using k(1) by auto
    then show "last ?cs = ob_seq (sy_outbox st ! (k - 1))"
      using k(1) by (subst last_conv_nth) auto
  qed
  have pins: "map cr_after (sy_cursors st') @ map ss_resume (sy_snapshots st') = pins"
    by (simp add: st' pins_def)
  show thesis
  proof (rule that)
    show "st' = (compact_clean cfg now st)\<lparr>sy_outbox := drop n (sy_outbox st),
       sy_deliveries := filter (\<lambda>d. dv_seq d \<notin> ob_seq ` set (take n (sy_outbox st))) (sy_deliveries st),
       sy_floor := (if n = 0 then sy_floor st else ob_seq (sy_outbox st ! (n - 1))),
       sy_compacted := (if n = 0 then sy_compacted (compact_clean cfg now st) else ob_seq (sy_outbox st ! (n - 1)))\<rparr>"
      using last by (simp add: st' n st1_def)
    show "ob_seq r \<le> p" if "r \<in> set (take n (sy_outbox st))"
      "p \<in> set (map cr_after (sy_cursors st') @ map ss_resume (sy_snapshots st'))" for r p
    proof -
      have p: "p \<in> set pins" using that(2) unfolding pins .
      then have "upper \<le> p" by (auto simp: upper_def)
      then show ?thesis using k(3) that(1) n by fastforce
    qed
  qed (use k n in \<open>auto simp: before_def\<close>)
qed

lemma sorted_take_drop_less:
  assumes "sorted_wrt (<) (map f xs)" "n \<noteq> 0" "n \<le> length xs" "y \<in> set (drop n xs)"
  shows "f (xs ! (n - 1)) < (f y :: 'a :: linorder)"
proof -
  have "sorted_wrt (<) (map f (take n xs @ drop n xs))" using assms(1) by simp
  moreover have "xs ! (n - 1) \<in> set (take n xs)"
    using assms(2,3) by (metis diff_less in_set_conv_nth length_take min.absorb2 nth_take zero_less_one bot_nat_0.not_eq_extremum)
  ultimately show ?thesis using assms(4) unfolding map_append sorted_wrt_append by auto
qed

lemma compact_ok:
  assumes ok: "sync_ok cfg st" and run: "compact cfg now limit st = Inr (n, st')"
  shows "sync_ok cfg st'"
  using ok run
proof (cases rule: compact_shape)
  case 1
  let ?st1 = "compact_clean cfg now st" and ?gone = "ob_seq ` set (take n (sy_outbox st))"
  have ok1: "sync_ok cfg ?st1" by (rule compact_clean_ok [OF ok])
  have rest: "set (drop n (sy_outbox st)) \<subseteq> set (sy_outbox st)" by (rule set_drop_subset)
  have "outbox_ok st'"
  proof -
    have "ob_seq (sy_outbox st ! (n - 1)) < sy_next ?st1" if "n \<noteq> 0"
      using that 1(1) sync_ok_outbox [OF ok1] by (simp add: Suc_le_eq)
    moreover have "0 \<le> ob_seq (sy_outbox st ! (n - 1))" if "n \<noteq> 0"
    proof -
      have "sy_floor st < ob_seq (sy_outbox st ! (n - 1))" using that 1(1) sync_ok_outbox [OF ok] by simp
      then show ?thesis using ok by (simp add: sync_ok_def outbox_ok_def)
    qed
    moreover have "ob_seq (sy_outbox st ! (n - 1)) < ob_seq r" if "n \<noteq> 0" "r \<in> set (drop n (sy_outbox st))" for r
      by (rule sorted_take_drop_less [OF sync_ok_sorted [OF ok] that(1) 1(1) that(2)])
    moreover have "sorted_wrt (<) (map ob_seq (drop n (sy_outbox st)))" "distinct (map (ev_id \<circ> ob_event) (drop n (sy_outbox st)))"
      using ok by (auto simp: sync_ok_def outbox_ok_def outbox_ids_def drop_map [symmetric] sorted_wrt_drop distinct_drop)
    ultimately show ?thesis
      using ok1 rest unfolding 1(2) by (auto simp: sync_ok_def outbox_ok_def outbox_ids_def)
  qed
  moreover have "deliveries_ok cfg st'"
  proof -
    have "placed st' (delivery_key d)" if "d \<in> set (sy_deliveries st)" "dv_seq d \<notin> ?gone" for d
    proof -
      have "placed st (delivery_key d)" using ok that by (auto intro: sync_ok_placed)
      then obtain r where "r \<in> set (take n (sy_outbox st) @ drop n (sy_outbox st))" "ob_seq r = dv_seq d"
        "ev_origin (ob_event r) \<noteq> dv_target d" "dv_target d \<in> tg_id ` set (sy_targets st)"
        by (auto simp: placed_def delivery_key_def)
      moreover from this have "r \<notin> set (take n (sy_outbox st))" using that(2) by (metis image_eqI)
      ultimately show ?thesis unfolding 1(2) set_append by (auto simp: placed_def delivery_key_def)
    qed
    moreover have "distinct (map delivery_key (sy_deliveries st'))"
      using ok unfolding 1(2) by (simp add: sync_ok_def deliveries_ok_def distinct_map_filter)
    moreover have "length (filter live_row (sy_deliveries st')) \<le> length (filter live_row (sy_deliveries st))"
    proof -
      have "length (filter live_row (filter P ds)) \<le> length (filter live_row ds)" for P ds
        by (induction ds) auto
      then show ?thesis unfolding 1(2) by (simp del: filter_filter)
    qed
    moreover have "int (length (filter live_row (sy_deliveries st))) \<le> cf_max_pending cfg"
      using ok by (simp add: sync_ok_def deliveries_ok_def)
    ultimately show ?thesis
      using sync_ok_rowD [OF ok] unfolding deliveries_ok_def by (auto simp: 1(2) simp del: filter_filter)
  qed
  ultimately show ?thesis
    using ok1 unfolding 1(2) by (auto simp: sync_ok_def targets_ok_def version_entities_def)
qed

end
