(* ===== verification/Sync_Reach.thy ===== *)
theory Sync_Reach
  imports Sync_Steps
begin

section \<open>Reachable states of the sync repository\<close>

text \<open>
  The repository as a state machine: one rule per public operation, failures included (they
  keep the stored state and may only touch the caches).  The business half enters through an
  interface: how an event is applied to it, and how its current events are listed, which
  binds the tenant and touches nothing else of the \<open>sync\<close> subtree.  Under that interface
  every reachable state satisfies the invariant, and its caches are right.
\<close>

subsection \<open>The repository invariant\<close>

definition repo_ok :: "sync_config \<Rightarrow> 'b repo \<Rightarrow> bool" where
  "repo_ok cfg rp = (sync_ok cfg (rp_sync rp) \<and> caches_fit (rp_sync rp) rp)"

definition empty_repo :: "'b \<Rightarrow> 'b repo" where
  "empty_repo b = \<lparr>rp_sync = empty_sync, rp_business = b, rp_ids = None, rp_positions = None\<rparr>"

lemma empty_repo_ok: "config_ok cfg \<Longrightarrow> repo_ok cfg (empty_repo b)"
  by (simp add: repo_ok_def empty_repo_def empty_sync_ok caches_fit_def ids_fit_def positions_fit_def)

text \<open>Operations that leave what the caches watch, or shorten the outbox.\<close>

definition settles :: "sync_state \<Rightarrow> sync_state \<Rightarrow> bool" where
  "settles st st' = (sy_versions st' = sy_versions st \<and> sy_inbox st' = sy_inbox st
     \<and> (sy_outbox st' = sy_outbox st \<or> length (sy_outbox st') < length (sy_outbox st)))"

lemma settles_fit: "caches_fit st rp \<Longrightarrow> settles st st' \<Longrightarrow> caches_fit st' rp"
  by (auto simp: caches_fit_def settles_def ids_fit_def positions_fit_def outbox_ids_def version_entities_def)

lemma caches_fit_business [simp]:
  "caches_fit st (rp\<lparr>rp_business := b\<rparr>) = caches_fit st rp" "caches_fit st (rp\<lparr>rp_sync := s\<rparr>) = caches_fit st rp"
  by (simp_all add: caches_fit_def)

lemma caches_fit_frame [simp]:
  "caches_fit (st\<lparr>sy_inbox := xs\<rparr>) rp = caches_fit st rp" "caches_fit (st\<lparr>sy_batches := bs\<rparr>) rp = caches_fit st rp"
  "caches_fit (st\<lparr>sy_inbound := cs\<rparr>) rp = caches_fit st rp" "caches_fit (st\<lparr>sy_binding := t\<rparr>) rp = caches_fit st rp"
  by (simp_all add: caches_fit_def ids_fit_def positions_fit_def outbox_ids_def version_entities_def)

lemma sync_mutation_ok:
  assumes "repo_ok cfg rp"
    "\<And>x st'. f (rp_sync rp) = Inr (x, st') \<Longrightarrow> sync_ok cfg st' \<and> settles (rp_sync rp) st'"
  shows "repo_ok cfg (snd (sync_mutation f rp))"
  using assms settles_fit by (fastforce simp: sync_mutation_def repo_ok_def split: sum.splits)

subsection \<open>What the operations settle\<close>

lemma register_target_settles: "register_target cfg now t b st = Inr (u, st') \<Longrightarrow> settles st st'"
  by (auto simp: register_target_def settles_def Let_def split: if_split_asm)

lemma claim_settles:
  assumes "claim cfg fresh now t limit secs st = Inr (u, st')" shows "settles st st'"
  using assms by (cases rule: claim_shape) (auto simp: settles_def)

lemma set_row_frame [simp]:
  "sy_outbox (set_row i d st) = sy_outbox st" "sy_versions (set_row i d st) = sy_versions st"
  "sy_inbox (set_row i d st) = sy_inbox st"
  by (simp_all add: set_row_def)

lemma fold_set_row_settles: "settles st (fold (\<lambda>i st. set_row i (f i st) st) is st)"
proof (induction "is" arbitrary: st)
  case (Cons i "is")
  show ?case using Cons [of "set_row i (f i st) st"] by (simp add: settles_def)
qed (simp add: settles_def)

lemma ack_batch_settles: "ack_batch now sds rs st = Inr (u, st') \<Longrightarrow> settles st st'"
  using fold_set_row_settles [of st "\<lambda>i st. mark_delivered (sy_deliveries st ! i)"]
  by (auto simp: ack_batch_def split: if_splits)

lemma fail_delivery_settles: "fail_delivery cfg clock sd err now st = Inr (u, st') \<Longrightarrow> settles st st'"
  by (auto simp: fail_delivery_def Let_def settles_def split: option.splits if_split_asm)

lemma dead_letter_settles: "dead_letter clock sd err now st = Inr (u, st') \<Longrightarrow> settles st st'"
  by (auto simp: dead_letter_def Let_def settles_def split: option.splits)

lemma replay_dead_letter_settles: "replay_dead_letter now t eid st = Inr (u, st') \<Longrightarrow> settles st st'"
  by (auto simp: replay_dead_letter_def settles_def split: option.splits)

lemma set_target_enabled_settles: "set_target_enabled t b st = Inr (u, st') \<Longrightarrow> settles st st'"
  by (auto simp: set_target_enabled_def settles_def split: option.splits)

lemma read_page_settles:
  assumes "read_page now remote consumer cursor limit st = Inr (p, st')" shows "settles st st'"
  using read_page_shape [OF assms] by (metis (no_types, lifting) settles_def sync_state.ext_inject
      sync_state.surjective sync_state.update_convs(5,6))

lemma cleanup_snapshots_frame [simp]:
  "sy_outbox (cleanup_snapshots now st) = sy_outbox st" "sy_versions (cleanup_snapshots now st) = sy_versions st"
  "sy_inbox (cleanup_snapshots now st) = sy_inbox st"
  "sy_binding (cleanup_snapshots now st) = sy_binding st"
  by (simp_all add: cleanup_snapshots_def Let_def)

lemma read_snapshot_page_settles: "read_snapshot_page now remote consumer cursor limit st = Inr (p, st') \<Longrightarrow> settles st st'"
  unfolding read_snapshot_page_def Let_def bindR_Inr_iff
  by (auto simp: settles_def split: if_split_asm option.split_asm)

lemma create_snapshot_settles:
  assumes law: "\<And>st es st'. current st = Inr (es, st') \<Longrightarrow> binds_only st st'"
    and run: "create_snapshot cfg current fresh now remote consumer request limit st = Inr (p, st')"
  shows "settles st st'"
proof -
  have "sy_outbox st1 = sy_outbox st \<and> sy_versions st1 = sy_versions st \<and> sy_inbox st1 = sy_inbox st"
    if "current (cleanup_snapshots now st) = Inr (es, st1)" for es st1
    using law [OF that] by (auto simp: binds_only_def)
  then show ?thesis
    using run unfolding create_snapshot_def Let_def bindR_Inr_iff
    by (auto simp: settles_def split: if_split_asm option.split_asm)
qed

lemma compact_settles:
  assumes "sync_ok cfg st" "compact cfg now limit st = Inr (n, st')" shows "settles st st'"
  using assms
proof (cases rule: compact_shape)
  case 1 then show ?thesis by (cases "n = 0 \<or> sy_outbox st = []") (auto simp: settles_def)
qed

subsection \<open>Applying and capturing events\<close>

text \<open>A run inside a mutation: the caches fit what it left, which grew from the start.\<close>

definition run_ok :: "sync_config \<Rightarrow> 'b repo \<Rightarrow> 'a result \<times> 'b repo \<Rightarrow> bool" where
  "run_ok cfg rp out = (caches_fit (rp_sync (snd out)) (snd out) \<and> grows (rp_sync rp) (rp_sync (snd out))
     \<and> (\<forall>x. fst out = Inr x \<longrightarrow> sync_ok cfg (rp_sync (snd out))))"

lemma run_okI:
  "caches_fit (rp_sync rp') rp' \<Longrightarrow> grows (rp_sync rp) (rp_sync rp') \<Longrightarrow>
    (\<And>x. r = Inr x \<Longrightarrow> sync_ok cfg (rp_sync rp')) \<Longrightarrow> run_ok cfg rp (r, rp')"
  by (simp add: run_ok_def)

lemma run_ok_start: "repo_ok cfg rp \<Longrightarrow> run_ok cfg rp (r, rp)"
  by (simp add: run_ok_def repo_ok_def)

lemma run_ok_trans:
  "run_ok cfg rp (Inr x, rp') \<Longrightarrow> run_ok cfg rp' (r, rp'') \<Longrightarrow> run_ok cfg rp (r, rp'')"
  by (auto simp: run_ok_def intro: grows_trans)

lemma run_ok_repo: "run_ok cfg rp (Inr x, rp') \<Longrightarrow> repo_ok cfg rp'"
  by (simp add: run_ok_def repo_ok_def)

lemma caches_fit_copy:
  "rp_ids rp' = rp_ids rp \<Longrightarrow> rp_positions rp' = rp_positions rp \<Longrightarrow> caches_fit st rp' = caches_fit st rp"
  by (simp add: caches_fit_def)

text \<open>A mutation around such a run keeps the invariant, committed or rolled back.\<close>

lemma mutation_ok:
  assumes ok: "repo_ok cfg rp" and run: "run_ok cfg rp (f rp)"
  shows "repo_ok cfg (snd (mutation f rp))"
proof (cases "f rp")
  case (Pair r rp')
  show ?thesis
  proof (cases r)
    case (Inl e)
    then have "caches_fit (rp_sync rp) rp'" using run Pair caches_rollback by (simp add: run_ok_def) blast
    then show ?thesis
      using ok Pair Inl caches_fit_copy [of "rp\<lparr>rp_ids := rp_ids rp', rp_positions := rp_positions rp'\<rparr>" rp']
      by (simp add: mutation_def repo_ok_def)
  next
    case (Inr x) then show ?thesis using run Pair run_ok_repo by (fastforce simp: mutation_def)
  qed
qed

lemma sync_ok_distinct: "sync_ok cfg st \<Longrightarrow> distinct (outbox_ids st)" "sync_ok cfg st \<Longrightarrow> distinct (version_entities st)"
  by (simp_all add: sync_ok_def outbox_ok_def)

lemma append_event_run_ok:
  assumes cfg: "config_ok cfg" and ok: "repo_ok cfg rp"
  shows "run_ok cfg rp (append_event cfg e rp)"
proof (cases "append_event cfg e rp")
  case (Pair r rp')
  have ref: "caches_fit (rp_sync rp') rp' \<and> grows (rp_sync rp) (rp_sync rp') \<and> rp_business rp' = rp_business rp
    \<and> (case r of Inl err \<Rightarrow> append_ref cfg e (rp_sync rp) = Inl err
       | Inr n \<Rightarrow> append_ref cfg e (rp_sync rp) = Inr (n, rp_sync rp'))"
    using ok sync_ok_distinct unfolding repo_ok_def by (intro append_event_ref [OF _ _ _ Pair]) blast+
  have "sync_ok cfg (rp_sync rp')" if "r = Inr n" for n
    using ref that append_ref_ok [OF cfg] ok by (auto simp: repo_ok_def)
  then show ?thesis using ref Pair by (simp add: run_ok_def)
qed

lemma run_ok_business: "run_ok cfg (rp\<lparr>rp_business := b\<rparr>) out = run_ok cfg rp out"
  by (simp add: run_ok_def)

lemma repo_ok_business: "repo_ok cfg rp \<Longrightarrow> repo_ok cfg (rp\<lparr>rp_business := b\<rparr>)"
  by (simp add: repo_ok_def)

lemma capture_run_ok:
  assumes cfg: "config_ok cfg" and ok: "repo_ok cfg rp"
  shows "run_ok cfg rp (capture_local_event cfg e rp)"
proof -
  have "run_ok cfg rp (append_event cfg e rp)" by (rule append_event_run_ok [OF cfg ok])
  then show ?thesis
    using ok by (auto simp: capture_local_event_def run_ok_def repo_ok_def split: prod.split sum.split)
qed

lemma append_ref_frame: "append_ref cfg e st = Inr (n, st') \<Longrightarrow> sy_inbox st' = sy_inbox st"
  using bind_tenant_frame by (fastforce simp: append_ref_def push_event_def split: if_splits)

lemma append_event_inbox:
  assumes ok: "repo_ok cfg rp" and run: "append_event cfg e rp = (Inr n, rp')"
  shows "sy_inbox (rp_sync rp') = sy_inbox (rp_sync rp)"
proof -
  have "append_ref cfg e (rp_sync rp) = Inr (n, rp_sync rp')"
    using append_event_ref [OF _ _ _ run] ok sync_ok_distinct unfolding repo_ok_def by fastforce
  then show ?thesis by (rule append_ref_frame)
qed

lemma find_inbox_None: "find_inbox st e = None \<longleftrightarrow> (ev_origin e, ev_id e) \<notin> inbox_key ` set (sy_inbox st)"
  by (auto simp: find_inbox_def find_None_iff inbox_key_def image_iff)

lemma push_inbox_ok: "sync_ok cfg st \<Longrightarrow> find_inbox st e = None \<Longrightarrow> sync_ok cfg (push_inbox e w n st)"
  unfolding find_inbox_None by (auto simp: push_inbox_def sync_ok_defs inbox_key_def)

lemma push_inbox_frame [simp]:
  "caches_fit (push_inbox e w n st) rp = caches_fit st rp" "grows st0 (push_inbox e w n st) = grows st0 st"
  by (simp_all add: push_inbox_def grows_def version_entities_def)

lemma find_inbox_same: "sy_inbox st' = sy_inbox st \<Longrightarrow> find_inbox st' e = find_inbox st e"
  by (simp add: find_inbox_def)

lemma apply_event_run_ok:
  assumes cfg: "config_ok cfg" and ok: "repo_ok cfg rp"
  shows "run_ok cfg rp (apply_event cfg ab e tombs rp)"
proof (cases "find_inbox (rp_sync rp) e")
  case (Some row) then show ?thesis by (simp add: apply_event_def run_ok_start [OF ok])
next
  case None
  show ?thesis
  proof (cases "superseded (rp_sync rp) e")
    case True
    then show ?thesis using None ok push_inbox_ok by (auto simp: apply_event_def run_ok_def repo_ok_def)
  next
    case False
    show ?thesis
    proof (cases "ab e tombs (rp_business rp)")
      case (Inl err) then show ?thesis using None False by (simp add: apply_event_def run_ok_start [OF ok])
    next
      case ab: (Inr y)
      obtain tombs' b where y: "y = (tombs', b)" by (cases y)
      let ?rp = "rp\<lparr>rp_business := b\<rparr>"
      obtain r rp' where app: "append_event cfg e ?rp = (r, rp')" by (cases "append_event cfg e ?rp")
      have run: "run_ok cfg rp (r, rp')"
        using append_event_run_ok [OF cfg repo_ok_business [OF ok, of b], of e] unfolding app run_ok_business .
      show ?thesis
      proof (cases r)
        case (Inl err)
        then show ?thesis using run None False ab y app by (simp add: apply_event_def run_ok_def)
      next
        case (Inr n)
        have "sy_inbox (rp_sync rp') = sy_inbox (rp_sync ?rp)"
          using append_event_inbox [OF repo_ok_business [OF ok, of b]] app Inr by blast
        from find_inbox_same [OF this] have "find_inbox (rp_sync rp') e = None" using None by simp
        then have "sync_ok cfg (push_inbox e (outcome_text Accepted) (Some n) (rp_sync rp'))"
          using run Inr by (simp add: run_ok_def push_inbox_ok)
        moreover have "apply_event cfg ab e tombs rp = (Inr (Accepted, tombs'),
            rp'\<lparr>rp_sync := push_inbox e (outcome_text Accepted) (Some n) (rp_sync rp')\<rparr>)"
          unfolding apply_event_def None ab y option.case if_not_P [OF False] sum.case prod.case app Inr ..
        ultimately show ?thesis using run by (simp add: run_ok_def)
      qed
    qed
  qed
qed

lemma apply_events_run_ok:
  "config_ok cfg \<Longrightarrow> repo_ok cfg rp \<Longrightarrow> run_ok cfg rp (apply_events cfg ab es tombs rp)"
proof (induction es arbitrary: tombs rp)
  case Nil then show ?case by (simp add: run_ok_start)
next
  case (Cons e es)
  have first: "run_ok cfg rp (apply_event cfg ab e tombs rp)" by (rule apply_event_run_ok [OF Cons.prems])
  show ?case
  proof (cases "apply_event cfg ab e tombs rp")
    case (Pair r rp')
    show ?thesis
    proof (cases r)
      case (Inl err) then show ?thesis using first Pair by (simp add: run_ok_def)
    next
      case (Inr x)
      obtain o1 tombs' where x: "x = (o1, tombs')" by (cases x)
      obtain rs rp'' where rest: "apply_events cfg ab es tombs' rp' = (rs, rp'')" by (cases "apply_events cfg ab es tombs' rp'")
      have "repo_ok cfg rp'" using first Pair Inr run_ok_repo by fastforce
      then have "run_ok cfg rp' (rs, rp'')" using Cons.IH [OF Cons.prems(1)] rest by metis
      then have "run_ok cfg rp (rs, rp'')" using run_ok_trans first Pair Inr by metis
      then show ?thesis using Pair Inr x rest by (cases rs) (auto simp: run_ok_def)
    qed
  qed
qed

subsection \<open>Batches and pages\<close>

lemma run_ok_from: "grows (rp_sync rp) (rp_sync rp1) \<Longrightarrow> run_ok cfg rp1 out \<Longrightarrow> run_ok cfg rp out"
  by (auto simp: run_ok_def intro: grows_trans)

lemma bind_tenant_repo:
  assumes "repo_ok cfg rp" "bind_tenant t (rp_sync rp) = Inr st"
  shows "repo_ok cfg (rp\<lparr>rp_sync := st\<rparr>)" "grows (rp_sync rp) st"
proof -
  have st: "st = (rp_sync rp)\<lparr>sy_binding := Some t\<rparr>" using bind_tenant_frame [OF assms(2)] by simp
  show "repo_ok cfg (rp\<lparr>rp_sync := st\<rparr>)"
    using assms(1) bind_tenant_ok [OF _ assms(2)] by (simp add: repo_ok_def) (simp add: st)
  show "grows (rp_sync rp) st" by (simp add: st grows_def version_entities_def)
qed

lemma run_ok_finish:
  assumes "run_ok cfg rp (Inr x, rp')" "\<And>st. sync_ok cfg st \<Longrightarrow> sync_ok cfg (f st)"
    "\<And>st. caches_fit st rp' \<Longrightarrow> caches_fit (f st) rp'" "\<And>st0 st. grows st0 st \<Longrightarrow> grows st0 (f st)"
  shows "run_ok cfg rp (Inr y, rp'\<lparr>rp_sync := f (rp_sync rp')\<rparr>)"
  using assms by (simp add: run_ok_def)

lemma run_ok_Inl: "run_ok cfg rp (Inl e, rp') \<Longrightarrow> run_ok cfg rp (Inl e', rp')"
  by (simp add: run_ok_def)

lemma grows_frame [simp]:
  "grows st0 (st\<lparr>sy_batches := bs\<rparr>) = grows st0 st" "grows st0 (st\<lparr>sy_inbound := cs\<rparr>) = grows st0 st"
  by (simp_all add: grows_def version_entities_def)

lemma apply_batch_ok:
  assumes cfg: "config_ok cfg" and ok: "repo_ok cfg rp"
  shows "repo_ok cfg (snd (apply_batch cfg ab now digest bt rp))"
  unfolding apply_batch_def
proof (rule mutation_ok [OF ok])
  let ?t = "sc_tenant (ev_scope (hd (bt_events bt)))"
  show "run_ok cfg rp (apply_batch_body cfg ab now digest bt rp)"
  proof (cases "bind_tenant ?t (rp_sync rp)")
    case (Inl err) then show ?thesis by (simp add: apply_batch_body_def run_ok_start [OF ok])
  next
    case (Inr st)
    let ?rp = "rp\<lparr>rp_sync := st\<rparr>"
    have ok': "repo_ok cfg ?rp" and grow: "grows (rp_sync rp) (rp_sync ?rp)"
      using bind_tenant_repo [OF ok Inr] by simp_all
    note start = run_ok_from [OF grow run_ok_start [OF ok']]
    obtain r rp' where ev: "apply_events cfg ab (bt_events bt) [] ?rp = (r, rp')" by (cases "apply_events cfg ab (bt_events bt) [] ?rp")
    have "run_ok cfg rp (r, rp')" using run_ok_from [OF grow apply_events_run_ok [OF cfg ok']] ev by metis
    then show ?thesis
      using Inr ev start
      by (cases r) (auto simp: apply_batch_body_def Let_def
          intro!: run_ok_finish [where f = "\<lambda>st. st\<lparr>sy_batches := sy_batches st @ b\<rparr>" for b]
          sync_ok_frame intro: run_ok_Inl split: option.split)
  qed
qed

lemma apply_page_events_run_ok:
  assumes cfg: "config_ok cfg" and ok: "repo_ok cfg rp"
  shows "run_ok cfg rp (apply_page_events cfg ab now remote p events rp)"
proof -
  obtain r rp' where ev: "apply_events cfg ab events [] rp = (r, rp')" by (cases "apply_events cfg ab events [] rp")
  have "run_ok cfg rp (r, rp')" using apply_events_run_ok [OF cfg ok] ev by metis
  then show ?thesis
    using ev run_ok_start [OF ok]
    by (cases r) (auto simp: apply_page_events_def Let_def
        intro!: run_ok_finish [where f = "\<lambda>st. st\<lparr>sy_inbound := f (sy_inbound st)\<rparr>" for f]
        sync_ok_frame intro: run_ok_Inl)
qed

lemma apply_page_body_run_ok:
  assumes cfg: "config_ok cfg" and ok: "repo_ok cfg rp"
  shows "run_ok cfg rp (apply_page_body cfg ab now remote p rp)"
proof (cases "validate_incoming_page (page_tenant p (rp_sync rp)) p")
  case (Inl err) then show ?thesis by (simp add: apply_page_body_def run_ok_start [OF ok])
next
  case (Inr events)
  let ?bind = "case events of [] \<Rightarrow> Inr (rp_sync rp) | e # _ \<Rightarrow> bind_tenant (sc_tenant (ev_scope e)) (rp_sync rp)"
  show ?thesis
  proof (cases ?bind)
    case (Inl err) then show ?thesis using Inr by (simp add: apply_page_body_def run_ok_start [OF ok])
  next
    case st: (Inr st)
    then have "st = rp_sync rp \<or> (\<exists>t. bind_tenant t (rp_sync rp) = Inr st)" by (cases events) auto
    then have ok': "repo_ok cfg (rp\<lparr>rp_sync := st\<rparr>)" and grow: "grows (rp_sync rp) (rp_sync (rp\<lparr>rp_sync := st\<rparr>))"
      using bind_tenant_repo [OF ok] ok by auto
    show ?thesis
      using run_ok_from [OF grow apply_page_events_run_ok [OF cfg ok']] by (simp add: apply_page_body_def Inr st)
  qed
qed

lemma apply_page_ok:
  "config_ok cfg \<Longrightarrow> repo_ok cfg rp \<Longrightarrow> repo_ok cfg (snd (apply_page cfg ab now remote p rp))"
  by (auto simp: apply_page_def simp del: split_paired_Ex intro!: mutation_ok apply_page_body_run_ok split: sum.split)

subsection \<open>The state machine\<close>

text \<open>
  One step per public operation that writes.  \<open>step_capture\<close> is a mutation of the store that
  changes its business half to \<open>b\<close> and captures the event; \<open>step_restart\<close> is a new
  repository object on the stored state.
\<close>

inductive sync_step ::
    "sync_config \<Rightarrow> 'b apply_business \<Rightarrow> ('b \<Rightarrow> sync_state \<Rightarrow> (sync_event list \<times> sync_state) result) \<Rightarrow>
     'b repo \<Rightarrow> 'b repo \<Rightarrow> bool"
  for cfg ab current where
  step_capture: "sync_step cfg ab current rp
    (snd (mutation (\<lambda>rp. capture_local_event cfg e (rp\<lparr>rp_business := b\<rparr>)) rp))"
| step_register: "sync_step cfg ab current rp (snd (sync_mutation (register_target cfg now target bootstrap) rp))"
| step_claim: "sync_step cfg ab current rp (snd (sync_mutation (claim cfg fresh now target limit secs) rp))"
| step_ack: "sync_step cfg ab current rp (snd (sync_mutation (ack_batch now sds receipts) rp))"
| step_fail: "sync_step cfg ab current rp (snd (sync_mutation (fail_delivery cfg clock sd err now) rp))"
| step_dead_letter: "sync_step cfg ab current rp (snd (sync_mutation (dead_letter clock sd err now) rp))"
| step_replay: "sync_step cfg ab current rp (snd (sync_mutation (replay_dead_letter now target eid) rp))"
| step_enable: "sync_step cfg ab current rp (snd (sync_mutation (set_target_enabled target on) rp))"
| step_page: "sync_step cfg ab current rp (snd (sync_mutation (read_page now remote consumer cursor limit) rp))"
| step_snapshot: "sync_step cfg ab current rp
    (snd (sync_mutation (create_snapshot cfg (current (rp_business rp)) sid now remote consumer request limit) rp))"
| step_snapshot_page: "sync_step cfg ab current rp
    (snd (sync_mutation (read_snapshot_page now remote consumer claims limit) rp))"
| step_batch: "sync_step cfg ab current rp (snd (apply_batch cfg ab now digest batch rp))"
| step_apply: "sync_step cfg ab current rp (snd (apply_page cfg ab now remote page rp))"
| step_compact: "sync_step cfg ab current rp (snd (sync_mutation (compact cfg now limit) rp))"
| step_restart: "sync_step cfg ab current rp (rp\<lparr>rp_ids := None, rp_positions := None\<rparr>)"

inductive sync_reachable ::
    "sync_config \<Rightarrow> 'b apply_business \<Rightarrow> ('b \<Rightarrow> sync_state \<Rightarrow> (sync_event list \<times> sync_state) result) \<Rightarrow> 'b repo \<Rightarrow> bool"
  for cfg ab current where
  reach_empty: "sync_reachable cfg ab current (empty_repo b)"
| reach_step: "sync_reachable cfg ab current rp \<Longrightarrow> sync_step cfg ab current rp rp' \<Longrightarrow> sync_reachable cfg ab current rp'"

text \<open>The interface between the repository and the business half of the store.\<close>

locale sync_business =
  fixes cfg :: sync_config
    and ab :: "'b apply_business"
    and current :: "'b \<Rightarrow> sync_state \<Rightarrow> (sync_event list \<times> sync_state) result"
  assumes current_binds: "current b st = Inr (es, st') \<Longrightarrow> binds_only st st'"
begin

lemma step_ok:
  assumes "sync_step cfg ab current rp rp'" "repo_ok cfg rp" and config: "config_ok cfg"
  shows "repo_ok cfg rp'"
proof -
  have ok: "sync_ok cfg (rp_sync rp)" using assms(2) by (simp add: repo_ok_def)
  have mut: "repo_ok cfg rp'" if "rp' = snd (sync_mutation f rp)"
    "\<And>x st'. f (rp_sync rp) = Inr (x, st') \<Longrightarrow> sync_ok cfg st'"
    "\<And>x st'. f (rp_sync rp) = Inr (x, st') \<Longrightarrow> settles (rp_sync rp) st'" for f :: "sync_state \<Rightarrow> ('x \<times> sync_state) result"
    unfolding that(1) using that(2,3) by (intro sync_mutation_ok [OF assms(2)]) blast
  show ?thesis
    using assms(1)
  proof (cases rule: sync_step.cases)
    case (step_capture e b)
    show ?thesis unfolding step_capture
      using capture_run_ok [OF config repo_ok_business [OF assms(2), of b], of e]
      by (intro mutation_ok [OF assms(2)]) (simp add: run_ok_business)
  next
    case step_register then show ?thesis by (rule mut) (erule register_target_ok [OF config ok], erule register_target_settles)
  next
    case step_claim then show ?thesis by (rule mut) (erule claim_ok [OF ok], erule claim_settles)
  next
    case step_ack then show ?thesis by (rule mut) (erule ack_batch_ok [OF ok], erule ack_batch_settles)
  next
    case step_fail then show ?thesis by (rule mut) (erule fail_delivery_ok [OF ok], erule fail_delivery_settles)
  next
    case step_dead_letter then show ?thesis by (rule mut) (erule dead_letter_ok [OF ok], erule dead_letter_settles)
  next
    case step_replay then show ?thesis by (rule mut) (erule replay_dead_letter_ok [OF config ok], erule replay_dead_letter_settles)
  next
    case step_enable then show ?thesis by (rule mut) (erule set_target_enabled_ok [OF ok], erule set_target_enabled_settles)
  next
    case step_page then show ?thesis by (rule mut) (erule read_page_ok [OF ok], erule read_page_settles)
  next
    case step_snapshot
    then show ?thesis
      by (rule mut) (rule create_snapshot_ok [OF _ ok], erule current_binds, assumption,
        rule create_snapshot_settles, erule current_binds)
  next
    case step_snapshot_page then show ?thesis by (rule mut) (erule read_snapshot_page_ok [OF ok], erule read_snapshot_page_settles)
  next
    case step_batch then show ?thesis using apply_batch_ok [OF config assms(2)] by simp
  next
    case step_apply then show ?thesis using apply_page_ok [OF config assms(2)] by simp
  next
    case step_compact then show ?thesis by (rule mut) (erule compact_ok [OF ok], erule compact_settles [OF ok])
  next
    case step_restart
    then show ?thesis using assms(2) by (simp add: repo_ok_def caches_fit_def ids_fit_def positions_fit_def)
  qed
qed

lemma reachable_ok: "sync_reachable cfg ab current rp \<Longrightarrow> config_ok cfg \<Longrightarrow> repo_ok cfg rp"
  by (induction rule: sync_reachable.induct) (auto intro: empty_repo_ok step_ok)

end

end
