(* ===== verification/Wire_Nodes.thy ===== *)
theory Wire_Nodes
  imports Sync_Protocol
begin

section \<open>Memory nodes as they travel\<close>

text \<open>
  \<open>to_dict\<close> and \<open>from_dict\<close> of the memory classes (\<open>src/memplex/models/memory.py\<close>,
  \<open>misc.py\<close>, \<open>graph.py\<close>).  Reading a dictionary checks few types, so an attribute holds any
  JSON value; an attribute the code converts (a mapping, a list, the trust tier) has the
  type of the conversion.  A datetime is its \<open>isoformat\<close> text and a member of \<open>SourceType\<close>
  its value: every string is turned into one when it is read.
\<close>

subsection \<open>Values of Python\<close>

text \<open>Parsing and case tables of the standard library, and the clock, are a parameter.\<close>

record node_env =
  iso_normal :: "ustring \<Rightarrow> ustring option"
  now_iso :: ustring
  lower_text :: "ustring \<Rightarrow> ustring"
  strip_text :: "ustring \<Rightarrow> ustring"
  float_of :: "int \<Rightarrow> py_float"

definition falsy :: "json \<Rightarrow> bool" where
  "falsy j = (case j of JNull \<Rightarrow> True | JBool b \<Rightarrow> \<not> b | JInt n \<Rightarrow> n = 0 | JFloat f \<Rightarrow> float_zero f
     | JStr s \<Rightarrow> s = [] | JList xs \<Rightarrow> xs = [] | JObj kvs \<Rightarrow> kvs = [])"

definition getv :: "(ustring, json) dict \<Rightarrow> string \<Rightarrow> json \<Rightarrow> json" where
  "getv d name absent = dict_default d (cp name) absent"

text \<open>\<open>list(x)\<close>: the items of a list, the keys of a dictionary, the characters of a string.\<close>

definition py_list :: "json \<Rightarrow> json list result" where
  "py_list j = (case j of JList xs \<Rightarrow> Inr xs | JObj kvs \<Rightarrow> Inr (map (JStr \<circ> fst) kvs)
     | JStr s \<Rightarrow> Inr (map (\<lambda>c. JStr [c]) s) | _ \<Rightarrow> Inl (TypeErr ''object is not iterable''))"

text \<open>
  \<open>dict(x)\<close>: a copy of a dictionary, or pairs from an iterable.  A dictionary of the model
  has string keys; pairs with another key, which no JSON text can hold, are refused.
\<close>

definition pair_of :: "json \<Rightarrow> (ustring \<times> json) result" where
  "pair_of j = bindR (py_list j) (\<lambda>xs. case xs of
       [k, v] \<Rightarrow> (case k of JStr s \<Rightarrow> Inr (s, v) | _ \<Rightarrow> Inl (TypeErr ''keys must be strings''))
     | _ \<Rightarrow> Inl (ValueErr ''dictionary update sequence element has wrong length''))"

definition py_dict :: "json \<Rightarrow> (ustring, json) dict result" where
  "py_dict j = (case j of JObj kvs \<Rightarrow> Inr kvs
     | _ \<Rightarrow> bindR (py_list j) (\<lambda>xs. bindR (mapR pair_of xs) (\<lambda>ps. Inr (dict_update [] ps))))"

text \<open>\<open>d.get\<close> asks for a dictionary.\<close>

definition as_dict :: "json \<Rightarrow> (ustring, json) dict result" where
  "as_dict j = (case j of JObj kvs \<Rightarrow> Inr kvs | _ \<Rightarrow> Inl (OtherErr ''AttributeError''))"

text \<open>\<open>x in frozenset(...)\<close> over strings hashes \<open>x\<close>.\<close>

definition in_strings :: "json \<Rightarrow> string list \<Rightarrow> bool result" where
  "in_strings j names = (case j of JStr s \<Rightarrow> Inr (s \<in> cp ` set names)
     | JList _ \<Rightarrow> Inl (TypeErr ''unhashable type'') | JObj _ \<Rightarrow> Inl (TypeErr ''unhashable type'')
     | _ \<Rightarrow> Inr False)"

definition check_member :: "string \<Rightarrow> json \<Rightarrow> string list \<Rightarrow> unit result" where
  "check_member name j names =
     (if j = JNull then Inr ()
      else bindR (in_strings j names) (\<lambda>b. if b then Inr () else Inl (ValueErr (name @ '' must be one of the known values''))))"

definition one_float :: json where
  "one_float = JFloat \<lparr>float_finite = True, float_zero = False, float_repr = ''1.0'', float_plain = True\<rparr>"

subsection \<open>Field values\<close>

record wire_value =
  wv_desc :: json
  wv_sources :: "json list"
  wv_method :: json
  wv_weight :: json
  wv_observation :: json
  wv_created :: json
  wv_status :: json

definition value_to_dict :: "wire_value \<Rightarrow> json" where
  "value_to_dict v = JObj
     [(cp ''desc'', wv_desc v), (cp ''sources'', JList (wv_sources v)), (cp ''source_method'', wv_method v),
      (cp ''weight'', wv_weight v), (cp ''observation'', wv_observation v), (cp ''created_at'', wv_created v),
      (cp ''status'', wv_status v)]"

definition parse_created :: "node_env \<Rightarrow> json \<Rightarrow> json result" where
  "parse_created env j = (case j of
       JStr s \<Rightarrow> (case iso_normal env s of None \<Rightarrow> Inl (ValueErr ''Invalid isoformat string'') | Some t \<Rightarrow> Inr (JStr t))
     | _ \<Rightarrow> Inr j)"

definition value_from_dict :: "node_env \<Rightarrow> json \<Rightarrow> wire_value result" where
  "value_from_dict env j =
     bindR (as_dict j) (\<lambda>d.
     bindR (parse_created env (getv d ''created_at'' JNull)) (\<lambda>created.
     bindR (py_list (getv d ''sources'' (JList []))) (\<lambda>srcs.
       Inr \<lparr>wv_desc = getv d ''desc'' (JStr []), wv_sources = srcs,
            wv_method = getv d ''source_method'' (JStr (cp ''rule_based'')),
            wv_weight = getv d ''weight'' one_float,
            wv_observation = getv d ''observation'' JNull, wv_created = created,
            wv_status = getv d ''status'' (JStr (cp ''active''))\<rparr>)))"

subsection \<open>The base of every node\<close>

record wire_base =
  wb_id :: json
  wb_kind :: json
  wb_name :: json
  wb_domain :: json
  wb_confidence :: json
  wb_source :: json
  wb_owner :: json
  wb_tenant :: json
  wb_subject :: json
  wb_workspace :: json
  wb_visibility :: json
  wb_provenance :: "(ustring, json) dict"
  wb_version :: json
  wb_created :: json
  wb_updated :: json
  wb_session :: json
  wb_access :: json
  wb_accessed :: json
  wb_paragraphs :: "json list"
  wb_review :: json
  wb_until :: json
  wb_hash :: json
  wb_namespace :: "(ustring, json) dict"
  wb_tier :: json
  wb_trust :: int

definition base_to_dict :: "wire_base \<Rightarrow> (ustring, json) dict" where
  "base_to_dict n =
     [(cp ''id'', wb_id n), (cp ''memory_type'', wb_kind n), (cp ''name'', wb_name n),
      (cp ''domain'', wb_domain n), (cp ''confidence'', wb_confidence n), (cp ''source_type'', wb_source n),
      (cp ''owner'', wb_owner n), (cp ''tenant_id'', wb_tenant n), (cp ''owner_subject_id'', wb_subject n),
      (cp ''workspace_id'', wb_workspace n), (cp ''visibility'', wb_visibility n),
      (cp ''provenance'', JObj (wb_provenance n)), (cp ''version'', wb_version n),
      (cp ''created_at'', wb_created n), (cp ''updated_at'', wb_updated n),
      (cp ''origin_session'', wb_session n), (cp ''access_count'', wb_access n),
      (cp ''last_accessed_at'', wb_accessed n), (cp ''source_paragraphs'', JList (wb_paragraphs n)),
      (cp ''needs_review'', wb_review n), (cp ''needs_review_until'', wb_until n),
      (cp ''content_hash'', wb_hash n), (cp ''namespace'', JObj (wb_namespace n)),
      (cp ''knowledge_tier'', wb_tier n), (cp ''trust_tier'', JInt (wb_trust n))]"

definition wire_trust :: "json \<Rightarrow> int" where
  "wire_trust j = (case j of JInt n \<Rightarrow> if n \<in> {1, 2, 3, 4} then n else 3 | _ \<Rightarrow> 3)"

definition wire_source :: "json \<Rightarrow> json" where
  "wire_source j = (case j of
       JStr s \<Rightarrow> if s \<in> cp ` {''requirement'', ''meeting'', ''code'', ''wiki''} then JStr s else JStr (cp ''wiki'')
     | _ \<Rightarrow> j)"

text \<open>\<open>kind\<close> is the memory type the class gives when the dictionary has none.\<close>

definition base_from_dict :: "string \<Rightarrow> (ustring, json) dict \<Rightarrow> wire_base result" where
  "base_from_dict kind d =
     bindR (check_member ''memory_type'' (getv d ''memory_type'' JNull) [''function'', ''fact'', ''preference'', ''observation'']) (\<lambda>_.
     bindR (check_member ''knowledge_tier'' (getv d ''knowledge_tier'' JNull) [''personal'', ''domain'', ''team'']) (\<lambda>_.
     bindR (py_dict (getv d ''provenance'' (JObj []))) (\<lambda>provenance.
     bindR (py_list (getv d ''source_paragraphs'' (JList []))) (\<lambda>paragraphs.
     bindR (py_dict (getv d ''namespace'' (JObj []))) (\<lambda>namespace.
       Inr \<lparr>wb_id = getv d ''id'' (JStr []), wb_kind = getv d ''memory_type'' (JStr (cp kind)),
         wb_name = getv d ''name'' (JStr []), wb_domain = getv d ''domain'' JNull,
         wb_confidence = getv d ''confidence'' one_float,
         wb_source = wire_source (getv d ''source_type'' (JStr (cp ''wiki''))),
         wb_owner = getv d ''owner'' JNull, wb_tenant = getv d ''tenant_id'' JNull,
         wb_subject = getv d ''owner_subject_id'' JNull, wb_workspace = getv d ''workspace_id'' JNull,
         wb_visibility = getv d ''visibility'' JNull, wb_provenance = provenance,
         wb_version = getv d ''version'' (JInt 1), wb_created = getv d ''created_at'' JNull,
         wb_updated = getv d ''updated_at'' JNull, wb_session = getv d ''origin_session'' JNull,
         wb_access = getv d ''access_count'' (JInt 0), wb_accessed = getv d ''last_accessed_at'' JNull,
         wb_paragraphs = paragraphs, wb_review = getv d ''needs_review'' (JBool False),
         wb_until = getv d ''needs_review_until'' JNull, wb_hash = getv d ''content_hash'' JNull,
         wb_namespace = namespace, wb_tier = getv d ''knowledge_tier'' JNull,
         wb_trust = wire_trust (getv d ''trust_tier'' (JInt 3))\<rparr>)))))"

subsection \<open>The four classes\<close>

record wire_function =
  wf_normalized :: json
  wf_trigger :: "wire_value list"
  wf_condition :: "wire_value list"
  wf_action :: "wire_value list"
  wf_benefit :: "wire_value list"
  wf_attributes :: "(ustring, json) dict"
  wf_references :: "json list"
  wf_priority :: json
  wf_authority :: json

record wire_fact =
  wc_subject :: json
  wc_predicate :: json
  wc_object :: json
  wc_valid_until :: json
  wc_valid_from :: json
  wc_invalid_at :: json

record wire_preference =
  wp_aspect :: json
  wp_preference :: json
  wp_subject :: json

record wire_observation =
  wo_event :: json
  wo_context :: json
  wo_observed :: json
  wo_actor :: json
  wo_category :: json

datatype wire_body = WFunction wire_function | WFact wire_fact | WPreference wire_preference
  | WObservation wire_observation

record wire_node =
  wn_base :: wire_base
  wn_body :: wire_body

definition values_to_json :: "wire_value list \<Rightarrow> json" where
  "values_to_json vs = JList (map value_to_dict vs)"

definition body_to_dict :: "wire_body \<Rightarrow> (ustring, json) dict" where
  "body_to_dict b = (case b of
       WFunction f \<Rightarrow>
         [(cp ''name_normalized'', wf_normalized f), (cp ''trigger'', values_to_json (wf_trigger f)),
          (cp ''condition'', values_to_json (wf_condition f)), (cp ''action'', values_to_json (wf_action f)),
          (cp ''benefit'', values_to_json (wf_benefit f)), (cp ''attributes'', JObj (wf_attributes f)),
          (cp ''cross_references'', JList (wf_references f)), (cp ''priority_from_source'', wf_priority f),
          (cp ''source_authority'', wf_authority f)]
     | WFact c \<Rightarrow>
         [(cp ''subject'', wc_subject c), (cp ''predicate'', wc_predicate c), (cp ''object'', wc_object c),
          (cp ''valid_until'', wc_valid_until c), (cp ''valid_from'', wc_valid_from c),
          (cp ''invalid_at'', wc_invalid_at c)]
     | WPreference p \<Rightarrow>
         [(cp ''aspect'', wp_aspect p), (cp ''preference'', wp_preference p), (cp ''subject_id'', wp_subject p)]
     | WObservation w \<Rightarrow>
         [(cp ''event'', wo_event w), (cp ''context'', wo_context w), (cp ''observed_at'', wo_observed w),
          (cp ''actor'', wo_actor w), (cp ''category'', wo_category w)])"

definition node_to_dict :: "wire_node \<Rightarrow> json" where
  "node_to_dict n = JObj (base_to_dict (wn_base n) @ body_to_dict (wn_body n))"

definition values_from :: "node_env \<Rightarrow> (ustring, json) dict \<Rightarrow> string \<Rightarrow> wire_value list result" where
  "values_from env d name = bindR (py_list (getv d name (JList []))) (mapR (value_from_dict env))"

definition function_part :: "node_env \<Rightarrow> (ustring, json) dict \<Rightarrow> wire_function result" where
  "function_part env d =
     bindR (values_from env d ''trigger'') (\<lambda>trigger.
     bindR (values_from env d ''condition'') (\<lambda>condition.
     bindR (values_from env d ''action'') (\<lambda>action.
     bindR (values_from env d ''benefit'') (\<lambda>benefit.
     bindR (py_dict (getv d ''attributes'' (JObj []))) (\<lambda>attributes.
     bindR (py_list (getv d ''cross_references'' (JList []))) (\<lambda>refs.
       Inr \<lparr>wf_normalized = getv d ''name_normalized'' (JStr []), wf_trigger = trigger,
            wf_condition = condition, wf_action = action, wf_benefit = benefit, wf_attributes = attributes,
            wf_references = refs, wf_priority = getv d ''priority_from_source'' JNull,
            wf_authority = getv d ''source_authority'' JNull\<rparr>))))))"

text \<open>The identifier pattern \<^verbatim>\<open>^[a-zA-Z0-9_-]+$\<close>, in full, over code points.\<close>

definition id_point :: "nat \<Rightarrow> bool" where
  "id_point c = (48 \<le> c \<and> c \<le> 57 \<or> 65 \<le> c \<and> c \<le> 90 \<or> 97 \<le> c \<and> c \<le> 122 \<or> c = 95 \<or> c = 45)"

definition check_func_id :: "json \<Rightarrow> ustring result" where
  "check_func_id j = (case j of
       JStr s \<Rightarrow>
         if prefix (cp ''domain_'') s then Inl (ValueErr ''Function ID uses the reserved domain_ namespace'')
         else if 128 < length s then Inl (ValueErr ''Function ID too long'')
         else if s = [] \<or> \<not> list_all id_point s then Inl (ValueErr ''Function ID has an invalid character'')
         else Inr s
     | _ \<Rightarrow> Inl (ValueErr ''Function ID must be a string''))"

definition check_domain :: "json \<Rightarrow> ustring option result" where
  "check_domain j = (case j of JNull \<Rightarrow> Inr None | JStr s \<Rightarrow> Inr (Some s)
     | _ \<Rightarrow> Inl (ValueErr ''Function domain must be a string or None''))"

definition post_init :: "node_env \<Rightarrow> wire_base \<Rightarrow> wire_base result" where
  "post_init env n =
     bindR (check_func_id (wb_id n)) (\<lambda>_.
     bindR (check_domain (wb_domain n)) (\<lambda>_.
       let created = (if falsy (wb_created n) then JStr (now_iso env) else wb_created n) in
       Inr (n\<lparr>wb_created := created,
              wb_updated := (if falsy (wb_updated n) then created else wb_updated n)\<rparr>)))"

definition function_from_dict :: "node_env \<Rightarrow> (ustring, json) dict \<Rightarrow> wire_node result" where
  "function_from_dict env d =
     bindR (base_from_dict ''function'' d) (\<lambda>n.
     bindR (function_part env d) (\<lambda>f.
     bindR (post_init env n) (\<lambda>n. Inr \<lparr>wn_base = n, wn_body = WFunction f\<rparr>)))"

definition fact_from_dict :: "(ustring, json) dict \<Rightarrow> wire_node result" where
  "fact_from_dict d =
     bindR (base_from_dict ''fact'' d) (\<lambda>n.
       Inr \<lparr>wn_base = n, wn_body = WFact
         \<lparr>wc_subject = getv d ''subject'' (JStr []), wc_predicate = getv d ''predicate'' (JStr []),
          wc_object = getv d ''object'' (getv d ''object_'' (JStr [])),
          wc_valid_until = getv d ''valid_until'' JNull, wc_valid_from = getv d ''valid_from'' JNull,
          wc_invalid_at = getv d ''invalid_at'' JNull\<rparr>\<rparr>)"

definition preference_from_dict :: "(ustring, json) dict \<Rightarrow> wire_node result" where
  "preference_from_dict d =
     bindR (base_from_dict ''preference'' d) (\<lambda>n.
       Inr \<lparr>wn_base = n, wn_body = WPreference
         \<lparr>wp_aspect = getv d ''aspect'' (JStr []), wp_preference = getv d ''preference'' (JStr []),
          wp_subject = getv d ''subject_id'' JNull\<rparr>\<rparr>)"

definition observation_from_dict :: "(ustring, json) dict \<Rightarrow> wire_node result" where
  "observation_from_dict d =
     bindR (base_from_dict ''observation'' d) (\<lambda>n.
       Inr \<lparr>wn_base = n, wn_body = WObservation
         \<lparr>wo_event = getv d ''event'' (JStr []), wo_context = getv d ''context'' (JStr []),
          wo_observed = getv d ''observed_at'' JNull, wo_actor = getv d ''actor'' (JStr (cp ''system'')),
          wo_category = getv d ''category'' (JStr (cp ''note''))\<rparr>\<rparr>)"

text \<open>The class an event's type selects.\<close>

definition node_from_dict :: "node_env \<Rightarrow> sync_node_type \<Rightarrow> (ustring, json) dict \<Rightarrow> wire_node result" where
  "node_from_dict env t d = (case t of
       FunctionT \<Rightarrow> function_from_dict env d | FactT \<Rightarrow> fact_from_dict d
     | PreferenceT \<Rightarrow> preference_from_dict d | _ \<Rightarrow> observation_from_dict d)"

subsection \<open>Reading back what was written\<close>

definition iso_back :: "node_env \<Rightarrow> bool" where
  "iso_back env = (\<forall>s t. iso_normal env s = Some t \<longrightarrow> iso_normal env t = Some t)"

lemma getv_Nil [simp]: "getv [] name x = x"
  by (simp add: getv_def dict_default_def)

lemma getv_Cons [simp]: "getv ((cp k, v) # d) name x = (if k = name then v else getv d name x)"
  by (auto simp: getv_def dict_default_def cp_inj)

lemma py_list_JList [simp]: "py_list (JList xs) = Inr xs"
  by (simp add: py_list_def)

lemma py_dict_JObj [simp]: "py_dict (JObj kvs) = Inr kvs"
  by (simp add: py_dict_def)

lemma as_dict_JObj [simp]: "as_dict (JObj kvs) = Inr kvs"
  by (simp add: as_dict_def)

lemma wire_trust_back [simp]: "wire_trust (JInt (wire_trust j)) = wire_trust j"
  by (auto simp: wire_trust_def split: json.split)

lemma wire_source_back [simp]: "wire_source (wire_source j) = wire_source j"
  by (auto simp: wire_source_def split: json.split)

lemma parse_created_back: "iso_back env \<Longrightarrow> parse_created env j = Inr c \<Longrightarrow> parse_created env c = Inr c"
  by (auto simp: parse_created_def iso_back_def split: json.splits option.splits)

lemma value_back:
  "iso_back env \<Longrightarrow> value_from_dict env j = Inr v \<Longrightarrow> value_from_dict env (value_to_dict v) = Inr v"
  using parse_created_back by (auto simp: value_from_dict_def value_to_dict_def)

lemma values_back:
  "iso_back env \<Longrightarrow> mapR (value_from_dict env) js = Inr vs \<Longrightarrow>
    mapR (value_from_dict env) (map value_to_dict vs) = Inr vs"
  by (induction js arbitrary: vs) (auto simp: value_back)

lemma base_gets [simp]:
  "getv (base_to_dict n @ r) ''id'' x = wb_id n"
  "getv (base_to_dict n @ r) ''memory_type'' x = wb_kind n"
  "getv (base_to_dict n @ r) ''name'' x = wb_name n"
  "getv (base_to_dict n @ r) ''domain'' x = wb_domain n"
  "getv (base_to_dict n @ r) ''confidence'' x = wb_confidence n"
  "getv (base_to_dict n @ r) ''source_type'' x = wb_source n"
  "getv (base_to_dict n @ r) ''owner'' x = wb_owner n"
  "getv (base_to_dict n @ r) ''tenant_id'' x = wb_tenant n"
  "getv (base_to_dict n @ r) ''owner_subject_id'' x = wb_subject n"
  "getv (base_to_dict n @ r) ''workspace_id'' x = wb_workspace n"
  "getv (base_to_dict n @ r) ''visibility'' x = wb_visibility n"
  "getv (base_to_dict n @ r) ''provenance'' x = JObj (wb_provenance n)"
  "getv (base_to_dict n @ r) ''version'' x = wb_version n"
  "getv (base_to_dict n @ r) ''created_at'' x = wb_created n"
  "getv (base_to_dict n @ r) ''updated_at'' x = wb_updated n"
  "getv (base_to_dict n @ r) ''origin_session'' x = wb_session n"
  "getv (base_to_dict n @ r) ''access_count'' x = wb_access n"
  "getv (base_to_dict n @ r) ''last_accessed_at'' x = wb_accessed n"
  "getv (base_to_dict n @ r) ''source_paragraphs'' x = JList (wb_paragraphs n)"
  "getv (base_to_dict n @ r) ''needs_review'' x = wb_review n"
  "getv (base_to_dict n @ r) ''needs_review_until'' x = wb_until n"
  "getv (base_to_dict n @ r) ''content_hash'' x = wb_hash n"
  "getv (base_to_dict n @ r) ''namespace'' x = JObj (wb_namespace n)"
  "getv (base_to_dict n @ r) ''knowledge_tier'' x = wb_tier n"
  "getv (base_to_dict n @ r) ''trust_tier'' x = JInt (wb_trust n)"
  by (simp_all add: base_to_dict_def)

lemma base_from_dict_checks:
  assumes "base_from_dict kind d = Inr n" "kind \<in> {''function'', ''fact'', ''preference'', ''observation''}"
  shows "check_member ''memory_type'' (wb_kind n) [''function'', ''fact'', ''preference'', ''observation''] = Inr ()"
    "check_member ''knowledge_tier'' (wb_tier n) [''personal'', ''domain'', ''team''] = Inr ()"
    "\<exists>j. wb_trust n = wire_trust j" "\<exists>j. wb_source n = wire_source j"
proof -
  have n: "check_member ''memory_type'' (getv d ''memory_type'' JNull) [''function'', ''fact'', ''preference'', ''observation''] = Inr ()"
    "check_member ''knowledge_tier'' (getv d ''knowledge_tier'' JNull) [''personal'', ''domain'', ''team''] = Inr ()"
    "wb_kind n = getv d ''memory_type'' (JStr (cp kind))" "wb_tier n = getv d ''knowledge_tier'' JNull"
    "wb_trust n = wire_trust (getv d ''trust_tier'' (JInt 3))"
    "wb_source n = wire_source (getv d ''source_type'' (JStr (cp ''wiki'')))"
    using assms(1) by (auto simp: base_from_dict_def)
  show "check_member ''memory_type'' (wb_kind n) [''function'', ''fact'', ''preference'', ''observation''] = Inr ()"
  proof (cases "dict_get d (cp ''memory_type'')")
    case None
    then have "wb_kind n = JStr (cp kind)" using n(3) by (simp add: getv_def dict_default_def)
    then show ?thesis using assms(2) by (auto simp: check_member_def in_strings_def)
  next
    case (Some v) then show ?thesis using n(1,3) by (simp add: getv_def dict_default_def)
  qed
  show "check_member ''knowledge_tier'' (wb_tier n) [''personal'', ''domain'', ''team''] = Inr ()" using n by simp
  show "\<exists>j. wb_trust n = wire_trust j" "\<exists>j. wb_source n = wire_source j" using n by blast+
qed

lemma base_back:
  assumes "check_member ''memory_type'' (wb_kind n) [''function'', ''fact'', ''preference'', ''observation''] = Inr ()"
    "check_member ''knowledge_tier'' (wb_tier n) [''personal'', ''domain'', ''team''] = Inr ()"
    "wb_trust n = wire_trust j" "wb_source n = wire_source j'"
  shows "base_from_dict kind (base_to_dict n @ rest) = Inr n"
  using assms by (simp add: base_from_dict_def)

lemma function_back:
  assumes "iso_back env" "function_part env d = Inr f"
  shows "function_part env (body_to_dict (WFunction f)) = Inr f"
proof -
  have reread: "mapR (value_from_dict env) (map value_to_dict vs) = Inr vs"
    if "mapR (value_from_dict env) js = Inr vs" for js vs
    by (rule values_back [OF assms(1) that])
  show ?thesis
    using assms(2) by (auto simp: function_part_def body_to_dict_def values_from_def values_to_json_def intro: reread)
qed

definition BASE_FIELDS :: "string list" where
  "BASE_FIELDS = [''id'', ''memory_type'', ''name'', ''domain'', ''confidence'', ''source_type'', ''owner'',
     ''tenant_id'', ''owner_subject_id'', ''workspace_id'', ''visibility'', ''provenance'', ''version'',
     ''created_at'', ''updated_at'', ''origin_session'', ''access_count'', ''last_accessed_at'',
     ''source_paragraphs'', ''needs_review'', ''needs_review_until'', ''content_hash'', ''namespace'',
     ''knowledge_tier'', ''trust_tier'']"

lemma base_keys: "map fst (base_to_dict n) = map cp BASE_FIELDS"
  by (simp add: base_to_dict_def BASE_FIELDS_def)

lemma base_skips: "name \<notin> set BASE_FIELDS \<Longrightarrow> getv (base_to_dict n @ r) name x = getv r name x"
proof -
  assume "name \<notin> set BASE_FIELDS"
  then have "cp name \<notin> set (map fst (base_to_dict n))" unfolding base_keys by (auto simp: cp_inj)
  then have "dict_get (base_to_dict n) (cp name) = None" by (simp add: map_of_eq_None_iff)
  then show ?thesis by (simp add: getv_def dict_default_def map_add_def)
qed

lemma function_part_skips: "function_part env (base_to_dict n @ r) = function_part env r"
  by (simp add: function_part_def values_from_def base_skips BASE_FIELDS_def)

lemma post_init_frame:
  "post_init env n = Inr n' \<Longrightarrow> wb_kind n' = wb_kind n \<and> wb_tier n' = wb_tier n \<and> wb_trust n' = wb_trust n \<and> wb_source n' = wb_source n"
  by (auto simp: post_init_def Let_def)

lemma post_init_again:
  "now_iso env \<noteq> [] \<Longrightarrow> post_init env n = Inr n' \<Longrightarrow> post_init env' n' = Inr n'"
  by (cases n) (auto simp: post_init_def Let_def falsy_def)

lemma base_reread:
  assumes "base_from_dict kind d = Inr n" "kind \<in> {''function'', ''fact'', ''preference'', ''observation''}"
    "wb_kind n' = wb_kind n \<and> wb_tier n' = wb_tier n \<and> wb_trust n' = wb_trust n \<and> wb_source n' = wb_source n"
  shows "base_from_dict kind (base_to_dict n' @ rest) = Inr n'"
  using base_from_dict_checks [OF assms(1,2)] assms(3) base_back by metis

lemma fact_reread:
  assumes "fact_from_dict d = Inr n"
  shows "fact_from_dict (base_to_dict (wn_base n) @ body_to_dict (wn_body n)) = Inr n"
proof -
  obtain b where b: "base_from_dict ''fact'' d = Inr b" "wn_base n = b" using assms by (auto simp: fact_from_dict_def)
  have "base_from_dict ''fact'' (base_to_dict b @ r) = Inr b" for r by (rule base_reread [OF b(1)]) simp_all
  then show ?thesis
    using assms b by (auto simp: fact_from_dict_def body_to_dict_def base_skips BASE_FIELDS_def)
qed

lemma preference_reread:
  assumes "preference_from_dict d = Inr n"
  shows "preference_from_dict (base_to_dict (wn_base n) @ body_to_dict (wn_body n)) = Inr n"
proof -
  obtain b where b: "base_from_dict ''preference'' d = Inr b" "wn_base n = b" using assms by (auto simp: preference_from_dict_def)
  have "base_from_dict ''preference'' (base_to_dict b @ r) = Inr b" for r by (rule base_reread [OF b(1)]) simp_all
  then show ?thesis
    using assms b by (auto simp: preference_from_dict_def body_to_dict_def base_skips BASE_FIELDS_def)
qed

lemma observation_reread:
  assumes "observation_from_dict d = Inr n"
  shows "observation_from_dict (base_to_dict (wn_base n) @ body_to_dict (wn_body n)) = Inr n"
proof -
  obtain b where b: "base_from_dict ''observation'' d = Inr b" "wn_base n = b" using assms by (auto simp: observation_from_dict_def)
  have "base_from_dict ''observation'' (base_to_dict b @ r) = Inr b" for r by (rule base_reread [OF b(1)]) simp_all
  then show ?thesis
    using assms b by (auto simp: observation_from_dict_def body_to_dict_def base_skips BASE_FIELDS_def)
qed

text \<open>What a class reads, writes and reads again is the same node, at any later time.\<close>

lemma node_reread:
  assumes iso: "iso_back env" and now: "now_iso env \<noteq> []" and read: "node_from_dict env t d = Inr n"
  shows "bindR (as_dict (node_to_dict n)) (node_from_dict (env\<lparr>now_iso := later\<rparr>) t) = Inr n"
proof -
  let ?env = "env\<lparr>now_iso := later\<rparr>"
  have iso': "iso_back ?env" using iso by (simp add: iso_back_def)
  show ?thesis
  proof (cases "t = FunctionT")
    case True
    then obtain n0 f n1 where fn: "base_from_dict ''function'' d = Inr n0" "function_part env d = Inr f"
      "post_init env n0 = Inr n1" "n = \<lparr>wn_base = n1, wn_body = WFunction f\<rparr>"
      using read by (auto simp: node_from_dict_def function_from_dict_def)
    have e: "iso_normal ?env = iso_normal env" by simp
    have "value_from_dict ?env = value_from_dict env"
      unfolding value_from_dict_def [abs_def] parse_created_def [abs_def] e ..
    then have "function_part ?env d = Inr f" using fn(2) by (simp add: function_part_def values_from_def)
    then have "function_part ?env (body_to_dict (WFunction f)) = Inr f" by (rule function_back [OF iso'])
    then show ?thesis
      using base_reread [OF fn(1) _ post_init_frame [OF fn(3)]] post_init_again [OF now fn(3)] True
      by (simp add: node_from_dict_def function_from_dict_def node_to_dict_def fn(4) function_part_skips)
  next
    case False
    then show ?thesis
      using read fact_reread preference_reread observation_reread
      by (cases t) (simp_all add: node_from_dict_def node_to_dict_def)
  qed
qed

end
