(* ===== verification/Lite_Business.thy ===== *)
theory Lite_Business
  imports Sync_Reach Wire_Nodes
begin

section \<open>The business half of the lite store under synchronisation\<close>

text \<open>
  What \<open>src/memplex/storage/lite/sync_repository.py\<close> does to the stored memories: the events
  it captures from local changes, the events of a snapshot, and the application of a remote
  event to functions, facts, preferences, observations, paragraphs and edges.  Memories are
  the nodes of Wire\_Nodes, paragraphs are dictionaries as in the code.  The interface
  \<open>sync_business\<close> of Sync\_Reach is interpreted here on these definitions.
\<close>

subsection \<open>The stored memories\<close>

record wire_edge =
  we_source :: ustring
  we_target :: ustring
  we_type :: ustring
  we_weight :: py_float
  we_evidence :: "ustring list"
  we_created :: "int option"

record business =
  bz_functions :: "(ustring, wire_node) dict"
  bz_facts :: "(ustring, wire_node) dict"
  bz_preferences :: "(ustring, wire_node) dict"
  bz_observations :: "wire_node list"
  bz_paragraphs :: "(ustring, (ustring, json) dict) dict"
  bz_edges :: "wire_edge list"
  bz_index :: "(ustring, (ustring, wire_edge list) dict) dict"
  bz_names :: "(ustring, ustring) dict"

text \<open>
  The clock, the calendar of the standard library and \<open>uuid5\<close> over the URL namespace, beside
  the parameters of the nodes and of the wire.
\<close>

record lite_env =
  le_node :: node_env
  le_wire :: wire_env
  le_iso_time :: "ustring \<Rightarrow> int option"
  le_strptime :: "ustring \<Rightarrow> int option"
  le_uuid5 :: "ustring \<Rightarrow> ustring"
  le_now :: int

definition edge_parts :: "wire_edge \<Rightarrow> ustring \<times> ustring \<times> ustring" where
  "edge_parts g = (we_source g, we_target g, we_type g)"

definition index_edge :: "wire_edge \<Rightarrow> (ustring, (ustring, wire_edge list) dict) dict \<Rightarrow>
    (ustring, (ustring, wire_edge list) dict) dict" where
  "index_edge g idx =
     fold (\<lambda>n idx. dict_set n (dict_append (we_type g) g (dict_default idx n [])) idx)
       (if we_source g = we_target g then [we_source g] else [we_source g, we_target g]) idx"

definition rebuild_index :: "business \<Rightarrow> business" where
  "rebuild_index b = b\<lparr>bz_index := fold index_edge (bz_edges b) []\<rparr>"

subsection \<open>Capturing local changes\<close>

definition require_text :: "string \<Rightarrow> json \<Rightarrow> unit result" where
  "require_text name j = (case j of
       JStr s \<Rightarrow> if s = [] then Inl (ValueErr (''sync capture requires node '' @ name)) else Inr ()
     | _ \<Rightarrow> Inl (ValueErr (''sync capture requires node '' @ name)))"

text \<open>Python's \<open>x or y\<close>.\<close>

definition or_then :: "json \<Rightarrow> json \<Rightarrow> json" where
  "or_then x y = (if falsy x then y else x)"

definition scope_from_node :: "wire_base \<Rightarrow> sync_scope result" where
  "scope_from_node n =
     bindR (require_text ''tenant_id'' (wb_tenant n)) (\<lambda>_.
     bindR (require_text ''owner_subject_id'' (wb_subject n)) (\<lambda>_.
     bindR (require_text ''visibility'' (wb_visibility n)) (\<lambda>_.
       make_scope (wb_tenant n) (wb_subject n) (wb_workspace n) (wb_visibility n)
         (or_then (getv (wb_provenance n) ''agent_id'' JNull) JNull)
         (or_then (getv (wb_provenance n) ''session_id'' JNull) (wb_session n)))))"

definition nonempty_text :: "json \<Rightarrow> bool" where
  "nonempty_text j = (case j of JStr s \<Rightarrow> s \<noteq> [] | _ \<Rightarrow> False)"

definition scope_from_row :: "(ustring, json) dict \<Rightarrow> sync_scope result" where
  "scope_from_row row =
     (let namespace = (case getv row ''namespace'' JNull of JObj kvs \<Rightarrow> kvs | _ \<Rightarrow> []);
          text_or_none = (\<lambda>j. if nonempty_text j then j else JNull) in
      make_scope (or_then (getv row ''tenant_id'' JNull) (JStr []))
        (or_then (getv row ''owner_subject_id'' JNull) (JStr []))
        (text_or_none (getv row ''workspace_id'' JNull))
        (or_then (getv row ''visibility'' JNull) (JStr (cp ''workspace'')))
        (text_or_none (getv namespace ''memplex_source_agent'' JNull))
        (text_or_none (getv namespace ''memplex_source_session_id'' JNull)))"

text \<open>The event constructor on a version in parsed form.\<close>

definition local_event ::
    "ustring \<Rightarrow> sync_version \<Rightarrow> sync_node_type \<Rightarrow> entity_key \<Rightarrow> sync_operation \<Rightarrow> sync_scope \<Rightarrow> json \<Rightarrow> sync_event result" where
  "local_event eid v t key oper scope payload =
     bindR (require_uuid ''event_id'' eid) (\<lambda>eid.
       if version_event v \<noteq> eid then Inl (ValueErr ''version must bind event id and origin node'')
       else if (t = EdgeT) \<noteq> is_edge_key key then Inl (ValueErr ''node_type and entity_key kind must agree'')
       else bindR (check_payload oper payload) (\<lambda>p.
         Inr \<lparr>ev_id = eid, ev_origin = version_origin v, ev_type = t, ev_key = key, ev_operation = oper,
              ev_version = v, ev_scope = scope, ev_payload = p\<rparr>))"

definition capture ::
    "sync_config \<Rightarrow> sync_event result \<Rightarrow> 'b repo \<Rightarrow> int option result \<times> 'b repo" where
  "capture cfg event rp =
     (if \<not> cap_required (cf_policy cfg) then (Inr None, rp)
      else case event of Inl err \<Rightarrow> (Inl err, rp) | Inr e \<Rightarrow> capture_local_event cfg e rp)"

definition capture_node ::
    "sync_config \<Rightarrow> ustring \<Rightarrow> int \<Rightarrow> wire_node \<Rightarrow> sync_node_type \<Rightarrow> sync_operation \<Rightarrow> 'b repo \<Rightarrow> int option result \<times> 'b repo" where
  "capture_node cfg fresh now n t oper = capture cfg
     (bindR (make_node_key (wb_id (wn_base n))) (\<lambda>key.
      bindR (make_version now (JStr (local_node cfg)) (JStr fresh)) (\<lambda>v.
      bindR (scope_from_node (wn_base n)) (\<lambda>scope.
        local_event fresh v t key oper scope (if oper = Tombstone then JNull else node_to_dict n)))))"

definition edge_to_payload :: "lite_env \<Rightarrow> wire_edge \<Rightarrow> int \<Rightarrow> json" where
  "edge_to_payload env g created = JObj
     [(cp ''weight'', JFloat (we_weight g)), (cp ''evidence'', JList (map JStr (we_evidence g))),
      (cp ''created_at'', JStr (time_to_wire (le_wire env) created))]"

definition edge_key_of :: "wire_edge \<Rightarrow> entity_key result" where
  "edge_key_of g = make_edge_key (JStr (we_source g)) (JStr (we_target g)) (JStr (we_type g))"

definition capture_edge ::
    "sync_config \<Rightarrow> lite_env \<Rightarrow> ustring \<Rightarrow> int \<Rightarrow> wire_edge \<Rightarrow> wire_node \<Rightarrow> sync_operation \<Rightarrow> 'b repo \<Rightarrow>
     int option result \<times> 'b repo" where
  "capture_edge cfg env fresh now g scope_node oper = capture cfg
     (bindR (edge_key_of g) (\<lambda>key.
      bindR (make_version now (JStr (local_node cfg)) (JStr fresh)) (\<lambda>v.
      bindR (scope_from_node (wn_base scope_node)) (\<lambda>scope.
        local_event fresh v EdgeT key oper scope
          (if oper = Upsert then
             edge_to_payload env g (case we_created g of None \<Rightarrow> now | Some t \<Rightarrow> t)
           else JNull)))))"

text \<open>A row without a bound tenant and owner is skipped; \<open>str\<close> of its id is a parameter.\<close>

definition capture_paragraph_row ::
    "sync_config \<Rightarrow> (json \<Rightarrow> ustring) \<Rightarrow> ustring \<Rightarrow> int \<Rightarrow> (ustring, json) dict \<Rightarrow> sync_operation \<Rightarrow> 'b repo \<Rightarrow>
     int option result \<times> 'b repo" where
  "capture_paragraph_row cfg str_of fresh now row oper rp =
     (if \<not> cap_required (cf_policy cfg) then (Inr None, rp)
      else if \<not> nonempty_text (getv row ''tenant_id'' JNull) then (Inr None, rp)
      else if \<not> nonempty_text (getv row ''owner_subject_id'' JNull) then (Inr None, rp)
      else capture cfg
        (bindR (make_node_key (JStr (str_of (getv row ''id'' (JStr []))))) (\<lambda>key.
         bindR (make_version now (JStr (local_node cfg)) (JStr fresh)) (\<lambda>v.
         bindR (scope_from_row row) (\<lambda>scope.
           local_event fresh v ParagraphT key oper scope (if oper = Tombstone then JNull else JObj row))))) rp)"

subsection \<open>Paragraph rows\<close>

definition PARAGRAPH_KEYS :: "string list" where
  "PARAGRAPH_KEYS = [''id'', ''raw_text'', ''trust_tier'', ''created_at'', ''source'', ''consolidated_into'',
     ''premise_superseded'', ''observation_count'', ''last_observed_at'', ''tenant_id'', ''owner_subject_id'',
     ''owner'', ''workspace_id'', ''visibility'', ''origin_session'', ''provenance'', ''namespace'']"

definition is_text :: "json \<Rightarrow> bool" where
  "is_text j = (case j of JStr _ \<Rightarrow> True | _ \<Rightarrow> False)"

definition text_mapping :: "json \<Rightarrow> bool" where
  "text_mapping j = (case j of JObj kvs \<Rightarrow> list_all (is_text \<circ> snd) kvs | _ \<Rightarrow> False)"

text \<open>Finite floats only, at any depth (\<open>_validate_json_value\<close>).\<close>

fun finite_json :: "json \<Rightarrow> bool" where
  "finite_json (JFloat f) = float_finite f"
| "finite_json (JList xs) = list_all finite_json xs"
| "finite_json (JObj kvs) = list_all (\<lambda>(k, v). finite_json v) kvs"
| "finite_json _ = True"

definition setdefault :: "string \<Rightarrow> json \<Rightarrow> (ustring, json) dict \<Rightarrow> (ustring, json) dict" where
  "setdefault name v d = (case dict_get d (cp name) of None \<Rightarrow> dict_set (cp name) v d | Some _ \<Rightarrow> d)"

definition put :: "string \<Rightarrow> json \<Rightarrow> (ustring, json) dict \<Rightarrow> (ustring, json) dict" where
  "put name v d = dict_set (cp name) v d"

text \<open>\<open>name in row and\<close> its value fails the test; an absent one passes.\<close>

definition present_fails :: "(ustring, json) dict \<Rightarrow> (json \<Rightarrow> bool) \<Rightarrow> string \<Rightarrow> bool" where
  "present_fails row ok name = (case dict_get row (cp name) of None \<Rightarrow> False | Some v \<Rightarrow> \<not> ok v)"

definition paragraph_defaults :: "(ustring, json) dict \<Rightarrow> (ustring, json) dict" where
  "paragraph_defaults row =
     (let row = setdefault ''premise_superseded'' (JStr []) (setdefault ''consolidated_into'' (JStr [])
            (setdefault ''source'' (JStr []) (setdefault ''created_at'' JNull (setdefault ''trust_tier'' (JInt 3) row))));
          row = setdefault ''observation_count'' (JInt 1) row;
          row = setdefault ''last_observed_at'' (getv row ''created_at'' JNull) row;
          row = setdefault ''visibility'' JNull (setdefault ''workspace_id'' JNull
            (setdefault ''owner_subject_id'' JNull (setdefault ''tenant_id'' JNull row))) in
      setdefault ''namespace'' (JObj []) row)"

definition validate_paragraph :: "(ustring, json) dict \<Rightarrow> (ustring, json) dict result" where
  "validate_paragraph row =
     (if \<not> fst ` set row \<subseteq> cp ` set PARAGRAPH_KEYS then Inl (ValueErr ''invalid Lite paragraph keys'')
      else if \<not> nonempty_text (getv row ''id'' JNull) then Inl (ValueErr ''invalid Lite paragraph id'')
      else if \<not> is_text (getv row ''raw_text'' JNull) then Inl (ValueErr ''invalid Lite paragraph raw_text'')
      else if list_ex (present_fails row (\<lambda>v. v = JNull \<or> is_text v))
          [''tenant_id'', ''owner_subject_id'', ''owner'', ''workspace_id'', ''visibility'', ''origin_session''] then
        Inl (ValueErr ''invalid Lite paragraph identity'')
      else if list_ex (present_fails row text_mapping) [''provenance'', ''namespace''] then
        Inl (ValueErr ''invalid Lite paragraph provenance'')
      else
        let row = paragraph_defaults row in
        if list_ex (present_fails row (\<lambda>v. v = JNull \<or> nonempty_text v))
            [''tenant_id'', ''owner_subject_id'', ''workspace_id'', ''visibility''] then
          Inl (ValueErr ''invalid Lite paragraph field'')
        else (case getv row ''namespace'' JNull of
            JObj kvs \<Rightarrow> if list_all (finite_json \<circ> snd) kvs then Inr row
              else Inl (ValueErr ''invalid Lite paragraph namespace'')
          | _ \<Rightarrow> Inl (ValueErr ''invalid Lite paragraph namespace'')))"

text \<open>The identity of the event's scope, in the row and in its namespace.\<close>

definition bind_row_scope :: "sync_scope \<Rightarrow> (ustring, json) dict \<Rightarrow> (ustring, json) dict" where
  "bind_row_scope sc row =
     (let row = put ''visibility'' (JStr (sc_visibility sc)) (put ''workspace_id'' (json_opt (sc_workspace sc))
            (put ''owner_subject_id'' (JStr (sc_owner sc)) (put ''tenant_id'' (JStr (sc_tenant sc)) row)));
          ns = (case getv row ''namespace'' JNull of JObj kvs \<Rightarrow> kvs | _ \<Rightarrow> []);
          ns = put ''memplex_subject_id'' (JStr (sc_owner sc)) (put ''memplex_tenant_id'' (JStr (sc_tenant sc)) ns);
          ns = (case sc_workspace sc of None \<Rightarrow> ns | Some w \<Rightarrow> if w = [] then ns else put ''memplex_workspace_id'' (JStr w) ns);
          ns = put ''memplex_visibility'' (JStr (sc_visibility sc)) ns;
          ns = (case sc_agent sc of None \<Rightarrow> ns | Some a \<Rightarrow> if a = [] then ns else put ''memplex_source_agent'' (JStr a) ns) in
      put ''namespace'' (JObj ns) row)"

subsection \<open>Nodes of an event\<close>

text \<open>\<open>value not in {None, allowed}\<close> hashes the value.\<close>

definition outside :: "json \<Rightarrow> ustring option \<Rightarrow> bool result" where
  "outside j allowed = (case j of
       JList _ \<Rightarrow> Inl (TypeErr ''unhashable type'') | JObj _ \<Rightarrow> Inl (TypeErr ''unhashable type'')
     | _ \<Rightarrow> Inr (j \<noteq> JNull \<and> j \<noteq> json_opt allowed))"

fun any_outside :: "(json \<times> ustring option) list \<Rightarrow> bool result" where
  "any_outside [] = Inr False"
| "any_outside ((j, a) # rest) = bindR (outside j a) (\<lambda>b. if b then Inr True else any_outside rest)"

definition check_node_scope :: "sync_scope \<Rightarrow> wire_base \<Rightarrow> unit result" where
  "check_node_scope sc n =
     bindR (any_outside
         [(wb_tenant n, Some (sc_tenant sc)), (wb_subject n, Some (sc_owner sc)), (wb_owner n, Some (sc_owner sc)),
          (wb_workspace n, sc_workspace sc), (wb_visibility n, Some (sc_visibility sc)),
          (getv (wb_provenance n) ''agent_id'' JNull, sc_agent sc),
          (getv (wb_provenance n) ''session_id'' JNull, sc_session sc)])
       (\<lambda>b. if b then Inl (ValueErr ''node payload scope mismatch'') else Inr ())"

definition text_or_empty :: "ustring option \<Rightarrow> json" where
  "text_or_empty x = JStr (case x of None \<Rightarrow> [] | Some s \<Rightarrow> s)"

definition bind_node_scope :: "sync_scope \<Rightarrow> wire_base \<Rightarrow> wire_base" where
  "bind_node_scope sc n = n\<lparr>
     wb_tenant := JStr (sc_tenant sc), wb_subject := JStr (sc_owner sc), wb_owner := JStr (sc_owner sc),
     wb_workspace := json_opt (sc_workspace sc), wb_visibility := JStr (sc_visibility sc),
     wb_session := json_opt (sc_session sc),
     wb_provenance := put ''session_id'' (text_or_empty (sc_session sc))
       (put ''agent_id'' (text_or_empty (sc_agent sc)) (wb_provenance n))\<rparr>"

definition text_of :: "json \<Rightarrow> ustring result" where
  "text_of j = (case j of JStr s \<Rightarrow> Inr s | _ \<Rightarrow> Inl (OtherErr ''AttributeError''))"

definition index_name :: "node_env \<Rightarrow> wire_node \<Rightarrow> ustring result" where
  "index_name env n =
     (let normalized = (case wn_body n of WFunction f \<Rightarrow> wf_normalized f | _ \<Rightarrow> JStr []) in
      bindR (text_of (or_then normalized (wb_name (wn_base n)))) (\<lambda>s. Inr (lower_text env (strip_text env s))))"

definition drop_names :: "ustring \<Rightarrow> (ustring, ustring) dict \<Rightarrow> (ustring, ustring) dict" where
  "drop_names i names = filter (\<lambda>(name, j). j \<noteq> i) names"

definition store_node :: "node_env \<Rightarrow> sync_node_type \<Rightarrow> ustring \<Rightarrow> wire_node \<Rightarrow> business \<Rightarrow> business result" where
  "store_node env t i n b = (case t of
       FunctionT \<Rightarrow> bindR (index_name env n) (\<lambda>name.
         Inr (b\<lparr>bz_functions := dict_set i n (bz_functions b),
                bz_names := dict_set name i (drop_names i (bz_names b))\<rparr>))
     | FactT \<Rightarrow> Inr (b\<lparr>bz_facts := dict_set i n (bz_facts b)\<rparr>)
     | PreferenceT \<Rightarrow> Inr (b\<lparr>bz_preferences := dict_set i n (bz_preferences b)\<rparr>)
     | _ \<Rightarrow> Inr (b\<lparr>bz_observations := filter (\<lambda>m. wb_id (wn_base m) \<noteq> JStr i) (bz_observations b) @ [n]\<rparr>))"

text \<open>An edge at a deleted function must have been deleted before it in the same batch.\<close>

fun tombstoned :: "ustring \<Rightarrow> entity_key list \<Rightarrow> wire_edge list \<Rightarrow> unit result" where
  "tombstoned i tombs [] = Inr ()"
| "tombstoned i tombs (g # gs) =
     (if we_source g = i \<or> we_target g = i then
        bindR (edge_key_of g) (\<lambda>k.
          if k \<notin> set tombs then Inl (ValueErr ''function tombstone requires explicit edge tombstones'')
          else tombstoned i tombs gs)
      else tombstoned i tombs gs)"

definition remove_node :: "sync_node_type \<Rightarrow> ustring \<Rightarrow> entity_key list \<Rightarrow> business \<Rightarrow> business result" where
  "remove_node t i tombs b = (case t of
       FunctionT \<Rightarrow> bindR (tombstoned i tombs (bz_edges b)) (\<lambda>_.
         Inr (b\<lparr>bz_functions := dict_pop i (bz_functions b), bz_names := drop_names i (bz_names b)\<rparr>))
     | FactT \<Rightarrow> Inr (b\<lparr>bz_facts := dict_pop i (bz_facts b)\<rparr>)
     | PreferenceT \<Rightarrow> Inr (b\<lparr>bz_preferences := dict_pop i (bz_preferences b)\<rparr>)
     | _ \<Rightarrow> Inr (b\<lparr>bz_observations := filter (\<lambda>m. wb_id (wn_base m) \<noteq> JStr i) (bz_observations b)\<rparr>))"

text \<open>The payload of an upsert names the entity.\<close>

definition payload_dict :: "ustring \<Rightarrow> sync_event \<Rightarrow> (ustring, json) dict result" where
  "payload_dict i e = (case ev_payload e of
       Some (JObj d) \<Rightarrow> if dict_get d (cp ''id'') = Some (JStr i) then Inr d
         else Inl (ValueErr ''node payload identity mismatch'')
     | _ \<Rightarrow> Inl (ValueErr ''node payload identity mismatch''))"

definition apply_node :: "lite_env \<Rightarrow> sync_event \<Rightarrow> ustring \<Rightarrow> entity_key list \<Rightarrow> business \<Rightarrow> business result" where
  "apply_node env e i tombs b =
     (if ev_operation e = Tombstone then remove_node (ev_type e) i tombs b
      else bindR (payload_dict i e) (\<lambda>d.
        bindR (node_from_dict (le_node env) (ev_type e) d) (\<lambda>n.
        bindR (check_node_scope (ev_scope e) (wn_base n)) (\<lambda>_.
          store_node (le_node env) (ev_type e) i
            (n\<lparr>wn_base := bind_node_scope (ev_scope e) (wn_base n)\<rparr>) b))))"

definition apply_paragraph :: "sync_event \<Rightarrow> ustring \<Rightarrow> business \<Rightarrow> business result" where
  "apply_paragraph e i b =
     (if ev_operation e = Tombstone then Inr (b\<lparr>bz_paragraphs := dict_pop i (bz_paragraphs b)\<rparr>)
      else bindR (payload_dict i e) (\<lambda>d.
        bindR (validate_paragraph d) (\<lambda>row.
          Inr (b\<lparr>bz_paragraphs := dict_set i (bind_row_scope (ev_scope e) row) (bz_paragraphs b)\<rparr>))))"

subsection \<open>Edges of an event\<close>

definition weight_value :: "node_env \<Rightarrow> json \<Rightarrow> py_float result" where
  "weight_value env j = (case j of JInt n \<Rightarrow> Inr (float_of env n) | JFloat f \<Rightarrow> Inr f
     | _ \<Rightarrow> Inl (TypeErr ''edge weight must be numeric''))"

definition string_list :: "json \<Rightarrow> ustring list result" where
  "string_list j = (case j of
       JList xs \<Rightarrow> mapR (\<lambda>x. case x of JStr s \<Rightarrow> Inr s | _ \<Rightarrow> Inl (TypeErr ''edge evidence must be string list'')) xs
     | _ \<Rightarrow> Inl (TypeErr ''edge evidence must be string list''))"

definition edge_time :: "lite_env \<Rightarrow> json \<Rightarrow> int result" where
  "edge_time env j = (case j of
       JStr s \<Rightarrow> (case le_strptime env s of
           None \<Rightarrow> Inl (ValueErr ''time data does not match format'')
         | Some t \<Rightarrow> if time_to_wire (le_wire env) t \<noteq> s then Inl (ValueErr ''edge created_at is not canonical'') else Inr t)
     | _ \<Rightarrow> Inl (TypeErr ''edge created_at must be a string''))"

text \<open>\<open>_edge_payload\<close>; an integer weight is converted last in the code and cannot fail below 2^53.\<close>

definition edge_fields :: "lite_env \<Rightarrow> json option \<Rightarrow> (py_float \<times> ustring list \<times> int) result" where
  "edge_fields env payload = (case payload of
       Some (JObj d) \<Rightarrow>
         if fst ` set d \<noteq> cp ` {''weight'', ''evidence'', ''created_at''} then
           Inl (ValueErr ''edge payload fields are invalid'')
         else bindR (weight_value (le_node env) (getv d ''weight'' JNull)) (\<lambda>w.
              bindR (string_list (getv d ''evidence'' JNull)) (\<lambda>ev.
              bindR (edge_time env (getv d ''created_at'' JNull)) (\<lambda>t. Inr (w, ev, t))))
     | _ \<Rightarrow> Inl (ValueErr ''edge payload fields are invalid''))"

definition wire_domain_id :: "node_env \<Rightarrow> ustring \<Rightarrow> ustring" where
  "wire_domain_id env d = cp ''domain_'' @ lower_text env (map (\<lambda>c. if c = 32 then 95 else c) d)"

text \<open>\<open>validate_belongs_to_edges\<close> on one edge: every function of the graph is validated first.\<close>

definition check_belongs :: "node_env \<Rightarrow> wire_node list \<Rightarrow> wire_edge \<Rightarrow> unit result" where
  "check_belongs env fns g =
     bindR (mapR (\<lambda>n. bindR (check_func_id (wb_id (wn_base n))) (\<lambda>i.
         bindR (check_domain (wb_domain (wn_base n))) (\<lambda>d. Inr (i, d)))) fns) (\<lambda>ids.
       if we_type g \<noteq> cp ''BELONGS_TO'' then Inr ()
       else case dict_get (rev ids) (we_source g) of
         None \<Rightarrow> Inl (ValueErr ''BELONGS_TO source must be a durable Function'')
       | Some d \<Rightarrow> (case d of
           None \<Rightarrow> Inl (ValueErr ''BELONGS_TO target must match the source domain'')
         | Some d \<Rightarrow> if d = [] \<or> we_target g \<noteq> wire_domain_id env d then
             Inl (ValueErr ''BELONGS_TO target must match the source domain'') else Inr ()))"

definition other_edges :: "ustring \<times> ustring \<times> ustring \<Rightarrow> wire_edge list \<Rightarrow> wire_edge list" where
  "other_edges parts gs = filter (\<lambda>g. edge_parts g \<noteq> parts) gs"

definition has_function :: "ustring \<Rightarrow> business \<Rightarrow> bool" where
  "has_function i b = (dict_get (bz_functions b) i \<noteq> None)"

definition apply_edge ::
    "lite_env \<Rightarrow> sync_event \<Rightarrow> ustring \<Rightarrow> ustring \<Rightarrow> ustring \<Rightarrow> entity_key list \<Rightarrow> business \<Rightarrow>
     (entity_key list \<times> business) result" where
  "apply_edge env e source target kind tombs b =
     (let others = other_edges (source, target, kind) (bz_edges b) in
      if ev_operation e = Tombstone then
        Inr (ev_key e # tombs, rebuild_index (b\<lparr>bz_edges := others\<rparr>))
      else bindR (edge_fields env (ev_payload e)) (\<lambda>(w, ev, t).
        let g = \<lparr>we_source = source, we_target = target, we_type = kind, we_weight = w,
                 we_evidence = ev, we_created = Some t\<rparr> in
        if \<not> has_function source b then Inl (ValueErr ''edge source must exist'')
        else if \<not> has_function target b \<and> kind \<noteq> cp ''BELONGS_TO'' then Inl (ValueErr ''edge target must exist'')
        else bindR (check_belongs (le_node env) (map snd (bz_functions b)) g) (\<lambda>_.
          Inr (tombs, rebuild_index (b\<lparr>bz_edges := others @ [g]\<rparr>)))))"

subsection \<open>Applying an event\<close>

definition lite_apply :: "lite_env \<Rightarrow> business apply_business" where
  "lite_apply env e tombs b =
     (if ev_type e = EdgeT then
        (case ev_key e of
           NodeKey _ \<Rightarrow> Inl (ValueErr ''edge event requires edge entity key'')
         | EdgeKey source target kind \<Rightarrow> apply_edge env e source target kind tombs b)
      else case ev_key e of
        EdgeKey _ _ _ \<Rightarrow> Inl (ValueErr ''node event requires node entity key'')
      | NodeKey i \<Rightarrow>
          bindR (if ev_type e = ParagraphT then apply_paragraph e i b else apply_node env e i tombs b)
            (\<lambda>b. Inr (tombs, b)))"

subsection \<open>The events of a snapshot\<close>

definition text_tenant :: "json \<Rightarrow> ustring list" where
  "text_tenant j = (case j of JStr s \<Rightarrow> if s = [] then [] else [s] | _ \<Rightarrow> [])"

definition stored_nodes :: "business \<Rightarrow> (sync_node_type \<times> wire_node) list" where
  "stored_nodes b = map (\<lambda>p. (FunctionT, snd p)) (bz_functions b) @ map (\<lambda>p. (FactT, snd p)) (bz_facts b)
     @ map (\<lambda>p. (PreferenceT, snd p)) (bz_preferences b) @ map (Pair ObservationT) (bz_observations b)"

definition business_tenants :: "business \<Rightarrow> ustring list" where
  "business_tenants b = remdups
     (concat (map (text_tenant \<circ> wb_tenant \<circ> wn_base \<circ> snd) (stored_nodes b))
      @ concat (map (\<lambda>p. text_tenant (getv (snd p) ''tenant_id'' JNull)) (bz_paragraphs b)))"

definition single_tenant :: "business \<Rightarrow> sync_state \<Rightarrow> ustring option result" where
  "single_tenant b st =
     (let tenants = business_tenants b in
      if 1 < length tenants \<or> tenants \<noteq> [] \<and> sy_binding st \<noteq> None \<and> sy_binding st \<noteq> Some (hd tenants) then
        Inl (ValueErr ''sync-enabled Lite supports a single tenant'')
      else Inr (if tenants = [] then sy_binding st else Some (hd tenants)))"

text \<open>The version an entity was last written with, or a fresh one derived from its dates.\<close>

definition snapshot_version ::
    "sync_config \<Rightarrow> lite_env \<Rightarrow> sync_state \<Rightarrow> sync_node_type \<Rightarrow> entity_key \<Rightarrow> ustring \<Rightarrow> int result \<Rightarrow>
     (ustring \<times> sync_version) result" where
  "snapshot_version cfg env st t key name occurred = (case entity_version st (t, key) of
       Some r \<Rightarrow> Inr (vr_event r, vr_version r)
     | None \<Rightarrow>
        let eid = le_uuid5 env name in
        bindR occurred (\<lambda>at. bindR (make_version at (JStr (local_node cfg)) (JStr eid)) (\<lambda>v. Inr (eid, v))))"

definition iso_instant :: "lite_env \<Rightarrow> json \<Rightarrow> int result" where
  "iso_instant env j = (case j of
       JStr s \<Rightarrow> (case le_iso_time env s of None \<Rightarrow> Inl (ValueErr ''Invalid isoformat string'') | Some t \<Rightarrow> Inr t)
     | _ \<Rightarrow> Inl (TypeErr ''fromisoformat: argument must be str''))"

definition snapshot_node :: "sync_config \<Rightarrow> lite_env \<Rightarrow> sync_state \<Rightarrow> sync_node_type \<Rightarrow> wire_node \<Rightarrow> sync_event result" where
  "snapshot_node cfg env st t n =
     bindR (make_node_key (wb_id (wn_base n))) (\<lambda>key.
     bindR (text_of (wb_id (wn_base n))) (\<lambda>i.
     bindR (snapshot_version cfg env st t key (cp ''memplex:'' @ node_type_value t @ cp '':'' @ i)
         (iso_instant env (wb_updated (wn_base n)))) (\<lambda>(eid, v).
     bindR (scope_from_node (wn_base n)) (\<lambda>scope. local_event eid v t key Upsert scope (node_to_dict n)))))"

text \<open>
  The date of a paragraph is the \<open>str\<close> of what the row holds (an integer may spell a date); an
  unreadable or missing one is the present.  A stored row has a string id.
\<close>

definition row_instant :: "lite_env \<Rightarrow> json \<Rightarrow> int" where
  "row_instant env j =
     (case iso_instant env (case j of JInt n \<Rightarrow> JStr (cp (show_int n)) | _ \<Rightarrow> j) of
        Inl _ \<Rightarrow> le_now env | Inr t \<Rightarrow> t)"

definition snapshot_paragraph ::
    "sync_config \<Rightarrow> lite_env \<Rightarrow> sync_state \<Rightarrow> (ustring, json) dict \<Rightarrow> sync_event result" where
  "snapshot_paragraph cfg env st row =
     bindR (text_of (getv row ''id'' JNull)) (\<lambda>i.
     bindR (make_node_key (JStr i)) (\<lambda>key.
     bindR (snapshot_version cfg env st ParagraphT key (cp ''memplex:paragraph:'' @ i)
         (Inr (row_instant env (or_then (getv row ''last_observed_at'' JNull) (getv row ''created_at'' JNull))))) (\<lambda>(eid, v).
     bindR (scope_from_row row) (\<lambda>scope. local_event eid v ParagraphT key Upsert scope (JObj row)))))"

definition snapshot_edge :: "sync_config \<Rightarrow> lite_env \<Rightarrow> business \<Rightarrow> sync_state \<Rightarrow> wire_edge \<Rightarrow> sync_event result" where
  "snapshot_edge cfg env b st g = (case dict_get (bz_functions b) (we_source g) of
       None \<Rightarrow> Inl (ValueErr ''snapshot edge source is missing'')
     | Some source \<Rightarrow>
        bindR (edge_key_of g) (\<lambda>key.
        bindR (key_text key) (\<lambda>txt.
        bindR (snapshot_version cfg env st EdgeT key (cp ''memplex:edge:'' @ txt)
            (Inr (case we_created g of None \<Rightarrow> le_now env | Some t \<Rightarrow> t))) (\<lambda>(eid, v).
        bindR (scope_from_node (wn_base source)) (\<lambda>scope.
          local_event eid v EdgeT key Upsert scope
            (edge_to_payload env g (case we_created g of None \<Rightarrow> occurred_at v | Some t \<Rightarrow> t)))))))"

definition bound_paragraphs :: "business \<Rightarrow> (ustring, json) dict list" where
  "bound_paragraphs b = filter (\<lambda>row. nonempty_text (getv row ''tenant_id'' JNull)) (map snd (bz_paragraphs b))"

definition lite_current :: "sync_config \<Rightarrow> lite_env \<Rightarrow> business \<Rightarrow> sync_state \<Rightarrow> (sync_event list \<times> sync_state) result" where
  "lite_current cfg env b st =
     bindR (single_tenant b st) (\<lambda>tenant.
     bindR (case tenant of None \<Rightarrow> Inr st | Some t \<Rightarrow> bind_tenant t st) (\<lambda>st.
     bindR (mapR (\<lambda>(t, n). snapshot_node cfg env st t n) (stored_nodes b)) (\<lambda>nodes.
     bindR (mapR (snapshot_paragraph cfg env st) (bound_paragraphs b)) (\<lambda>paragraphs.
     bindR (mapR (snapshot_edge cfg env b st) (bz_edges b)) (\<lambda>edges.
       Inr (sort_key (\<lambda>e. anchor_order (event_anchor e)) (nodes @ paragraphs @ edges), st))))))"

text \<open>The constructor of the repository checks the stored memories when capture is on.\<close>

definition open_repository :: "sync_config \<Rightarrow> sync_state \<Rightarrow> business \<Rightarrow> business repo result" where
  "open_repository cfg st b =
     bindR (if cap_required (cf_policy cfg) then single_tenant b st else Inr None) (\<lambda>_.
       Inr \<lparr>rp_sync = st, rp_business = b, rp_ids = None, rp_positions = None\<rparr>)"

subsection \<open>The interface holds\<close>

lemma lite_current_binds: "lite_current cfg env b st = Inr (es, st') \<Longrightarrow> binds_only st st'"
  by (auto simp: lite_current_def bind_tenant_binds split: option.splits)

interpretation lite: sync_business cfg "lite_apply env" "lite_current cfg env" for cfg env
  by unfold_locales (rule lite_current_binds)

end
