(* ===== verification/Lite_Sync_Facts.thy ===== *)
theory Lite_Sync_Facts
  imports Lite_Business
begin

section \<open>What the lite repository promises\<close>

text \<open>
  Claims about the whole repository of the lite store, over the states its operations reach
  from an empty store: the invariant, the optimised append, leases, settlement, and
  compaction.  They rest on the interpretation \<open>lite\<close> of Lite\_Business.
\<close>

abbreviation lite_reachable :: "sync_config \<Rightarrow> lite_env \<Rightarrow> business repo \<Rightarrow> bool" where
  "lite_reachable cfg env \<equiv> sync_reachable cfg (lite_apply env) (lite_current cfg env)"

lemma lite_sync_ok: "lite_reachable cfg env rp \<Longrightarrow> config_ok cfg \<Longrightarrow> sync_ok cfg (rp_sync rp)"
  using lite.reachable_ok by (auto simp: repo_ok_def)

subsection \<open>The reachable states\<close>

text \<open>
  C3: In every state the repository reaches, whatever fails or is rolled back: stream
  numbers rise strictly and lie between the compaction floor and the next number, event ids
  are unique, all events belong to the one bound tenant, targets are unique and never this
  node, a delivery belongs to a known target and a stored event that did not originate there,
  no delivery is duplicated, it is leased exactly while it carries a lease, attempts never
  pass the limit, undelivered rows stay within the quota, and every entity has one version row.
\<close>
theorem reachable_repository_ok:
  assumes "lite_reachable cfg env rp" "config_ok cfg"
  shows "sync_ok cfg (rp_sync rp)"
  using assms lite.reachable_ok by (auto simp: repo_ok_def)

text \<open>
  C32: Appending an event with the two caches of the repository object gives exactly what
  direct scans of the outbox and of the version rows give, errors included.
\<close>
theorem cached_append_is_scan:
  assumes "lite_reachable cfg env rp" "config_ok cfg" "append_event cfg e rp = (r, rp')"
  shows "append_ref cfg e (rp_sync rp) = (case r of Inl err \<Rightarrow> Inl err | Inr n \<Rightarrow> Inr (n, rp_sync rp'))"
proof -
  have "repo_ok cfg rp" using assms(1,2) lite.reachable_ok by blast
  then have "case r of Inl err \<Rightarrow> append_ref cfg e (rp_sync rp) = Inl err
      | Inr n \<Rightarrow> append_ref cfg e (rp_sync rp) = Inr (n, rp_sync rp')"
    using append_event_ref [OF _ _ _ assms(3)] sync_ok_distinct by (auto simp: repo_ok_def)
  then show ?thesis by (cases r) simp_all
qed

subsection \<open>Leases\<close>

text \<open>A row under a lease that has not run out.\<close>

definition active_lease :: "int \<Rightarrow> delivery \<Rightarrow> bool" where
  "active_lease now d = (dv_state d = Leased \<and> now < the (dv_until d))"

lemma lease_all_length [simp]: "length (lease_all fresh u n is ds) = length ds"
  by (induction "is" arbitrary: n ds) simp_all

lemma lease_all_other: "i \<notin> set is \<Longrightarrow> lease_all fresh u n is ds ! i = ds ! i"
  by (induction "is" arbitrary: n ds) simp_all

lemma lease_all_nth:
  "distinct is \<Longrightarrow> \<forall>i \<in> set is. i < length ds \<Longrightarrow> j < length is \<Longrightarrow>
    lease_all fresh u n is ds ! (is ! j) = lease_row (fresh (n + j)) u (ds ! (is ! j))"
proof (induction "is" arbitrary: n ds j)
  case (Cons i "is")
  show ?case
  proof (cases j)
    case 0
    then show ?thesis using Cons.prems by (simp add: lease_all_other)
  next
    case (Suc k)
    then have "is ! k \<noteq> i" using Cons.prems by (auto dest: nth_mem)
    then show ?thesis using Cons.prems Suc Cons.IH [of "ds[i := lease_row (fresh n) u (ds ! i)]" k "Suc n"] by simp
  qed
qed simp

lemma expire_lease_active: "active_lease now d \<Longrightarrow> expire_lease cfg t now d = d"
  by (auto simp: active_lease_def expire_lease_def)

text \<open>
  C9: A claim hands out at most \<open>limit\<close> deliveries, each of them a row of the target that was
  under no running lease, leased now to a fresh id until \<open>now + lease_seconds\<close> and counted as
  one more attempt within the limit; a row under a running lease is left as it is.
\<close>
theorem claim_is_exclusive:
  assumes "claim cfg fresh now target limit secs st = Inr (out, st')"
  shows "int (length out) \<le> limit
    \<and> (\<forall>i < length (sy_deliveries st). active_lease now (sy_deliveries st ! i) \<longrightarrow> sy_deliveries st' ! i = sy_deliveries st ! i)
    \<and> (\<forall>sd \<in> set out. \<exists>i n. i < length (sy_deliveries st) \<and> \<not> active_lease now (sy_deliveries st ! i)
      \<and> sd_target sd = target \<and> sd_lease sd = fresh n \<and> sd_expires sd = now + seconds secs
      \<and> sd_attempt sd \<le> cf_max_attempts cfg
      \<and> require_active_lease now (sy_deliveries st' ! i) sd = Inr ())"
proof -
  let ?ds = "map (expire_lease cfg target now) (sy_deliveries st)"
  have limit: "1 \<le> limit" using assms by (auto simp: claim_def bindR_require)
  have "int (length out) \<le> limit
    \<and> (\<forall>i < length (sy_deliveries st). active_lease now (sy_deliveries st ! i) \<longrightarrow> sy_deliveries st' ! i = sy_deliveries st ! i)
    \<and> (\<forall>sd \<in> set out. \<exists>i n. i < length (sy_deliveries st) \<and> \<not> active_lease now (sy_deliveries st ! i)
      \<and> sd_target sd = target \<and> sd_lease sd = fresh n \<and> sd_expires sd = now + seconds secs
      \<and> sd_attempt sd \<le> cf_max_attempts cfg
      \<and> sy_deliveries st' ! i = lease_row (fresh n) (now + seconds secs) (?ds ! i))"
    using assms
  proof (cases rule: claim_shape)
    case idle then show ?thesis using limit by simp
  next
    case (leased t picked)
    have d: "distinct picked" and due: "\<forall>i \<in> set picked. i < length ?ds \<and> is_due cfg target now (?ds ! i)"
      using claimable_due by (auto simp: leased(3) distinct_take dest!: in_set_takeD)
    have idle: "\<not> active_lease now (sy_deliveries st ! i)" if "i \<in> set picked" for i
      using due that expire_lease_active [of now "sy_deliveries st ! i" cfg target]
      by (auto simp: is_due_def active_lease_def)
    have "sy_deliveries st' ! i = sy_deliveries st ! i"
      if "i < length (sy_deliveries st)" "active_lease now (sy_deliveries st ! i)" for i
      proof -
      have "i \<notin> set picked" using idle that(2) by blast
      then show ?thesis using that(1) expire_lease_active [OF that(2)] by (simp add: leased(5) lease_all_other)
    qed
    moreover have "length out \<le> nat limit" by (simp add: leased(3,4))
    moreover have "\<exists>i n. i < length (sy_deliveries st) \<and> \<not> active_lease now (sy_deliveries st ! i)
      \<and> sd_target sd = target \<and> sd_lease sd = fresh n \<and> sd_expires sd = now + seconds secs
      \<and> sd_attempt sd \<le> cf_max_attempts cfg
      \<and> sy_deliveries st' ! i = lease_row (fresh n) (now + seconds secs) (?ds ! i)" if sd: "sd \<in> set out" for sd
    proof -
      obtain n where n: "n < length picked" "sd = claimed_delivery st (fresh n) (now + seconds secs) (?ds ! (picked ! n))"
        using sd unfolding leased(4) by (auto simp: in_set_enumerate_eq)
      have mem: "picked ! n \<in> set picked" using n(1) by simp
      have "sy_deliveries st' ! (picked ! n) = lease_row (fresh n) (now + seconds secs) (?ds ! (picked ! n))"
        using lease_all_nth [OF d _ n(1), of ?ds fresh "now + seconds secs" 0] due by (simp add: leased(5))
      moreover have "picked ! n < length (sy_deliveries st)" "is_due cfg target now (?ds ! (picked ! n))"
        using due mem by auto
      ultimately show ?thesis
        using idle [OF mem]
        by (intro exI [of _ "picked ! n"] exI [of _ n]) (simp add: n(2) claimed_delivery_def is_due_def)
    qed
    ultimately show ?thesis using limit by auto
  qed
  then have bound: "int (length out) \<le> limit"
    and keep: "\<And>i. i < length (sy_deliveries st) \<Longrightarrow> active_lease now (sy_deliveries st ! i) \<Longrightarrow> sy_deliveries st' ! i = sy_deliveries st ! i"
    and got: "\<And>sd. sd \<in> set out \<Longrightarrow> \<exists>i n. i < length (sy_deliveries st) \<and> \<not> active_lease now (sy_deliveries st ! i)
      \<and> sd_target sd = target \<and> sd_lease sd = fresh n \<and> sd_expires sd = now + seconds secs
      \<and> sd_attempt sd \<le> cf_max_attempts cfg
      \<and> sy_deliveries st' ! i = lease_row (fresh n) (now + seconds secs) (?ds ! i)" by blast+
  have "1 \<le> secs" using assms by (auto simp: claim_def bindR_require)
  then have later: "now < now + seconds secs" by simp
  have "\<exists>i n. i < length (sy_deliveries st) \<and> \<not> active_lease now (sy_deliveries st ! i)
      \<and> sd_target sd = target \<and> sd_lease sd = fresh n \<and> sd_expires sd = now + seconds secs
      \<and> sd_attempt sd \<le> cf_max_attempts cfg
      \<and> require_active_lease now (sy_deliveries st' ! i) sd = Inr ()" if sd: "sd \<in> set out" for sd
  proof -
    obtain i n where i: "i < length (sy_deliveries st)" "\<not> active_lease now (sy_deliveries st ! i)"
      "sd_target sd = target" "sd_lease sd = fresh n" "sd_expires sd = now + seconds secs"
      "sd_attempt sd \<le> cf_max_attempts cfg"
      "sy_deliveries st' ! i = lease_row (fresh n) (now + seconds secs) (?ds ! i)" using got [OF sd] by blast
    have "require_active_lease now (sy_deliveries st' ! i) sd = Inr ()"
      using later by (simp add: i(4,7) require_active_lease_def lease_row_def)
    then show ?thesis using i(1-6) by blast
  qed
  then show ?thesis using bound keep by blast
qed

text \<open>
  What the caller of a delivery may do with it: its row is open under the lease it names, that
  has not run out; or the row has been settled; or there is no such row any more.
\<close>

definition holds_lease :: "int \<Rightarrow> sync_state \<Rightarrow> sync_delivery \<Rightarrow> bool" where
  "holds_lease clock st sd = (case delivery_index st sd of None \<Rightarrow> True
     | Some i \<Rightarrow> active_lease clock (sy_deliveries st ! i) \<and> dv_lease (sy_deliveries st ! i) = Some (sd_lease sd))"

definition open_row :: "sync_state \<Rightarrow> sync_delivery \<Rightarrow> nat \<Rightarrow> bool" where
  "open_row st sd i = (delivery_index st sd = Some i \<and> dv_state (sy_deliveries st ! i) \<noteq> Delivered)"

abbreviation lease_lost :: exn where
  "lease_lost \<equiv> DeliveryBusy ''delivery lease is no longer active''"

lemma lease_required:
  "delivery_index st sd = Some i \<Longrightarrow> require_active_lease clock (sy_deliveries st ! i) sd =
     (if holds_lease clock st sd then Inr () else Inl lease_lost)"
  by (auto simp: holds_lease_def require_active_lease_def active_lease_def)

lemma delivery_index_less: "delivery_index st sd = Some i \<Longrightarrow> i < length (sy_deliveries st)"
  unfolding delivery_index_def by (auto simp: find_Some_iff)

lemma ack_rows_refused:
  "sd \<in> set sds \<Longrightarrow> open_row st sd i \<Longrightarrow> \<not> holds_lease clock st sd \<Longrightarrow> ack_rows clock st sds = Inl lease_lost"
proof (induction sds)
  case (Cons x sds)
  show ?case
  proof (cases "delivery_index st x")
    case None
    then show ?thesis using Cons by (auto simp: open_row_def)
  next
    case (Some k)
    then show ?thesis
      using Cons by (cases "holds_lease clock st x") (auto simp: Let_def lease_required open_row_def)
  qed
qed simp

lemma ack_rows_granted:
  "(\<And>sd i. sd \<in> set sds \<Longrightarrow> open_row st sd i \<Longrightarrow> holds_lease clock st sd) \<Longrightarrow>
    \<exists>is. ack_rows clock st sds = Inr is \<and> set is = {i. \<exists>sd \<in> set sds. open_row st sd i}"
proof (induction sds)
  case (Cons x sds)
  obtain "is" where "is": "ack_rows clock st sds = Inr is" "set is = {i. \<exists>sd \<in> set sds. open_row st sd i}"
    using Cons.IH Cons.prems by auto
  show ?case
  proof (cases "\<exists>k. open_row st x k")
    case True
    then obtain k where k: "open_row st x k" by blast
    moreover have "holds_lease clock st x" using Cons.prems [OF _ k] by simp
    ultimately show ?thesis
      using "is" by (auto simp: Let_def lease_required open_row_def)
  next
    case False
    then show ?thesis using "is" by (auto simp: Let_def open_row_def split: option.splits)
  qed
qed simp

lemma fold_mark_delivered:
  "(\<And>i. i \<in> set is \<Longrightarrow> i < length (sy_deliveries st)) \<Longrightarrow>
    sy_deliveries (fold (\<lambda>i st. set_row i (mark_delivered (sy_deliveries st ! i)) st) is st) =
      map (\<lambda>j. if j \<in> set is then mark_delivered (sy_deliveries st ! j) else sy_deliveries st ! j)
        [0..<length (sy_deliveries st)]"
proof (induction "is" arbitrary: st)
  case Nil
  then show ?case by (simp add: map_nth)
next
  case (Cons i "is")
  let ?st = "set_row i (mark_delivered (sy_deliveries st ! i)) st"
  have twice: "mark_delivered (mark_delivered d) = mark_delivered d" for d by (simp add: mark_delivered_def)
  have rows: "sy_deliveries ?st = (sy_deliveries st)[i := mark_delivered (sy_deliveries st ! i)]"
    by (simp add: set_row_def)
  have "i < length (sy_deliveries st)" using Cons.prems by simp
  then show ?case
    using Cons.IH [of ?st] Cons.prems by (auto simp: rows nth_list_update twice)
qed

text \<open>
  C33: only the holders of running leases settle deliveries.  Failing and dead-lettering a
  delivery whose row is under another lease, or under one that has run out, is refused and
  changes nothing.  An acknowledgement is for a whole batch: if one of its open rows, at any
  place in the batch, is not under its running lease, all of it is refused and nothing changes;
  otherwise exactly the open rows of the batch become delivered.  (The receipts match the
  batch and the error code is not empty: these are checked before the leases.)
\<close>
theorem settling_needs_the_lease:
  assumes code: "err \<noteq> []" and receipts: "length sds = length rs" "distinct (map rc_event rs)"
    "set (map rc_event rs) = set (map (ev_id \<circ> sd_event) sds)"
  shows "(\<not> holds_lease clock (rp_sync rp) sd \<longrightarrow>
        sync_mutation (fail_delivery cfg clock sd err now) rp = (Inl lease_lost, rp)
      \<and> sync_mutation (dead_letter clock sd err now) rp = (Inl lease_lost, rp))
    \<and> (if \<forall>sd \<in> set sds. \<forall>i. open_row (rp_sync rp) sd i \<longrightarrow> holds_lease clock (rp_sync rp) sd
       then \<exists>st'. sync_mutation (ack_batch clock sds rs) rp = (Inr (), rp\<lparr>rp_sync := st'\<rparr>)
         \<and> sy_deliveries st' = map (\<lambda>i. if \<exists>sd \<in> set sds. open_row (rp_sync rp) sd i
             then mark_delivered (sy_deliveries (rp_sync rp) ! i) else sy_deliveries (rp_sync rp) ! i)
             [0..<length (sy_deliveries (rp_sync rp))]
       else sync_mutation (ack_batch clock sds rs) rp = (Inl lease_lost, rp))"
proof -
  let ?st = "rp_sync rp"
  have single: "sync_mutation (fail_delivery cfg clock sd err now) rp = (Inl lease_lost, rp)"
    "sync_mutation (dead_letter clock sd err now) rp = (Inl lease_lost, rp)" if no: "\<not> holds_lease clock ?st sd"
  proof -
    obtain i where i: "delivery_index ?st sd = Some i" using no by (auto simp: holds_lease_def split: option.splits)
    show "sync_mutation (fail_delivery cfg clock sd err now) rp = (Inl lease_lost, rp)"
      "sync_mutation (dead_letter clock sd err now) rp = (Inl lease_lost, rp)"
      using code no by (simp_all add: sync_mutation_def fail_delivery_def dead_letter_def require_str_def i lease_required Let_def)
  qed
  have ack: "ack_batch clock sds rs ?st = bindR (ack_rows clock ?st sds) (\<lambda>is.
        Inr ((), fold (\<lambda>i st. set_row i (mark_delivered (sy_deliveries st ! i)) st) is ?st))"
    using receipts by (simp add: ack_batch_def)
  show ?thesis
  proof (cases "\<forall>sd \<in> set sds. \<forall>i. open_row ?st sd i \<longrightarrow> holds_lease clock ?st sd")
    case True
    then obtain "is" where "is": "ack_rows clock ?st sds = Inr is" "set is = {i. \<exists>sd \<in> set sds. open_row ?st sd i}"
      using ack_rows_granted [of sds ?st clock] by blast
    have "i < length (sy_deliveries ?st)" if "i \<in> set is" for i
      using that "is"(2) delivery_index_less by (auto simp: open_row_def)
    then have rows: "sy_deliveries (fold (\<lambda>i st. set_row i (mark_delivered (sy_deliveries st ! i)) st) is ?st) =
        map (\<lambda>i. if \<exists>sd \<in> set sds. open_row ?st sd i then mark_delivered (sy_deliveries ?st ! i) else sy_deliveries ?st ! i)
          [0..<length (sy_deliveries ?st)]"
      using fold_mark_delivered [of "is" ?st] unfolding "is"(2) mem_Collect_eq by blast
    have "sync_mutation (ack_batch clock sds rs) rp = (Inr (), rp\<lparr>rp_sync :=
        fold (\<lambda>i st. set_row i (mark_delivered (sy_deliveries st ! i)) st) is ?st\<rparr>)"
      by (simp add: sync_mutation_def ack "is"(1) del: bindR_Inr_iff)
    then show ?thesis using True single rows by (intro conjI impI) (simp_all, blast)
  next
    case False
    then obtain x i where "x \<in> set sds" "open_row ?st x i" "\<not> holds_lease clock ?st x" by blast
    from ack_rows_refused [OF this] show ?thesis
      using False single by (auto simp: sync_mutation_def ack)
  qed
qed

subsection \<open>Compaction\<close>

text \<open>
  C20: Compaction drops a prefix of the outbox, and only events older than the retention time
  that every enabled target waiting for them has received and that every remaining cursor and
  snapshot has passed; no other event is lost and the floor is the last dropped number.
\<close>
theorem compaction_is_safe:
  assumes reach: "lite_reachable cfg env rp" and cfg: "config_ok cfg"
    and run: "compact cfg now limit (rp_sync rp) = Inr (n, st')"
  shows "\<exists>gone. sy_outbox (rp_sync rp) = gone @ sy_outbox st' \<and> length gone = n
    \<and> (\<forall>r \<in> set gone. ob_created r \<le> now - seconds (cf_retention cfg)
        \<and> (\<forall>t \<in> set (sy_targets (rp_sync rp)). tg_enabled t \<and> tg_bootstrap t < ob_seq r \<longrightarrow>
              delivered_to (rp_sync rp) (ob_seq r) t)
        \<and> (\<forall>c \<in> set (sy_cursors st'). ob_seq r \<le> cr_after c)
        \<and> (\<forall>s \<in> set (sy_snapshots st'). ob_seq r \<le> ss_resume s))
    \<and> sy_floor st' = (if gone = [] then sy_floor (rp_sync rp) else ob_seq (last gone))"
proof -
  let ?out = "sy_outbox (rp_sync rp)"
  have ok: "sync_ok cfg (rp_sync rp)" using reach cfg by (rule lite_sync_ok)
  show ?thesis
    using ok run
  proof (cases rule: compact_shape)
    case 1
    have last: "n \<noteq> 0 \<Longrightarrow> last (take n ?out) = ?out ! (n - 1)"
      using 1(1) by (subst last_conv_nth) auto
    show ?thesis
    proof (intro exI [of _ "take n ?out"] conjI ballI)
      show "?out = take n ?out @ sy_outbox st'" by (simp add: 1(2))
      show "length (take n ?out) = n" using 1(1) by simp
      show "sy_floor st' = (if take n ?out = [] then sy_floor (rp_sync rp) else ob_seq (last (take n ?out)))"
        using 1(1) last by (auto simp: 1(2))
    next
      fix r assume r: "r \<in> set (take n ?out)"
      show "ob_created r \<le> now - seconds (cf_retention cfg)" using 1(3) [OF r] by simp
      show "ob_seq r \<le> cr_after c" if "c \<in> set (sy_cursors st')" for c using 1(4) [OF r] that by simp
      show "ob_seq r \<le> ss_resume s" if "s \<in> set (sy_snapshots st')" for s using 1(4) [OF r] that by simp
      show "tg_enabled t \<and> tg_bootstrap t < ob_seq r \<longrightarrow> delivered_to (rp_sync rp) (ob_seq r) t"
        if "t \<in> set (sy_targets (rp_sync rp))" for t
        using 1(3) [OF r] that by (auto simp: awaited_def)
    qed
  qed
qed

subsection \<open>A run\<close>

text \<open>Node a registers node b, captures one event and hands it out.\<close>

definition sample_config :: sync_config where
  "sample_config = \<lparr>cf_policy = \<lparr>cap_required = True, cap_node = cp ''node-a''\<rparr>, cf_max_pending = 100, cf_max_attempts = 8,
     cf_snapshot_ttl = 900, cf_max_items = 1000, cf_per_tenant = 2, cf_per_remote = 1, cf_consumer_ttl = 86400,
     cf_retention = 86400\<rparr>"

lemma cp_Nil [simp]: "cp s = [] \<longleftrightarrow> s = []"
  by (simp add: cp_def)

definition empty_business :: business where
  "empty_business = \<lparr>bz_functions = [], bz_facts = [], bz_preferences = [], bz_observations = [],
     bz_paragraphs = [], bz_edges = [], bz_index = [], bz_names = []\<rparr>"

definition sample_delivery :: delivery where
  "sample_delivery = new_delivery (cp ''node-b'') 1 0"

definition sample_target :: target_row where
  "sample_target = \<lparr>tg_id = cp ''node-b'', tg_node = cp ''node-b'', tg_bootstrap = 0, tg_enabled = True\<rparr>"

definition sample_row :: outbox_row where
  "sample_row = \<lparr>ob_seq = 1, ob_event = sample_event, ob_created = 0\<rparr>"

definition sample_sync :: sync_state where
  "sample_sync = empty_sync\<lparr>sy_binding := Some (cp ''node-a''), sy_outbox := [sample_row],
     sy_versions := [new_version sample_event 1], sy_targets := [sample_target],
     sy_deliveries := [sample_delivery], sy_next := 2\<rparr>"

definition sample_repo :: "business repo" where
  "sample_repo = \<lparr>rp_sync = sample_sync, rp_business = empty_business, rp_ids = Some [sample_uuid],
     rp_positions = Some ([(event_entity sample_event, 0)], 1)\<rparr>"

lemma sample_config_ok: "config_ok sample_config"
  by (simp add: config_ok_def sample_config_def)

lemma sample_register:
  "snd (sync_mutation (register_target sample_config 0 (cp ''node-b'') (cp ''future'')) (empty_repo empty_business)) =
    (empty_repo empty_business)\<lparr>rp_sync := empty_sync\<lparr>sy_targets := [sample_target]\<rparr>\<rparr>"
  by (simp add: sync_mutation_def register_target_def empty_repo_def require_str_def local_node_def sample_config_def
      cp_inj find_target_def assert_quota_def active_deliveries_def empty_sync_def sample_target_def Let_def)

lemma sample_event_simps [simp]:
  "ev_id sample_event = sample_uuid" "ev_origin sample_event = cp ''node-a''" "ev_scope sample_event = sample_scope"
  "ev_version sample_event = sample_version" "sc_tenant sample_scope = cp ''node-a''" "occurred_at sample_version = 0"
  by (simp_all add: sample_event_def sample_scope_def sample_version_def)

lemma sample_capture:
  "snd (mutation (\<lambda>rp. capture_local_event sample_config sample_event (rp\<lparr>rp_business := empty_business\<rparr>))
      ((empty_repo empty_business)\<lparr>rp_sync := empty_sync\<lparr>sy_targets := [sample_target]\<rparr>\<rparr>)) = sample_repo"
  by (simp add: mutation_def capture_local_event_def append_event_def empty_repo_def require_str_def local_node_def
      sample_config_def cp_inj bind_tenant_def current_ids_def outbox_ids_def enabled_targets_def sample_target_def
      assert_quota_def active_deliveries_def current_positions_def index_entities_def version_entities_def empty_sync_def
      push_event_def sample_repo_def sample_sync_def sample_row_def sample_delivery_def Let_def)

lemma sample_reachable: "lite_reachable sample_config env sample_repo"
proof -
  have "lite_reachable sample_config env ((empty_repo empty_business)\<lparr>rp_sync := empty_sync\<lparr>sy_targets := [sample_target]\<rparr>\<rparr>)"
    using reach_step [OF reach_empty step_register] sample_register by metis
  from reach_step [OF this step_capture] show ?thesis using sample_capture by metis
qed

theorem reachable_repository_ok_witness: "sync_ok sample_config sample_sync"
  using reachable_repository_ok [OF sample_reachable sample_config_ok] by (simp add: sample_repo_def)

theorem cached_append_is_scan_witness:
  "append_ref sample_config sample_event sample_sync = Inl (ValueErr ''event_id already exists'')"
proof -
  have "append_event sample_config sample_event sample_repo = (Inl (ValueErr ''event_id already exists''), sample_repo)"
    by (simp add: append_event_def sample_repo_def sample_sync_def empty_sync_def bind_tenant_def require_str_def cp_inj
        current_ids_def Let_def)
  from cached_append_is_scan [OF sample_reachable sample_config_ok this] show ?thesis by (simp add: sample_repo_def)
qed

definition sample_claim :: sync_delivery where
  "sample_claim = \<lparr>sd_target = cp ''node-b'', sd_event = sample_event, sd_attempt = 1, sd_lease = cp ''lease'', sd_expires = 30000010\<rparr>"

definition leased_sync :: sync_state where
  "leased_sync = sample_sync\<lparr>sy_deliveries := [lease_row (cp ''lease'') 30000010 sample_delivery]\<rparr>"

lemma sample_claimed:
  "claim sample_config (\<lambda>_. cp ''lease'') 10 (cp ''node-b'') 5 30 sample_sync = Inr ([sample_claim], leased_sync)"
  by (simp add: claim_def require_str_def require_int_def cp_inj find_target_def sample_sync_def sample_target_def
      expire_lease_def claimable_def is_due_def sample_delivery_def new_delivery_def sample_config_def local_node_def
      outbox_row_of_def sample_row_def claimed_delivery_def sample_claim_def leased_sync_def Let_def empty_sync_def)

theorem claim_is_exclusive_witness:
  "(1 :: int) \<le> 5 \<and> require_active_lease 10 (sy_deliveries leased_sync ! 0) sample_claim = Inr ()"
  using claim_is_exclusive [OF sample_claimed] by (simp add: sample_sync_def)

definition leased_repo :: "business repo" where
  "leased_repo = sample_repo\<lparr>rp_sync := leased_sync\<rparr>"

definition sample_receipt :: sync_receipt where
  "sample_receipt = \<lparr>rc_event = sample_uuid, rc_outcome = cp ''accepted''\<rparr>"

lemma sample_index: "delivery_index leased_sync sample_claim = Some 0"
  by (simp add: delivery_index_def leased_sync_def sample_claim_def sample_sync_def lease_row_def sample_delivery_def
      new_delivery_def outbox_row_of_def sample_row_def Let_def)

theorem settling_needs_the_lease_witness:
  "sync_mutation (fail_delivery sample_config 30000010 sample_claim (cp ''late'') 0) leased_repo = (Inl lease_lost, leased_repo)
    \<and> sync_mutation (ack_batch 30000010 [sample_claim] [sample_receipt]) leased_repo = (Inl lease_lost, leased_repo)
    \<and> (\<exists>st'. sync_mutation (ack_batch 20 [sample_claim] [sample_receipt]) leased_repo = (Inr (), leased_repo\<lparr>rp_sync := st'\<rparr>)
        \<and> dv_state (sy_deliveries st' ! 0) = Delivered)"
proof -
  have row: "sy_deliveries leased_sync = [lease_row (cp ''lease'') 30000010 sample_delivery]" "rp_sync leased_repo = leased_sync"
    by (simp_all add: leased_sync_def leased_repo_def)
  have claim_lease: "sd_lease sample_claim = cp ''lease''" by (simp add: sample_claim_def)
  have late: "\<not> holds_lease 30000010 leased_sync sample_claim"
    and soon: "holds_lease 20 leased_sync sample_claim" and opened: "open_row leased_sync sample_claim 0"
    by (simp_all add: holds_lease_def open_row_def sample_index row active_lease_def lease_row_def claim_lease)
  have receipts: "length [sample_claim] = length [sample_receipt]" "distinct (map rc_event [sample_receipt])"
    "set (map rc_event [sample_receipt]) = set (map (ev_id \<circ> sd_event) [sample_claim])"
    by (simp_all add: sample_receipt_def sample_claim_def)
  have err: "cp ''late'' \<noteq> []" by simp
  have "\<not> (\<forall>sd \<in> set [sample_claim]. \<forall>i. open_row leased_sync sd i \<longrightarrow> holds_lease 30000010 leased_sync sd)"
    using late opened by auto
  moreover have "\<forall>sd \<in> set [sample_claim]. \<forall>i. open_row leased_sync sd i \<longrightarrow> holds_lease 20 leased_sync sd"
    using soon by simp
  ultimately show ?thesis
    using settling_needs_the_lease [OF err receipts, of 30000010 leased_repo sample_claim sample_config 0]
      settling_needs_the_lease [OF err receipts, of 20 leased_repo sample_claim sample_config 0] late opened
    by (auto simp: row mark_delivered_def)
qed

text \<open>A node without targets keeps its event only for the retention time.\<close>

definition lone_sync :: sync_state where
  "lone_sync = empty_sync\<lparr>sy_binding := Some (cp ''node-a''), sy_outbox := [sample_row],
     sy_versions := [new_version sample_event 1], sy_next := 2\<rparr>"

definition lone_repo :: "business repo" where
  "lone_repo = sample_repo\<lparr>rp_sync := lone_sync\<rparr>"

lemma lone_reachable: "lite_reachable sample_config env lone_repo"
proof -
  have "snd (mutation (\<lambda>rp. capture_local_event sample_config sample_event (rp\<lparr>rp_business := empty_business\<rparr>))
      (empty_repo empty_business)) = lone_repo"
    by (simp add: mutation_def capture_local_event_def append_event_def empty_repo_def require_str_def local_node_def
      sample_config_def bind_tenant_def current_ids_def outbox_ids_def enabled_targets_def
      assert_quota_def active_deliveries_def current_positions_def index_entities_def version_entities_def empty_sync_def
      push_event_def lone_repo_def sample_repo_def lone_sync_def sample_row_def Let_def)
  then show ?thesis using reach_step [OF reach_empty step_capture] by metis
qed

theorem compaction_is_safe_witness: "\<exists>gone. sy_outbox lone_sync = gone @ [] \<and> length gone = 1"
proof -
  let ?st = "lone_sync\<lparr>sy_outbox := [], sy_floor := 1, sy_compacted := 1\<rparr>"
  have "compact sample_config 86400000000 10 (rp_sync lone_repo) = Inr (1, ?st)"
    by (simp add: compact_def require_int_def lone_repo_def lone_sync_def sample_row_def cleanup_snapshots_def
        drop_stale_def sample_config_def empty_sync_def awaited_def Let_def)
  from compaction_is_safe [OF lone_reachable sample_config_ok this] show ?thesis
    by (auto simp: lone_repo_def)
qed

end
