(* ===== verification/Lite_Convergence.thy ===== *)
theory Lite_Convergence
  imports Lite_Sync_Facts
begin

section \<open>Applied events converge\<close>

text \<open>
  The contract of replication, in two steps.  A repository, with its caches and stream,
  refines an abstract replica: a last-writer-wins register per entity, and the outcome of
  every event received so far.  And over whole runs, in which a node writes, receives batches
  and pages, fails, settles deliveries, serves pages, compacts and restarts, the register only
  depends on the set of events the node holds; so two nodes that hold the same events agree.
\<close>

subsection \<open>The register\<close>

type_synonym register = "entity \<Rightarrow> (sync_version \<times> bool) option"

definition entry_of :: "sync_event \<Rightarrow> sync_version \<times> bool" where
  "entry_of e = (ev_version e, ev_operation e = Tombstone)"

definition lww_write :: "sync_event \<Rightarrow> register \<Rightarrow> register" where
  "lww_write e m = (case m (event_entity e) of
       None \<Rightarrow> m(event_entity e \<mapsto> entry_of e)
     | Some (v, d) \<Rightarrow> if ev_version e \<le> v then m else m(event_entity e \<mapsto> entry_of e))"

definition version_view :: "sync_state \<Rightarrow> register" where
  "version_view st k = map_option (\<lambda>r. (vr_version r, vr_deleted r)) (entity_version st k)"

text \<open>The register holds the event or a later write.\<close>

definition covers :: "register \<Rightarrow> sync_event \<Rightarrow> bool" where
  "covers m e = (case m (event_entity e) of None \<Rightarrow> False | Some (v, d) \<Rightarrow> ev_version e \<le> v)"

lemma lww_write_covered: "covers m e \<Longrightarrow> lww_write e m = m"
  by (auto simp: covers_def lww_write_def split: option.splits)

lemma covers_write: "covers (lww_write e m) e"
  by (auto simp: covers_def lww_write_def entry_of_def split: option.splits)

lemma covers_mono: "covers m e \<Longrightarrow> covers (lww_write e' m) e"
  by (auto simp: covers_def lww_write_def entry_of_def split: option.splits)

text \<open>Events in play: an origin and an id name one event, and a version names its writer.\<close>

definition coherent :: "sync_event set \<Rightarrow> bool" where
  "coherent U = ((\<forall>e \<in> U. version_origin (ev_version e) = ev_origin e \<and> version_event (ev_version e) = ev_id e)
     \<and> (\<forall>e \<in> U. \<forall>e' \<in> U. ev_origin e = ev_origin e' \<and> ev_id e = ev_id e' \<longrightarrow> e = e'))"

lemma coherent_id: "coherent U \<Longrightarrow> e \<in> U \<Longrightarrow> e' \<in> U \<Longrightarrow> ev_origin e = ev_origin e' \<Longrightarrow> ev_id e = ev_id e' \<Longrightarrow> e = e'"
  by (simp add: coherent_def)

lemma coherent_version: "coherent U \<Longrightarrow> e \<in> U \<Longrightarrow> e' \<in> U \<Longrightarrow> ev_version e = ev_version e' \<Longrightarrow> e = e'"
  unfolding coherent_def by metis

text \<open>The protocol makes every version name its writer; the ids are the writer's business.\<close>

lemma protocol_coherent:
  assumes "\<forall>e \<in> U. event_ok e"
    and "\<forall>e \<in> U. \<forall>e' \<in> U. ev_origin e = ev_origin e' \<and> ev_id e = ev_id e' \<longrightarrow> e = e'"
  shows "coherent U"
  using assms by (simp add: coherent_def event_ok_def)

lemma lww_commute:
  assumes "coherent U" "e \<in> U" "e' \<in> U"
  shows "lww_write e (lww_write e' m) = lww_write e' (lww_write e m)"
proof (cases "event_entity e = event_entity e' \<and> e \<noteq> e'")
  case True
  then have "ev_version e \<noteq> ev_version e'" using coherent_version [OF assms] by blast
  then show ?thesis
    using True by (auto simp: lww_write_def entry_of_def fun_eq_iff split: option.splits)
next
  case False
  then show ?thesis by (auto simp: lww_write_def fun_eq_iff split: option.splits)
qed

lemma lww_idem: "lww_write e (lww_write e m) = lww_write e m"
  by (rule lww_write_covered [OF covers_write])

text \<open>The register after a list of writes depends on their set alone.\<close>

lemma lww_fold_set:
  assumes "coherent U" "set es \<subseteq> U" "set es' = set es"
  shows "fold lww_write es m = fold lww_write es' m"
proof -
  have idem: "comp_fun_idem_on U lww_write"
    using assms(1) by unfold_locales (auto simp: fun_eq_iff lww_commute lww_idem)
  have "fold lww_write xs m = Finite_Set.fold lww_write m (set es)" if "set xs = set es" for xs
    using comp_fun_idem_on.fold_set_fold [OF idem, of xs m] that assms(2) by simp
  then show ?thesis using assms(3) by simp
qed

subsection \<open>The repository refines the register\<close>

lemma find_append: "find P (xs @ ys) = (case find P xs of None \<Rightarrow> find P ys | Some x \<Rightarrow> Some x)"
  by (induction xs) auto

lemma find_put_version_other:
  "k \<noteq> event_entity e \<Longrightarrow> find (\<lambda>r. vr_entity r = k) (put_version e n rows) = find (\<lambda>r. vr_entity r = k) rows"
proof -
  assume "k \<noteq> event_entity e"
  then have "find (\<lambda>r. vr_entity r = k) (map (\<lambda>r. if vr_entity r = event_entity e then new_version e n else r) rows) =
      find (\<lambda>r. vr_entity r = k) rows"
    by (induction rows) (auto simp: new_version_def)
  then show ?thesis
    using \<open>k \<noteq> event_entity e\<close> by (auto simp: put_version_def find_append new_version_def split: option.split)
qed

lemma find_put_version_same:
  "find (\<lambda>r. vr_entity r = event_entity e) (put_version e n rows) = Some (new_version e n)"
proof (cases "event_entity e \<in> vr_entity ` set rows")
  case True
  then have "find (\<lambda>r. vr_entity r = event_entity e)
      (map (\<lambda>r. if vr_entity r = event_entity e then new_version e n else r) rows) = Some (new_version e n)"
    by (induction rows) (auto simp: new_version_def)
  then show ?thesis using True by (simp add: put_version_def)
next
  case False
  then have "find (\<lambda>r. vr_entity r = event_entity e) rows = None" unfolding find_None_iff by (metis image_eqI)
  then show ?thesis using False by (simp add: put_version_def find_append new_version_def)
qed

lemma append_ref_view:
  assumes "append_ref cfg e st = Inr (n, st')"
  shows "version_view st' = (version_view st)(event_entity e \<mapsto> entry_of e)"
proof -
  obtain st1 where bind: "bind_tenant (sc_tenant (ev_scope e)) st = Inr st1" and n: "n = sy_next st1"
    and push: "st' = push_event e (sy_next st1) (put_version e (sy_next st1) (sy_versions st1)) st1"
    using assms by (auto simp: append_ref_def split: if_splits)
  have st1: "sy_versions st1 = sy_versions st" using bind_tenant_frame [OF bind] by simp
  have st': "sy_versions st' = put_version e n (sy_versions st1)" by (simp add: push push_event_def n)
  show ?thesis
  proof
    fix k
    show "version_view st' k = ((version_view st)(event_entity e \<mapsto> entry_of e)) k"
      by (cases "k = event_entity e")
        (simp_all add: version_view_def entity_version_def st' st1 find_put_version_same find_put_version_other,
         simp add: new_version_def entry_of_def)
  qed
qed

lemma superseded_covers: "superseded st e = covers (version_view st) e"
  by (auto simp: superseded_def covers_def version_view_def split: option.split)

text \<open>
  The abstract replica: the register, and what was answered for every origin and event id
  received.  A known event is answered from memory and changes nothing; an unknown one that
  the register covers is a conflict; any other is written.
\<close>

type_synonym replica = "register \<times> (ustring \<times> ustring \<Rightarrow> ustring option)"

definition event_name :: "sync_event \<Rightarrow> ustring \<times> ustring" where
  "event_name e = (ev_origin e, ev_id e)"

fun receive :: "sync_event \<Rightarrow> replica \<Rightarrow> outcome \<times> replica" where
  "receive e (m, seen) = (case seen (event_name e) of
       Some w \<Rightarrow> (if w = outcome_text Conflict then Conflict else Duplicate, m, seen)
     | None \<Rightarrow> if covers m e then (Conflict, m, seen(event_name e \<mapsto> outcome_text Conflict))
         else (Accepted, m(event_entity e \<mapsto> entry_of e), seen(event_name e \<mapsto> outcome_text Accepted)))"

fun receive_all :: "sync_event list \<Rightarrow> replica \<Rightarrow> outcome list \<times> replica" where
  "receive_all [] r = ([], r)"
| "receive_all (e # es) r =
     (let (x, r') = receive e r; (xs, r'') = receive_all es r' in (x # xs, r''))"

definition replica_of :: "sync_state \<Rightarrow> replica" where
  "replica_of st = (version_view st,
     \<lambda>(origin, i). map_option ib_outcome (find (\<lambda>r. ib_origin r = origin \<and> ib_event r = i) (sy_inbox st)))"

lemma replica_of_same:
  "sy_versions st' = sy_versions st \<Longrightarrow> sy_inbox st' = sy_inbox st \<Longrightarrow> replica_of st' = replica_of st"
  by (simp add: replica_of_def version_view_def entity_version_def fun_eq_iff)

lemma replica_seen: "snd (replica_of st) (event_name e) = map_option ib_outcome (find_inbox st e)"
  by (simp add: replica_of_def event_name_def find_inbox_def)

lemma view_push_inbox [simp]: "version_view (push_inbox e w n st) = version_view st"
  by (simp add: version_view_def entity_version_def push_inbox_def fun_eq_iff)

lemma replica_push:
  assumes "find_inbox st e = None"
  shows "replica_of (push_inbox e w n st) = (version_view st, (snd (replica_of st))(event_name e \<mapsto> w))"
proof -
  have "find (\<lambda>r. ib_origin r = ev_origin e \<and> ib_event r = ev_id e) (sy_inbox st) = None"
    using assms by (simp add: find_inbox_def)
  then show ?thesis
    by (auto simp: replica_of_def push_inbox_def version_view_def entity_version_def event_name_def fun_eq_iff
        find_append split: option.split)
qed

lemma apply_event_refines:
  assumes ok: "repo_ok cfg rp" and run: "apply_event cfg ab e tombs rp = (Inr (x, tombs'), rp')"
  shows "receive e (replica_of (rp_sync rp)) = (x, replica_of (rp_sync rp'))"
proof -
  obtain m seen where r: "replica_of (rp_sync rp) = (m, seen)" by (cases "replica_of (rp_sync rp)")
  have m: "m = version_view (rp_sync rp)" using r by (simp add: replica_of_def)
  have seen: "seen (event_name e) = map_option ib_outcome (find_inbox (rp_sync rp) e)"
    using replica_seen [of "rp_sync rp" e] by (simp add: r)
  show ?thesis
  proof (cases "find_inbox (rp_sync rp) e")
    case (Some row)
    then have "rp' = rp" "x = (if ib_outcome row = outcome_text Conflict then Conflict else Duplicate)"
      using run by (auto simp: apply_event_def)
    then show ?thesis using Some seen by (simp add: r)
  next
    case None
    note push = replica_push [OF None]
    show ?thesis
    proof (cases "superseded (rp_sync rp) e")
      case True
      then have "x = Conflict" "rp_sync rp' = push_inbox e (outcome_text Conflict) None (rp_sync rp)"
        using run None by (auto simp: apply_event_def)
      then show ?thesis using True None seen m r push by (simp add: superseded_covers)
    next
      case False
      obtain b n rp1 where ab: "ab e tombs (rp_business rp) = Inr (tombs', b)"
        and app: "append_event cfg e (rp\<lparr>rp_business := b\<rparr>) = (Inr n, rp1)" and x: "x = Accepted"
        and rp': "rp_sync rp' = push_inbox e (outcome_text Accepted) (Some n) (rp_sync rp1)"
        using run None False by (auto simp: apply_event_def split: sum.splits prod.splits)
      have ok': "repo_ok cfg (rp\<lparr>rp_business := b\<rparr>)" by (rule repo_ok_business [OF ok])
      have "append_ref cfg e (rp_sync rp) = Inr (n, rp_sync rp1)"
        using append_event_ref [OF _ _ _ app] ok' sync_ok_distinct unfolding repo_ok_def by fastforce
      from append_ref_view [OF this] have view: "version_view (rp_sync rp1) = m(event_entity e \<mapsto> entry_of e)"
        by (simp add: m)
      have inbox: "sy_inbox (rp_sync rp1) = sy_inbox (rp_sync rp)" using append_event_inbox [OF ok' app] by simp
      have "find_inbox (rp_sync rp1) e = None" using None inbox by (simp add: find_inbox_def)
      moreover have "snd (replica_of (rp_sync rp1)) = seen" using r inbox by (simp add: replica_of_def)
      ultimately show ?thesis
        using False seen m None by (simp add: r x rp' replica_push view superseded_covers)
    qed
  qed
qed

lemma apply_events_refines:
  assumes cfg: "config_ok cfg"
  shows "repo_ok cfg rp \<Longrightarrow> apply_events cfg ab es tombs rp = (Inr xs, rp') \<Longrightarrow>
    receive_all es (replica_of (rp_sync rp)) = (xs, replica_of (rp_sync rp'))"
proof (induction es arbitrary: tombs rp xs)
  case (Cons e es)
  obtain x tombs1 rp1 xs1 where first: "apply_event cfg ab e tombs rp = (Inr (x, tombs1), rp1)"
    and rest: "apply_events cfg ab es tombs1 rp1 = (Inr xs1, rp')" and xs: "xs = x # xs1"
    using Cons.prems by (auto split: sum.splits prod.splits)
  have "repo_ok cfg rp1"
    using apply_event_run_ok [OF cfg Cons.prems(1), of ab e tombs] first run_ok_repo by metis
  then show ?case
    using Cons.IH [OF _ rest] apply_event_refines [OF Cons.prems(1) first] by (simp add: xs)
qed simp

text \<open>
  C2: applying remote events refines the abstract replica.  From every reachable repository, a
  successful run over any events, redelivered, late or conflicting ones included, answers each
  event as the replica does, and leaves the versions, the tombstone marks and the remembered
  outcomes that the replica is left with.  No condition is put on the events.
\<close>
theorem apply_events_is_lww:
  assumes "lite_reachable cfg env rp" "config_ok cfg"
    and "apply_events cfg (lite_apply env) es tombs rp = (Inr xs, rp')"
  shows "receive_all es (replica_of (rp_sync rp)) = (xs, replica_of (rp_sync rp'))"
  by (rule apply_events_refines [OF assms(2) lite.reachable_ok [OF assms(1,2)] assms(3)])

subsection \<open>What a replica remembers\<close>

text \<open>The register covers every event that was received under its name.\<close>

definition covered :: "sync_event set \<Rightarrow> replica \<Rightarrow> bool" where
  "covered U r = (\<forall>e \<in> U. snd r (event_name e) \<noteq> None \<longrightarrow> covers (fst r) e)"

lemma covered_mono:
  "covered U (m, seen) \<Longrightarrow> covered U (lww_write e m, seen)"
  by (auto simp: covered_def covers_mono)

lemma not_covered_write: "\<not> covers m e \<Longrightarrow> m(event_entity e \<mapsto> entry_of e) = lww_write e m"
  by (auto simp: covers_def lww_write_def split: option.splits)

lemma covered_write:
  assumes U: "coherent U" "e \<in> U" and cov: "covered U (m, seen)"
  shows "covered U (lww_write e m, seen(event_name e \<mapsto> w))"
  unfolding covered_def
proof (intro ballI impI)
  fix e' assume e': "e' \<in> U" and seen': "snd (lww_write e m, seen(event_name e \<mapsto> w)) (event_name e') \<noteq> None"
  show "covers (fst (lww_write e m, seen(event_name e \<mapsto> w))) e'"
  proof (cases "event_name e' = event_name e")
    case True
    then have "e' = e" using coherent_id [OF U(1) e' U(2)] by (simp add: event_name_def)
    then show ?thesis by (simp add: covers_write)
  next
    case False
    then have "covers m e'" using seen' cov e' by (simp add: covered_def)
    then show ?thesis by (simp add: covers_mono)
  qed
qed

lemma receive_lww:
  assumes U: "coherent U" "e \<in> U" and cov: "covered U r"
  shows "fst (snd (receive e r)) = lww_write e (fst r) \<and> covered U (snd (receive e r))"
proof -
  obtain m seen where r: "r = (m, seen)" by (cases r)
  show ?thesis
  proof (cases "seen (event_name e)")
    case (Some w)
    then have "covers m e" using cov U(2) by (simp add: covered_def r)
    then show ?thesis using cov Some by (simp add: r lww_write_covered)
  next
    case None
    then show ?thesis
      using covered_write [OF U cov [unfolded r]] by (simp add: r not_covered_write lww_write_covered) (metis lww_write_covered)
  qed
qed

lemma receive_all_lww:
  assumes U: "coherent U"
  shows "set es \<subseteq> U \<Longrightarrow> covered U r \<Longrightarrow>
    fst (snd (receive_all es r)) = fold lww_write es (fst r) \<and> covered U (snd (receive_all es r))"
proof (induction es arbitrary: r)
  case (Cons e es)
  have "fst (snd (receive e r)) = lww_write e (fst r)" "covered U (snd (receive e r))"
    using receive_lww [OF U _ Cons.prems(2), of e] Cons.prems(1) by auto
  then show ?case using Cons.IH [of "snd (receive e r)"] Cons.prems(1) by (simp add: split_beta)
qed simp

subsection \<open>Runs of a node\<close>

text \<open>The events that a batch or a page brings: none when it is known or behind the confirmed position.\<close>

definition batch_news :: "sync_batch \<Rightarrow> business repo \<Rightarrow> sync_event list" where
  "batch_news bt rp = (if bt_id bt \<in> bx_id ` set (sy_batches (rp_sync rp)) then [] else bt_events bt)"

definition page_news :: "sync_config \<Rightarrow> ustring \<Rightarrow> sync_page \<Rightarrow> business repo \<Rightarrow> sync_event list" where
  "page_news cfg remote p rp =
     (if pg_next p \<le> (case find_cursor remote (local_node cfg) (sy_inbound (rp_sync rp)) of
         None \<Rightarrow> 0 | Some c \<Rightarrow> cr_after c) then [] else map snd (pg_items p))"

text \<open>
  One operation of a node, with the events it adds to those the node holds.  A local write is
  dated by a clock that is not behind the version it replaces; without that condition replicas
  diverge (\<open>local_capture_can_regress\<close>).
\<close>

inductive replica_step :: "sync_config \<Rightarrow> lite_env \<Rightarrow> business repo \<Rightarrow> sync_event list \<Rightarrow> business repo \<Rightarrow> bool"
  for cfg env rp where
  own_write: "mutation (\<lambda>rp. capture_local_event cfg e (rp\<lparr>rp_business := b\<rparr>)) rp = (Inr (Some n), rp') \<Longrightarrow>
    \<not> superseded (rp_sync rp) e \<Longrightarrow> replica_step cfg env rp [e] rp'"
| no_capture: "mutation (\<lambda>rp. capture_local_event cfg e (rp\<lparr>rp_business := b\<rparr>)) rp = (Inr None, rp') \<Longrightarrow>
    replica_step cfg env rp [] rp'"
| failed_write: "mutation (\<lambda>rp. capture_local_event cfg e (rp\<lparr>rp_business := b\<rparr>)) rp = (Inl err, rp') \<Longrightarrow>
    replica_step cfg env rp [] rp'"
| batch_in: "apply_batch cfg (lite_apply env) now digest bt rp = (Inr res, rp') \<Longrightarrow>
    replica_step cfg env rp (batch_news bt rp) rp'"
| failed_batch: "apply_batch cfg (lite_apply env) now digest bt rp = (Inl err, rp') \<Longrightarrow> replica_step cfg env rp [] rp'"
| page_in: "apply_page cfg (lite_apply env) now remote p rp = (Inr out, rp') \<Longrightarrow>
    replica_step cfg env rp (page_news cfg remote p rp) rp'"
| failed_page: "apply_page cfg (lite_apply env) now remote p rp = (Inl err, rp') \<Longrightarrow> replica_step cfg env rp [] rp'"
| registers: "replica_step cfg env rp [] (snd (sync_mutation (register_target cfg now target bootstrap) rp))"
| claims: "replica_step cfg env rp [] (snd (sync_mutation (claim cfg fresh now target limit secs) rp))"
| acknowledges: "replica_step cfg env rp [] (snd (sync_mutation (ack_batch now sds receipts) rp))"
| fails: "replica_step cfg env rp [] (snd (sync_mutation (fail_delivery cfg clock sd code now) rp))"
| buries: "replica_step cfg env rp [] (snd (sync_mutation (dead_letter clock sd code now) rp))"
| replays: "replica_step cfg env rp [] (snd (sync_mutation (replay_dead_letter now target eid) rp))"
| enables: "replica_step cfg env rp [] (snd (sync_mutation (set_target_enabled target on) rp))"
| serves_page: "replica_step cfg env rp [] (snd (sync_mutation (read_page now remote consumer cursor limit) rp))"
| snapshots: "replica_step cfg env rp []
    (snd (sync_mutation (create_snapshot cfg (lite_current cfg env (rp_business rp)) sid now remote consumer request limit) rp))"
| serves_snapshot: "replica_step cfg env rp [] (snd (sync_mutation (read_snapshot_page now remote consumer cl limit) rp))"
| compacts: "replica_step cfg env rp [] (snd (sync_mutation (compact cfg now limit) rp))"
| restarts: "replica_step cfg env rp [] (rp\<lparr>rp_ids := None, rp_positions := None\<rparr>)"

inductive replica_run :: "sync_config \<Rightarrow> lite_env \<Rightarrow> sync_event list \<Rightarrow> business repo \<Rightarrow> bool"
  for cfg env where
  fresh_replica: "replica_run cfg env [] (empty_repo b)"
| replica_does: "replica_run cfg env es rp \<Longrightarrow> replica_step cfg env rp new rp' \<Longrightarrow> replica_run cfg env (es @ new) rp'"

text \<open>Every operation is one of the repository's, and every repository operation is listed.\<close>

lemma replica_step_is_sync:
  "replica_step cfg env rp new rp' \<Longrightarrow> sync_step cfg (lite_apply env) (lite_current cfg env) rp rp'"
proof (induction rule: replica_step.induct)
  case (own_write e b n rp') then show ?case using step_capture [of cfg "lite_apply env" "lite_current cfg env" rp e b] by simp
next
  case (no_capture e b rp') then show ?case using step_capture [of cfg "lite_apply env" "lite_current cfg env" rp e b] by simp
next
  case (failed_write e b err rp') then show ?case using step_capture [of cfg "lite_apply env" "lite_current cfg env" rp e b] by simp
next
  case (batch_in now digest bt res rp')
  then show ?case using step_batch [of cfg "lite_apply env" "lite_current cfg env" rp now digest bt] by simp
next
  case (failed_batch now digest bt err rp')
  then show ?case using step_batch [of cfg "lite_apply env" "lite_current cfg env" rp now digest bt] by simp
next
  case (page_in now remote p out rp')
  then show ?case using step_apply [of cfg "lite_apply env" "lite_current cfg env" rp now remote p] by simp
next
  case (failed_page now remote p err rp')
  then show ?case using step_apply [of cfg "lite_apply env" "lite_current cfg env" rp now remote p] by simp
qed (rule sync_step.intros)+

lemma sync_is_replica_step:
  assumes "sync_step cfg (lite_apply env) (lite_current cfg env) rp rp'"
    and clock: "\<And>e b n. mutation (\<lambda>rp. capture_local_event cfg e (rp\<lparr>rp_business := b\<rparr>)) rp = (Inr (Some n), rp') \<Longrightarrow>
      \<not> superseded (rp_sync rp) e"
  shows "\<exists>new. replica_step cfg env rp new rp'"
  using assms(1)
proof (cases rule: sync_step.cases)
  case (step_capture e b)
  obtain r where r: "mutation (\<lambda>rp. capture_local_event cfg e (rp\<lparr>rp_business := b\<rparr>)) rp = (r, rp')"
    by (metis prod.collapse step_capture)
  consider (wrote) n where "r = Inr (Some n)" | (none) "r = Inr None" | (failed) err where "r = Inl err"
    by (cases r) (metis, metis not_Some_eq)
  then show ?thesis
  proof cases
    case wrote then show ?thesis using own_write [of cfg e b rp n rp' env] r clock by blast
  next
    case none then show ?thesis using no_capture [of cfg e b rp rp' env] r by blast
  next
    case failed then show ?thesis using failed_write [of cfg e b rp err rp' env] r by blast
  qed
next
  case (step_batch now digest bt)
  obtain r where r: "apply_batch cfg (lite_apply env) now digest bt rp = (r, rp')" by (metis prod.collapse step_batch)
  then show ?thesis using batch_in [of cfg env now digest bt rp _ rp'] failed_batch [of cfg env now digest bt rp _ rp'] by (cases r) blast+
next
  case (step_apply now remote p)
  obtain r where r: "apply_page cfg (lite_apply env) now remote p rp = (r, rp')" by (metis prod.collapse step_apply)
  then show ?thesis using page_in [of cfg env now remote p rp _ rp'] failed_page [of cfg env now remote p rp _ rp'] by (cases r) blast+
qed (blast intro: replica_step.intros)+

subsection \<open>What an operation does to the replica\<close>

lemma mutation_Inr: "mutation f rp = (Inr x, rp') \<longleftrightarrow> f rp = (Inr x, rp')"
  by (auto simp: mutation_def split: prod.splits sum.splits)

lemma mutation_Inl: "mutation f rp = (Inl err, rp') \<Longrightarrow> rp_sync rp' = rp_sync rp"
  by (auto simp: mutation_def split: prod.splits sum.splits)

lemma settles_replica: "settles st st' \<Longrightarrow> replica_of st' = replica_of st"
  unfolding settles_def by (intro replica_of_same) simp_all

lemma quiet_mutation:
  assumes "\<And>x st'. f (rp_sync rp) = Inr (x, st') \<Longrightarrow> settles (rp_sync rp) st'"
  shows "replica_of (rp_sync (snd (sync_mutation f rp))) = replica_of (rp_sync rp)"
  using assms by (auto simp: sync_mutation_def settles_replica split: sum.split)

lemma bind_replica: "bind_tenant t st = Inr st' \<Longrightarrow> replica_of st' = replica_of st"
proof -
  assume "bind_tenant t st = Inr st'"
  from bind_tenant_frame [OF this] have "st' = st\<lparr>sy_binding := Some t\<rparr>" by blast
  then show ?thesis by (intro replica_of_same) simp_all
qed

lemma apply_batch_replica:
  assumes cfg: "config_ok cfg" and ok: "repo_ok cfg rp"
    and run: "apply_batch cfg (lite_apply env) now digest bt rp = (Inr res, rp')"
  shows "replica_of (rp_sync rp') = snd (receive_all (batch_news bt rp) (replica_of (rp_sync rp)))"
proof -
  obtain st where st: "bind_tenant (sc_tenant (ev_scope (hd (bt_events bt)))) (rp_sync rp) = Inr st"
    using run by (auto simp: apply_batch_def mutation_Inr apply_batch_body_def split: sum.splits)
  let ?rp = "rp\<lparr>rp_sync := st\<rparr>"
  have ok': "repo_ok cfg ?rp" by (rule bind_tenant_repo [OF ok st])
  have bound: "replica_of st = replica_of (rp_sync rp)" by (rule bind_replica [OF st])
  have batches: "sy_batches st = sy_batches (rp_sync rp)" using bind_tenant_frame [OF st] by simp
  show ?thesis
  proof (cases "find (\<lambda>r. bx_id r = bt_id bt) (sy_batches st)")
    case (Some row)
    then have "bt_id bt \<in> bx_id ` set (sy_batches (rp_sync rp))"
      unfolding batches find_Some_iff by (metis image_eqI nth_mem)
    then show ?thesis
      using run Some bound by (auto simp: apply_batch_def mutation_Inr apply_batch_body_def st batch_news_def Let_def
          split: if_splits)
  next
    case None
    then have fresh: "batch_news bt rp = bt_events bt"
      by (auto simp: batch_news_def batches find_None_iff)
    obtain rs rp1 where ev: "apply_events cfg (lite_apply env) (bt_events bt) [] ?rp = (Inr rs, rp1)"
      and rp': "rp_sync rp' = (rp_sync rp1)\<lparr>sy_batches := sy_batches (rp_sync rp')\<rparr>"
      using run None by (auto simp: apply_batch_def mutation_Inr apply_batch_body_def st Let_def
          split: sum.splits prod.splits)
    have "replica_of (rp_sync rp') = replica_of (rp_sync rp1)" by (rule replica_of_same) (subst rp', simp)+
    then show ?thesis using apply_events_refines [OF cfg ok' ev] by (simp add: fresh bound)
  qed
qed

lemma apply_page_replica:
  assumes cfg: "config_ok cfg" and ok: "repo_ok cfg rp"
    and run: "apply_page cfg (lite_apply env) now remote p rp = (Inr out, rp')"
  shows "replica_of (rp_sync rp') = snd (receive_all (page_news cfg remote p rp) (replica_of (rp_sync rp)))"
proof -
  have run: "apply_page_body cfg (lite_apply env) now remote p rp = (Inr out, rp')"
    using run by (auto simp: apply_page_def mutation_Inr simp del: bindR_Inr_iff split: sum.splits)
  obtain events where events: "validate_incoming_page (page_tenant p (rp_sync rp)) p = Inr events"
    using run by (auto simp: apply_page_body_def split: sum.splits)
  have listed: "events = map snd (pg_items p)" using events unfolding validate_incoming_page_iff by blast
  obtain st where st: "(case events of [] \<Rightarrow> Inr (rp_sync rp) | e # _ \<Rightarrow> bind_tenant (sc_tenant (ev_scope e)) (rp_sync rp)) = Inr st"
    and page: "apply_page_events cfg (lite_apply env) now remote p events (rp\<lparr>rp_sync := st\<rparr>) = (Inr out, rp')"
    using run by (auto simp: apply_page_body_def events split: sum.splits)
  have "st = rp_sync rp \<or> (\<exists>t. bind_tenant t (rp_sync rp) = Inr st)" using st by (cases events) auto
  then have "repo_ok cfg (rp\<lparr>rp_sync := st\<rparr>) \<and> replica_of st = replica_of (rp_sync rp) \<and> sy_inbound st = sy_inbound (rp_sync rp)"
  proof (elim disjE exE)
    fix t assume t: "bind_tenant t (rp_sync rp) = Inr st"
    then have "st = (rp_sync rp)\<lparr>sy_binding := Some t\<rparr>" using bind_tenant_frame by blast
    then show ?thesis using bind_tenant_repo(1) [OF ok t] bind_replica [OF t] by simp
  qed (simp add: ok)
  then have ok': "repo_ok cfg (rp\<lparr>rp_sync := st\<rparr>)" and bound: "replica_of st = replica_of (rp_sync rp)"
    and inbound: "sy_inbound st = sy_inbound (rp_sync rp)" by blast+
  show ?thesis
  proof (cases "page_news cfg remote p rp = [] \<and> rp_sync rp' = st")
    case True
    then show ?thesis using bound by simp
  next
    case False
    then obtain rs rp1 where ev: "apply_events cfg (lite_apply env) events [] (rp\<lparr>rp_sync := st\<rparr>) = (Inr rs, rp1)"
      and rp': "rp_sync rp' = (rp_sync rp1)\<lparr>sy_inbound := sy_inbound (rp_sync rp')\<rparr>"
      and news: "page_news cfg remote p rp = events"
      using page by (auto simp: apply_page_events_def page_news_def inbound listed Let_def
          split: if_splits sum.splits prod.splits)
    have "replica_of (rp_sync rp') = replica_of (rp_sync rp1)" by (rule replica_of_same) (subst rp', simp)+
    then show ?thesis using apply_events_refines [OF cfg ok' ev] by (simp add: news bound)
  qed
qed

lemma own_write_replica:
  assumes ok: "repo_ok cfg rp"
    and run: "mutation (\<lambda>rp. capture_local_event cfg e (rp\<lparr>rp_business := b\<rparr>)) rp = (Inr (Some n), rp')"
  shows "replica_of (rp_sync rp') = ((version_view (rp_sync rp))(event_entity e \<mapsto> entry_of e), snd (replica_of (rp_sync rp)))"
proof -
  have app: "append_event cfg e (rp\<lparr>rp_business := b\<rparr>) = (Inr n, rp')"
    using run by (auto simp: mutation_Inr capture_local_event_def split: if_splits prod.splits sum.splits)
  have ok': "repo_ok cfg (rp\<lparr>rp_business := b\<rparr>)" by (rule repo_ok_business [OF ok])
  have "append_ref cfg e (rp_sync rp) = Inr (n, rp_sync rp')"
    using append_event_ref [OF _ _ _ app] ok' sync_ok_distinct unfolding repo_ok_def by fastforce
  from append_ref_view [OF this] append_event_inbox [OF ok' app] show ?thesis by (simp add: replica_of_def)
qed

lemma replica_step_lww:
  assumes "replica_step cfg env rp new rp'" and cfg: "config_ok cfg" and ok: "repo_ok cfg rp"
    and U: "coherent U" "set new \<subseteq> U" and cov: "covered U (replica_of (rp_sync rp))"
  shows "version_view (rp_sync rp') = fold lww_write new (version_view (rp_sync rp)) \<and> covered U (replica_of (rp_sync rp'))"
proof -
  have fst_view: "fst (replica_of st) = version_view st" for st by (simp add: replica_of_def)
  have same: ?thesis if "new = []" "replica_of (rp_sync rp') = replica_of (rp_sync rp)"
    using that cov fst_view by (metis fold_simps(1))
  have news: ?thesis if "replica_of (rp_sync rp') = snd (receive_all new (replica_of (rp_sync rp)))"
    using that receive_all_lww [OF U cov] fst_view by metis
  have sync: "sync_ok cfg (rp_sync rp)" using ok by (simp add: repo_ok_def)
  show ?thesis
    using assms(1)
  proof (cases rule: replica_step.cases)
    case (own_write e b n)
    have "\<not> covers (version_view (rp_sync rp)) e" using own_write(3) by (simp add: superseded_covers)
    then show ?thesis
      using own_write_replica [OF ok own_write(2)] covered_mono [of U "version_view (rp_sync rp)" "snd (replica_of (rp_sync rp))" e]
        cov own_write(1) not_covered_write fst_view
      by (metis fold_simps prod.collapse fst_conv)
  next
    case (no_capture e b)
    then have "rp_sync rp' = rp_sync rp"
      by (auto simp: mutation_Inr capture_local_event_def split: if_splits prod.splits sum.splits)
    then show ?thesis using no_capture(1) by (intro same) simp_all
  next
    case (failed_write e b err) then show ?thesis using mutation_Inl [OF failed_write(2)] by (intro same) simp_all
  next
    case (batch_in now digest bt res)
    then show ?thesis using apply_batch_replica [OF cfg ok batch_in(2)] by (intro news) simp
  next
    case (failed_batch now digest bt err)
    then show ?thesis using mutation_Inl [OF failed_batch(2) [unfolded apply_batch_def]] by (intro same) simp_all
  next
    case (page_in now remote p out)
    then show ?thesis using apply_page_replica [OF cfg ok page_in(2)] by (intro news) simp
  next
    case (failed_page now remote p err)
    have "rp_sync rp' = rp_sync rp"
      using failed_page(2) mutation_Inl by (auto simp: apply_page_def simp del: bindR_Inr_iff split: sum.splits)
    then show ?thesis using failed_page(1) by (intro same) simp_all
  next
    case registers then show ?thesis by (intro same) (simp, simp, rule quiet_mutation, erule register_target_settles)
  next
    case claims then show ?thesis by (intro same) (simp, simp, rule quiet_mutation, erule claim_settles)
  next
    case acknowledges then show ?thesis by (intro same) (simp, simp, rule quiet_mutation, erule ack_batch_settles)
  next
    case fails then show ?thesis by (intro same) (simp, simp, rule quiet_mutation, erule fail_delivery_settles)
  next
    case buries then show ?thesis by (intro same) (simp, simp, rule quiet_mutation, erule dead_letter_settles)
  next
    case replays then show ?thesis by (intro same) (simp, simp, rule quiet_mutation, erule replay_dead_letter_settles)
  next
    case enables then show ?thesis by (intro same) (simp, simp, rule quiet_mutation, erule set_target_enabled_settles)
  next
    case serves_page then show ?thesis by (intro same) (simp, simp, rule quiet_mutation, erule read_page_settles)
  next
    case snapshots
    then show ?thesis
      by (intro same) (simp, simp, rule quiet_mutation, rule create_snapshot_settles, erule lite.current_binds)
  next
    case serves_snapshot then show ?thesis by (intro same) (simp, simp, rule quiet_mutation, erule read_snapshot_page_settles)
  next
    case compacts then show ?thesis by (intro same) (simp, simp, rule quiet_mutation, erule compact_settles [OF sync])
  next
    case restarts then show ?thesis by (intro same) simp_all
  qed
qed

subsection \<open>Convergence\<close>

lemma replica_run_lww:
  assumes "replica_run cfg env es rp" and cfg: "config_ok cfg" and U: "coherent U" "set es \<subseteq> U"
  shows "lite_reachable cfg env rp \<and> version_view (rp_sync rp) = fold lww_write es (\<lambda>_. None)
    \<and> covered U (replica_of (rp_sync rp))"
  using assms(1) U(2)
proof (induction rule: replica_run.induct)
  case (fresh_replica b)
  have "version_view (rp_sync (empty_repo b)) = (\<lambda>_. None)" "covered U (replica_of (rp_sync (empty_repo b)))"
    by (simp_all add: empty_repo_def empty_sync_def version_view_def entity_version_def covered_def replica_of_def
        event_name_def fun_eq_iff)
  then show ?case using reach_empty by simp
next
  case (replica_does es rp new rp')
  then have IH: "lite_reachable cfg env rp" "version_view (rp_sync rp) = fold lww_write es (\<lambda>_. None)"
    "covered U (replica_of (rp_sync rp))" by auto
  have "set new \<subseteq> U" using replica_does.prems by simp
  from replica_step_lww [OF replica_does.hyps(2) cfg lite.reachable_ok [OF IH(1) cfg] U(1) this IH(3)]
  show ?case using reach_step [OF IH(1) replica_step_is_sync [OF replica_does.hyps(2)]] IH(2) by simp
qed

text \<open>A register filled from empty holds the newest event of every entity.\<close>

lemma lww_newest:
  "e \<in> set es \<Longrightarrow> \<exists>w \<in> set es. event_entity w = event_entity e \<and> ev_version e \<le> ev_version w
    \<and> fold lww_write es (\<lambda>_. None) (event_entity e) = Some (entry_of w)"
proof -
  have held: "fold lww_write es (\<lambda>_. None) k = Some x \<Longrightarrow> \<exists>w \<in> set es. event_entity w = k \<and> x = entry_of w" for k x
  proof (induction es rule: rev_induct)
    case (snoc a es)
    then show ?case by (auto simp: lww_write_def split: option.splits if_splits prod.splits)
  qed simp
  have "covers (fold lww_write es m) e" if "e \<in> set es" for m
    using that
  proof (induction es rule: rev_induct)
    case (snoc a es)
    then show ?case by (auto simp: covers_write covers_mono)
  qed simp
  moreover assume "e \<in> set es"
  ultimately have "covers (fold lww_write es (\<lambda>_. None)) e" by blast
  then obtain v d where v: "fold lww_write es (\<lambda>_. None) (event_entity e) = Some (v, d)" "ev_version e \<le> v"
    by (auto simp: covers_def split: option.splits)
  from held [OF v(1)] show ?thesis using v by (auto simp: entry_of_def)
qed

text \<open>
  C7: replicas converge.  Take two nodes after any runs from an empty store, each made of local
  writes, batches and pages received, whole or in part, again and again and in any order, failed
  attempts, deliveries, served pages and snapshots, compactions and restarts.  If the events they
  hold are the same set, they hold the same version and tombstone mark for every entity, and
  it is the one of the newest event of that entity.  Two conditions: an origin and an event id
  name one event, whose version names both (as the protocol demands of every event); and local
  writes are dated by a clock that is not behind the version they replace.
\<close>
theorem replicas_converge:
  assumes "config_ok cfg" "config_ok cfg'" "replica_run cfg env es rp" "replica_run cfg' env' es' rp'"
    and same: "set es' = set es" and U: "coherent (set es)"
  shows "version_view (rp_sync rp) = version_view (rp_sync rp')
    \<and> (\<forall>e \<in> set es. \<exists>w \<in> set es. event_entity w = event_entity e \<and> ev_version e \<le> ev_version w
        \<and> version_view (rp_sync rp) (event_entity e) = Some (ev_version w, ev_operation w = Tombstone))"
proof -
  have "version_view (rp_sync rp) = fold lww_write es (\<lambda>_. None)"
    using replica_run_lww [OF assms(3,1) U] by simp
  moreover have "version_view (rp_sync rp') = fold lww_write es' (\<lambda>_. None)"
    using replica_run_lww [OF assms(4,2) U] same by simp
  ultimately show ?thesis
    using lww_fold_set [OF U subset_refl same, of "\<lambda>_. None"] lww_newest [of _ es] by (simp add: entry_of_def)
qed

subsection \<open>A run of both\<close>

lemma sample_coherent: "coherent {sample_event}"
  by (simp add: coherent_def) (simp add: sample_version_def)

definition applied_repo :: "business repo" where
  "applied_repo = lone_repo\<lparr>rp_sync := push_inbox sample_event (outcome_text Accepted) (Some 1) lone_sync\<rparr>"

lemma sample_apply: "lite_apply env sample_event tombs empty_business = Inr (tombs, empty_business)"
  by (simp add: lite_apply_def sample_event_def apply_node_def remove_node_def empty_business_def)

lemma sample_append:
  "append_event sample_config sample_event (empty_repo empty_business) = (Inr 1, lone_repo)"
  by (simp add: append_event_def empty_repo_def require_str_def local_node_def sample_config_def bind_tenant_def
      current_ids_def outbox_ids_def enabled_targets_def assert_quota_def active_deliveries_def current_positions_def
      index_entities_def version_entities_def empty_sync_def push_event_def lone_repo_def sample_repo_def lone_sync_def
      sample_row_def Let_def)

lemma empty_repo_business [simp]: "(empty_repo b)\<lparr>rp_business := b\<rparr> = empty_repo b" "rp_business (empty_repo b) = b"
  by (simp_all add: empty_repo_def)

lemma sample_first:
  "apply_event sample_config (lite_apply env) sample_event tombs (empty_repo empty_business) =
    (Inr (Accepted, tombs), applied_repo)"
proof -
  have "find_inbox (rp_sync (empty_repo empty_business)) sample_event = None"
    "\<not> superseded (rp_sync (empty_repo empty_business)) sample_event"
    by (simp_all add: empty_repo_def empty_sync_def find_inbox_def superseded_def entity_version_def)
  then show ?thesis
    by (simp add: apply_event_def sample_apply sample_append applied_repo_def) (simp add: lone_repo_def)
qed

lemma sample_second:
  "apply_event sample_config (lite_apply env) sample_event tombs applied_repo = (Inr (Duplicate, tombs), applied_repo)"
  by (simp add: apply_event_def applied_repo_def find_inbox_def push_inbox_def lone_sync_def empty_sync_def
      outcome_text_def cp_inj)

theorem apply_events_is_lww_witness:
  "receive_all [sample_event, sample_event] (replica_of empty_sync) = ([Accepted, Duplicate], replica_of (rp_sync applied_repo))"
proof -
  have run: "apply_events sample_config (lite_apply env) [sample_event, sample_event] [] (empty_repo empty_business) =
      (Inr [Accepted, Duplicate], applied_repo)" for env
    by (simp add: sample_first sample_second)
  have start: "rp_sync (empty_repo empty_business) = empty_sync" by (simp add: empty_repo_def)
  show ?thesis
    using apply_events_is_lww [OF reach_empty sample_config_ok run] unfolding start .
qed

text \<open>
  Node a writes an event; a second node gets it in a batch, and again in the same batch.
\<close>

lemma sample_own_write: "replica_run sample_config env [sample_event] lone_repo"
proof -
  have "mutation (\<lambda>rp. capture_local_event sample_config sample_event (rp\<lparr>rp_business := empty_business\<rparr>))
      (empty_repo empty_business) = (Inr (Some 1), lone_repo)"
    by (simp add: mutation_Inr capture_local_event_def sample_append) (simp add: sample_config_def local_node_def)
  moreover have "\<not> superseded (rp_sync (empty_repo empty_business)) sample_event"
    by (simp add: empty_repo_def empty_sync_def superseded_def entity_version_def)
  ultimately have "replica_step sample_config env (empty_repo empty_business) [sample_event] lone_repo" by (rule own_write)
  from replica_does [OF fresh_replica this] show ?thesis by simp
qed

definition batch_answer :: batch_result where
  "batch_answer = \<lparr>br_batch = sample_uuid, br_digest = (cp ''digest''), br_outcome = cp ''accepted'',
     br_receipts = receipts_of [sample_event] [Accepted]\<rparr>"

definition batch_repo :: "business repo" where
  "batch_repo = applied_repo\<lparr>rp_sync := (rp_sync applied_repo)\<lparr>sy_batches :=
     [\<lparr>bx_id = sample_uuid, bx_digest = (cp ''digest''), bx_response = batch_answer, bx_created = 0\<rparr>]\<rparr>\<rparr>"

definition bound_repo :: "business repo" where
  "bound_repo = (empty_repo empty_business)\<lparr>rp_sync := empty_sync\<lparr>sy_binding := Some (cp ''node-a'')\<rparr>\<rparr>"

lemma bound_repo_facts:
  "append_event sample_config sample_event bound_repo = (Inr 1, lone_repo)"
  "find_inbox (rp_sync bound_repo) sample_event = None" "\<not> superseded (rp_sync bound_repo) sample_event"
  "bound_repo\<lparr>rp_business := empty_business\<rparr> = bound_repo" "rp_business bound_repo = empty_business"
  "bind_tenant (cp ''node-a'') (rp_sync (empty_repo empty_business)) = Inr (rp_sync bound_repo)"
  "sy_batches (rp_sync bound_repo) = []"
  by (simp_all add: append_event_def bound_repo_def empty_repo_def require_str_def local_node_def sample_config_def bind_tenant_def
      current_ids_def outbox_ids_def enabled_targets_def assert_quota_def active_deliveries_def current_positions_def
      index_entities_def version_entities_def empty_sync_def push_event_def lone_repo_def sample_repo_def lone_sync_def
      sample_row_def find_inbox_def superseded_def entity_version_def Let_def)

lemma sample_batch_applied:
  "apply_batch sample_config (lite_apply env) 0 (cp ''digest'') sample_batch (empty_repo empty_business) = (Inr batch_answer, batch_repo)"
proof -
  have "apply_event sample_config (lite_apply env) sample_event [] bound_repo = (Inr (Accepted, []), applied_repo)"
    by (simp add: apply_event_def sample_apply bound_repo_facts applied_repo_def) (simp add: lone_repo_def)
  then have "apply_events sample_config (lite_apply env) [sample_event] [] bound_repo = (Inr [Accepted], applied_repo)" by simp
  moreover have "(empty_repo empty_business)\<lparr>rp_sync := rp_sync bound_repo\<rparr> = bound_repo" by (simp add: bound_repo_def)
  moreover have "sy_batches (rp_sync applied_repo) = []"
    by (simp add: applied_repo_def push_inbox_def lone_sync_def empty_sync_def)
  ultimately show ?thesis
    by (simp add: apply_batch_def mutation_Inr apply_batch_body_def sample_batch_def batch_answer_def batch_repo_def
        bound_repo_facts Let_def)
qed

lemma sample_received: "replica_run sample_config env [sample_event] batch_repo"
proof -
  have "replica_step sample_config env (empty_repo empty_business) (batch_news sample_batch (empty_repo empty_business)) batch_repo"
    by (rule batch_in [OF sample_batch_applied])
  then have "replica_run sample_config env [sample_event] batch_repo"
    using replica_does [OF fresh_replica, of sample_config env empty_business]
    by (force simp: batch_news_def empty_repo_def empty_sync_def sample_batch_def)
  moreover have "\<exists>r. apply_batch sample_config (lite_apply env) 5 (cp ''digest'') sample_batch batch_repo = (Inr r, batch_repo)"
    by (simp add: apply_batch_def mutation_Inr apply_batch_body_def bind_tenant_def require_str_def batch_repo_def applied_repo_def
        push_inbox_def lone_sync_def sample_batch_def Let_def)
  moreover have "batch_news sample_batch batch_repo = []"
    by (simp add: batch_news_def batch_repo_def sample_batch_def)
  ultimately show ?thesis using replica_does batch_in by (metis append_Nil2)
qed

theorem replicas_converge_witness:
  "version_view (rp_sync lone_repo) = version_view (rp_sync batch_repo)
    \<and> version_view (rp_sync lone_repo) (event_entity sample_event) = Some (sample_version, True)"
proof -
  have one: "coherent (set [sample_event])" using sample_coherent by simp
  have "ev_operation sample_event = Tombstone" by (simp add: sample_event_def)
  moreover note c = replicas_converge [OF sample_config_ok sample_config_ok sample_own_write sample_received refl one]
  ultimately have "version_view (rp_sync lone_repo) (event_entity sample_event) = Some (sample_version, True)"
    using conjunct2 [OF c] by simp
  with conjunct1 [OF c] show ?thesis by blast
qed

subsection \<open>Local writes are not register writes\<close>

text \<open>
  A local capture dates its event by the wall clock alone and replaces the version row even
  when the row is newer; a peer that holds the newer version refuses the event.  After a
  local write behind a remote one the two replicas differ for good.
\<close>

theorem local_capture_can_regress:
  assumes "append_ref cfg e st = Inr (n, st')" "superseded st e"
  shows "version_view st' (event_entity e) = Some (entry_of e)
    \<and> lww_write e (version_view st) (event_entity e) = version_view st (event_entity e)"
  using append_ref_view [OF assms(1)] assms(2) lww_write_covered by (simp add: superseded_covers)

end
