(* ===== verification/Lite_Work.thy ===== *)
theory Lite_Work
  imports Lite_Sync_Facts
begin

section \<open>Deliveries make progress and come to an end\<close>

text \<open>
  Two promises of the delivery queue over sequences of worker operations: the attempts left
  bound the work that can still be handed out, whatever the workers answer and however
  leases run out; and a claim hands out what is due, the oldest first.
\<close>

subsection \<open>The attempts left\<close>

datatype work =
    WClaim "nat \<Rightarrow> ustring" int ustring int int
  | WAck int "sync_delivery list" "sync_receipt list"
  | WFail int sync_delivery ustring int
  | WDead int sync_delivery ustring int

text \<open>A worker operation as a mutation of the subtree: what it hands out and what it leaves.\<close>

definition settle :: "(unit \<times> sync_state) result \<Rightarrow> sync_state \<Rightarrow> sync_delivery list \<times> sync_state" where
  "settle r st = (case r of Inl _ \<Rightarrow> ([], st) | Inr (_, st') \<Rightarrow> ([], st'))"

fun run_work :: "sync_config \<Rightarrow> work \<Rightarrow> sync_state \<Rightarrow> sync_delivery list \<times> sync_state" where
  "run_work cfg (WClaim fresh now target limit secs) st =
     (case claim cfg fresh now target limit secs st of Inl _ \<Rightarrow> ([], st) | Inr (out, st') \<Rightarrow> (out, st'))"
| "run_work cfg (WAck now sds receipts) st = settle (ack_batch now sds receipts st) st"
| "run_work cfg (WFail clock sd err now) st = settle (fail_delivery cfg clock sd err now st) st"
| "run_work cfg (WDead clock sd err now) st = settle (dead_letter clock sd err now st) st"

fun run_works :: "sync_config \<Rightarrow> work list \<Rightarrow> sync_state \<Rightarrow> sync_delivery list \<times> sync_state" where
  "run_works cfg [] st = ([], st)"
| "run_works cfg (w # ws) st =
     (let (out, st') = run_work cfg w st; (out', st'') = run_works cfg ws st' in (out @ out', st''))"

definition effort :: "sync_config \<Rightarrow> delivery \<Rightarrow> nat" where
  "effort cfg d = (if dv_state d \<in> {Pending, Leased} then nat (cf_max_attempts cfg - dv_attempts d) else 0)"

definition budget :: "sync_config \<Rightarrow> sync_state \<Rightarrow> nat" where
  "budget cfg st = sum_list (map (effort cfg) (sy_deliveries st))"

lemma effort_expire: "effort cfg (expire_lease cfg t now d) = effort cfg d"
  by (auto simp: effort_def expire_lease_def)

lemma effort_lease: "is_due cfg t now d \<Longrightarrow> Suc (effort cfg (lease_row l u d)) = effort cfg d"
  by (auto simp: effort_def lease_row_def is_due_def)

lemma effort_settled:
  "effort cfg (mark_delivered d) \<le> effort cfg d" "effort cfg (to_dead_letter err now d) \<le> effort cfg d"
  "dv_state d = Leased \<Longrightarrow> effort cfg (to_retry err now d) \<le> effort cfg d"
  by (simp_all add: effort_def mark_delivered_def to_dead_letter_def to_retry_def)

lemma sum_list_replace:
  "i < length ds \<Longrightarrow> sum_list (map (f :: 'a \<Rightarrow> nat) (ds[i := d])) + f (ds ! i) = sum_list (map f ds) + f d"
proof (induction ds arbitrary: i)
  case (Cons x ds)
  then show ?case by (cases i) (auto simp: add.assoc)
qed simp

lemma lease_all_budget:
  "distinct is \<Longrightarrow> \<forall>i \<in> set is. i < length ds \<and> is_due cfg t now (ds ! i) \<Longrightarrow>
    sum_list (map (effort cfg) (lease_all fresh u n is ds)) + length is = sum_list (map (effort cfg) ds)"
proof (induction "is" arbitrary: n ds)
  case (Cons i "is")
  let ?ds = "ds[i := lease_row (fresh n) u (ds ! i)]"
  have "sum_list (map (effort cfg) (lease_all fresh u (Suc n) is ?ds)) + length is = sum_list (map (effort cfg) ?ds)"
    using Cons.prems by (intro Cons.IH) (auto simp: nth_list_update)
  moreover have "sum_list (map (effort cfg) ?ds) + effort cfg (ds ! i) =
      sum_list (map (effort cfg) ds) + effort cfg (lease_row (fresh n) u (ds ! i))"
    using Cons.prems by (intro sum_list_replace) simp
  moreover have "Suc (effort cfg (lease_row (fresh n) u (ds ! i))) = effort cfg (ds ! i)"
    using Cons.prems by (intro effort_lease [where t = t and now = now]) simp
  ultimately show ?case by simp
qed simp

lemma claim_budget:
  assumes "claim cfg fresh now target limit secs st = Inr (out, st')"
  shows "length out + budget cfg st' \<le> budget cfg st"
  using assms
proof (cases rule: claim_shape)
  case (leased t picked)
  let ?ds = "map (expire_lease cfg target now) (sy_deliveries st)"
  have "sum_list (map (effort cfg) (lease_all fresh (now + seconds secs) 0 picked ?ds)) + length picked =
      sum_list (map (effort cfg) ?ds)"
  proof (rule lease_all_budget)
    show "distinct picked" by (simp add: leased(3) distinct_take)
    show "\<forall>i \<in> set picked. i < length ?ds \<and> is_due cfg target now (?ds ! i)"
      using claimable_due by (auto simp: leased(3) dest!: in_set_takeD)
  qed
  moreover have "sum_list (map (effort cfg) ?ds) = budget cfg st"
    by (simp add: budget_def comp_def effort_expire)
  ultimately show ?thesis by (simp add: leased(4,5) budget_def)
qed simp

lemma set_row_budget:
  "effort cfg d \<le> effort cfg (sy_deliveries st ! i) \<Longrightarrow> budget cfg (set_row i d st) \<le> budget cfg st"
  using sum_list_replace [of i "sy_deliveries st" "effort cfg" d]
  by (cases "i < length (sy_deliveries st)") (auto simp: budget_def set_row_def list_update_beyond)

lemma ack_budget: "ack_batch now sds rs st = Inr (u, st') \<Longrightarrow> budget cfg st' \<le> budget cfg st"
proof -
  assume "ack_batch now sds rs st = Inr (u, st')"
  then obtain "is" where "st' = fold (\<lambda>i st. set_row i (mark_delivered (sy_deliveries st ! i)) st) is st"
    by (auto simp: ack_batch_def split: if_splits)
  moreover have "budget cfg (fold (\<lambda>i st. set_row i (mark_delivered (sy_deliveries st ! i)) st) is st) \<le> budget cfg st" for "is"
  proof (induction "is" arbitrary: st)
    case (Cons i "is")
    have "budget cfg (set_row i (mark_delivered (sy_deliveries st ! i)) st) \<le> budget cfg st"
      by (rule set_row_budget) (rule effort_settled)
    then show ?case using Cons order_trans by fastforce
  qed simp
  ultimately show ?thesis by simp
qed

lemma fail_budget: "fail_delivery cfg clock sd err now st = Inr (u, st') \<Longrightarrow> budget cfg st' \<le> budget cfg st"
  by (auto simp: fail_delivery_def Let_def require_active_lease_Inr effort_settled
      split: option.splits if_split_asm intro!: set_row_budget)

lemma dead_letter_budget: "dead_letter clock sd err now st = Inr (u, st') \<Longrightarrow> budget cfg st' \<le> budget cfg st"
  by (auto simp: dead_letter_def Let_def effort_settled split: option.splits intro!: set_row_budget)

lemma run_work_budget: "run_work cfg w st = (out, st') \<Longrightarrow> length out + budget cfg st' \<le> budget cfg st"
  by (cases w) (auto simp: settle_def split: sum.splits dest: claim_budget ack_budget fail_budget dead_letter_budget)

lemma run_works_budget: "run_works cfg ws st = (out, st') \<Longrightarrow> length out + budget cfg st' \<le> budget cfg st"
proof (induction ws arbitrary: st out)
  case (Cons w ws)
  obtain o1 st1 where first: "run_work cfg w st = (o1, st1)" by (cases "run_work cfg w st")
  obtain o2 where rest: "run_works cfg ws st1 = (o2, st')" "out = o1 @ o2"
    using Cons.prems first by (cases "run_works cfg ws st1") auto
  show ?case using run_work_budget [OF first] Cons.IH [OF rest(1)] rest(2) by simp
qed simp

text \<open>
  C19: Dispatching ends: however many workers claim, acknowledge, fail or lose deliveries, in
  any order and with any clock readings, the deliveries ever handed out number at most the
  configured attempts of each row together, and every one uses up an attempt of the budget.
\<close>
theorem dispatch_is_bounded:
  assumes "lite_reachable cfg env rp" "config_ok cfg" "run_works cfg ws (rp_sync rp) = (out, st')"
  shows "length out + budget cfg st' \<le> budget cfg (rp_sync rp)
    \<and> budget cfg (rp_sync rp) \<le> nat (cf_max_attempts cfg) * length (sy_deliveries (rp_sync rp))"
proof
  show "length out + budget cfg st' \<le> budget cfg (rp_sync rp)" by (rule run_works_budget [OF assms(3)])
  have "row_ok cfg d" if "d \<in> set (sy_deliveries (rp_sync rp))" for d
    using lite_sync_ok [OF assms(1,2)] that by (rule sync_ok_rowD)
  then have "effort cfg d \<le> nat (cf_max_attempts cfg)" if "d \<in> set (sy_deliveries (rp_sync rp))" for d
    using that by (fastforce simp: effort_def row_ok_def)
  moreover have "\<forall>d \<in> set ds. effort cfg d \<le> m \<Longrightarrow> sum_list (map (effort cfg) ds) \<le> m * length ds" for ds m
    by (induction ds) auto
  ultimately show "budget cfg (rp_sync rp) \<le> nat (cf_max_attempts cfg) * length (sy_deliveries (rp_sync rp))"
    unfolding budget_def by blast
qed

theorem dispatch_is_bounded_witness:
  "length [sample_claim] + budget sample_config leased_sync \<le> budget sample_config sample_sync"
proof -
  have "run_works sample_config [WClaim (\<lambda>_. cp ''lease'') 10 (cp ''node-b'') 5 30] (rp_sync sample_repo) = ([sample_claim], leased_sync)"
    using sample_claimed by (simp add: sample_repo_def)
  from dispatch_is_bounded [OF sample_reachable sample_config_ok this] show ?thesis by (simp add: sample_repo_def)
qed

subsection \<open>What is due is handed out\<close>

lemma filterR_total:
  "(\<And>x. x \<in> set xs \<Longrightarrow> \<exists>b. p x = Inr b) \<Longrightarrow> filterR p xs = Inr (filter (\<lambda>x. p x = Inr True) xs)"
proof (induction xs)
  case (Cons x xs)
  then obtain b where "p x = Inr b" by auto
  with Cons show ?case by (cases b) auto
qed simp

lemma outbox_row_found:
  assumes "r \<in> set (sy_outbox st)" "sorted_wrt (<) (map ob_seq (sy_outbox st))"
  shows "outbox_row_of st (ob_seq r) = Some r"
proof -
  have "distinct (map ob_seq (rev (sy_outbox st)))" using assms(2) by (simp add: strict_sorted_iff rev_map [symmetric])
  then have "find (\<lambda>r'. ob_seq r' = ob_seq r) xs = Some r" if "r \<in> set xs" "distinct (map ob_seq xs)" for xs
    using that(1,2) by (induction xs) auto
  then show ?thesis using assms(1) \<open>distinct (map ob_seq (rev (sy_outbox st)))\<close> by (simp add: outbox_row_of_def)
qed

lemma claimable_total:
  assumes ok: "sync_ok cfg st" and d: "delivery_key d \<in> set (map delivery_key (sy_deliveries st))"
  shows "\<exists>b. claimable cfg t now st d = Inr b"
proof -
  obtain r where "r \<in> set (sy_outbox st)" "ob_seq r = dv_seq d"
    using sync_ok_placed [OF ok d] by (auto simp: placed_def delivery_key_def)
  then have "outbox_row_of st (dv_seq d) = Some r"
    using outbox_row_found [OF _ sync_ok_sorted [OF ok]] by metis
  then show ?thesis by (cases "is_due cfg t now d") (auto simp: claimable_def)
qed

lemma expire_key: "delivery_key (expire_lease cfg t now d) = delivery_key d"
  by (simp add: expire_lease_def delivery_key_def)

lemma take_sort_key:
  assumes "i \<in> set is" "i \<notin> set (take l (sort_key f is))"
  shows "length (take l (sort_key f is)) = l \<and> (\<forall>j \<in> set (take l (sort_key f is)). f j \<le> f i)"
proof -
  have "i \<in> set (take l (sort_key f is) @ drop l (sort_key f is))" using assms(1) by simp
  then have i: "i \<in> set (drop l (sort_key f is))" using assms(2) unfolding set_append by blast
  have "sorted (map f (take l (sort_key f is) @ drop l (sort_key f is)))" by (simp del: map_append)
  then have "\<forall>j \<in> set (take l (sort_key f is)). f j \<le> f i"
    using i unfolding map_append sorted_append by auto
  moreover have "l < length (sort_key f is)" using i by (metis drop_eq_Nil empty_iff empty_set leI)
  ultimately show ?thesis by simp
qed

text \<open>
  C34: No delivery starves behind later ones: a claim with valid arguments on an enabled target
  succeeds, and a locally originated delivery that is due, or whose lease has run out with
  attempts left, is handed out by it unless the claim is already full of deliveries of events
  that are not newer.
\<close>
theorem due_deliveries_are_handed_out:
  assumes reach: "lite_reachable cfg env rp" and cfg: "config_ok cfg" and st: "st = rp_sync rp"
    and args: "target \<noteq> []" "1 \<le> limit" "1 \<le> secs"
    and enabled: "find_target target st = Some t" "tg_enabled t"
    and d: "d \<in> set (sy_deliveries st)" "is_due cfg target now (expire_lease cfg target now d)"
    and row: "outbox_row_of st (dv_seq d) = Some r" "ev_origin (ob_event r) = local_node cfg"
  shows "\<exists>out st'. claim cfg fresh now target limit secs st = Inr (out, st') \<and>
    ((\<exists>sd \<in> set out. sd_event sd = ob_event r) \<or>
     int (length out) = limit \<and> (\<forall>sd \<in> set out. \<exists>r' \<in> set (sy_outbox st). sd_event sd = ob_event r' \<and> ob_seq r' \<le> ob_seq r))"
proof -
  have ok: "sync_ok cfg st" using reach cfg st lite_sync_ok by simp
  let ?ds = "map (expire_lease cfg target now) (sy_deliveries st)"
  define picked where "picked = take (nat limit) (sort_key (\<lambda>i. dv_seq (?ds ! i))
      (filter (\<lambda>i. claimable cfg target now st (?ds ! i) = Inr True) [0..<length ?ds]))"
  define out where "out = map (\<lambda>(n, i). claimed_delivery st (fresh n) (now + seconds secs) (?ds ! i)) (enumerate 0 picked)"
  have key: "delivery_key (?ds ! i) \<in> set (map delivery_key (sy_deliveries st))" if "i < length ?ds" for i
    using that by (simp add: expire_key)
  have "filterR (\<lambda>i. claimable cfg target now st (?ds ! i)) [0..<length ?ds] =
      Inr (filter (\<lambda>i. claimable cfg target now st (?ds ! i) = Inr True) [0..<length ?ds])"
    using claimable_total [OF ok key] by (intro filterR_total) simp
  then have run: "claim cfg fresh now target limit secs st =
      Inr (out, st\<lparr>sy_deliveries := lease_all fresh (now + seconds secs) 0 picked ?ds\<rparr>)"
    using args enabled by (simp add: claim_def require_str_def require_int_def out_def picked_def Let_def)
  have event: "\<exists>r' \<in> set (sy_outbox st). outbox_row_of st (dv_seq (?ds ! i)) = Some r' \<and> ob_seq r' = dv_seq (?ds ! i)"
    if i: "i < length ?ds" for i
  proof -
    obtain r' where r': "r' \<in> set (sy_outbox st)" "ob_seq r' = dv_seq (?ds ! i)"
      using sync_ok_placed [OF ok key [OF i]] by (auto simp: placed_def delivery_key_def)
    then show ?thesis using outbox_row_found [OF r'(1) sync_ok_sorted [OF ok]] by auto
  qed
  have mem: "\<exists>i \<in> set picked. sd_event sd = ob_event (the (outbox_row_of st (dv_seq (?ds ! i))))" if "sd \<in> set out" for sd
    using that by (auto simp: out_def in_set_enumerate_eq claimed_delivery_def)
  have seq: "ob_seq r = dv_seq d"
    using row(1) by (auto simp: outbox_row_of_def find_Some_iff)
  obtain i where i: "i < length ?ds" "?ds ! i = expire_lease cfg target now d"
    using d(1) by (auto simp: in_set_conv_nth)
  have di: "dv_seq (?ds ! i) = dv_seq d" using expire_key [of cfg target now d] i(2) by (simp add: delivery_key_def)
  have "claimable cfg target now st (?ds ! i) = Inr True"
    using d(2) row i(2) di by (simp add: claimable_def)
  then have cand: "i \<in> set (filter (\<lambda>i. claimable cfg target now st (?ds ! i) = Inr True) [0..<length ?ds])"
    using i(1) by simp
  show ?thesis
  proof (cases "i \<in> set picked")
    case True
    then obtain n where n: "n < length picked" "picked ! n = i" by (auto simp: in_set_conv_nth)
    then have "claimed_delivery st (fresh n) (now + seconds secs) (?ds ! i) \<in> set out"
      unfolding out_def by (auto simp: in_set_enumerate_eq intro!: image_eqI [where x = "(n, i)"])
    moreover have "sd_event (claimed_delivery st (fresh n) (now + seconds secs) (?ds ! i)) = ob_event r"
      using row(1) di by (simp add: claimed_delivery_def)
    ultimately show ?thesis using run by blast
  next
    case False
    have full: "length picked = nat limit" and older: "\<forall>j \<in> set picked. dv_seq (?ds ! j) \<le> dv_seq (?ds ! i)"
      using take_sort_key [OF cand False [unfolded picked_def]] unfolding picked_def by blast+
    have "\<exists>r' \<in> set (sy_outbox st). sd_event sd = ob_event r' \<and> ob_seq r' \<le> ob_seq r" if sd: "sd \<in> set out" for sd
    proof -
      obtain j where j: "j \<in> set picked" "sd_event sd = ob_event (the (outbox_row_of st (dv_seq (?ds ! j))))"
        using mem [OF sd] by blast
      have "j < length ?ds" using j(1) by (auto simp: picked_def dest!: in_set_takeD)
      from event [OF this] j(2) show ?thesis using older j(1) di seq by auto
    qed
    moreover have "int (length out) = limit" using full args(2) by (simp add: out_def)
    ultimately show ?thesis using run by blast
  qed
qed

theorem due_deliveries_are_handed_out_witness:
  "\<exists>out st'. claim sample_config (\<lambda>_. cp ''lease'') 10 (cp ''node-b'') 5 30 sample_sync = Inr (out, st') \<and>
    ((\<exists>sd \<in> set out. sd_event sd = ob_event sample_row) \<or> int (length out) = 5 \<and>
      (\<forall>sd \<in> set out. \<exists>r' \<in> set (sy_outbox sample_sync). sd_event sd = ob_event r' \<and> ob_seq r' \<le> ob_seq sample_row))"
proof (rule due_deliveries_are_handed_out [OF sample_reachable sample_config_ok])
  show "sample_sync = rp_sync sample_repo" by (simp add: sample_repo_def)
  show "find_target (cp ''node-b'') sample_sync = Some sample_target"
    by (simp add: find_target_def sample_sync_def sample_target_def)
  show "sample_delivery \<in> set (sy_deliveries sample_sync)" by (simp add: sample_sync_def)
  show "is_due sample_config (cp ''node-b'') 10 (expire_lease sample_config (cp ''node-b'') 10 sample_delivery)"
    by (simp add: is_due_def expire_lease_def sample_delivery_def new_delivery_def sample_config_def)
  show "outbox_row_of sample_sync (dv_seq sample_delivery) = Some sample_row"
    by (simp add: outbox_row_of_def sample_sync_def sample_row_def sample_delivery_def new_delivery_def)
qed (simp_all add: sample_target_def sample_row_def local_node_def sample_config_def)

end
