(* ===== verification/Sync_Dispatcher.thy ===== *)
theory Sync_Dispatcher
  imports Lite_Work
begin

section \<open>The dispatcher of durable deliveries\<close>

text \<open>
  \<open>src/memplex/sync_dispatcher.py\<close>: deliveries are leased from the repository, sent as one
  batch per target, and settled by what the peer answers; pages of a peer are pulled and
  applied.  Everything outside the class is a port, an action over a state \<open>'s\<close> that holds
  the repository, the network, the clocks and the random source; an action returns its
  value or its exception with the state it leaves.  Headers and the request timeout are
  constants of the ports.  Times and durations are microseconds, so the configured
  durations are integers here.
\<close>

subsection \<open>Actions\<close>

type_synonym ('a, 's) action = "'s \<Rightarrow> 'a result \<times> 's"

definition returnA :: "'a \<Rightarrow> ('a, 's) action" where
  "returnA x s = (Inr x, s)"

definition raiseA :: "exn \<Rightarrow> ('a, 's) action" where
  "raiseA e s = (Inl e, s)"

definition bindA :: "('a, 's) action \<Rightarrow> ('a \<Rightarrow> ('b, 's) action) \<Rightarrow> ('b, 's) action" where
  "bindA m f s = (case m s of (Inl e, s') \<Rightarrow> (Inl e, s') | (Inr x, s') \<Rightarrow> f x s')"

definition liftA :: "'a result \<Rightarrow> ('a, 's) action" where
  "liftA r s = (r, s)"

text \<open>A piece of a response body: bytes, something else, or the stream breaking.\<close>

datatype chunk = Chunk bytes | OddChunk | BrokenStream exn

text \<open>
  A response: its status code when that is an exact integer, its body when it can be
  iterated.
\<close>

record http_reply =
  hr_status :: "int option"
  hr_body :: "chunk list option"

record 's sync_ports =
  po_post :: "ustring \<Rightarrow> bytes \<Rightarrow> (http_reply, 's) action"
  po_get :: "ustring \<Rightarrow> int \<Rightarrow> ustring option \<Rightarrow> (http_reply, 's) action"
  po_claim :: "ustring \<Rightarrow> int \<Rightarrow> int \<Rightarrow> (sync_delivery list, 's) action"
  po_ack :: "sync_delivery list \<Rightarrow> sync_receipt list \<Rightarrow> (unit, 's) action"
  po_fail :: "sync_delivery \<Rightarrow> ustring \<Rightarrow> int \<Rightarrow> (unit, 's) action"
  po_dead :: "sync_delivery \<Rightarrow> ustring \<Rightarrow> int \<Rightarrow> (unit, 's) action"
  po_status :: "(sync_status, 's) action"
  po_actionable :: "(sync_status, 's) action"
  po_replay :: "ustring \<Rightarrow> ustring \<Rightarrow> (bool, 's) action"
  po_dead_letters :: "int \<Rightarrow> (dead_letter_entry list, 's) action"
  po_apply :: "ustring \<Rightarrow> sync_page \<Rightarrow> (apply_result, 's) action"
  po_uniform :: "int \<Rightarrow> 's \<Rightarrow> int \<times> 's"
  po_now :: "'s \<Rightarrow> int \<times> 's"
  po_monotonic :: "'s \<Rightarrow> int \<times> 's"
  po_sleep :: "int \<Rightarrow> 's \<Rightarrow> 's"

subsection \<open>Construction\<close>

record dispatch_config =
  dc_targets :: "(ustring, ustring) dict"
  dc_node :: ustring
  dc_claim_size :: int
  dc_in_flight :: int
  dc_per_target :: int
  dc_lease :: int
  dc_timeout :: int
  dc_poll :: int
  dc_max_bytes :: int

definition MAX_PROTOCOL_BYTES :: int where "MAX_PROTOCOL_BYTES = 4 * 1024 * 1024"
definition MAX_PULL_PAGES :: int where "MAX_PULL_PAGES = 1000"
definition MAX_PAGE_SIZE :: int where "MAX_PAGE_SIZE = 1000"

text \<open>\<open>url.rstrip("/")\<close>.\<close>

definition rstrip_slash :: "ustring \<Rightarrow> ustring" where
  "rstrip_slash s = rev (dropWhile (\<lambda>c. c = 47) (rev s))"

fun detach_targets :: "ustring \<Rightarrow> (ustring, ustring) dict \<Rightarrow> (ustring, ustring) dict \<Rightarrow> (ustring, ustring) dict result" where
  "detach_targets node [] out = Inr out"
| "detach_targets node ((t, url) # rest) out =
     (if t = [] then Inl (ValueErr ''target ids must be non-empty exact strings'')
      else if t = node then Inl (ValueErr ''target id must differ from local_node_id'')
      else if url = [] then Inl (ValueErr ''target URLs must be non-empty exact strings'')
      else detach_targets node rest (out @ [(t, rstrip_slash url)]))"

definition check_positive :: "(string \<times> int) list \<Rightarrow> string \<Rightarrow> unit result" where
  "check_positive named message = (case find (\<lambda>(name, v). v < 1) named of
     None \<Rightarrow> Inr () | Some (name, v) \<Rightarrow> Inl (ValueErr (name @ message)))"

definition make_dispatcher ::
    "ustring \<Rightarrow> (ustring, ustring) dict \<Rightarrow> int \<Rightarrow> int \<Rightarrow> int \<Rightarrow> int \<Rightarrow> int \<Rightarrow> int \<Rightarrow> int \<Rightarrow> dispatch_config result" where
  "make_dispatcher node targets claim_size in_flight per_target lease timeout poll max_bytes =
     (if node = [] then Inl (ValueErr ''local_node_id must be a non-empty exact str'') else
     bindR (detach_targets node targets []) (\<lambda>ts.
       if \<not> distinct (map snd ts) then Inl (ValueErr ''one transport URL cannot identify multiple targets'') else
     bindR (check_positive [(''claim_size'', claim_size), (''max_in_flight'', in_flight),
         (''per_target_in_flight'', per_target), (''lease_seconds'', lease)] '' must be a positive exact int'') (\<lambda>_.
       if in_flight < per_target then Inl (ValueErr ''per_target_in_flight cannot exceed max_in_flight'')
       else if max_bytes < 1 \<or> MAX_PROTOCOL_BYTES < max_bytes then
         Inl (ValueErr ''max_response_bytes must be between 1 and the 4MiB protocol cap'') else
     bindR (check_positive [(''request_timeout'', timeout), (''poll_interval'', poll)] '' must be positive'') (\<lambda>_.
       Inr \<lparr>dc_targets = ts, dc_node = node, dc_claim_size = claim_size, dc_in_flight = in_flight,
            dc_per_target = per_target, dc_lease = lease, dc_timeout = timeout, dc_poll = poll,
            dc_max_bytes = max_bytes\<rparr>))))"

subsection \<open>Requests and responses\<close>

text \<open>What the dispatcher computes with: the wire, \<open>uuid.uuid5\<close> in its name space, SHA-256.\<close>

record dispatch_env =
  de_wire :: wire_env
  de_uuid5 :: "ustring \<Rightarrow> ustring"
  de_sha256 :: "bytes \<Rightarrow> ustring"

definition batch_identity :: "ustring \<Rightarrow> ustring \<Rightarrow> sync_delivery list \<Rightarrow> ustring" where
  "batch_identity node target sds = py_join [0] (node # target # map (ev_id \<circ> sd_event) sds)"

definition batch_of :: "dispatch_env \<Rightarrow> dispatch_config \<Rightarrow> ustring \<Rightarrow> sync_delivery list \<Rightarrow> sync_batch result" where
  "batch_of env cfg target sds =
     make_batch (de_wire env) (JInt 1) (JStr (de_uuid5 env (batch_identity (dc_node cfg) target sds)))
       (JStr (dc_node cfg)) (map sd_event sds)"

fun read_chunks :: "int \<Rightarrow> bytes \<Rightarrow> chunk list \<Rightarrow> bytes result" where
  "read_chunks limit content [] = Inr content"
| "read_chunks limit content (Chunk b # cs) =
     (if limit < int (length content + length b) then
        Inl (ValueErr ''remote response body exceeds the configured limit'')
      else read_chunks limit (content @ b) cs)"
| "read_chunks limit content (OddChunk # cs) = Inl (ValueErr ''remote response body is invalid'')"
| "read_chunks limit content (BrokenStream e # cs) = Inl e"

definition response_json :: "dispatch_env \<Rightarrow> dispatch_config \<Rightarrow> http_reply \<Rightarrow> json result" where
  "response_json env cfg reply =
     (case hr_body reply of
        None \<Rightarrow> Inl (ValueErr ''remote response body is unavailable'')
      | Some cs \<Rightarrow> bindR (read_chunks (dc_max_bytes cfg) [] cs) (\<lambda>content.
          load_utf8 (de_wire env) (ValueErr ''remote response body is invalid JSON'') content))"

text \<open>A dictionary with exactly the named fields; its values in their order.\<close>

definition exact_fields :: "string list \<Rightarrow> string \<Rightarrow> json \<Rightarrow> json list result" where
  "exact_fields names message j =
     (case exact_dict names message j of Inl _ \<Rightarrow> Inl (ValueErr message) | Inr vs \<Rightarrow> Inr vs)"

definition exact_list :: "string \<Rightarrow> json \<Rightarrow> json list result" where
  "exact_list message j = (case j of JList xs \<Rightarrow> Inr xs | _ \<Rightarrow> Inl (ValueErr message))"

definition parse_receipt :: "json \<Rightarrow> sync_receipt result" where
  "parse_receipt j =
     bindR (exact_fields [''event_id'', ''outcome''] ''invalid remote batch receipt'' j) (\<lambda>vs.
       make_receipt (vs ! 0) (vs ! 1))"

definition parse_result :: "json \<Rightarrow> batch_result result" where
  "parse_result j =
     bindR (exact_fields [''batch_id'', ''request_digest'', ''outcome'', ''receipts''] ''invalid remote batch result'' j) (\<lambda>vs.
     bindR (exact_list ''invalid remote batch receipts'' (vs ! 3)) (\<lambda>items.
     bindR (mapR parse_receipt items) (\<lambda>receipts.
       make_batch_result (vs ! 0) (vs ! 1) (vs ! 2) receipts)))"

definition validate_result :: "dispatch_env \<Rightarrow> sync_batch \<Rightarrow> sync_delivery list \<Rightarrow> batch_result \<Rightarrow> unit result" where
  "validate_result env bt sds res =
     bindR (request_digest (de_sha256 env) (de_wire env) bt) (\<lambda>digest.
       if br_batch res \<noteq> bt_id bt \<or> br_digest res \<noteq> digest then
         Inl (ValueErr ''remote batch identity mismatch'')
       else if length (br_receipts res) \<noteq> length sds then
         Inl (ValueErr ''remote receipt cardinality mismatch'')
       else if \<not> distinct (map (ev_id \<circ> sd_event) sds) then
         Inl (ValueErr ''delivery identity is duplicated'')
       else if set (map rc_event (br_receipts res)) \<noteq> set (map (ev_id \<circ> sd_event) sds) then
         Inl (ValueErr ''remote receipt identity mismatch'')
       else Inr ())"

text \<open>The answer to a batch, when it settles the deliveries.\<close>

definition answer_of ::
    "dispatch_env \<Rightarrow> dispatch_config \<Rightarrow> sync_batch \<Rightarrow> sync_delivery list \<Rightarrow> http_reply \<Rightarrow> batch_result result" where
  "answer_of env cfg bt sds reply =
     bindR (response_json env cfg reply) (\<lambda>j.
     bindR (parse_result j) (\<lambda>res.
     bindR (validate_result env bt sds res) (\<lambda>_. Inr res)))"

subsection \<open>Settling a batch\<close>

text \<open>
  \<open>2.0 ** n\<close> overflows from 1024 on.  The reference time of a retry is moved back so that the
  repository's own delay lands in the jitter window.
\<close>

definition failure_time :: "'s sync_ports \<Rightarrow> int \<Rightarrow> int \<Rightarrow> (int, 's) action" where
  "failure_time ports now attempt s =
     (if 1024 \<le> max (attempt - 1) 0 then (Inl (OtherErr ''OverflowError''), s)
      else let cap = seconds (min 60 (2 ^ nat (max (attempt - 1) 0))); (jitter, s') = po_uniform ports cap s in
        (Inr (now - (cap - jitter)), s'))"

fun fail_all :: "'s sync_ports \<Rightarrow> ustring \<Rightarrow> int \<Rightarrow> bool \<Rightarrow> sync_delivery list \<Rightarrow> (unit, 's) action" where
  "fail_all ports code now terminal [] = returnA ()"
| "fail_all ports code now terminal (sd # sds) =
     bindA (if terminal then returnA now else failure_time ports now (sd_attempt sd)) (\<lambda>t.
     bindA ((if terminal then po_dead ports else po_fail ports) sd code t) (\<lambda>_.
       fail_all ports code now terminal sds))"

text \<open>Which error a response means, and whether for good; none for a success status.\<close>

definition reply_error :: "http_reply \<Rightarrow> (string \<times> bool) option" where
  "reply_error reply =
     (case hr_status reply of
        None \<Rightarrow> Some (''remote_protocol_error'', True)
      | Some c \<Rightarrow>
         if c = 429 then Some (''remote_backpressure'', False)
         else if 500 \<le> c then Some (''remote_unavailable'', False)
         else if 400 \<le> c then
           Some (if c \<in> {401, 403} then ''remote_identity_rejected''
                 else if c = 409 then ''remote_batch_conflict'' else ''remote_batch_rejected'', True)
         else if c < 200 \<or> 300 \<le> c then Some (''remote_protocol_error'', True)
         else None)"

definition reject :: "'s sync_ports \<Rightarrow> sync_delivery list \<Rightarrow> int \<Rightarrow> string \<times> bool \<Rightarrow> (nat \<times> nat, 's) action" where
  "reject ports sds now = (\<lambda>(code, terminal).
     bindA (fail_all ports (cp code) now terminal sds) (\<lambda>_. returnA (0, length sds)))"

definition settle_reply ::
    "dispatch_env \<Rightarrow> dispatch_config \<Rightarrow> 's sync_ports \<Rightarrow> sync_batch \<Rightarrow> sync_delivery list \<Rightarrow> int \<Rightarrow> http_reply \<Rightarrow> (nat \<times> nat, 's) action" where
  "settle_reply env cfg ports bt sds now reply =
     (case reply_error reply of
        Some e \<Rightarrow> reject ports sds now e
      | None \<Rightarrow>
         (case answer_of env cfg bt sds reply of
            Inl _ \<Rightarrow> reject ports sds now (''remote_protocol_error'', True)
          | Inr res \<Rightarrow> bindA (po_ack ports sds (br_receipts res)) (\<lambda>_. returnA (length sds, 0))))"

definition send_batch ::
    "dispatch_env \<Rightarrow> dispatch_config \<Rightarrow> 's sync_ports \<Rightarrow> ustring \<Rightarrow> ustring \<Rightarrow> sync_delivery list \<Rightarrow> int \<Rightarrow> (nat \<times> nat, 's) action" where
  "send_batch env cfg ports target url sds now s =
     (case bindR (batch_of env cfg target sds) (\<lambda>bt. bindR (canonical_bytes (de_wire env) bt) (\<lambda>bs. Inr (bt, bs))) of
        Inl e \<Rightarrow> (Inl e, s)
      | Inr (bt, bs) \<Rightarrow>
         (case po_post ports (url @ cp ''/sync/v1/batches'') bs s of
            (Inl e, s') \<Rightarrow> reject ports sds now (''transport_unavailable'', False) s'
          | (Inr reply, s') \<Rightarrow> settle_reply env cfg ports bt sds now reply s'))"

subsection \<open>One dispatch pass\<close>

record dispatch_result =
  dr_claimed :: nat
  dr_delivered :: nat
  dr_failed :: nat

text \<open>The targets in their order, with the batches already scheduled in this pass.\<close>

fun dispatch_targets ::
    "dispatch_env \<Rightarrow> dispatch_config \<Rightarrow> 's sync_ports \<Rightarrow> int \<Rightarrow> (ustring, ustring) dict \<Rightarrow> int \<Rightarrow> dispatch_result \<Rightarrow> (dispatch_result, 's) action" where
  "dispatch_targets env cfg ports now [] scheduled acc = returnA acc"
| "dispatch_targets env cfg ports now ((target, url) # rest) scheduled acc =
     (if dc_in_flight cfg \<le> scheduled then returnA acc else
      bindA (po_claim ports target (dc_claim_size cfg) (dc_lease cfg)) (\<lambda>sds.
        if sds = [] then dispatch_targets env cfg ports now rest scheduled acc
        else bindA (send_batch env cfg ports target url sds now) (\<lambda>(sent, rejected).
          dispatch_targets env cfg ports now rest (scheduled + 1)
            \<lparr>dr_claimed = dr_claimed acc + length sds, dr_delivered = dr_delivered acc + sent,
             dr_failed = dr_failed acc + rejected\<rparr>)))"

definition dispatch_at :: "dispatch_env \<Rightarrow> dispatch_config \<Rightarrow> 's sync_ports \<Rightarrow> int \<Rightarrow> (dispatch_result, 's) action" where
  "dispatch_at env cfg ports now =
     dispatch_targets env cfg ports now (dc_targets cfg) 0 \<lparr>dr_claimed = 0, dr_delivered = 0, dr_failed = 0\<rparr>"

text \<open>\<open>dispatch_once()\<close>: the time is read when none is given.\<close>

definition dispatch_once :: "dispatch_env \<Rightarrow> dispatch_config \<Rightarrow> 's sync_ports \<Rightarrow> int option \<Rightarrow> (dispatch_result, 's) action" where
  "dispatch_once env cfg ports now s =
     (case now of Some n \<Rightarrow> dispatch_at env cfg ports n s
      | None \<Rightarrow> (case po_now ports s of (n, s') \<Rightarrow> dispatch_at env cfg ports n s'))"

definition replay :: "dispatch_config \<Rightarrow> 's sync_ports \<Rightarrow> ustring \<Rightarrow> ustring \<Rightarrow> (bool, 's) action" where
  "replay cfg ports target eid =
     (if \<not> has_key (dc_targets cfg) target then raiseA (ValueErr ''target is not configured'')
      else po_replay ports target eid)"

definition list_dead_letters :: "'s sync_ports \<Rightarrow> int \<Rightarrow> (dead_letter_entry list, 's) action" where
  "list_dead_letters ports limit =
     (if limit < 1 \<or> 1000 < limit then raiseA (ValueErr ''limit must be an exact int between 1 and 1000'')
      else po_dead_letters ports limit)"

subsection \<open>Pulling pages\<close>

definition parse_item :: "wire_env \<Rightarrow> json \<Rightarrow> stream_item result" where
  "parse_item env j =
     bindR (exact_fields [''stream_seq'', ''event''] ''invalid remote sync item'' j) (\<lambda>vs.
     bindR (event_from_dict env (vs ! 1)) (\<lambda>e.
       case vs ! 0 of JInt n \<Rightarrow> make_item n e | _ \<Rightarrow> Inl (TypeErr ''stream_seq must be an exact int'')))"

text \<open>\<open>items[-1]\<close> of an empty list raises.\<close>

definition parse_page :: "wire_env \<Rightarrow> json \<Rightarrow> (sync_page \<times> ustring) result" where
  "parse_page env j =
     bindR (exact_fields [''items'', ''snapshot_seq'', ''next_cursor'', ''has_more''] ''invalid remote sync page'' j) (\<lambda>vs.
     bindR (exact_list ''invalid remote sync items'' (vs ! 0)) (\<lambda>raw.
     bindR (mapR (parse_item env) raw) (\<lambda>items.
       case vs ! 1 of
         JInt snapshot \<Rightarrow>
           if snapshot < 0 then Inl (ValueErr ''invalid remote snapshot sequence'') else
           (case vs ! 3 of
              JBool has_more \<Rightarrow>
                (case vs ! 2 of
                   JStr cursor \<Rightarrow>
                     if cursor = [] then Inl (ValueErr ''invalid remote cursor'')
                     else if has_more \<and> items = [] then Inl (IndexErr ''list index out of range'')
                     else bindR (make_page items snapshot (if has_more then fst (last items) else snapshot) has_more)
                       (\<lambda>p. Inr (p, cursor))
                 | _ \<Rightarrow> Inl (ValueErr ''invalid remote cursor''))
            | _ \<Rightarrow> Inl (ValueErr ''invalid remote page continuation''))
       | _ \<Rightarrow> Inl (ValueErr ''invalid remote snapshot sequence''))))"

text \<open>
  \<open>except (KeyError, TypeError, ValueError)\<close>: an expired cursor and a rejected batch are
  value errors of the program.
\<close>

fun mask_page_error :: "exn \<Rightarrow> exn" where
  "mask_page_error (KeyErr m) = RuntimeErr ''sync_pull_invalid_page''"
| "mask_page_error (TypeErr m) = RuntimeErr ''sync_pull_invalid_page''"
| "mask_page_error (ValueErr m) = RuntimeErr ''sync_pull_invalid_page''"
| "mask_page_error (CursorExpired m) = RuntimeErr ''sync_pull_invalid_page''"
| "mask_page_error (BatchRejected m) = RuntimeErr ''sync_pull_invalid_page''"
| "mask_page_error (CryptoErr m) = RuntimeErr ''sync_pull_invalid_page''"
| "mask_page_error e = e"

record pull_result =
  pu_pages :: nat
  pu_applied :: nat
  pu_duplicate :: nat
  pu_conflict :: nat
  pu_cursor :: int

definition add_page :: "apply_result \<Rightarrow> pull_result \<Rightarrow> pull_result" where
  "add_page res acc = \<lparr>pu_pages = pu_pages acc + 1, pu_applied = pu_applied acc + ar_applied res,
     pu_duplicate = pu_duplicate acc + ar_duplicate res, pu_conflict = pu_conflict acc + ar_conflict res,
     pu_cursor = max (pu_cursor acc) (ar_cursor res)\<rparr>"

text \<open>The work of a dispatcher: target, its URL, the leased deliveries, the time they were taken.\<close>

type_synonym job = "ustring \<times> ustring \<times> sync_delivery list \<times> int"

text \<open>What the scheduler thread holds between reserving a slot and queueing a job.\<close>

datatype sched = Idle | Reserved ustring | Claimed ustring ustring "sync_delivery list" int

text \<open>
  The dispatcher object with the state behind its ports, and what its threads hold: the
  scheduler's slot and the jobs the workers took.
\<close>

record 's dispatcher =
  dp_store :: 's
  dp_cursors :: "(ustring, ustring) dict"
  dp_active :: "(ustring, int) dict"
  dp_batches :: int
  dp_queue :: "job list"
  dp_stop :: bool
  dp_sched :: sched
  dp_busy :: "job list"

definition on_store :: "('a, 's) action \<Rightarrow> ('a, 's dispatcher) action" where
  "on_store m d = (case m (dp_store d) of (r, s) \<Rightarrow> (r, d\<lparr>dp_store := s\<rparr>))"

text \<open>One page: what the \<open>try\<close> block computes, its errors masked.\<close>

definition accept_page ::
    "dispatch_env \<Rightarrow> dispatch_config \<Rightarrow> 's sync_ports \<Rightarrow> ustring \<Rightarrow> int \<Rightarrow> http_reply \<Rightarrow> (sync_page \<times> ustring \<times> apply_result, 's dispatcher) action" where
  "accept_page env cfg ports target page_size reply d =
     (if hr_status reply \<in> {Some 400, Some 409} then
        (Inl (CursorExpired ''cursor_expired''), d\<lparr>dp_cursors := dict_pop target (dp_cursors d)\<rparr>)
      else case hr_status reply of
        None \<Rightarrow> (Inl (RuntimeErr ''sync_pull_unavailable''), d)
      | Some c \<Rightarrow>
         if c < 200 \<or> 300 \<le> c then (Inl (RuntimeErr ''sync_pull_unavailable''), d)
         else bindA (liftA (bindR (response_json env cfg reply) (parse_page (de_wire env)))) (\<lambda>(p, cursor).
           if page_size < int (length (pg_items p)) then
             raiseA (ValueErr ''remote page exceeds the requested limit'')
           else bindA (on_store (po_apply ports target p)) (\<lambda>res. returnA (p, cursor, res))) d)"

fun pull_pages ::
    "dispatch_env \<Rightarrow> dispatch_config \<Rightarrow> 's sync_ports \<Rightarrow> ustring \<Rightarrow> ustring \<Rightarrow> int \<Rightarrow> nat \<Rightarrow> ustring option \<Rightarrow> pull_result \<Rightarrow>
     (pull_result, 's dispatcher) action" where
  "pull_pages env cfg ports target url page_size 0 cursor acc d = (Inr acc, d)"
| "pull_pages env cfg ports target url page_size (Suc n) cursor acc d =
     (case on_store (po_get ports (url @ cp ''/sync/v1/changes'') page_size cursor) d of
        (Inl _, d1) \<Rightarrow> (Inl (RuntimeErr ''sync_pull_unavailable''), d1)
      | (Inr reply, d1) \<Rightarrow>
         (case accept_page env cfg ports target page_size reply d1 of
            (Inl e, d2) \<Rightarrow> (Inl (mask_page_error e), d2)
          | (Inr (p, cursor', res), d2) \<Rightarrow>
             let d3 = d2\<lparr>dp_cursors := dict_set target cursor' (dp_cursors d2)\<rparr>; acc' = add_page res acc in
             if pg_items p = [] \<and> \<not> pg_more p then (Inr acc', d3)
             else pull_pages env cfg ports target url page_size n (Some cursor') acc' d3))"

definition pull ::
    "dispatch_env \<Rightarrow> dispatch_config \<Rightarrow> 's sync_ports \<Rightarrow> ustring \<Rightarrow> int \<Rightarrow> int \<Rightarrow> (pull_result, 's dispatcher) action" where
  "pull env cfg ports target max_pages page_size d =
     (case dict_get (dc_targets cfg) target of
        None \<Rightarrow> (Inl (ValueErr ''target is not configured''), d)
      | Some url \<Rightarrow>
         (case check_positive [(''max_pages'', max_pages), (''page_size'', page_size)] '' must be a positive exact int'' of
            Inl e \<Rightarrow> (Inl e, d)
          | Inr _ \<Rightarrow>
             if MAX_PULL_PAGES < max_pages then (Inl (ValueErr ''max_pages exceeds the hard limit of 1000''), d)
             else if MAX_PAGE_SIZE < page_size then (Inl (ValueErr ''page_size exceeds the hard limit of 1000''), d)
             else pull_pages env cfg ports target url page_size (nat max_pages)
               (dict_get (dp_cursors d) target)
               \<lparr>pu_pages = 0, pu_applied = 0, pu_duplicate = 0, pu_conflict = 0, pu_cursor = 0\<rparr> d))"

subsection \<open>Draining\<close>

record drain_result =
  dn_drained :: bool
  dn_delivered :: nat
  dn_pending :: nat
  dn_leased :: nat
  dn_dead :: nat
  dn_exceeded :: bool

definition make_drain :: "bool \<Rightarrow> sync_status \<Rightarrow> bool \<Rightarrow> drain_result" where
  "make_drain drained st exceeded = \<lparr>dn_drained = drained, dn_delivered = su_delivered st, dn_pending = su_pending st,
     dn_leased = su_leased st, dn_dead = su_dead st, dn_exceeded = exceeded\<rparr>"

definition deadline_seconds :: "int \<Rightarrow> int result" where
  "deadline_seconds deadline =
     (if deadline < 0 then Inl (ValueErr ''deadline must be non-negative'') else Inr deadline)"

definition nothing_left :: "sync_status \<Rightarrow> 's dispatcher \<Rightarrow> bool" where
  "nothing_left actionable d = (su_pending actionable = 0 \<and> su_leased actionable = 0 \<and> dp_batches d = 0)"

text \<open>
  One turn of the loop.  With the background threads running the turn leaves the work to them:
  \<open>others\<close> is what they do meanwhile.
\<close>

definition drain_turn ::
    "dispatch_env \<Rightarrow> dispatch_config \<Rightarrow> 's sync_ports \<Rightarrow> bool \<Rightarrow> ('s dispatcher \<Rightarrow> 's dispatcher) \<Rightarrow> int \<Rightarrow>
     's dispatcher \<Rightarrow> ('s dispatcher, drain_result result \<times> 's dispatcher) loop_next" where
  "drain_turn env cfg ports background others expires d0 =
     (case (if background then (Inr \<lparr>dr_claimed = 0, dr_delivered = 0, dr_failed = 0\<rparr>, others d0)
            else on_store (dispatch_once env cfg ports None) d0) of
        (Inl e, d) \<Rightarrow> Leave (Inl e, d)
      | (Inr dispatch, d) \<Rightarrow>
         (case on_store (bindA (po_actionable ports) (\<lambda>a. bindA (po_status ports) (\<lambda>b. returnA (a, b)))) d of
            (Inl e, d) \<Rightarrow> Leave (Inl e, d)
          | (Inr (actionable, overall), d) \<Rightarrow>
             if nothing_left actionable d then Leave (Inr (make_drain True overall False), d)
             else
               let (t, s) = po_monotonic ports (dp_store d); remaining = expires - t in
               if remaining \<le> 0 then Leave (Inr (make_drain False overall True), d\<lparr>dp_store := s\<rparr>)
               else if dr_claimed dispatch = 0 then
                 Again (d\<lparr>dp_store := po_sleep ports (min (dc_poll cfg) remaining) s\<rparr>)
               else Again (d\<lparr>dp_store := s\<rparr>)))"

definition drain ::
    "dispatch_env \<Rightarrow> dispatch_config \<Rightarrow> 's sync_ports \<Rightarrow> bool \<Rightarrow> ('s dispatcher \<Rightarrow> 's dispatcher) \<Rightarrow> nat \<Rightarrow> int \<Rightarrow>
     's dispatcher \<Rightarrow> (drain_result result \<times> 's dispatcher) option" where
  "drain env cfg ports background others fuel deadline d =
     (let (t, s) = po_monotonic ports (dp_store d); d = d\<lparr>dp_store := s\<rparr> in
      case deadline_seconds deadline of
        Inl e \<Rightarrow> Some (Inl e, d)
      | Inr n \<Rightarrow> run_loop fuel (drain_turn env cfg ports background others (t + n)) d)"

subsection \<open>The background threads\<close>

definition active_count :: "(ustring, int) dict \<Rightarrow> ustring \<Rightarrow> int" where
  "active_count act t = (case dict_get act t of None \<Rightarrow> 0 | Some n \<Rightarrow> n)"

definition reserve_target :: "dispatch_config \<Rightarrow> ustring \<Rightarrow> 's dispatcher \<Rightarrow> bool \<times> 's dispatcher" where
  "reserve_target cfg t d =
     (if dc_in_flight cfg \<le> dp_batches d then (False, d)
      else if dc_per_target cfg \<le> active_count (dp_active d) t then (False, d)
      else (True, d\<lparr>dp_batches := dp_batches d + 1,
                    dp_active := dict_set t (active_count (dp_active d) t + 1) (dp_active d)\<rparr>))"

definition release_target :: "ustring \<Rightarrow> 's dispatcher \<Rightarrow> 's dispatcher" where
  "release_target t d =
     d\<lparr>dp_active := (if active_count (dp_active d) t \<le> 1 then dict_pop t (dp_active d)
                     else dict_set t (active_count (dp_active d) t - 1) (dp_active d)),
       dp_batches := dp_batches d - 1\<rparr>"

text \<open>
  \<open>_schedule_once\<close> for one target, in the three pieces between which other threads run:
  reserve, claim, queue.
\<close>

definition sched_reserve :: "dispatch_config \<Rightarrow> ustring \<Rightarrow> 's dispatcher \<Rightarrow> 's dispatcher" where
  "sched_reserve cfg t d =
     (if dp_stop d then d
      else case reserve_target cfg t d of (ok, d') \<Rightarrow> if ok then d'\<lparr>dp_sched := Reserved t\<rparr> else d')"

definition sched_claim :: "dispatch_config \<Rightarrow> 's sync_ports \<Rightarrow> ustring \<Rightarrow> int \<Rightarrow> ustring \<Rightarrow> 's dispatcher \<Rightarrow> unit result \<times> 's dispatcher" where
  "sched_claim cfg ports t now url d =
     (case on_store (po_claim ports t (dc_claim_size cfg) (dc_lease cfg)) d of
        (Inl e, d') \<Rightarrow> (Inl e, (release_target t d')\<lparr>dp_sched := Idle\<rparr>)
      | (Inr sds, d') \<Rightarrow>
         if sds = [] then (Inr (), (release_target t d')\<lparr>dp_sched := Idle\<rparr>)
         else (Inr (), d'\<lparr>dp_sched := Claimed t url sds now\<rparr>))"

text \<open>\<open>put_nowait\<close> on the queue of \<open>max_in_flight\<close> places raises when it is full.\<close>

definition sched_queue ::
    "dispatch_config \<Rightarrow> 's sync_ports \<Rightarrow> ustring \<Rightarrow> ustring \<Rightarrow> sync_delivery list \<Rightarrow> int \<Rightarrow> 's dispatcher \<Rightarrow> unit result \<times> 's dispatcher" where
  "sched_queue cfg ports t url sds now d =
     (if dp_stop d then
        (case on_store (fail_all ports (cp ''shutdown_deferred'') now False sds) d of
           (r, d') \<Rightarrow> (r, (release_target t d')\<lparr>dp_sched := Idle\<rparr>))
      else if dc_in_flight cfg \<le> int (length (dp_queue d)) then
        (Inl (OtherErr ''Full''), (release_target t d)\<lparr>dp_sched := Idle\<rparr>)
      else (Inr (), d\<lparr>dp_queue := dp_queue d @ [(t, url, sds, now)], dp_sched := Idle\<rparr>))"

text \<open>A worker takes the oldest job; later it finishes one, whatever the outcome.\<close>

definition worker_take :: "'s dispatcher \<Rightarrow> 's dispatcher" where
  "worker_take d = (case dp_queue d of [] \<Rightarrow> d
     | j # js \<Rightarrow> d\<lparr>dp_queue := js, dp_busy := dp_busy d @ [j]\<rparr>)"

definition run_job :: "dispatch_env \<Rightarrow> dispatch_config \<Rightarrow> 's sync_ports \<Rightarrow> bool \<Rightarrow> job \<Rightarrow> 's \<Rightarrow> 's" where
  "run_job env cfg ports stopping = (\<lambda>(t, url, sds, now) s.
     if stopping then snd (fail_all ports (cp ''shutdown_deferred'') now False sds s)
     else snd (send_batch env cfg ports t url sds now s))"

definition worker_finish :: "dispatch_env \<Rightarrow> dispatch_config \<Rightarrow> 's sync_ports \<Rightarrow> nat \<Rightarrow> bool \<Rightarrow> 's dispatcher \<Rightarrow> 's dispatcher" where
  "worker_finish env cfg ports i stopping d =
     (if i < length (dp_busy d) then
        (let j = dp_busy d ! i in
         release_target (fst j) (d\<lparr>dp_store := run_job env cfg ports stopping j (dp_store d),
           dp_busy := take i (dp_busy d) @ drop (Suc i) (dp_busy d)\<rparr>))
      else d)"

text \<open>\<open>_release_queued_work\<close>, one job.\<close>

definition drop_queued :: "dispatch_env \<Rightarrow> dispatch_config \<Rightarrow> 's sync_ports \<Rightarrow> 's dispatcher \<Rightarrow> 's dispatcher" where
  "drop_queued env cfg ports d = (case dp_queue d of [] \<Rightarrow> d
     | j # js \<Rightarrow> release_target (fst j)
         (d\<lparr>dp_store := run_job env cfg ports True j (dp_store d), dp_queue := js\<rparr>))"

fun release_queued_work :: "dispatch_env \<Rightarrow> dispatch_config \<Rightarrow> 's sync_ports \<Rightarrow> nat \<Rightarrow> 's dispatcher \<Rightarrow> 's dispatcher" where
  "release_queued_work env cfg ports 0 d = d"
| "release_queued_work env cfg ports (Suc n) d =
     (if dp_queue d = [] then d else release_queued_work env cfg ports n (drop_queued env cfg ports d))"

text \<open>
  The steps of all threads; what other users of the ports do to the state behind them is a
  step too.
\<close>

inductive dispatch_step ::
    "dispatch_env \<Rightarrow> dispatch_config \<Rightarrow> 's sync_ports \<Rightarrow> 's dispatcher \<Rightarrow> 's dispatcher \<Rightarrow> bool"
  for env cfg ports where
  ds_reserve: "dp_sched d = Idle \<Longrightarrow> dispatch_step env cfg ports d (sched_reserve cfg t d)"
| ds_claim: "dp_sched d = Reserved t \<Longrightarrow> dispatch_step env cfg ports d (snd (sched_claim cfg ports t now url d))"
| ds_queue: "dp_sched d = Claimed t url sds now \<Longrightarrow>
    dispatch_step env cfg ports d (snd (sched_queue cfg ports t url sds now d))"
| ds_take: "dispatch_step env cfg ports d (worker_take d)"
| ds_finish: "dispatch_step env cfg ports d (worker_finish env cfg ports i stopping d)"
| ds_drop: "dispatch_step env cfg ports d (drop_queued env cfg ports d)"
| ds_stop: "dispatch_step env cfg ports d (d\<lparr>dp_stop := True\<rparr>)"
| ds_start: "dispatch_step env cfg ports d (d\<lparr>dp_stop := False\<rparr>)"
| ds_other: "dispatch_step env cfg ports d (d\<lparr>dp_store := s, dp_cursors := c\<rparr>)"

inductive dispatch_reachable ::
    "dispatch_env \<Rightarrow> dispatch_config \<Rightarrow> 's sync_ports \<Rightarrow> 's dispatcher \<Rightarrow> bool"
  for env cfg ports where
  dispatch_start: "dispatch_reachable env cfg ports
    \<lparr>dp_store = s, dp_cursors = [], dp_active = [], dp_batches = 0, dp_queue = [], dp_stop = False,
     dp_sched = Idle, dp_busy = []\<rparr>"
| dispatch_more: "dispatch_reachable env cfg ports d \<Longrightarrow> dispatch_step env cfg ports d d' \<Longrightarrow> dispatch_reachable env cfg ports d'"

subsection \<open>Stopping\<close>

text \<open>
  \<open>stop\<close>: drain, tell the threads, wait for the scheduler (\<open>others\<close>), settle what is still
  queued, wait for the workers, and look again.
\<close>

definition stop_dispatcher ::
    "dispatch_env \<Rightarrow> dispatch_config \<Rightarrow> 's sync_ports \<Rightarrow> bool \<Rightarrow> ('s dispatcher \<Rightarrow> 's dispatcher) \<Rightarrow> nat \<Rightarrow> int \<Rightarrow>
     's dispatcher \<Rightarrow> (drain_result result \<times> 's dispatcher) option" where
  "stop_dispatcher env cfg ports background others fuel deadline d =
     (case deadline_seconds deadline of
        Inl e \<Rightarrow> Some (Inl e, d)
      | Inr n \<Rightarrow>
         let (t0, s0) = po_monotonic ports (dp_store d); (t1, s1) = po_monotonic ports s0 in
         (case drain env cfg ports background others fuel (max 0 (t0 + n - t1)) (d\<lparr>dp_store := s1\<rparr>) of
            None \<Rightarrow> None
          | Some (Inl e, d) \<Rightarrow> Some (Inl e, d)
          | Some (Inr res, d) \<Rightarrow>
             let d = others (d\<lparr>dp_stop := True\<rparr>);
                 d = others (release_queued_work env cfg ports (length (dp_queue d)) d) in
             Some (case on_store (bindA (po_status ports) (\<lambda>a. bindA (po_actionable ports) (\<lambda>b. returnA (a, b)))) d of
                 (Inl e, d) \<Rightarrow> (Inl e, d)
               | (Inr (overall, actionable), d) \<Rightarrow>
                  let drained = (dn_drained res \<and> nothing_left actionable d) in
                  (Inr (make_drain drained overall (dn_exceeded res \<or> \<not> drained)), d))))"

end
