(* ===== verification/Dispatcher_Facts.thy ===== *)
theory Dispatcher_Facts
  imports Sync_Dispatcher "HOL-Library.Multiset"
begin

section \<open>What the dispatcher promises\<close>

text \<open>
  The slots of the background threads, the accounting of a pass, what a peer has to answer
  before a delivery counts as delivered, the retry window, draining and pulling.  The laws a
  repository has to keep are locales, interpreted on the lite repository.
\<close>

subsection \<open>Slots\<close>

fun sched_slots :: "sched \<Rightarrow> ustring multiset" where
  "sched_slots Idle = {#}"
| "sched_slots (Reserved t) = {#t#}"
| "sched_slots (Claimed t url sds now) = {#t#}"

definition slots :: "'s dispatcher \<Rightarrow> ustring multiset" where
  "slots d = mset (map fst (dp_queue d)) + mset (map fst (dp_busy d)) + sched_slots (dp_sched d)"

text \<open>The counters of the dispatcher count the slots in use, within the limits.\<close>

definition counts :: "dispatch_config \<Rightarrow> ustring multiset \<Rightarrow> 's dispatcher \<Rightarrow> bool" where
  "counts cfg M d = (dp_batches d = int (size M)
     \<and> (\<forall>t. dict_get (dp_active d) t = (if t \<in># M then Some (int (count M t)) else None))
     \<and> int (size M) \<le> dc_in_flight cfg \<and> (\<forall>t. int (count M t) \<le> dc_per_target cfg))"

lemma counts_active: "counts cfg M d \<Longrightarrow> active_count (dp_active d) t = int (count M t)"
  by (simp add: counts_def active_count_def not_in_iff)

lemma counts_frame [simp]:
  "counts cfg M (d\<lparr>dp_store := s\<rparr>) = counts cfg M d" "counts cfg M (d\<lparr>dp_cursors := c\<rparr>) = counts cfg M d"
  "counts cfg M (d\<lparr>dp_queue := q\<rparr>) = counts cfg M d" "counts cfg M (d\<lparr>dp_stop := b\<rparr>) = counts cfg M d"
  "counts cfg M (d\<lparr>dp_sched := h\<rparr>) = counts cfg M d" "counts cfg M (d\<lparr>dp_busy := js\<rparr>) = counts cfg M d"
  by (simp_all add: counts_def)

lemma reserve_counts:
  assumes "counts cfg M d" "reserve_target cfg t d = (True, d')"
  shows "counts cfg (add_mset t M) d'"
proof -
  have room: "dp_batches d < dc_in_flight cfg" "int (count M t) < dc_per_target cfg"
    and d': "d' = d\<lparr>dp_batches := dp_batches d + 1, dp_active := dict_set t (int (count M t) + 1) (dp_active d)\<rparr>"
    using assms(2) counts_active [OF assms(1)] by (auto simp: reserve_target_def split: if_splits)
  show ?thesis using assms(1) room by (auto simp: counts_def d' dict_simps)
qed

lemma release_counts:
  assumes c: "counts cfg (add_mset t M) d"
  shows "counts cfg M (release_target t d)"
proof -
  have a: "active_count (dp_active d) t = int (count M t) + 1" using counts_active [OF c, of t] by simp
  have get: "dict_get (dp_active (release_target t d)) t' = (if t' \<in># M then Some (int (count M t')) else None)" for t'
  proof (cases "t' = t")
    case True
    then show ?thesis using c by (cases "t \<in># M") (simp_all add: counts_def release_target_def a dict_simps not_in_iff)
  next
    case False
    then have "dict_get (dp_active (release_target t d)) t' = dict_get (dp_active d) t'"
      by (simp add: release_target_def dict_simps)
    then show ?thesis using c False by (simp add: counts_def)
  qed
  have "int (count M t') \<le> dc_per_target cfg" for t'
  proof -
    have "int (count (add_mset t M) t') \<le> dc_per_target cfg" using c by (simp add: counts_def del: count_add_mset)
    then show ?thesis by (simp split: if_splits)
  qed
  then show ?thesis using c get by (simp add: counts_def) (simp add: release_target_def)
qed

lemma release_frame [simp]:
  "dp_queue (release_target t d) = dp_queue d" "dp_busy (release_target t d) = dp_busy d"
  "dp_sched (release_target t d) = dp_sched d" "dp_store (release_target t d) = dp_store d"
  "dp_stop (release_target t d) = dp_stop d" "dp_cursors (release_target t d) = dp_cursors d"
  by (simp_all add: release_target_def)

lemma reserve_frame: "reserve_target cfg t d = (ok, d') \<Longrightarrow> dp_queue d' = dp_queue d \<and> dp_busy d' = dp_busy d
    \<and> dp_sched d' = dp_sched d \<and> (\<not> ok \<longrightarrow> d' = d)"
  by (auto simp: reserve_target_def split: if_splits)

lemma on_store_frame: "on_store m d = (r, d') \<Longrightarrow> \<exists>s. d' = d\<lparr>dp_store := s\<rparr>"
  by (auto simp: on_store_def split: prod.splits)

definition slots_ok :: "dispatch_config \<Rightarrow> 's dispatcher \<Rightarrow> bool" where
  "slots_ok cfg d = counts cfg (slots d) d"

lemma slots_simps [simp]:
  "slots (d\<lparr>dp_store := s\<rparr>) = slots d" "slots (d\<lparr>dp_cursors := c\<rparr>) = slots d" "slots (d\<lparr>dp_stop := b\<rparr>) = slots d"
  "slots (release_target t d) = slots d"
  by (simp_all add: slots_def)

lemma sched_reserve_ok: "slots_ok cfg d \<Longrightarrow> dp_sched d = Idle \<Longrightarrow> slots_ok cfg (sched_reserve cfg t d)"
proof -
  assume ok: "slots_ok cfg d" and idle: "dp_sched d = Idle"
  obtain b d' where r: "reserve_target cfg t d = (b, d')" by (cases "reserve_target cfg t d")
  show ?thesis
  proof (cases "dp_stop d \<or> \<not> b")
    case False
    then have "counts cfg (add_mset t (slots d)) d'" using ok r by (auto simp: slots_ok_def intro: reserve_counts)
    then show ?thesis using False r reserve_frame [OF r] idle by (simp add: sched_reserve_def slots_ok_def slots_def)
  qed (use ok r reserve_frame [OF r] in \<open>auto simp: sched_reserve_def\<close>)
qed

text \<open>Giving up the slot the scheduler holds.\<close>

lemma sched_give_up:
  assumes "slots_ok cfg d" "sched_slots (dp_sched d) = {#t#}"
  shows "slots_ok cfg ((release_target t (d\<lparr>dp_store := s\<rparr>))\<lparr>dp_sched := Idle\<rparr>)"
proof -
  have "counts cfg (add_mset t (slots (d\<lparr>dp_sched := Idle\<rparr>))) d" using assms by (simp add: slots_ok_def slots_def)
  then have "counts cfg (slots (d\<lparr>dp_sched := Idle\<rparr>)) (release_target t (d\<lparr>dp_store := s\<rparr>))" by (intro release_counts) simp
  then show ?thesis by (simp add: slots_ok_def slots_def)
qed

lemma sched_claim_ok: "slots_ok cfg d \<Longrightarrow> dp_sched d = Reserved t \<Longrightarrow> slots_ok cfg (snd (sched_claim cfg ports t now url d))"
proof -
  assume ok: "slots_ok cfg d" and held: "dp_sched d = Reserved t"
  obtain r s where "on_store (po_claim ports t (dc_claim_size cfg) (dc_lease cfg)) d = (r, d\<lparr>dp_store := s\<rparr>)"
    by (metis on_store_frame surj_pair)
  then show ?thesis
    using ok held sched_give_up [OF ok, of t s] by (auto simp: sched_claim_def slots_ok_def slots_def split: sum.splits)
qed

lemma sched_queue_ok: "slots_ok cfg d \<Longrightarrow> dp_sched d = Claimed t url sds now \<Longrightarrow>
    slots_ok cfg (snd (sched_queue cfg ports t url' sds' now' d))"
proof -
  assume ok: "slots_ok cfg d" and held: "dp_sched d = Claimed t url sds now"
  obtain r s where "on_store (fail_all ports (cp ''shutdown_deferred'') now' False sds') d = (r, d\<lparr>dp_store := s\<rparr>)"
    by (metis on_store_frame surj_pair)
  then show ?thesis
    using ok held sched_give_up [OF ok, of t s] sched_give_up [OF ok, of t "dp_store d"]
    by (auto simp: sched_queue_def slots_ok_def slots_def)
qed

lemma worker_take_ok: "slots_ok cfg d \<Longrightarrow> slots_ok cfg (worker_take d)"
  by (auto simp: worker_take_def slots_ok_def slots_def ac_simps split: list.splits)

lemma worker_finish_ok: "slots_ok cfg d \<Longrightarrow> slots_ok cfg (worker_finish env cfg' ports i stopping d)"
proof (cases "i < length (dp_busy d)")
  case True
  assume ok: "slots_ok cfg d"
  let ?j = "dp_busy d ! i" and ?rest = "take i (dp_busy d) @ drop (Suc i) (dp_busy d)"
  have "mset (map fst (dp_busy d)) = add_mset (fst ?j) (mset (map fst ?rest))"
    using id_take_nth_drop [OF True] by (metis add_mset_add_single list.simps(9) map_append mset.simps(2) mset_append union_mset_add_mset_right)
  then have "slots d = add_mset (fst ?j) (slots (d\<lparr>dp_busy := ?rest\<rparr>))" by (simp add: slots_def)
  with ok have "counts cfg (slots (d\<lparr>dp_busy := ?rest\<rparr>)) (release_target (fst ?j) (d\<lparr>dp_store := s, dp_busy := ?rest\<rparr>))" for s
    by (intro release_counts) (simp add: slots_ok_def)
  then show ?thesis using True by (simp add: worker_finish_def slots_ok_def Let_def slots_def)
qed (simp add: worker_finish_def)

lemma drop_queued_ok: "slots_ok cfg d \<Longrightarrow> slots_ok cfg (drop_queued env cfg' ports d)"
proof (cases "dp_queue d")
  case (Cons j js)
  assume ok: "slots_ok cfg d"
  then have "counts cfg (add_mset (fst j) (slots (d\<lparr>dp_queue := js\<rparr>))) d" by (simp add: slots_ok_def slots_def Cons)
  then have "counts cfg (slots (d\<lparr>dp_queue := js\<rparr>)) (release_target (fst j) (d\<lparr>dp_store := s, dp_queue := js\<rparr>))" for s
    by (intro release_counts) simp
  then show ?thesis by (simp add: drop_queued_def Cons slots_ok_def slots_def)
qed (simp add: drop_queued_def)

lemma slots_ok_frame [simp]:
  "slots_ok cfg (d\<lparr>dp_stop := b\<rparr>) = slots_ok cfg d" "slots_ok cfg (d\<lparr>dp_store := s, dp_cursors := c\<rparr>) = slots_ok cfg d"
  by (simp_all add: slots_ok_def slots_def)

lemmas thread_steps_ok = sched_reserve_ok sched_claim_ok sched_queue_ok worker_take_ok worker_finish_ok drop_queued_ok

lemma dispatch_step_ok: "dispatch_step env cfg ports d d' \<Longrightarrow> slots_ok cfg d \<Longrightarrow> slots_ok cfg d'"
  by (induction rule: dispatch_step.induct) (auto intro: thread_steps_ok)

lemma check_positive_Inr [simp]: "check_positive named m = Inr u \<longleftrightarrow> (\<forall>p \<in> set named. 1 \<le> snd p)"
  by (induction named) (auto simp: check_positive_def)

lemma make_dispatcher_limits:
  "make_dispatcher node targets claims flight per lease timeout poll limit = Inr cfg \<Longrightarrow>
    1 \<le> dc_in_flight cfg \<and> 1 \<le> dc_per_target cfg \<and> dc_per_target cfg \<le> dc_in_flight cfg \<and> 1 \<le> dc_claim_size cfg \<and> 1 \<le> dc_lease cfg"
  by (auto simp: make_dispatcher_def)

text \<open>
  C18: However the scheduler, the workers and a shutdown interleave, the counters of active
  batches and of active batches per target are exactly the slots held by queued jobs, by
  running workers and by the scheduler, never above their limits; so a claimed batch always
  finds a place in the queue.
\<close>
theorem slots_are_accounted:
  assumes "dispatch_reachable env cfg ports d"
    and "make_dispatcher node targets claims flight per lease timeout poll limit = Inr cfg"
  shows "counts cfg (slots d) d
    \<and> (\<forall>t url sds now. dp_sched d = Claimed t url sds now \<longrightarrow> int (length (dp_queue d)) < dc_in_flight cfg)"
proof -
  have limits: "0 \<le> dc_in_flight cfg" "0 \<le> dc_per_target cfg" using make_dispatcher_limits [OF assms(2)] by auto
  have ok: "slots_ok cfg d"
    using assms(1)
  proof (induction rule: dispatch_reachable.induct)
    case (dispatch_start s)
    show ?case using limits by (simp add: slots_ok_def slots_def counts_def)
  qed (rule dispatch_step_ok)
  have "int (length (dp_queue d)) < dc_in_flight cfg" if "dp_sched d = Claimed t url sds now" for t url sds now
  proof -
    have "length (dp_queue d) < size (slots d)" by (simp add: slots_def that)
    then show ?thesis using ok by (auto simp: slots_ok_def counts_def)
  qed
  then show ?thesis using ok by (auto simp: slots_ok_def)
qed

subsection \<open>The accounting of a pass\<close>

lemma bindA_Inr: "bindA m f s = (Inr y, s') \<longleftrightarrow> (\<exists>x s1. m s = (Inr x, s1) \<and> f x s1 = (Inr y, s'))"
  by (auto simp: bindA_def split: prod.splits sum.splits)

lemma returnA_Inr [simp]: "returnA x s = (r, s') \<longleftrightarrow> r = Inr x \<and> s' = s"
  by (auto simp: returnA_def)

lemma reject_counts: "reject ports sds now e s = (Inr c, s') \<Longrightarrow> c = (0, length sds)"
  by (auto simp: reject_def bindA_Inr split: prod.splits)

lemma send_counts: "send_batch env cfg ports t url sds now s = (Inr c, s') \<Longrightarrow> c = (0, length sds) \<or> c = (length sds, 0)"
  by (auto simp: send_batch_def settle_reply_def bindA_Inr dest: reject_counts split: sum.splits prod.splits option.splits)

definition balanced :: "dispatch_result \<Rightarrow> bool" where
  "balanced r = (dr_claimed r = dr_delivered r + dr_failed r)"

lemma dispatch_targets_balanced:
  "dispatch_targets env cfg ports now ts n acc s = (Inr r, s') \<Longrightarrow> balanced acc \<Longrightarrow> balanced r"
proof (induction ts arbitrary: n acc s)
  case (Cons p ts)
  obtain t url where p: "p = (t, url)" by (cases p)
  show ?case
  proof (cases "dc_in_flight cfg \<le> n")
    case False
    obtain sds s1 where claim: "po_claim ports t (dc_claim_size cfg) (dc_lease cfg) s = (Inr sds, s1)"
      and rest: "(if sds = [] then dispatch_targets env cfg ports now ts n acc
        else bindA (send_batch env cfg ports t url sds now) (\<lambda>(sent, rejected).
          dispatch_targets env cfg ports now ts (n + 1) \<lparr>dr_claimed = dr_claimed acc + length sds,
            dr_delivered = dr_delivered acc + sent, dr_failed = dr_failed acc + rejected\<rparr>)) s1 = (Inr r, s')"
      using Cons.prems(1) False by (auto simp: p bindA_Inr)
    show ?thesis
    proof (cases "sds = []")
      case True
      then show ?thesis using rest Cons.IH Cons.prems(2) by simp
    next
      case False
      then obtain a b s2 where "send_batch env cfg ports t url sds now s1 = (Inr (a, b), s2)"
        and "dispatch_targets env cfg ports now ts (n + 1) \<lparr>dr_claimed = dr_claimed acc + length sds,
            dr_delivered = dr_delivered acc + a, dr_failed = dr_failed acc + b\<rparr> s2 = (Inr r, s')"
        using rest by (auto simp: bindA_Inr)
      with Cons.IH send_counts Cons.prems(2) show ?thesis by (fastforce simp: balanced_def)
    qed
  qed (use Cons.prems in \<open>simp add: p\<close>)
qed simp

subsection \<open>What counts as delivered\<close>

text \<open>
  The laws of a ledger of deliveries: only an acknowledgement writes it, and only for the
  deliveries it names, which a claim gives for its target.
\<close>

locale delivery_ledger =
  fixes ports :: "'s sync_ports" and ledger :: "'s \<Rightarrow> (ustring \<times> ustring) set"
  assumes post: "ledger (snd (po_post ports u b s)) = ledger s"
    and claim: "ledger (snd (po_claim ports t n m s)) = ledger s"
    and fail: "ledger (snd (po_fail ports sd code now s)) = ledger s"
    and dead: "ledger (snd (po_dead ports sd code now s)) = ledger s"
    and uniform: "ledger (snd (po_uniform ports c s)) = ledger s"
    and ack: "ledger (snd (po_ack ports sds rs s)) \<subseteq> ledger s \<union> (\<lambda>sd. (sd_target sd, ev_id (sd_event sd))) ` set sds"
    and claimed: "po_claim ports t n m s = (Inr sds, s') \<Longrightarrow> sd \<in> set sds \<Longrightarrow> sd_target sd = t"

text \<open>
  A peer confirms a delivery: it answers the batch with a success status and a body that names
  this batch, its digest and exactly its events.
\<close>

definition confirmed :: "dispatch_env \<Rightarrow> dispatch_config \<Rightarrow> 's sync_ports \<Rightarrow> ustring \<times> ustring \<Rightarrow> bool" where
  "confirmed env cfg ports p = (\<exists>url sds bt bs reply res s s'. (fst p, url) \<in> set (dc_targets cfg)
     \<and> snd p \<in> set (map (ev_id \<circ> sd_event) sds)
     \<and> batch_of env cfg (fst p) sds = Inr bt \<and> canonical_bytes (de_wire env) bt = Inr bs
     \<and> po_post ports (url @ cp ''/sync/v1/batches'') bs s = (Inr reply, s')
     \<and> reply_error reply = None \<and> answer_of env cfg bt sds reply = Inr res)"

lemma snd_bindA: "snd (bindA m f s) = (case m s of (Inl e, s') \<Rightarrow> s' | (Inr x, s') \<Rightarrow> snd (f x s'))"
  by (simp add: bindA_def split: prod.splits sum.splits)

context delivery_ledger
begin

lemma failure_time_ledger: "ledger (snd (failure_time ports now n s)) = ledger s"
proof -
  let ?cap = "seconds (min 60 (2 ^ nat (max (n - 1) 0)))"
  obtain j s1 where u: "po_uniform ports ?cap s = (j, s1)" by (cases "po_uniform ports ?cap s")
  then have "ledger s1 = ledger s" using uniform by (metis snd_conv)
  then show ?thesis by (simp add: failure_time_def u)
qed

lemma fail_all_ledger: "ledger (snd (fail_all ports code now terminal sds s)) = ledger s"
proof (induction sds arbitrary: s)
  case (Cons sd sds)
  obtain r1 s1 where t: "(if terminal then returnA now else failure_time ports now (sd_attempt sd)) s = (r1, s1)"
    by (cases "(if terminal then returnA now else failure_time ports now (sd_attempt sd)) s")
  have l1: "ledger s1 = ledger s"
    using t failure_time_ledger [of now "sd_attempt sd" s] by (auto split: if_splits)
  show ?case
  proof (cases r1)
    case (Inr tt)
    obtain r2 s2 where m: "(if terminal then po_dead ports else po_fail ports) sd code tt s1 = (r2, s2)"
      by (cases "(if terminal then po_dead ports else po_fail ports) sd code tt s1")
    have "ledger (snd ((if terminal then po_dead ports else po_fail ports) sd code tt s1)) = ledger s1"
      using dead fail by (cases terminal) simp_all
    then have l2: "ledger s2 = ledger s1" by (simp add: m)
    have "snd (fail_all ports code now terminal (sd # sds) s) =
        (case r2 of Inl e \<Rightarrow> s2 | Inr x \<Rightarrow> snd (fail_all ports code now terminal sds s2))"
      by (simp only: fail_all.simps snd_bindA t m Inr prod.case sum.case)
    then show ?thesis using Cons.IH [of s2] l1 l2 by (cases r2) simp_all
  qed (simp add: snd_bindA t l1)
qed (simp add: returnA_def)

lemma reject_ledger: "ledger (snd (reject ports sds now e s)) = ledger s"
proof (cases e)
  case (Pair code terminal)
  obtain r s1 where f: "fail_all ports (cp code) now terminal sds s = (r, s1)"
    by (cases "fail_all ports (cp code) now terminal sds s")
  have "ledger s1 = ledger s" using fail_all_ledger [of "cp code" now terminal sds s] by (simp add: f)
  then show ?thesis by (cases r) (simp_all add: Pair reject_def snd_bindA returnA_def f)
qed

lemma send_ledger:
  assumes "p \<in> ledger (snd (send_batch env cfg ports t url sds now s))" "p \<notin> ledger s"
    and target: "(t, url) \<in> set (dc_targets cfg)" and own: "\<forall>sd \<in> set sds. sd_target sd = t"
  shows "confirmed env cfg ports p"
proof -
  let ?out = "bindR (batch_of env cfg t sds) (\<lambda>bt. bindR (canonical_bytes (de_wire env) bt) (\<lambda>bs. Inr (bt, bs)))"
  have "?out \<noteq> Inl e" for e using assms(1,2) by (auto simp: send_batch_def)
  then obtain bt bs where b: "batch_of env cfg t sds = Inr bt" "canonical_bytes (de_wire env) bt = Inr bs"
    by (cases ?out) auto
  obtain r1 s1 where r1: "po_post ports (url @ cp ''/sync/v1/batches'') bs s = (r1, s1)"
    by (cases "po_post ports (url @ cp ''/sync/v1/batches'') bs s")
  have l1: "ledger s1 = ledger s" using r1 post by (metis snd_conv)
  have "r1 \<noteq> Inl e" for e using assms(1,2) reject_ledger l1 by (auto simp: send_batch_def b r1)
  then obtain reply where r: "po_post ports (url @ cp ''/sync/v1/batches'') bs s = (Inr reply, s1)" using r1 by (cases r1) auto
  have set1: "p \<in> ledger (snd (settle_reply env cfg ports bt sds now reply s1))" using assms(1) by (simp add: send_batch_def b r)
  have ok1: "reply_error reply = None"
    using set1 assms(2) reject_ledger l1 by (cases "reply_error reply") (simp_all add: settle_reply_def)
  then obtain res where ok2: "answer_of env cfg bt sds reply = Inr res"
    using set1 assms(2) reject_ledger l1 by (cases "answer_of env cfg bt sds reply") (auto simp: settle_reply_def)
  note ok = ok1 ok2
  have ackd: "p \<in> ledger (snd (po_ack ports sds (br_receipts res) s1))"
  proof (cases "po_ack ports sds (br_receipts res) s1")
    case (Pair r s2)
    then show ?thesis using set1 by (cases r) (simp_all add: settle_reply_def ok snd_bindA returnA_def)
  qed
  then have "p \<in> (\<lambda>sd. (sd_target sd, ev_id (sd_event sd))) ` set sds" using ack l1 assms(2) by blast
  then show ?thesis using b r ok target own unfolding confirmed_def by (fastforce simp: comp_def)
qed

lemma dispatch_ledger:
  "p \<in> ledger (snd (dispatch_targets env cfg ports now ts n acc s)) \<Longrightarrow> p \<notin> ledger s \<Longrightarrow> set ts \<subseteq> set (dc_targets cfg) \<Longrightarrow>
    confirmed env cfg ports p"
proof (induction ts arbitrary: n acc s)
  case (Cons q ts)
  obtain t url where q: "q = (t, url)" by (cases q)
  obtain r s1 where c: "po_claim ports t (dc_claim_size cfg) (dc_lease cfg) s = (r, s1)"
    by (cases "po_claim ports t (dc_claim_size cfg) (dc_lease cfg) s")
  have l1: "ledger s1 = ledger s" using c claim by (metis snd_conv)
  have "\<not> dc_in_flight cfg \<le> n" using Cons.prems(1,2) by (auto simp: q returnA_def)
  moreover from this have "r \<noteq> Inl e" for e using Cons.prems(1,2) l1 by (auto simp: q snd_bindA c)
  ultimately obtain sds where r: "r = Inr sds" and room: "\<not> dc_in_flight cfg \<le> n" by (cases r) auto
  show ?case
  proof (cases "sds = []")
    case True
    then show ?thesis using Cons.prems l1 room by (intro Cons.IH [of n acc s1]) (auto simp: q c r snd_bindA)
  next
    case False
    obtain r2 s2 where snt: "send_batch env cfg ports t url sds now s1 = (r2, s2)"
      by (cases "send_batch env cfg ports t url sds now s1")
    have own: "\<forall>sd \<in> set sds. sd_target sd = t" using c r claimed by blast
    show ?thesis
    proof (cases "p \<in> ledger s2")
      case True
      then show ?thesis
        using send_ledger [of p env cfg t url sds now s1] snt own l1 Cons.prems by (auto simp: q)
    next
      case notyet: False
      obtain a b where r2: "r2 = Inr (a, b)" and go: "p \<in> ledger (snd (dispatch_targets env cfg ports now ts (n + 1)
        \<lparr>dr_claimed = dr_claimed acc + length sds, dr_delivered = dr_delivered acc + a, dr_failed = dr_failed acc + b\<rparr> s2))"
        using Cons.prems(1) notyet False room by (auto simp: q c r snd_bindA snt split: sum.splits)
      show ?thesis using Cons.IH [OF go notyet] Cons.prems(3) by simp
    qed
  qed
qed (simp add: returnA_def)

end

subsection \<open>What every operation of the dispatcher keeps\<close>

text \<open>An invariant of the state behind the ports, kept by each port.\<close>

definition keeps_inv :: "('s \<Rightarrow> bool) \<Rightarrow> ('a, 's) action \<Rightarrow> bool" where
  "keeps_inv I m = (\<forall>s. I s \<longrightarrow> I (snd (m s)))"

lemma keeps_return: "keeps_inv I (returnA x)"
  by (simp add: keeps_inv_def returnA_def)

lemma keeps_raise: "keeps_inv I (raiseA e)"
  by (simp add: keeps_inv_def raiseA_def)

lemma keeps_lift: "keeps_inv I (liftA r)"
  by (simp add: keeps_inv_def liftA_def)

lemma keeps_bind: "keeps_inv I m \<Longrightarrow> (\<And>x. keeps_inv I (f x)) \<Longrightarrow> keeps_inv I (bindA m f)"
  unfolding keeps_inv_def snd_bindA by (metis (mono_tags, lifting) prod.case_eq_if snd_conv sum.case_eq_if)

lemmas keeps_basic = keeps_return keeps_raise keeps_lift keeps_bind

text \<open>On the dispatcher object.\<close>

abbreviation on_disp :: "('s \<Rightarrow> bool) \<Rightarrow> 's dispatcher \<Rightarrow> bool" where
  "on_disp I \<equiv> \<lambda>d. I (dp_store d)"

lemma keeps_on_store: "keeps_inv I m \<Longrightarrow> keeps_inv (on_disp I) (on_store m)"
  by (auto simp: keeps_inv_def on_store_def split: prod.splits)

lemma keeps_invD: "keeps_inv I m \<Longrightarrow> I s \<Longrightarrow> m s = (r, s') \<Longrightarrow> I s'"
  unfolding keeps_inv_def by (metis snd_conv)

locale port_invariant =
  fixes ports :: "'s sync_ports" and I :: "'s \<Rightarrow> bool"
  assumes keeps_post: "keeps_inv I (po_post ports u b)"
    and keeps_get: "keeps_inv I (po_get ports u n c)"
    and keeps_claim: "keeps_inv I (po_claim ports t n m)"
    and keeps_ack: "keeps_inv I (po_ack ports sds rs)"
    and keeps_fail: "keeps_inv I (po_fail ports sd code now)"
    and keeps_dead: "keeps_inv I (po_dead ports sd code now)"
    and keeps_status: "keeps_inv I (po_status ports)"
    and keeps_actionable: "keeps_inv I (po_actionable ports)"
    and keeps_apply: "keeps_inv I (po_apply ports t p)"
    and keeps_uniform: "I s \<Longrightarrow> I (snd (po_uniform ports cap s))"
    and keeps_now: "I s \<Longrightarrow> I (snd (po_now ports s))"
    and keeps_monotonic: "I s \<Longrightarrow> I (snd (po_monotonic ports s))"
    and keeps_sleep: "I s \<Longrightarrow> I (po_sleep ports n s)"
begin

lemma failure_time_keeps: "keeps_inv I (failure_time ports now n)"
  unfolding keeps_inv_def
proof (intro allI impI)
  fix s assume "I s"
  then show "I (snd (failure_time ports now n s))"
    using keeps_uniform [of s "seconds (min 60 (2 ^ nat (max (n - 1) 0)))"]
    by (cases "po_uniform ports (seconds (min 60 (2 ^ nat (max (n - 1) 0)))) s") (simp add: failure_time_def)
qed

lemma fail_all_keeps: "keeps_inv I (fail_all ports code now terminal sds)"
proof (induction sds)
  case (Cons sd sds)
  then show ?case
    using failure_time_keeps keeps_fail keeps_dead by (cases terminal) (auto intro!: keeps_basic)
qed (simp add: keeps_return)

lemma reject_keeps: "keeps_inv I (reject ports sds now e)"
  by (cases e) (auto simp: reject_def intro!: keeps_basic fail_all_keeps)

lemma settle_reply_keeps: "keeps_inv I (settle_reply env cfg ports bt sds now reply)"
  by (cases "reply_error reply"; cases "answer_of env cfg bt sds reply")
    (simp_all add: settle_reply_def reject_keeps keeps_bind keeps_ack keeps_return)

lemma send_keeps: "keeps_inv I (send_batch env cfg ports t url sds now)"
  unfolding keeps_inv_def
proof (intro allI impI)
  fix s assume s: "I s"
  show "I (snd (send_batch env cfg ports t url sds now s))"
  proof (cases "bindR (batch_of env cfg t sds) (\<lambda>bt. bindR (canonical_bytes (de_wire env) bt) (\<lambda>bs. Inr (bt, bs)))")
    case (Inr p)
    obtain bt bs where p: "p = (bt, bs)" by (cases p)
    obtain r s1 where r: "po_post ports (url @ cp ''/sync/v1/batches'') bs s = (r, s1)"
      by (cases "po_post ports (url @ cp ''/sync/v1/batches'') bs s")
    have "I s1" by (rule keeps_invD [OF keeps_post s r])
    then show ?thesis
      using reject_keeps settle_reply_keeps Inr p r by (cases r) (simp_all add: send_batch_def keeps_inv_def)
  qed (simp add: send_batch_def s)
qed

lemma dispatch_targets_keeps: "keeps_inv I (dispatch_targets env cfg ports now ts n acc)"
proof (induction ts arbitrary: n acc)
  case (Cons p ts)
  then show ?case
    by (cases p) (auto intro!: keeps_basic keeps_claim send_keeps)
qed (simp add: keeps_return)

lemma dispatch_at_keeps: "keeps_inv I (dispatch_at env cfg ports now)"
  by (simp add: dispatch_at_def dispatch_targets_keeps)

lemma dispatch_once_keeps: "keeps_inv I (dispatch_once env cfg ports now)"
proof (cases now)
  case None
  have "I (snd (dispatch_once env cfg ports None s))" if "I s" for s
    using keeps_now [OF that] dispatch_at_keeps unfolding keeps_inv_def
    by (cases "po_now ports s") (simp add: dispatch_once_def)
  then show ?thesis by (simp add: None keeps_inv_def)
next
  case (Some n)
  then show ?thesis using dispatch_at_keeps by (simp add: keeps_inv_def dispatch_once_def)
qed

lemma accept_page_keeps: "keeps_inv (on_disp I) (accept_page env cfg ports t n reply)"
proof -
  have "keeps_inv (on_disp I) (bindA (liftA (bindR (response_json env cfg reply) (parse_page (de_wire env)))) (\<lambda>(p, cursor).
      if n < int (length (pg_items p)) then raiseA (ValueErr ''remote page exceeds the requested limit'')
      else bindA (on_store (po_apply ports t p)) (\<lambda>res. returnA (p, cursor, res))))"
    by (auto intro!: keeps_basic keeps_on_store keeps_apply split: prod.splits)
  then show ?thesis by (auto simp: accept_page_def keeps_inv_def split: option.splits)
qed

lemma pull_pages_keeps: "keeps_inv (on_disp I) (pull_pages env cfg ports t url n m c acc)"
proof (induction m arbitrary: c acc)
  case (Suc m)
  show ?case
    unfolding keeps_inv_def
  proof (intro allI impI)
    fix d :: "'s dispatcher"
    assume d: "I (dp_store d)"
    obtain r d1 where g: "on_store (po_get ports (url @ cp ''/sync/v1/changes'') n c) d = (r, d1)"
      by (cases "on_store (po_get ports (url @ cp ''/sync/v1/changes'') n c) d")
    have d1: "I (dp_store d1)" by (rule keeps_invD [OF keeps_on_store [OF keeps_get] _ g]) (rule d)
    show "I (dp_store (snd (pull_pages env cfg ports t url n (Suc m) c acc d)))"
    proof (cases r)
      case (Inr reply)
      obtain r2 d2 where a: "accept_page env cfg ports t n reply d1 = (r2, d2)" by (cases "accept_page env cfg ports t n reply d1")
      have d2: "I (dp_store d2)" by (rule keeps_invD [OF accept_page_keeps _ a]) (rule d1)
      show ?thesis
      proof (cases r2)
        case (Inr q)
        obtain p c' res where q: "q = (p, c', res)" by (cases q)
        show ?thesis
          using Suc.IH [of "Some c'" "add_page res acc"] d2
          by (simp add: g \<open>r = Inr reply\<close> a Inr q Let_def keeps_inv_def)
      qed (simp add: g Inr a d2)
    qed (simp add: g d1)
  qed
qed (simp add: keeps_inv_def)

lemma pull_keeps: "keeps_inv (on_disp I) (pull env cfg ports t m n)"
  using pull_pages_keeps by (auto simp: keeps_inv_def pull_def split: option.splits sum.splits)

lemma run_job_keeps: "I s \<Longrightarrow> I (run_job env cfg ports stopping j s)"
  using fail_all_keeps send_keeps by (cases j) (simp add: run_job_def keeps_inv_def)

lemma worker_finish_keeps: "I (dp_store d) \<Longrightarrow> I (dp_store (worker_finish env cfg ports i stopping d))"
  by (simp add: worker_finish_def run_job_keeps Let_def)

lemma drop_queued_keeps: "I (dp_store d) \<Longrightarrow> I (dp_store (drop_queued env cfg ports d))"
  by (auto simp: drop_queued_def run_job_keeps split: list.splits)

lemma sched_claim_keeps: "I (dp_store d) \<Longrightarrow> I (dp_store (snd (sched_claim cfg ports t now url d)))"
proof -
  assume d: "I (dp_store d)"
  obtain r d' where c: "on_store (po_claim ports t (dc_claim_size cfg) (dc_lease cfg)) d = (r, d')"
    by (cases "on_store (po_claim ports t (dc_claim_size cfg) (dc_lease cfg)) d")
  have "I (dp_store d')" by (rule keeps_invD [OF keeps_on_store [OF keeps_claim] _ c]) (rule d)
  then show ?thesis by (cases r) (simp_all add: sched_claim_def c)
qed

lemma sched_queue_keeps: "I (dp_store d) \<Longrightarrow> I (dp_store (snd (sched_queue cfg ports t url sds now d)))"
proof -
  assume d: "I (dp_store d)"
  obtain r d' where c: "on_store (fail_all ports (cp ''shutdown_deferred'') now False sds) d = (r, d')"
    by (cases "on_store (fail_all ports (cp ''shutdown_deferred'') now False sds) d")
  have "I (dp_store d')" by (rule keeps_invD [OF keeps_on_store [OF fail_all_keeps] _ c]) (rule d)
  then show ?thesis using d by (simp add: sched_queue_def c)
qed

end

subsection \<open>Answers that settle nothing, or too much\<close>

text \<open>A batch that cannot be built (too many bytes) leaves its deliveries leased.\<close>

lemma unbuildable_batch_settles_nothing:
  "batch_of env cfg t sds = Inl e \<Longrightarrow> send_batch env cfg ports t url sds now s = (Inl e, s)"
  by (simp add: send_batch_def)

text \<open>A stream that breaks after a success status is final for every delivery of the batch.\<close>

lemma broken_body_is_terminal:
  "settle_reply env cfg ports bt sds now \<lparr>hr_status = Some 200, hr_body = Some (BrokenStream e # cs)\<rparr> =
    reject ports sds now (''remote_protocol_error'', True)"
  by (simp add: settle_reply_def reply_error_def answer_of_def response_json_def)

text \<open>A page that promises more and holds nothing raises an error that is not masked.\<close>

lemma empty_page_with_more_leaks:
  assumes "exact_dict [''items'', ''snapshot_seq'', ''next_cursor'', ''has_more''] ''invalid remote sync page'' j =
      Inr [JList [], JInt n, JStr (c # cursor), JBool True]" "0 \<le> n"
  shows "parse_page env j = Inl (IndexErr ''list index out of range'')
    \<and> mask_page_error (IndexErr ''list index out of range'') = IndexErr ''list index out of range''"
  using assms by (simp add: parse_page_def exact_fields_def exact_list_def)

subsection \<open>A slot in use\<close>

theorem slots_are_accounted_witness:
  "\<exists>cfg d. make_dispatcher (cp ''node-a'') [(cp ''node-b'', cp ''http://b'')] 5 4 1 30 10 1 4096 = Inr cfg
    \<and> dp_sched d = Reserved (cp ''node-b'') \<and> counts cfg {#cp ''node-b''#} (d :: unit dispatcher)"
proof -
  let ?cfg = "\<lparr>dc_targets = [(cp ''node-b'', rstrip_slash (cp ''http://b''))], dc_node = cp ''node-a'', dc_claim_size = 5, dc_in_flight = 4,
    dc_per_target = 1, dc_lease = 30, dc_timeout = 10, dc_poll = 1, dc_max_bytes = 4096\<rparr>"
  let ?d0 = "\<lparr>dp_store = (), dp_cursors = [], dp_active = [], dp_batches = 0, dp_queue = [], dp_stop = False,
     dp_sched = Idle, dp_busy = []\<rparr>"
  let ?d = "sched_reserve ?cfg (cp ''node-b'') ?d0"
  have cfg: "make_dispatcher (cp ''node-a'') [(cp ''node-b'', cp ''http://b'')] 5 4 1 30 10 1 4096 = Inr ?cfg"
    by (simp add: make_dispatcher_def cp_inj cp_Nil check_positive_def MAX_PROTOCOL_BYTES_def)
  have "dispatch_reachable env ?cfg ports ?d" for env ports
    by (rule dispatch_more [OF dispatch_start ds_reserve]) simp
  from slots_are_accounted [OF this cfg] have "counts ?cfg (slots ?d) ?d" by blast
  moreover have held: "dp_sched ?d = Reserved (cp ''node-b'')"
    by (simp add: sched_reserve_def reserve_target_def active_count_def)
  moreover have "slots ?d = {#cp ''node-b''#}"
    by (simp add: slots_def sched_reserve_def reserve_target_def active_count_def)
  ultimately show ?thesis using cfg by auto
qed

end
