(* ===== verification/Lite_Dispatch.thy ===== *)
theory Lite_Dispatch
  imports Dispatcher_Facts
begin

section \<open>The dispatcher on the lite store\<close>

text \<open>
  The ports of the dispatcher given by the lite store (the \<open>sync_*\<close> methods of
  \<open>LiteMemoryStore\<close> only call the repository), with the network, the clocks, the random
  source and fresh ids as parameters read once per call; and what follows for the pair.
\<close>

subsection \<open>Ports\<close>

record network =
  nt_post :: "nat \<Rightarrow> ustring \<Rightarrow> bytes \<Rightarrow> http_reply result"
  nt_get :: "nat \<Rightarrow> ustring \<Rightarrow> int \<Rightarrow> ustring option \<Rightarrow> http_reply result"
  nt_clock :: "nat \<Rightarrow> int"
  nt_monotonic :: "nat \<Rightarrow> int"
  nt_uniform :: "nat \<Rightarrow> int \<Rightarrow> int"
  nt_fresh :: "nat \<Rightarrow> nat \<Rightarrow> ustring"

record lite_world =
  lw_repo :: "business repo"
  lw_tick :: nat

definition timed :: "(nat \<Rightarrow> business repo \<Rightarrow> 'a result \<times> business repo) \<Rightarrow> ('a, lite_world) action" where
  "timed f w = (case f (lw_tick w) (lw_repo w) of (r, rp) \<Rightarrow> (r, \<lparr>lw_repo = rp, lw_tick = Suc (lw_tick w)\<rparr>))"

definition ticked :: "(nat \<Rightarrow> 'a) \<Rightarrow> lite_world \<Rightarrow> 'a \<times> lite_world" where
  "ticked f w = (f (lw_tick w), w\<lparr>lw_tick := Suc (lw_tick w)\<rparr>)"

definition lite_ports :: "sync_config \<Rightarrow> lite_env \<Rightarrow> network \<Rightarrow> lite_world sync_ports" where
  "lite_ports cfg env net =
     \<lparr>po_post = (\<lambda>url bs. ticked (\<lambda>n. nt_post net n url bs)),
      po_get = (\<lambda>url limit cursor. ticked (\<lambda>n. nt_get net n url limit cursor)),
      po_claim = (\<lambda>t limit secs. timed (\<lambda>n. sync_mutation (claim cfg (nt_fresh net n) (nt_clock net n) t limit secs))),
      po_ack = (\<lambda>sds receipts. timed (\<lambda>n. sync_mutation (ack_batch (nt_clock net n) sds receipts))),
      po_fail = (\<lambda>sd code now. timed (\<lambda>n. sync_mutation (fail_delivery cfg (nt_clock net n) sd code now))),
      po_dead = (\<lambda>sd code now. timed (\<lambda>n. sync_mutation (dead_letter (nt_clock net n) sd code now))),
      po_status = timed (\<lambda>n rp. (Inr (repository_status (rp_sync rp)), rp)),
      po_actionable = timed (\<lambda>n rp. (dispatch_status cfg (rp_sync rp), rp)),
      po_replay = (\<lambda>t eid. timed (\<lambda>n. sync_mutation (replay_dead_letter (nt_clock net n) t eid))),
      po_dead_letters = (\<lambda>limit. timed (\<lambda>n rp. (dead_letter_rows limit (rp_sync rp), rp))),
      po_apply = (\<lambda>remote p. timed (\<lambda>n. apply_page cfg (lite_apply env) (nt_clock net n) remote p)),
      po_uniform = (\<lambda>cap. ticked (\<lambda>n. nt_uniform net n cap)),
      po_now = ticked (nt_clock net),
      po_monotonic = ticked (nt_monotonic net),
      po_sleep = (\<lambda>t w. w)\<rparr>"

lemma lite_ports_simps [simp]:
  "po_post (lite_ports cfg env net) url bs = ticked (\<lambda>n. nt_post net n url bs)"
  "po_get (lite_ports cfg env net) url limit cursor = ticked (\<lambda>n. nt_get net n url limit cursor)"
  "po_claim (lite_ports cfg env net) t limit secs = timed (\<lambda>n. sync_mutation (claim cfg (nt_fresh net n) (nt_clock net n) t limit secs))"
  "po_ack (lite_ports cfg env net) sds receipts = timed (\<lambda>n. sync_mutation (ack_batch (nt_clock net n) sds receipts))"
  "po_fail (lite_ports cfg env net) sd code now = timed (\<lambda>n. sync_mutation (fail_delivery cfg (nt_clock net n) sd code now))"
  "po_dead (lite_ports cfg env net) sd code now = timed (\<lambda>n. sync_mutation (dead_letter (nt_clock net n) sd code now))"
  "po_uniform (lite_ports cfg env net) cap = ticked (\<lambda>n. nt_uniform net n cap)"
  by (simp_all add: lite_ports_def)

subsection \<open>The ledger of the store\<close>

text \<open>The delivered rows, by target and event id.\<close>

definition row_pair :: "sync_state \<Rightarrow> delivery \<Rightarrow> ustring \<times> ustring" where
  "row_pair st d = (dv_target d, case outbox_row_of st (dv_seq d) of None \<Rightarrow> [] | Some r \<Rightarrow> ev_id (ob_event r))"

definition delivered_pairs :: "sync_state \<Rightarrow> (ustring \<times> ustring) set" where
  "delivered_pairs st = row_pair st ` set (filter (\<lambda>d. dv_state d = Delivered) (sy_deliveries st))"

lemma row_pair_frame: "sy_outbox st' = sy_outbox st \<Longrightarrow> row_pair st' = row_pair st"
  by (rule ext) (simp add: row_pair_def outbox_row_of_def)

lemma snd_ticked [simp]: "lw_repo (snd (ticked f w)) = lw_repo w"
  by (simp add: ticked_def)

lemma snd_timed: "lw_repo (snd (timed f w)) = snd (f (lw_tick w) (lw_repo w))"
  by (simp add: timed_def split: prod.splits)

lemma filter_update: "\<not> P x \<Longrightarrow> \<not> P (xs ! i) \<Longrightarrow> filter P (xs[i := x]) = filter P xs"
proof (induction xs arbitrary: i)
  case (Cons y xs)
  then show ?case by (cases i) auto
qed simp

lemma delivered_same:
  assumes "filter (\<lambda>d. dv_state d = Delivered) (sy_deliveries st') = filter (\<lambda>d. dv_state d = Delivered) (sy_deliveries st)"
    and "sy_outbox st' = sy_outbox st"
  shows "delivered_pairs st' = delivered_pairs st"
  unfolding delivered_pairs_def assms(1) row_pair_frame [OF assms(2)] by (rule refl)

lemma delivered_set_row:
  assumes "dv_state d \<noteq> Delivered" "dv_state (sy_deliveries st ! i) \<noteq> Delivered"
  shows "delivered_pairs (set_row i d st) = delivered_pairs st"
  by (rule delivered_same) (simp_all add: set_row_def filter_update assms)

lemma lease_all_filter:
  "\<forall>i \<in> set is. i < length ds \<and> dv_state (ds ! i) \<noteq> Delivered \<Longrightarrow>
    filter (\<lambda>d. dv_state d = Delivered) (lease_all fresh u m is ds) = filter (\<lambda>d. dv_state d = Delivered) ds"
proof (induction "is" arbitrary: m ds)
  case (Cons i "is")
  let ?new = "ds[i := lease_row (fresh m) u (ds ! i)]"
  have "\<forall>j \<in> set is. j < length ?new \<and> dv_state (?new ! j) \<noteq> Delivered"
    using Cons.prems by (auto simp: nth_list_update lease_row_def)
  then show ?case using Cons.IH [of ?new "Suc m"] Cons.prems by (simp add: filter_update lease_row_def)
qed simp

lemma delivered_claim:
  assumes "claim cfg fresh now t n secs st = Inr (out, st')"
  shows "delivered_pairs st' = delivered_pairs st"
  using assms
proof (cases rule: claim_shape)
  case (leased tr picked)
  let ?ds = "map (expire_lease cfg t now) (sy_deliveries st)"
  have rows: "sy_deliveries st' = lease_all fresh (now + seconds secs) 0 picked ?ds" by (simp add: leased(5))
  have "\<forall>i \<in> set picked. i < length ?ds \<and> dv_state (?ds ! i) \<noteq> Delivered"
    using claimable_due by (fastforce simp: leased(3) is_due_def dest!: in_set_takeD)
  then have "filter (\<lambda>d. dv_state d = Delivered) (sy_deliveries st') = filter (\<lambda>d. dv_state d = Delivered) ?ds"
    using rows by (simp only: lease_all_filter)
  moreover have "filter (\<lambda>d. dv_state d = Delivered) (map (expire_lease cfg t now) ds) = filter (\<lambda>d. dv_state d = Delivered) ds" for ds
    by (induction ds) (auto simp: expire_lease_def)
  ultimately show ?thesis by (intro delivered_same) (simp_all add: leased(5))
qed simp

lemma claim_target:
  assumes "claim cfg fresh now t n secs st = Inr (out, st')" "sd \<in> set out"
  shows "sd_target sd = t"
  using assms(1)
proof (cases rule: claim_shape)
  case (leased tr picked)
  let ?ds = "map (expire_lease cfg t now) (sy_deliveries st)"
  have due: "\<forall>i \<in> set picked. dv_target (?ds ! i) = t"
    using claimable_due by (fastforce simp: leased(3) is_due_def dest!: in_set_takeD)
  obtain m where m: "m < length picked" "sd = claimed_delivery st (fresh m) (now + seconds secs) (?ds ! (picked ! m))"
    using assms(2) unfolding leased(4) by (auto simp: in_set_enumerate_eq)
  show ?thesis using due nth_mem [OF m(1)] by (simp add: m(2) claimed_delivery_def)
qed (use assms(2) in simp)

lemma delivered_fail: "fail_delivery cfg clock sd err now st = Inr (u, st') \<Longrightarrow> delivered_pairs st' = delivered_pairs st"
  by (auto simp: fail_delivery_def Let_def require_active_lease_Inr delivered_set_row to_dead_letter_def to_retry_def
      split: option.splits if_split_asm)

lemma delivered_dead: "dead_letter clock sd err now st = Inr (u, st') \<Longrightarrow> delivered_pairs st' = delivered_pairs st"
  by (auto simp: dead_letter_def Let_def require_active_lease_Inr delivered_set_row to_dead_letter_def split: option.splits)

lemma delivery_index_pair:
  assumes "delivery_index st sd = Some i"
  shows "i < length (sy_deliveries st)" "row_pair st (sy_deliveries st ! i) = (sd_target sd, ev_id (sd_event sd))"
  using assms by (auto simp: delivery_index_def find_Some_iff row_pair_def Let_def split: option.splits)

lemma ack_rows_pairs: "ack_rows now st sds = Inr is \<Longrightarrow>
    (\<lambda>i. row_pair st (sy_deliveries st ! i)) ` set is \<subseteq> (\<lambda>sd. (sd_target sd, ev_id (sd_event sd))) ` set sds"
proof (induction sds arbitrary: "is")
  case (Cons sd sds)
  show ?case
  proof (cases "delivery_index st sd")
    case (Some i)
    then show ?thesis
      using Cons delivery_index_pair [OF Some] by (fastforce simp: Let_def split: if_splits)
  qed (use Cons in fastforce)
qed simp

lemma mark_all_pairs:
  "delivered_pairs (fold (\<lambda>i st. set_row i (mark_delivered (sy_deliveries st ! i)) st) is st)
    \<subseteq> delivered_pairs st \<union> (\<lambda>i. row_pair st (sy_deliveries st ! i)) ` set is"
proof (induction "is" arbitrary: st)
  case (Cons i "is")
  let ?st = "set_row i (mark_delivered (sy_deliveries st ! i)) st"
  have same: "row_pair ?st = row_pair st" by (rule row_pair_frame) simp
  have at: "row_pair st (sy_deliveries ?st ! j) = row_pair st (sy_deliveries st ! j)" for j
    by (cases "j = i \<and> i < length (sy_deliveries st)")
      (auto simp: set_row_def nth_list_update row_pair_def mark_delivered_def list_update_beyond)
  have "p \<in> delivered_pairs st \<union> {row_pair st (sy_deliveries st ! i)}" if p: "p \<in> delivered_pairs ?st" for p
  proof -
    obtain d where d: "d \<in> set ((sy_deliveries st)[i := mark_delivered (sy_deliveries st ! i)])" "dv_state d = Delivered"
      "p = row_pair st d"
      using p unfolding delivered_pairs_def same by (auto simp: set_row_def)
    have "row_pair st (mark_delivered d) = row_pair st d" for d by (simp add: row_pair_def mark_delivered_def)
    then show ?thesis using d set_update_subset_insert by (fastforce simp: delivered_pairs_def)
  qed
  then show ?case using Cons.IH [of ?st] by (auto simp: same at)
qed simp

lemma delivered_ack:
  assumes "ack_batch now sds rs st = Inr (u, st')"
  shows "delivered_pairs st' \<subseteq> delivered_pairs st \<union> (\<lambda>sd. (sd_target sd, ev_id (sd_event sd))) ` set sds"
proof -
  obtain "is" where "ack_rows now st sds = Inr is" "st' = fold (\<lambda>i st. set_row i (mark_delivered (sy_deliveries st ! i)) st) is st"
    using assms by (auto simp: ack_batch_def split: if_splits)
  then show ?thesis using mark_all_pairs [of "is" st] ack_rows_pairs [of now st sds "is"] by blast
qed

lemma sync_mutation_cases:
  obtains (fails) e where "f (rp_sync rp) = Inl e" "sync_mutation f rp = (Inl e, rp)"
  | (works) x st where "f (rp_sync rp) = Inr (x, st)" "sync_mutation f rp = (Inr x, rp\<lparr>rp_sync := st\<rparr>)"
  by (cases "f (rp_sync rp)") (auto simp: sync_mutation_def)

text \<open>The lite store keeps the laws of the ledger.\<close>

interpretation lite_ledger: delivery_ledger "lite_ports cfg env net" "\<lambda>w. delivered_pairs (rp_sync (lw_repo w))"
  for cfg env net
proof unfold_locales
  fix t n m s sds s' and sd :: sync_delivery
  assume c: "po_claim (lite_ports cfg env net) t n m s = (Inr sds, s')" and sd: "sd \<in> set sds"
  have "fst (sync_mutation (claim cfg (nt_fresh net (lw_tick s)) (nt_clock net (lw_tick s)) t n m) (lw_repo s)) = Inr sds"
    using c by (auto simp: timed_def split: prod.splits)
  then obtain st where "claim cfg (nt_fresh net (lw_tick s)) (nt_clock net (lw_tick s)) t n m (rp_sync (lw_repo s)) = Inr (sds, st)"
    by (auto simp: sync_mutation_def split: sum.splits)
  then show "sd_target sd = t" using sd by (rule claim_target)
next
  fix t n m s
  show "delivered_pairs (rp_sync (lw_repo (snd (po_claim (lite_ports cfg env net) t n m s)))) = delivered_pairs (rp_sync (lw_repo s))"
    by (rule sync_mutation_cases [of "claim cfg (nt_fresh net (lw_tick s)) (nt_clock net (lw_tick s)) t n m" "lw_repo s"])
      (auto simp: snd_timed dest: delivered_claim)
next
  fix sd code now s
  show "delivered_pairs (rp_sync (lw_repo (snd (po_fail (lite_ports cfg env net) sd code now s)))) = delivered_pairs (rp_sync (lw_repo s))"
    by (rule sync_mutation_cases [of "fail_delivery cfg (nt_clock net (lw_tick s)) sd code now" "lw_repo s"])
      (auto simp: snd_timed dest: delivered_fail)
  show "delivered_pairs (rp_sync (lw_repo (snd (po_dead (lite_ports cfg env net) sd code now s)))) = delivered_pairs (rp_sync (lw_repo s))"
    by (rule sync_mutation_cases [of "dead_letter (nt_clock net (lw_tick s)) sd code now" "lw_repo s"])
      (auto simp: snd_timed dest: delivered_dead)
next
  fix sds rs s
  show "delivered_pairs (rp_sync (lw_repo (snd (po_ack (lite_ports cfg env net) sds rs s))))
      \<subseteq> delivered_pairs (rp_sync (lw_repo s)) \<union> (\<lambda>sd. (sd_target sd, ev_id (sd_event sd))) ` set sds"
    by (rule sync_mutation_cases [of "ack_batch (nt_clock net (lw_tick s)) sds rs" "lw_repo s"])
      (auto simp: snd_timed dest: delivered_ack)
qed simp_all

text \<open>
  C8: A delivery becomes delivered in a dispatch pass only because its peer confirmed it: the
  peer answered a batch holding the event with a success status and a body naming that batch,
  its digest and exactly its events.
\<close>
theorem only_confirmed_is_delivered:
  assumes "dispatch_at denv dcfg (lite_ports cfg env net) now w = (r, w')"
    and "p \<in> delivered_pairs (rp_sync (lw_repo w'))" "p \<notin> delivered_pairs (rp_sync (lw_repo w))"
  shows "confirmed denv dcfg (lite_ports cfg env net) p"
  using lite_ledger.dispatch_ledger [of p denv dcfg cfg env net now "dc_targets dcfg" 0
    "\<lparr>dr_claimed = 0, dr_delivered = 0, dr_failed = 0\<rparr>" w] assms
  by (simp add: dispatch_at_def)

text \<open>One event is claimed, sent, answered and acknowledged.\<close>

definition zero_digest :: ustring where
  "zero_digest = replicate 64 48"

definition sample_answer :: json where
  "sample_answer = to_obj [''batch_id'', ''request_digest'', ''outcome'', ''receipts'']
     [JStr sample_uuid, JStr zero_digest, JStr (cp ''accepted''),
      JList [to_obj [''event_id'', ''outcome''] [JStr sample_uuid, JStr (cp ''accepted'')]]]"

definition sample_denv :: dispatch_env where
  "sample_denv = \<lparr>de_wire = (sample_env JNull)\<lparr>json_loads := \<lambda>_. Inr sample_answer\<rparr>, de_uuid5 = (\<lambda>_. sample_uuid),
     de_sha256 = (\<lambda>_. zero_digest)\<rparr>"

definition sample_dcfg :: dispatch_config where
  "sample_dcfg = \<lparr>dc_targets = [(cp ''node-b'', cp ''http://b'')], dc_node = cp ''node-a'', dc_claim_size = 5,
     dc_in_flight = 4, dc_per_target = 1, dc_lease = 30, dc_timeout = 10000000, dc_poll = 100000, dc_max_bytes = 4194304\<rparr>"

definition sample_net :: network where
  "sample_net = \<lparr>nt_post = (\<lambda>_ _ _. Inr \<lparr>hr_status = Some 200, hr_body = Some []\<rparr>),
     nt_get = (\<lambda>_ _ _ _. Inr \<lparr>hr_status = Some 409, hr_body = Some []\<rparr>), nt_clock = (\<lambda>_. 10), nt_monotonic = int,
     nt_uniform = (\<lambda>_ c. c), nt_fresh = (\<lambda>_ _. cp ''lease'')\<rparr>"

definition sample_world :: lite_world where
  "sample_world = \<lparr>lw_repo = sample_repo, lw_tick = 0\<rparr>"

definition acked_sync :: sync_state where
  "acked_sync = sample_sync\<lparr>sy_deliveries := [mark_delivered (lease_row (cp ''lease'') 30000010 sample_delivery)]\<rparr>"

lemma canonical_bytes_loads: "canonical_bytes (env\<lparr>json_loads := f\<rparr>) b = canonical_bytes env b"
proof -
  have "version_text (env\<lparr>json_loads := f\<rparr>) = version_text env"
    by (rule ext) (simp add: version_text_def version_payload_def)
  then have "event_to_dict (env\<lparr>json_loads := f\<rparr>) = event_to_dict env"
    by (intro ext) (simp add: event_to_dict_def)
  then show ?thesis by (simp add: canonical_bytes_def batch_to_dict_def)
qed

lemma sample_batch_sent: "batch_of sample_denv sample_dcfg (cp ''node-b'') [sample_claim] = Inr sample_batch"
proof -
  obtain bs where "canonical_bytes (sample_env JNull) sample_batch = Inr bs" "length bs \<le> 4 * 1024 * 1024"
    using sample_batch_bytes by blast
  then have "canonical_bytes (de_wire sample_denv) sample_batch = Inr bs" "length bs \<le> 4 * 1024 * 1024"
    by (simp_all add: sample_denv_def canonical_bytes_loads)
  then show ?thesis
    using node_a_ok uuid_scalar [OF sample_uuid_ok] sample_uuid_ok
    by (auto simp: batch_of_def make_batch_def sample_batch_def sample_dcfg_def sample_denv_def sample_claim_def Let_def
        uuid_value_def str_value_def require_uuid_def require_exact_string_def MAX_BATCH_EVENTS_def MAX_BATCH_BYTES_def)
qed

lemma exact_fields_obj: "distinct names \<Longrightarrow> length vs = length names \<Longrightarrow> exact_fields names m (to_obj names vs) = Inr vs"
  by (simp add: exact_fields_def exact_dict_to_obj)

lemma sample_answer_read:
  "answer_of sample_denv sample_dcfg sample_batch [sample_claim] \<lparr>hr_status = Some 200, hr_body = Some []\<rparr> =
    Inr \<lparr>br_batch = sample_uuid, br_digest = zero_digest, br_outcome = cp ''accepted'',
         br_receipts = [\<lparr>rc_event = sample_uuid, rc_outcome = cp ''accepted''\<rparr>]\<rparr>"
proof -
  obtain bs where "canonical_bytes (sample_env JNull) sample_batch = Inr bs" using sample_batch_bytes by blast
  then have "request_digest (de_sha256 sample_denv) (de_wire sample_denv) sample_batch = Inr zero_digest"
    by (simp add: request_digest_def sample_denv_def canonical_bytes_loads)
  moreover have "response_json sample_denv sample_dcfg \<lparr>hr_status = Some 200, hr_body = Some []\<rparr> = Inr sample_answer"
    by (simp add: response_json_def load_utf8_def sample_denv_def)
  moreover have "scalar_string zero_digest \<and> zero_digest \<noteq> [] \<and> sha256_hex_text zero_digest"
    by (simp add: zero_digest_def scalar_string_def surrogate_def sha256_hex_text_def lower_hex_def list_all_iff)
  moreover have "scalar_string (cp ''accepted'')" using cp_ascii [of "''accepted''"] valid_text_iff by simp
  ultimately show ?thesis
    using uuid_scalar [OF sample_uuid_ok] sample_uuid_ok
    by (simp add: answer_of_def parse_result_def sample_answer_def exact_fields_obj exact_list_def parse_receipt_def
        make_receipt_def make_batch_result_def validate_result_def sample_batch_def sample_claim_def uuid_value_def
        str_value_def require_uuid_def require_exact_string_def)
qed

lemma sample_acked:
  "ack_batch 10 [sample_claim] [\<lparr>rc_event = sample_uuid, rc_outcome = cp ''accepted''\<rparr>] leased_sync = Inr ((), acked_sync)"
  by (simp add: ack_batch_def delivery_index_def outbox_row_of_def leased_sync_def sample_sync_def sample_row_def
      sample_claim_def lease_row_def sample_delivery_def new_delivery_def require_active_lease_def set_row_def
      acked_sync_def Let_def)

text \<open>The sample store at tick \<open>k\<close>, with the sync state \<open>st\<close>.\<close>

definition world_at :: "sync_state \<Rightarrow> nat \<Rightarrow> lite_world" where
  "world_at st k = \<lparr>lw_repo = sample_repo\<lparr>rp_sync := st\<rparr>, lw_tick = k\<rparr>"

lemma world_at_simps [simp]:
  "lw_repo (world_at st k) = sample_repo\<lparr>rp_sync := st\<rparr>" "lw_tick (world_at st k) = k"
  "timed f (world_at st k) = (case f k (sample_repo\<lparr>rp_sync := st\<rparr>) of (r, rp) \<Rightarrow> (r, \<lparr>lw_repo = rp, lw_tick = Suc k\<rparr>))"
  "ticked g (world_at st k) = (g k, world_at st (Suc k))"
  by (simp_all add: world_at_def timed_def ticked_def)

lemma world_at_back: "\<lparr>lw_repo = sample_repo\<lparr>rp_sync := st\<rparr>, lw_tick = k\<rparr> = world_at st k"
  by (simp add: world_at_def)

lemma sample_world_at: "sample_world = world_at sample_sync 0"
  by (simp add: sample_world_def world_at_def sample_repo_def)

lemma sample_dispatch:
  "dispatch_at sample_denv sample_dcfg (lite_ports sample_config env sample_net) 10 (world_at sample_sync k) =
    (Inr \<lparr>dr_claimed = 1, dr_delivered = 1, dr_failed = 0\<rparr>, world_at acked_sync (Suc (Suc (Suc k))))"
proof -
  let ?ports = "lite_ports sample_config env sample_net"
  obtain bs where bs: "canonical_bytes (de_wire sample_denv) sample_batch = Inr bs"
    using sample_batch_bytes [of JNull] by (auto simp: sample_denv_def canonical_bytes_loads)
  have c: "po_claim ?ports (cp ''node-b'') 5 30 (world_at sample_sync k) = (Inr [sample_claim], world_at leased_sync (Suc k))"
    using sample_claimed by (simp add: sync_mutation_def sample_net_def world_at_back)
  have p: "po_post ?ports u bs (world_at leased_sync (Suc k)) =
      (Inr \<lparr>hr_status = Some 200, hr_body = Some []\<rparr>, world_at leased_sync (Suc (Suc k)))" for u
    by (simp add: sample_net_def)
  have a: "po_ack ?ports [sample_claim] [\<lparr>rc_event = sample_uuid, rc_outcome = cp ''accepted''\<rparr>]
      (world_at leased_sync (Suc (Suc k))) = (Inr (), world_at acked_sync (Suc (Suc (Suc k))))"
    using sample_acked by (simp add: sync_mutation_def sample_net_def world_at_back)
  have "send_batch sample_denv sample_dcfg ?ports (cp ''node-b'') (cp ''http://b'') [sample_claim] 10 (world_at leased_sync (Suc k)) =
      (Inr (1, 0), world_at acked_sync (Suc (Suc (Suc k))))"
    by (simp add: send_batch_def sample_batch_sent bs p settle_reply_def reply_error_def sample_answer_read bindA_def a
        returnA_def del: lite_ports_simps)
  then show ?thesis
    by (simp add: dispatch_at_def sample_dcfg_def [THEN arg_cong [where f = dc_targets]] sample_dcfg_def bindA_def c returnA_def
        del: lite_ports_simps)
qed

theorem only_confirmed_is_delivered_witness:
  "\<forall>env. confirmed sample_denv sample_dcfg (lite_ports sample_config env sample_net) (cp ''node-b'', sample_uuid)"
proof
  fix env
  show "confirmed sample_denv sample_dcfg (lite_ports sample_config env sample_net) (cp ''node-b'', sample_uuid)"
    using only_confirmed_is_delivered [OF sample_dispatch [where env = env and k = 0], of "(cp ''node-b'', sample_uuid)"]
    by (simp add: sample_repo_def delivered_pairs_def acked_sync_def sample_sync_def sample_delivery_def
      new_delivery_def mark_delivered_def row_pair_def outbox_row_of_def sample_row_def lease_row_def)
qed

subsection \<open>The repository under the dispatcher\<close>

lemma keeps_timed: "(\<And>n rp. J rp \<Longrightarrow> J (snd (f n rp))) \<Longrightarrow> keeps_inv (\<lambda>w. J (lw_repo w)) (timed f)"
  by (simp add: keeps_inv_def snd_timed)

lemma keeps_ticked: "keeps_inv (\<lambda>w. J (lw_repo w)) (ticked f)"
  by (simp add: keeps_inv_def)

lemmas lite_steps = reach_step [OF _ step_claim] reach_step [OF _ step_ack] reach_step [OF _ step_fail]
  reach_step [OF _ step_dead_letter] reach_step [OF _ step_apply]

text \<open>The dispatcher reaches the repository through its ports only, so it stays reachable.\<close>

interpretation lite_keeps: port_invariant "lite_ports cfg env net" "\<lambda>w. lite_reachable cfg env (lw_repo w)"
  for cfg env net
  by unfold_locales
    (auto simp: lite_ports_def intro!: keeps_timed keeps_ticked intro: lite_steps)

subsection \<open>The retry window\<close>

text \<open>
  C35: A delivery that fails with attempts left is offered again at a time the jitter drew
  between now and the repository's delay for its attempt: the dispatcher's shifted reference
  time and the repository's added delay cancel, and the lease is given up.
\<close>
theorem retry_lands_in_window:
  assumes row: "delivery_index (rp_sync (lw_repo w)) sd = Some i" and d: "d = sy_deliveries (rp_sync (lw_repo w)) ! i"
    and attempts: "dv_attempts d = sd_attempt sd" "dv_attempts d < cf_max_attempts cfg" "code \<noteq> []"
    and jitter: "\<And>n c. 0 \<le> c \<Longrightarrow> 0 \<le> nt_uniform net n c \<and> nt_uniform net n c \<le> c"
    and run: "fail_all (lite_ports cfg env net) code now False [sd] w = (Inr (), w')"
  shows "\<exists>d'. sy_deliveries (rp_sync (lw_repo w')) = (sy_deliveries (rp_sync (lw_repo w)))[i := d']
    \<and> dv_state d' = Pending \<and> dv_lease d' = None \<and> dv_attempts d' = dv_attempts d
    \<and> now \<le> dv_next d' \<and> dv_next d' \<le> now + seconds (retry_delay (dv_attempts d))"
proof -
  let ?cap = "seconds (retry_delay (dv_attempts d))"
  obtain t w1 where t: "failure_time (lite_ports cfg env net) now (sd_attempt sd) w = (Inr t, w1)"
    and f: "po_fail (lite_ports cfg env net) sd code t w1 = (Inr (), w')"
    using run by (auto simp: bindA_Inr simp del: lite_ports_simps)
  have t1: "t = now - (?cap - nt_uniform net (lw_tick w) ?cap)" "lw_repo w1 = lw_repo w"
    using t attempts(1) by (auto simp: failure_time_def ticked_def Let_def retry_delay_def split: if_splits)
  obtain st where st: "fail_delivery cfg (nt_clock net (lw_tick w1)) sd code t (rp_sync (lw_repo w)) = Inr ((), st)"
    and w': "rp_sync (lw_repo w') = st"
    using f t1(2) by (auto simp: timed_def sync_mutation_def split: prod.splits sum.splits)
  have "st = set_row i (to_retry code t d) (rp_sync (lw_repo w))"
    using st row attempts by (auto simp: fail_delivery_def d [symmetric] Let_def)
  moreover have "0 \<le> ?cap" by (simp add: retry_delay_def)
  ultimately show ?thesis
    using jitter [of ?cap "lw_tick w"] by (auto simp: w' set_row_def to_retry_def t1(1) intro!: exI [of _ "to_retry code t d"])
qed

definition retried_sync :: sync_state where
  "retried_sync = sample_sync\<lparr>sy_deliveries :=
     [to_retry (cp ''remote_unavailable'') 20 (lease_row (cp ''lease'') 30000010 sample_delivery)]\<rparr>"

theorem retry_lands_in_window_witness:
  "\<exists>d'. sy_deliveries retried_sync = [d'] \<and> dv_state d' = Pending \<and> 20 \<le> dv_next d' \<and> dv_next d' \<le> 1000020"
proof -
  fix env
  let ?w = "\<lparr>lw_repo = sample_repo\<lparr>rp_sync := leased_sync\<rparr>, lw_tick = 0\<rparr>"
  let ?w' = "\<lparr>lw_repo = sample_repo\<lparr>rp_sync := retried_sync\<rparr>, lw_tick = 2\<rparr>"
  have i: "delivery_index leased_sync sample_claim = Some 0"
    by (simp add: delivery_index_def leased_sync_def sample_claim_def sample_sync_def lease_row_def sample_delivery_def
        new_delivery_def outbox_row_of_def sample_row_def Let_def)
  have "fail_delivery sample_config 10 sample_claim (cp ''remote_unavailable'') 20 leased_sync = Inr ((), retried_sync)"
    by (simp add: fail_delivery_def require_str_def i Let_def require_active_lease_def)
      (simp add: leased_sync_def lease_row_def sample_delivery_def new_delivery_def sample_claim_def sample_config_def
        retried_sync_def set_row_def)
  then have "fail_all (lite_ports sample_config env sample_net) (cp ''remote_unavailable'') 20 False [sample_claim] ?w = (Inr (), ?w')"
    by (simp add: bindA_def failure_time_def ticked_def timed_def sync_mutation_def sample_net_def sample_claim_def [THEN arg_cong [where f = sd_attempt]]
        returnA_def)
  from retry_lands_in_window [OF _ refl _ _ _ _ this, of 0] i
  have "\<exists>d'. sy_deliveries retried_sync = [d'] \<and> dv_state d' = Pending \<and> dv_lease d' = None \<and> dv_attempts d' = 1
      \<and> 20 \<le> dv_next d' \<and> dv_next d' \<le> 1000020"
    by (simp add: leased_sync_def lease_row_def sample_delivery_def new_delivery_def sample_claim_def sample_config_def
        sample_net_def retry_delay_def)
  then show ?thesis by blast
qed

subsection \<open>Draining the store\<close>

lemma lite_status_ports:
  "on_store (bindA (po_actionable (lite_ports cfg env net)) (\<lambda>a. bindA (po_status (lite_ports cfg env net)) (\<lambda>b. returnA (a, b)))) d = (r, d') \<Longrightarrow>
    lw_repo (dp_store d') = lw_repo (dp_store d) \<and> dp_batches d' = dp_batches d \<and>
    (\<forall>a b. r = Inr (a, b) \<longrightarrow> dispatch_status cfg (rp_sync (lw_repo (dp_store d'))) = Inr a)"
  by (auto simp: on_store_def bindA_def lite_ports_def timed_def returnA_def split: prod.splits sum.splits)

text \<open>The rows of locally originated events that still wait for an answer.\<close>

definition unsettled :: "sync_config \<Rightarrow> sync_state \<Rightarrow> delivery list" where
  "unsettled cfg st = filter (\<lambda>d. dv_state d \<in> {Pending, Leased} \<and>
     (case outbox_row_of st (dv_seq d) of None \<Rightarrow> False | Some r \<Rightarrow> ev_origin (ob_event r) = local_node cfg)) (sy_deliveries st)"

lemma dispatch_status_unsettled:
  assumes "dispatch_status cfg st = Inr a" "su_pending a = 0" "su_leased a = 0"
  shows "unsettled cfg st = []"
proof -
  obtain ds where f: "filterR (\<lambda>d. case outbox_row_of st (dv_seq d) of None \<Rightarrow> Inl (KeyErr ''stream_seq'')
       | Some r \<Rightarrow> Inr (ev_origin (ob_event r) = local_node cfg)) (sy_deliveries st) = Inr ds"
    and a: "a = status_of ds (sy_targets st)"
    using assms(1) by (auto simp: dispatch_status_def)
  have "set (unsettled cfg st) \<subseteq> {d \<in> set ds. dv_state d \<in> {Pending, Leased}}"
    using filterR_Inr [OF f] by (auto simp: unsettled_def split: option.splits)
  also have "\<dots> = {}" using assms(2,3) by (auto simp: a status_of_def Let_def filter_empty_conv)
  finally show ?thesis by simp
qed

definition drain_true :: "sync_config \<Rightarrow> drain_result result \<times> lite_world dispatcher \<Rightarrow> bool" where
  "drain_true cfg out = (case out of (Inl e, d) \<Rightarrow> True
     | (Inr r, d) \<Rightarrow> dn_exceeded r = (\<not> dn_drained r)
         \<and> (dn_drained r \<longrightarrow> unsettled cfg (rp_sync (lw_repo (dp_store d))) = [] \<and> dp_batches d = 0))"

lemma drain_turn_true:
  "next_ok (\<lambda>_. True) (drain_true cfg) (drain_turn denv dcfg (lite_ports cfg env net) background others expires d0)"
proof -
  let ?ports = "lite_ports cfg env net"
  obtain r d where first: "(if background then (Inr \<lparr>dr_claimed = 0, dr_delivered = 0, dr_failed = 0\<rparr>, others d0)
      else on_store (dispatch_once denv dcfg ?ports None) d0) = (r, d)" by (metis surj_pair)
  show ?thesis
  proof (cases r)
    case (Inr dispatch)
    obtain q d2 where look: "on_store (bindA (po_actionable ?ports) (\<lambda>a. bindA (po_status ?ports) (\<lambda>b. returnA (a, b)))) d = (q, d2)"
      by (metis surj_pair)
    show ?thesis
    proof (cases q)
      case (Inr ab)
      obtain a b where ab: "ab = (a, b)" by (cases ab)
      have st: "dispatch_status cfg (rp_sync (lw_repo (dp_store d2))) = Inr a"
        using lite_status_ports [OF look, unfolded Inr ab] by blast
      show ?thesis
        using dispatch_status_unsettled [OF st]
        by (auto simp: drain_turn_def first \<open>r = Inr dispatch\<close> look Inr ab Let_def drain_true_def make_drain_def nothing_left_def
            split: prod.splits)
    qed (simp add: drain_turn_def first Inr look drain_true_def)
  qed (simp add: drain_turn_def first drain_true_def)
qed

text \<open>
  C36: A drain that reports success leaves no pending and no leased delivery of an event of this
  node and no active batch; one that reports failure says that the deadline has passed.
\<close>
theorem drain_reports_truth:
  assumes "drain denv dcfg (lite_ports cfg env net) background others fuel deadline d = Some (Inr r, d')"
  shows "dn_exceeded r = (\<not> dn_drained r)
    \<and> (dn_drained r \<longrightarrow> unsettled cfg (rp_sync (lw_repo (dp_store d'))) = [] \<and> dp_batches d' = 0)"
proof -
  obtain expires d0 where "run_loop fuel (drain_turn denv dcfg (lite_ports cfg env net) background others expires) d0 = Some (Inr r, d')"
    using assms by (auto simp: drain_def Let_def split: prod.splits sum.splits)
  then have "drain_true cfg (Inr r, d')"
    by (rule run_loop_post [where I = "\<lambda>_. True", OF drain_turn_true, rotated 1]) simp
  then show ?thesis by (simp add: drain_true_def)
qed

text \<open>The tick of the world only rises.\<close>

interpretation lite_time: port_invariant "lite_ports cfg env net" "\<lambda>w. k \<le> lw_tick w" for cfg env net k
  by unfold_locales (auto simp: lite_ports_def keeps_inv_def timed_def ticked_def split: prod.splits)

lemma lite_clock:
  "po_monotonic (lite_ports cfg env net) = ticked (nt_monotonic net)" "po_sleep (lite_ports cfg env net) n w = w"
  by (simp_all add: lite_ports_def)

lemma drain_turn_time:
  assumes again: "drain_turn denv dcfg (lite_ports cfg env net) background others expires d0 = Again d'"
    and others: "\<And>d. lw_tick (dp_store d) \<le> lw_tick (dp_store (others d))"
  shows "\<exists>n. lw_tick (dp_store d0) \<le> n \<and> nt_monotonic net n < expires \<and> lw_tick (dp_store d') = Suc n"
proof -
  let ?ports = "lite_ports cfg env net"
  obtain r d where first: "(if background then (Inr \<lparr>dr_claimed = 0, dr_delivered = 0, dr_failed = 0\<rparr>, others d0)
      else on_store (dispatch_once denv dcfg ?ports None) d0) = (r, d)" by (metis surj_pair)
  have t1: "lw_tick (dp_store d0) \<le> lw_tick (dp_store d)"
  proof (cases background)
    case False
    then have "on_store (dispatch_once denv dcfg ?ports None) d0 = (r, d)" using first by simp
    from keeps_invD [OF keeps_on_store [OF lite_time.dispatch_once_keeps] _ this] show ?thesis by simp
  qed (use first others in auto)
  obtain q d2 where look: "on_store (bindA (po_actionable ?ports) (\<lambda>a. bindA (po_status ?ports) (\<lambda>b. returnA (a, b)))) d = (q, d2)"
    by (metis surj_pair)
  have "keeps_inv (\<lambda>w. lw_tick (dp_store d) \<le> lw_tick w) (bindA (po_actionable ?ports) (\<lambda>a. bindA (po_status ?ports) (\<lambda>b. returnA (a, b))))"
    by (intro keeps_basic lite_time.keeps_actionable lite_time.keeps_status)
  from keeps_invD [OF keeps_on_store [OF this] _ look] have t2: "lw_tick (dp_store d) \<le> lw_tick (dp_store d2)" by simp
  have "lw_tick (dp_store d') = Suc (lw_tick (dp_store d2)) \<and> nt_monotonic net (lw_tick (dp_store d2)) < expires"
    using again unfolding drain_turn_def first prod.case
    by (cases r; cases q) (auto simp: look lite_clock ticked_def Let_def split: if_splits)
  then show ?thesis using t1 t2 by (intro exI [of _ "lw_tick (dp_store d2)"]) simp
qed

text \<open>
  C37: A drain comes back: as long as the monotonic clock passes every bound in the end, enough
  turns give a result or an exception, whatever the peers and the other threads do.
\<close>
theorem drain_terminates:
  assumes clock: "\<And>b. \<exists>n. \<forall>m \<ge> n. b \<le> nt_monotonic net m"
    and others: "\<And>d. lw_tick (dp_store d) \<le> lw_tick (dp_store (others d))"
  shows "\<exists>fuel out. drain denv dcfg (lite_ports cfg env net) background others fuel deadline d = Some out"
proof -
  let ?expires = "nt_monotonic net (lw_tick (dp_store d)) + deadline"
  let ?body = "drain_turn denv dcfg (lite_ports cfg env net) background others ?expires"
  obtain n where n: "\<And>m. n \<le> m \<Longrightarrow> ?expires \<le> nt_monotonic net m" using clock by blast
  have loop: "decreasing_loop ?body (\<lambda>_. True) (\<lambda>d. n - lw_tick (dp_store d))"
  proof (unfold_locales)
    fix d0 d' assume "?body d0 = Again d'"
    from drain_turn_time [OF this others] obtain m where m: "lw_tick (dp_store d0) \<le> m" "nt_monotonic net m < ?expires"
      "lw_tick (dp_store d') = Suc m" by blast
    have "m < n" using n m(2) by (meson not_less)
    then show "n - lw_tick (dp_store d') < n - lw_tick (dp_store d0)" using m(1,3) by simp
  qed simp
  let ?d = "d\<lparr>dp_store := (dp_store d)\<lparr>lw_tick := Suc (lw_tick (dp_store d))\<rparr>\<rparr>"
  obtain out where "run_loop (Suc (n - lw_tick (dp_store ?d))) ?body ?d = Some out"
    using decreasing_loop.enough_fuel [OF loop, of ?d] by blast
  then have "drain denv dcfg (lite_ports cfg env net) background others (Suc (n - lw_tick (dp_store ?d))) deadline d \<noteq> None"
    by (auto simp: drain_def lite_clock ticked_def Let_def deadline_seconds_def)
  then show ?thesis by blast
qed

text \<open>A dispatcher on the sample store, and its drain.\<close>

definition sample_dispatcher :: "lite_world dispatcher" where
  "sample_dispatcher = \<lparr>dp_store = sample_world, dp_cursors = [], dp_active = [], dp_batches = 0, dp_queue = [], dp_stop = False,
     dp_sched = Idle, dp_busy = []\<rparr>"

theorem drain_terminates_witness:
  "\<forall>env. \<exists>fuel out. drain sample_denv sample_dcfg (lite_ports sample_config env sample_net) False (\<lambda>d. d) fuel 5000000 sample_dispatcher = Some out"
proof
  fix env
  have "\<exists>n. \<forall>m \<ge> n. b \<le> nt_monotonic sample_net m" for b
    by (rule exI [of _ "nat b"]) (auto simp: sample_net_def nat_le_iff)
  from drain_terminates [OF this] show
    "\<exists>fuel out. drain sample_denv sample_dcfg (lite_ports sample_config env sample_net) False (\<lambda>d. d) fuel 5000000 sample_dispatcher = Some out"
    by simp
qed

lemma sample_drain:
  "drain sample_denv sample_dcfg (lite_ports sample_config env sample_net) False (\<lambda>d. d) 1 5000000 sample_dispatcher =
    Some (Inr (make_drain True (repository_status acked_sync) False), sample_dispatcher\<lparr>dp_store := world_at acked_sync 7\<rparr>)"
proof -
  let ?ports = "lite_ports sample_config env sample_net"
  have now: "po_now ?ports (world_at sample_sync (Suc 0)) = (10, world_at sample_sync 2)"
    by (simp add: lite_ports_def sample_net_def)
  have "on_store (dispatch_once sample_denv sample_dcfg ?ports None) (sample_dispatcher\<lparr>dp_store := world_at sample_sync (Suc 0)\<rparr>) =
      (Inr \<lparr>dr_claimed = 1, dr_delivered = 1, dr_failed = 0\<rparr>, sample_dispatcher\<lparr>dp_store := world_at acked_sync 5\<rparr>)"
    using sample_dispatch [where env = env and k = 2] by (simp add: on_store_def dispatch_once_def now)
  moreover have "dispatch_status sample_config acked_sync = Inr (status_of (sy_deliveries acked_sync) (sy_targets acked_sync))"
    by (simp add: dispatch_status_def acked_sync_def sample_sync_def sample_delivery_def new_delivery_def outbox_row_of_def
        sample_row_def lease_row_def mark_delivered_def local_node_def sample_config_def)
  then have "on_store (bindA (po_actionable ?ports) (\<lambda>a. bindA (po_status ?ports) (\<lambda>b. returnA (a, b))))
      (sample_dispatcher\<lparr>dp_store := world_at acked_sync 5\<rparr>) =
      (Inr (repository_status acked_sync, repository_status acked_sync), sample_dispatcher\<lparr>dp_store := world_at acked_sync 7\<rparr>)"
    by (simp add: on_store_def bindA_def lite_ports_def repository_status_def returnA_def world_at_back)
  moreover have "nothing_left (repository_status acked_sync) (sample_dispatcher\<lparr>dp_store := world_at acked_sync 7\<rparr>)"
    by (simp add: nothing_left_def repository_status_def status_of_def acked_sync_def mark_delivered_def sample_dispatcher_def Let_def)
  ultimately have "drain_turn sample_denv sample_dcfg ?ports False (\<lambda>d. d) 5000000 (sample_dispatcher\<lparr>dp_store := world_at sample_sync (Suc 0)\<rparr>) =
      Leave (Inr (make_drain True (repository_status acked_sync) False), sample_dispatcher\<lparr>dp_store := world_at acked_sync 7\<rparr>)"
    by (simp add: drain_turn_def)
  moreover have "po_monotonic ?ports (dp_store sample_dispatcher) = (0, world_at sample_sync (Suc 0))"
    by (simp add: lite_clock sample_dispatcher_def sample_world_at sample_net_def)
  ultimately show ?thesis by (simp add: drain_def deadline_seconds_def)
qed

theorem drain_reports_truth_witness: "unsettled sample_config acked_sync = []"
proof -
  fix env
  show ?thesis using drain_reports_truth [OF sample_drain [of env]] by (simp add: make_drain_def)
qed

subsection \<open>Pulling into the store\<close>

definition inbound_seq :: "sync_config \<Rightarrow> ustring \<Rightarrow> sync_state \<Rightarrow> int" where
  "inbound_seq cfg remote st = (case find_cursor remote (local_node cfg) (sy_inbound st) of None \<Rightarrow> 0 | Some c \<Rightarrow> cr_after c)"

lemma find_put_cursor:
  "find_cursor remote consumer (put_cursor adv init now remote consumer rows) =
    Some (case find_cursor remote consumer rows of
        None \<Rightarrow> \<lparr>cr_remote = remote, cr_consumer = consumer, cr_after = init, cr_updated = now\<rparr>
      | Some c \<Rightarrow> c\<lparr>cr_after := adv (cr_after c), cr_updated := now\<rparr>)"
proof (cases "find_cursor remote consumer rows")
  case None
  have "find P xs = None \<Longrightarrow> find P (xs @ [x]) = (if P x then Some x else None)" for P and xs :: "cursor_row list" and x
    by (induction xs) (auto split: if_splits)
  then show ?thesis using None by (simp add: put_cursor_def) (simp add: find_cursor_def)
next
  case (Some c)
  have "find P xs = Some c \<Longrightarrow> P (f c) \<Longrightarrow> find P (map (\<lambda>r. if r = c then f r else r) xs) = Some (f c)"
    for P f and xs :: "cursor_row list"
    by (induction xs) (auto split: if_splits)
  then show ?thesis
    using Some find_SomeD [of "\<lambda>r. cr_remote r = remote \<and> cr_consumer r = consumer" rows c]
    by (simp add: put_cursor_def find_cursor_def)
qed

lemma append_event_inbound: "append_event cfg e rp = (Inr n, rp') \<Longrightarrow> sy_inbound (rp_sync rp') = sy_inbound (rp_sync rp)"
  by (auto simp: append_event_def Let_def push_event_def bind_tenant_def split: sum.splits option.splits if_splits prod.splits)

lemma apply_event_inbound: "apply_event cfg ab e tombs rp = (Inr x, rp') \<Longrightarrow> sy_inbound (rp_sync rp') = sy_inbound (rp_sync rp)"
  by (auto simp: apply_event_def push_inbox_def dest!: append_event_inbound
      split: sum.splits option.splits if_splits prod.splits)

lemma apply_events_inbound: "apply_events cfg ab es tombs rp = (Inr rs, rp') \<Longrightarrow> sy_inbound (rp_sync rp') = sy_inbound (rp_sync rp)"
proof (induction es arbitrary: tombs rp rs)
  case (Cons e es)
  then show ?case
    by (auto split: sum.splits prod.splits dest!: apply_event_inbound)
qed simp

lemma bind_tenant_inbound: "bind_tenant t st = Inr st' \<Longrightarrow> sy_inbound st' = sy_inbound st"
  by (auto simp: bind_tenant_def split: option.splits if_splits)

lemma apply_page_events_inbound:
  assumes "apply_page_events cfg ab now remote p events rp = (Inr res, rp')"
  shows "inbound_seq cfg remote (rp_sync rp) \<le> inbound_seq cfg remote (rp_sync rp')
    \<and> ar_cursor res \<le> inbound_seq cfg remote (rp_sync rp')"
proof (cases "pg_next p \<le> inbound_seq cfg remote (rp_sync rp)")
  case True
  then show ?thesis using assms by (auto simp: apply_page_events_def inbound_seq_def Let_def split: if_splits)
next
  case False
  obtain rs rp1 where "apply_events cfg ab events [] rp = (Inr rs, rp1)" and ar: "ar_cursor res = pg_next p"
    and rp': "rp' = rp1\<lparr>rp_sync := (rp_sync rp1)\<lparr>sy_inbound := put_cursor (\<lambda>_. pg_next p) (pg_next p) now remote (local_node cfg)
      (sy_inbound (rp_sync rp1))\<rparr>\<rparr>"
    using assms False by (auto simp: apply_page_events_def inbound_seq_def Let_def split: if_splits sum.splits prod.splits)
  have "inbound_seq cfg remote (rp_sync rp') = pg_next p"
    by (simp add: rp' inbound_seq_def find_put_cursor split: option.splits)
  then show ?thesis using False ar by simp
qed

lemma apply_page_inbound:
  assumes "apply_page cfg ab now remote p rp = (r, rp')"
  shows "inbound_seq cfg remote (rp_sync rp) \<le> inbound_seq cfg remote (rp_sync rp')
    \<and> (\<forall>res. r = Inr res \<longrightarrow> ar_cursor res \<le> inbound_seq cfg remote (rp_sync rp'))"
proof (cases r)
  case (Inl e)
  then have "rp_sync rp' = rp_sync rp"
    using assms by (auto simp: apply_page_def mutation_def split: sum.splits prod.splits)
  then show ?thesis by (simp add: Inl)
next
  case (Inr res)
  then have "apply_page_body cfg ab now remote p rp = (Inr res, rp')"
    using assms by (auto simp: apply_page_def mutation_def split: sum.splits prod.splits)
  then obtain events st where st: "sy_inbound st = sy_inbound (rp_sync rp)"
    and b: "apply_page_events cfg ab now remote p events (rp\<lparr>rp_sync := st\<rparr>) = (Inr res, rp')"
    by (auto simp: apply_page_body_def dest: bind_tenant_inbound split: sum.splits list.splits)
  have "inbound_seq cfg remote st = inbound_seq cfg remote (rp_sync rp)" by (simp add: inbound_seq_def st)
  then show ?thesis using apply_page_events_inbound [OF b] by (simp add: Inr)
qed

text \<open>How far the store has confirmed the stream of a peer.\<close>

abbreviation reached :: "sync_config \<Rightarrow> ustring \<Rightarrow> lite_world dispatcher \<Rightarrow> int" where
  "reached cfg target d \<equiv> inbound_seq cfg target (rp_sync (lw_repo (dp_store d)))"

lemma accept_page_reached:
  assumes "accept_page denv dcfg (lite_ports cfg env net) target n reply d = (r, d')"
  shows "reached cfg target d \<le> reached cfg target d'
    \<and> (\<forall>p c res. r = Inr (p, c, res) \<longrightarrow> ar_cursor res \<le> reached cfg target d')"
proof (cases "\<exists>p c. bindR (response_json denv dcfg reply) (parse_page (de_wire denv)) = Inr (p, c) \<and> int (length (pg_items p)) \<le> n
    \<and> hr_status reply \<notin> {Some 400, Some 409} \<and> (\<exists>s. hr_status reply = Some s \<and> 200 \<le> s \<and> s < 300)")
  case True
  then obtain p c where p: "bindR (response_json denv dcfg reply) (parse_page (de_wire denv)) = Inr (p, c)"
    "int (length (pg_items p)) \<le> n" "hr_status reply \<notin> {Some 400, Some 409}" "\<exists>s. hr_status reply = Some s \<and> 200 \<le> s \<and> s < 300"
    by blast
  let ?w = "dp_store d"
  obtain q rp where q: "apply_page cfg (lite_apply env) (nt_clock net (lw_tick ?w)) target p (lw_repo ?w) = (q, rp)"
    by (cases "apply_page cfg (lite_apply env) (nt_clock net (lw_tick ?w)) target p (lw_repo ?w)")
  have "on_store (po_apply (lite_ports cfg env net) target p) d = (q, d\<lparr>dp_store := \<lparr>lw_repo = rp, lw_tick = Suc (lw_tick ?w)\<rparr>\<rparr>)"
    by (simp add: on_store_def lite_ports_def timed_def q)
  then have "d' = d\<lparr>dp_store := \<lparr>lw_repo = rp, lw_tick = Suc (lw_tick ?w)\<rparr>\<rparr> \<and> (\<forall>p c res. r = Inr (p, c, res) \<longrightarrow> q = Inr res)"
    using assms p by (cases q) (auto simp: accept_page_def bindA_def liftA_def returnA_def)
  then show ?thesis using apply_page_inbound [OF q] by auto
next
  case False
  then have "dp_store d' = dp_store d \<and> (\<forall>x. r \<noteq> Inr x)"
    using assms by (auto simp: accept_page_def bindA_def liftA_def raiseA_def not_less split: if_splits option.splits prod.splits sum.splits)
  then show ?thesis by simp
qed

lemma pull_pages_reached:
  "pull_pages denv dcfg (lite_ports cfg env net) target url n m c acc d = (r, d') \<Longrightarrow>
    reached cfg target d \<le> reached cfg target d'
    \<and> (\<forall>res. r = Inr res \<longrightarrow> pu_cursor acc \<le> reached cfg target d \<longrightarrow> pu_cursor res \<le> reached cfg target d')
    \<and> (\<forall>res. r = Inr res \<longrightarrow> pu_pages res \<le> pu_pages acc + m)"
proof (induction m arbitrary: c acc d)
  case (Suc m)
  obtain r1 d1 where g: "on_store (po_get (lite_ports cfg env net) (url @ cp ''/sync/v1/changes'') n c) d = (r1, d1)"
    by (cases "on_store (po_get (lite_ports cfg env net) (url @ cp ''/sync/v1/changes'') n c) d")
  have same: "reached cfg target d1 = reached cfg target d"
    using g by (auto simp: on_store_def ticked_def)
  show ?case
  proof (cases r1)
    case (Inr reply)
    obtain r2 d2 where a: "accept_page denv dcfg (lite_ports cfg env net) target n reply d1 = (r2, d2)"
      by (cases "accept_page denv dcfg (lite_ports cfg env net) target n reply d1")
    note step = accept_page_reached [OF a]
    show ?thesis
    proof (cases r2)
      case (Inl e)
      then show ?thesis using Suc.prems step same by (auto simp: g \<open>r1 = Inr reply\<close> a simp del: lite_ports_simps)
    next
      case (Inr q)
      obtain p c' res where q: "q = (p, c', res)" by (cases q)
      let ?d3 = "d2\<lparr>dp_cursors := dict_set target c' (dp_cursors d2)\<rparr>"
      have go: "(if pg_items p = [] \<and> \<not> pg_more p then (Inr (add_page res acc), ?d3)
          else pull_pages denv dcfg (lite_ports cfg env net) target url n m (Some c') (add_page res acc) ?d3) = (r, d')"
        using Suc.prems by (simp add: g \<open>r1 = Inr reply\<close> a Inr q Let_def del: lite_ports_simps)
      have "ar_cursor res \<le> reached cfg target ?d3" "reached cfg target d \<le> reached cfg target ?d3"
        using step same by (simp_all add: Inr q)
      then show ?thesis
        using go Suc.IH [of "Some c'" "add_page res acc" ?d3]
        by (cases "pg_items p = [] \<and> \<not> pg_more p") (auto simp: add_page_def)
    qed
  qed (use Suc.prems same in \<open>auto simp: g simp del: lite_ports_simps\<close>)
qed auto

text \<open>
  C38: A pull never goes back: whether it succeeds or fails at any page, the confirmed position
  in the peer's stream does not fall, and a successful pull asks for at most the given number
  of pages and reports a position the store has really confirmed.
\<close>
theorem pull_makes_progress:
  assumes "pull denv dcfg (lite_ports cfg env net) target max_pages page_size d = (r, d')"
    and "0 \<le> inbound_seq cfg target (rp_sync (lw_repo (dp_store d)))"
  shows "inbound_seq cfg target (rp_sync (lw_repo (dp_store d))) \<le> inbound_seq cfg target (rp_sync (lw_repo (dp_store d')))
    \<and> (\<forall>res. r = Inr res \<longrightarrow> int (pu_pages res) \<le> max_pages
        \<and> pu_cursor res \<le> inbound_seq cfg target (rp_sync (lw_repo (dp_store d'))))"
proof (cases "\<exists>url. dict_get (dc_targets dcfg) target = Some url \<and> 1 \<le> max_pages \<and> 1 \<le> page_size
    \<and> max_pages \<le> MAX_PULL_PAGES \<and> page_size \<le> MAX_PAGE_SIZE")
  case True
  then obtain url where url: "dict_get (dc_targets dcfg) target = Some url" and args: "1 \<le> max_pages" "1 \<le> page_size"
    "max_pages \<le> MAX_PULL_PAGES" "page_size \<le> MAX_PAGE_SIZE" by blast
  have "pull_pages denv dcfg (lite_ports cfg env net) target url page_size (nat max_pages) (dict_get (dp_cursors d) target)
      \<lparr>pu_pages = 0, pu_applied = 0, pu_duplicate = 0, pu_conflict = 0, pu_cursor = 0\<rparr> d = (r, d')"
    using assms(1) args by (auto simp: pull_def url check_positive_def split: if_splits)
  from pull_pages_reached [OF this] show ?thesis using assms(2) args by auto
next
  case False
  then have "d' = d \<and> (\<forall>x. r \<noteq> Inr x)"
    using assms(1) by (fastforce simp: pull_def split: option.splits sum.splits if_splits)
  then show ?thesis by simp
qed

subsection \<open>An expired cursor\<close>

text \<open>
  A peer that reports an expired cursor (400 or 409) makes the pull forget its cursor, but
  the caller never sees the expiry: it is masked as an invalid page.
\<close>
theorem expired_cursor_is_masked:
  assumes "dict_get (dc_targets dcfg) target = Some url" "1 \<le> max_pages" "max_pages \<le> 1000" "1 \<le> page_size" "page_size \<le> 1000"
    and "on_store (po_get ports (url @ cp ''/sync/v1/changes'') page_size (dict_get (dp_cursors d) target)) d = (Inr reply, d1)"
    and "hr_status reply = Some 400 \<or> hr_status reply = Some 409"
  shows "pull denv dcfg ports target max_pages page_size d =
    (Inl (RuntimeErr ''sync_pull_invalid_page''), d1\<lparr>dp_cursors := dict_pop target (dp_cursors d1)\<rparr>)"
proof -
  obtain m where m: "nat max_pages = Suc m" using assms(2) by (cases "nat max_pages") auto
  show ?thesis
    using assms by (auto simp: pull_def check_positive_def MAX_PULL_PAGES_def MAX_PAGE_SIZE_def m accept_page_def)
qed

theorem expired_cursor_is_masked_witness:
  "\<forall>env. \<exists>d. pull sample_denv sample_dcfg (lite_ports sample_config env sample_net) (cp ''node-b'') 3 10 sample_dispatcher =
    (Inl (RuntimeErr ''sync_pull_invalid_page''), d)"
proof
  fix env
  have "on_store (po_get (lite_ports sample_config env sample_net) (cp ''http://b'' @ cp ''/sync/v1/changes'') 10
      (dict_get (dp_cursors sample_dispatcher) (cp ''node-b''))) sample_dispatcher =
      (Inr \<lparr>hr_status = Some 409, hr_body = Some []\<rparr>, sample_dispatcher\<lparr>dp_store := world_at sample_sync 1\<rparr>)"
    by (simp add: on_store_def sample_dispatcher_def sample_world_at) (simp add: sample_net_def)
  from expired_cursor_is_masked [OF _ _ _ _ _ this, where dcfg = sample_dcfg and max_pages = 3]
  show "\<exists>d. pull sample_denv sample_dcfg (lite_ports sample_config env sample_net) (cp ''node-b'') 3 10 sample_dispatcher =
    (Inl (RuntimeErr ''sync_pull_invalid_page''), d)"
    by (simp add: sample_dcfg_def)
qed

text \<open>A peer with an empty stream.\<close>

definition empty_page_json :: json where
  "empty_page_json = to_obj [''items'', ''snapshot_seq'', ''next_cursor'', ''has_more'']
     [JList [], JInt 0, JStr (cp ''c''), JBool False]"

definition page_denv :: dispatch_env where
  "page_denv = sample_denv\<lparr>de_wire := (sample_env JNull)\<lparr>json_loads := \<lambda>_. Inr empty_page_json\<rparr>\<rparr>"

definition page_net :: network where
  "page_net = sample_net\<lparr>nt_get := (\<lambda>_ _ _ _. Inr \<lparr>hr_status = Some 200, hr_body = Some []\<rparr>)\<rparr>"

definition empty_page :: sync_page where
  "empty_page = \<lparr>pg_items = [], pg_snapshot = 0, pg_next = 0, pg_more = False\<rparr>"

lemma empty_page_read:
  "bindR (response_json page_denv sample_dcfg \<lparr>hr_status = Some 200, hr_body = Some []\<rparr>) (parse_page (de_wire page_denv)) =
    Inr (empty_page, cp ''c'')"
  by (simp add: response_json_def load_utf8_def page_denv_def parse_page_def empty_page_json_def exact_fields_obj exact_list_def
      make_page_def require_exact_int_def check_continuation_def empty_page_def MAX_SAFE_def Let_def)

lemma sample_pull:
  "pull page_denv sample_dcfg (lite_ports sample_config env page_net) (cp ''node-b'') 3 10 sample_dispatcher =
    (Inr \<lparr>pu_pages = 1, pu_applied = 0, pu_duplicate = 0, pu_conflict = 0, pu_cursor = 0\<rparr>,
     sample_dispatcher\<lparr>dp_store := world_at sample_sync 2, dp_cursors := [(cp ''node-b'', cp ''c'')]\<rparr>)"
proof -
  let ?ports = "lite_ports sample_config env page_net"
  have g: "on_store (po_get ?ports u 10 c) sample_dispatcher =
      (Inr \<lparr>hr_status = Some 200, hr_body = Some []\<rparr>, sample_dispatcher\<lparr>dp_store := world_at sample_sync (Suc 0)\<rparr>)" for u c
    by (simp add: on_store_def sample_dispatcher_def sample_world_at) (simp add: page_net_def sample_net_def)
  have "apply_page sample_config (lite_apply env) (nt_clock page_net k) (cp ''node-b'') empty_page (sample_repo\<lparr>rp_sync := sample_sync\<rparr>) =
      (Inr \<lparr>ar_applied = 0, ar_duplicate = 0, ar_conflict = 0, ar_cursor = 0\<rparr>, sample_repo\<lparr>rp_sync := sample_sync\<rparr>)" for k
    by (simp add: apply_page_def require_str_def local_node_def sample_config_def cp_inj mutation_def apply_page_body_def
        validate_incoming_page_def page_tenant_def empty_page_def apply_page_events_def find_cursor_def sample_sync_def empty_sync_def Let_def)
  then have a: "on_store (po_apply ?ports (cp ''node-b'') empty_page) (sample_dispatcher\<lparr>dp_store := world_at sample_sync (Suc 0)\<rparr>) =
      (Inr \<lparr>ar_applied = 0, ar_duplicate = 0, ar_conflict = 0, ar_cursor = 0\<rparr>, sample_dispatcher\<lparr>dp_store := world_at sample_sync 2\<rparr>)"
    by (simp add: on_store_def lite_ports_def world_at_back)
  have "accept_page page_denv sample_dcfg ?ports (cp ''node-b'') 10 \<lparr>hr_status = Some 200, hr_body = Some []\<rparr>
      (sample_dispatcher\<lparr>dp_store := world_at sample_sync (Suc 0)\<rparr>) =
      (Inr (empty_page, cp ''c'', \<lparr>ar_applied = 0, ar_duplicate = 0, ar_conflict = 0, ar_cursor = 0\<rparr>),
       sample_dispatcher\<lparr>dp_store := world_at sample_sync 2\<rparr>)"
    by (simp add: accept_page_def bindA_def liftA_def empty_page_read a returnA_def) (simp add: empty_page_def)
  then show ?thesis
    by (simp add: pull_def sample_dcfg_def [THEN arg_cong [where f = dc_targets]] check_positive_def MAX_PULL_PAGES_def
        MAX_PAGE_SIZE_def numeral_3_eq_3 g add_page_def del: lite_ports_simps) (simp add: empty_page_def sample_dispatcher_def)
qed

theorem pull_makes_progress_witness: "inbound_seq sample_config (cp ''node-b'') sample_sync \<le> 0"
proof -
  fix env
  show ?thesis
    using pull_makes_progress [OF sample_pull [of env]]
    by (simp add: sample_dispatcher_def sample_world_at inbound_seq_def find_cursor_def sample_sync_def empty_sync_def)
qed

end
