(* ===== verification/Lite_Validation.thy ===== *)
theory Lite_Validation
  imports Sync_Pages
begin

section \<open>Validation of the persisted sync state\<close>

text \<open>
  \<open>src/memplex/storage/lite/durability.py\<close>, the validators: what a memory document of the
  lite store has to look like to be loaded or written.  A document is a JSON value; each
  validator is the code's, with its errors in its order.  Parsing and printing of calendar
  times are a parameter.
\<close>

subsection \<open>Values\<close>

record valid_env =
  ve_wire :: wire_env
  ve_iso_read :: "ustring \<Rightarrow> (int \<times> int option) option"
  ve_iso_write :: "int \<Rightarrow> ustring"

text \<open>\<open>LiteStorageIntegrityError\<close> is a runtime error.\<close>

definition bad :: "string \<Rightarrow> 'a result" where
  "bad label = Inl (RuntimeErr (''invalid Lite '' @ label))"

text \<open>Equality of Python values: dictionaries do not depend on the order of their entries.\<close>

fun py_equal :: "json \<Rightarrow> json \<Rightarrow> bool" where
  "py_equal (JList xs) (JList ys) = list_all2 py_equal xs ys"
| "py_equal (JObj kvs) (JObj ls) = (length kvs = length ls \<and>
     list_all (\<lambda>(k, v). case dict_get ls k of None \<Rightarrow> False | Some w \<Rightarrow> py_equal v w) kvs)"
| "py_equal v w = (v = w)"

definition fld :: "(ustring, json) dict \<Rightarrow> string \<Rightarrow> json" where
  "fld d name = (case dict_get d (cp name) of None \<Rightarrow> JNull | Some v \<Rightarrow> v)"

definition need_generation :: "string \<Rightarrow> json \<Rightarrow> int result" where
  "need_generation label j = (case j of
     JInt n \<Rightarrow> if n < 0 then bad (label @ '' generation'') else Inr n | _ \<Rightarrow> bad (label @ '' generation''))"

definition need_transaction :: "string \<Rightarrow> json \<Rightarrow> ustring result" where
  "need_transaction label j = (case j of
     JStr s \<Rightarrow> if s = [] then bad (label @ '' transaction_id'') else Inr s | _ \<Rightarrow> bad (label @ '' transaction_id''))"

definition need_str :: "string \<Rightarrow> json \<Rightarrow> ustring result" where
  "need_str label j = (case j of JStr s \<Rightarrow> if s = [] then bad label else Inr s | _ \<Rightarrow> bad label)"

text \<open>A library call that raises only type and value errors, reported under the label.\<close>

definition or_bad :: "string \<Rightarrow> 'a result \<Rightarrow> 'a result" where
  "or_bad label r = (case r of Inl _ \<Rightarrow> bad label | Inr x \<Rightarrow> Inr x)"

definition need_uuid :: "string \<Rightarrow> json \<Rightarrow> ustring result" where
  "need_uuid label j = bindR (need_str label j) (\<lambda>s. or_bad label (require_uuid label s))"

definition need_time :: "valid_env \<Rightarrow> string \<Rightarrow> json \<Rightarrow> int result" where
  "need_time env label j =
     (case j of
        JStr s \<Rightarrow>
          if s = [] then bad label
          else (case ve_iso_read env (if last s = 90 then butlast s @ cp ''+00:00'' else s) of
            None \<Rightarrow> bad label
          | Some (t, offset) \<Rightarrow>
              if offset \<noteq> Some 0 then bad label
              else if s \<noteq> ve_iso_write env t then bad label else Inr t)
      | _ \<Rightarrow> bad label)"

definition need_json :: "string \<Rightarrow> json \<Rightarrow> unit result" where
  "need_json label j = (case assert_json j of Inl _ \<Rightarrow> bad label | Inr _ \<Rightarrow> Inr ())"

definition need_version :: "valid_env \<Rightarrow> string \<Rightarrow> json \<Rightarrow> ustring \<Rightarrow> ustring \<Rightarrow> sync_version result" where
  "need_version env label j orig eid =
     bindR (need_str label j) (\<lambda>s.
     bindR (or_bad label (parse_version (ve_wire env) (JStr s))) (\<lambda>v.
       if version_origin v \<noteq> orig \<or> version_event v \<noteq> eid then bad label else Inr v))"

definition need_node_type :: "string \<Rightarrow> json \<Rightarrow> sync_node_type result" where
  "need_node_type label j = bindR (need_str label j) (\<lambda>s.
     case node_type_of (JStr s) of None \<Rightarrow> bad label | Some t \<Rightarrow> Inr t)"

definition need_operation :: "string \<Rightarrow> json \<Rightarrow> sync_operation result" where
  "need_operation label j = bindR (need_str label j) (\<lambda>s.
     case operation_of (JStr s) of None \<Rightarrow> bad label | Some p \<Rightarrow> Inr p)"

definition need_key :: "valid_env \<Rightarrow> string \<Rightarrow> json \<Rightarrow> entity_key result" where
  "need_key env label j = bindR (need_str label j) (\<lambda>s. or_bad label (parse_key (ve_wire env) (JStr s)))"

text \<open>\<open>_require_canonical_sync_event\<close>: the value is what the event it reads as prints.\<close>

definition need_event :: "valid_env \<Rightarrow> string \<Rightarrow> json \<Rightarrow> sync_event result" where
  "need_event env label j =
     (case j of
        JObj kvs \<Rightarrow>
          or_bad label (bindR (need_json label j) (\<lambda>_.
            bindR (event_from_dict (ve_wire env) j) (\<lambda>e.
            bindR (event_to_dict (ve_wire env) e) (\<lambda>j'.
              if py_equal j' j then Inr e else Inl (ValueErr ''event is not canonical'')))))
      | _ \<Rightarrow> bad label)"

definition optional_text :: "string \<Rightarrow> json \<Rightarrow> unit result" where
  "optional_text label j = (case j of JNull \<Rightarrow> Inr () | JStr _ \<Rightarrow> Inr () | _ \<Rightarrow> bad label)"

definition exact_keys :: "string list \<Rightarrow> string \<Rightarrow> json \<Rightarrow> (ustring, json) dict result" where
  "exact_keys names label j = (case j of
     JObj kvs \<Rightarrow> if fst ` set kvs = cp ` set names then Inr kvs else bad (label @ '' schema'')
   | _ \<Rightarrow> bad (label @ '' schema''))"

text \<open>A list of dictionaries with exactly these keys.\<close>

definition exact_item :: "string list \<Rightarrow> string \<Rightarrow> json \<Rightarrow> (ustring, json) dict result" where
  "exact_item names label j = (case j of
     JObj kvs \<Rightarrow> exact_keys names (label @ '' item'') j | _ \<Rightarrow> bad (label @ '' item''))"

definition exact_items :: "string list \<Rightarrow> string \<Rightarrow> json \<Rightarrow> (ustring, json) dict list result" where
  "exact_items names label j = (case j of JList xs \<Rightarrow> mapR (exact_item names label) xs | _ \<Rightarrow> bad label)"

definition hex64 :: "json \<Rightarrow> bool" where
  "hex64 j = (case j of JStr s \<Rightarrow> sha256_hex_text s | _ \<Rightarrow> False)"

text \<open>The receipts of a stored batch response.\<close>

definition need_receipt :: "string \<Rightarrow> json \<Rightarrow> sync_receipt result" where
  "need_receipt label j =
     (case j of
        JObj _ \<Rightarrow>
          bindR (exact_keys [''event_id'', ''outcome''] (label @ '' receipt'') j) (\<lambda>kvs.
          bindR (need_uuid (label @ '' receipt event_id'') (fld kvs ''event_id'')) (\<lambda>eid.
            if fld kvs ''outcome'' \<notin> JStr ` cp ` {''accepted'', ''duplicate'', ''rejected_conflict''} then
              bad (label @ '' receipt outcome'')
            else make_receipt (fld kvs ''event_id'') (fld kvs ''outcome'')))
      | _ \<Rightarrow> bad (label @ '' receipts''))"

definition result_to_dict :: "batch_result \<Rightarrow> json" where
  "result_to_dict r = to_obj [''batch_id'', ''request_digest'', ''outcome'', ''receipts'']
     [JStr (br_batch r), JStr (br_digest r), JStr (br_outcome r),
      JList (map (\<lambda>c. to_obj [''event_id'', ''outcome''] [JStr (rc_event c), JStr (rc_outcome c)]) (br_receipts r))]"

definition need_batch_result :: "string \<Rightarrow> ustring \<Rightarrow> json \<Rightarrow> batch_result result" where
  "need_batch_result label bid j =
     (case j of
        JObj _ \<Rightarrow>
          bindR (exact_keys [''batch_id'', ''request_digest'', ''outcome'', ''receipts''] label j) (\<lambda>kvs.
          bindR (need_uuid (label @ '' batch_id'') (fld kvs ''batch_id'')) (\<lambda>rid.
            if rid \<noteq> bid then bad (label @ '' batch_id'') else
          bindR (need_str (label @ '' request_digest'') (fld kvs ''request_digest'')) (\<lambda>digest.
            if \<not> sha256_hex_text digest then bad (label @ '' request_digest'')
            else if fld kvs ''outcome'' \<notin> JStr ` cp ` {''accepted'', ''duplicate''} then bad (label @ '' outcome'')
            else (case fld kvs ''receipts'' of
              JList xs \<Rightarrow>
                bindR (mapR (need_receipt label) xs) (\<lambda>receipts.
                or_bad label (bindR (make_batch_result (JStr rid) (JStr digest) (fld kvs ''outcome'') receipts) (\<lambda>res.
                  if py_equal (result_to_dict res) j then Inr res
                  else Inl (ValueErr ''batch result is not canonical''))))
            | _ \<Rightarrow> bad (label @ '' receipts'')))))
      | _ \<Rightarrow> bad label)"

subsection \<open>The collections of the sync state\<close>

text \<open>
  The loop of every collection: an item is checked and gives its key, and a key that clashes
  with one seen before is refused.
\<close>

fun each_once :: "('i \<Rightarrow> 'k result) \<Rightarrow> ('k \<Rightarrow> 'k \<Rightarrow> bool) \<Rightarrow> string \<Rightarrow> 'k list \<Rightarrow> 'i list \<Rightarrow> 'k list result" where
  "each_once check clash dup seen [] = Inr []"
| "each_once check clash dup seen (x # xs) =
     bindR (check x) (\<lambda>k.
       if list_ex (clash k) seen then bad dup
       else bindR (each_once check clash dup (k # seen) xs) (\<lambda>ks. Inr (k # ks)))"

definition OUTBOX_KEYS :: "string list" where
  "OUTBOX_KEYS = [''stream_seq'', ''event_id'', ''origin_node_id'', ''node_type'', ''entity_key'',
     ''operation'', ''version_key'', ''payload'', ''tenant_id'', ''visibility'', ''owner_subject_id'',
     ''workspace_id'', ''agent_id'', ''session_id'', ''created_at'']"

definition ENTITY_VERSION_KEYS :: "string list" where
  "ENTITY_VERSION_KEYS =
     [''node_type'', ''entity_key'', ''version_key'', ''deleted'', ''event_id'', ''last_stream_seq'']"

definition TARGET_KEYS :: "string list" where
  "TARGET_KEYS = [''target_id'', ''remote_node_id'', ''bootstrap_seq'', ''enabled'']"

definition DELIVERY_KEYS :: "string list" where
  "DELIVERY_KEYS = [''target_id'', ''stream_seq'', ''state'', ''attempt_count'', ''next_attempt_at'',
     ''lease_owner'', ''lease_until'', ''last_error_code'']"

definition INBOX_KEYS :: "string list" where
  "INBOX_KEYS = [''origin_node_id'', ''event_id'', ''outcome'', ''applied_stream_seq'']"

definition BATCH_KEYS :: "string list" where
  "BATCH_KEYS = [''batch_id'', ''request_sha256'', ''response'', ''created_at'']"

definition CURSOR_KEYS :: "string list" where
  "CURSOR_KEYS = [''remote_id'', ''consumer_id'', ''after_seq'', ''updated_at'']"

definition SNAPSHOT_KEYS :: "string list" where
  "SNAPSHOT_KEYS =
     [''snapshot_id'', ''remote_id'', ''consumer_id'', ''request_id'', ''resume_seq'', ''expires_at'']"

definition SNAPSHOT_ITEM_KEYS :: "string list" where
  "SNAPSHOT_ITEM_KEYS = [''snapshot_id'', ''node_type'', ''entity_key'', ''event'']"

text \<open>
  One event of the outbox: \<open>prev\<close> is the number of the event before it, \<open>seen\<close> are the
  event ids and \<open>seqs\<close> the numbers so far.
\<close>

definition stored_event ::
    "(ustring, json) dict \<Rightarrow> ustring \<Rightarrow> ustring \<Rightarrow> ustring \<Rightarrow> ustring \<Rightarrow> ustring \<Rightarrow> ustring \<Rightarrow> ustring \<Rightarrow> ustring \<Rightarrow> json" where
  "stored_event d eid orig ntype key oper ver tenant owner =
     to_obj [''protocol_version'', ''event_id'', ''origin_node_id'', ''node_type'', ''entity_key'',
         ''operation'', ''version'', ''scope'', ''payload'']
       [JInt 1, JStr eid, JStr orig, JStr ntype, JStr key, JStr oper, JStr ver,
        to_obj [''tenant_id'', ''owner_subject_id'', ''workspace_id'', ''visibility'', ''agent_id'', ''session_id'']
          [JStr tenant, JStr owner, fld d ''workspace_id'', fld d ''visibility'', fld d ''agent_id'',
           fld d ''session_id''],
        fld d ''payload'']"

definition check_outbox_item ::
    "valid_env \<Rightarrow> json \<Rightarrow> int \<Rightarrow> (ustring, json) dict \<Rightarrow> (ustring \<times> int \<times> ustring) result" where
  "check_outbox_item env tenant_binding prev d =
     bindR (need_uuid ''outbox event_id'' (fld d ''event_id'')) (\<lambda>eid.
     bindR (need_generation ''outbox stream_seq'' (fld d ''stream_seq'')) (\<lambda>seq.
       if seq < 1 \<or> seq \<le> prev then bad ''outbox item'' else
     bindR (need_str ''outbox origin_node_id'' (fld d ''origin_node_id'')) (\<lambda>orig.
     bindR (need_node_type ''outbox node_type'' (fld d ''node_type'')) (\<lambda>ntype.
     bindR (need_key env ''outbox entity_key'' (fld d ''entity_key'')) (\<lambda>key.
     bindR (need_operation ''outbox operation'' (fld d ''operation'')) (\<lambda>oper.
     bindR (need_str ''outbox version_key'' (fld d ''version_key'')) (\<lambda>ver.
     bindR (need_version env ''outbox version_key'' (JStr ver) orig eid) (\<lambda>v.
     bindR (need_str ''outbox tenant_id'' (fld d ''tenant_id'')) (\<lambda>tenant.
       if tenant_binding = JNull \<or> JStr tenant \<noteq> tenant_binding then bad ''outbox tenant binding'' else
     bindR (need_str ''outbox owner_subject_id'' (fld d ''owner_subject_id'')) (\<lambda>owner.
     bindR (optional_text ''outbox workspace_id'' (fld d ''workspace_id'')) (\<lambda>_.
     bindR (optional_text ''outbox agent_id'' (fld d ''agent_id'')) (\<lambda>_.
     bindR (optional_text ''outbox session_id'' (fld d ''session_id'')) (\<lambda>_.
     bindR (need_time env ''outbox created_at'' (fld d ''created_at'')) (\<lambda>created.
       if created \<noteq> occurred_at v then bad ''outbox created_at'' else
     bindR (or_bad ''outbox event'' (key_text key)) (\<lambda>ktext.
     bindR (need_event env ''outbox event''
        (stored_event d eid orig (node_type_value ntype) ktext (operation_value oper) ver tenant owner)) (\<lambda>_.
       Inr (eid, seq, tenant)))))))))))))))))"

fun check_outbox ::
    "valid_env \<Rightarrow> json \<Rightarrow> ustring set \<Rightarrow> int set \<Rightarrow> int \<Rightarrow> (ustring, json) dict list
      \<Rightarrow> (ustring set \<times> int set \<times> int) result" where
  "check_outbox env tenant_binding seen seqs prev [] = Inr (seen, seqs, prev)"
| "check_outbox env tenant_binding seen seqs prev (d # ds) =
     bindR (check_outbox_item env tenant_binding prev d) (\<lambda>(eid, seq, _).
       if eid \<in> seen \<or> seq \<in> seqs then bad ''outbox duplicates''
       else check_outbox env tenant_binding (insert eid seen) (insert seq seqs) seq ds)"

definition need_bool :: "string \<Rightarrow> json \<Rightarrow> bool result" where
  "need_bool label j = (case j of JBool b \<Rightarrow> Inr b | _ \<Rightarrow> bad label)"

definition need_int_from :: "int \<Rightarrow> string \<Rightarrow> json \<Rightarrow> int result" where
  "need_int_from low label j = (case j of JInt n \<Rightarrow> if n < low then bad label else Inr n | _ \<Rightarrow> bad label)"

definition check_entity_version ::
    "valid_env \<Rightarrow> (ustring, json) dict \<Rightarrow> (sync_node_type \<times> json) result" where
  "check_entity_version env d =
     bindR (need_node_type ''entity version node_type'' (fld d ''node_type'')) (\<lambda>ntype.
     bindR (need_key env ''entity version entity_key'' (fld d ''entity_key'')) (\<lambda>key.
       if (ntype = EdgeT) \<noteq> is_edge_key key then bad ''entity version entity_key'' else
     bindR (need_uuid ''entity version event_id'' (fld d ''event_id'')) (\<lambda>eid.
     bindR (need_str ''entity version version_key'' (fld d ''version_key'')) (\<lambda>ver.
     bindR (or_bad ''entity version version_key'' (parse_version (ve_wire env) (JStr ver))) (\<lambda>v.
       if version_event v \<noteq> eid then bad ''entity version version_key'' else
     bindR (need_bool ''entity version deleted'' (fld d ''deleted'')) (\<lambda>_.
     bindR (need_int_from 1 ''entity version last_stream_seq'' (fld d ''last_stream_seq'')) (\<lambda>_.
       Inr (ntype, fld d ''entity_key''))))))))"

definition check_entity_versions :: "valid_env \<Rightarrow> (ustring, json) dict list \<Rightarrow> (sync_node_type \<times> json) list result" where
  "check_entity_versions env ds =
     each_once (check_entity_version env) (=) ''entity version duplicates'' [] ds"

definition check_target :: "int \<Rightarrow> (ustring, json) dict \<Rightarrow> ustring result" where
  "check_target next_seq d =
     bindR (need_str ''target target_id'' (fld d ''target_id'')) (\<lambda>t.
     bindR (need_str ''target remote_node_id'' (fld d ''remote_node_id'')) (\<lambda>_.
     bindR (need_generation ''sync target bootstrap_seq'' (fld d ''bootstrap_seq'')) (\<lambda>b.
       if next_seq \<le> b then bad ''sync target bootstrap_seq'' else
     bindR (need_bool ''sync target'' (fld d ''enabled'')) (\<lambda>_. Inr t))))"

definition check_targets :: "int \<Rightarrow> (ustring, json) dict list \<Rightarrow> ustring list result" where
  "check_targets next_seq ds = each_once (check_target next_seq) (=) ''sync target duplicates'' [] ds"

definition check_delivery ::
    "valid_env \<Rightarrow> int set \<Rightarrow> ustring list \<Rightarrow> (ustring, json) dict \<Rightarrow> (ustring \<times> int) result" where
  "check_delivery env seqs targets d =
     (if fld d ''state'' \<notin> JStr ` cp ` {''pending'', ''leased'', ''delivered'', ''dead_letter''} then
        bad ''delivery state'' else
     bindR (need_str ''delivery target_id'' (fld d ''target_id'')) (\<lambda>t.
       if t \<notin> set targets then bad ''delivery target'' else
     bindR (need_generation ''delivery stream_seq'' (fld d ''stream_seq'')) (\<lambda>seq.
       if seq < 1 \<or> seq \<notin> seqs then bad ''delivery stream_seq'' else
     bindR (need_int_from 0 ''delivery attempt_count'' (fld d ''attempt_count'')) (\<lambda>_.
     bindR (optional_text ''delivery lease_owner'' (fld d ''lease_owner'')) (\<lambda>_.
     bindR (if fld d ''lease_until'' = JNull then Inr 0
            else need_time env ''delivery lease_until'' (fld d ''lease_until'')) (\<lambda>_.
     bindR (optional_text ''delivery last_error_code'' (fld d ''last_error_code'')) (\<lambda>_.
     bindR (need_time env ''delivery next_attempt_at'' (fld d ''next_attempt_at'')) (\<lambda>_.
       if fld d ''state'' = JStr (cp ''leased'') then
         (if fld d ''lease_owner'' = JNull \<or> fld d ''lease_until'' = JNull then bad ''leased delivery''
          else Inr (t, seq))
       else if fld d ''lease_owner'' \<noteq> JNull \<or> fld d ''lease_until'' \<noteq> JNull then bad ''delivery lease state''
       else Inr (t, seq)))))))))"

definition check_deliveries ::
    "valid_env \<Rightarrow> int set \<Rightarrow> ustring list \<Rightarrow> (ustring, json) dict list \<Rightarrow> (ustring \<times> int) list result" where
  "check_deliveries env seqs targets ds =
     each_once (check_delivery env seqs targets) (=) ''delivery duplicates'' [] ds"

definition check_inbox_item :: "(ustring, json) dict \<Rightarrow> (ustring \<times> ustring) result" where
  "check_inbox_item d =
     bindR (need_str ''inbox origin_node_id'' (fld d ''origin_node_id'')) (\<lambda>orig.
     bindR (need_uuid ''inbox event_id'' (fld d ''event_id'')) (\<lambda>eid.
       if fld d ''outcome'' \<notin> JStr ` cp ` {''accepted'', ''duplicate'', ''rejected_conflict''} then
         bad ''inbox outcome'' else
     bindR (if fld d ''applied_stream_seq'' = JNull then Inr 0
            else need_int_from 0 ''inbox applied_stream_seq'' (fld d ''applied_stream_seq'')) (\<lambda>_.
       Inr (orig, eid))))"

definition check_inbox :: "(ustring, json) dict list \<Rightarrow> (ustring \<times> ustring) list result" where
  "check_inbox ds = each_once check_inbox_item (=) ''inbox duplicates'' [] ds"

definition check_batch :: "valid_env \<Rightarrow> (ustring, json) dict \<Rightarrow> ustring result" where
  "check_batch env d =
     bindR (need_uuid ''batch batch_id'' (fld d ''batch_id'')) (\<lambda>bid.
       if \<not> hex64 (fld d ''request_sha256'') then bad ''batch request_sha256'' else
     bindR (need_batch_result ''batch response'' bid (fld d ''response'')) (\<lambda>res.
       if JStr (br_digest res) \<noteq> fld d ''request_sha256'' then bad ''batch response digest'' else
     bindR (need_time env ''batch created_at'' (fld d ''created_at'')) (\<lambda>_. Inr bid)))"

definition check_batches :: "valid_env \<Rightarrow> (ustring, json) dict list \<Rightarrow> ustring list result" where
  "check_batches env ds = each_once (check_batch env) (=) ''batch duplicates'' [] ds"

text \<open>A position is in the retained stream when it is at least the floor and was assigned.\<close>

definition check_cursor_row ::
    "valid_env \<Rightarrow> int \<Rightarrow> int \<Rightarrow> (ustring, json) dict \<Rightarrow> (ustring \<times> ustring) result" where
  "check_cursor_row env floor next_seq d =
     bindR (need_str ''cursor remote_id'' (fld d ''remote_id'')) (\<lambda>remote.
     bindR (need_str ''cursor consumer_id'' (fld d ''consumer_id'')) (\<lambda>consumer.
     bindR (need_generation ''cursor after_seq'' (fld d ''after_seq'')) (\<lambda>after.
     bindR (need_time env ''cursor updated_at'' (fld d ''updated_at'')) (\<lambda>_.
       if after < floor \<or> next_seq \<le> after then bad ''cursor after_seq''
       else Inr (remote, consumer)))))"

definition check_cursors ::
    "valid_env \<Rightarrow> int \<Rightarrow> int \<Rightarrow> (ustring, json) dict list \<Rightarrow> (ustring \<times> ustring) list result" where
  "check_cursors env floor next_seq ds =
     each_once (check_cursor_row env floor next_seq) (=) ''cursor duplicates'' [] ds"

definition check_inbound_cursor :: "valid_env \<Rightarrow> (ustring, json) dict \<Rightarrow> (ustring \<times> ustring) result" where
  "check_inbound_cursor env d =
     bindR (need_str ''inbound cursor remote_id'' (fld d ''remote_id'')) (\<lambda>remote.
     bindR (need_str ''inbound cursor consumer_id'' (fld d ''consumer_id'')) (\<lambda>consumer.
     bindR (need_generation ''inbound cursor after_seq'' (fld d ''after_seq'')) (\<lambda>_.
     bindR (need_time env ''inbound cursor updated_at'' (fld d ''updated_at'')) (\<lambda>_.
       Inr (remote, consumer)))))"

definition check_inbound_cursors :: "valid_env \<Rightarrow> (ustring, json) dict list \<Rightarrow> (ustring \<times> ustring) list result" where
  "check_inbound_cursors env ds =
     each_once (check_inbound_cursor env) (=) ''inbound cursor duplicates'' [] ds"

definition check_snapshot ::
    "valid_env \<Rightarrow> int \<Rightarrow> int \<Rightarrow> (ustring, json) dict \<Rightarrow> (ustring \<times> ustring \<times> ustring \<times> ustring) result" where
  "check_snapshot env floor next_seq d =
     bindR (need_uuid ''snapshot snapshot_id'' (fld d ''snapshot_id'')) (\<lambda>sid.
     bindR (need_str ''snapshot remote_id'' (fld d ''remote_id'')) (\<lambda>remote.
     bindR (need_str ''snapshot consumer_id'' (fld d ''consumer_id'')) (\<lambda>consumer.
     bindR (need_str ''snapshot request_id'' (fld d ''request_id'')) (\<lambda>request.
     bindR (need_generation ''snapshot resume_seq'' (fld d ''resume_seq'')) (\<lambda>resume.
       if resume < floor \<or> next_seq \<le> resume then bad ''snapshot resume_seq'' else
     bindR (need_time env ''snapshot expires_at'' (fld d ''expires_at'')) (\<lambda>_.
       Inr (sid, remote, consumer, request)))))))"

definition check_snapshots ::
    "valid_env \<Rightarrow> int \<Rightarrow> int \<Rightarrow> (ustring, json) dict list
      \<Rightarrow> (ustring \<times> ustring \<times> ustring \<times> ustring) list result" where
  "check_snapshots env floor next_seq ds =
     each_once (check_snapshot env floor next_seq) (\<lambda>(i, r) (j, s). i = j \<or> r = s)
       ''snapshot duplicates'' [] ds"

definition obj_get :: "json \<Rightarrow> string \<Rightarrow> json" where
  "obj_get j name = (case j of JObj kvs \<Rightarrow> fld kvs name | _ \<Rightarrow> JNull)"

definition check_snapshot_item ::
    "valid_env \<Rightarrow> json \<Rightarrow> ustring list \<Rightarrow> (ustring, json) dict
      \<Rightarrow> (ustring \<times> sync_node_type \<times> json) result" where
  "check_snapshot_item env tenant_binding snapshot_ids d =
     bindR (need_uuid ''snapshot item snapshot_id'' (fld d ''snapshot_id'')) (\<lambda>sid.
       if sid \<notin> set snapshot_ids then bad ''snapshot item snapshot_id'' else
     bindR (need_node_type ''snapshot item node_type'' (fld d ''node_type'')) (\<lambda>ntype.
     bindR (need_key env ''snapshot item entity_key'' (fld d ''entity_key'')) (\<lambda>key.
       if (ntype = EdgeT) \<noteq> is_edge_key key then bad ''snapshot item entity_key'' else
     bindR (need_event env ''snapshot item event'' (fld d ''event'')) (\<lambda>e.
       if tenant_binding = JNull \<or> obj_get (obj_get (fld d ''event'') ''scope'') ''tenant_id'' \<noteq> tenant_binding
       then bad ''snapshot item tenant binding''
       else if obj_get (fld d ''event'') ''node_type'' \<noteq> fld d ''node_type''
         \<or> obj_get (fld d ''event'') ''entity_key'' \<noteq> fld d ''entity_key''
       then bad ''snapshot item event identity''
       else Inr (sid, ntype, fld d ''entity_key'')))))"

definition check_snapshot_items ::
    "valid_env \<Rightarrow> json \<Rightarrow> ustring list \<Rightarrow> (ustring, json) dict list
      \<Rightarrow> (ustring \<times> sync_node_type \<times> json) list result" where
  "check_snapshot_items env tenant_binding snapshot_ids ds =
     each_once (check_snapshot_item env tenant_binding snapshot_ids) (=) ''snapshot item duplicates'' [] ds"

subsection \<open>The sync state and the memory document\<close>

definition LEGACY_SYNC_KEYS :: "string list" where
  "LEGACY_SYNC_KEYS = [''tenant_binding'', ''next_stream_seq'', ''retention_floor'', ''compacted_through'',
     ''outbox'', ''entity_versions'', ''targets'', ''deliveries'', ''inbox'', ''batches'', ''cursors'',
     ''snapshots'', ''snapshot_items'']"

definition SYNC_STATE_KEYS :: "string list" where
  "SYNC_STATE_KEYS = ''inbound_cursors'' # LEGACY_SYNC_KEYS"

definition empty_sync_state :: json where
  "empty_sync_state = to_obj
     [''tenant_binding'', ''next_stream_seq'', ''retention_floor'', ''compacted_through'', ''outbox'',
      ''entity_versions'', ''targets'', ''deliveries'', ''inbox'', ''batches'', ''cursors'',
      ''inbound_cursors'', ''snapshots'', ''snapshot_items'']
     ([JNull, JInt 1, JInt 0, JInt 0] @ replicate 10 (JList []))"

text \<open>The collections of a sync state, read as lists of items of the right shape.\<close>

record sync_doc =
  sd_outbox :: "(ustring, json) dict list"
  sd_versions :: "(ustring, json) dict list"
  sd_targets :: "(ustring, json) dict list"
  sd_deliveries :: "(ustring, json) dict list"
  sd_inbox :: "(ustring, json) dict list"
  sd_batches :: "(ustring, json) dict list"
  sd_cursors :: "(ustring, json) dict list"
  sd_inbound :: "(ustring, json) dict list"
  sd_snapshots :: "(ustring, json) dict list"
  sd_items :: "(ustring, json) dict list"

definition read_sync_doc :: "(ustring, json) dict \<Rightarrow> sync_doc result" where
  "read_sync_doc p =
     bindR (exact_items OUTBOX_KEYS ''outbox'' (fld p ''outbox'')) (\<lambda>ob.
     bindR (exact_items ENTITY_VERSION_KEYS ''entity_versions'' (fld p ''entity_versions'')) (\<lambda>vs.
     bindR (exact_items TARGET_KEYS ''targets'' (fld p ''targets'')) (\<lambda>ts.
     bindR (exact_items DELIVERY_KEYS ''deliveries'' (fld p ''deliveries'')) (\<lambda>ds.
     bindR (exact_items INBOX_KEYS ''inbox'' (fld p ''inbox'')) (\<lambda>ib.
     bindR (exact_items BATCH_KEYS ''batches'' (fld p ''batches'')) (\<lambda>bs.
     bindR (exact_items CURSOR_KEYS ''cursors'' (fld p ''cursors'')) (\<lambda>cs.
     bindR (exact_items CURSOR_KEYS ''inbound cursors''
        (case dict_get p (cp ''inbound_cursors'') of None \<Rightarrow> JList [] | Some j \<Rightarrow> j)) (\<lambda>ics.
     bindR (exact_items SNAPSHOT_KEYS ''snapshots'' (fld p ''snapshots'')) (\<lambda>ss.
     bindR (exact_items SNAPSHOT_ITEM_KEYS ''snapshot_items'' (fld p ''snapshot_items'')) (\<lambda>si.
       Inr \<lparr>sd_outbox = ob, sd_versions = vs, sd_targets = ts, sd_deliveries = ds, sd_inbox = ib,
            sd_batches = bs, sd_cursors = cs, sd_inbound = ics, sd_snapshots = ss, sd_items = si\<rparr>))))))))))"

definition check_sync_doc :: "valid_env \<Rightarrow> json \<Rightarrow> int \<Rightarrow> int \<Rightarrow> sync_doc \<Rightarrow> unit result" where
  "check_sync_doc env tenant next_seq floor doc =
     bindR (check_outbox env tenant {} {} 0 (sd_outbox doc)) (\<lambda>(_, seqs, _).
       if seqs \<noteq> {} \<and> next_seq \<le> Max seqs then bad ''next_stream_seq''
       else if seqs \<noteq> {floor + 1..<next_seq} then bad ''outbox sequence continuity'' else
     bindR (check_entity_versions env (sd_versions doc)) (\<lambda>_.
     bindR (check_targets next_seq (sd_targets doc)) (\<lambda>targets.
     bindR (check_deliveries env seqs targets (sd_deliveries doc)) (\<lambda>_.
     bindR (check_inbox (sd_inbox doc)) (\<lambda>_.
     bindR (check_batches env (sd_batches doc)) (\<lambda>_.
     bindR (check_cursors env floor next_seq (sd_cursors doc)) (\<lambda>_.
     bindR (check_inbound_cursors env (sd_inbound doc)) (\<lambda>_.
     bindR (check_snapshots env floor next_seq (sd_snapshots doc)) (\<lambda>snaps.
     bindR (check_snapshot_items env tenant (map fst snaps) (sd_items doc)) (\<lambda>_.
       Inr ()))))))))))"

definition validate_sync_state :: "valid_env \<Rightarrow> string \<Rightarrow> json \<Rightarrow> unit result" where
  "validate_sync_state env label j =
     (case j of
        JObj p \<Rightarrow>
          if fst ` set p \<noteq> cp ` set SYNC_STATE_KEYS \<and> fst ` set p \<noteq> cp ` set LEGACY_SYNC_KEYS then
            bad (label @ '' sync payload schema'') else
          bindR (if fld p ''tenant_binding'' = JNull then Inr []
                 else need_str (label @ '' tenant_binding'') (fld p ''tenant_binding'')) (\<lambda>_.
          bindR (need_generation (label @ '' next_stream_seq'') (fld p ''next_stream_seq'')) (\<lambda>next_seq.
            if next_seq < 1 then bad (label @ '' next_stream_seq'') else
          bindR (need_generation (label @ '' retention_floor'') (fld p ''retention_floor'')) (\<lambda>floor.
          bindR (need_generation (label @ '' compacted_through'') (fld p ''compacted_through'')) (\<lambda>through.
            if through \<noteq> floor then bad (label @ '' compacted_through'') else
          bindR (read_sync_doc p) (\<lambda>doc.
            check_sync_doc env (fld p ''tenant_binding'') next_seq floor doc)))))
      | _ \<Rightarrow> bad (label @ '' sync payload''))"

text \<open>
  \<open>_validate_memory_payload\<close>.  The collections are looked at in the order of the document;
  the code takes them in the order of a set, which only decides which of two wrong
  collections an error names.
\<close>

definition OPTIONAL_COLLECTIONS :: "string list" where
  "OPTIONAL_COLLECTIONS = [''observations'', ''facts'', ''preferences'', ''paragraphs'']"

definition V2_KEYS :: "string list" where
  "V2_KEYS = [''schema_version'', ''functions'', ''edges'', ''sync''] @ OPTIONAL_COLLECTIONS"

definition V1_KEYS :: "string list" where
  "V1_KEYS = [''schema_version'', ''functions'', ''edges'']"

definition has_keys :: "(ustring, json) dict \<Rightarrow> string list \<Rightarrow> string list \<Rightarrow> bool" where
  "has_keys d required allowed = (cp ` set required \<subseteq> fst ` set d \<and> fst ` set d \<subseteq> cp ` set allowed)"

definition check_shape :: "valid_env \<Rightarrow> bool \<Rightarrow> (ustring, json) dict \<Rightarrow> unit result" where
  "check_shape env allow_legacy d =
     (case dict_get d (cp ''schema_version'') of
        None \<Rightarrow>
          if \<not> (allow_legacy \<and> has_keys d [''functions'', ''edges''] ([''functions'', ''edges''] @ OPTIONAL_COLLECTIONS))
          then Inl (RuntimeErr ''missing or unknown Lite memory payload schema'') else Inr ()
      | Some (JInt v) \<Rightarrow>
          if v = 2 then
            (if \<not> has_keys d [''schema_version'', ''functions'', ''edges'', ''sync''] V2_KEYS then bad ''memory payload schema''
             else validate_sync_state env ''memory'' (fld d ''sync''))
          else if v = 1 then
            (if \<not> has_keys d V1_KEYS (V1_KEYS @ OPTIONAL_COLLECTIONS) then bad ''memory payload collection keys''
             else Inr ())
          else Inl (RuntimeErr ''unsupported or invalid Lite memory payload schema'')
      | Some _ \<Rightarrow> Inl (RuntimeErr ''unsupported or invalid Lite memory payload schema''))"

definition is_collection :: "ustring \<Rightarrow> bool" where
  "is_collection k = (k \<in> cp ` set ([''functions'', ''edges''] @ OPTIONAL_COLLECTIONS))"

definition is_list :: "json \<Rightarrow> bool" where
  "is_list j = (case j of JList _ \<Rightarrow> True | _ \<Rightarrow> False)"

definition validate_memory_payload :: "valid_env \<Rightarrow> bool \<Rightarrow> json \<Rightarrow> unit result" where
  "validate_memory_payload env allow_legacy j =
     (case j of
        JObj d \<Rightarrow>
          bindR (check_shape env allow_legacy d) (\<lambda>_.
            if list_ex (\<lambda>(k, v). is_collection k \<and> \<not> is_list v) d then bad ''memory payload collection''
            else Inr ())
      | _ \<Rightarrow> bad ''memory payload'')"

subsection \<open>What a validated state is\<close>

lemma bad_ok [simp]: "bad label = Inr x \<longleftrightarrow> False"
  by (simp add: bad_def)

lemma or_bad_ok [simp]: "or_bad label r = Inr x \<longleftrightarrow> r = Inr x"
  by (cases r) (auto simp: or_bad_def)

lemma need_generation_ok [simp]: "need_generation label j = Inr n \<longleftrightarrow> j = JInt n \<and> 0 \<le> n"
  by (cases j) (auto simp: need_generation_def)

lemma need_str_ok [simp]: "need_str label j = Inr s \<longleftrightarrow> j = JStr s \<and> s \<noteq> []"
  by (cases j) (auto simp: need_str_def)

lemma need_transaction_ok [simp]: "need_transaction label j = Inr s \<longleftrightarrow> j = JStr s \<and> s \<noteq> []"
  by (cases j) (auto simp: need_transaction_def)

lemma need_uuid_ok [simp]:
  "need_uuid label j = Inr s \<longleftrightarrow> j = JStr s \<and> scalar_string s \<and> s \<noteq> [] \<and> canonical_uuid s"
  by (auto simp: need_uuid_def)

lemma need_bool_ok [simp]: "need_bool label j = Inr b \<longleftrightarrow> j = JBool b"
  by (cases j) (auto simp: need_bool_def)

lemma need_int_from_ok [simp]: "need_int_from low label j = Inr n \<longleftrightarrow> j = JInt n \<and> low \<le> n"
  by (cases j) (auto simp: need_int_from_def)

lemma need_node_type_ok: "need_node_type label j = Inr t \<Longrightarrow> j = JStr (node_type_value t)"
  by (auto simp: need_node_type_def node_type_of_def split: option.splits if_splits)

lemma each_once_sound:
  assumes "each_once check clash dup seen xs = Inr ks"
  shows "list_all2 (\<lambda>x k. check x = Inr k) xs ks \<and> (\<forall>k \<in> set ks. \<forall>s \<in> set seen. \<not> clash k s)
    \<and> (\<forall>i < length ks. \<forall>j < i. \<not> clash (ks ! i) (ks ! j))"
  using assms
proof (induction xs arbitrary: seen ks)
  case (Cons x xs)
  then obtain k ls where k: "check x = Inr k" "\<not> list_ex (clash k) seen" "ks = k # ls"
    and ls: "each_once check clash dup (k # seen) xs = Inr ls" by (auto split: if_splits)
  note IH = Cons.IH [OF ls]
  have "\<not> clash ((k # ls) ! i) ((k # ls) ! j)" if "i < length (k # ls)" "j < i" for i j
    using IH that by (cases i; cases j) auto
  then show ?case using IH k by (auto simp: list_ex_iff)
qed simp

lemma each_once_distinct:
  assumes "each_once check (=) dup [] xs = Inr ks"
  shows "list_all2 (\<lambda>x k. check x = Inr k) xs ks \<and> distinct ks"
proof -
  have "ks ! i \<noteq> ks ! j" if "i < length ks" "j < length ks" "i \<noteq> j" for i j
    using each_once_sound [OF assms] that by (cases i j rule: linorder_cases) fastforce+
  then show ?thesis using each_once_sound [OF assms] by (simp add: distinct_conv_nth)
qed

lemma each_once_inj:
  assumes ok: "each_once check (=) dup [] xs = Inr ks"
    and key: "\<And>x k. x \<in> set xs \<Longrightarrow> check x = Inr k \<Longrightarrow> f x = g k"
    and inj: "inj g"
  shows "distinct (map f xs)" and "map f xs = map g ks" and "\<And>x. x \<in> set xs \<Longrightarrow> \<exists>k \<in> set ks. check x = Inr k"
proof -
  have a: "list_all2 (\<lambda>x k. check x = Inr k) xs ks" "distinct ks" using each_once_distinct [OF ok] by auto
  show m: "map f xs = map g ks"
    using a(1) key by (auto simp: list_all2_conv_all_nth intro!: nth_equalityI)
  show "distinct (map f xs)" unfolding m using a(2) inj by (simp add: distinct_map inj_on_def inj_def)
  show "\<exists>k \<in> set ks. check x = Inr k" if "x \<in> set xs" for x
    using a(1) that by (fastforce simp: list_all2_conv_all_nth in_set_conv_nth)
qed

lemma check_outbox_item_sound:
  assumes "check_outbox_item env tb prev d = Inr (eid, seq, tenant)"
  shows "fld d ''event_id'' = JStr eid \<and> fld d ''stream_seq'' = JInt seq \<and> prev < seq \<and> 1 \<le> seq
    \<and> fld d ''tenant_id'' = tb"
  using assms unfolding check_outbox_item_def by (auto split: if_splits)

lemma check_outbox_sound:
  assumes "check_outbox env tb seen seqs prev ds = Inr (seen', seqs', prev')"
  shows "\<exists>ids ns. map (\<lambda>d. fld d ''event_id'') ds = map JStr ids \<and> distinct ids \<and> set ids \<inter> seen = {}
    \<and> map (\<lambda>d. fld d ''stream_seq'') ds = map JInt ns \<and> sorted_wrt (<) ns \<and> (\<forall>n \<in> set ns. prev < n)
    \<and> seqs' = seqs \<union> set ns \<and> (\<forall>d \<in> set ds. fld d ''tenant_id'' = tb)"
  using assms
proof (induction ds arbitrary: seen seqs prev)
  case (Cons d ds)
  then obtain eid seq tenant where d: "check_outbox_item env tb prev d = Inr (eid, seq, tenant)"
    and new: "eid \<notin> seen" "seq \<notin> seqs"
    and rest: "check_outbox env tb (insert eid seen) (insert seq seqs) seq ds = Inr (seen', seqs', prev')"
    by (auto split: if_splits)
  obtain ids ns where *: "map (\<lambda>d. fld d ''event_id'') ds = map JStr ids" "distinct ids"
    "set ids \<inter> insert eid seen = {}" "map (\<lambda>d. fld d ''stream_seq'') ds = map JInt ns" "sorted_wrt (<) ns"
    "\<forall>n \<in> set ns. seq < n" "seqs' = insert seq seqs \<union> set ns" "\<forall>d \<in> set ds. fld d ''tenant_id'' = tb"
    using Cons.IH [OF rest] by blast
  show ?case
    by (rule exI [of _ "eid # ids"], rule exI [of _ "seq # ns"])
      (use * new check_outbox_item_sound [OF d] in \<open>auto intro: order.strict_trans\<close>)
qed simp

lemma check_delivery_sound:
  assumes "check_delivery env seqs targets d = Inr (t, n)"
  shows "fld d ''target_id'' = JStr t \<and> t \<in> set targets \<and> fld d ''stream_seq'' = JInt n \<and> n \<in> seqs
    \<and> (fld d ''state'' = JStr (cp ''leased'') \<longleftrightarrow> fld d ''lease_owner'' \<noteq> JNull)
    \<and> (fld d ''lease_owner'' \<noteq> JNull \<longleftrightarrow> fld d ''lease_until'' \<noteq> JNull)"
  using assms unfolding check_delivery_def by (auto split: if_splits)

lemma check_target_sound: "check_target m d = Inr t \<Longrightarrow> fld d ''target_id'' = JStr t"
  by (auto simp: check_target_def split: if_splits)

lemma check_cursor_sound:
  "check_cursor_row env low m d = Inr k \<Longrightarrow> \<exists>n. fld d ''after_seq'' = JInt n \<and> low \<le> n \<and> n < m"
  by (auto simp: check_cursor_row_def split: if_splits)

lemma check_snapshot_sound:
  "check_snapshot env low m d = Inr k \<Longrightarrow>
     fld d ''snapshot_id'' = JStr (fst k) \<and> (\<exists>n. fld d ''resume_seq'' = JInt n \<and> low \<le> n \<and> n < m)"
  by (auto simp: check_snapshot_def split: if_splits)

lemma check_item_sound:
  "check_snapshot_item env tb snaps d = Inr k \<Longrightarrow> \<exists>s \<in> set snaps. fld d ''snapshot_id'' = JStr s"
  by (auto simp: check_snapshot_item_def split: if_splits)

lemma list_all2_in1: "list_all2 P xs ys \<Longrightarrow> x \<in> set xs \<Longrightarrow> \<exists>y \<in> set ys. P x y"
  by (induction rule: list_all2_induct) auto

lemma list_all2_map_same: "list_all2 P xs ys \<Longrightarrow> (\<And>x y. P x y \<Longrightarrow> f x = g y) \<Longrightarrow> map f xs = map g ys"
  by (induction rule: list_all2_induct) auto

lemma jstr_pair_inj: "inj (\<lambda>(a, b). (JStr a, JInt b))"
  by (auto simp: inj_def)

lemma stream_numbers:
  assumes "sorted_wrt (<) ns" "set ns = {low + 1..<m :: int}"
  shows "ns = [low + 1..m - 1]"
proof (rule sorted_distinct_set_unique)
  show "sorted ns" "distinct ns" using assms(1) by (simp_all add: strict_sorted_iff)
  show "set ns = set [low + 1..m - 1]" unfolding assms(2) by auto
qed simp_all

lemma snapshot_ids_distinct:
  assumes "check_snapshots env low m ds = Inr ks"
  shows "map (\<lambda>d. fld d ''snapshot_id'') ds = map JStr (map fst ks)" "distinct (map fst ks)"
proof -
  note sound = each_once_sound [OF assms [unfolded check_snapshots_def]]
  show "map (\<lambda>d. fld d ''snapshot_id'') ds = map JStr (map fst ks)"
    using list_all2_map_same [OF conjunct1 [OF sound], of "\<lambda>d. fld d ''snapshot_id''" "JStr \<circ> fst"]
    by (simp add: check_snapshot_sound)
  have below: "fst (ks ! i) \<noteq> fst (ks ! j)" if "i < length ks" "j < i" for i j
    using conjunct2 [OF conjunct2 [OF sound], rule_format, OF that] by (simp add: split_beta)
  then show "distinct (map fst ks)" by (auto simp: distinct_conv_nth) (metis nat_neq_iff)
qed

lemma jstr_inj: "inj JStr"
  by (simp add: inj_def)

lemma map_in_image: "map f xs = map g ks \<Longrightarrow> k \<in> set ks \<Longrightarrow> g k \<in> f ` set xs"
  by (metis image_eqI list.set_map)

lemma outbox_consistent:
  assumes "check_outbox env tenant {} {} 0 ds = Inr (seen, seqs, prev)" "seqs = {low + 1..<m}"
  shows "map (\<lambda>d. fld d ''stream_seq'') ds = map JInt [low + 1..m - 1]"
    and "distinct (map (\<lambda>d. fld d ''event_id'') ds)"
    and "\<forall>d \<in> set ds. fld d ''tenant_id'' = tenant"
    and "\<And>n. n \<in> seqs \<Longrightarrow> JInt n \<in> (\<lambda>d. fld d ''stream_seq'') ` set ds"
proof -
  obtain ids ns where ids: "map (\<lambda>d. fld d ''event_id'') ds = map JStr ids" "distinct ids"
    and ns: "map (\<lambda>d. fld d ''stream_seq'') ds = map JInt ns" "sorted_wrt (<) ns" "seqs = set ns"
    and tenants: "\<forall>d \<in> set ds. fld d ''tenant_id'' = tenant"
    using check_outbox_sound [OF assms(1)] by auto
  have numbers: "ns = [low + 1..m - 1]" using stream_numbers [OF ns(2)] ns(3) assms(2) by blast
  show "map (\<lambda>d. fld d ''stream_seq'') ds = map JInt [low + 1..m - 1]" using ns(1) numbers by simp
  show "distinct (map (\<lambda>d. fld d ''event_id'') ds)"
    unfolding ids(1) using ids(2) jstr_inj by (simp add: distinct_map inj_on_def)
  show "\<forall>d \<in> set ds. fld d ''tenant_id'' = tenant" by (rule tenants)
  show "JInt n \<in> (\<lambda>d. fld d ''stream_seq'') ` set ds" if "n \<in> seqs" for n
    using map_in_image [OF ns(1)] that ns(3) by blast
qed

lemma targets_consistent:
  assumes "check_targets m ds = Inr targets"
  shows "map (\<lambda>d. fld d ''target_id'') ds = map JStr targets" "distinct (map (\<lambda>d. fld d ''target_id'') ds)"
proof -
  note t = each_once_inj [OF assms [unfolded check_targets_def], of "\<lambda>d. fld d ''target_id''" JStr]
  show "map (\<lambda>d. fld d ''target_id'') ds = map JStr targets" "distinct (map (\<lambda>d. fld d ''target_id'') ds)"
    by (intro t; simp add: check_target_sound jstr_inj)+
qed

definition delivery_ok :: "sync_doc \<Rightarrow> (ustring, json) dict \<Rightarrow> bool" where
  "delivery_ok doc d =
     (fld d ''target_id'' \<in> (\<lambda>d. fld d ''target_id'') ` set (sd_targets doc)
      \<and> fld d ''stream_seq'' \<in> (\<lambda>d. fld d ''stream_seq'') ` set (sd_outbox doc)
      \<and> (fld d ''state'' = JStr (cp ''leased'') \<longleftrightarrow> fld d ''lease_owner'' \<noteq> JNull)
      \<and> (fld d ''lease_owner'' \<noteq> JNull \<longleftrightarrow> fld d ''lease_until'' \<noteq> JNull))"

lemma deliveries_consistent:
  assumes ok: "check_deliveries env seqs targets (sd_deliveries doc) = Inr keys"
    and targets: "map (\<lambda>d. fld d ''target_id'') (sd_targets doc) = map JStr targets"
    and seqs: "\<And>n. n \<in> seqs \<Longrightarrow> JInt n \<in> (\<lambda>d. fld d ''stream_seq'') ` set (sd_outbox doc)"
  shows "distinct (map (\<lambda>d. (fld d ''target_id'', fld d ''stream_seq'')) (sd_deliveries doc))"
    and "\<forall>d \<in> set (sd_deliveries doc). delivery_ok doc d"
proof -
  note d = each_once_inj [OF ok [unfolded check_deliveries_def],
    of "\<lambda>d. (fld d ''target_id'', fld d ''stream_seq'')" "\<lambda>(a, b). (JStr a, JInt b)"]
  show "distinct (map (\<lambda>d. (fld d ''target_id'', fld d ''stream_seq'')) (sd_deliveries doc))"
    by (intro d(1) jstr_pair_inj) (auto dest!: check_delivery_sound)
  show "\<forall>d \<in> set (sd_deliveries doc). delivery_ok doc d"
  proof
    fix x assume x: "x \<in> set (sd_deliveries doc)"
    from list_all2_in1 [OF conjunct1 [OF each_once_distinct [OF ok [unfolded check_deliveries_def]]] x]
    obtain k n where "check_delivery env seqs targets x = Inr (k, n)" by auto
    from check_delivery_sound [OF this] map_in_image [OF targets] seqs
    show "delivery_ok doc x" unfolding delivery_ok_def by auto
  qed
qed

definition in_stream :: "int \<Rightarrow> int \<Rightarrow> json \<Rightarrow> bool" where
  "in_stream low m j = (\<exists>n. j = JInt n \<and> low \<le> n \<and> n < m)"

lemma snapshots_consistent:
  assumes ok: "check_snapshots env low m ss = Inr snaps"
    and items: "check_snapshot_items env tenant (map fst snaps) si = Inr keys"
  shows "distinct (map (\<lambda>d. fld d ''snapshot_id'') ss)"
    and "\<forall>d \<in> set ss. in_stream low m (fld d ''resume_seq'')"
    and "\<forall>d \<in> set si. fld d ''snapshot_id'' \<in> (\<lambda>d. fld d ''snapshot_id'') ` set ss"
proof -
  note ids = snapshot_ids_distinct [OF ok]
  show "distinct (map (\<lambda>d. fld d ''snapshot_id'') ss)"
    unfolding ids(1) using ids(2) jstr_inj by (simp add: distinct_map inj_on_def)
  show "\<forall>d \<in> set ss. in_stream low m (fld d ''resume_seq'')"
    using list_all2_in1 [OF conjunct1 [OF each_once_sound [OF ok [unfolded check_snapshots_def]]]]
      check_snapshot_sound unfolding in_stream_def by blast
  show "\<forall>d \<in> set si. fld d ''snapshot_id'' \<in> (\<lambda>d. fld d ''snapshot_id'') ` set ss"
    using list_all2_in1 [OF conjunct1 [OF each_once_distinct [OF items [unfolded check_snapshot_items_def]]]]
      check_item_sound map_in_image [OF ids(1)] by metis
qed

lemma cursors_consistent:
  assumes "check_cursors env low m ds = Inr keys"
  shows "\<forall>d \<in> set ds. in_stream low m (fld d ''after_seq'')"
  using list_all2_in1 [OF conjunct1 [OF each_once_distinct [OF assms [unfolded check_cursors_def]]]]
    check_cursor_sound unfolding in_stream_def by blast

lemma validated_parts:
  assumes "validate_sync_state env label (JObj p) = Inr ()"
  obtains m low doc where "fld p ''next_stream_seq'' = JInt m" "1 \<le> m" "fld p ''retention_floor'' = JInt low"
    "0 \<le> low" "fld p ''compacted_through'' = JInt low" "read_sync_doc p = Inr doc"
    "check_sync_doc env (fld p ''tenant_binding'') m low doc = Inr ()"
  using assms by (auto simp: validate_sync_state_def split: if_splits)

text \<open>
  C39: what loading a sync state guarantees.  A state document the validator accepts holds
  the events numbered without a gap from the retention floor to the next number, each under
  its own id and of the bound tenant; its deliveries are for known targets and stored
  events, one each, with an owner and a deadline exactly while leased; its cursors and
  snapshots stand in the retained stream, and snapshot items belong to a snapshot.
\<close>

theorem stored_state_is_consistent:
  assumes ok: "validate_sync_state env label (JObj p) = Inr ()"
  shows "\<exists>m low doc. fld p ''next_stream_seq'' = JInt m \<and> fld p ''retention_floor'' = JInt low
    \<and> fld p ''compacted_through'' = JInt low \<and> 0 \<le> low \<and> 1 \<le> m \<and> read_sync_doc p = Inr doc
    \<and> map (\<lambda>d. fld d ''stream_seq'') (sd_outbox doc) = map JInt [low + 1..m - 1]
    \<and> distinct (map (\<lambda>d. fld d ''event_id'') (sd_outbox doc))
    \<and> (\<forall>d \<in> set (sd_outbox doc). fld d ''tenant_id'' = fld p ''tenant_binding'')
    \<and> distinct (map (\<lambda>d. fld d ''target_id'') (sd_targets doc))
    \<and> distinct (map (\<lambda>d. (fld d ''target_id'', fld d ''stream_seq'')) (sd_deliveries doc))
    \<and> (\<forall>d \<in> set (sd_deliveries doc). delivery_ok doc d)
    \<and> (\<forall>d \<in> set (sd_cursors doc). in_stream low m (fld d ''after_seq''))
    \<and> distinct (map (\<lambda>d. fld d ''snapshot_id'') (sd_snapshots doc))
    \<and> (\<forall>d \<in> set (sd_snapshots doc). in_stream low m (fld d ''resume_seq''))
    \<and> (\<forall>d \<in> set (sd_items doc).
         fld d ''snapshot_id'' \<in> (\<lambda>d. fld d ''snapshot_id'') ` set (sd_snapshots doc))"
proof -
  obtain m low doc where head: "fld p ''next_stream_seq'' = JInt m" "1 \<le> m" "fld p ''retention_floor'' = JInt low"
      "0 \<le> low" "fld p ''compacted_through'' = JInt low" "read_sync_doc p = Inr doc"
    and doc: "check_sync_doc env (fld p ''tenant_binding'') m low doc = Inr ()"
    using validated_parts [OF ok] by blast
  obtain seen seqs prev targets snaps dkeys ckeys ikeys where
    outbox: "check_outbox env (fld p ''tenant_binding'') {} {} 0 (sd_outbox doc) = Inr (seen, seqs, prev)"
      "seqs = {low + 1..<m}"
    and targets: "check_targets m (sd_targets doc) = Inr targets"
    and deliveries: "check_deliveries env seqs targets (sd_deliveries doc) = Inr dkeys"
    and cursors: "check_cursors env low m (sd_cursors doc) = Inr ckeys"
    and snaps: "check_snapshots env low m (sd_snapshots doc) = Inr snaps"
    and items: "check_snapshot_items env (fld p ''tenant_binding'') (map fst snaps) (sd_items doc) = Inr ikeys"
    using doc unfolding check_sync_doc_def by (fastforce split: if_splits prod.splits)
  note o = outbox_consistent [OF outbox] and t = targets_consistent [OF targets]
  note d = deliveries_consistent [OF deliveries t(1) o(4)]
  show ?thesis
    using head o(1-3) t(2) d cursors_consistent [OF cursors] snapshots_consistent [OF snaps items] by blast
qed

subsection \<open>The empty state, and a state no capture can leave\<close>

lemma fld_to_obj_head [simp]:
  "fld ((cp a, v) # d) b = (if a = b then v else fld d b)"
  by (simp add: fld_def cp_inj)

lemmas sync_keys_simps = OUTBOX_KEYS_def ENTITY_VERSION_KEYS_def TARGET_KEYS_def DELIVERY_KEYS_def
  INBOX_KEYS_def BATCH_KEYS_def CURSOR_KEYS_def SNAPSHOT_KEYS_def SNAPSHOT_ITEM_KEYS_def

lemmas check_collection_defs = check_entity_versions_def check_targets_def check_deliveries_def
  check_inbox_def check_batches_def check_cursors_def check_inbound_cursors_def check_snapshots_def
  check_snapshot_items_def

lemma dict_get_cp [simp]: "dict_get ((cp a, v) # d) (cp b) = (if a = b then Some v else dict_get d (cp b))"
  by (simp add: cp_inj)

definition bare_state :: "int \<Rightarrow> int \<Rightarrow> (ustring, json) dict" where
  "bare_state m low =
     [(cp ''tenant_binding'', JNull), (cp ''next_stream_seq'', JInt m), (cp ''retention_floor'', JInt low),
      (cp ''compacted_through'', JInt low), (cp ''outbox'', JList []), (cp ''entity_versions'', JList []),
      (cp ''targets'', JList []), (cp ''deliveries'', JList []), (cp ''inbox'', JList []),
      (cp ''batches'', JList []), (cp ''cursors'', JList []), (cp ''inbound_cursors'', JList []),
      (cp ''snapshots'', JList []), (cp ''snapshot_items'', JList [])]"

lemma empty_sync_state_bare: "empty_sync_state = JObj (bare_state 1 0)"
  by (simp add: empty_sync_state_def bare_state_def to_obj_def eval_nat_numeral)

lemma bare_state_keys: "fst ` set (bare_state m low) = cp ` set SYNC_STATE_KEYS"
  by (simp add: bare_state_def SYNC_STATE_KEYS_def LEGACY_SYNC_KEYS_def) blast

lemma bare_state_doc: "read_sync_doc (bare_state m low) = Inr
    \<lparr>sd_outbox = [], sd_versions = [], sd_targets = [], sd_deliveries = [], sd_inbox = [],
     sd_batches = [], sd_cursors = [], sd_inbound = [], sd_snapshots = [], sd_items = []\<rparr>"
  by (simp add: read_sync_doc_def bare_state_def exact_items_def fld_def cp_inj)

lemma check_empty_doc:
  "m \<le> low + 1 \<Longrightarrow> check_sync_doc env tenant m low
    \<lparr>sd_outbox = [], sd_versions = [], sd_targets = [], sd_deliveries = [], sd_inbox = [],
     sd_batches = [], sd_cursors = [], sd_inbound = [], sd_snapshots = [], sd_items = []\<rparr> = Inr ()"
  by (simp add: check_sync_doc_def check_collection_defs)

text \<open>
  The head of the stream is only compared with the events that are there: a state whose
  retention floor lies beyond the next number is accepted, and after the next capture no
  state of it is: its event has a number below the floor, so the sequence has a gap.
\<close>

lemma bare_state_accepted:
  assumes "1 \<le> m" "0 \<le> low" "m \<le> low + 1"
  shows "validate_sync_state env label (JObj (bare_state m low)) = Inr ()"
proof -
  have "fld (bare_state m low) ''tenant_binding'' = JNull" "fld (bare_state m low) ''next_stream_seq'' = JInt m"
    "fld (bare_state m low) ''retention_floor'' = JInt low" "fld (bare_state m low) ''compacted_through'' = JInt low"
    by (simp_all add: bare_state_def fld_def cp_inj)
  then show ?thesis
    using assms by (simp add: validate_sync_state_def bare_state_keys bare_state_doc check_empty_doc need_generation_def)
qed

lemma read_outbox: "read_sync_doc p = Inr doc \<Longrightarrow> exact_items OUTBOX_KEYS ''outbox'' (fld p ''outbox'') = Inr (sd_outbox doc)"
  by (auto simp: read_sync_doc_def)

lemma capture_below_the_floor_is_refused:
  assumes "m \<le> low" "fld p ''next_stream_seq'' = JInt (m + 1)" "fld p ''retention_floor'' = JInt low"
    "fld p ''outbox'' = JList [e]"
  shows "validate_sync_state env label (JObj p) \<noteq> Inr ()"
proof
  assume ok: "validate_sync_state env label (JObj p) = Inr ()"
  obtain doc where doc: "read_sync_doc p = Inr doc"
    and checked: "check_sync_doc env (fld p ''tenant_binding'') (m + 1) low doc = Inr ()"
    using validated_parts [OF ok] assms by (metis json.inject(2))
  obtain d where "[d] = sd_outbox doc"
    using read_outbox [OF doc] assms(4) by (auto simp: exact_items_def)
  then have d: "sd_outbox doc = [d]" by simp
  obtain seen seqs prev where "check_outbox env (fld p ''tenant_binding'') {} {} 0 [d] = Inr (seen, seqs, prev)"
    and "seqs = {low + 1..<m + 1}"
    using checked unfolding check_sync_doc_def d by (fastforce split: if_splits prod.splits)
  from outbox_consistent(1) [OF this] assms(1) show False by simp
qed

text \<open>A state with a target and a reader of the stream.\<close>

definition sample_times :: "wire_env \<Rightarrow> valid_env" where
  "sample_times env = \<lparr>ve_wire = env, ve_iso_read = (\<lambda>s. if s = cp ''2026-01-01T00:00:00+00:00'' then Some (0, Some 0) else None),
     ve_iso_write = (\<lambda>_. cp ''2026-01-01T00:00:00+00:00'')\<rparr>"

definition sample_state :: "(ustring, json) dict" where
  "sample_state = [(cp ''tenant_binding'', JNull), (cp ''next_stream_seq'', JInt 4), (cp ''retention_floor'', JInt 3),
     (cp ''compacted_through'', JInt 3), (cp ''outbox'', JList []), (cp ''entity_versions'', JList []),
     (cp ''targets'', JList [to_obj TARGET_KEYS [JStr (cp ''t''), JStr (cp ''n''), JInt 2, JBool True]]),
     (cp ''deliveries'', JList []), (cp ''inbox'', JList []), (cp ''batches'', JList []),
     (cp ''cursors'', JList [to_obj CURSOR_KEYS [JStr (cp ''r''), JStr (cp ''c''), JInt 3,
        JStr (cp ''2026-01-01T00:00:00+00:00'')]]),
     (cp ''inbound_cursors'', JList []), (cp ''snapshots'', JList []), (cp ''snapshot_items'', JList [])]"

lemma exact_item_to_obj:
  "length vs = length names \<Longrightarrow> exact_item names label (to_obj names vs) = Inr (zip (map cp names) vs)"
  by (simp add: exact_item_def exact_keys_def to_obj_def flip: set_map)

lemma sample_item: "exact_items names label (JList [to_obj names vs]) = Inr [zip (map cp names) vs]"
  if "length vs = length names"
  using that by (simp add: exact_items_def exact_item_to_obj)

abbreviation (input) sample_time_text :: ustring where
  "sample_time_text \<equiv> cp ''2026-01-01T00:00:00+00:00''"

abbreviation (input) sample_doc :: sync_doc where
  "sample_doc \<equiv> \<lparr>sd_outbox = [], sd_versions = [],
     sd_targets = [zip (map cp TARGET_KEYS) [JStr (cp ''t''), JStr (cp ''n''), JInt 2, JBool True]],
     sd_deliveries = [], sd_inbox = [], sd_batches = [],
     sd_cursors = [zip (map cp CURSOR_KEYS) [JStr (cp ''r''), JStr (cp ''c''), JInt 3, JStr sample_time_text]],
     sd_inbound = [], sd_snapshots = [], sd_items = []\<rparr>"

lemma sample_state_doc: "read_sync_doc sample_state = Inr sample_doc"
  by (simp add: read_sync_doc_def sample_state_def fld_def cp_inj sample_item TARGET_KEYS_def CURSOR_KEYS_def)
    (simp add: exact_items_def)

lemma cp_empty [simp]: "cp s = [] \<longleftrightarrow> s = []"
  by (simp add: cp_def)

lemma sample_doc_checked: "check_sync_doc (sample_times env) JNull 4 3 sample_doc = Inr ()"
  by (simp add: check_sync_doc_def check_collection_defs check_target_def check_cursor_row_def TARGET_KEYS_def
      CURSOR_KEYS_def need_time_def sample_times_def need_str_def need_generation_def need_bool_def)
    (simp add: cp_def)

theorem stored_state_is_consistent_witness:
  "\<exists>m low doc. fld sample_state ''next_stream_seq'' = JInt m \<and> read_sync_doc sample_state = Inr doc
     \<and> length (sd_cursors doc) = 1 \<and> (\<forall>d \<in> set (sd_cursors doc). in_stream low m (fld d ''after_seq''))"
proof -
  fix env
  have keys: "fst ` set sample_state = cp ` set SYNC_STATE_KEYS"
    by (simp add: sample_state_def SYNC_STATE_KEYS_def LEGACY_SYNC_KEYS_def) blast
  have flds: "fld sample_state ''tenant_binding'' = JNull" "fld sample_state ''next_stream_seq'' = JInt 4"
    "fld sample_state ''retention_floor'' = JInt 3" "fld sample_state ''compacted_through'' = JInt 3"
    by (simp_all add: sample_state_def fld_def cp_inj)
  have "validate_sync_state (sample_times env) [] (JObj sample_state) = Inr ()"
    by (simp add: validate_sync_state_def keys flds sample_state_doc sample_doc_checked need_generation_def)
  from stored_state_is_consistent [OF this] show ?thesis
    unfolding sample_state_doc by fastforce
qed

end
