(* ===== verification/Lite_Durability.thy ===== *)
theory Lite_Durability
  imports Lite_Validation
begin

section \<open>The durable pair of the lite store\<close>

text \<open>
  \<open>src/memplex/storage/lite/durability.py\<close>, the commit protocol: two JSON files that are one
  logical record, a journal that decides, recovery, and the load that trusts neither file
  alone.  A file is absent, unreadable, or holds the document \<open>json.loads\<close> reads from it;
  writing a value stores the document read back from its canonical text.  \<open>os.replace\<close> is
  atomic and is on disk after the \<open>fsync\<close> of the directory, so a crash leaves the effect of
  a prefix of the disk operations.  SHA-256, the semantic validator of the store, and the
  candidate of the SQLite authority are parameters.
\<close>

subsection \<open>Canonical text and digests\<close>

text \<open>
  \<open>json.dumps\<close> with sorted keys: floats have to be finite, and a lone surrogate cannot be
  encoded.
\<close>

fun dumpable :: "json \<Rightarrow> bool" where
  "dumpable (JFloat f) = float_finite f"
| "dumpable (JStr s) = (\<not> list_ex surrogate s)"
| "dumpable (JList xs) = list_all dumpable xs"
| "dumpable (JObj kvs) = list_all (\<lambda>(k, v). \<not> list_ex surrogate k \<and> dumpable v) kvs"
| "dumpable _ = True"

fun dumps_text :: "json \<Rightarrow> ustring" where
  "dumps_text JNull = cp ''null''"
| "dumps_text (JBool b) = (if b then cp ''true'' else cp ''false'')"
| "dumps_text (JInt n) = cp (show_int n)"
| "dumps_text (JFloat f) = cp (float_repr f)"
| "dumps_text (JStr s) = json_string s"
| "dumps_text (JList xs) = [91] @ py_join [44] (map dumps_text xs) @ [93]"
| "dumps_text (JObj kvs) =
     [123] @ py_join [44] (map snd (sort_key fst
       (map (\<lambda>(k, v). (k, json_string k @ [58] @ dumps_text v)) kvs))) @ [125]"

definition canonical_json :: "json \<Rightarrow> bytes result" where
  "canonical_json v = (if dumpable v then Inr (utf8 (dumps_text v))
     else Inl (ValueErr ''value is not JSON compliant''))"

record lite_pair =
  lp_memory :: json
  lp_changelog :: json
  lp_generation :: int
  lp_transaction :: ustring

record durable_env =
  du_valid :: valid_env
  du_sha :: "bytes \<Rightarrow> ustring"
  du_semantic :: "lite_pair \<Rightarrow> unit result"
  du_candidate :: "(json \<times> json \<times> int) option result"

definition digest :: "durable_env \<Rightarrow> json \<Rightarrow> ustring result" where
  "digest env v = bindR (canonical_json v) (\<lambda>b. Inr (du_sha env b))"

definition PAIR_FIELDS :: "string list" where
  "PAIR_FIELDS = [''generation'', ''transaction_id'', ''memory_digest'', ''changelog_digest'']"

definition RECORD_FIELDS :: "string list" where
  "RECORD_FIELDS = [''generation'', ''transaction_id'', ''memory_digest'', ''changelog_digest'', ''cross_digest'']"

definition record_with :: "durable_env \<Rightarrow> lite_pair \<Rightarrow> ustring \<Rightarrow> ustring \<Rightarrow> json result" where
  "record_with env p md cd =
     bindR (digest env (to_obj PAIR_FIELDS [JInt (lp_generation p), JStr (lp_transaction p), JStr md, JStr cd])) (\<lambda>x.
       Inr (to_obj RECORD_FIELDS [JInt (lp_generation p), JStr (lp_transaction p), JStr md, JStr cd, JStr x]))"

definition pair_record :: "durable_env \<Rightarrow> lite_pair \<Rightarrow> json result" where
  "pair_record env p =
     bindR (digest env (lp_memory p)) (\<lambda>md.
     bindR (digest env (lp_changelog p)) (\<lambda>cd. record_with env p md cd))"

definition ENVELOPE_FIELDS :: "string list" where
  "ENVELOPE_FIELDS = [''format_version'', ''generation'', ''transaction_id'', ''payload'', ''peer_digest'']"

definition envelope :: "lite_pair \<Rightarrow> json \<Rightarrow> ustring \<Rightarrow> json" where
  "envelope p payload peer = to_obj ENVELOPE_FIELDS
     [JInt 2, JInt (lp_generation p), JStr (lp_transaction p), payload, JStr peer]"

definition legacy_pair :: "lite_pair \<Rightarrow> bool" where
  "legacy_pair p = (lp_transaction p = cp ''legacy'')"

definition envelopes_with :: "durable_env \<Rightarrow> lite_pair \<Rightarrow> ustring \<Rightarrow> ustring \<Rightarrow> (json \<times> json) result" where
  "envelopes_with env p md cd =
     bindR (validate_memory_payload (du_valid env) (legacy_pair p) (lp_memory p)) (\<lambda>_.
       Inr (envelope p (lp_memory p) cd, envelope p (lp_changelog p) md))"

definition envelopes :: "durable_env \<Rightarrow> lite_pair \<Rightarrow> (json \<times> json) result" where
  "envelopes env p =
     bindR (validate_memory_payload (du_valid env) (legacy_pair p) (lp_memory p)) (\<lambda>_.
     bindR (digest env (lp_memory p)) (\<lambda>md.
     bindR (digest env (lp_changelog p)) (\<lambda>cd. envelopes_with env p md cd)))"

subsection \<open>Checks\<close>

definition need_digest :: "string \<Rightarrow> json \<Rightarrow> json result" where
  "need_digest label j = (if hex64 j then Inr j else bad (label @ '' digest''))"

definition validated_pair_record :: "string \<Rightarrow> json \<Rightarrow> json result" where
  "validated_pair_record label j =
     (case j of
        JObj d \<Rightarrow>
          if fst ` set d \<noteq> cp ` set RECORD_FIELDS then bad (label @ '' record schema'') else
          bindR (need_generation label (fld d ''generation'')) (\<lambda>g.
          bindR (need_transaction label (fld d ''transaction_id'')) (\<lambda>t.
          bindR (need_digest label (fld d ''memory_digest'')) (\<lambda>md.
          bindR (need_digest label (fld d ''changelog_digest'')) (\<lambda>cd.
          bindR (need_digest label (fld d ''cross_digest'')) (\<lambda>x.
            Inr (to_obj RECORD_FIELDS [JInt g, JStr t, md, cd, x]))))))
      | _ \<Rightarrow> bad (label @ '' record schema''))"

definition is_dict :: "json \<Rightarrow> bool" where
  "is_dict j = (case j of JObj _ \<Rightarrow> True | _ \<Rightarrow> False)"

definition validate_transition :: "lite_pair \<Rightarrow> lite_pair \<Rightarrow> unit result" where
  "validate_transition b t =
     (if \<not> is_dict (lp_memory b) \<or> \<not> is_list (lp_changelog b) then bad ''base pair''
      else if \<not> is_dict (lp_memory t) \<or> \<not> is_list (lp_changelog t) then bad ''target pair'' else
      bindR (need_generation ''base'' (JInt (lp_generation b))) (\<lambda>bg.
      bindR (need_generation ''target'' (JInt (lp_generation t))) (\<lambda>tg.
      bindR (need_transaction ''base'' (JStr (lp_transaction b))) (\<lambda>bt.
      bindR (need_transaction ''target'' (JStr (lp_transaction t))) (\<lambda>tt.
        if tg \<noteq> bg + 1 \<or> tt = bt then bad ''journal generation/transaction transition'' else Inr ())))))"

definition need_format :: "string \<Rightarrow> json \<Rightarrow> unit result" where
  "need_format label j = (if j = JInt 2 then Inr ()
     else Inl (RuntimeErr (''unsupported or invalid Lite '' @ label @ '' format_version'')))"

text \<open>
  \<open>LiteStorageIntegrityError\<close> passes, any other exception is reported as one; \<open>all_as\<close>
  reports both under the one message.
\<close>

definition others_as :: "string \<Rightarrow> 'a result \<Rightarrow> 'a result" where
  "others_as label r = (case r of Inl (RuntimeErr s) \<Rightarrow> r | Inl _ \<Rightarrow> bad label | Inr _ \<Rightarrow> r)"

definition validate_semantics :: "durable_env \<Rightarrow> lite_pair \<Rightarrow> unit result" where
  "validate_semantics env p = others_as ''authoritative payload'' (du_semantic env p)"

subsection \<open>Files\<close>

datatype pair_file = Absent | Garbled | Holds json

record pair_disk =
  pd_memory :: pair_file
  pd_changelog :: pair_file
  pd_journal :: pair_file

definition read_file :: "pair_file \<Rightarrow> json result" where
  "read_file f = (case f of Holds v \<Rightarrow> Inr v | _ \<Rightarrow> bad ''persistence file'')"

text \<open>One disk operation is a replace with its directory sync, or the unlink with its sync.\<close>

datatype disk_op = Put_journal json | Put_memory json | Put_changelog json | Drop_journal

fun disk_do :: "disk_op \<Rightarrow> pair_disk \<Rightarrow> pair_disk" where
  "disk_do (Put_journal v) d = d\<lparr>pd_journal := Holds v\<rparr>"
| "disk_do (Put_memory v) d = d\<lparr>pd_memory := Holds v\<rparr>"
| "disk_do (Put_changelog v) d = d\<lparr>pd_changelog := Holds v\<rparr>"
| "disk_do Drop_journal d = d\<lparr>pd_journal := Absent\<rparr>"

definition disk_run :: "disk_op list \<Rightarrow> pair_disk \<Rightarrow> pair_disk" where
  "disk_run ops d = fold disk_do ops d"

subsection \<open>Decoding, recovery, load\<close>

definition is_envelope :: "json \<Rightarrow> bool" where
  "is_envelope j = (case j of JObj d \<Rightarrow> dict_get d (cp ''format_version'') \<noteq> None | _ \<Rightarrow> False)"

definition decode_envelopes :: "durable_env \<Rightarrow> json \<Rightarrow> json \<Rightarrow> lite_pair result" where
  "decode_envelopes env m c =
     bindR (exact_keys ENVELOPE_FIELDS ''memory envelope'' m) (\<lambda>dm.
     bindR (exact_keys ENVELOPE_FIELDS ''changelog envelope'' c) (\<lambda>dc.
     bindR (need_format ''memory envelope'' (fld dm ''format_version'')) (\<lambda>_.
     bindR (need_format ''changelog envelope'' (fld dc ''format_version'')) (\<lambda>_.
     bindR (need_generation ''memory envelope'' (fld dm ''generation'')) (\<lambda>mg.
     bindR (need_generation ''changelog envelope'' (fld dc ''generation'')) (\<lambda>cg.
     bindR (need_transaction ''memory envelope'' (fld dm ''transaction_id'')) (\<lambda>mt.
     bindR (need_transaction ''changelog envelope'' (fld dc ''transaction_id'')) (\<lambda>ct.
       if mg \<noteq> cg \<or> mt \<noteq> ct then Inl (RuntimeErr ''Lite pair generation mismatch without journal'') else
     bindR (digest env (fld dc ''payload'')) (\<lambda>cd.
       if fld dm ''peer_digest'' \<noteq> JStr cd then Inl (RuntimeErr ''Lite pair cross-digest mismatch without journal'') else
     bindR (digest env (fld dm ''payload'')) (\<lambda>md.
       if fld dc ''peer_digest'' \<noteq> JStr md then Inl (RuntimeErr ''Lite pair cross-digest mismatch without journal'')
       else if \<not> is_list (fld dc ''payload'') then Inl (TypeErr ''payload'') else
     bindR (validate_memory_payload (du_valid env) False (fld dm ''payload'')) (\<lambda>_.
       Inr \<lparr>lp_memory = fld dm ''payload'', lp_changelog = fld dc ''payload'', lp_generation = mg,
            lp_transaction = mt\<rparr>)))))))))))"

definition decode_pair :: "durable_env \<Rightarrow> json \<Rightarrow> json \<Rightarrow> lite_pair result" where
  "decode_pair env m c =
     (if \<not> is_envelope m \<and> \<not> is_envelope c then
        (if \<not> is_list c then Inl (RuntimeErr ''legacy Lite pair has invalid shape'') else
         bindR (validate_memory_payload (du_valid env) True m) (\<lambda>_.
           Inr \<lparr>lp_memory = m, lp_changelog = c, lp_generation = 0, lp_transaction = cp ''legacy''\<rparr>))
      else if \<not> is_envelope m \<or> \<not> is_envelope c then
        Inl (RuntimeErr ''Lite pair generation mismatch without journal'')
      else others_as ''pair envelope'' (decode_envelopes env m c))"

definition JOURNAL_FIELDS :: "string list" where
  "JOURNAL_FIELDS =
     [''format_version'', ''base_record'', ''base_memory'', ''base_changelog'', ''target'', ''target_record'']"

definition TARGET_FIELDS :: "string list" where
  "TARGET_FIELDS = [''memory'', ''changelog'', ''generation'', ''transaction_id'']"

definition same_text :: "json \<Rightarrow> json \<Rightarrow> bool result" where
  "same_text v w = bindR (canonical_json v) (\<lambda>a. bindR (canonical_json w) (\<lambda>b. Inr (a = b)))"

text \<open>The journal's target, with its record checked, and the record of its base.\<close>

definition read_target :: "durable_env \<Rightarrow> json \<Rightarrow> ((ustring, json) dict \<times> lite_pair \<times> json) result" where
  "read_target env j =
     bindR (exact_keys JOURNAL_FIELDS ''durable journal'' j) (\<lambda>d.
     bindR (need_format ''journal'' (fld d ''format_version'')) (\<lambda>_.
     bindR (exact_keys TARGET_FIELDS ''journal target'' (fld d ''target'')) (\<lambda>t.
     bindR (need_generation ''journal target'' (fld t ''generation'')) (\<lambda>g.
     bindR (need_transaction ''journal target'' (fld t ''transaction_id'')) (\<lambda>tx.
     let p = \<lparr>lp_memory = fld t ''memory'', lp_changelog = fld t ''changelog'', lp_generation = g,
              lp_transaction = tx\<rparr> in
       if \<not> is_list (lp_changelog p) then Inl (TypeErr ''journal target payload'') else
     bindR (validate_memory_payload (du_valid env) False (lp_memory p)) (\<lambda>_.
     bindR (validated_pair_record ''journal target'' (fld d ''target_record'')) (\<lambda>expected.
     bindR (pair_record env p) (\<lambda>actual.
     bindR (same_text expected actual) (\<lambda>same.
       if \<not> same then Inl (ValueErr ''digest'') else
     bindR (validated_pair_record ''journal base'' (fld d ''base_record'')) (\<lambda>b.
       Inr (d, p, b)))))))))))"

text \<open>A side of the pair may only be overwritten when it holds the base or the target.\<close>

definition side_matches :: "bool \<Rightarrow> json \<Rightarrow> json \<Rightarrow> json \<Rightarrow> json \<Rightarrow> bool result" where
  "side_matches legacy document base_doc target_doc base_payload =
     bindR (same_text document base_doc) (\<lambda>s1. if s1 then Inr True else
     bindR (same_text document target_doc) (\<lambda>s2. if s2 then Inr True else
       if legacy then same_text document base_payload else Inr False))"

definition foreign :: "'a result" where
  "foreign = Inl (RuntimeErr ''stale or foreign Lite journal cannot overwrite pair'')"

definition check_side :: "bool \<Rightarrow> bool \<Rightarrow> pair_file \<Rightarrow> json \<Rightarrow> json \<Rightarrow> json \<Rightarrow> unit result" where
  "check_side initial_empty legacy f base_doc target_doc base_payload =
     (if f = Absent then (if initial_empty then Inr () else foreign)
      else bindR (read_file f) (\<lambda>document.
        bindR (side_matches legacy document base_doc target_doc base_payload) (\<lambda>ok.
          if ok then Inr () else foreign)))"

definition recover_plan :: "durable_env \<Rightarrow> pair_disk \<Rightarrow> disk_op list result" where
  "recover_plan env disk =
     (if pd_journal disk = Absent then Inr [] else
      bindR (read_file (pd_journal disk)) (\<lambda>j.
      bindR (or_bad ''durable journal'' (read_target env j)) (\<lambda>(d, p, brec).
      let b = \<lparr>lp_memory = fld d ''base_memory'', lp_changelog = fld d ''base_changelog'',
               lp_generation = (case obj_get brec ''generation'' of JInt g \<Rightarrow> g | _ \<Rightarrow> 0),
               lp_transaction = (case obj_get brec ''transaction_id'' of JStr t \<Rightarrow> t | _ \<Rightarrow> [])\<rparr> in
      bindR (pair_record env b) (\<lambda>actual.
      bindR (same_text actual brec) (\<lambda>same.
        if \<not> same then bad ''durable journal''
        else if \<not> is_list (lp_changelog b) then bad ''durable journal'' else
      bindR (validate_memory_payload (du_valid env) (legacy_pair b) (lp_memory b)) (\<lambda>_.
      bindR (or_bad ''durable journal'' (validate_transition b p)) (\<lambda>_.
      bindR (validate_semantics env b) (\<lambda>_.
      bindR (validate_semantics env p) (\<lambda>_.
      bindR (envelopes env b) (\<lambda>(bm, bc).
      bindR (envelopes env p) (\<lambda>(tm, tc).
      let initial_empty = (lp_transaction b = cp ''empty'' \<and> lp_generation b = 0) in
      bindR (check_side initial_empty (legacy_pair b) (pd_memory disk) bm tm (lp_memory b)) (\<lambda>_.
      bindR (check_side initial_empty (legacy_pair b) (pd_changelog disk) bc tc (lp_changelog b)) (\<lambda>_.
        Inr [Put_memory tm, Put_changelog tc, Drop_journal])))))))))))))"

definition empty_memory :: json where
  "empty_memory = JObj [(cp ''schema_version'', JInt 2), (cp ''functions'', JList []), (cp ''edges'', JList []),
     (cp ''observations'', JList []), (cp ''facts'', JList []), (cp ''preferences'', JList []),
     (cp ''sync'', empty_sync_state)]"

definition empty_pair :: lite_pair where
  "empty_pair = \<lparr>lp_memory = empty_memory, lp_changelog = JList [], lp_generation = 0,
     lp_transaction = cp ''empty''\<rparr>"

text \<open>The load of the two files, once no journal is left.\<close>

definition load_files :: "durable_env \<Rightarrow> pair_disk \<Rightarrow> lite_pair result" where
  "load_files env disk =
     (if pd_memory disk = Absent \<and> pd_changelog disk = Absent then Inr empty_pair
      else if pd_memory disk = Absent \<or> pd_changelog disk = Absent then
        Inl (RuntimeErr ''Lite memory/changelog pair is incomplete without journal'') else
      bindR (read_file (pd_memory disk)) (\<lambda>m.
      bindR (read_file (pd_changelog disk)) (\<lambda>c.
      bindR (decode_pair env m c) (\<lambda>p.
      bindR (validate_semantics env p) (\<lambda>_. Inr p)))))"

definition load_candidate :: "durable_env \<Rightarrow> json \<times> json \<times> int \<Rightarrow> lite_pair result" where
  "load_candidate env = (\<lambda>(m, c, g).
     bindR (decode_pair env m c) (\<lambda>p.
     let p' = (if lp_generation p \<noteq> g then p\<lparr>lp_generation := g, lp_transaction := cp ''sqlite-authority''\<rparr> else p) in
     bindR (validate_semantics env p') (\<lambda>_. Inr p')))"

definition load_authoritative :: "durable_env \<Rightarrow> pair_disk \<Rightarrow> lite_pair result \<times> pair_disk" where
  "load_authoritative env disk =
     (case du_candidate env of
        Inl e \<Rightarrow> (Inl e, disk)
      | Inr (Some cand) \<Rightarrow> (load_candidate env cand, disk)
      | Inr None \<Rightarrow>
          (case recover_plan env disk of
             Inl e \<Rightarrow> (Inl e, disk)
           | Inr ops \<Rightarrow> let disk' = disk_run ops disk in (load_files env disk', disk')))"

subsection \<open>Commit\<close>

text \<open>
  An instance is poisoned when the directory sync after the rename of the journal fails: it
  cannot tell whether the decision is on disk.
\<close>

record lite_writer =
  lw_poisoned :: bool
  lw_record :: "json option"

definition fresh_writer :: lite_writer where
  "fresh_writer = \<lparr>lw_poisoned = False, lw_record = None\<rparr>"

definition same_pair :: "lite_pair \<Rightarrow> lite_pair \<Rightarrow> bool" where
  "same_pair p q = (py_equal (lp_memory p) (lp_memory q) \<and> py_equal (lp_changelog p) (lp_changelog q)
     \<and> lp_generation p = lp_generation q \<and> lp_transaction p = lp_transaction q)"

definition reload_base :: "durable_env \<Rightarrow> lite_pair \<Rightarrow> bool \<Rightarrow> pair_disk \<Rightarrow> unit result \<times> pair_disk" where
  "reload_base env b verified disk =
     (if verified then (Inr (), disk)
      else case load_authoritative env disk of
        (Inl e, disk') \<Rightarrow> (Inl e, disk')
      | (Inr cur, disk') \<Rightarrow>
          (if same_pair cur b then Inr () else Inl (RuntimeErr ''Lite authoritative state changed before commit''), disk'))"

definition journal_of :: "lite_pair \<Rightarrow> json \<Rightarrow> lite_pair \<Rightarrow> json \<Rightarrow> json" where
  "journal_of b brec t trec = to_obj JOURNAL_FIELDS
     [JInt 2, brec, lp_memory b, lp_changelog b,
      to_obj TARGET_FIELDS [lp_memory t, lp_changelog t, JInt (lp_generation t), JStr (lp_transaction t)], trec]"

definition commit_plan ::
    "durable_env \<Rightarrow> lite_pair \<Rightarrow> lite_pair \<Rightarrow> bool \<Rightarrow> json option \<Rightarrow> bool \<Rightarrow> (disk_op list \<times> json) result" where
  "commit_plan env b t verified brec validated =
     bindR (validate_memory_payload (du_valid env) (legacy_pair b) (lp_memory b)) (\<lambda>_.
     bindR (validate_memory_payload (du_valid env) False (lp_memory t)) (\<lambda>_.
     bindR (validate_transition b t) (\<lambda>_.
     bindR (if validated then Inr () else validate_semantics env t) (\<lambda>_.
     bindR (digest env (lp_memory t)) (\<lambda>md.
     bindR (digest env (lp_changelog t)) (\<lambda>cd.
     bindR (envelopes_with env t md cd) (\<lambda>(m, c).
     bindR (record_with env t md cd) (\<lambda>trec.
     bindR (case brec of Some r \<Rightarrow> if verified then Inr r else pair_record env b | None \<Rightarrow> pair_record env b) (\<lambda>r.
     bindR (canonical_json (journal_of b r t trec)) (\<lambda>_.
       Inr ([Put_journal (journal_of b r t trec), Put_memory m, Put_changelog c, Drop_journal], trec)))))))))))"

text \<open>
  How the disk serves a commit: it completes, it stops after some operations (an \<open>OSError\<close>, a
  full disk, a crash), or the sync after the journal rename fails, with the rename on disk or
  lost.
\<close>

datatype commit_fate = Completes | Stops_after nat | Journal_sync_fails bool

definition fate_steps :: "commit_fate \<Rightarrow> nat" where
  "fate_steps f = (case f of Completes \<Rightarrow> 4 | Stops_after k \<Rightarrow> k | Journal_sync_fails kept \<Rightarrow> if kept then 1 else 0)"

definition commit_locked ::
    "durable_env \<Rightarrow> lite_pair \<Rightarrow> lite_pair \<Rightarrow> bool \<Rightarrow> json option \<Rightarrow> bool \<Rightarrow> commit_fate \<Rightarrow> lite_writer \<Rightarrow> pair_disk
      \<Rightarrow> lite_pair result \<times> lite_writer \<times> pair_disk" where
  "commit_locked env b t verified brec validated fate w disk =
     (case reload_base env b verified disk of
        (Inl e, disk') \<Rightarrow> (Inl e, w, disk')
      | (Inr _, disk') \<Rightarrow>
          (case commit_plan env b t verified brec validated of
             Inl e \<Rightarrow> (Inl e, w, disk')
           | Inr (ops, trec) \<Rightarrow>
               let disk'' = disk_run (take (fate_steps fate) ops) disk' in
               (case fate of
                  Completes \<Rightarrow> (Inr t, w\<lparr>lw_record := Some trec\<rparr>, disk'')
                | Stops_after _ \<Rightarrow> (Inl (OtherErr ''OSError''), w, disk'')
                | Journal_sync_fails _ \<Rightarrow> (Inl (OtherErr ''OSError''), w\<lparr>lw_poisoned := True\<rparr>, disk''))))"

definition poisoned :: "'a result" where
  "poisoned = Inl (RuntimeErr ''Lite instance is poisoned after ambiguous durable decision'')"

text \<open>\<open>writer_lock\<close>, entered by one thread of one process at a time.\<close>

definition with_writer_lock ::
    "(lite_writer \<Rightarrow> pair_disk \<Rightarrow> 'a result \<times> lite_writer \<times> pair_disk) \<Rightarrow> lite_writer \<Rightarrow> pair_disk
      \<Rightarrow> 'a result \<times> lite_writer \<times> pair_disk" where
  "with_writer_lock act w disk = (if lw_poisoned w then (poisoned, w, disk) else act w disk)"

subsection \<open>Equal texts\<close>

lemma dumps_text_perm:
  assumes "mset kvs = mset ls" "distinct (map fst kvs)"
  shows "dumps_text (JObj kvs) = dumps_text (JObj ls)"
proof -
  let ?F = "\<lambda>(k, v). (k, json_string k @ [58] @ dumps_text v)"
  have "inj_on fst (set (map ?F kvs))"
  proof (rule inj_onI)
    fix p q assume p: "p \<in> set (map ?F kvs)" and q: "q \<in> set (map ?F kvs)" and eq: "fst p = fst q"
    from p obtain k v where kv: "(k, v) \<in> set kvs" "p = ?F (k, v)" by auto
    from q obtain l w where lw: "(l, w) \<in> set kvs" "q = ?F (l, w)" by auto
    have "k = l" using eq kv lw by simp
    then have "v = w" using assms(2) kv(1) lw(1) by (metis eq_key_imp_eq_value)
    with \<open>k = l\<close> kv lw show "p = q" by simp
  qed
  moreover have "mset (map ?F kvs) = mset (map ?F ls)" using assms(1) by simp
  ultimately have "sort_key fst (map ?F kvs) = sort_key fst (map ?F ls)"
    by (intro sort_key_inj_key_eq) (simp_all del: map_map)
  then show ?thesis by simp
qed

lemma canonical_perm:
  assumes "mset kvs = mset ls" "distinct (map fst kvs)"
  shows "canonical_json (JObj kvs) = canonical_json (JObj ls)"
proof -
  have "set kvs = set ls" using assms(1) by (metis set_mset_mset)
  then have "dumpable (JObj kvs) = dumpable (JObj ls)" by (simp add: list_all_iff)
  then show ?thesis using dumps_text_perm [OF assms] by (simp add: canonical_json_def del: dumps_text.simps dumpable.simps)
qed

definition dict_doc :: "json \<Rightarrow> bool" where
  "dict_doc j = (case j of JObj d \<Rightarrow> distinct (map fst d) | _ \<Rightarrow> True)"

lemma fld_in: "distinct (map fst d) \<Longrightarrow> (cp n, v) \<in> set d \<Longrightarrow> fld d n = v"
  unfolding fld_def by (simp add: in_set_dict_get)

lemma canonical_fields:
  assumes d: "dict_doc (JObj d)" "fst ` set d = cp ` set names" and names: "distinct names"
  shows "canonical_json (JObj d) = canonical_json (to_obj names (map (fld d) names))"
proof -
  let ?z = "zip (map cp names) (map (fld d) names)"
  have wf: "distinct (map fst d)" using d(1) by (simp add: dict_doc_def)
  have "distinct ?z" using names by (simp add: distinct_zipI1 distinct_map inj_on_def cp_inj)
  moreover have "set d = set ?z"
  proof (intro equalityI subrelI)
    fix k v assume kv: "(k, v) \<in> set d"
    then obtain n where "n \<in> set names" "k = cp n" using d(2) by force
    then show "(k, v) \<in> set ?z" using fld_in [OF wf] kv by (auto simp: zip_map_map zip_same_conv_map)
  next
    fix k v assume "(k, v) \<in> set ?z"
    then obtain n where n: "n \<in> set names" "k = cp n" "v = fld d n" by (auto simp: zip_map_map zip_same_conv_map)
    then obtain w where "(cp n, w) \<in> set d" using d(2) by (metis image_iff imageI prod.collapse)
    then show "(k, v) \<in> set d" using fld_in [OF wf] n by metis
  qed
  ultimately have "mset d = mset ?z" using wf set_eq_iff_mset_eq_distinct distinct_map by metis
  from canonical_perm [OF this wf] show ?thesis by (simp add: to_obj_def)
qed

subsection \<open>Records and envelopes read back\<close>

lemma field_names [simp]: "distinct PAIR_FIELDS" "distinct RECORD_FIELDS" "distinct ENVELOPE_FIELDS"
  "distinct JOURNAL_FIELDS" "distinct TARGET_FIELDS"
  by (simp_all add: PAIR_FIELDS_def RECORD_FIELDS_def ENVELOPE_FIELDS_def JOURNAL_FIELDS_def TARGET_FIELDS_def)

lemma to_obj_keys: "length vs = length names \<Longrightarrow> fst ` set (zip (map cp names) vs) = cp ` set names"
  by (metis length_map list.set_map map_fst_zip)

lemma exact_keys_to_obj:
  "length vs = length names \<Longrightarrow> exact_keys names label (to_obj names vs) = Inr (zip (map cp names) vs)"
  by (simp add: exact_keys_def to_obj_def to_obj_keys)

lemma fld_Cons [simp]: "fld ((cp a, v) # d) b = (if a = b then v else fld d b)"
  by (simp add: fld_def cp_inj)

lemma record_with_fields:
  assumes "record_with env p md cd = Inr r"
  shows "\<exists>x b. r = to_obj RECORD_FIELDS [JInt (lp_generation p), JStr (lp_transaction p), JStr md, JStr cd, JStr (du_sha env b)]
    \<and> x = du_sha env b \<and> \<not> list_ex surrogate (lp_transaction p)"
  using assms by (auto simp: record_with_def digest_def canonical_json_def to_obj_def PAIR_FIELDS_def split: if_splits)

definition sha_law :: "durable_env \<Rightarrow> bool" where
  "sha_law env = (\<forall>b. sha256_hex_text (du_sha env b))"

lemma hex_not_surrogate: "sha256_hex_text s \<Longrightarrow> \<not> list_ex surrogate s"
  by (auto simp: sha256_hex_text_def list_ex_iff list_all_iff lower_hex_def surrogate_def)

lemma digest_hex: "sha_law env \<Longrightarrow> digest env v = Inr s \<Longrightarrow> sha256_hex_text s"
  by (auto simp: digest_def sha_law_def)

lemma cp_encodable [simp]: "\<not> list_ex surrogate (cp s)"
proof
  assume "list_ex surrogate (cp s)"
  then obtain c :: char where "surrogate (of_char c)" by (auto simp: list_ex_iff cp_def)
  moreover have "of_char c < (256 :: nat)" by simp
  ultimately show False by (simp add: surrogate_def)
qed

lemma record_encodable:
  assumes "sha_law env" "pair_record env p = Inr r"
  shows "\<exists>b. canonical_json r = Inr b"
proof -
  obtain md cd where d: "digest env (lp_memory p) = Inr md" "digest env (lp_changelog p) = Inr cd"
    and r: "record_with env p md cd = Inr r" using assms(2) by (auto simp: pair_record_def)
  obtain b where "r = to_obj RECORD_FIELDS [JInt (lp_generation p), JStr (lp_transaction p), JStr md, JStr cd, JStr (du_sha env b)]"
    "\<not> list_ex surrogate (lp_transaction p)" using record_with_fields [OF r] by blast
  then show ?thesis
    using digest_hex [OF assms(1) d(1)] digest_hex [OF assms(1) d(2)] assms(1) hex_not_surrogate
    by (simp add: canonical_json_def to_obj_def RECORD_FIELDS_def sha_law_def del: dumps_text.simps)
qed

lemma record_validates:
  assumes "sha_law env" "pair_record env p = Inr r" "0 \<le> lp_generation p" "lp_transaction p \<noteq> []"
  shows "validated_pair_record label r = Inr r"
proof -
  obtain md cd where d: "digest env (lp_memory p) = Inr md" "digest env (lp_changelog p) = Inr cd"
    and w: "record_with env p md cd = Inr r" using assms(2) by (auto simp: pair_record_def)
  obtain b where r: "r = to_obj RECORD_FIELDS [JInt (lp_generation p), JStr (lp_transaction p), JStr md, JStr cd, JStr (du_sha env b)]"
    using record_with_fields [OF w] by blast
  have keys: "fst ` set (zip (map cp RECORD_FIELDS) vs) = cp ` set RECORD_FIELDS" if "length vs = 5" for vs :: "json list"
    using that by (intro to_obj_keys) (simp add: RECORD_FIELDS_def)
  have z: "r = JObj (zip (map cp RECORD_FIELDS) [JInt (lp_generation p), JStr (lp_transaction p), JStr md, JStr cd, JStr (du_sha env b)])"
    by (simp add: r to_obj_def)
  show ?thesis
    unfolding z validated_pair_record_def
    using keys assms digest_hex [OF assms(1) d(1)] digest_hex [OF assms(1) d(2)]
    by (simp add: need_generation_def need_transaction_def need_digest_def hex64_def sha_law_def to_obj_def)
      (simp add: RECORD_FIELDS_def need_generation_def need_transaction_def need_digest_def hex64_def sha_law_def to_obj_def)
qed

lemma envelope_is [simp]: "is_envelope (envelope p payload peer)"
  by (simp add: is_envelope_def envelope_def to_obj_def ENVELOPE_FIELDS_def cp_inj)

lemma payload_legacy: "validate_memory_payload env False j = Inr () \<Longrightarrow> validate_memory_payload env l j = Inr ()"
  by (cases l; cases j) (auto simp: validate_memory_payload_def check_shape_def split: option.splits json.splits if_splits)

text \<open>What a stored pair has to be to be loaded.\<close>

definition storable :: "durable_env \<Rightarrow> lite_pair \<Rightarrow> bool" where
  "storable env p = (validate_memory_payload (du_valid env) False (lp_memory p) = Inr ()
     \<and> is_list (lp_changelog p) \<and> 0 \<le> lp_generation p \<and> lp_transaction p \<noteq> []
     \<and> validate_semantics env p = Inr ())"

lemma envelopes_Inr:
  "envelopes env p = Inr (m, c) \<longleftrightarrow> (\<exists>md cd. digest env (lp_memory p) = Inr md \<and> digest env (lp_changelog p) = Inr cd
     \<and> validate_memory_payload (du_valid env) (legacy_pair p) (lp_memory p) = Inr ()
     \<and> m = envelope p (lp_memory p) cd \<and> c = envelope p (lp_changelog p) md)"
  by (auto simp: envelopes_def envelopes_with_def)

lemma decode_written:
  assumes "envelopes env p = Inr (m, c)" "storable env p"
  shows "decode_pair env m c = Inr p"
proof -
  obtain md cd where d: "digest env (lp_memory p) = Inr md" "digest env (lp_changelog p) = Inr cd"
    and mc: "m = envelope p (lp_memory p) cd" "c = envelope p (lp_changelog p) md"
    using assms(1) by (auto simp: envelopes_Inr)
  have e: "exact_keys ENVELOPE_FIELDS label (envelope p payload peer) = Inr
      [(cp ''format_version'', JInt 2), (cp ''generation'', JInt (lp_generation p)),
       (cp ''transaction_id'', JStr (lp_transaction p)), (cp ''payload'', payload), (cp ''peer_digest'', JStr peer)]"
    for payload peer label
    unfolding envelope_def by (subst exact_keys_to_obj) (simp_all add: ENVELOPE_FIELDS_def)
  have "decode_envelopes env m c = Inr p"
    unfolding decode_envelopes_def mc e
    using assms(2) d by (simp add: storable_def need_format_def need_generation_def need_transaction_def)
  then show ?thesis by (simp add: decode_pair_def mc others_as_def)
qed

subsection \<open>What a load leaves and returns\<close>

text \<open>Documents come from \<open>json.loads\<close>, whose dictionaries have distinct keys.\<close>

definition file_of_dicts :: "pair_file \<Rightarrow> bool" where
  "file_of_dicts f = (case f of Holds j \<Rightarrow> dict_doc j | _ \<Rightarrow> True)"

text \<open>A file that stands for one side of the base of a commit: what recovery accepts as such.\<close>

definition base_side :: "lite_pair \<Rightarrow> json \<Rightarrow> json \<Rightarrow> pair_file \<Rightarrow> bool" where
  "base_side p doc payload f =
     (f = Absent \<and> lp_transaction p = cp ''empty'' \<and> lp_generation p = 0
      \<or> (\<exists>j. f = Holds j \<and> same_text j doc = Inr True)
      \<or> legacy_pair p \<and> (\<exists>j b. f = Holds j \<and> j = payload \<and> canonical_json j = Inr b))"

lemma empty_payload: "validate_memory_payload env l empty_memory = Inr ()"
  using bare_state_accepted [of 1 0 env "''memory''"]
  by (simp add: validate_memory_payload_def empty_memory_def check_shape_def has_keys_def V2_KEYS_def
      OPTIONAL_COLLECTIONS_def is_list_def fld_def cp_inj empty_sync_state_bare is_collection_def)

lemma decode_envelopes_parts:
  assumes "decode_envelopes env m c = Inr p"
  obtains dm dc md cd where "m = JObj dm" "c = JObj dc" "fst ` set dm = cp ` set ENVELOPE_FIELDS"
    "fst ` set dc = cp ` set ENVELOPE_FIELDS" "digest env (lp_memory p) = Inr md" "digest env (lp_changelog p) = Inr cd"
    "map (fld dm) ENVELOPE_FIELDS = [JInt 2, JInt (lp_generation p), JStr (lp_transaction p), lp_memory p, JStr cd]"
    "map (fld dc) ENVELOPE_FIELDS = [JInt 2, JInt (lp_generation p), JStr (lp_transaction p), lp_changelog p, JStr md]"
    "validate_memory_payload (du_valid env) False (lp_memory p) = Inr ()" "is_list (lp_changelog p)"
    "0 \<le> lp_generation p" "lp_transaction p \<noteq> []"
  using assms unfolding decode_envelopes_def
  by (auto simp: exact_keys_def need_format_def ENVELOPE_FIELDS_def split: json.splits if_splits)

text \<open>The three kinds of authoritative pair: nothing stored yet, a pair of before envelopes, a pair of envelopes.\<close>

lemma load_files_cases:
  assumes "load_files env disk = Inr p"
  obtains (empty) "pd_memory disk = Absent" "pd_changelog disk = Absent" "p = empty_pair"
  | (old) m c where "pd_memory disk = Holds m" "pd_changelog disk = Holds c" "legacy_pair p" "lp_memory p = m"
      "lp_changelog p = c" "lp_generation p = 0" "is_list c" "validate_memory_payload (du_valid env) True m = Inr ()"
      "validate_semantics env p = Inr ()"
  | (enveloped) m c where "pd_memory disk = Holds m" "pd_changelog disk = Holds c"
      "decode_envelopes env m c = Inr p" "validate_semantics env p = Inr ()"
proof (cases "pd_memory disk = Absent \<and> pd_changelog disk = Absent")
  case True
  then show ?thesis using assms empty by (simp add: load_files_def)
next
  case False
  then obtain m c where f: "pd_memory disk = Holds m" "pd_changelog disk = Holds c"
    and p: "decode_pair env m c = Inr p" "validate_semantics env p = Inr ()"
    using assms by (auto simp: load_files_def read_file_def split: pair_file.splits if_splits)
  show ?thesis
  proof (cases "is_envelope m")
    case True
    then have "decode_envelopes env m c = Inr p"
      using p(1) by (auto simp: decode_pair_def others_as_def split: if_splits sum.splits exn.splits)
    then show ?thesis using enveloped f p(2) by blast
  next
    case False
    then show ?thesis using old [of m c] f p by (auto simp: decode_pair_def legacy_pair_def split: if_splits)
  qed
qed

lemma canonical_to_obj: "canonical_json (to_obj names vs) = Inr b \<Longrightarrow> same_text (to_obj names vs) (to_obj names vs) = Inr True"
  by (simp add: same_text_def)

lemma same_text_eq: "canonical_json v = canonical_json w \<Longrightarrow> canonical_json w = Inr b \<Longrightarrow> same_text v w = Inr True"
  by (simp add: same_text_def)

lemma envelope_encodable:
  assumes "canonical_json payload = Inr b" "\<not> list_ex surrogate (lp_transaction p)" "\<not> list_ex surrogate peer"
  shows "\<exists>a. canonical_json (envelope p payload peer) = Inr a"
  using assms by (auto simp: canonical_json_def envelope_def to_obj_def ENVELOPE_FIELDS_def simp del: dumps_text.simps split: if_splits)

lemma digest_encodable: "digest env v = Inr s \<Longrightarrow> \<exists>b. canonical_json v = Inr b"
  by (auto simp: digest_def)

lemma record_transaction: "pair_record env p = Inr r \<Longrightarrow> \<not> list_ex surrogate (lp_transaction p)"
  by (auto simp: pair_record_def dest: record_with_fields)

lemma pair_record_digests:
  assumes "pair_record env p = Inr r"
  obtains md cd where "digest env (lp_memory p) = Inr md" "digest env (lp_changelog p) = Inr cd"
  using assms by (auto simp: pair_record_def)

text \<open>The two sides of the pair a load returned are what recovery takes for the base.\<close>

lemma enveloped_side:
  assumes d: "dict_doc (JObj d)" "fst ` set d = cp ` set ENVELOPE_FIELDS"
    and vs: "map (fld d) ENVELOPE_FIELDS = [JInt 2, JInt (lp_generation p), JStr (lp_transaction p), payload, JStr peer]"
    and enc: "canonical_json payload = Inr b" "\<not> list_ex surrogate (lp_transaction p)" "\<not> list_ex surrogate peer"
  shows "same_text (JObj d) (envelope p payload peer) = Inr True"
  using canonical_fields [OF d] envelope_encodable [OF enc] unfolding vs envelope_def [symmetric]
  by (auto intro: same_text_eq)

lemma loaded_sides:
  assumes load: "load_files env disk = Inr p" and wf: "file_of_dicts (pd_memory disk)" "file_of_dicts (pd_changelog disk)"
    and sha: "sha_law env" and r: "pair_record env p = Inr r" and e: "envelopes env p = Inr (bm, bc)"
  shows "base_side p bm (lp_memory p) (pd_memory disk) \<and> base_side p bc (lp_changelog p) (pd_changelog disk)"
proof -
  obtain md cd where d: "digest env (lp_memory p) = Inr md" "digest env (lp_changelog p) = Inr cd"
    and b: "bm = envelope p (lp_memory p) cd" "bc = envelope p (lp_changelog p) md"
    using e by (auto simp: envelopes_Inr)
  note enc = digest_encodable [OF d(1)] digest_encodable [OF d(2)] record_transaction [OF r]
    hex_not_surrogate [OF digest_hex [OF sha d(1)]] hex_not_surrogate [OF digest_hex [OF sha d(2)]]
  from load show ?thesis
  proof (cases rule: load_files_cases)
    case empty
    then show ?thesis by (simp add: base_side_def empty_pair_def)
  next
    case (old m c)
    then show ?thesis using enc(1,2) by (auto simp: base_side_def)
  next
    case (enveloped m c)
    obtain dm dc md' cd' where *: "m = JObj dm" "c = JObj dc" "fst ` set dm = cp ` set ENVELOPE_FIELDS"
      "fst ` set dc = cp ` set ENVELOPE_FIELDS" "digest env (lp_memory p) = Inr md'" "digest env (lp_changelog p) = Inr cd'"
      "map (fld dm) ENVELOPE_FIELDS = [JInt 2, JInt (lp_generation p), JStr (lp_transaction p), lp_memory p, JStr cd']"
      "map (fld dc) ENVELOPE_FIELDS = [JInt 2, JInt (lp_generation p), JStr (lp_transaction p), lp_changelog p, JStr md']"
      using decode_envelopes_parts [OF enveloped(3)] by metis
    have eq: "md' = md" "cd' = cd" using *(5,6) d by auto
    have docs: "dict_doc (JObj dm)" "dict_doc (JObj dc)"
      using wf enveloped(1,2) *(1,2) by (simp_all add: file_of_dicts_def)
    have "same_text m bm = Inr True" "same_text c bc = Inr True"
      using enveloped_side [OF docs(1) *(3) *(7)] enveloped_side [OF docs(2) *(4) *(8)] enc
      unfolding *(1,2) b eq by blast+
    then show ?thesis using enveloped(1,2) by (simp add: base_side_def)
  qed
qed

lemma loaded_valid:
  assumes "load_files env disk = Inr p" "validate_semantics env empty_pair = Inr ()"
  shows "is_list (lp_changelog p)" "0 \<le> lp_generation p" "lp_transaction p \<noteq> []"
    "validate_semantics env p = Inr ()"
    "validate_memory_payload (du_valid env) (legacy_pair p) (lp_memory p) = Inr ()"
proof -
  from assms(1) have "is_list (lp_changelog p) \<and> 0 \<le> lp_generation p \<and> lp_transaction p \<noteq> []
    \<and> validate_semantics env p = Inr () \<and> validate_memory_payload (du_valid env) (legacy_pair p) (lp_memory p) = Inr ()"
  proof (cases rule: load_files_cases)
    case empty
    then show ?thesis using assms(2) by (simp add: empty_pair_def empty_payload is_list_def)
  next
    case (old m c)
    then show ?thesis by (auto simp: legacy_pair_def)
  next
    case (enveloped m c)
    from enveloped(3) show ?thesis
      by (rule decode_envelopes_parts) (use enveloped(4) payload_legacy in auto)
  qed
  then show "is_list (lp_changelog p)" "0 \<le> lp_generation p" "lp_transaction p \<noteq> []"
    "validate_semantics env p = Inr ()"
    "validate_memory_payload (du_valid env) (legacy_pair p) (lp_memory p) = Inr ()" by auto
qed

subsection \<open>A commit under way\<close>

text \<open>What a commit from a loaded base works with, once its plan is made.\<close>

record commit_case =
  cc_base :: lite_pair
  cc_target :: lite_pair
  cc_brec :: json
  cc_trec :: json
  cc_bdocs :: "json \<times> json"
  cc_tdocs :: "json \<times> json"

definition case_ok :: "durable_env \<Rightarrow> commit_case \<Rightarrow> bool" where
  "case_ok env c =
     (storable env (cc_target c) \<and> is_list (lp_changelog (cc_base c)) \<and> 0 \<le> lp_generation (cc_base c)
      \<and> lp_transaction (cc_base c) \<noteq> [] \<and> validate_semantics env (cc_base c) = Inr ()
      \<and> validate_memory_payload (du_valid env) (legacy_pair (cc_base c)) (lp_memory (cc_base c)) = Inr ()
      \<and> validate_transition (cc_base c) (cc_target c) = Inr ()
      \<and> pair_record env (cc_base c) = Inr (cc_brec c) \<and> pair_record env (cc_target c) = Inr (cc_trec c)
      \<and> envelopes env (cc_base c) = Inr (cc_bdocs c) \<and> envelopes env (cc_target c) = Inr (cc_tdocs c))"

definition case_journal :: "commit_case \<Rightarrow> json" where
  "case_journal c = journal_of (cc_base c) (cc_brec c) (cc_target c) (cc_trec c)"

definition case_ops :: "commit_case \<Rightarrow> disk_op list" where
  "case_ops c = [Put_memory (fst (cc_tdocs c)), Put_changelog (snd (cc_tdocs c)), Drop_journal]"

lemma pair_eta [simp]: "\<lparr>lp_memory = lp_memory p, lp_changelog = lp_changelog p, lp_generation = lp_generation p,
    lp_transaction = lp_transaction p\<rparr> = p"
  by (cases p) simp

lemma transition_parts:
  "validate_transition b t = Inr () \<Longrightarrow> is_list (lp_changelog t) \<and> 0 \<le> lp_generation t \<and> lp_transaction t \<noteq> []
     \<and> lp_generation t = lp_generation b + 1 \<and> lp_transaction t \<noteq> lp_transaction b"
  by (auto simp: validate_transition_def split: if_splits)

lemma plan_case:
  assumes plan: "commit_plan env b t verified brec validated = Inr (ops, trec)"
    and base: "is_list (lp_changelog b)" "0 \<le> lp_generation b" "lp_transaction b \<noteq> []" "validate_semantics env b = Inr ()"
    and cached: "brec = None \<or> pair_record env b = Inr (the brec)"
    and trusted: "validated \<longrightarrow> validate_semantics env t = Inr ()"
  obtains c where "case_ok env c" "cc_base c = b" "cc_target c = t" "cc_trec c = trec"
    "ops = Put_journal (case_journal c) # case_ops c"
proof -
  obtain md cd tm tc r where
    p: "validate_memory_payload (du_valid env) (legacy_pair b) (lp_memory b) = Inr ()"
      "validate_memory_payload (du_valid env) False (lp_memory t) = Inr ()" "validate_transition b t = Inr ()"
      "validate_semantics env t = Inr ()" "digest env (lp_memory t) = Inr md" "digest env (lp_changelog t) = Inr cd"
      "envelopes_with env t md cd = Inr (tm, tc)" "record_with env t md cd = Inr trec" "pair_record env b = Inr r"
    and ops: "ops = [Put_journal (journal_of b r t trec), Put_memory tm, Put_changelog tc, Drop_journal]"
    using plan cached trusted unfolding commit_plan_def by (auto split: if_splits option.splits)
  obtain bm bc where e: "envelopes env b = Inr (bm, bc)"
    using p(1) p(9) by (auto simp: envelopes_def envelopes_with_def pair_record_def)
  let ?c = "\<lparr>cc_base = b, cc_target = t, cc_brec = r, cc_trec = trec, cc_bdocs = (bm, bc), cc_tdocs = (tm, tc)\<rparr>"
  have "envelopes env t = Inr (tm, tc)" "pair_record env t = Inr trec"
    using p by (simp_all add: envelopes_def pair_record_def envelopes_with_def)
  then have "case_ok env ?c" using p e base transition_parts [OF p(3)] by (simp add: case_ok_def storable_def)
  then show ?thesis using that [of ?c] ops by (simp add: case_journal_def case_ops_def)
qed

lemma read_target_journal:
  assumes c: "case_ok env c" and sha: "sha_law env"
  obtains d where "read_target env (case_journal c) = Inr (d, cc_target c, cc_brec c)"
    "fld d ''base_memory'' = lp_memory (cc_base c)" "fld d ''base_changelog'' = lp_changelog (cc_base c)"
proof -
  let ?b = "cc_base c" and ?t = "cc_target c"
  let ?tobj = "to_obj TARGET_FIELDS [lp_memory ?t, lp_changelog ?t, JInt (lp_generation ?t), JStr (lp_transaction ?t)]"
  let ?d = "[(cp ''format_version'', JInt 2), (cp ''base_record'', cc_brec c), (cp ''base_memory'', lp_memory ?b),
    (cp ''base_changelog'', lp_changelog ?b), (cp ''target'', ?tobj), (cp ''target_record'', cc_trec c)]"
  have j: "exact_keys JOURNAL_FIELDS ''durable journal'' (case_journal c) = Inr ?d"
    unfolding case_journal_def journal_of_def by (subst exact_keys_to_obj) (simp_all add: JOURNAL_FIELDS_def)
  have t: "exact_keys TARGET_FIELDS ''journal target'' ?tobj = Inr [(cp ''memory'', lp_memory ?t),
    (cp ''changelog'', lp_changelog ?t), (cp ''generation'', JInt (lp_generation ?t)), (cp ''transaction_id'', JStr (lp_transaction ?t))]"
    by (subst exact_keys_to_obj) (simp_all add: TARGET_FIELDS_def)
  have rec: "validated_pair_record ''journal target'' (cc_trec c) = Inr (cc_trec c)"
    "validated_pair_record ''journal base'' (cc_brec c) = Inr (cc_brec c)"
    using c by (auto intro!: record_validates [OF sha] simp: case_ok_def storable_def)
  obtain x where x: "canonical_json (cc_trec c) = Inr x" using c record_encodable [OF sha] by (auto simp: case_ok_def)
  have "read_target env (case_journal c) = Inr (?d, ?t, cc_brec c)"
    unfolding read_target_def j
    using c rec x by (simp add: t need_format_def need_generation_def need_transaction_def case_ok_def storable_def same_text_def Let_def)
  then show ?thesis using that by simp
qed

lemma docs_encodable:
  assumes "envelopes env p = Inr (m, c)" "pair_record env p = Inr r" "sha_law env"
  shows "\<exists>a. canonical_json m = Inr a" "\<exists>a. canonical_json c = Inr a"
proof -
  obtain md cd where d: "digest env (lp_memory p) = Inr md" "digest env (lp_changelog p) = Inr cd"
    and mc: "m = envelope p (lp_memory p) cd" "c = envelope p (lp_changelog p) md"
    using assms(1) by (auto simp: envelopes_Inr)
  note x = record_transaction [OF assms(2)] hex_not_surrogate [OF digest_hex [OF assms(3) d(1)]]
    hex_not_surrogate [OF digest_hex [OF assms(3) d(2)]] digest_encodable [OF d(1)] digest_encodable [OF d(2)]
  show "\<exists>a. canonical_json m = Inr a" "\<exists>a. canonical_json c = Inr a"
    unfolding mc using envelope_encodable x by blast+
qed

text \<open>A side of the pair during the commit: still the base, or already the target.\<close>

lemma side_matches_True:
  assumes "canonical_json j = Inr x" "canonical_json bdoc = Inr a" "canonical_json tdoc = Inr b"
    and "x = a \<or> x = b \<or> legacy \<and> j = payload"
  shows "side_matches legacy j bdoc tdoc payload = Inr True"
  using assms by (auto simp: side_matches_def same_text_def simp del: bindR_Inr_iff)

lemma side_accepted:
  assumes side: "base_side b bdoc payload f \<or> f = Holds tdoc"
    and docs: "\<exists>a. canonical_json bdoc = Inr a" "\<exists>a. canonical_json tdoc = Inr a"
  shows "check_side (lp_transaction b = cp ''empty'' \<and> lp_generation b = 0) (legacy_pair b) f bdoc tdoc payload = Inr ()"
proof -
  obtain a t where at: "canonical_json bdoc = Inr a" "canonical_json tdoc = Inr t" using docs by blast
  have held: "check_side i (legacy_pair b) (Holds j) bdoc tdoc payload = Inr ()"
    if "canonical_json j = Inr x" "x = a \<or> x = t \<or> legacy_pair b \<and> j = payload" for i j x
    using side_matches_True [OF that(1) at that(2)] by (simp add: check_side_def read_file_def del: bindR_Inr_iff)
  from side show ?thesis
  proof
    assume "base_side b bdoc payload f"
    then consider "f = Absent" "lp_transaction b = cp ''empty'' \<and> lp_generation b = 0"
      | j where "f = Holds j" "same_text j bdoc = Inr True"
      | j x where "legacy_pair b" "f = Holds j" "j = payload" "canonical_json j = Inr x"
      by (auto simp: base_side_def)
    then show ?thesis
    proof cases
      case 1
      then show ?thesis by (simp add: check_side_def)
    next
      case 2
      then have "canonical_json j = Inr a" using at(1) by (auto simp: same_text_def)
      then show ?thesis using held 2(1) by blast
    next
      case 3
      then show ?thesis using held by blast
    qed
  next
    assume "f = Holds tdoc"
    then show ?thesis using held at(2) by blast
  qed
qed

definition under_way :: "durable_env \<Rightarrow> commit_case \<Rightarrow> pair_disk \<Rightarrow> bool" where
  "under_way env c disk =
     (pd_journal disk = Holds (case_journal c)
      \<and> (base_side (cc_base c) (fst (cc_bdocs c)) (lp_memory (cc_base c)) (pd_memory disk)
         \<or> pd_memory disk = Holds (fst (cc_tdocs c)))
      \<and> (base_side (cc_base c) (snd (cc_bdocs c)) (lp_changelog (cc_base c)) (pd_changelog disk)
         \<or> pd_changelog disk = Holds (snd (cc_tdocs c))))"

text \<open>Recovery finishes a commit under way, whatever it finds of the two sides.\<close>

lemma recover_under_way:
  assumes c: "case_ok env c" and sha: "sha_law env" and u: "under_way env c disk"
  shows "recover_plan env disk = Inr (case_ops c)"
proof -
  let ?b = "cc_base c" and ?t = "cc_target c"
  obtain d where d: "read_target env (case_journal c) = Inr (d, ?t, cc_brec c)"
    "fld d ''base_memory'' = lp_memory ?b" "fld d ''base_changelog'' = lp_changelog ?b"
    using read_target_journal [OF c sha] by metis
  obtain bm bc tm tc where docs: "cc_bdocs c = (bm, bc)" "cc_tdocs c = (tm, tc)" by (metis prod.exhaust)
  have e: "envelopes env ?b = Inr (bm, bc)" "envelopes env ?t = Inr (tm, tc)"
    and rec: "pair_record env ?b = Inr (cc_brec c)" "pair_record env ?t = Inr (cc_trec c)"
    using c docs by (auto simp: case_ok_def)
  note enc = docs_encodable [OF e(1) rec(1) sha] docs_encodable [OF e(2) rec(2) sha]
  obtain md cd b where r: "cc_brec c = to_obj RECORD_FIELDS
      [JInt (lp_generation ?b), JStr (lp_transaction ?b), JStr md, JStr cd, JStr (du_sha env b)]"
    using rec(1) record_with_fields by (auto simp: pair_record_def) blast
  have gets: "obj_get (cc_brec c) ''generation'' = JInt (lp_generation ?b)"
    "obj_get (cc_brec c) ''transaction_id'' = JStr (lp_transaction ?b)"
    by (simp_all add: r obj_get_def to_obj_def RECORD_FIELDS_def)
  obtain x where x: "canonical_json (cc_brec c) = Inr x" using record_encodable [OF sha rec(1)] by blast
  have sides: "check_side (lp_transaction ?b = cp ''empty'' \<and> lp_generation ?b = 0) (legacy_pair ?b) (pd_memory disk)
      bm tm (lp_memory ?b) = Inr ()"
    "check_side (lp_transaction ?b = cp ''empty'' \<and> lp_generation ?b = 0) (legacy_pair ?b) (pd_changelog disk)
      bc tc (lp_changelog ?b) = Inr ()"
    using u docs enc by (auto intro!: side_accepted simp: under_way_def)
  have j: "read_file (pd_journal disk) = Inr (case_journal c)" "pd_journal disk \<noteq> Absent"
    using u by (simp_all add: under_way_def read_file_def)
  show ?thesis
    unfolding recover_plan_def
    using j d gets rec(1) x e sides c docs
    by (simp add: same_text_def case_ok_def storable_def case_ops_def Let_def or_bad_def del: bindR_Inr_iff)
qed

subsection \<open>The files refine a register\<close>

text \<open>
  The setting: no SQLite candidate, SHA-256 prints 64 hexadecimal digits, and the store's
  validator accepts the empty pair it starts from.
\<close>

definition json_authority :: "durable_env \<Rightarrow> bool" where
  "json_authority env = (du_candidate env = Inr None \<and> sha_law env \<and> validate_semantics env empty_pair = Inr ())"

definition quiet :: "durable_env \<Rightarrow> lite_pair \<Rightarrow> pair_disk \<Rightarrow> bool" where
  "quiet env p disk = (pd_journal disk = Absent \<and> load_files env disk = Inr p
     \<and> file_of_dicts (pd_memory disk) \<and> file_of_dicts (pd_changelog disk))"

definition represents :: "durable_env \<Rightarrow> lite_pair \<Rightarrow> pair_disk \<Rightarrow> bool" where
  "represents env p disk =
     (quiet env p disk \<or> (\<exists>c. case_ok env c \<and> cc_target c = p \<and> under_way env c disk))"

lemma envelope_dict: "file_of_dicts (Holds (envelope p payload peer))"
  by (simp add: file_of_dicts_def dict_doc_def envelope_def to_obj_def ENVELOPE_FIELDS_def cp_inj)

lemma finished_quiet:
  assumes c: "case_ok env c" and d: "pd_journal disk = Absent" "pd_memory disk = Holds (fst (cc_tdocs c))"
    "pd_changelog disk = Holds (snd (cc_tdocs c))"
  shows "quiet env (cc_target c) disk"
proof -
  obtain m ch where docs: "cc_tdocs c = (m, ch)" by (metis prod.exhaust)
  then have e: "envelopes env (cc_target c) = Inr (m, ch)" and s: "storable env (cc_target c)"
    using c by (auto simp: case_ok_def)
  have "file_of_dicts (Holds m)" "file_of_dicts (Holds ch)"
    using e envelope_dict by (auto simp: envelopes_Inr)
  then show ?thesis
    using decode_written [OF e s] s d docs by (simp add: quiet_def load_files_def read_file_def storable_def)
qed

text \<open>However many of the remaining operations a crash lets through, the target is what is represented.\<close>

lemma under_way_prefix:
  assumes c: "case_ok env c" and u: "under_way env c disk"
  shows "represents env (cc_target c) (disk_run (take k (case_ops c)) disk)"
proof -
  have early: ?thesis if "under_way env c (disk_run (take k (case_ops c)) disk)"
    using that c unfolding represents_def by blast
  consider "k = 0" | "k = 1" | "k = 2" | "3 \<le> k" by linarith
  then show ?thesis
  proof cases
    case 4
    then have "take k (case_ops c) = case_ops c" by (simp add: case_ops_def)
    moreover have "quiet env (cc_target c) (disk_run (case_ops c) disk)"
      by (rule finished_quiet [OF c]) (simp_all add: case_ops_def disk_run_def)
    ultimately show ?thesis by (simp add: represents_def)
  next
    case 1
    then show ?thesis using u by (intro early) (simp add: case_ops_def disk_run_def)
  next
    case 2
    then show ?thesis using u by (intro early) (simp add: under_way_def case_ops_def disk_run_def)
  next
    case 3
    then show ?thesis using u by (intro early) (simp add: under_way_def case_ops_def disk_run_def numeral_2_eq_2)
  qed
qed

lemma quiet_load: "json_authority env \<Longrightarrow> quiet env p disk \<Longrightarrow> load_authoritative env disk = (Inr p, disk)"
  by (simp add: load_authoritative_def json_authority_def quiet_def recover_plan_def disk_run_def)

lemma represented_load:
  assumes env: "json_authority env" and r: "represents env p disk"
  shows "\<exists>disk'. load_authoritative env disk = (Inr p, disk') \<and> quiet env p disk'"
proof -
  from r consider "quiet env p disk" | c where "case_ok env c" "cc_target c = p" "under_way env c disk"
    by (auto simp: represents_def)
  then show ?thesis
  proof cases
    case 1
    then show ?thesis using quiet_load [OF env] by blast
  next
    case 2
    let ?d = "disk_run (case_ops c) disk"
    have plan: "recover_plan env disk = Inr (case_ops c)"
      using recover_under_way 2 env by (simp add: json_authority_def)
    have q: "quiet env p ?d"
      unfolding 2(2) [symmetric] by (rule finished_quiet [OF 2(1)]) (simp_all add: case_ops_def disk_run_def)
    then show ?thesis
      using env plan by (simp add: load_authoritative_def json_authority_def quiet_def)
  qed
qed

lemma represented_recovery:
  assumes env: "json_authority env" and r: "represents env p disk" and plan: "recover_plan env disk = Inr ops"
  shows "represents env p (disk_run (take k ops) disk)"
proof -
  from r consider "quiet env p disk" | c where "case_ok env c" "cc_target c = p" "under_way env c disk"
    by (auto simp: represents_def)
  then show ?thesis
  proof cases
    case 1
    then have "ops = []" using plan by (simp add: recover_plan_def quiet_def)
    then show ?thesis using 1 by (simp add: represents_def disk_run_def)
  next
    case 2
    then have "ops = case_ops c" using recover_under_way plan env by (auto simp: json_authority_def)
    then show ?thesis using under_way_prefix [OF 2(1) 2(3)] 2(2) by simp
  qed
qed

text \<open>Whether a commit got as far as its decision, the journal on disk.\<close>

definition decided ::
    "durable_env \<Rightarrow> lite_pair \<Rightarrow> lite_pair \<Rightarrow> bool \<Rightarrow> json option \<Rightarrow> bool \<Rightarrow> commit_fate \<Rightarrow> lite_writer \<Rightarrow> pair_disk \<Rightarrow> bool" where
  "decided env b t verified brec validated fate w disk =
     (\<not> lw_poisoned w \<and> (\<exists>d. reload_base env b verified disk = (Inr (), d))
      \<and> (\<exists>p. commit_plan env b t verified brec validated = Inr p) \<and> 0 < fate_steps fate)"

text \<open>What a caller of the commit owes: a cached record is that of the base, a target it calls validated is.\<close>

definition commit_contract :: "durable_env \<Rightarrow> lite_pair \<Rightarrow> lite_pair \<Rightarrow> json option \<Rightarrow> bool \<Rightarrow> bool" where
  "commit_contract env b t brec validated =
     ((brec = None \<or> pair_record env b = Inr (the brec)) \<and> (validated \<longrightarrow> validate_semantics env t = Inr ()))"

lemma quiet_ops:
  assumes env: "json_authority env" and q: "quiet env b disk" and c: "case_ok env c" "cc_base c = b"
  shows "represents env (if 0 < k then cc_target c else b) (disk_run (take k (Put_journal (case_journal c) # case_ops c)) disk)"
proof (cases k)
  case 0
  then show ?thesis using q by (simp add: represents_def disk_run_def)
next
  case (Suc n)
  obtain bm bc where docs: "cc_bdocs c = (bm, bc)" by (metis prod.exhaust)
  then have e: "envelopes env b = Inr (bm, bc)" and r: "pair_record env b = Inr (cc_brec c)"
    using c by (auto simp: case_ok_def)
  have "under_way env c (disk\<lparr>pd_journal := Holds (case_journal c)\<rparr>)"
    using loaded_sides [of env disk b "cc_brec c" bm bc] q e r env c(2) docs
    by (simp add: under_way_def quiet_def json_authority_def)
  from under_way_prefix [OF c(1) this, of n] show ?thesis by (simp add: Suc disk_run_def)
qed

lemma commit_represents:
  assumes env: "json_authority env" and q: "quiet env b disk" and ok: "commit_contract env b t brec validated"
    and run: "with_writer_lock (commit_locked env b t verified brec validated fate) w disk = (r, w', disk')"
  shows "represents env (if decided env b t verified brec validated fate w disk then t else b) disk'
    \<and> (\<forall>x. r = Inr x \<longrightarrow> x = t \<and> decided env b t verified brec validated fate w disk)"
proof -
  have reload: "\<exists>e. reload_base env b verified disk = (e, disk)"
    using quiet_load [OF env q] by (simp add: reload_base_def)
  have b: "is_list (lp_changelog b)" "0 \<le> lp_generation b" "lp_transaction b \<noteq> []" "validate_semantics env b = Inr ()"
    using loaded_valid [of env disk b] q env by (auto simp: quiet_def json_authority_def)
  have same: "represents env b disk" using q by (simp add: represents_def)
  show ?thesis
  proof (cases "lw_poisoned w \<or> (\<exists>e. reload_base env b verified disk = (Inl e, disk))
      \<or> (\<exists>e. commit_plan env b t verified brec validated = Inl e)")
    case True
    then show ?thesis
      using run reload same
      by (auto simp: with_writer_lock_def commit_locked_def decided_def poisoned_def split: if_splits sum.splits)
  next
    case False
    obtain ops trec where plan: "commit_plan env b t verified brec validated = Inr (ops, trec)"
      and again: "reload_base env b verified disk = (Inr (), disk)" and w: "\<not> lw_poisoned w"
      using False reload by (metis (full_types) old.sum.exhaust old.unit.exhaust prod.exhaust)
    obtain c where c: "case_ok env c" "cc_base c = b" "cc_target c = t" "ops = Put_journal (case_journal c) # case_ops c"
      using plan_case [OF plan b] ok by (metis commit_contract_def)
    have disk': "disk' = disk_run (take (fate_steps fate) ops) disk" and r: "\<forall>x. r = Inr x \<longrightarrow> x = t \<and> fate = Completes"
      using run w again plan by (auto simp: with_writer_lock_def commit_locked_def Let_def split: commit_fate.splits)
    have dec: "decided env b t verified brec validated fate w disk \<longleftrightarrow> 0 < fate_steps fate"
      using w again plan by (simp add: decided_def)
    show ?thesis
      unfolding dec disk' c(4) using quiet_ops [OF env q c(1,2), of "fate_steps fate"] c(3) r
      by (auto simp: fate_steps_def)
  qed
qed

definition blank_disk :: pair_disk where
  "blank_disk = \<lparr>pd_memory = Absent, pd_changelog = Absent, pd_journal = Absent\<rparr>"

definition load_locked :: "durable_env \<Rightarrow> lite_writer \<Rightarrow> pair_disk \<Rightarrow> lite_pair result \<times> lite_writer \<times> pair_disk" where
  "load_locked env w disk = (case load_authoritative env disk of (r, disk') \<Rightarrow> (r, w, disk'))"

text \<open>
  Everything that happens to a directory: loads, recoveries that are cut off, restarts, and
  commits, with whatever the disk does to them, from the pair just loaded or from a stale one.
  The register beside the files changes exactly when a commit is decided.
\<close>

inductive durable_history :: "durable_env \<Rightarrow> lite_pair \<Rightarrow> lite_writer \<Rightarrow> pair_disk \<Rightarrow> bool" for env where
  created: "durable_history env empty_pair fresh_writer blank_disk"
| loaded: "durable_history env p w disk \<Longrightarrow> with_writer_lock (load_locked env) w disk = (r, w', disk') \<Longrightarrow>
    durable_history env p w' disk'"
| cut_off: "durable_history env p w disk \<Longrightarrow> recover_plan env disk = Inr ops \<Longrightarrow>
    durable_history env p w (disk_run (take k ops) disk)"
| restarted: "durable_history env p w disk \<Longrightarrow> durable_history env p fresh_writer disk"
| committed: "durable_history env p w disk \<Longrightarrow> load_authoritative env disk = (Inr b, disk1) \<Longrightarrow>
    commit_contract env b t brec validated \<Longrightarrow>
    with_writer_lock (commit_locked env b t verified brec validated fate) w disk1 = (r, w', disk2) \<Longrightarrow>
    durable_history env (if decided env b t verified brec validated fate w disk1 then t else p) w' disk2"
| stale: "durable_history env p w disk \<Longrightarrow> load_authoritative env disk = (Inr cur, disk1) \<Longrightarrow> \<not> same_pair cur b \<Longrightarrow>
    with_writer_lock (commit_locked env b t False brec validated fate) w disk = (r, w', disk2) \<Longrightarrow>
    durable_history env p w' disk2"

lemma stale_refused:
  assumes "load_authoritative env disk = (Inr cur, disk1)" "\<not> same_pair cur b"
  shows "commit_locked env b t False brec validated fate w disk
    = (Inl (RuntimeErr ''Lite authoritative state changed before commit''), w, disk1)"
  using assms by (simp add: commit_locked_def reload_base_def)

lemma history_represents:
  assumes env: "json_authority env" and h: "durable_history env p w disk"
  shows "represents env p disk"
  using h
proof induction
  case created
  then show ?case by (simp add: represents_def quiet_def blank_disk_def load_files_def file_of_dicts_def)
next
  case (loaded p w disk r w' disk')
  obtain d where "load_authoritative env disk = (Inr p, d)" "quiet env p d"
    using represented_load [OF env loaded.IH] by blast
  then show ?case
    using loaded.hyps(2) loaded.IH by (auto simp: with_writer_lock_def load_locked_def represents_def split: if_splits)
next
  case (cut_off p w disk ops k)
  then show ?case using represented_recovery [OF env] by blast
next
  case (committed p w disk b disk1 t brec validated verified fate r w' disk2)
  obtain d where "load_authoritative env disk = (Inr p, d)" "quiet env p d"
    using represented_load [OF env committed.IH] by blast
  then have "b = p" "quiet env b disk1" using committed.hyps(2) by auto
  then show ?case using commit_represents [OF env _ committed.hyps(3,4)] by metis
next
  case (stale p w disk cur disk1 b t brec validated fate r w' disk2)
  obtain d where "load_authoritative env disk = (Inr p, d)" "quiet env p d"
    using represented_load [OF env stale.IH] by blast
  then have "quiet env p disk1" using stale.hyps(2) by auto
  then show ?case
    using stale.hyps(4) stale.IH stale_refused [OF stale.hyps(2,3)]
    by (auto simp: with_writer_lock_def represents_def split: if_splits)
qed simp

text \<open>
  C1: the two files and their journal refine one register.  After any sequence of loads,
  commits, failed writes, crashes in a commit or in a recovery, at any disk operation, and
  restarts, loading returns exactly the target of the last commit whose journal reached the
  disk, and leaves no journal.
\<close>

theorem files_refine_register:
  assumes env: "json_authority env" and h: "durable_history env p w disk"
  shows "\<exists>disk'. load_authoritative env disk = (Inr p, disk') \<and> pd_journal disk' = Absent
    \<and> load_authoritative env disk' = (Inr p, disk')"
  using represented_load [OF env history_represents [OF env h]] quiet_load [OF env] by (auto simp: quiet_def)

text \<open>
  C13: a commit is atomic and never lost.  From a loaded base, whatever the disk does to it,
  the next load returns the base or the target, the generation one higher in the second case;
  a commit that reports success is the target from then on; one that fails before its
  journal is on disk leaves the base; and a commit from a base that is no longer
  current is refused.
\<close>

theorem commit_is_atomic:
  assumes env: "json_authority env" and h: "durable_history env p w disk"
    and load: "load_authoritative env disk = (Inr b, disk1)" and ok: "commit_contract env b t brec validated"
    and run: "with_writer_lock (commit_locked env b t verified brec validated fate) w disk1 = (r, w', disk2)"
  shows "b = p \<and> (\<exists>q disk3. load_authoritative env disk2 = (Inr q, disk3) \<and> q \<in> {p, t}
      \<and> (\<forall>x. r = Inr x \<longrightarrow> x = t \<and> q = t)
      \<and> (fate_steps fate = 0 \<longrightarrow> q = p)
      \<and> (q \<noteq> p \<longrightarrow> lp_generation q = lp_generation p + 1))
    \<and> (\<forall>old target fate' w1. \<not> same_pair p old \<longrightarrow>
         fst (commit_locked env old target False brec validated fate' w1 disk1)
           = Inl (RuntimeErr ''Lite authoritative state changed before commit''))"
proof -
  obtain d where "load_authoritative env disk = (Inr p, d)" "quiet env p d"
    using represented_load [OF env history_represents [OF env h]] by blast
  then have b: "b = p" and q: "quiet env b disk1" using load by auto
  note c = commit_represents [OF env q ok run]
  let ?dec = "decided env b t verified brec validated fate w disk1"
  obtain disk3 where l: "load_authoritative env disk2 = (Inr (if ?dec then t else b), disk3)"
    using represented_load [OF env conjunct1 [OF c]] by blast
  have gen: "lp_generation t = lp_generation b + 1" if ?dec
    using that transition_parts [of b t] by (auto simp: decided_def commit_plan_def split: if_splits)
  have zero: "\<not> ?dec" if "fate_steps fate = 0" using that by (simp add: decided_def)
  have stale: "fst (commit_locked env old target False brec validated fate' w1 disk1)
      = Inl (RuntimeErr ''Lite authoritative state changed before commit'')" if "\<not> same_pair p old" for old target fate' w1
    using stale_refused [OF quiet_load [OF env q]] that b by simp
  show ?thesis using b l c gen zero stale by (auto intro!: exI [of _ "if ?dec then t else b"])
qed

subsection \<open>A refused load changes nothing\<close>

text \<open>A file recovery may replace: one of the base, in its old or its new form, or one of the target.\<close>

definition replaceable :: "lite_pair \<Rightarrow> json \<Rightarrow> json \<Rightarrow> json \<Rightarrow> pair_file \<Rightarrow> bool" where
  "replaceable b bdoc tdoc payload f =
     (f = Absent \<and> lp_transaction b = cp ''empty'' \<and> lp_generation b = 0
      \<or> (\<exists>v. f = Holds v \<and> (same_text v bdoc = Inr True \<or> same_text v tdoc = Inr True
           \<or> legacy_pair b \<and> same_text v payload = Inr True)))"

lemma check_side_sound:
  "check_side (lp_transaction b = cp ''empty'' \<and> lp_generation b = 0) (legacy_pair b) f bdoc tdoc payload = Inr () \<Longrightarrow>
     replaceable b bdoc tdoc payload f"
  by (auto simp: check_side_def replaceable_def side_matches_def foreign_def read_file_def
      split: if_splits pair_file.splits)

lemma read_target_parts:
  assumes "read_target env j = Inr (d, p, brec)"
  shows "validate_memory_payload (du_valid env) False (lp_memory p) = Inr ()" "is_list (lp_changelog p)"
    "0 \<le> lp_generation p" "lp_transaction p \<noteq> []"
  using assms unfolding read_target_def by (auto simp: Let_def split: if_splits)

lemma recover_sound:
  assumes "recover_plan env disk = Inr ops" "pd_journal disk \<noteq> Absent"
  obtains j d p brec b bm bc tm tc where "pd_journal disk = Holds j" "read_target env j = Inr (d, p, brec)"
    "storable env p" "lp_memory b = fld d ''base_memory''" "lp_changelog b = fld d ''base_changelog''"
    "envelopes env b = Inr (bm, bc)" "envelopes env p = Inr (tm, tc)" "validate_transition b p = Inr ()"
    "replaceable b bm tm (lp_memory b) (pd_memory disk)" "replaceable b bc tc (lp_changelog b) (pd_changelog disk)"
    "ops = [Put_memory tm, Put_changelog tc, Drop_journal]"
proof -
  from assms obtain j d p brec where j: "pd_journal disk = Holds j" "read_target env j = Inr (d, p, brec)"
    by (auto simp: recover_plan_def read_file_def split: pair_file.splits)
  define b where "b = \<lparr>lp_memory = fld d ''base_memory'', lp_changelog = fld d ''base_changelog'',
    lp_generation = (case obj_get brec ''generation'' of JInt g \<Rightarrow> g | _ \<Rightarrow> 0),
    lp_transaction = (case obj_get brec ''transaction_id'' of JStr t \<Rightarrow> t | _ \<Rightarrow> [])\<rparr>"
  obtain r bm bc tm tc where
    p: "pair_record env b = Inr r" "same_text r brec = Inr True" "validate_transition b p = Inr ()"
      "validate_semantics env p = Inr ()" "envelopes env b = Inr (bm, bc)" "envelopes env p = Inr (tm, tc)"
      "check_side (lp_transaction b = cp ''empty'' \<and> lp_generation b = 0) (legacy_pair b) (pd_memory disk) bm tm (lp_memory b) = Inr ()"
      "check_side (lp_transaction b = cp ''empty'' \<and> lp_generation b = 0) (legacy_pair b) (pd_changelog disk) bc tc (lp_changelog b) = Inr ()"
      "ops = [Put_memory tm, Put_changelog tc, Drop_journal]"
    using assms j unfolding recover_plan_def b_def [symmetric]
    by (auto simp: read_file_def Let_def b_def [symmetric] split: if_splits)
  have "storable env p" using read_target_parts [OF j(2)] p(4) by (simp add: storable_def)
  then show ?thesis
    using that [OF j _ _ _ p(5,6,3) check_side_sound [OF p(7)] check_side_sound [OF p(8)] p(9)]
    by (simp add: b_def)
qed

text \<open>
  C40: a load that is refused leaves the three files as they are, and a load that changes them
  completes the journal it found: the target of that journal is what it returns and what the
  files hold afterwards, and each file it replaced held the base or the target of that very
  journal, or was absent when nothing had been stored before.
\<close>

theorem refused_load_changes_nothing:
  assumes json: "du_candidate env = Inr None" and load: "load_authoritative env disk = (r, disk')"
  shows "(\<forall>e. r = Inl e \<longrightarrow> disk' = disk)
    \<and> (disk' \<noteq> disk \<longrightarrow> (\<exists>j d p brec b bm bc tm tc. pd_journal disk = Holds j
        \<and> read_target env j = Inr (d, p, brec) \<and> r = Inr p \<and> validate_transition b p = Inr ()
        \<and> envelopes env b = Inr (bm, bc) \<and> envelopes env p = Inr (tm, tc)
        \<and> lp_memory b = fld d ''base_memory'' \<and> lp_changelog b = fld d ''base_changelog''
        \<and> replaceable b bm tm (lp_memory b) (pd_memory disk)
        \<and> replaceable b bc tc (lp_changelog b) (pd_changelog disk)
        \<and> disk' = \<lparr>pd_memory = Holds tm, pd_changelog = Holds tc, pd_journal = Absent\<rparr>))"
proof (cases "recover_plan env disk")
  case (Inl e)
  then show ?thesis using json load by (auto simp: load_authoritative_def)
next
  case (Inr ops)
  then have l: "disk' = disk_run ops disk" "r = load_files env disk'"
    using json load by (auto simp: load_authoritative_def Let_def)
  show ?thesis
  proof (cases "pd_journal disk = Absent")
    case True
    then show ?thesis using Inr l by (auto simp: recover_plan_def disk_run_def)
  next
    case False
    from recover_sound [OF Inr False] obtain j d p brec b bm bc tm tc where
      *: "pd_journal disk = Holds j" "read_target env j = Inr (d, p, brec)" "storable env p"
        "lp_memory b = fld d ''base_memory''" "lp_changelog b = fld d ''base_changelog''"
        "envelopes env b = Inr (bm, bc)" "envelopes env p = Inr (tm, tc)" "validate_transition b p = Inr ()"
        "replaceable b bm tm (lp_memory b) (pd_memory disk)" "replaceable b bc tc (lp_changelog b) (pd_changelog disk)"
        "ops = [Put_memory tm, Put_changelog tc, Drop_journal]"
      by metis
    have d': "disk' = \<lparr>pd_memory = Holds tm, pd_changelog = Holds tc, pd_journal = Absent\<rparr>"
      by (simp add: l(1) *(11) disk_run_def)
    have "r = Inr p"
      using decode_written [OF *(7,3)] *(3) by (simp add: l(2) d' load_files_def read_file_def storable_def)
    then show ?thesis using * d' by (intro conjI) (blast | simp)+
  qed
qed

subsection \<open>A first commit, cut off\<close>

definition sample_store :: durable_env where
  "sample_store = \<lparr>du_valid = sample_times (sample_env JNull), du_sha = (\<lambda>_. replicate 64 48),
     du_semantic = (\<lambda>_. Inr ()), du_candidate = Inr None\<rparr>"

definition first_pair :: lite_pair where
  "first_pair = \<lparr>lp_memory = empty_memory, lp_changelog = JList [JNull], lp_generation = 1,
     lp_transaction = cp ''t1''\<rparr>"

lemma sample_store_authority: "json_authority sample_store"
  by (simp add: json_authority_def sample_store_def sha_law_def sha256_hex_text_def validate_semantics_def
      others_as_def lower_hex_def list_all_iff)

lemma empty_memory_dumpable: "dumpable empty_memory"
  by (simp add: empty_memory_def empty_sync_state_bare bare_state_def)

lemma sample_digest: "dumpable v \<Longrightarrow> digest sample_store v = Inr (replicate 64 48)"
  by (simp add: digest_def canonical_json_def sample_store_def)

lemma zeros_encodable: "\<not> list_ex surrogate (replicate n 48)"
  by (simp add: list_ex_iff surrogate_def)

lemma sample_record:
  assumes "dumpable (lp_memory p)" "dumpable (lp_changelog p)" "\<not> list_ex surrogate (lp_transaction p)"
  shows "\<exists>r. record_with sample_store p (replicate 64 48) (replicate 64 48) = Inr r \<and> dumpable r"
  using assms zeros_encodable
  by (simp add: record_with_def sample_digest to_obj_def PAIR_FIELDS_def RECORD_FIELDS_def)

lemma sample_plan: "\<exists>ops trec. commit_plan sample_store empty_pair first_pair True None False = Inr (ops, trec)"
proof -
  have d: "dumpable (lp_memory empty_pair)" "dumpable (lp_changelog empty_pair)"
    "dumpable (lp_memory first_pair)" "dumpable (lp_changelog first_pair)"
    "\<not> list_ex surrogate (lp_transaction empty_pair)" "\<not> list_ex surrogate (lp_transaction first_pair)"
    using empty_memory_dumpable by (simp_all add: empty_pair_def first_pair_def)
  obtain r0 where r0: "record_with sample_store empty_pair (replicate 64 48) (replicate 64 48) = Inr r0" "dumpable r0"
    using sample_record d(1,2,5) by blast
  obtain r1 where r1: "record_with sample_store first_pair (replicate 64 48) (replicate 64 48) = Inr r1" "dumpable r1"
    using sample_record d(3,4,6) by blast
  have p0: "pair_record sample_store empty_pair = Inr r0"
    using r0(1) d(1,2) by (simp add: pair_record_def sample_digest)
  have j: "dumpable (journal_of empty_pair r0 first_pair r1)"
    using d r0(2) r1(2) by (simp add: journal_of_def to_obj_def JOURNAL_FIELDS_def TARGET_FIELDS_def)
  have v: "validate_transition empty_pair first_pair = Inr ()" "validate_semantics sample_store first_pair = Inr ()"
    "lp_memory empty_pair = empty_memory" "lp_memory first_pair = empty_memory"
    by (simp_all add: validate_transition_def empty_pair_def first_pair_def is_dict_def empty_memory_def is_list_def
        need_generation_def need_transaction_def cp_inj validate_semantics_def others_as_def sample_store_def)
  show ?thesis
    using d v p0 r1(1) j by (simp add: commit_plan_def empty_payload sample_digest envelopes_with_def canonical_json_def)
qed

lemma sample_commit:
  obtains r w disk where
    "with_writer_lock (commit_locked sample_store empty_pair first_pair True None False (Stops_after 2)) fresh_writer
       blank_disk = (r, w, disk)"
    "decided sample_store empty_pair first_pair True None False (Stops_after 2) fresh_writer blank_disk"
  using sample_plan
  by (auto simp: with_writer_lock_def commit_locked_def fresh_writer_def reload_base_def decided_def fate_steps_def)

lemma blank_load: "load_authoritative sample_store blank_disk = (Inr empty_pair, blank_disk)"
  by (simp add: load_authoritative_def sample_store_def recover_plan_def blank_disk_def disk_run_def load_files_def)

lemma sample_contract: "commit_contract sample_store empty_pair first_pair None False"
  by (simp add: commit_contract_def)

theorem files_refine_register_witness:
  "\<exists>w disk. durable_history sample_store first_pair w disk \<and> fst (load_authoritative sample_store disk) = Inr first_pair"
proof -
  obtain r w disk where
    run: "with_writer_lock (commit_locked sample_store empty_pair first_pair True None False (Stops_after 2)) fresh_writer
       blank_disk = (r, w, disk)"
    and dec: "decided sample_store empty_pair first_pair True None False (Stops_after 2) fresh_writer blank_disk"
    by (rule sample_commit)
  have "durable_history sample_store first_pair w disk"
    using durable_history.committed [OF durable_history.created blank_load sample_contract run] dec by simp
  moreover from files_refine_register [OF sample_store_authority this]
  have "fst (load_authoritative sample_store disk) = Inr first_pair" by auto
  ultimately show ?thesis by blast
qed

theorem commit_is_atomic_witness:
  "\<exists>r w disk q disk3. with_writer_lock (commit_locked sample_store empty_pair first_pair True None False (Stops_after 2))
       fresh_writer blank_disk = (r, w, disk)
     \<and> load_authoritative sample_store disk = (Inr q, disk3) \<and> q \<in> {empty_pair, first_pair}"
proof -
  obtain r w disk where
    run: "with_writer_lock (commit_locked sample_store empty_pair first_pair True None False (Stops_after 2)) fresh_writer
       blank_disk = (r, w, disk)"
    by (rule sample_commit)
  from commit_is_atomic [OF sample_store_authority durable_history.created blank_load sample_contract run]
  show ?thesis using run by blast
qed

theorem refused_load_changes_nothing_witness:
  "\<exists>e. load_authoritative sample_store \<lparr>pd_memory = Holds JNull, pd_changelog = Absent, pd_journal = Garbled\<rparr>
     = (Inl e, \<lparr>pd_memory = Holds JNull, pd_changelog = Absent, pd_journal = Garbled\<rparr>)"
proof -
  let ?d = "\<lparr>pd_memory = Holds JNull, pd_changelog = Absent, pd_journal = Garbled\<rparr>"
  obtain e d' where l: "load_authoritative sample_store ?d = (Inl e, d')"
    by (simp add: load_authoritative_def sample_store_def recover_plan_def read_file_def bad_def)
  have "du_candidate sample_store = Inr None" by (simp add: sample_store_def)
  from refused_load_changes_nothing [OF this l] l show ?thesis by blast
qed

text \<open>
  Recovery looks at the two JSON files only.  A commit whose base was vouched for by somebody
  else (the SQLite authority commits while the JSON pair stays behind) can leave a journal
  that no later recovery accepts.
\<close>

lemma unrelated_pair_blocks_recovery:
  assumes c: "case_ok env c" and sha: "sha_law env" and j: "pd_journal disk = Holds (case_journal c)"
    and held: "pd_memory disk = Holds v" "\<not> legacy_pair (cc_base c)"
    and other: "same_text v (fst (cc_bdocs c)) = Inr False" "same_text v (fst (cc_tdocs c)) = Inr False"
  shows "recover_plan env disk \<noteq> Inr ops"
proof
  assume ok: "recover_plan env disk = Inr ops"
  obtain d where t: "read_target env (case_journal c) = Inr (d, cc_target c, cc_brec c)"
    "fld d ''base_memory'' = lp_memory (cc_base c)" "fld d ''base_changelog'' = lp_changelog (cc_base c)"
    using read_target_journal [OF c sha] by metis
  obtain md cd b where "cc_brec c = to_obj RECORD_FIELDS
      [JInt (lp_generation (cc_base c)), JStr (lp_transaction (cc_base c)), JStr md, JStr cd, JStr (du_sha env b)]"
    using c record_with_fields by (auto simp: pair_record_def case_ok_def) blast
  then have gets: "obj_get (cc_brec c) ''generation'' = JInt (lp_generation (cc_base c))"
    "obj_get (cc_brec c) ''transaction_id'' = JStr (lp_transaction (cc_base c))"
    by (simp_all add: obj_get_def to_obj_def RECORD_FIELDS_def)
  have refused: "check_side i False (Holds v) (fst (cc_bdocs c)) (fst (cc_tdocs c)) payload \<noteq> Inr ()" for i payload
    using other by (simp add: check_side_def read_file_def side_matches_def foreign_def del: bindR_Inr_iff)
  obtain bm bc tm tc where docs: "cc_bdocs c = (bm, bc)" "cc_tdocs c = (tm, tc)" by (metis prod.exhaust)
  show False
    using ok c t gets j held refused docs
    by (auto simp: recover_plan_def read_file_def case_ok_def Let_def split: if_splits)
qed

end
