(* ===== verification/Sync_Crypto.thy ===== *)
theory Sync_Crypto
  imports Sync_Protocol
begin

section \<open>Shared-key encryption of the sync transport\<close>

text \<open>
  \<open>src/memplex/sync_crypto.py\<close>: key material from the environment, key ids, the ring of a
  current and a previous key with its process-wide cache, envelopes over raw bytes and over
  JSON payloads.  AES-256-GCM and SHA-256 are parameters; an AEAD object is its key.  The
  nonce of \<open>os.urandom\<close> is an argument.  \<open>SyncCryptoError\<close>, the only class
  the routes turn into a refusal, is \<open>CryptoErr\<close>; what \<open>json.loads\<close> raises besides
  \<open>JSONDecodeError\<close> passes through.
\<close>

subsection \<open>Base64 as the standard library reads and writes it\<close>

definition urlsafe_b64encode :: "bytes \<Rightarrow> ustring" where
  "urlsafe_b64encode bs = b64url_encode bs @ replicate ((3 - length bs mod 3) mod 3) 61"

definition b64_any :: "nat \<Rightarrow> nat option" where
  "b64_any c = (if c = 43 then Some 62 else if c = 47 then Some 63 else b64_value c)"

text \<open>
  The lenient scan: characters outside the alphabet are skipped, a full padding ends the
  text.  The arguments are the position in the quad, the bits left over and the run of
  padding characters.
\<close>

fun a2b_base64 :: "nat \<Rightarrow> nat \<Rightarrow> nat \<Rightarrow> ustring \<Rightarrow> bytes option" where
  "a2b_base64 quad left pads [] = (if quad = 0 then Some [] else None)"
| "a2b_base64 quad left pads (c # s) =
     (if c = 61 then
        (if 2 \<le> quad \<and> 4 \<le> quad + (pads + 1) then Some []
         else a2b_base64 quad left (if 2 \<le> quad then pads + 1 else pads) s)
      else case b64_any c of
        None \<Rightarrow> a2b_base64 quad left pads s
      | Some v \<Rightarrow>
          if quad = 0 then a2b_base64 1 v 0 s
          else if quad = 1 then map_option ((#) (left * 4 + v div 16)) (a2b_base64 2 (v mod 16) 0 s)
          else if quad = 2 then map_option ((#) (left * 16 + v div 4)) (a2b_base64 3 (v mod 4) 0 s)
          else map_option ((#) (left * 64 + v)) (a2b_base64 0 0 0 s))"

text \<open>\<open>text.encode("ascii")\<close> first; both failures are a \<open>ValueError\<close>.\<close>

definition urlsafe_b64decode :: "ustring \<Rightarrow> bytes option" where
  "urlsafe_b64decode s = (if list_ex (\<lambda>c. 128 \<le> c) s then None else a2b_base64 0 0 0 s)"

lemma b64_char_any [simp]: "n < 64 \<Longrightarrow> b64_any (b64_char n) = Some n \<and> b64_char n \<noteq> 61"
  by (auto simp: b64_any_def b64_value_def b64_char_def)

lemma a2b_char [simp]:
  "n < 64 \<Longrightarrow> a2b_base64 quad left pads (b64_char n # s) =
     (if quad = 0 then a2b_base64 1 n 0 s
      else if quad = 1 then map_option ((#) (left * 4 + n div 16)) (a2b_base64 2 (n mod 16) 0 s)
      else if quad = 2 then map_option ((#) (left * 16 + n div 4)) (a2b_base64 3 (n mod 4) 0 s)
      else map_option ((#) (left * 64 + n)) (a2b_base64 0 0 0 s))"
  by simp

lemma a2b_encoded:
  "is_bytes bs \<Longrightarrow> a2b_base64 0 0 0 (b64url_encode bs @ replicate ((3 - length bs mod 3) mod 3) 61) = Some bs"
proof (induction bs rule: b64url_encode.induct)
  case (4 a b c r)
  have "a div 4 < 64" "a mod 4 * 16 + b div 16 < 64" "b mod 16 * 4 + c div 64 < 64" "c mod 64 < 64"
    "(a mod 4 * 16 + b div 16) div 16 = a mod 4" "(a mod 4 * 16 + b div 16) mod 16 = b div 16"
    "(b mod 16 * 4 + c div 64) div 4 = b mod 16" "(b mod 16 * 4 + c div 64) mod 4 = c div 64"
    using 4 by auto
  moreover have "a div 4 * 4 + a mod 4 = a" "b div 16 * 16 + b mod 16 = b" "c div 64 * 64 + c mod 64 = c"
    by auto
  moreover have "length (a # b # c # r) mod 3 = length r mod 3" by simp
  ultimately show ?case using 4 by (simp del: a2b_base64.simps(2))
next
  case (2 a)
  have "a div 4 < 64" "a mod 4 * 16 < 64" using 2 by auto
  then show ?case using 2 by (simp add: numeral_2_eq_2)
next
  case (3 a b)
  have "a div 4 < 64" "a mod 4 * 16 + b div 16 < 64" "b mod 16 * 4 < 64"
    "(a mod 4 * 16 + b div 16) div 16 = a mod 4" "(a mod 4 * 16 + b div 16) mod 16 = b div 16"
    using 3 by auto
  then show ?case using 3 by simp
qed simp

lemma a2b_roundtrip: "is_bytes bs \<Longrightarrow> urlsafe_b64decode (urlsafe_b64encode bs) = Some bs"
  using b64_text_scalar [OF b64url_encode_text, of bs] a2b_encoded [of bs]
  by (auto simp: urlsafe_b64decode_def urlsafe_b64encode_def list_ex_iff not_le)

lemma b64_encode_plain: "is_bytes bs \<Longrightarrow> list_all (\<lambda>c. c < 128 \<and> valid_point c \<and> json_char c = [c]) (urlsafe_b64encode bs)"
proof -
  have "b64_char n < 128 \<and> valid_point (b64_char n) \<and> json_char (b64_char n) = [b64_char n]" if "n < 64" for n
    using that by (auto simp: b64_char_def valid_point_def surrogate_def json_char_def)
  moreover have "valid_point 61 \<and> json_char 61 = [61]" by (simp add: valid_point_def surrogate_def json_char_def)
  ultimately show "is_bytes bs \<Longrightarrow> ?thesis"
    using b64url_encode_text [of bs]
    by (auto simp: urlsafe_b64encode_def b64_text_def list_all_iff)
qed

subsection \<open>Keys\<close>

record crypto_env =
  ce_sha :: "bytes \<Rightarrow> bytes"
  ce_seal :: "bytes \<Rightarrow> bytes \<Rightarrow> bytes \<Rightarrow> bytes"
  ce_open :: "bytes \<Rightarrow> bytes \<Rightarrow> bytes \<Rightarrow> bytes option"
  ce_installed :: bool

text \<open>The two environment variables, as \<open>os.environ.get\<close> returns them.\<close>

record crypto_config =
  cy_key :: "ustring option"
  cy_previous :: "ustring option"

definition ENV_KEY :: string where "ENV_KEY = ''MEMPLEX_SYNC_ENCRYPTION_KEY''"

definition ENV_KEY_PREVIOUS :: string where "ENV_KEY_PREVIOUS = ''MEMPLEX_SYNC_ENCRYPTION_KEY_PREVIOUS''"

definition decode_env_key :: "ustring \<Rightarrow> string \<Rightarrow> bytes result" where
  "decode_env_key encoded env_name = (case urlsafe_b64decode encoded of
       None \<Rightarrow> Inl (CryptoErr (env_name @ '' is not valid urlsafe base64''))
     | Some raw \<Rightarrow> if length raw \<noteq> 32 then
           Inl (CryptoErr (env_name @ '' must decode to exactly 32 bytes (AES-256)''))
         else Inr raw)"

text \<open>The unpadded text is the padded one with its trailing \<open>=\<close> stripped.\<close>

definition derive_kid :: "crypto_env \<Rightarrow> bytes \<Rightarrow> ustring" where
  "derive_kid env raw = b64url_encode (take 8 (ce_sha env (cp ''memplex-sync-kid-v1:'' @ raw)))"

definition aesgcm :: "crypto_env \<Rightarrow> bytes \<Rightarrow> bytes result" where
  "aesgcm env key = (if ce_installed env then Inr key
     else Inl (CryptoErr ''the cryptography package is not installed''))"

text \<open>The order of \<open>kr_by_kid\<close> is the order in which an envelope without a key id is tried.\<close>

record key_ring =
  kr_current :: bytes
  kr_kid :: ustring
  kr_by_kid :: "(ustring, bytes) dict"

definition make_ring :: "crypto_env \<Rightarrow> bytes \<Rightarrow> bytes option \<Rightarrow> key_ring result" where
  "make_ring env current previous =
     bindR (aesgcm env current) (\<lambda>aead.
     let kid = derive_kid env current in
     bindR (case previous of
         None \<Rightarrow> Inr [(kid, aead)]
       | Some p \<Rightarrow> bindR (aesgcm env p) (\<lambda>old.
           Inr (if has_key [(kid, aead)] (derive_kid env p) then [(kid, aead)]
                else [(kid, aead), (derive_kid env p, old)]))) (\<lambda>by_kid.
       Inr \<lparr>kr_current = aead, kr_kid = kid, kr_by_kid = by_kid\<rparr>))"

definition build_ring :: "crypto_env \<Rightarrow> ustring \<Rightarrow> ustring option \<Rightarrow> key_ring result" where
  "build_ring env current previous =
     bindR (decode_env_key current ENV_KEY) (\<lambda>key.
     bindR (case previous of
         None \<Rightarrow> Inr None
       | Some p \<Rightarrow> if p = [] then Inr None
           else bindR (decode_env_key p ENV_KEY_PREVIOUS) (\<lambda>k. Inr (Some k))) (\<lambda>old.
       make_ring env key old))"

type_synonym ring_cache = "(ustring \<times> ustring option, key_ring) dict"

definition RING_CACHE_MAX :: nat where "RING_CACHE_MAX = 8"

definition is_enabled :: "crypto_config \<Rightarrow> bool" where
  "is_enabled cfg = (case cy_key cfg of None \<Rightarrow> False | Some s \<Rightarrow> s \<noteq> [])"

definition get_ring :: "crypto_env \<Rightarrow> crypto_config \<Rightarrow> ring_cache \<Rightarrow> key_ring option result \<times> ring_cache" where
  "get_ring env cfg cache =
     (if \<not> is_enabled cfg then (Inr None, cache)
      else let current = the (cy_key cfg); slot = (current, cy_previous cfg) in
        case dict_get cache slot of
          Some ring \<Rightarrow> (Inr (Some ring), cache)
        | None \<Rightarrow>
           (case build_ring env current (cy_previous cfg) of
              Inl e \<Rightarrow> (Inl e, cache)
            | Inr ring \<Rightarrow>
                (Inr (Some ring),
                 dict_set slot ring (if RING_CACHE_MAX \<le> length cache then [] else cache))))"

text \<open>The ring a configuration stands for, without the cache.\<close>

definition fresh_ring :: "crypto_env \<Rightarrow> crypto_config \<Rightarrow> key_ring option result" where
  "fresh_ring env cfg = (if is_enabled cfg
     then bindR (build_ring env (the (cy_key cfg)) (cy_previous cfg)) (\<lambda>ring. Inr (Some ring))
     else Inr None)"

definition cache_coherent :: "crypto_env \<Rightarrow> ring_cache \<Rightarrow> bool" where
  "cache_coherent env cache = (length cache \<le> RING_CACHE_MAX \<and>
     list_all (\<lambda>((current, previous), ring). build_ring env current previous = Inr ring) cache)"

lemma cache_starts_coherent: "cache_coherent env []"
  by (simp add: cache_coherent_def)

lemma length_update_le: "length (AList.update k v xs) \<le> Suc (length xs)"
  by (induction xs) auto

lemma update_all: "P (k, v) \<Longrightarrow> list_all P xs \<Longrightarrow> list_all P (AList.update k v xs)"
  by (induction xs) auto

lemma get_ring_fresh:
  assumes "cache_coherent env cache"
  shows "fst (get_ring env cfg cache) = fresh_ring env cfg" "cache_coherent env (snd (get_ring env cfg cache))"
proof -
  have hit: "build_ring env c p = Inr ring" if "dict_get cache (c, p) = Some ring" for c p ring
    using assms map_of_SomeD [OF that] by (auto simp: cache_coherent_def list_all_iff)
  show "fst (get_ring env cfg cache) = fresh_ring env cfg"
    by (auto simp: get_ring_def fresh_ring_def Let_def hit split: option.splits sum.splits)
  have "cache_coherent env (AList.update (c, p) ring (if RING_CACHE_MAX \<le> length cache then [] else cache))"
    if "build_ring env c p = Inr ring" for c p ring
    using assms that length_update_le [of "(c, p)" ring cache]
    by (auto simp: cache_coherent_def RING_CACHE_MAX_def intro!: update_all)
  then show "cache_coherent env (snd (get_ring env cfg cache))"
    using assms by (auto simp: get_ring_def Let_def split: option.splits sum.splits)
qed

subsection \<open>Envelopes\<close>

text \<open>
  \<open>json.dumps\<close> with compact separators: entries in insertion order, the three non-finite
  floats by their names.
\<close>

definition dumps_float :: "py_float \<Rightarrow> string" where
  "dumps_float f = (if float_finite f then float_repr f
     else if float_repr f = ''nan'' then ''NaN''
     else if float_repr f = ''inf'' then ''Infinity'' else ''-Infinity'')"

fun json_dumps :: "json \<Rightarrow> ustring" where
  "json_dumps JNull = cp ''null''"
| "json_dumps (JBool b) = (if b then cp ''true'' else cp ''false'')"
| "json_dumps (JInt n) = cp (show_int n)"
| "json_dumps (JFloat f) = cp (dumps_float f)"
| "json_dumps (JStr s) = json_string s"
| "json_dumps (JList xs) = [91] @ py_join [44] (map json_dumps xs) @ [93]"
| "json_dumps (JObj kvs) =
     [123] @ py_join [44] (map (\<lambda>(k, v). json_string k @ [58] @ json_dumps v) kvs) @ [125]"

definition ENVELOPE_MARKER :: string where "ENVELOPE_MARKER = ''memplex_encrypted''"

definition sealed_envelope :: "ustring \<Rightarrow> bytes \<Rightarrow> bytes \<Rightarrow> json" where
  "sealed_envelope kid nonce ciphertext = JObj
     [(cp ENVELOPE_MARKER, JInt 1), (cp ''v'', JInt 1), (cp ''kid'', JStr kid),
      (cp ''n'', JStr (urlsafe_b64encode nonce)), (cp ''c'', JStr (urlsafe_b64encode ciphertext))]"

definition seal_with :: "crypto_env \<Rightarrow> key_ring \<Rightarrow> bytes \<Rightarrow> bytes \<Rightarrow> json" where
  "seal_with env ring nonce plaintext =
     sealed_envelope (kr_kid ring) nonce (ce_seal env (kr_current ring) nonce plaintext)"

text \<open>Python's \<open>==\<close> with the integer 1: \<open>True\<close> and \<open>1.0\<close> are equal to it.\<close>

definition equals_one :: "json \<Rightarrow> bool" where
  "equals_one j = (case j of JInt n \<Rightarrow> n = 1 | JBool b \<Rightarrow> b
     | JFloat f \<Rightarrow> float_finite f \<and> float_repr f = ''1.0'' | _ \<Rightarrow> False)"

definition field_of :: "json \<Rightarrow> string \<Rightarrow> json option" where
  "field_of j k = (case j of JObj d \<Rightarrow> dict_get d (cp k) | _ \<Rightarrow> None)"

definition text_field :: "json \<Rightarrow> string \<Rightarrow> ustring option" where
  "text_field j k = (case field_of j k of Some (JStr s) \<Rightarrow> Some s | _ \<Rightarrow> None)"

definition is_encrypted_envelope :: "json \<Rightarrow> bool" where
  "is_encrypted_envelope j = ((case field_of j ENVELOPE_MARKER of None \<Rightarrow> False | Some m \<Rightarrow> equals_one m)
     \<and> text_field j ''n'' \<noteq> None \<and> text_field j ''c'' \<noteq> None)"

text \<open>Called on envelopes only, whose \<open>n\<close> and \<open>c\<close> are strings.\<close>

definition decode_envelope_fields :: "json \<Rightarrow> string \<Rightarrow> (bytes \<times> bytes) result" where
  "decode_envelope_fields j what =
     (case (urlsafe_b64decode (the (text_field j ''n'')), urlsafe_b64decode (the (text_field j ''c''))) of
        (Some nonce, Some ciphertext) \<Rightarrow>
          if length nonce \<noteq> 12 then Inl (CryptoErr (what @ '' has invalid nonce length''))
          else Inr (nonce, ciphertext)
      | _ \<Rightarrow> Inl (CryptoErr (what @ '' has invalid encoding'')))"

definition not_authentic :: "'a result" where
  "not_authentic = Inl (CryptoErr ''encrypted sync envelope failed authentication'')"

definition candidate_keys :: "key_ring \<Rightarrow> json \<Rightarrow> bytes list result" where
  "candidate_keys ring j = (case field_of j ''kid'' of
       None \<Rightarrow> Inr (map snd (kr_by_kid ring))
     | Some JNull \<Rightarrow> Inr (map snd (kr_by_kid ring))
     | Some (JStr kid) \<Rightarrow>
        (case dict_get (kr_by_kid ring) kid of Some key \<Rightarrow> Inr [key] | None \<Rightarrow> not_authentic)
     | Some _ \<Rightarrow> not_authentic)"

fun first_open :: "crypto_env \<Rightarrow> bytes list \<Rightarrow> bytes \<Rightarrow> bytes \<Rightarrow> bytes result" where
  "first_open env [] nonce ciphertext = not_authentic"
| "first_open env (key # keys) nonce ciphertext = (case ce_open env key nonce ciphertext of
       Some plaintext \<Rightarrow> Inr plaintext | None \<Rightarrow> first_open env keys nonce ciphertext)"

definition open_envelope :: "crypto_env \<Rightarrow> key_ring \<Rightarrow> json \<Rightarrow> bytes \<Rightarrow> bytes \<Rightarrow> bytes result" where
  "open_envelope env ring j nonce ciphertext =
     bindR (candidate_keys ring j) (\<lambda>keys. first_open env keys nonce ciphertext)"

subsection \<open>Raw request bodies\<close>

definition encrypt_bytes ::
    "crypto_env \<Rightarrow> crypto_config \<Rightarrow> bytes \<Rightarrow> bytes \<Rightarrow> ring_cache \<Rightarrow> bytes result \<times> ring_cache" where
  "encrypt_bytes env cfg nonce raw cache =
     (let (found, cache) = get_ring env cfg cache in
      (bindR found (\<lambda>ring. Inr (case ring of
          None \<Rightarrow> raw | Some ring \<Rightarrow> utf8 (json_dumps (seal_with env ring nonce raw)))), cache))"

definition looks_encrypted :: "bytes \<Rightarrow> bool" where
  "looks_encrypted raw = prefix (utf8 (cp (''{'' @ [CHR 0x22] @ ENVELOPE_MARKER)))
     (dropWhile (\<lambda>b. b \<in> {32, 9, 13, 10}) (take 64 raw))"

text \<open>Everything after the ring is found; the two entry points name the thing differently.\<close>

definition open_with :: "crypto_env \<Rightarrow> json \<Rightarrow> key_ring option \<Rightarrow> bytes result" where
  "open_with env j ring = (case ring of
       None \<Rightarrow> Inl (CryptoErr ''encrypted payload received but no key is configured'')
     | Some ring \<Rightarrow> bindR (decode_envelope_fields j ''encrypted sync envelope'') (\<lambda>(nonce, ciphertext).
         open_envelope env ring j nonce ciphertext))"

definition decrypt_bytes ::
    "crypto_env \<Rightarrow> wire_env \<Rightarrow> crypto_config \<Rightarrow> bytes \<Rightarrow> ring_cache \<Rightarrow> bytes result \<times> ring_cache" where
  "decrypt_bytes env wire cfg raw cache =
     (case load_utf8 wire (CryptoErr ''request body is not a JSON envelope'') raw of
        Inl e \<Rightarrow> (Inl e, cache)
      | Inr j \<Rightarrow>
          if \<not> is_encrypted_envelope j then
            (Inl (CryptoErr ''request body is not an encrypted sync envelope''), cache)
          else let (found, cache) = get_ring env cfg cache in
            (bindR found (open_with env j), cache))"

subsection \<open>JSON payloads\<close>

text \<open>A lone surrogate cannot be encoded.\<close>

definition encodable :: "ustring \<Rightarrow> bool" where
  "encodable s = (\<not> list_ex surrogate s)"

definition encrypt_json_payload ::
    "crypto_env \<Rightarrow> crypto_config \<Rightarrow> bytes \<Rightarrow> json \<Rightarrow> ring_cache \<Rightarrow> json result \<times> ring_cache" where
  "encrypt_json_payload env cfg nonce payload cache =
     (let (found, cache) = get_ring env cfg cache in
      (bindR found (\<lambda>ring. case ring of
          None \<Rightarrow> Inr payload
        | Some ring \<Rightarrow> if encodable (json_dumps payload)
            then Inr (seal_with env ring nonce (utf8 (json_dumps payload)))
            else Inl (ValueErr ''surrogates not allowed'')), cache))"

definition read_object :: "wire_env \<Rightarrow> bytes \<Rightarrow> json result" where
  "read_object wire plaintext = (case load_utf8 wire (CryptoErr ''encrypted sync envelope decrypted to invalid JSON'') plaintext of
       Inl e \<Rightarrow> Inl e
     | Inr (JObj d) \<Rightarrow> Inr (JObj d)
     | Inr _ \<Rightarrow> Inl (CryptoErr ''encrypted sync envelope payload must be an object''))"

definition decrypt_json_payload ::
    "crypto_env \<Rightarrow> wire_env \<Rightarrow> crypto_config \<Rightarrow> json \<Rightarrow> ring_cache \<Rightarrow> json result \<times> ring_cache" where
  "decrypt_json_payload env wire cfg j cache =
     (if \<not> is_encrypted_envelope j then (Inl (CryptoErr ''not an encrypted sync envelope''), cache)
      else let (found, cache) = get_ring env cfg cache in
        (bindR found (\<lambda>ring. bindR (open_with env j ring) (read_object wire)), cache))"

subsection \<open>The text of an envelope\<close>

definition plain_text :: "ustring \<Rightarrow> bool" where
  "plain_text s = list_all (\<lambda>c. c < 128 \<and> valid_point c \<and> json_char c = [c]) s"

lemma json_string_plain: "plain_text s \<Longrightarrow> json_string s = 34 # s @ [34]"
proof -
  have "plain_text s \<Longrightarrow> concat (map json_char s) = s" by (induction s) (auto simp: plain_text_def)
  then show "plain_text s \<Longrightarrow> ?thesis" by (simp add: json_string_def)
qed

lemma utf8_ascii: "list_all (\<lambda>c. c < 128) s \<Longrightarrow> utf8 s = s"
  by (induction s) (auto simp: utf8_def utf8_char_def)

abbreviation ascii_text :: "ustring \<Rightarrow> bool" where
  "ascii_text s \<equiv> list_all (\<lambda>c. c < 128 \<and> valid_point c) s"

lemma plain_ascii: "plain_text s \<Longrightarrow> ascii_text s"
  by (auto simp: plain_text_def list_all_iff)

lemma ascii_read_back:
  assumes "ascii_text s"
  shows "utf8 s = s" "json_loads wire s = Inr v \<Longrightarrow> load_utf8 wire err (utf8 s) = Inr v"
proof -
  have "valid_text s" and small: "list_all (\<lambda>c. c < 128) s" using assms by (auto simp: list_all_iff)
  then have "utf8_decode (utf8 s) = Some s" by (simp only: valid_text_iff utf8_roundtrip)
  then show "utf8 s = s" "json_loads wire s = Inr v \<Longrightarrow> load_utf8 wire err (utf8 s) = Inr v"
    using utf8_ascii [OF small] by (auto simp: load_utf8_def)
qed

lemma sealed_text:
  assumes "plain_text kid" "is_bytes nonce" "is_bytes ciphertext"
  shows "ascii_text (json_dumps (sealed_envelope kid nonce ciphertext))"
    and "\<exists>rest. json_dumps (sealed_envelope kid nonce ciphertext) = cp (''{'' @ [CHR 0x22] @ ENVELOPE_MARKER) @ rest"
proof -
  have b: "plain_text (urlsafe_b64encode bs)" if "is_bytes bs" for bs
    using b64_encode_plain [OF that] by (simp add: plain_text_def)
  have names: "plain_text (cp ENVELOPE_MARKER)" "plain_text (cp ''v'')" "plain_text (cp ''kid'')"
    "plain_text (cp ''n'')" "plain_text (cp ''c'')"
    by (simp_all add: plain_text_def cp_def ENVELOPE_MARKER_def valid_point_def surrogate_def json_char_def)
  have spelled: "json_dumps (sealed_envelope kid nonce ciphertext) =
    [123] @ ([34] @ cp ENVELOPE_MARKER @ [34, 58, 49, 44, 34] @ cp ''v'' @ [34, 58, 49, 44, 34] @ cp ''kid''
      @ [34, 58, 34] @ kid @ [34, 44, 34] @ cp ''n'' @ [34, 58, 34] @ urlsafe_b64encode nonce
      @ [34, 44, 34] @ cp ''c'' @ [34, 58, 34] @ urlsafe_b64encode ciphertext @ [34]) @ [125]"
    using names assms(1) b [OF assms(2)] b [OF assms(3)]
    by (simp add: sealed_envelope_def json_string_plain show_int_def show_nat.simps cp_def)
  show "ascii_text (json_dumps (sealed_envelope kid nonce ciphertext))"
    using names [THEN plain_ascii] assms(1) [THEN plain_ascii] b [OF assms(2), THEN plain_ascii]
      b [OF assms(3), THEN plain_ascii]
    by (simp add: spelled valid_point_def surrogate_def)
  show "\<exists>rest. json_dumps (sealed_envelope kid nonce ciphertext) = cp (''{'' @ [CHR 0x22] @ ENVELOPE_MARKER) @ rest"
    by (simp add: spelled cp_def)
qed

lemma prefix_looks_encrypted: "looks_encrypted (cp (''{'' @ [CHR 0x22] @ ENVELOPE_MARKER) @ rest)"
proof -
  have "utf8 (cp (''{'' @ [CHR 0x22] @ ENVELOPE_MARKER)) = cp (''{'' @ [CHR 0x22] @ ENVELOPE_MARKER)"
    by (rule utf8_ascii) (simp add: cp_def ENVELOPE_MARKER_def)
  then show ?thesis by (simp add: looks_encrypted_def cp_def ENVELOPE_MARKER_def)
qed

lemma sealed_is_envelope: "is_encrypted_envelope (sealed_envelope kid nonce ciphertext)"
  by (simp add: is_encrypted_envelope_def sealed_envelope_def field_of_def text_field_def equals_one_def
      cp_def ENVELOPE_MARKER_def)

lemma sealed_fields:
  "is_bytes nonce \<Longrightarrow> length nonce = 12 \<Longrightarrow> is_bytes ciphertext \<Longrightarrow>
   decode_envelope_fields (sealed_envelope kid nonce ciphertext) what = Inr (nonce, ciphertext)"
  by (simp add: decode_envelope_fields_def sealed_envelope_def field_of_def text_field_def
      cp_def ENVELOPE_MARKER_def a2b_roundtrip)

lemma sealed_kid: "field_of (sealed_envelope kid nonce ciphertext) ''kid'' = Some (JStr kid)"
  by (simp add: sealed_envelope_def field_of_def cp_def ENVELOPE_MARKER_def)

lemma kid_plain: "is_bytes (ce_sha env (cp ''memplex-sync-kid-v1:'' @ raw)) \<Longrightarrow> plain_text (derive_kid env raw)"
proof -
  assume "is_bytes (ce_sha env (cp ''memplex-sync-kid-v1:'' @ raw))"
  then have "is_bytes (take 8 (ce_sha env (cp ''memplex-sync-kid-v1:'' @ raw)))"
    by (auto simp: is_bytes_def dest: in_set_takeD)
  from b64_encode_plain [OF this] show ?thesis
    by (simp add: plain_text_def derive_kid_def urlsafe_b64encode_def)
qed

subsection \<open>What the ring holds\<close>

text \<open>A key the configuration names, as its current or as its previous key.\<close>

definition configured_key :: "crypto_config \<Rightarrow> bytes \<Rightarrow> bool" where
  "configured_key cfg key = (length key = 32 \<and>
     (\<exists>s. s \<noteq> [] \<and> urlsafe_b64decode s = Some key \<and> (cy_key cfg = Some s \<or> cy_previous cfg = Some s)))"

lemma decode_env_key_ok [simp]:
  "decode_env_key s name = Inr key \<longleftrightarrow> urlsafe_b64decode s = Some key \<and> length key = 32"
  by (auto simp: decode_env_key_def split: option.splits)

definition ring_entries :: "crypto_env \<Rightarrow> bytes \<Rightarrow> bytes option \<Rightarrow> (ustring, bytes) dict" where
  "ring_entries env key old = (derive_kid env key, key) #
     (case old of None \<Rightarrow> [] | Some k \<Rightarrow> if derive_kid env k = derive_kid env key then [] else [(derive_kid env k, k)])"

lemma make_ring_ok: "make_ring env key old = Inr ring \<longleftrightarrow> ce_installed env \<and>
    ring = \<lparr>kr_current = key, kr_kid = derive_kid env key, kr_by_kid = ring_entries env key old\<rparr>"
  by (cases old) (auto simp: make_ring_def aesgcm_def has_key_def ring_entries_def Let_def)

lemma fresh_ring_cases:
  assumes "fresh_ring env cfg = Inr (Some ring)"
  obtains s old where "cy_key cfg = Some s" "s \<noteq> []" "urlsafe_b64decode s = Some (kr_current ring)"
    "length (kr_current ring) = 32" "kr_kid ring = derive_kid env (kr_current ring)"
    "kr_by_kid ring = ring_entries env (kr_current ring) old"
    "(old = None \<and> cy_previous cfg \<in> {None, Some []}) \<or>
     (\<exists>p k. p \<noteq> [] \<and> cy_previous cfg = Some p \<and> urlsafe_b64decode p = Some k \<and> length k = 32 \<and> old = Some k)"
proof -
  obtain s where s: "cy_key cfg = Some s" "s \<noteq> []" and built: "build_ring env s (cy_previous cfg) = Inr ring"
    using assms by (auto simp: fresh_ring_def is_enabled_def split: if_splits option.splits)
  obtain key old where key: "urlsafe_b64decode s = Some key" "length key = 32"
    and old: "(case cy_previous cfg of None \<Rightarrow> Inr None
       | Some p \<Rightarrow> if p = [] then Inr None
           else bindR (decode_env_key p ENV_KEY_PREVIOUS) (\<lambda>k. Inr (Some k))) = Inr old"
    and ring: "make_ring env key old = Inr ring"
    using built by (auto simp: build_ring_def)
  have "(old = None \<and> cy_previous cfg \<in> {None, Some []}) \<or>
     (\<exists>p k. p \<noteq> [] \<and> cy_previous cfg = Some p \<and> urlsafe_b64decode p = Some k \<and> length k = 32 \<and> old = Some k)"
    using old by (auto split: option.splits if_splits)
  then show thesis using s key ring by (intro that [of s old]) (auto simp: make_ring_ok)
qed

lemma ring_keys_configured:
  assumes "fresh_ring env cfg = Inr (Some ring)" "(kid, key) \<in> set (kr_by_kid ring)"
  shows "configured_key cfg key" "kid = derive_kid env key"
proof -
  obtain s old where r: "cy_key cfg = Some s" "s \<noteq> []" "urlsafe_b64decode s = Some (kr_current ring)"
    "length (kr_current ring) = 32"
    and entries: "kr_by_kid ring = ring_entries env (kr_current ring) old"
    and old: "(old = None \<and> cy_previous cfg \<in> {None, Some []}) \<or>
     (\<exists>p k. p \<noteq> [] \<and> cy_previous cfg = Some p \<and> urlsafe_b64decode p = Some k \<and> length k = 32 \<and> old = Some k)"
    by (rule fresh_ring_cases [OF assms(1)])
  have "key = kr_current ring \<or> old = Some key"
    using assms(2) by (auto simp: entries ring_entries_def split: option.splits if_splits)
  then show "configured_key cfg key" using r old by (auto simp: configured_key_def)
  show "kid = derive_kid env key"
    using assms(2) by (auto simp: entries ring_entries_def split: option.splits if_splits)
qed

text \<open>The key an envelope was sealed with is found under its id, before and after a rotation.\<close>

lemma rotated_key_found:
  assumes "fresh_ring env cfg = Inr (Some ring)" "fresh_ring env cfg' = Inr (Some ring')"
    and "cy_key cfg' = cy_key cfg \<or> cy_previous cfg' = cy_key cfg"
    and "kr_current ring' = kr_current ring \<or> kr_kid ring' \<noteq> kr_kid ring"
  shows "dict_get (kr_by_kid ring') (kr_kid ring) = Some (kr_current ring)"
proof -
  obtain s where s: "cy_key cfg = Some s" "s \<noteq> []" "urlsafe_b64decode s = Some (kr_current ring)"
    "kr_kid ring = derive_kid env (kr_current ring)"
    using fresh_ring_cases [OF assms(1)] by metis
  obtain s' old where s': "cy_key cfg' = Some s'" "urlsafe_b64decode s' = Some (kr_current ring')"
    "kr_kid ring' = derive_kid env (kr_current ring')"
    "kr_by_kid ring' = ring_entries env (kr_current ring') old"
    and old: "(old = None \<and> cy_previous cfg' \<in> {None, Some []}) \<or>
     (\<exists>p k. p \<noteq> [] \<and> cy_previous cfg' = Some p \<and> urlsafe_b64decode p = Some k \<and> length k = 32 \<and> old = Some k)"
    by (rule fresh_ring_cases [OF assms(2)])
  show ?thesis
  proof (cases "kr_current ring' = kr_current ring")
    case True
    then show ?thesis using s(4) s'(4) by (simp add: ring_entries_def)
  next
    case False
    then have "kr_kid ring' \<noteq> kr_kid ring" "cy_previous cfg' = Some s"
      using assms(3,4) s s' by auto
    moreover from this(2) have "old = Some (kr_current ring)" using old s by auto
    ultimately show ?thesis using s(4) s'(3,4) by (simp add: ring_entries_def)
  qed
qed

lemma first_open_sound: "first_open env keys nonce c = Inr raw \<Longrightarrow> \<exists>key \<in> set keys. ce_open env key nonce c = Some raw"
  by (induction keys) (auto simp: not_authentic_def split: option.splits)

lemma candidates_sound:
  "candidate_keys ring j = Inr keys \<Longrightarrow> key \<in> set keys \<Longrightarrow>
   \<exists>kid. (kid, key) \<in> set (kr_by_kid ring) \<and> (\<forall>s. field_of j ''kid'' = Some (JStr s) \<longrightarrow> kid = s)"
  by (auto simp: candidate_keys_def not_authentic_def split: option.splits json.splits dest: map_of_SomeD)
    blast+

text \<open>An opened envelope was opened with a configured key, the one it names.\<close>

lemma open_with_sound:
  assumes "cache_coherent env cache" "fst (get_ring env cfg cache) = Inr ring" "open_with env j ring = Inr raw"
  shows "\<exists>key nonce c. configured_key cfg key \<and> length nonce = 12 \<and> ce_open env key nonce c = Some raw
    \<and> (\<forall>s. field_of j ''kid'' = Some (JStr s) \<longrightarrow> s = derive_kid env key)"
proof -
  obtain r nonce c where r: "ring = Some r" and d: "decode_envelope_fields j ''encrypted sync envelope'' = Inr (nonce, c)"
    and opened: "open_envelope env r j nonce c = Inr raw"
    using assms(3) by (auto simp: open_with_def split: option.splits)
  have ring: "fresh_ring env cfg = Inr (Some r)" using assms(2) r get_ring_fresh(1) [OF assms(1)] by simp
  obtain keys key where k: "candidate_keys r j = Inr keys" "key \<in> set keys" "ce_open env key nonce c = Some raw"
    using opened first_open_sound by (auto simp: open_envelope_def) blast
  obtain kid where kid: "(kid, key) \<in> set (kr_by_kid r)" "\<forall>s. field_of j ''kid'' = Some (JStr s) \<longrightarrow> kid = s"
    using candidates_sound [OF k(1,2)] by blast
  have "length nonce = 12"
    using d by (auto simp: decode_envelope_fields_def split: option.splits if_splits)
  then show ?thesis using k(3) kid ring_keys_configured [OF ring kid(1)] by blast
qed

lemma open_with_sealed:
  assumes "dict_get (kr_by_kid ring) kid = Some key"
    and "is_bytes nonce" "length nonce = 12" "is_bytes c" "ce_open env key nonce c = Some raw"
  shows "open_with env (sealed_envelope kid nonce c) (Some ring) = Inr raw"
  using assms
  by (simp add: open_with_def sealed_fields open_envelope_def candidate_keys_def sealed_kid del: bindR_Inr_iff)

lemma get_ring_failure: "fst (get_ring env cfg cache) = Inl e \<Longrightarrow> \<exists>s. e = CryptoErr s"
  by (auto simp: get_ring_def Let_def build_ring_def make_ring_def aesgcm_def decode_env_key_def bindR_Inl_iff
      split: option.splits sum.splits if_splits)

lemma first_open_failure: "first_open env keys nonce c = Inl e \<Longrightarrow> \<exists>s. e = CryptoErr s"
  by (induction keys) (auto simp: not_authentic_def split: option.splits)

lemma open_with_failure: "open_with env j ring = Inl e \<Longrightarrow> \<exists>s. e = CryptoErr s"
  using first_open_failure
  by (fastforce simp: open_with_def open_envelope_def candidate_keys_def not_authentic_def
      decode_envelope_fields_def bindR_Inl_iff split: option.splits json.splits if_splits)

lemma failure_class: "bindR (fst (get_ring env cfg cache)) (open_with env j) = Inl e \<Longrightarrow> \<exists>s. e = CryptoErr s"
  using get_ring_failure open_with_failure by (auto simp: bindR_Inl_iff)

subsection \<open>Round trip and authenticity\<close>

text \<open>
  What the transport relies on at the values of one message: the AEAD opens what it sealed
  and writes bytes, SHA-256 writes bytes, and \<open>json.loads\<close> reads back what \<open>json.dumps\<close>
  wrote.
\<close>

definition transport_ok :: "crypto_env \<Rightarrow> wire_env \<Rightarrow> key_ring \<Rightarrow> bytes \<Rightarrow> bytes \<Rightarrow> bool" where
  "transport_ok env wire ring nonce raw =
     (is_bytes nonce \<and> length nonce = 12
      \<and> is_bytes (ce_seal env (kr_current ring) nonce raw)
      \<and> ce_open env (kr_current ring) nonce (ce_seal env (kr_current ring) nonce raw) = Some raw
      \<and> is_bytes (ce_sha env (cp ''memplex-sync-kid-v1:'' @ kr_current ring))
      \<and> json_loads wire (json_dumps (seal_with env ring nonce raw)) = Inr (seal_with env ring nonce raw))"

text \<open>
  C15: an envelope survives the rotation of the key.  What a node with encryption on seals
  is recognised as an envelope by the byte-level check, and a node whose current or previous
  key is the sealing key opens it to exactly the bytes that went in, whatever the two
  process-wide caches hold; the only condition on the new key is that its id differs from
  the one of the old key.
\<close>

theorem envelope_survives_rotation:
  assumes "cache_coherent env cache" "cache_coherent env cache'"
    and "fresh_ring env cfg = Inr (Some ring)" "fresh_ring env cfg' = Inr (Some ring')"
    and "cy_key cfg' = cy_key cfg \<or> cy_previous cfg' = cy_key cfg"
    and "kr_current ring' = kr_current ring \<or> kr_kid ring' \<noteq> kr_kid ring"
    and "transport_ok env wire ring nonce raw"
  shows "\<exists>body. fst (encrypt_bytes env cfg nonce raw cache) = Inr body \<and> looks_encrypted body
    \<and> fst (decrypt_bytes env wire cfg' body cache') = Inr raw"
proof -
  let ?j = "seal_with env ring nonce raw"
  have kid: "kr_kid ring = derive_kid env (kr_current ring)"
    using fresh_ring_cases [OF assms(3)] by metis
  have laws: "is_bytes nonce" "length nonce = 12" "is_bytes (ce_seal env (kr_current ring) nonce raw)"
    "ce_open env (kr_current ring) nonce (ce_seal env (kr_current ring) nonce raw) = Some raw"
    "plain_text (kr_kid ring)" "json_loads wire (json_dumps ?j) = Inr ?j"
    using assms(7) kid_plain by (auto simp: transport_ok_def kid)
  have ascii: "ascii_text (json_dumps ?j)" and marked: "looks_encrypted (json_dumps ?j)"
    using sealed_text [OF laws(5,1,3)] prefix_looks_encrypted by (auto simp: seal_with_def)
  have sealed: "fst (encrypt_bytes env cfg nonce raw cache) = Inr (json_dumps ?j)"
    using get_ring_fresh(1) [OF assms(1), of cfg] ascii_read_back(1) [OF ascii]
    by (simp add: encrypt_bytes_def assms(3) split_beta Let_def del: bindR_Inr_iff)
  have "load_utf8 wire err (json_dumps ?j) = Inr ?j" for err
    using ascii_read_back(2) [OF ascii laws(6)] ascii_read_back(1) [OF ascii] by simp
  moreover have "open_with env ?j (Some ring') = Inr raw"
    using rotated_key_found [OF assms(3-6)] laws by (simp add: seal_with_def open_with_sealed)
  ultimately have "fst (decrypt_bytes env wire cfg' (json_dumps ?j) cache') = Inr raw"
    using get_ring_fresh(1) [OF assms(2), of cfg']
    by (simp add: decrypt_bytes_def seal_with_def sealed_is_envelope assms(4) split_beta Let_def
        del: bindR_Inr_iff)
  with sealed marked show ?thesis by blast
qed

text \<open>
  C16: decryption fails closed.  Bytes come out of an encrypted body only when a key of the
  configuration, and the one the envelope names if it names one, opened them with a nonce of
  twelve bytes; with encryption off nothing comes out.  Every failure is the one error class
  the route turns into a refusal, but for one source of errors: a body that is UTF-8 and on
  which \<open>json.loads\<close> raises something else than \<open>JSONDecodeError\<close>; that exception is the
  result.  The key cache stays coherent in every case.
\<close>

theorem decryption_fails_closed:
  assumes "cache_coherent env cache"
  shows "cache_coherent env (snd (decrypt_bytes env wire cfg body cache)) \<and>
    (case fst (decrypt_bytes env wire cfg body cache) of
       Inl e \<Rightarrow> (\<exists>s. e = CryptoErr s) \<or> (\<exists>s. utf8_decode body = Some s \<and> json_loads wire s = Inl (Loads_raises e))
     | Inr raw \<Rightarrow> is_enabled cfg \<and> (\<exists>s j key nonce c. utf8_decode body = Some s \<and> json_loads wire s = Inr j
         \<and> is_encrypted_envelope j \<and> configured_key cfg key \<and> length nonce = 12
         \<and> ce_open env key nonce c = Some raw
         \<and> (\<forall>s. field_of j ''kid'' = Some (JStr s) \<longrightarrow> s = derive_kid env key)))"
proof (cases "load_utf8 wire (CryptoErr ''request body is not a JSON envelope'') body")
  case (Inl e)
  then have "(\<exists>s. e = CryptoErr s) \<or> (\<exists>s. utf8_decode body = Some s \<and> json_loads wire s = Inl (Loads_raises e))"
    by (auto simp: load_utf8_def split: option.splits sum.splits loads_failure.splits)
  then show ?thesis using assms Inl by (simp add: decrypt_bytes_def)
next
  case j: (Inr j)
  then obtain s where s: "utf8_decode body = Some s" "json_loads wire s = Inr j"
    by (auto simp: load_utf8_def split: option.splits sum.splits loads_failure.splits)
  show ?thesis
  proof (cases "is_encrypted_envelope j")
    case False
    then show ?thesis using assms j by (simp add: decrypt_bytes_def)
  next
    case True
    have run: "decrypt_bytes env wire cfg body cache =
        (bindR (fst (get_ring env cfg cache)) (open_with env j), snd (get_ring env cfg cache))"
      using j True by (simp add: decrypt_bytes_def split_beta Let_def del: bindR_Inr_iff)
    show ?thesis
    proof (cases "bindR (fst (get_ring env cfg cache)) (open_with env j)")
      case (Inl e)
      then show ?thesis using get_ring_fresh(2) [OF assms] failure_class by (auto simp: run)
    next
      case (Inr raw)
      then obtain ring where ring: "fst (get_ring env cfg cache) = Inr ring" "open_with env j ring = Inr raw" by auto
      have "is_enabled cfg"
        using ring get_ring_fresh(1) [OF assms, of cfg] by (auto simp: fresh_ring_def open_with_def split: if_splits)
      moreover obtain key nonce c where "configured_key cfg key" "length nonce = 12"
        "ce_open env key nonce c = Some raw" "\<forall>s. field_of j ''kid'' = Some (JStr s) \<longrightarrow> s = derive_kid env key"
        using open_with_sound [OF assms ring] by blast
      ultimately show ?thesis
        using get_ring_fresh(2) [OF assms] Inr s True unfolding run by (simp del: bindR_Inr_iff) blast
    qed
  qed
qed

text \<open>
  The exception is real: when the integer of a body exceeds the digit limit of \<open>int\<close>, the
  plain \<open>ValueError\<close> of \<open>json.loads\<close> is what \<open>decrypt_bytes\<close> raises.
\<close>

theorem decrypt_lets_loads_errors_through:
  "utf8_decode body = Some s \<Longrightarrow> json_loads wire s = Inl (Loads_raises e) \<Longrightarrow>
    decrypt_bytes env wire cfg body cache = (Inl e, cache)"
  by (simp add: decrypt_bytes_def load_utf8_def)

text \<open>The same for a JSON payload, when \<open>json.loads\<close> reads the payload back.\<close>

lemma payload_survives_rotation:
  assumes "cache_coherent env cache" "cache_coherent env cache'"
    and "fresh_ring env cfg = Inr (Some ring)" "fresh_ring env cfg' = Inr (Some ring')"
    and "cy_key cfg' = cy_key cfg \<or> cy_previous cfg' = cy_key cfg"
    and "kr_current ring' = kr_current ring \<or> kr_kid ring' \<noteq> kr_kid ring"
    and "transport_ok env wire ring nonce (utf8 (json_dumps (JObj d)))"
    and "encodable (json_dumps (JObj d))"
    and "\<And>err. load_utf8 wire err (utf8 (json_dumps (JObj d))) = Inr (JObj d)"
  shows "\<exists>j. fst (encrypt_json_payload env cfg nonce (JObj d) cache) = Inr j \<and> is_encrypted_envelope j
    \<and> fst (decrypt_json_payload env wire cfg' j cache') = Inr (JObj d)"
proof -
  let ?raw = "utf8 (json_dumps (JObj d))"
  let ?j = "seal_with env ring nonce ?raw"
  have laws: "is_bytes nonce" "length nonce = 12" "is_bytes (ce_seal env (kr_current ring) nonce ?raw)"
    "ce_open env (kr_current ring) nonce (ce_seal env (kr_current ring) nonce ?raw) = Some ?raw"
    using assms(7) by (auto simp: transport_ok_def)
  have "fst (encrypt_json_payload env cfg nonce (JObj d) cache) = Inr ?j"
    using get_ring_fresh(1) [OF assms(1), of cfg] assms(8)
    by (simp add: encrypt_json_payload_def assms(3) split_beta Let_def del: bindR_Inr_iff json_dumps.simps)
  moreover have "is_encrypted_envelope ?j" by (simp add: seal_with_def sealed_is_envelope)
  moreover have "open_with env ?j (Some ring') = Inr ?raw"
    using rotated_key_found [OF assms(3-6)] laws by (simp add: seal_with_def open_with_sealed)
  then have "fst (decrypt_json_payload env wire cfg' ?j cache') = Inr (JObj d)"
    using get_ring_fresh(1) [OF assms(2), of cfg'] assms(9)
    by (simp add: decrypt_json_payload_def seal_with_def sealed_is_envelope assms(4) split_beta Let_def
        read_object_def del: bindR_Inr_iff json_dumps.simps)
  ultimately show ?thesis by blast
qed

subsection \<open>Concrete instances\<close>

text \<open>A transparent cipher and digest, and two keys.\<close>

definition toy_crypto :: crypto_env where
  "toy_crypto = \<lparr>ce_sha = drop 20, ce_seal = (\<lambda>k n p. k @ n @ p),
     ce_open = (\<lambda>k n c. if take 44 c = k @ n then Some (drop 44 c) else None), ce_installed = True\<rparr>"

definition toy_key :: "nat \<Rightarrow> bytes" where
  "toy_key n = replicate 32 n"

definition only_key :: "nat \<Rightarrow> crypto_config" where
  "only_key n = \<lparr>cy_key = Some (urlsafe_b64encode (toy_key n)), cy_previous = None\<rparr>"

definition rotated_keys :: "nat \<Rightarrow> nat \<Rightarrow> crypto_config" where
  "rotated_keys new old = \<lparr>cy_key = Some (urlsafe_b64encode (toy_key new)),
     cy_previous = Some (urlsafe_b64encode (toy_key old))\<rparr>"

definition toy_ring :: "nat \<Rightarrow> nat option \<Rightarrow> key_ring" where
  "toy_ring n old = \<lparr>kr_current = toy_key n, kr_kid = derive_kid toy_crypto (toy_key n),
     kr_by_kid = ring_entries toy_crypto (toy_key n) (map_option toy_key old)\<rparr>"

definition dumps_env :: "json \<Rightarrow> wire_env" where
  "dumps_env j = (sample_env JNull)\<lparr>json_loads := (\<lambda>s. if s = json_dumps j then Inr j else Inl JSONDecodeError)\<rparr>"

definition toy_nonce :: bytes where
  "toy_nonce = replicate 12 7"

lemma toy_key_bytes: "n < 256 \<Longrightarrow> is_bytes (toy_key n)"
  by (simp add: is_bytes_def toy_key_def)

lemma toy_key_text: "n < 256 \<Longrightarrow> urlsafe_b64decode (urlsafe_b64encode (toy_key n)) = Some (toy_key n)
    \<and> urlsafe_b64encode (toy_key n) \<noteq> []"
proof -
  assume "n < 256"
  then have "urlsafe_b64decode (urlsafe_b64encode (toy_key n)) = Some (toy_key n)"
    by (simp add: a2b_roundtrip toy_key_bytes)
  moreover from this have "urlsafe_b64encode (toy_key n) \<noteq> []"
    by (auto simp: urlsafe_b64decode_def toy_key_def)
  ultimately show ?thesis by blast
qed

lemma toy_rings:
  shows "n < 256 \<Longrightarrow> fresh_ring toy_crypto (only_key n) = Inr (Some (toy_ring n None))"
    and "n < 256 \<Longrightarrow> m < 256 \<Longrightarrow> fresh_ring toy_crypto (rotated_keys n m) = Inr (Some (toy_ring n (Some m)))"
  by (simp_all add: fresh_ring_def is_enabled_def only_key_def rotated_keys_def build_ring_def toy_key_text
      make_ring_ok toy_ring_def toy_crypto_def)
    (simp_all add: toy_key_def)

lemma toy_kid: "drop 20 (cp ''memplex-sync-kid-v1:'') = [] \<and> length (cp ''memplex-sync-kid-v1:'') = 20"
  by (simp add: cp_def)

lemma toy_kids: "kr_kid (toy_ring 1 None) \<noteq> kr_kid (toy_ring 2 (Some 1))"
proof -
  have "derive_kid toy_crypto (toy_key n) = b64url_encode (replicate 8 n)" for n
    by (simp add: derive_kid_def toy_crypto_def toy_kid toy_key_def)
  moreover have "b64url_encode (replicate 8 1) \<noteq> b64url_encode (replicate 8 2)"
    using b64url_encode_inj [of "replicate 8 1" "replicate 8 2"] by (auto simp: is_bytes_def)
  ultimately show ?thesis by (simp add: toy_ring_def)
qed

theorem envelope_survives_rotation_witness:
  "\<exists>body. fst (encrypt_bytes toy_crypto (only_key 1) toy_nonce [1, 2, 3] []) = Inr body \<and> looks_encrypted body
   \<and> fst (decrypt_bytes toy_crypto (dumps_env (seal_with toy_crypto (toy_ring 1 None) toy_nonce [1, 2, 3]))
        (rotated_keys 2 1) body []) = Inr [1, 2, 3]"
  by (rule envelope_survives_rotation [OF cache_starts_coherent cache_starts_coherent toy_rings(1) toy_rings(2)])
    (use toy_kids in \<open>auto simp: only_key_def rotated_keys_def transport_ok_def toy_crypto_def toy_nonce_def
      toy_ring_def toy_key_def is_bytes_def dumps_env_def toy_kid\<close>)

theorem decryption_fails_closed_witness:
  "cache_coherent toy_crypto (snd (decrypt_bytes toy_crypto (dumps_env (JObj [])) (only_key 1) (utf8 (cp ''{}'')) []))
   \<and> fst (decrypt_bytes toy_crypto (dumps_env (JObj [])) (only_key 1) (utf8 (cp ''{}'')) []) =
       Inl (CryptoErr ''request body is not an encrypted sync envelope'')"
  using decryption_fails_closed [OF cache_starts_coherent, of toy_crypto "dumps_env (JObj [])" "only_key 1" "utf8 (cp ''{}'')"]
  by (simp add: decrypt_bytes_def load_utf8_def dumps_env_def utf8_def utf8_char_def cp_def
      is_encrypted_envelope_def field_of_def)

end
