(* ===== verification/Sync_Ingress.thy ===== *)
theory Sync_Ingress
  imports Lite_Business Lite_Validation Sync_Crypto Wire_Screening
begin

section \<open>Sync over HTTP\<close>

text \<open>
  The strict reader of \<open>src/memplex/sync_ingress.py\<close> and the three \<open>/sync/v1\<close> routes of
  \<open>src/memplex/adapters/http_api.py\<close> on the lite store: body limits, decryption, admission
  of a batch, screening, application, the pages of the stream and of a snapshot with their
  signed cursors, and the status every exception becomes.  A route is a function of the
  caller's identity, the parsed query and the state of the node; all readings of the clock
  within one request are one argument.  The JSON tokenizer, \<open>float\<close> of a numeral, SHA-256 and
  HMAC are parameters.
\<close>

subsection \<open>The strict reader\<close>

text \<open>What the tokenizer gives the hooks: numbers as their text, objects as their pairs.\<close>

datatype raw_json =
    RawNull
  | RawBool bool
  | RawNumber string
  | RawConstant py_float
  | RawStr ustring
  | RawList "raw_json list"
  | RawPairs "(ustring \<times> raw_json) list"

record ingress_env =
  ie_lite :: lite_env
  ie_crypto :: crypto_env
  ie_screen :: screen_env
  ie_sha :: "bytes \<Rightarrow> ustring"
  ie_hmac :: hmac
  ie_tokens :: "ustring \<Rightarrow> raw_json result"
  ie_float :: "string \<Rightarrow> py_float"

abbreviation ie_wire :: "ingress_env \<Rightarrow> wire_env" where
  "ie_wire env \<equiv> le_wire (ie_lite env)"

fun no_duplicate_keys :: "raw_json \<Rightarrow> bool" where
  "no_duplicate_keys (RawList xs) = list_all no_duplicate_keys xs"
| "no_duplicate_keys (RawPairs kvs) =
     (distinct (map fst kvs) \<and> list_all (\<lambda>(k, v). no_duplicate_keys v) kvs)"
| "no_duplicate_keys _ = True"

text \<open>\<open>int\<close> of a JSON numeral; the interpreter refuses more than 4300 digits.\<close>

definition MAX_STR_DIGITS :: nat where "MAX_STR_DIGITS = 4300"

definition fractional :: "string \<Rightarrow> bool" where
  "fractional t = (CHR ''.'' \<in> set t \<or> CHR ''e'' \<in> set t \<or> CHR ''E'' \<in> set t)"

definition int_of_numeral :: "string \<Rightarrow> int result" where
  "int_of_numeral t =
     (if fractional t then Inl (ValueErr ''invalid literal for int()'')
      else if MAX_STR_DIGITS < length (filter (\<lambda>c. c \<noteq> CHR ''-'') t) then
        Inl (ValueErr ''Exceeds the limit for integer string conversion'')
      else Inr (read_int t))"

definition protocol_number :: "(string \<Rightarrow> py_float) \<Rightarrow> bool \<Rightarrow> string \<Rightarrow> json result" where
  "protocol_number float in_payload t =
     (if in_payload then
        (if fractional t then Inr (JFloat (float t))
         else bindR (int_of_numeral t) (\<lambda>n. Inr (if MAX_SAFE < abs n then JFloat (float t) else JInt n)))
      else bindR (int_of_numeral t) (\<lambda>n. Inr (JInt n)))"

fun normalise :: "(string \<Rightarrow> py_float) \<Rightarrow> bool \<Rightarrow> raw_json \<Rightarrow> json result"
  and normalise_items :: "(string \<Rightarrow> py_float) \<Rightarrow> bool \<Rightarrow> raw_json list \<Rightarrow> json list result"
  and normalise_pairs :: "(string \<Rightarrow> py_float) \<Rightarrow> bool \<Rightarrow> (ustring \<times> raw_json) list \<Rightarrow> (ustring, json) dict result"
where
  "normalise float p RawNull = Inr JNull"
| "normalise float p (RawBool b) = Inr (JBool b)"
| "normalise float p (RawNumber t) = protocol_number float p t"
| "normalise float p (RawConstant f) = Inr (JFloat f)"
| "normalise float p (RawStr s) = Inr (JStr s)"
| "normalise float p (RawList xs) = bindR (normalise_items float p xs) (\<lambda>ys. Inr (JList ys))"
| "normalise float p (RawPairs kvs) = bindR (normalise_pairs float p kvs) (\<lambda>ls. Inr (JObj ls))"
| "normalise_items float p [] = Inr []"
| "normalise_items float p (x # xs) =
     bindR (normalise float p x) (\<lambda>y. bindR (normalise_items float p xs) (\<lambda>ys. Inr (y # ys)))"
| "normalise_pairs float p [] = Inr []"
| "normalise_pairs float p ((k, x) # kvs) =
     bindR (normalise float (p \<or> k = cp ''payload'') x) (\<lambda>y.
     bindR (normalise_pairs float p kvs) (\<lambda>ls. Inr ((k, y) # ls)))"

definition read_protocol_json :: "ingress_env \<Rightarrow> bytes \<Rightarrow> json result" where
  "read_protocol_json env raw = (case utf8_decode raw of
       None \<Rightarrow> Inl (ValueErr ''invalid utf-8'')
     | Some s \<Rightarrow> bindR (ie_tokens env s) (\<lambda>r.
         if no_duplicate_keys r then normalise (ie_float env) False r
         else Inl (ValueErr ''duplicate JSON key'')))"

text \<open>The subclasses of \<open>ValueError\<close> and of \<open>RuntimeError\<close> among the exceptions.\<close>

definition value_error :: "exn \<Rightarrow> bool" where
  "value_error e = (case e of ValueErr _ \<Rightarrow> True | CryptoErr _ \<Rightarrow> True | CursorExpired _ \<Rightarrow> True | BatchRejected _ \<Rightarrow> True
     | IdentityClaimErr _ \<Rightarrow> True | RegistryErr _ \<Rightarrow> True | _ \<Rightarrow> False)"

definition type_error :: "exn \<Rightarrow> bool" where
  "type_error e = (case e of TypeErr _ \<Rightarrow> True | _ \<Rightarrow> False)"

definition invalid_ingress :: exn where
  "invalid_ingress = BatchRejected ''invalid ingress request''"

definition validate_ingress_batch :: "ingress_env \<Rightarrow> bytes \<Rightarrow> ustring \<Rightarrow> sync_batch result" where
  "validate_ingress_batch env raw request_sha256 =
     (if ie_sha env raw \<noteq> request_sha256 then Inl invalid_ingress
      else case bindR (read_protocol_json env raw) (batch_from_dict (ie_wire env)) of
        Inl e \<Rightarrow> Inl (if type_error e \<or> value_error e then invalid_ingress else e)
      | Inr b \<Rightarrow> bindR (canonical_bytes (ie_wire env) b) (\<lambda>canonical.
          if canonical \<noteq> raw then Inl invalid_ingress else Inr b))"

subsection \<open>Requests, replies and the node\<close>

datatype reply = Answered json | Refused int string | Crashed exn

record sync_settings =
  api_enabled :: bool
  api_max_bytes :: int
  api_max_events :: int
  api_max_page :: int
  api_key_id :: ustring
  api_secret :: ustring
  api_previous :: "(ustring, ustring) dict"
  api_ttl :: int
  api_crypto :: crypto_config
  api_repo :: sync_config

record sync_node =
  sn_repo :: "business repo"
  sn_screen :: screening
  sn_rings :: ring_cache

definition sync_bindings :: "auth_context \<Rightarrow> ustring \<times> ustring \<times> ustring" where
  "sync_bindings c =
     (let p = ctx_principal c in
      (cp (prin_tenant p),
       cp (if ctx_agent c \<noteq> [] then ctx_agent c else prin_subject p),
       cp (case prin_authentication p of Some a \<Rightarrow> if a \<noteq> [] then a else prin_subject p
           | None \<Rightarrow> prin_subject p)))"

text \<open>\<open>int\<close> of a header: blanks around, a sign, digits with single underscores between.\<close>

definition header_space :: "nat \<Rightarrow> bool" where
  "header_space c = (9 \<le> c \<and> c \<le> 13 \<or> 28 \<le> c \<and> c \<le> 32 \<or> c = 133 \<or> c = 160)"

definition decimal :: "nat \<Rightarrow> bool" where
  "decimal c = (48 \<le> c \<and> c \<le> 57)"

fun digit_groups :: "ustring \<Rightarrow> bool" where
  "digit_groups [] = False"
| "digit_groups [c] = decimal c"
| "digit_groups (c # d # s) = (decimal c \<and> (if d = 95 then digit_groups s else digit_groups (d # s)))"

definition int_of_header :: "ustring \<Rightarrow> int option" where
  "int_of_header s =
     (let content = dropWhile header_space (rev (dropWhile header_space (rev s)));
          sgn = (if content \<noteq> [] \<and> hd content = 45 then - 1 else 1 :: int);
          digits = (case content of c # r \<Rightarrow> if c = 43 \<or> c = 45 then r else content | [] \<Rightarrow> []) in
      if digit_groups digits \<and> length (filter decimal digits) \<le> MAX_STR_DIGITS then
        Some (sgn * int (read_nat (map char_of (filter decimal digits)) 0))
      else None)"

subsection \<open>POST /sync/v1/batches\<close>

definition too_large :: reply where
  "too_large = Refused 413 ''sync_batch_too_large''"

fun read_stream :: "int \<Rightarrow> bytes \<Rightarrow> bytes list \<Rightarrow> reply + bytes" where
  "read_stream limit content [] = Inr content"
| "read_stream limit content (chunk # chunks) =
     (if limit < int (length content + length chunk) then Inl too_large
      else read_stream limit (content @ chunk) chunks)"

definition read_body :: "sync_settings \<Rightarrow> ustring option \<Rightarrow> bytes list \<Rightarrow> reply + bytes" where
  "read_body cfg declared chunks =
     (if \<not> api_enabled cfg then Inl (Refused 404 ''sync_not_enabled'')
      else case declared of
        None \<Rightarrow> read_stream (api_max_bytes cfg) [] chunks
      | Some s \<Rightarrow>
         (case int_of_header s of
            None \<Rightarrow> Inl (Refused 400 ''invalid_content_length'')
          | Some n \<Rightarrow> if api_max_bytes cfg < n then Inl too_large
              else read_stream (api_max_bytes cfg) [] chunks))"

text \<open>\<open>except SyncCryptoError\<close>: any other exception of \<open>decrypt_bytes\<close> leaves the handler.\<close>

definition unwrap_body :: "ingress_env \<Rightarrow> sync_settings \<Rightarrow> bytes \<Rightarrow> ring_cache \<Rightarrow> (reply + bytes) \<times> ring_cache" where
  "unwrap_body env cfg raw rings =
     (if \<not> looks_encrypted raw then (Inr raw, rings)
      else case decrypt_bytes (ie_crypto env) (ie_wire env) (api_crypto cfg) raw rings of
        (Inl e, rings) \<Rightarrow>
          (Inl (case e of CryptoErr _ \<Rightarrow> Refused 400 ''sync_encryption_invalid'' | _ \<Rightarrow> Crashed e), rings)
      | (Inr plain, rings) \<Rightarrow>
          (if api_max_bytes cfg < int (length plain) then Inl too_large else Inr plain, rings))"

text \<open>The checks inside the \<open>try\<close>, up to the screening; a missing identity is an \<open>HTTPException\<close>.\<close>

definition admit_batch :: "ingress_env \<Rightarrow> sync_settings \<Rightarrow> auth_context option \<Rightarrow> bytes \<Rightarrow> sync_batch result" where
  "admit_batch env cfg caller raw =
     bindR (validate_ingress_batch env raw (ie_sha env raw)) (\<lambda>b.
       if api_max_events cfg < int (length (bt_events b)) then
         Inl (BatchRejected ''batch exceeds configured event limit'')
       else case caller of
         None \<Rightarrow> Inl (OtherErr ''HTTPException'')
       | Some c \<Rightarrow>
          (let (tenant, remote, consumer) = sync_bindings c in
           if bt_origin b \<noteq> remote \<or> list_ex (\<lambda>e. sc_tenant (ev_scope e) \<noteq> tenant) (bt_events b) then
             Inl (BatchRejected ''invalid ingress identity'')
           else Inr b))"

text \<open>
  The handlers in their order.  The last one reads an SQLSTATE, which only the exceptions of
  the Postgres drivers carry.
\<close>

definition batch_failure :: "exn \<Rightarrow> reply" where
  "batch_failure e = (case e of
       Backpressure _ \<Rightarrow> Refused 429 ''sync_backpressure''
     | BatchRejected _ \<Rightarrow> Refused 422 ''invalid_sync_batch''
     | KeyErr _ \<Rightarrow> Refused 422 ''invalid_sync_batch''
     | TypeErr m \<Rightarrow> if m = ''batch digest conflict'' then Refused 409 ''batch_conflict''
         else Refused 422 ''invalid_sync_batch''
     | _ \<Rightarrow> if value_error e then
           (if e = ValueErr ''batch digest conflict'' then Refused 409 ''batch_conflict''
            else Refused 422 ''invalid_sync_batch'')
         else Refused 503 ''sync_apply_unavailable'')"

definition apply_admitted ::
    "ingress_env \<Rightarrow> sync_settings \<Rightarrow> int \<Rightarrow> string \<Rightarrow> sync_batch \<Rightarrow> sync_node \<Rightarrow> batch_result result \<times> sync_node" where
  "apply_admitted env cfg now today b node =
     (case scan_sync_events (ie_screen env) (ie_wire env) (le_node (ie_lite env)) today (bt_events b) (sn_screen node) of
        (Inl e, screen) \<Rightarrow> (Inl e, node\<lparr>sn_screen := screen\<rparr>)
      | (Inr _, screen) \<Rightarrow>
         (case request_digest (ie_sha env) (ie_wire env) b of
            Inl e \<Rightarrow> (Inl e, node\<lparr>sn_screen := screen\<rparr>)
          | Inr digest \<Rightarrow>
             let (r, repo) = apply_batch (api_repo cfg) (lite_apply (ie_lite env)) now digest b (sn_repo node) in
             (r, node\<lparr>sn_screen := screen, sn_repo := repo\<rparr>)))"

definition sync_v1_batches ::
    "ingress_env \<Rightarrow> sync_settings \<Rightarrow> int \<Rightarrow> string \<Rightarrow> auth_context option \<Rightarrow> ustring option \<Rightarrow> bytes list \<Rightarrow>
     sync_node \<Rightarrow> reply \<times> sync_node" where
  "sync_v1_batches env cfg now today caller declared chunks node =
     (case read_body cfg declared chunks of
        Inl r \<Rightarrow> (r, node)
      | Inr content \<Rightarrow>
         (case unwrap_body env cfg content (sn_rings node) of
            (Inl r, rings) \<Rightarrow> (r, node\<lparr>sn_rings := rings\<rparr>)
          | (Inr raw, rings) \<Rightarrow>
             let node = node\<lparr>sn_rings := rings\<rparr> in
             (case admit_batch env cfg caller raw of
                Inl e \<Rightarrow> (batch_failure e, node)
              | Inr b \<Rightarrow>
                 (case apply_admitted env cfg now today b node of
                    (Inl e, node) \<Rightarrow> (batch_failure e, node)
                  | (Inr res, node) \<Rightarrow> (Answered (result_to_dict res), node)))))"

subsection \<open>GET /sync/v1/changes\<close>

definition cursor_codec_of :: "sync_settings \<Rightarrow> cursor_codec result" where
  "cursor_codec_of cfg = make_codec (api_key_id cfg) (api_secret cfg) (api_previous cfg)"

definition issue_cursor ::
    "ingress_env \<Rightarrow> sync_settings \<Rightarrow> int \<Rightarrow> auth_context \<Rightarrow> int \<Rightarrow> int \<Rightarrow> ustring option \<Rightarrow> anchor option \<Rightarrow> ustring result" where
  "issue_cursor env cfg now c after snap sid anchor =
     (let (tenant, remote, consumer) = sync_bindings c in
      bindR (make_claims (JInt 1) (JStr (api_key_id cfg)) (JStr tenant) (JStr remote) (JStr consumer)
         (JInt after) (JInt snap) (json_opt sid) anchor now (now + seconds (api_ttl cfg))) (\<lambda>claims.
      bindR (cursor_codec_of cfg) (\<lambda>codec. encode_cursor (ie_hmac env) (ie_wire env) codec claims)))"

definition read_cursor ::
    "ingress_env \<Rightarrow> sync_settings \<Rightarrow> int \<Rightarrow> auth_context \<Rightarrow> ustring \<Rightarrow> cursor_claims result" where
  "read_cursor env cfg now c token =
     (let (tenant, remote, consumer) = sync_bindings c in
      bindR (cursor_codec_of cfg) (\<lambda>codec.
        decode_cursor (ie_hmac env) (ie_wire env) codec (JStr token) tenant remote consumer now))"

definition stream_claims ::
    "ingress_env \<Rightarrow> sync_settings \<Rightarrow> int \<Rightarrow> auth_context \<Rightarrow> ustring option \<Rightarrow> cursor_claims option result" where
  "stream_claims env cfg now c cursor = (case cursor of
       None \<Rightarrow> Inr None
     | Some token \<Rightarrow> bindR (read_cursor env cfg now c token) (\<lambda>claims.
         if cl_snapshot_id claims \<noteq> None then Inl (CursorExpired ''invalid_cursor'') else Inr (Some claims)))"

definition page_reply ::
    "ingress_env \<Rightarrow> sync_settings \<Rightarrow> int \<Rightarrow> auth_context \<Rightarrow> sync_page \<Rightarrow> json result" where
  "page_reply env cfg now c p =
     bindR (issue_cursor env cfg now c (pg_next p) (pg_snapshot p) None None) (\<lambda>next_cursor.
     bindR (mapR (\<lambda>(n, e). bindR (event_to_dict (ie_wire env) e) (\<lambda>d.
         Inr (to_obj [''stream_seq'', ''event''] [JInt n, d]))) (pg_items p)) (\<lambda>items.
       Inr (to_obj [''items'', ''snapshot_seq'', ''next_cursor'', ''has_more'']
         [JList items, JInt (pg_snapshot p), JStr next_cursor, JBool (pg_more p)])))"

definition reply_of :: "json result \<Rightarrow> reply" where
  "reply_of r = (case r of Inr j \<Rightarrow> Answered j | Inl e \<Rightarrow> Crashed e)"

definition page_failure :: "exn \<Rightarrow> reply" where
  "page_failure e = (case e of
       CursorExpired m \<Rightarrow> if m = ''cursor_expired'' then Refused 409 ''cursor_expired''
         else Refused 400 ''invalid_cursor''
     | _ \<Rightarrow> Refused 503 ''sync_read_unavailable'')"

definition not_authenticated :: reply where
  "not_authenticated = Refused 401 ''Authentication required''"

definition sync_v1_changes ::
    "ingress_env \<Rightarrow> sync_settings \<Rightarrow> int \<Rightarrow> auth_context option \<Rightarrow> ustring option \<Rightarrow> int \<Rightarrow>
     sync_node \<Rightarrow> reply \<times> sync_node" where
  "sync_v1_changes env cfg now caller cursor limit node =
     (if \<not> api_enabled cfg then (Refused 404 ''sync_not_enabled'', node)
      else if limit < 1 \<or> api_max_page cfg < limit then (Refused 422 ''invalid_sync_limit'', node)
      else case caller of None \<Rightarrow> (not_authenticated, node)
      | Some c \<Rightarrow>
         (case stream_claims env cfg now c cursor of
            Inl e \<Rightarrow> (if type_error e \<or> value_error e then Refused 400 ''invalid_cursor'' else Crashed e, node)
          | Inr claims \<Rightarrow>
             (let (tenant, remote, consumer) = sync_bindings c;
                  (r, repo) = sync_mutation (read_page now remote consumer claims limit) (sn_repo node);
                  node = node\<lparr>sn_repo := repo\<rparr> in
              case r of Inl e \<Rightarrow> (page_failure e, node)
              | Inr p \<Rightarrow> (reply_of (page_reply env cfg now c p), node))))"

subsection \<open>GET /sync/v1/snapshot\<close>

definition snapshot_failure :: "exn \<Rightarrow> reply" where
  "snapshot_failure e = (case e of
       Backpressure m \<Rightarrow> Refused (if m = ''snapshot_too_large'' then 413 else 409) m
     | CursorExpired m \<Rightarrow> if m = ''snapshot_expired'' then Refused 409 ''snapshot_expired''
         else Refused 400 ''invalid_cursor''
     | _ \<Rightarrow> if type_error e \<or> value_error e then Refused 422 ''invalid_snapshot_request''
         else Refused 503 ''sync_snapshot_unavailable'')"

definition snapshot_reply ::
    "ingress_env \<Rightarrow> sync_settings \<Rightarrow> int \<Rightarrow> auth_context \<Rightarrow> snapshot_page \<Rightarrow> json result" where
  "snapshot_reply env cfg now c p =
     bindR (if sp_more p then issue_cursor env cfg now c 0 (sp_resume p) (Some (sp_id p)) (sp_anchor p)
            else issue_cursor env cfg now c (sp_resume p) (sp_resume p) None None) (\<lambda>token.
     bindR (mapR (event_to_dict (ie_wire env)) (sp_events p)) (\<lambda>events.
       Inr (to_obj [''events'', ''snapshot_id'', ''next_cursor'', ''resume_cursor'', ''has_more'']
         [JList events, JStr (sp_id p), if sp_more p then JStr token else JNull,
          if sp_more p then JNull else JStr token, JBool (sp_more p)])))"

text \<open>The page of a request, from a new snapshot or from the one its cursor names.\<close>

definition snapshot_page_of ::
    "ingress_env \<Rightarrow> sync_settings \<Rightarrow> ustring \<Rightarrow> int \<Rightarrow> auth_context \<Rightarrow> ustring option \<Rightarrow> ustring option \<Rightarrow> int \<Rightarrow>
     business repo \<Rightarrow> snapshot_page result \<times> business repo" where
  "snapshot_page_of env cfg fresh now c request cursor limit repo =
     (let (tenant, remote, consumer) = sync_bindings c in
      case cursor of
        None \<Rightarrow>
          (case request of
             Some i \<Rightarrow>
               if i = [] then (Inl (ValueErr ''request_id must be non-empty''), repo)
               else sync_mutation (create_snapshot (api_repo cfg)
                   (lite_current (api_repo cfg) (ie_lite env) (rp_business repo)) fresh now remote consumer i limit) repo
           | None \<Rightarrow> (Inl (ValueErr ''request_id must be non-empty''), repo))
      | Some token \<Rightarrow>
          (case read_cursor env cfg now c token of
             Inl e \<Rightarrow> (Inl e, repo)
           | Inr claims \<Rightarrow>
               if cl_snapshot_id claims = None then (Inl (CursorExpired ''invalid_cursor''), repo)
               else let (r, repo) = sync_mutation (read_snapshot_page now remote consumer claims limit) repo in
                 (bindR r (\<lambda>p. p), repo)))"

definition sync_v1_snapshot ::
    "ingress_env \<Rightarrow> sync_settings \<Rightarrow> ustring \<Rightarrow> int \<Rightarrow> auth_context option \<Rightarrow> ustring option \<Rightarrow> ustring option \<Rightarrow> int \<Rightarrow>
     sync_node \<Rightarrow> reply \<times> sync_node" where
  "sync_v1_snapshot env cfg fresh now caller request cursor limit node =
     (if \<not> api_enabled cfg then (Refused 404 ''sync_not_enabled'', node)
      else if limit < 1 \<or> api_max_page cfg < limit then (Refused 422 ''invalid_sync_limit'', node)
      else if (request = None) = (cursor = None) then (Refused 422 ''invalid_snapshot_request'', node)
      else case caller of None \<Rightarrow> (not_authenticated, node)
      | Some c \<Rightarrow>
         (let (r, repo) = snapshot_page_of env cfg fresh now c request cursor limit (sn_repo node);
              node = node\<lparr>sn_repo := repo\<rparr> in
          case r of Inl e \<Rightarrow> (snapshot_failure e, node)
          | Inr p \<Rightarrow> (reply_of (snapshot_reply env cfg now c p), node)))"

end
