(* ===== verification/Ingress_Facts.thy ===== *)
theory Ingress_Facts
  imports Sync_Ingress Lite_Sync_Facts Lite_Convergence
begin

section \<open>What a peer can do over HTTP\<close>

text \<open>
  Theorems about the routes of Sync\_Ingress: what an applied batch had to be and what a
  refusal leaves behind, the invariants of a node under any traffic, and the cursors a caller
  gets back.
\<close>

subsection \<open>Admission\<close>

lemma read_stream_ok:
  "read_stream limit content chunks = Inr out \<Longrightarrow> int (length content) \<le> limit \<Longrightarrow>
     out = content @ concat chunks \<and> int (length out) \<le> limit"
proof (induction chunks arbitrary: content)
  case (Cons c cs)
  have step: "\<not> limit < int (length content + length c)" "read_stream limit (content @ c) cs = Inr out"
    using Cons.prems(1) by (simp_all split: if_split_asm)
  have "int (length (content @ c)) \<le> limit" using step(1) by simp
  from Cons.IH [OF step(2) this] show ?case by auto
qed simp

lemma read_stream_refuses: "read_stream limit content chunks \<noteq> Inl (Answered j)"
  by (induction chunks arbitrary: content) (auto simp: too_large_def)

lemma read_stream_start:
  "read_stream limit [] chunks = Inr out \<Longrightarrow> out = concat chunks \<and> (chunks \<noteq> [] \<longrightarrow> int (length out) \<le> limit)"
proof (cases chunks)
  case (Cons c cs)
  then show "read_stream limit [] chunks = Inr out \<Longrightarrow> ?thesis"
    using read_stream_ok [of limit c cs out] by (auto split: if_splits)
qed simp

lemma read_body_ok:
  assumes "read_body cfg declared chunks = Inr content"
  shows "api_enabled cfg" "content = concat chunks" "content \<noteq> [] \<Longrightarrow> int (length content) \<le> api_max_bytes cfg"
proof -
  have run: "api_enabled cfg" "read_stream (api_max_bytes cfg) [] chunks = Inr content"
    using assms by (auto simp: read_body_def split: if_splits option.splits)
  show "api_enabled cfg" by (rule run)
  show "content = concat chunks" "content \<noteq> [] \<Longrightarrow> int (length content) \<le> api_max_bytes cfg"
    using read_stream_start [OF run(2)] by (auto dest: sym)
qed

lemma validate_ingress_ok:
  assumes "validate_ingress_batch env raw sha = Inr b"
  shows "canonical_bytes (ie_wire env) b = Inr raw" "\<exists>j. batch_from_dict (ie_wire env) j = Inr b"
  using assms by (auto simp: validate_ingress_batch_def split: if_splits sum.splits)

lemma admit_batch_ok:
  assumes "admit_batch env cfg caller raw = Inr b"
  obtains c where "caller = Some c" "canonical_bytes (ie_wire env) b = Inr raw" "batch_ok b"
    "\<forall>e \<in> set (bt_events b). event_ok e \<and> sc_tenant (ev_scope e) = fst (sync_bindings c)"
    "bt_origin b = fst (snd (sync_bindings c))" "int (length (bt_events b)) \<le> api_max_events cfg"
proof -
  have v: "validate_ingress_batch env raw (ie_sha env raw) = Inr b"
    using assms by (auto simp: admit_batch_def split_beta split: if_splits option.splits)
  obtain j where j: "batch_from_dict (ie_wire env) j = Inr b" using validate_ingress_ok(2) [OF v] by blast
  from assms obtain c where "caller = Some c" "bt_origin b = fst (snd (sync_bindings c))"
    "int (length (bt_events b)) \<le> api_max_events cfg"
    "\<forall>e \<in> set (bt_events b). sc_tenant (ev_scope e) = fst (sync_bindings c)"
    by (auto simp: admit_batch_def list_ex_iff split_beta Let_def split: if_splits option.splits)
  with validate_ingress_ok(1) [OF v] batch_from_dict_sound [OF j] show thesis by (intro that) auto
qed

text \<open>The two halves of the store that are on disk; the caches of the object are not.\<close>

definition stored :: "sync_node \<Rightarrow> sync_state \<times> business" where
  "stored node = (rp_sync (sn_repo node), rp_business (sn_repo node))"

lemma apply_batch_rolls_back:
  "apply_batch cfg ab now digest b rp = (Inl e, rp') \<Longrightarrow> rp_sync rp' = rp_sync rp \<and> rp_business rp' = rp_business rp"
  by (auto simp: apply_batch_def mutation_def split: prod.splits sum.splits)

lemma apply_admitted_fails:
  "apply_admitted env cfg now today b node = (Inl e, node') \<Longrightarrow> stored node' = stored node"
  by (auto simp: apply_admitted_def stored_def Let_def dest: apply_batch_rolls_back split: prod.splits sum.splits)

lemma apply_admitted_works:
  assumes "apply_admitted env cfg now today b node = (Inr res, node')"
  obtains screen digest where
    "scan_sync_events (ie_screen env) (ie_wire env) (le_node (ie_lite env)) today (bt_events b) (sn_screen node) = (Inr (), screen)"
    "request_digest (ie_sha env) (ie_wire env) b = Inr digest"
    "apply_batch (api_repo cfg) (lite_apply (ie_lite env)) now digest b (sn_repo node) = (Inr res, sn_repo node')"
    "sn_screen node' = screen"
  using assms by (auto simp: apply_admitted_def Let_def split: prod.splits sum.splits)

lemma batch_failure_refuses: "batch_failure e \<noteq> Answered j"
  by (auto simp: batch_failure_def split: exn.splits)

lemma applied_batch:
  assumes "admit_batch env cfg caller raw = Inr b" "apply_admitted env cfg now today b node = (Inr res, node')"
  shows "\<exists>c. caller = Some c \<and> canonical_bytes (ie_wire env) b = Inr raw \<and> batch_ok b
    \<and> int (length (bt_events b)) \<le> api_max_events cfg
    \<and> list_all (\<lambda>e. event_ok e \<and> sc_tenant (ev_scope e) = fst (sync_bindings c)
         \<and> ev_origin e = fst (snd (sync_bindings c))) (bt_events b)
    \<and> apply_batch (api_repo cfg) (lite_apply (ie_lite env)) now (ie_sha env raw) b (sn_repo node)
         = (Inr res, sn_repo node')"
proof -
  obtain c where c: "caller = Some c" "canonical_bytes (ie_wire env) b = Inr raw" "batch_ok b"
    "\<forall>e \<in> set (bt_events b). event_ok e \<and> sc_tenant (ev_scope e) = fst (sync_bindings c)"
    "bt_origin b = fst (snd (sync_bindings c))" "int (length (bt_events b)) \<le> api_max_events cfg"
    by (rule admit_batch_ok [OF assms(1)])
  obtain digest where "request_digest (ie_sha env) (ie_wire env) b = Inr digest"
    "apply_batch (api_repo cfg) (lite_apply (ie_lite env)) now digest b (sn_repo node) = (Inr res, sn_repo node')"
    using apply_admitted_works [OF assms(2)] by metis
  then have "apply_batch (api_repo cfg) (lite_apply (ie_lite env)) now (ie_sha env raw) b (sn_repo node)
      = (Inr res, sn_repo node')"
    using c(2) by (simp add: request_digest_def)
  moreover have "list_all (\<lambda>e. event_ok e \<and> sc_tenant (ev_scope e) = fst (sync_bindings c)
      \<and> ev_origin e = fst (snd (sync_bindings c))) (bt_events b)"
    unfolding list_all_iff using c(3,4) unfolding batch_ok_def c(5) by blast
  ultimately show ?thesis using c by blast
qed

lemma unwrapped:
  assumes "unwrap_body env cfg content rings = (Inr raw, rings')"
  shows "raw = content \<or> fst (decrypt_bytes (ie_crypto env) (ie_wire env) (api_crypto cfg) content rings) = Inr raw"
  using assms by (auto simp: unwrap_body_def split: if_splits prod.splits sum.splits)

lemma refusals_answer_nothing:
  "read_body cfg declared chunks \<noteq> Inl (Answered j)"
  "fst (unwrap_body env cfg content rings) \<noteq> Inl (Answered j)"
  by (auto simp: read_body_def unwrap_body_def too_large_def read_stream_refuses
      split: if_splits option.splits prod.splits sum.splits exn.splits)

text \<open>
  C6: the door of the sync API.  A batch is answered only on an enabled node, to an
  authenticated caller, for a body within the limit that is, after decryption if it was an
  envelope, the canonical bytes of a valid batch whose events all carry the tenant and the
  origin the caller is bound to; the answer is the result of applying exactly this batch
  under the digest of these bytes.  Every other reply leaves the stored state as it was.
\<close>

theorem batches_route_admission:
  "case sync_v1_batches env cfg now today caller declared chunks node of (r, node') \<Rightarrow>
     (case r of
        Answered j \<Rightarrow> \<exists>c b raw res. api_enabled cfg \<and> caller = Some c
          \<and> (raw = concat chunks \<or>
             fst (decrypt_bytes (ie_crypto env) (ie_wire env) (api_crypto cfg) (concat chunks) (sn_rings node)) = Inr raw)
          \<and> canonical_bytes (ie_wire env) b = Inr raw \<and> batch_ok b
          \<and> int (length (bt_events b)) \<le> api_max_events cfg
          \<and> list_all (\<lambda>e. event_ok e \<and> sc_tenant (ev_scope e) = fst (sync_bindings c)
               \<and> ev_origin e = fst (snd (sync_bindings c))) (bt_events b)
          \<and> apply_batch (api_repo cfg) (lite_apply (ie_lite env)) now (ie_sha env raw) b (sn_repo node)
               = (Inr res, sn_repo node')
          \<and> j = result_to_dict res
      | _ \<Rightarrow> stored node' = stored node)"
proof (cases "read_body cfg declared chunks")
  case (Inl r)
  then show ?thesis using refusals_answer_nothing(1) by (cases r) (auto simp: sync_v1_batches_def)
next
  case body: (Inr content)
  note content = read_body_ok [OF body]
  obtain u rings where u: "unwrap_body env cfg content (sn_rings node) = (u, rings)" by fastforce
  let ?node = "node\<lparr>sn_rings := rings\<rparr>"
  show ?thesis
  proof (cases u)
    case (Inl r)
    then show ?thesis using body u refusals_answer_nothing(2) [of env cfg content "sn_rings node"]
      by (cases r) (auto simp: sync_v1_batches_def stored_def)
  next
    case raw: (Inr raw)
    have route: "sync_v1_batches env cfg now today caller declared chunks node =
      (case admit_batch env cfg caller raw of
         Inl e \<Rightarrow> (batch_failure e, ?node)
       | Inr b \<Rightarrow> (case apply_admitted env cfg now today b ?node of
             (Inl e, node) \<Rightarrow> (batch_failure e, node)
           | (Inr res, node) \<Rightarrow> (Answered (result_to_dict res), node)))"
      using u raw body by (simp add: sync_v1_batches_def Let_def)
    have refused: "case batch_failure e of Answered j \<Rightarrow> P j | _ \<Rightarrow> Q" if Q for e P Q
      using that batch_failure_refuses [of e] by (auto split: reply.splits)
    show ?thesis
    proof (cases "admit_batch env cfg caller raw")
      case (Inl e)
      show ?thesis unfolding route Inl sum.case prod.case by (rule refused) (simp add: stored_def)
    next
      case admitted: (Inr b)
      obtain r node' where run: "apply_admitted env cfg now today b ?node = (r, node')" by fastforce
      show ?thesis
      proof (cases r)
        case (Inl e)
        have "stored node' = stored node" using apply_admitted_fails [of env cfg now today b ?node e node'] run Inl
          by (simp add: stored_def)
        then show ?thesis unfolding route admitted run Inl sum.case prod.case by (rule refused)
      next
        case (Inr res)
        have origin: "raw = concat chunks \<or>
            fst (decrypt_bytes (ie_crypto env) (ie_wire env) (api_crypto cfg) (concat chunks) (sn_rings node)) = Inr raw"
          using unwrapped [OF u [unfolded raw]] content(2) by simp
        have "apply_admitted env cfg now today b ?node = (Inr res, node')" using run Inr by simp
        from applied_batch [OF admitted this] obtain c where c: "caller = Some c"
          "canonical_bytes (ie_wire env) b = Inr raw" "batch_ok b" "int (length (bt_events b)) \<le> api_max_events cfg"
          "list_all (\<lambda>e. event_ok e \<and> sc_tenant (ev_scope e) = fst (sync_bindings c)
             \<and> ev_origin e = fst (snd (sync_bindings c))) (bt_events b)"
          "apply_batch (api_repo cfg) (lite_apply (ie_lite env)) now (ie_sha env raw) b (sn_repo node) = (Inr res, sn_repo node')"
          by auto
        show ?thesis unfolding route admitted run Inr sum.case prod.case reply.case
          using content(1) origin c by blast
      qed
    qed
  qed
qed

subsection \<open>The invariant of a node\<close>

definition node_sound :: "crypto_env \<Rightarrow> sync_settings \<Rightarrow> sync_node \<Rightarrow> bool" where
  "node_sound crypto cfg node = (repo_ok (api_repo cfg) (sn_repo node)
     \<and> risk_ok (sg_risks (sn_screen node)) \<and> cache_coherent crypto (sn_rings node))"

text \<open>
  What can happen to a node: a request to one of the routes, each with its own clock and
  parameters, or a step of its own repository (a local capture, the dispatcher, compaction).
\<close>

inductive serves :: "crypto_env \<Rightarrow> sync_settings \<Rightarrow> sync_node \<Rightarrow> sync_node \<Rightarrow> bool" for crypto cfg where
  serve_batch: "ie_crypto env = crypto \<Longrightarrow>
    serves crypto cfg node (snd (sync_v1_batches env cfg now today caller declared chunks node))"
| serve_changes: "serves crypto cfg node (snd (sync_v1_changes env cfg now caller cursor limit node))"
| serve_snapshot: "serves crypto cfg node (snd (sync_v1_snapshot env cfg fresh now caller request cursor limit node))"
| serve_own: "sync_step (api_repo cfg) (lite_apply lenv) (lite_current (api_repo cfg) lenv) (sn_repo node) repo' \<Longrightarrow>
    serves crypto cfg node (node\<lparr>sn_repo := repo'\<rparr>)"

lemma lite_step_ok:
  "config_ok cfg \<Longrightarrow> repo_ok cfg rp \<Longrightarrow> sync_step cfg (lite_apply env) (lite_current cfg env) rp rp' \<Longrightarrow> repo_ok cfg rp'"
  by (rule lite.step_ok)

lemma scan_keeps [keeps]:
  "scan_sync_events env wenv nenv today es st = (r, st') \<Longrightarrow> risk_ok (sg_risks st) \<Longrightarrow> risk_ok (sg_risks st')"
  by (auto simp: scan_sync_events_def mark_injection_suspected_def intro: mark_nodes_ok split: sum.splits)

lemma apply_admitted_sound:
  assumes "config_ok (api_repo cfg)" "node_sound crypto cfg node"
  shows "node_sound crypto cfg (snd (apply_admitted env cfg now today b node))"
proof -
  obtain r screen where scan: "scan_sync_events (ie_screen env) (ie_wire env) (le_node (ie_lite env)) today (bt_events b)
      (sn_screen node) = (r, screen)" by fastforce
  have "risk_ok (sg_risks screen)" using scan_keeps [OF scan] assms(2) by (simp add: node_sound_def)
  moreover have "repo_ok (api_repo cfg) (snd (apply_batch (api_repo cfg) (lite_apply (ie_lite env)) now digest b (sn_repo node)))" for digest
    using lite_step_ok [OF assms(1) _ step_batch] assms(2) by (simp add: node_sound_def)
  ultimately show ?thesis
    using assms(2) scan
    by (auto simp: apply_admitted_def node_sound_def split_beta Let_def split: sum.splits)
qed

lemma unwrap_keeps:
  "unwrap_body env cfg raw rings = (r, rings') \<Longrightarrow> cache_coherent (ie_crypto env) rings \<Longrightarrow> cache_coherent (ie_crypto env) rings'"
proof -
  have "cache_coherent (ie_crypto env) rings \<Longrightarrow>
      cache_coherent (ie_crypto env) (snd (decrypt_bytes (ie_crypto env) (ie_wire env) (api_crypto cfg) raw rings))"
    by (auto simp: decrypt_bytes_def split_beta Let_def get_ring_fresh(2) split: sum.splits)
  then show "unwrap_body env cfg raw rings = (r, rings') \<Longrightarrow> cache_coherent (ie_crypto env) rings \<Longrightarrow> ?thesis"
    by (auto simp: unwrap_body_def split: if_splits prod.splits sum.splits)
qed

lemma batches_route_sound:
  assumes "config_ok (api_repo cfg)" "node_sound (ie_crypto env) cfg node"
  shows "node_sound (ie_crypto env) cfg (snd (sync_v1_batches env cfg now today caller declared chunks node))"
proof (cases "read_body cfg declared chunks")
  case (Inr content)
  obtain u rings where u: "unwrap_body env cfg content (sn_rings node) = (u, rings)" by fastforce
  have kept: "node_sound (ie_crypto env) cfg (node\<lparr>sn_rings := rings\<rparr>)"
    using unwrap_keeps [OF u] assms(2) by (simp add: node_sound_def)
  from apply_admitted_sound [OF assms(1) this] kept show ?thesis
    using Inr u by (auto simp: sync_v1_batches_def Let_def split: sum.splits prod.splits) (metis snd_conv)+
qed (use assms in \<open>simp add: sync_v1_batches_def\<close>)

lemma repo_change_sound:
  "node_sound crypto cfg node \<Longrightarrow> repo_ok (api_repo cfg) repo \<Longrightarrow> node_sound crypto cfg (node\<lparr>sn_repo := repo\<rparr>)"
  by (simp add: node_sound_def)

lemma changes_route_sound:
  assumes "config_ok (api_repo cfg)" "node_sound crypto cfg node"
  shows "node_sound crypto cfg (snd (sync_v1_changes env cfg now caller cursor limit node))"
proof -
  have "repo_ok (api_repo cfg) (snd (sync_mutation (read_page now remote consumer claims limit) (sn_repo node)))"
    for remote consumer claims
    using lite_step_ok [OF assms(1) _ step_page] assms(2) by (simp add: node_sound_def)
  from repo_change_sound [OF assms(2) this] assms(2) show ?thesis
    by (auto simp: sync_v1_changes_def split_beta Let_def split: option.splits sum.splits)
qed

lemma snapshot_route_sound:
  assumes "config_ok (api_repo cfg)" "node_sound crypto cfg node"
  shows "node_sound crypto cfg (snd (sync_v1_snapshot env cfg fresh now caller request cursor limit node))"
proof -
  have repo: "repo_ok (api_repo cfg) (sn_repo node)" using assms(2) by (simp add: node_sound_def)
  have "repo_ok (api_repo cfg) (snd (snapshot_page_of env cfg fresh now c request cursor limit (sn_repo node)))" for c
    using repo lite_step_ok [OF assms(1) repo step_snapshot] lite_step_ok [OF assms(1) repo step_snapshot_page]
    by (auto simp: snapshot_page_of_def split_beta Let_def split: option.splits sum.splits)
  from repo_change_sound [OF assms(2) this] assms(2) show ?thesis
    by (auto simp: sync_v1_snapshot_def split_beta Let_def split: option.splits sum.splits)
qed

lemma serves_sound:
  "serves crypto cfg node node' \<Longrightarrow> config_ok (api_repo cfg) \<Longrightarrow> node_sound crypto cfg node \<Longrightarrow> node_sound crypto cfg node'"
proof (induction rule: serves.induct)
  case (serve_batch env node now today caller declared chunks)
  then show ?case using batches_route_sound by blast
next
  case serve_changes then show ?case by (intro changes_route_sound)
next
  case serve_snapshot then show ?case by (intro snapshot_route_sound)
next
  case (serve_own lenv node repo')
  have "repo_ok (api_repo cfg) (sn_repo node)" using serve_own(3) by (simp add: node_sound_def)
  from lite_step_ok [OF serve_own(2) this serve_own(1)]
  show ?case by (rule repo_change_sound [OF serve_own(3)])
qed

definition fresh_node :: "business \<Rightarrow> sync_node" where
  "fresh_node b = \<lparr>sn_repo = empty_repo b, sn_screen = \<lparr>sg_risks = empty_registry, sg_scans = []\<rparr>, sn_rings = []\<rparr>"

lemma fresh_node_sound: "config_ok (api_repo cfg) \<Longrightarrow> node_sound crypto cfg (fresh_node b)"
  by (simp add: node_sound_def fresh_node_def empty_repo_ok cache_starts_coherent)

lemma traffic_sound:
  assumes "(serves crypto cfg)\<^sup>*\<^sup>* (fresh_node b) node" "config_ok (api_repo cfg)"
  shows "node_sound crypto cfg node"
  using assms(1)
proof (induction rule: rtranclp_induct)
  case base show ?case by (rule fresh_node_sound [OF assms(2)])
next
  case (step y z) show ?case by (rule serves_sound [OF step(2) assms(2) step(3)])
qed

text \<open>
  C11: a node withstands its traffic.  Whatever requests reach the three routes from a fresh
  start, valid or not, from any caller and in any order, interleaved with the steps of the
  repository itself, the invariant of the repository holds, the risk registry is well formed
  and bounded, and the key cache gives exactly the ring that the environment stands for.
\<close>

theorem traffic_keeps_node:
  assumes "(serves crypto cfg)\<^sup>*\<^sup>* (fresh_node b) node" "config_ok (api_repo cfg)"
  shows "sync_ok (api_repo cfg) (rp_sync (sn_repo node)) \<and> risk_ok (sg_risks (sn_screen node))
    \<and> fst (get_ring crypto keys (sn_rings node)) = fresh_ring crypto keys"
  using traffic_sound [OF assms] get_ring_fresh(1) by (auto simp: node_sound_def repo_ok_def)

subsection \<open>Cursors over HTTP\<close>

lemma cp_points: "code_points (cp s)"
proof -
  have "n < 256" if in_text: "n \<in> set (cp s)" for n
  proof -
    obtain c :: char where "n = of_char c" using in_text by (auto simp: cp_def)
    then show ?thesis by simp
  qed
  then show ?thesis by (force simp: code_points_def)
qed

lemma add_keys_active:
  "add_keys active previous keys = Inr out \<Longrightarrow> dict_get keys active = Some b \<Longrightarrow> dict_get out active = Some b"
  by (induction active previous keys rule: add_keys.induct) (auto simp: dict_simps split: if_splits)

lemma codec_active:
  assumes "cursor_codec_of cfg = Inr codec"
  shows "cc_active codec = api_key_id cfg" "dict_get (cc_keys codec) (cc_active codec) = Some (cc_secret codec)"
  using assms add_keys_active by (auto simp: cursor_codec_of_def make_codec_def)

text \<open>The claims of the cursor a page is answered with.\<close>

definition page_claims :: "sync_settings \<Rightarrow> int \<Rightarrow> auth_context \<Rightarrow> sync_page \<Rightarrow> cursor_claims" where
  "page_claims cfg now c p = \<lparr>cl_key = api_key_id cfg, cl_tenant = fst (sync_bindings c),
     cl_remote = fst (snd (sync_bindings c)), cl_consumer = snd (snd (sync_bindings c)),
     cl_after = pg_next p, cl_snapshot = pg_snapshot p, cl_snapshot_id = None, cl_anchor = None,
     cl_issued = now, cl_expires = now + seconds (api_ttl cfg)\<rparr>"

lemma issued_claims:
  assumes "issue_cursor env cfg now c (pg_next p) (pg_snapshot p) None None = Inr token"
    and "code_points (api_key_id cfg)" "pg_snapshot p \<le> MAX_SAFE"
  obtains codec where "cursor_codec_of cfg = Inr codec" "claims_ok (page_claims cfg now c p)"
    "encode_cursor (ie_hmac env) (ie_wire env) codec (page_claims cfg now c p) = Inr token"
proof -
  obtain tenant remote consumer where b: "sync_bindings c = (tenant, remote, consumer)" by (cases "sync_bindings c")
  have points: "code_points tenant" "code_points remote" "code_points consumer"
    using b cp_points by (auto simp: sync_bindings_def Let_def)
  obtain claims codec where i: "make_claims (JInt 1) (JStr (api_key_id cfg)) (JStr tenant) (JStr remote) (JStr consumer)
      (JInt (pg_next p)) (JInt (pg_snapshot p)) (json_opt None) None now (now + seconds (api_ttl cfg)) = Inr claims"
    "cursor_codec_of cfg = Inr codec" "encode_cursor (ie_hmac env) (ie_wire env) codec claims = Inr token"
    using assms(1) b by (auto simp: issue_cursor_def)
  have "claims = page_claims cfg now c p \<and> claims_ok claims"
    using i(1) b points assms(2,3)
    by (auto simp: make_claims_def page_claims_def claims_ok_def valid_text_iff json_opt_def optional_str_def opt_ok_def
        split: if_splits)
  with i that show thesis by blast
qed

text \<open>A token that decodes for one caller decodes for no other.\<close>

lemma decoded_once:
  assumes "check_cursor h w cc token t r k now = Inr x" "check_cursor h w cc token t' r' k' now' = Inr y"
  shows "t = t' \<and> r = r' \<and> k = k'"
  using assms by (auto simp: check_cursor_def split: option.splits if_splits)

lemma mapR_back: "mapR f xs = Inr ys \<Longrightarrow> y \<in> set ys \<Longrightarrow> \<exists>x \<in> set xs. f x = Inr y"
  by (induction xs arbitrary: ys) auto

lemma read_page_items:
  assumes "read_page now remote consumer (Some claims) limit st = Inr (p, st')"
  shows "\<forall>(n, e) \<in> set (pg_items p). cl_after claims < n"
    and "cl_after claims \<noteq> cl_snapshot claims \<Longrightarrow> pg_snapshot p = cl_snapshot claims"
proof -
  let ?snap = "if cl_after claims = cl_snapshot claims then newest_seq (cl_after claims) st else cl_snapshot claims"
  let ?rows = "page_rows st remote (cl_after claims) ?snap"
  obtain items n m where items: "mapR (\<lambda>r. make_item (ob_seq r) (ob_event r)) (take (nat limit) ?rows) = Inr items"
    and page: "make_page items ?snap n m = Inr p"
    using assms by (auto simp: read_page_def Let_def require_str_def require_int_def split: if_splits)
  have p: "pg_items p = items" "pg_snapshot p = ?snap" using page by (auto simp: make_page_iff)
  have "cl_after claims < n" if in_page: "(n, e) \<in> set items" for n e
  proof -
    obtain r where "r \<in> set (take (nat limit) ?rows)" "make_item (ob_seq r) (ob_event r) = Inr (n, e)"
      using mapR_back [OF items in_page] by blast
    then show ?thesis by (auto simp: page_rows_def make_item_def dest: in_set_takeD)
  qed
  then show "\<forall>(n, e) \<in> set (pg_items p). cl_after claims < n" unfolding p by blast
  show "cl_after claims \<noteq> cl_snapshot claims \<Longrightarrow> pg_snapshot p = cl_snapshot claims" by (simp add: p)
qed

text \<open>The page a request for changes reads.\<close>

definition changes_page ::
    "ingress_env \<Rightarrow> sync_settings \<Rightarrow> int \<Rightarrow> auth_context \<Rightarrow> ustring option \<Rightarrow> int \<Rightarrow> sync_node \<Rightarrow> sync_page result" where
  "changes_page env cfg now c cursor limit node =
     bindR (stream_claims env cfg now c cursor) (\<lambda>claims.
       fst (sync_mutation (read_page now (fst (snd (sync_bindings c))) (snd (snd (sync_bindings c))) claims limit)
         (sn_repo node)))"

lemma changes_answer:
  assumes "sync_v1_changes env cfg now (Some c) cursor limit node = (Answered j, node')"
  obtains p where "changes_page env cfg now c cursor limit node = Inr p" "page_reply env cfg now c p = Inr j"
  using assms
  by (auto simp: sync_v1_changes_def changes_page_def reply_of_def split_beta Let_def page_failure_def
      split: if_splits option.splits sum.splits exn.splits prod.splits)

lemma changes_page_read:
  assumes "changes_page env cfg now c cursor limit node = Inr p" "stream_claims env cfg now c cursor = Inr claims"
  obtains st where "read_page now (fst (snd (sync_bindings c))) (snd (snd (sync_bindings c))) claims limit
    (rp_sync (sn_repo node)) = Inr (p, st)"
  using assms by (auto simp: changes_page_def sync_mutation_def split: sum.splits prod.splits)

lemma page_cursor_read:
  assumes "page_reply env cfg now c p = Inr j"
    and "code_points (api_key_id cfg)" "pg_snapshot p \<le> MAX_SAFE"
    and "\<forall>k m. is_bytes (ie_hmac env k m) \<and> ie_hmac env k m \<noteq> []"
    and "claims_readable (ie_wire env) (page_claims cfg now c p)" "now' < now + seconds (api_ttl cfg)"
  obtains token where "field_of j ''next_cursor'' = Some (JStr token)"
    "read_cursor env cfg now' c token = Inr (page_claims cfg now c p)"
    "\<And>c'. sync_bindings c' \<noteq> sync_bindings c \<Longrightarrow> read_cursor env cfg now' c' token = Inl (CursorExpired ''invalid_cursor'')"
proof -
  let ?claims = "page_claims cfg now c p"
  obtain token items where token: "issue_cursor env cfg now c (pg_next p) (pg_snapshot p) None None = Inr token"
    and j: "j = to_obj [''items'', ''snapshot_seq'', ''next_cursor'', ''has_more'']
      [JList items, JInt (pg_snapshot p), JStr token, JBool (pg_more p)]"
    using assms(1) by (auto simp: page_reply_def)
  obtain codec where codec: "cursor_codec_of cfg = Inr codec" and ok: "claims_ok ?claims"
    and enc: "encode_cursor (ie_hmac env) (ie_wire env) codec ?claims = Inr token"
    by (rule issued_claims [OF token assms(2,3)])
  have active: "cl_key ?claims = cc_active codec" using codec_active(1) [OF codec] by (simp add: page_claims_def)
  have fresh: "now' < cl_expires ?claims" using assms(6) by (simp add: page_claims_def)
  have law: "\<forall>m. is_bytes (ie_hmac env (cc_secret codec) m) \<and> ie_hmac env (cc_secret codec) m \<noteq> []"
    using assms(4) by blast
  have "decode_cursor (ie_hmac env) (ie_wire env) codec (JStr token) (cl_tenant ?claims) (cl_remote ?claims)
      (cl_consumer ?claims) now' = Inr ?claims"
    using issued_cursor_accepted [OF ok assms(5) active codec_active(2) [OF codec], of "ie_hmac env" now'] law fresh enc
    by auto
  then have own: "check_cursor (ie_hmac env) (ie_wire env) codec (JStr token) (fst (sync_bindings c))
      (fst (snd (sync_bindings c))) (snd (snd (sync_bindings c))) now' = Inr ?claims"
    by (simp add: page_claims_def)
  have other: "read_cursor env cfg now' c' token = Inl (CursorExpired ''invalid_cursor'')"
    if "sync_bindings c' \<noteq> sync_bindings c" for c'
  proof -
    obtain t r k where b: "sync_bindings c' = (t, r, k)" by (cases "sync_bindings c'")
    show ?thesis
    proof (cases "check_cursor (ie_hmac env) (ie_wire env) codec (JStr token) t r k now'")
      case (Inl e)
      then show ?thesis using b codec by (simp add: read_cursor_def decode_cursor_def)
    next
      case (Inr x)
      from decoded_once [OF own Inr] have "sync_bindings c = (t, r, k)" by (cases "sync_bindings c") simp
      then show ?thesis using that b by simp
    qed
  qed
  have "field_of j ''next_cursor'' = Some (JStr token)"
    by (simp add: j field_of_def to_obj_def cp_inj)
  moreover have "read_cursor env cfg now' c token = Inr ?claims"
    using own codec by (simp add: read_cursor_def decode_cursor_def split_beta)
  ultimately show thesis using that other by blast
qed

lemma page_reply_safe:
  assumes "page_reply env cfg now c p = Inr j"
  shows "pg_snapshot p \<le> MAX_SAFE"
proof -
  obtain t r k where b: "sync_bindings c = (t, r, k)" by (cases "sync_bindings c")
  obtain claims codec token where i: "make_claims (JInt 1) (JStr (api_key_id cfg)) (JStr t) (JStr r) (JStr k)
      (JInt (pg_next p)) (JInt (pg_snapshot p)) (json_opt None) None now (now + seconds (api_ttl cfg)) = Inr claims"
    "encode_cursor (ie_hmac env) (ie_wire env) codec claims = Inr token"
    using assms b by (auto simp: page_reply_def issue_cursor_def)
  have "cl_snapshot claims = pg_snapshot p" using i(1) by (auto simp: make_claims_def split: if_splits)
  moreover have "assert_json (claims_to_dict (ie_wire env) (claims\<lparr>cl_key := cc_active codec\<rparr>)) = Inr ()"
    using i(2) by (auto simp: encode_cursor_def canonical_json_bytes_def Let_def)
  then have "assert_json (JInt (cl_snapshot claims)) = Inr ()"
    by (auto simp: claims_to_dict_def to_obj_def CLAIM_FIELDS_def)
  ultimately show ?thesis by (auto split: if_splits)
qed

text \<open>
  C22: paging over HTTP resumes where it stopped, for this caller alone.  The answer to a
  request for changes carries a cursor; sent back by the same caller before it expires, from
  then on only events after the last page are answered, within the snapshot of that page
  while it is not exhausted; sent by any caller with another tenant, node or credential it
  is refused and nothing changes.  (\<open>json.loads\<close> reads the canonical text of the claims back
  with its entries in the order of the text.)
\<close>

theorem stream_cursor_continues:
  assumes "sync_v1_changes env cfg now (Some c) cursor limit node = (Answered j, node')"
    and "changes_page env cfg now c cursor limit node = Inr p"
    and "code_points (api_key_id cfg)" "\<forall>k m. is_bytes (ie_hmac env k m) \<and> ie_hmac env k m \<noteq> []"
    and "claims_readable (ie_wire env) (page_claims cfg now c p)" "now' < now + seconds (api_ttl cfg)"
  shows "\<exists>token. page_reply env cfg now c p = Inr j \<and> field_of j ''next_cursor'' = Some (JStr token)
    \<and> (\<forall>limit' n j' n'. sync_v1_changes env cfg now' (Some c) (Some token) limit' n = (Answered j', n') \<longrightarrow>
         (\<exists>p'. changes_page env cfg now' c (Some token) limit' n = Inr p' \<and> page_reply env cfg now' c p' = Inr j'
            \<and> (\<forall>(seq, e) \<in> set (pg_items p'). pg_next p < seq)
            \<and> (pg_next p \<noteq> pg_snapshot p \<longrightarrow> pg_snapshot p' = pg_snapshot p)))
    \<and> (\<forall>c' limit' n. sync_bindings c' \<noteq> sync_bindings c \<longrightarrow> 1 \<le> limit' \<and> limit' \<le> api_max_page cfg \<longrightarrow>
         sync_v1_changes env cfg now' (Some c') (Some token) limit' n = (Refused 400 ''invalid_cursor'', n))"
proof -
  have p: "page_reply env cfg now c p = Inr j" using changes_answer [OF assms(1)] assms(2) by auto
  have safe: "pg_snapshot p \<le> MAX_SAFE" by (rule page_reply_safe [OF p])
  obtain token where token: "field_of j ''next_cursor'' = Some (JStr token)"
    and own: "read_cursor env cfg now' c token = Inr (page_claims cfg now c p)"
    and other: "\<And>c'. sync_bindings c' \<noteq> sync_bindings c \<Longrightarrow>
      read_cursor env cfg now' c' token = Inl (CursorExpired ''invalid_cursor'')"
    by (rule page_cursor_read [OF p assms(3) safe assms(4-6)]) blast
  have enabled: "api_enabled cfg" using assms(1) by (auto simp: sync_v1_changes_def split: if_splits)
  have claims: "stream_claims env cfg now' c (Some token) = Inr (Some (page_claims cfg now c p))"
    using own by (simp add: stream_claims_def) (simp add: page_claims_def)
  have "\<exists>p'. changes_page env cfg now' c (Some token) limit' n = Inr p' \<and> page_reply env cfg now' c p' = Inr j'
      \<and> (\<forall>(seq, e) \<in> set (pg_items p'). pg_next p < seq)
      \<and> (pg_next p \<noteq> pg_snapshot p \<longrightarrow> pg_snapshot p' = pg_snapshot p)"
    if again: "sync_v1_changes env cfg now' (Some c) (Some token) limit' n = (Answered j', n')" for limit' n j' n'
  proof -
    obtain p' where p': "changes_page env cfg now' c (Some token) limit' n = Inr p'" "page_reply env cfg now' c p' = Inr j'"
      by (rule changes_answer [OF again])
    obtain st where "read_page now' (fst (snd (sync_bindings c))) (snd (snd (sync_bindings c)))
        (Some (page_claims cfg now c p)) limit' (rp_sync (sn_repo n)) = Inr (p', st)"
      by (rule changes_page_read [OF p'(1) claims])
    from read_page_items [OF this] p' show ?thesis by (simp add: page_claims_def)
  qed
  moreover have "sync_v1_changes env cfg now' (Some c') (Some token) limit' n = (Refused 400 ''invalid_cursor'', n)"
    if "sync_bindings c' \<noteq> sync_bindings c" "1 \<le> limit' \<and> limit' \<le> api_max_page cfg" for c' limit' n
    using other [OF that(1)] that(2) enabled
    by (simp add: sync_v1_changes_def stream_claims_def type_error_def value_error_def)
  ultimately show ?thesis using p token by blast
qed

subsection \<open>A small node\<close>

definition small_settings :: sync_settings where
  "small_settings = \<lparr>api_enabled = True, api_max_bytes = 100000, api_max_events = 10, api_max_page = 100,
     api_key_id = cp ''k1'', api_secret = replicate 32 65, api_previous = [], api_ttl = 1,
     api_crypto = only_key 1, api_repo = sample_config\<rparr>"

definition second_env :: "json \<Rightarrow> wire_env" where
  "second_env v = \<lparr>time_to_wire = (\<lambda>t. if t = 0 then epoch_text else tick_text),
     time_from_wire = (\<lambda>s. if s = epoch_text then Some 0 else if s = tick_text then Some 1000000 else None),
     json_loads = (\<lambda>s. if s = jcs v then Inr (in_order v) else Inl JSONDecodeError)\<rparr>"

definition small_env :: "json \<Rightarrow> ingress_env" where
  "small_env v = \<lparr>ie_lite = \<lparr>le_node = plain_nodes, le_wire = second_env v, le_iso_time = (\<lambda>_. None),
       le_strptime = (\<lambda>_. None), le_uuid5 = (\<lambda>s. s), le_now = 0\<rparr>,
     ie_crypto = toy_crypto, ie_screen = any_space, ie_sha = (\<lambda>b. b), ie_hmac = (\<lambda>k m. [7]),
     ie_tokens = (\<lambda>_. Inl (ValueErr ''not JSON'')),
     ie_float = (\<lambda>_. \<lparr>float_finite = True, float_zero = False, float_repr = ''1.0'', float_plain = True\<rparr>)\<rparr>"

definition first_page :: sync_page where
  "first_page = \<lparr>pg_items = [], pg_snapshot = 0, pg_next = 0, pg_more = False\<rparr>"

definition small_codec :: cursor_codec where
  "small_codec = \<lparr>cc_active = cp ''k1'', cc_secret = replicate 32 65, cc_keys = [(cp ''k1'', replicate 32 65)]\<rparr>"

definition small_claims :: cursor_claims where
  "small_claims = page_claims small_settings 0 sample_context first_page"

definition cursor_env :: ingress_env where
  "cursor_env = small_env (claims_to_dict (second_env JNull) small_claims)"

lemma small_codec: "cursor_codec_of small_settings = Inr small_codec"
proof -
  have "utf8 (replicate 32 65) = replicate 32 65" by (rule utf8_ascii) (simp add: list_all_iff)
  moreover have "scalar_string (replicate 32 65)" "scalar_string (cp ''k1'')" "cp ''k1'' \<noteq> []"
    by (simp_all add: scalar_string_def surrogate_def cp_def)
  ultimately show ?thesis
    by (simp add: cursor_codec_of_def make_codec_def small_settings_def small_codec_def validate_secret_def
        require_exact_string_def)
qed

lemma small_bindings: "sync_bindings sample_context = (cp ''t'', cp ''host'', cp ''b'')"
  by (simp add: sync_bindings_def sample_context_def)

lemma small_claims_ok: "claims_ok small_claims"
  by (simp add: claims_ok_def small_claims_def page_claims_def small_bindings small_settings_def first_page_def
      opt_ok_def MAX_SAFE_def cp_def valid_point_def surrogate_def)

lemma small_claims_readable: "claims_readable (ie_wire cursor_env) small_claims"
proof -
  let ?v = "claims_to_dict (second_env JNull) small_claims"
  have same: "claims_to_dict (second_env ?v) small_claims = ?v" by (simp add: claims_to_dict_def second_env_def)
  have ne: "tick_text \<noteq> epoch_text" by (simp add: tick_text_def epoch_text_def cp_inj)
  have "time_back (second_env ?v) 0" "time_back (second_env ?v) 1000000"
    using ne cp_ascii [of "''1970-01-01T00:00:00.000000Z''"] cp_ascii [of "''1970-01-01T00:00:00.000001Z''"]
    by (simp_all add: time_back_def second_env_def tick_text_def epoch_text_def)
  moreover have "cl_issued small_claims = 0" "cl_expires small_claims = 1000000" "cl_anchor small_claims = None"
    by (simp_all add: small_claims_def page_claims_def small_settings_def)
  moreover have "loads_back (second_env ?v) ?v" by (simp add: loads_back_def second_env_def del: jcs.simps)
  ultimately show ?thesis by (simp add: claims_readable_def cursor_env_def small_env_def same)
qed

lemma small_page: "changes_page cursor_env small_settings 0 sample_context None 10 (fresh_node empty_business) = Inr first_page"
proof -
  have "make_page [] 0 0 False = Inr first_page"
    by (simp add: make_page_def first_page_def require_exact_int_def check_continuation_def)
  then show ?thesis
    by (simp add: changes_page_def stream_claims_def sync_mutation_def read_page_def small_bindings require_str_def
        require_int_def cp_def find_cursor_def newest_seq_def page_rows_def fresh_node_def empty_repo_def empty_sync_def
        Let_def del: bindR_Inr_iff)
qed

lemma small_answer:
  obtains j node where "sync_v1_changes cursor_env small_settings 0 (Some sample_context) None 10 (fresh_node empty_business)
    = (Answered j, node)"
proof -
  obtain token where token: "encode_cursor (ie_hmac cursor_env) (ie_wire cursor_env) small_codec small_claims = Inr token"
    using issued_cursor_accepted [OF small_claims_ok small_claims_readable, of small_codec "ie_hmac cursor_env" 0]
    by (auto simp: small_claims_def page_claims_def small_settings_def small_codec_def cursor_env_def small_env_def
        is_bytes_def)
  have "make_claims (JInt 1) (JStr (api_key_id small_settings)) (JStr (cp ''t'')) (JStr (cp ''host'')) (JStr (cp ''b''))
      (JInt (pg_next first_page)) (JInt (pg_snapshot first_page)) (json_opt None) None 0
      (0 + seconds (api_ttl small_settings)) = Inr small_claims"
    by (simp add: make_claims_def first_page_def small_settings_def small_claims_def page_claims_def small_bindings
        str_value_def int_value_def require_exact_string_def require_exact_int_def json_opt_def optional_str_def
        assert_scalar_def cp_def surrogate_def del: bindR_Inr_iff)
  then have "issue_cursor cursor_env small_settings 0 sample_context (pg_next first_page) (pg_snapshot first_page) None None
      = Inr token"
    using token by (simp add: issue_cursor_def small_bindings small_codec del: bindR_Inr_iff)
  then have "\<exists>j. page_reply cursor_env small_settings 0 sample_context first_page = Inr j"
    by (simp add: page_reply_def first_page_def)
  then obtain j where j: "page_reply cursor_env small_settings 0 sample_context first_page = Inr j" by blast
  have "fst (sync_mutation (read_page 0 (cp ''host'') (cp ''b'') None 10) (sn_repo (fresh_node empty_business))) = Inr first_page"
    using small_page by (simp add: changes_page_def stream_claims_def small_bindings del: bindR_Inr_iff)
  moreover have "api_enabled small_settings" "api_max_page small_settings = 100" by (simp_all add: small_settings_def)
  ultimately have "fst (sync_v1_changes cursor_env small_settings 0 (Some sample_context) None 10 (fresh_node empty_business))
      = Answered j"
    using j by (simp add: sync_v1_changes_def stream_claims_def small_bindings split_beta Let_def reply_of_def)
  then show thesis using that by (metis prod.collapse)
qed

lemma small_limit: "1 \<le> (10 :: int) \<and> (10 :: int) \<le> api_max_page small_settings"
  by (simp add: small_settings_def)

theorem stream_cursor_continues_witness:
  "\<exists>token. \<forall>c' n. sync_bindings c' \<noteq> (cp ''t'', cp ''host'', cp ''b'') \<longrightarrow>
     sync_v1_changes cursor_env small_settings 5 (Some c') (Some token) 10 n = (Refused 400 ''invalid_cursor'', n)"
proof -
  obtain j node where answer: "sync_v1_changes cursor_env small_settings 0 (Some sample_context) None 10
      (fresh_node empty_business) = (Answered j, node)"
    by (rule small_answer)
  have "code_points (api_key_id small_settings)" by (simp add: small_settings_def cp_points)
  moreover have "\<forall>k m. is_bytes (ie_hmac cursor_env k m) \<and> ie_hmac cursor_env k m \<noteq> []"
    by (simp add: cursor_env_def small_env_def is_bytes_def)
  moreover have "5 < 0 + seconds (api_ttl small_settings)" by (simp add: small_settings_def)
  ultimately show ?thesis
    using stream_cursor_continues [OF answer small_page _ _ small_claims_readable [unfolded small_claims_def]]
    unfolding small_bindings by (metis small_limit)
qed

theorem traffic_keeps_node_witness:
  "sync_ok sample_config (rp_sync (sn_repo (snd (sync_v1_changes cursor_env small_settings 0 None None 10
     (fresh_node empty_business)))))"
proof -
  have "(serves toy_crypto small_settings)\<^sup>*\<^sup>* (fresh_node empty_business)
      (snd (sync_v1_changes cursor_env small_settings 0 None None 10 (fresh_node empty_business)))"
    by (rule r_into_rtranclp) (rule serve_changes)
  from traffic_keeps_node [OF this] show ?thesis using sample_config_ok by (simp add: small_settings_def)
qed

end
