(* ===== verification/Ingress_Roundtrip.thy ===== *)
theory Ingress_Roundtrip
  imports Ingress_Facts
begin

section \<open>What one node sends another accepts\<close>

text \<open>
  The canonical bytes of a batch pass the strict reader of Sync\_Ingress.  The tokenizer is
  given by the tokens of a canonical text: the numerals as written, the entries of an object
  in the order of the text.  A float may come back as the integer its text spells, so a
  payload is read back up to the order of its entries and the spelling of its numbers; its
  canonical bytes, and so the digest of the batch, are the same.
\<close>

subsection \<open>Tokens of a canonical text\<close>

fun tokens_of :: "json \<Rightarrow> raw_json" where
  "tokens_of JNull = RawNull"
| "tokens_of (JBool b) = RawBool b"
| "tokens_of (JInt n) = RawNumber (show_int n)"
| "tokens_of (JFloat f) = RawNumber (jcs_float f)"
| "tokens_of (JStr s) = RawStr s"
| "tokens_of (JList xs) = RawList (map tokens_of xs)"
| "tokens_of (JObj kvs) = RawPairs (sort_key by_key (map (\<lambda>(k, v). (k, tokens_of v)) kvs))"

text \<open>The value read back.\<close>

fun reread :: "(string \<Rightarrow> py_float) \<Rightarrow> json \<Rightarrow> json" where
  "reread float (JFloat f) = (case protocol_number float True (jcs_float f) of Inr j \<Rightarrow> j | Inl _ \<Rightarrow> JFloat f)"
| "reread float (JList xs) = JList (map (reread float) xs)"
| "reread float (JObj kvs) = JObj (sort_key by_key (map (\<lambda>(k, v). (k, reread float v)) kvs))"
| "reread float v = v"

text \<open>
  What the reader relies on: floats stand inside a payload only, and the number their text is
  read as has that text again; the keys of an object are distinct.
\<close>

fun rereadable :: "(string \<Rightarrow> py_float) \<Rightarrow> bool \<Rightarrow> json \<Rightarrow> bool" where
  "rereadable float p (JFloat f) = (p \<and> valid_text (cp (jcs_float f)) \<and>
     (case protocol_number float True (jcs_float f) of
        Inr j \<Rightarrow> jcs j = cp (jcs_float f) \<and> assert_json j = Inr () | Inl _ \<Rightarrow> False))"
| "rereadable float p (JList xs) = list_all (rereadable float p) xs"
| "rereadable float p (JObj kvs) = (distinct (map fst kvs) \<and>
     list_all (\<lambda>(k, v). rereadable float (p \<or> k = cp ''payload'') v) kvs)"
| "rereadable float p v = True"

subsection \<open>Numerals\<close>

lemma show_nat_digits: "\<forall>c \<in> set (show_nat n). 48 \<le> (of_char c :: nat) \<and> (of_char c :: nat) \<le> 57"
proof (induction n rule: show_nat.induct)
  case (1 n)
  have digit: "48 \<le> (of_char (char_of (48 + d :: nat) :: char) :: nat) \<and> (of_char (char_of (48 + d :: nat) :: char) :: nat) \<le> 57"
    if "d < 10" for d using that by simp
  show ?case
    using 1 digit [of n] digit [of "n mod 10"] by (subst show_nat.simps) auto
qed

lemma read_nat_append: "read_nat (s @ [c]) acc = 10 * read_nat s acc + (of_char c - 48)"
  by (induction s arbitrary: acc) simp_all

lemma read_show_nat: "read_nat (show_nat n) 0 = n"
proof (induction n rule: show_nat.induct)
  case (1 n)
  have digit: "(of_char (char_of (48 + d :: nat) :: char) :: nat) = 48 + d" if "d < 10" for d using that by simp
  show ?case
    using 1 digit [of n] digit [of "n mod 10"]
    by (subst show_nat.simps) (auto simp: read_nat_append)
qed

lemma show_nat_nonempty: "show_nat n \<noteq> []"
  by (subst show_nat.simps) simp

lemma char_codes: "(of_char CHR ''-'' :: nat) = 45" "(of_char CHR ''+'' :: nat) = 43" "(of_char CHR ''.'' :: nat) = 46"
  "(of_char CHR ''e'' :: nat) = 101" "(of_char CHR ''E'' :: nat) = 69"
  by simp_all

lemma show_nat_plain: "c \<in> set (show_nat n) \<Longrightarrow> c \<notin> {CHR ''-'', CHR ''+'', CHR ''.'', CHR ''e'', CHR ''E''}"
  using show_nat_digits [of n] char_codes by fastforce

lemma read_show_int: "read_int (show_int n) = n"
proof -
  obtain c r where d: "show_nat (nat n) = c # r" using show_nat_nonempty by (cases "show_nat (nat n)") auto
  then have "c \<notin> {CHR ''-'', CHR ''+''}" using show_nat_plain [of c "nat n"] by auto
  then show ?thesis
    using read_show_nat [of "nat n"] read_show_nat [of "nat (- n)"] d
    by (auto simp: read_int_def show_int_def)
qed

lemma length_show_nat: "n < 10 ^ k \<Longrightarrow> 0 < k \<Longrightarrow> length (show_nat n) \<le> k"
proof (induction k arbitrary: n)
  case (Suc k)
  show ?case
  proof (cases "n < 10")
    case True
    then show ?thesis by (simp add: show_nat.simps)
  next
    case False
    then have "n div 10 < 10 ^ k" "0 < k" using Suc.prems by (auto intro: ccontr)
    then show ?thesis using Suc.IH [of "n div 10"] False by (subst show_nat.simps) simp
  qed
qed simp

lemma int_of_show:
  assumes "abs n \<le> MAX_SAFE"
  shows "int_of_numeral (show_int n) = Inr n"
proof -
  have small: "nat (abs n) < 10 ^ 20" using assms by (auto simp: MAX_SAFE_def)
  have "length (show_nat (nat (abs n))) \<le> 20" using length_show_nat [OF small] by simp
  moreover have "filter (\<lambda>c. c \<noteq> CHR ''-'') (show_int n) = show_nat (nat (abs n))"
  proof -
    have "filter (\<lambda>c. c \<noteq> CHR ''-'') (show_nat m) = show_nat m" for m
      using show_nat_plain [of _ m] by (auto simp: filter_id_conv)
    then show ?thesis by (auto simp: show_int_def)
  qed
  moreover have "\<not> fractional (show_int n)"
    using show_nat_plain by (auto simp: fractional_def show_int_def)
  ultimately show ?thesis by (simp add: int_of_numeral_def MAX_STR_DIGITS_def read_show_int)
qed

subsection \<open>The strict reader inverts the canonical text\<close>

lemma normalise_items_map:
  "(\<And>x. x \<in> set xs \<Longrightarrow> normalise float p (f x) = Inr (g x)) \<Longrightarrow>
    normalise_items float p (map f xs) = Inr (map g xs)"
  by (induction xs) simp_all

lemma normalise_pairs_map:
  "(\<And>k v. (k, v) \<in> set kvs \<Longrightarrow> normalise float (p \<or> k = cp ''payload'') (f v) = Inr (g v)) \<Longrightarrow>
    normalise_pairs float p (map (\<lambda>(k, v). (k, f v)) kvs) = Inr (map (\<lambda>(k, v). (k, g v)) kvs)"
  by (induction kvs) auto

lemma normalise_tokens:
  "assert_json v = Inr () \<Longrightarrow> rereadable float p v \<Longrightarrow> normalise float p (tokens_of v) = Inr (reread float v)"
proof (induction v arbitrary: p rule: tokens_of.induct)
  case (3 n)
  then have "abs n \<le> MAX_SAFE" by (auto split: if_splits)
  moreover have "\<not> fractional (show_int n)"
    using show_nat_plain by (auto simp: fractional_def show_int_def)
  ultimately show ?case by (simp add: protocol_number_def int_of_show)
next
  case (4 f)
  then show ?case by (auto split: sum.splits)
next
  case (6 xs)
  have "normalise_items float p (map tokens_of xs) = Inr (map (reread float) xs)"
    by (rule normalise_items_map) (use 6 in \<open>auto simp: all_ok_iff list_all_iff\<close>)
  then show ?case by simp
next
  case (7 kvs)
  let ?ls = "sort_key by_key kvs"
  have "normalise_pairs float p (map (\<lambda>(k, v). (k, tokens_of v)) ?ls) = Inr (map (\<lambda>(k, v). (k, reread float v)) ?ls)"
  proof (rule normalise_pairs_map)
    fix k v assume "(k, v) \<in> set ?ls"
    then have kv: "(k, v) \<in> set kvs" by simp
    then have "assert_json v = Inr ()" "rereadable float (p \<or> k = cp ''payload'') v"
      using "7.prems" by (auto simp: all_ok_iff list_all_iff)
    with 7(1) kv show "normalise float (p \<or> k = cp ''payload'') (tokens_of v) = Inr (reread float v)" by blast
  qed
  then show ?case by (simp only: tokens_of.simps reread.simps normalise.simps sort_values bindR.simps)
qed simp_all

lemma tokens_distinct: "rereadable float p v \<Longrightarrow> no_duplicate_keys (tokens_of v)"
proof (induction v arbitrary: p rule: tokens_of.induct)
  case (7 kvs)
  have "map fst (map (\<lambda>(k, v). (k, tokens_of v)) kvs) = map fst kvs" by auto
  then have "distinct (map fst (map (\<lambda>(k, v). (k, tokens_of v)) kvs))" using "7.prems" by (simp del: map_map)
  then have "distinct (map fst (sort_key by_key (map (\<lambda>(k, v). (k, tokens_of v)) kvs)))"
    by (simp only: distinct_map set_sort distinct_sort)
  moreover have "list_all (\<lambda>(k, v). no_duplicate_keys v) (sort_key by_key (map (\<lambda>(k, v). (k, tokens_of v)) kvs))"
    using 7 by (fastforce simp: list_all_iff)
  ultimately show ?case by simp
qed (auto simp: list_all_iff)

lemma reread_canonical:
  "assert_json v = Inr () \<Longrightarrow> rereadable float p v \<Longrightarrow>
    assert_json (reread float v) = Inr () \<and> jcs (reread float v) = jcs v"
proof (induction v arbitrary: p rule: tokens_of.induct)
  case (4 f)
  then show ?case by (auto split: sum.splits)
next
  case (6 xs)
  have "\<forall>x \<in> set xs. assert_json (reread float x) = Inr () \<and> jcs (reread float x) = jcs x"
    using 6 by (auto simp: all_ok_iff list_all_iff)
  moreover from this have "map jcs (map (reread float) xs) = map jcs xs" by simp
  ultimately show ?case by (simp add: all_ok_iff del: map_map)
next
  case (7 kvs)
  have each: "assert_json (reread float v) = Inr () \<and> jcs (reread float v) = jcs v"
    and key: "\<exists>u. require_exact_string ''JSON object key'' False k = Inr u" if kv: "(k, v) \<in> set kvs" for k v
  proof -
    have "assert_json v = Inr ()" "rereadable float (p \<or> k = cp ''payload'') v"
      using "7.prems" kv by (auto simp: all_ok_iff list_all_iff)
    with 7(1) kv show "assert_json (reread float v) = Inr () \<and> jcs (reread float v) = jcs v" by blast
    show "\<exists>u. require_exact_string ''JSON object key'' False k = Inr u"
      using "7.prems"(1) kv by (auto simp: all_ok_iff)
  qed
  let ?F = "\<lambda>(k, v). (k, json_string k @ [58] @ jcs v)" and ?ls = "map (\<lambda>(k, v). (k, reread float v)) kvs"
  have "sort_key by_key (map ?F (sort_key by_key ?ls)) = map ?F (sort_key by_key (sort_key by_key ?ls))"
    by (rule sort_entries) auto
  also have "\<dots> = sort_key by_key (map ?F ?ls)"
    unfolding sort_twice by (rule sort_entries [symmetric]) auto
  also have "map ?F ?ls = map ?F kvs" using each by auto
  finally have "jcs (reread float (JObj kvs)) = jcs (JObj kvs)" by (simp only: jcs.simps reread.simps)
  moreover have "assert_json (reread float (JObj kvs)) = Inr ()"
    using each key by (auto simp: all_ok_iff)
  ultimately show ?case by blast
qed simp_all

subsection \<open>Objects with fixed fields\<close>

lemma exact_dict_reread:
  assumes "distinct names" "length vs = length names"
  shows "exact_dict names name (reread float (to_obj names vs)) = Inr (map (reread float) vs)"
  using exact_dict_entries [OF assms, of name "reread float"] by (simp add: to_obj_def)

lemma to_obj_values:
  assumes "assert_json (to_obj names vs) = Inr ()" "length vs = length names" "v \<in> set vs"
  shows "assert_json v = Inr ()"
proof -
  have "v \<in> snd ` set (zip (map cp names) vs)"
    using assms(2,3) map_snd_zip [of "map cp names" vs] by (metis length_map set_map)
  then show ?thesis using assms(1) by (auto simp: to_obj_def all_ok_iff)
qed

lemma to_obj_canonical:
  assumes "list_all2 (\<lambda>v w. assert_json w = Inr () \<and> jcs w = jcs v) vs ws" "assert_json (to_obj names vs) = Inr ()"
    "length vs = length names"
  shows "assert_json (to_obj names ws) = Inr () \<and> jcs (to_obj names ws) = jcs (to_obj names vs)"
proof -
  have len: "length ws = length vs" using assms(1) by (simp add: list_all2_lengthD)
  have "map jcs ws = map jcs vs"
    using assms(1) len by (intro nth_equalityI) (auto simp: list_all2_conv_all_nth)
  have entries: "map (\<lambda>(k, v). (k, json_string k @ [58] @ jcs v)) (zip ks us) =
      map (\<lambda>(k, t). (k, json_string k @ [58] @ t)) (zip ks (map jcs us))" for ks us
    by (auto simp: zip_map2)
  have "jcs (to_obj names ws) = jcs (to_obj names vs)"
    unfolding to_obj_def jcs.simps entries \<open>map jcs ws = map jcs vs\<close> ..
  moreover have "assert_json (to_obj names ws) = Inr ()"
  proof -
    have "\<exists>u. require_exact_string ''JSON object key'' False k = Inr u" if "k \<in> set (map cp names)" for k
    proof -
      from that obtain i where i: "i < length names" "k = map cp names ! i" by (auto simp: in_set_conv_nth)
      then have "(k, vs ! i) \<in> set (zip (map cp names) vs)" using assms(3) by (auto simp: set_zip intro!: exI [of _ i])
      then show ?thesis using assms(2) by (auto simp: to_obj_def all_ok_iff)
    qed
    moreover have "\<forall>w \<in> set ws. assert_json w = Inr ()"
      using assms(1) by (auto simp: list_all2_conv_all_nth in_set_conv_nth)
    ultimately have "bindR (require_exact_string ''JSON object key'' False k) (\<lambda>_. assert_json w) = Inr ()"
      if "(k, w) \<in> set (zip (map cp names) ws)" for k w
      using set_zip_leftD [OF that] set_zip_rightD [OF that] by (simp only: bindR_Inr_iff) blast
    then show ?thesis by (auto simp: to_obj_def all_ok_iff)
  qed
  ultimately show ?thesis by blast
qed

subsection \<open>Events and batches\<close>

definition reread_event :: "(string \<Rightarrow> py_float) \<Rightarrow> sync_event \<Rightarrow> sync_event" where
  "reread_event float e = e\<lparr>ev_payload := map_option (reread float) (ev_payload e)\<rparr>"

definition reread_batch :: "(string \<Rightarrow> py_float) \<Rightarrow> sync_batch \<Rightarrow> sync_batch" where
  "reread_batch float b = b\<lparr>bt_events := map (reread_event float) (bt_events b)\<rparr>"

lemma scope_reread: "scope_ok s \<Longrightarrow> scope_from_dict (reread float (scope_to_dict s)) = Inr s"
  by (simp add: scope_from_dict_def scope_to_dict_def exact_dict_reread SCOPE_FIELDS_def make_scope_ok json_opt_def
      split: option.split)

lemma reread_text [simp]: "reread float (JStr s) = JStr s" "reread float (JInt n) = JInt n"
  by simp_all

lemma event_reread:
  assumes "event_ok e" "event_points e" "event_readable wire e"
    and "event_to_dict wire e = Inr j" "assert_json j = Inr ()" "rereadable float False j"
  shows "event_from_dict wire (reread float j) = Inr (reread_event float e)
    \<and> (\<exists>j'. event_to_dict wire (reread_event float e) = Inr j' \<and> assert_json j' = Inr () \<and> jcs j' = jcs j)"
proof -
  obtain kt where kt: "key_text (ev_key e) = Inr kt" "parse_key wire (JStr kt) = Inr (ev_key e)"
    using parse_key_text [of "ev_key e" wire] assms(1-3)
    by (auto simp: event_ok_def event_points_def event_readable_def)
  have "code_points (version_origin (ev_version e))" using assms(1,2) by (simp add: event_ok_def event_points_def)
  then obtain vt where vt: "version_text wire (ev_version e) = Inr vt"
    "parse_version wire (JStr vt) = Inr (ev_version e)"
    using version_roundtrip [of "ev_version e" wire] assms(1,3)
    by (auto simp: event_ok_def event_readable_def)
  let ?vs = "\<lambda>p. [JInt 1, JStr (ev_id e), JStr (ev_origin e), JStr (node_type_value (ev_type e)), JStr kt,
    JStr (operation_value (ev_operation e)), JStr vt, scope_to_dict (ev_scope e),
    (case p of None \<Rightarrow> JNull | Some p \<Rightarrow> p)]"
  let ?p = "ev_payload e" and ?q = "map_option (reread float) (ev_payload e)"
  have j: "j = to_obj EVENT_FIELDS (?vs ?p)" using assms(4) kt(1) vt(1) by (simp add: event_to_dict_def)
  have fields: "length (?vs p) = length EVENT_FIELDS" "distinct EVENT_FIELDS" for p
    by (simp_all add: EVENT_FIELDS_def)
  have each: "assert_json v = Inr ()" if "v \<in> set (?vs ?p)" for v
    by (rule to_obj_values [OF assms(5) [unfolded j] fields(1) that])
  have payload: "rereadable float True p" if "?p = Some p" for p
    using assms(6) that by (simp add: j to_obj_def EVENT_FIELDS_def)
  have same: "assert_json p' = Inr () \<and> jcs p' = jcs p"
    if "p = (case ?p of None \<Rightarrow> JNull | Some p \<Rightarrow> p)" "p' = (case ?q of None \<Rightarrow> JNull | Some p \<Rightarrow> p)" for p p'
    using reread_canonical [of _ float True] payload each [of p] that by (cases ?p) auto
  have "list_all2 (\<lambda>v w. assert_json w = Inr () \<and> jcs w = jcs v) (?vs ?p) (?vs ?q)"
    using each same by (auto simp del: assert_json.simps jcs.simps)
  from to_obj_canonical [OF this assms(5) [unfolded j] fields(1)]
  have wire: "event_to_dict wire (reread_event float e) = Inr (to_obj EVENT_FIELDS (?vs ?q))
      \<and> assert_json (to_obj EVENT_FIELDS (?vs ?q)) = Inr () \<and> jcs (to_obj EVENT_FIELDS (?vs ?q)) = jcs j"
    using kt(1) vt(1) by (simp add: event_to_dict_def reread_event_def j del: assert_json.simps jcs.simps)
  have kind: "(\<exists>kvs. p = JObj kvs) \<Longrightarrow> \<exists>kvs. reread float p = JObj kvs" for p by auto
  have "exact_dict EVENT_FIELDS ''event'' (reread float j) = Inr (map (reread float) (?vs ?p))"
    unfolding j by (rule exact_dict_reread) (rule fields)+
  moreover have "map (reread float) (?vs ?p) = (?vs ?q) [7 := reread float (scope_to_dict (ev_scope e))]"
    by (cases ?p) simp_all
  moreover have "make_event wire (JInt 1) (JStr (ev_id e)) (JStr (ev_origin e)) (ev_type e) (ev_key e)
      (ev_operation e) (JStr vt) (ev_scope e) (case ?q of None \<Rightarrow> JNull | Some p \<Rightarrow> p) = Inr (reread_event float e)"
    using assms(1) vt(2) same kind
    by (auto simp: make_event_ok event_ok_def check_payload_ok reread_event_def split: option.splits)
  ultimately have "event_from_dict wire (reread float j) = Inr (reread_event float e)"
    using kt(2) scope_reread [of "ev_scope e" float] assms(1)
    by (simp add: event_from_dict_def event_ok_def)
  with wire show ?thesis by blast
qed

lemma events_reread:
  assumes "mapR (event_to_dict wire) es = Inr js"
    and "\<forall>e \<in> set es. event_ok e \<and> event_points e \<and> event_readable wire e"
    and "\<forall>j \<in> set js. assert_json j = Inr () \<and> rereadable float False j"
  shows "mapR (event_from_dict wire) (map (reread float) js) = Inr (map (reread_event float) es)
    \<and> (\<exists>js'. mapR (event_to_dict wire) (map (reread_event float) es) = Inr js'
         \<and> list_all2 (\<lambda>v w. assert_json w = Inr () \<and> jcs w = jcs v) js js')"
  using assms
proof (induction es arbitrary: js)
  case (Cons e es)
  then obtain j js1 where js: "js = j # js1" "event_to_dict wire e = Inr j" "mapR (event_to_dict wire) es = Inr js1"
    by auto
  have "event_from_dict wire (reread float j) = Inr (reread_event float e)
      \<and> (\<exists>j'. event_to_dict wire (reread_event float e) = Inr j' \<and> assert_json j' = Inr () \<and> jcs j' = jcs j)"
    by (rule event_reread) (use Cons.prems js in auto)
  moreover have "mapR (event_from_dict wire) (map (reread float) js1) = Inr (map (reread_event float) es)
      \<and> (\<exists>js'. mapR (event_to_dict wire) (map (reread_event float) es) = Inr js'
         \<and> list_all2 (\<lambda>v w. assert_json w = Inr () \<and> jcs w = jcs v) js1 js')"
    by (rule Cons.IH) (use Cons.prems js in auto)
  ultimately show ?case by (auto simp: js(1))
qed simp

lemma batch_ok_reread: "batch_ok b \<Longrightarrow> batch_ok (reread_batch float b)"
  by (cases "bt_events b") (simp_all add: batch_ok_def reread_batch_def reread_event_def comp_def)

lemma batch_reread:
  assumes "batch_ok b" "\<forall>e \<in> set (bt_events b). event_ok e \<and> event_points e \<and> event_readable wire e"
    and "batch_to_dict wire b = Inr d" "canonical_bytes wire b = Inr raw" "length raw \<le> 4 * 1024 * 1024"
    and "rereadable float False d"
  shows "batch_from_dict wire (reread float d) = Inr (reread_batch float b)
    \<and> canonical_bytes wire (reread_batch float b) = Inr raw"
proof -
  let ?vs = "\<lambda>js. [JInt 1, JStr (bt_id b), JStr (bt_origin b), JList js]" and ?b = "reread_batch float b"
  obtain js where js: "mapR (event_to_dict wire) (bt_events b) = Inr js" "d = to_obj BATCH_FIELDS (?vs js)"
    using assms(3) by (auto simp: batch_to_dict_def)
  have ok: "assert_json d = Inr ()" and raw: "raw = utf8 (jcs d)"
    using assms(3,4) by (auto simp: canonical_bytes_def canonical_json_bytes_def)
  have fields: "distinct BATCH_FIELDS" "length (?vs js) = length BATCH_FIELDS" for js
    by (simp_all add: BATCH_FIELDS_def)
  have each: "\<forall>v \<in> set (?vs js). assert_json v = Inr ()"
    using to_obj_values [OF ok [unfolded js(2)] fields(2)] by blast
  have "\<forall>j \<in> set js. assert_json j = Inr () \<and> rereadable float False j"
    using each assms(6) unfolding js(2) by (auto simp: to_obj_def BATCH_FIELDS_def all_ok_iff list_all_iff cp_inj)
  from events_reread [OF js(1) assms(2) this] obtain js' where
    again: "mapR (event_from_dict wire) (map (reread float) js) = Inr (map (reread_event float) (bt_events b))" and
    js': "mapR (event_to_dict wire) (map (reread_event float) (bt_events b)) = Inr js'" and
    same: "list_all2 (\<lambda>v w. assert_json w = Inr () \<and> jcs w = jcs v) js js'" by blast
  have "map jcs js' = map jcs js" "\<forall>j \<in> set js'. assert_json j = Inr ()"
    using same by (auto simp: list_all2_conv_all_nth in_set_conv_nth intro!: nth_equalityI)
  then have "list_all2 (\<lambda>v w. assert_json w = Inr () \<and> jcs w = jcs v) (?vs js) (?vs js')"
    using each by (auto simp: all_ok_iff)
  from to_obj_canonical [OF this ok [unfolded js(2)] fields(2)]
  have bytes: "canonical_bytes wire ?b = Inr raw"
    using js' by (simp add: canonical_bytes_def batch_to_dict_def reread_batch_def canonical_json_bytes_def raw js(2)
      del: assert_json.simps jcs.simps)
  have "\<exists>e. e \<in> set (bt_events b) \<and> ev_origin e = bt_origin b"
    using assms(1) by (auto simp: batch_ok_def neq_Nil_conv)
  then have origin: "scalar_string (bt_origin ?b) \<and> bt_origin ?b \<noteq> []"
    using assms(2) by (auto simp: event_ok_def reread_batch_def)
  have "make_batch wire (JInt 1) (JStr (bt_id ?b)) (JStr (bt_origin ?b)) (bt_events ?b) = Inr ?b"
    using origin assms(5) by (intro make_batch_admits [OF batch_ok_reread [OF assms(1)] _ _ bytes]) auto
  moreover have "exact_dict BATCH_FIELDS ''batch'' (reread float d) = Inr (map (reread float) (?vs js))"
    unfolding js(2) by (rule exact_dict_reread) (rule fields)+
  ultimately have "batch_from_dict wire (reread float d) = Inr ?b"
    using again by (simp add: batch_from_dict_def list_value_def reread_batch_def)
  with bytes show ?thesis by blast
qed

text \<open>The law of the tokenizer at one value: it reads a canonical text as the tokens of its value.\<close>

definition tokens_back :: "ingress_env \<Rightarrow> json \<Rightarrow> bool" where
  "tokens_back env d = (ie_tokens env (jcs d) = Inr (tokens_of d))"

lemma rereadable_valid: "rereadable float p v \<Longrightarrow> float_valid v"
  by (induction v arbitrary: p rule: tokens_of.induct) (auto simp: list_all_iff split: sum.splits)

text \<open>
  C14: what one node sends another admits.  The canonical bytes of every valid batch within
  the limits pass the strict reader of any node that encodes alike, whatever the order in
  which the sender's payloads hold their entries: no duplicate key, no unknown field, the
  digest matches and the bytes compare equal.  The batch that is read has the same ids,
  keys, versions and scopes, payloads equal up to the order of entries and the spelling of
  numbers, and the same canonical bytes; and the route admits it for the caller it belongs to.
\<close>

theorem canonical_batch_accepted:
  assumes "batch_ok b" "\<forall>e \<in> set (bt_events b). event_ok e \<and> event_points e \<and> event_readable (ie_wire env) e"
    and "batch_to_dict (ie_wire env) b = Inr d" "canonical_bytes (ie_wire env) b = Inr raw"
    and "length raw \<le> 4 * 1024 * 1024"
    and "json_points d" "rereadable (ie_float env) False d" "tokens_back env d"
  shows "validate_ingress_batch env raw (ie_sha env raw) = Inr (reread_batch (ie_float env) b)
    \<and> canonical_bytes (ie_wire env) (reread_batch (ie_float env) b) = Inr raw
    \<and> (\<forall>cfg c. int (length (bt_events b)) \<le> api_max_events cfg
         \<and> sync_bindings c = (sc_tenant (ev_scope (hd (bt_events b))), bt_origin b, consumer) \<longrightarrow>
         admit_batch env cfg (Some c) raw = Inr (reread_batch (ie_float env) b))"
proof -
  let ?b = "reread_batch (ie_float env) b"
  note again = batch_reread [OF assms(1-5,7)]
  have ok: "assert_json d = Inr ()" and raw: "raw = utf8 (jcs d)"
    using assms(3,4) by (auto simp: canonical_bytes_def canonical_json_bytes_def)
  have "valid_text (jcs d)" by (rule jcs_valid [OF ok assms(6) rereadable_valid [OF assms(7)]])
  then have "utf8_decode raw = Some (jcs d)" unfolding raw valid_text_iff by (blast intro: utf8_roundtrip)
  then have "read_protocol_json env raw = Inr (reread (ie_float env) d)"
    using assms(8) tokens_distinct [OF assms(7)] normalise_tokens [OF ok assms(7)]
    by (simp add: read_protocol_json_def tokens_back_def)
  then have read: "validate_ingress_batch env raw (ie_sha env raw) = Inr ?b"
    using again by (simp add: validate_ingress_batch_def del: bindR_Inr_iff)
  have one: "\<not> list_ex (\<lambda>e. sc_tenant (ev_scope e) \<noteq> sc_tenant (ev_scope (hd (bt_events b)))) (bt_events ?b)"
  proof -
    have "\<forall>e \<in> set (bt_events b). sc_tenant (ev_scope e) = sc_tenant (ev_scope (hd (bt_events b)))"
      using assms(1) unfolding batch_ok_def by blast
    then show ?thesis by (auto simp: list_ex_iff reread_batch_def reread_event_def)
  qed
  have "admit_batch env cfg (Some c) raw = Inr ?b"
    if "int (length (bt_events b)) \<le> api_max_events cfg"
      "sync_bindings c = (sc_tenant (ev_scope (hd (bt_events b))), bt_origin b, consumer)" for cfg c
  proof -
    have "\<not> api_max_events cfg < int (length (bt_events ?b))" "bt_origin ?b = bt_origin b"
      using that(1) by (simp_all add: reread_batch_def)
    then show ?thesis using one unfolding admit_batch_def read bindR.simps option.case that(2) by simp
  qed
  with read again show ?thesis by blast
qed

subsection \<open>A concrete batch\<close>

text \<open>An upsert whose payload is not in canonical order and holds a float.\<close>

definition one_float :: py_float where
  "one_float = \<lparr>float_finite = True, float_zero = False, float_repr = ''1.0'', float_plain = True\<rparr>"

lemma one_text: "jcs_float one_float = ''1''"
  by (simp add: jcs_float_def one_float_def removesuffix_def Let_def suffix_to_prefix)

definition parcel_payload :: json where
  "parcel_payload = to_obj [''object'', ''id''] [JFloat one_float, JStr (cp ''node-a'')]"

definition parcel_batch :: sync_batch where
  "parcel_batch = \<lparr>bt_id = sample_uuid, bt_origin = cp ''node-a'',
     bt_events = [sample_event\<lparr>ev_operation := Upsert, ev_payload := Some parcel_payload\<rparr>]\<rparr>"

definition parcel_wire :: wire_env where
  "parcel_wire = Sync_Protocol.sample_env (version_payload (Sync_Protocol.sample_env JNull) sample_version)"

definition parcel_env :: ingress_env where
  "parcel_env = (small_env JNull)\<lparr>ie_lite := (ie_lite (small_env JNull))\<lparr>le_wire := parcel_wire\<rparr>,
     ie_tokens := (\<lambda>s. bindR (batch_to_dict parcel_wire parcel_batch) (\<lambda>d.
       if s = jcs d then Inr (tokens_of d) else Inl (ValueErr ''not JSON'')))\<rparr>"

definition plain_name :: "string \<Rightarrow> bool" where
  "plain_name f = (f \<noteq> [] \<and> list_all (\<lambda>c. 0 < (of_char c :: nat) \<and> (of_char c :: nat) < 128) f)"

lemma plain_obj:
  assumes "list_all plain_name fs" "list_all (\<lambda>v. assert_json v = Inr () \<and> json_points v) vs"
  shows "assert_json (to_obj fs vs) = Inr () \<and> json_points (to_obj fs vs)"
proof -
  have "bindR (require_exact_string ''JSON object key'' False k) (\<lambda>_. assert_json v) = Inr ()"
    and "code_points k \<and> json_points v" if kv: "(k, v) \<in> set (zip (map cp fs) vs)" for k v
  proof -
    obtain f where f: "f \<in> set fs" "k = cp f" using set_zip_leftD [OF kv] by auto
    then have "valid_text k \<and> k \<noteq> []" using assms(1) cp_ascii [of f] by (simp add: plain_name_def list_all_iff)
    moreover have "assert_json v = Inr () \<and> json_points v"
      using set_zip_rightD [OF kv] assms(2) by (simp add: list_all_iff)
    ultimately show "bindR (require_exact_string ''JSON object key'' False k) (\<lambda>_. assert_json v) = Inr ()"
      "code_points k \<and> json_points v" by (auto simp: valid_text_iff)
  qed
  then show ?thesis by (auto simp: to_obj_def all_ok_iff list_all_iff)
qed

lemma parcel_key:
  obtains kt where "key_text (NodeKey (cp ''node-a'')) = Inr kt" "length kt \<le> 1200" "valid_text kt"
proof -
  have eq: "key_text (NodeKey (cp ''node-a''))
      = Inr (key_kind (NodeKey (cp ''node-a'')) @ 58 # cp ''v1'' @ 58 # b64url_encode (utf8 (cp ''node-a'')))"
    using key_text_parts [OF sample_key_ok] node_a_ok by (simp add: key_points_def key_raw_def)
  have "is_bytes (utf8 (cp ''node-a''))" using node_a_ok by (simp add: utf8_is_bytes)
  then have "valid_text (b64url_encode (utf8 (cp ''node-a'')))"
    using b64_text_scalar [OF b64url_encode_text] by (fastforce simp: valid_text_iff code_points_def)
  then show ?thesis
    using that eq sample_key_ok unfolding key_ok_def by (simp add: key_kind_def cp_def del: key_text.simps)
qed

lemma parcel_dict:
  obtains d where "batch_to_dict parcel_wire parcel_batch = Inr d" "assert_json d = Inr ()" "json_points d"
    "json_weight d \<le> 70000" "rereadable (\<lambda>_. one_float) False d"
proof -
  obtain vt where vt: "version_text parcel_wire sample_version = Inr vt" "length vt \<le> 6000" "valid_text vt"
    unfolding parcel_wire_def using sample_version_text by blast
  obtain kt where kt: "key_text (NodeKey (cp ''node-a'')) = Inr kt" "length kt \<le> 1200" "valid_text kt"
    by (rule parcel_key)
  let ?scope = "to_obj SCOPE_FIELDS [JStr (cp ''node-a''), JStr (cp ''node-a''), JNull, JStr (cp ''user''), JNull, JNull]"
  let ?e = "to_obj EVENT_FIELDS [JInt 1, JStr sample_uuid, JStr (cp ''node-a''), JStr (cp ''fact''),
    JStr kt, JStr (cp ''upsert''), JStr vt, ?scope, parcel_payload]"
  let ?d = "to_obj BATCH_FIELDS [JInt 1, JStr sample_uuid, JStr (cp ''node-a''), JList [?e]]"
  have d: "batch_to_dict parcel_wire parcel_batch = Inr ?d"
    using vt(1) kt(1)
    by (simp add: batch_to_dict_def parcel_batch_def event_to_dict_def sample_event_def scope_to_dict_def
        sample_scope_def json_opt_def node_type_value_def operation_value_def del: key_text.simps)
  have names: "list_all plain_name (BATCH_FIELDS @ EVENT_FIELDS @ SCOPE_FIELDS @ [''object'', ''id''])"
    by (simp add: plain_name_def BATCH_FIELDS_def EVENT_FIELDS_def SCOPE_FIELDS_def)
  have strs: "list_all valid_text [cp ''node-a'', cp ''fact'', cp ''upsert'', cp ''user'', sample_uuid, kt, vt]"
    using vt(3) kt(3) cp_ascii [of "''node-a''"] cp_ascii [of "''fact''"] cp_ascii [of "''upsert''"]
      cp_ascii [of "''user''"] canonical_uuid_valid [OF sample_uuid_ok] by simp
  have fine: "assert_json (JStr t) = Inr () \<and> json_points (JStr t)" if "valid_text t" for t
    using that by (simp add: valid_text_iff)
  have safe: "assert_json (JInt 1) = Inr () \<and> json_points (JInt 1)" by (simp add: MAX_SAFE_def)
  note parts = strs fine safe
  have "assert_json ?scope = Inr () \<and> json_points ?scope"
    by (rule plain_obj) (use names parts in simp_all)
  moreover have "assert_json parcel_payload = Inr () \<and> json_points parcel_payload"
    unfolding parcel_payload_def by (rule plain_obj) (use names parts in \<open>simp_all add: one_float_def\<close>)
  ultimately have "assert_json ?e = Inr () \<and> json_points ?e"
    by (intro plain_obj) (use names parts in simp_all)
  then have "assert_json ?d = Inr () \<and> json_points ?d"
    by (intro plain_obj) (use names parts in \<open>simp_all add: all_ok_iff\<close>)
  moreover have "json_weight ?d \<le> 70000"
    using vt(2) kt(2)
    by (simp add: to_obj_def BATCH_FIELDS_def EVENT_FIELDS_def SCOPE_FIELDS_def parcel_payload_def one_text
        sample_uuid_def cp_def show_int_def show_nat.simps)
  moreover have "rereadable (\<lambda>_. one_float) False ?d"
    by (simp add: to_obj_def BATCH_FIELDS_def EVENT_FIELDS_def SCOPE_FIELDS_def parcel_payload_def one_text cp_inj
        protocol_number_def fractional_def int_of_numeral_def MAX_STR_DIGITS_def
        read_int_def MAX_SAFE_def show_int_def show_nat.simps cp_def)
  ultimately show thesis using that d by blast
qed

lemma parcel_event_ok:
  "batch_ok parcel_batch \<and> (\<forall>e \<in> set (bt_events parcel_batch). event_ok e \<and> event_points e \<and> event_readable parcel_wire e)"
proof -
  let ?v = "version_payload (Sync_Protocol.sample_env JNull) sample_version"
  have p: "version_payload (Sync_Protocol.sample_env ?v) sample_version = ?v"
    by (simp add: version_payload_def Sync_Protocol.sample_env_def)
  have "loads_back (Sync_Protocol.sample_env ?v) (version_payload (Sync_Protocol.sample_env ?v) sample_version)"
    unfolding p by (simp add: loads_back_def Sync_Protocol.sample_env_def del: jcs.simps)
  then have readable: "event_readable parcel_wire sample_event"
    using epoch_ok by (simp add: event_readable_def sample_event_def key_readable_def parcel_wire_def sample_version_def)
  have "assert_json parcel_payload = Inr ()"
    using plain_obj [of "[''object'', ''id'']" "[JFloat one_float, JStr (cp ''node-a'')]"] node_a_ok
    by (simp add: parcel_payload_def plain_name_def one_float_def)
  moreover have "\<exists>kvs. parcel_payload = JObj kvs" by (simp add: parcel_payload_def to_obj_def)
  ultimately show ?thesis
    using sample_event_ok readable sample_uuid_ok
    by (simp add: parcel_batch_def batch_ok_def event_ok_def event_points_def event_readable_def sample_event_def)
qed

theorem canonical_batch_accepted_witness:
  "\<exists>raw. canonical_bytes parcel_wire parcel_batch = Inr raw
    \<and> validate_ingress_batch parcel_env raw (ie_sha parcel_env raw) = Inr (reread_batch (ie_float parcel_env) parcel_batch)
    \<and> reread_batch (ie_float parcel_env) parcel_batch \<noteq> parcel_batch"
proof -
  obtain d where d: "batch_to_dict parcel_wire parcel_batch = Inr d" "assert_json d = Inr ()" "json_points d"
    "json_weight d \<le> 70000" "rereadable (\<lambda>_. one_float) False d"
    by (rule parcel_dict)
  have wire: "ie_wire parcel_env = parcel_wire" and float: "ie_float parcel_env = (\<lambda>_. one_float)"
    by (simp_all add: parcel_env_def small_env_def one_float_def)
  have raw: "canonical_bytes parcel_wire parcel_batch = Inr (utf8 (jcs d))"
    using d(1,2) by (simp add: canonical_bytes_def canonical_json_bytes_def del: jcs.simps)
  have "length (jcs d) \<le> 70000" using length_jcs d(4) le_trans by blast
  then have size: "length (utf8 (jcs d)) \<le> 4 * 1024 * 1024" using length_utf8_le [of "jcs d"] by linarith
  have "tokens_back parcel_env d" using d(1) by (simp add: tokens_back_def parcel_env_def)
  from canonical_batch_accepted [of parcel_batch parcel_env d "utf8 (jcs d)", unfolded wire float, OF _ _ d(1) raw size d(3,5) this]
  have "validate_ingress_batch parcel_env (utf8 (jcs d)) (ie_sha parcel_env (utf8 (jcs d)))
      = Inr (reread_batch (\<lambda>_. one_float) parcel_batch)"
    using parcel_event_ok by blast
  moreover have "reread (\<lambda>_. one_float) parcel_payload \<noteq> parcel_payload"
    by (simp add: parcel_payload_def to_obj_def one_text protocol_number_def fractional_def int_of_numeral_def
        MAX_STR_DIGITS_def read_int_def MAX_SAFE_def utf16be_def utf16be_char_def cp_def)
  then have "reread_batch (\<lambda>_. one_float) parcel_batch \<noteq> parcel_batch"
    by (simp add: reread_batch_def reread_event_def parcel_batch_def sample_event_def)
  ultimately show ?thesis using raw unfolding float by blast
qed

end
