(* ===== verification/Mesh_Core.thy ===== *)
theory Mesh_Core
  imports Sync_Crypto
begin

section \<open>The peer mesh: versions, trees and reconciliation\<close>

text \<open>
  \<open>src/memplex/peer_mesh.py\<close>: version vectors, the Merkle tree over objects ordered by id,
  the two-tier divergence check, the per-object reconciliation and the application of its
  plan.  SHA-256 is a parameter; a field that is compared with an id only
  (\<open>superseded_by\<close>) keeps whatever JSON value the wire gave it.
\<close>

subsection \<open>Version vectors\<close>

type_synonym version_vector = "(ustring, int) dict"

definition count_of :: "version_vector \<Rightarrow> ustring \<Rightarrow> int" where
  "count_of v replica = dict_default v replica 0"

definition bump :: "ustring \<Rightarrow> version_vector \<Rightarrow> version_vector" where
  "bump replica v = dict_set replica (count_of v replica + 1) v"

text \<open>The loop over the other vector; \<open>None\<close> is its early \<open>return False\<close>.\<close>

fun dominates_loop :: "version_vector \<Rightarrow> bool \<Rightarrow> version_vector \<Rightarrow> bool option" where
  "dominates_loop v strictly [] = Some strictly"
| "dominates_loop v strictly ((replica, n) # others) =
     (if count_of v replica < n then None
      else dominates_loop v (strictly \<or> n < count_of v replica) others)"

definition dominates :: "version_vector \<Rightarrow> version_vector \<Rightarrow> bool" where
  "dominates v w = (case dominates_loop v False w of
       None \<Rightarrow> False | Some strictly \<Rightarrow> strictly \<or> (w = [] \<and> v \<noteq> []))"

definition concurrent_with :: "version_vector \<Rightarrow> version_vector \<Rightarrow> bool" where
  "concurrent_with v w = (\<not> dominates v w \<and> \<not> dominates w v)"

definition merge_vectors :: "version_vector \<Rightarrow> version_vector \<Rightarrow> version_vector" where
  "merge_vectors v w = fold (\<lambda>(replica, n) m. dict_set replica (max (count_of m replica) n) m) w v"

subsection \<open>Objects\<close>

record mesh_object =
  mo_id :: ustring
  mo_kind :: ustring
  mo_payload :: bytes
  mo_vector :: version_vector
  mo_tombstone :: bool
  mo_superseded_by :: json

definition IMMUTABLE_KINDS :: "ustring set" where
  "IMMUTABLE_KINDS = {cp ''observation'', cp ''raw_turn''}"

definition SUPERSESSION_KINDS :: "ustring set" where
  "SUPERSESSION_KINDS = {cp ''fact''}"

subsection \<open>The Merkle tree\<close>

definition node_text :: "bytes \<Rightarrow> bytes \<Rightarrow> bytes" where
  "node_text l r = 1 # l @ r"

definition leaf_text :: "mesh_object \<Rightarrow> bytes" where
  "leaf_text obj = 0 # utf8 (mo_id obj) @ 0 # utf8 (mo_kind obj) @ 0
     # (if mo_tombstone obj then 1 else 0) # mo_payload obj"

definition leaf_hash :: "(bytes \<Rightarrow> bytes) \<Rightarrow> mesh_object \<Rightarrow> bytes result" where
  "leaf_hash sha obj =
     (if encodable (mo_id obj) \<and> encodable (mo_kind obj) then Inr (sha (leaf_text obj))
      else Inl (ValueErr ''surrogates not allowed''))"

text \<open>The texts of the next level: an odd last child stands twice.\<close>

fun pair_texts :: "bytes list \<Rightarrow> bytes list" where
  "pair_texts [] = []"
| "pair_texts [x] = [node_text x x]"
| "pair_texts (x # y # hs) = node_text x y # pair_texts hs"

definition next_level :: "(bytes \<Rightarrow> bytes) \<Rightarrow> bytes list \<Rightarrow> bytes list" where
  "next_level sha hs = map sha (pair_texts hs)"

lemma length_next_level: "length (next_level sha hs) = (length hs + 1) div 2"
proof -
  have "length (pair_texts hs) = (length hs + 1) div 2" by (induction hs rule: pair_texts.induct) simp_all
  then show ?thesis by (simp add: next_level_def)
qed

function build_levels :: "(bytes \<Rightarrow> bytes) \<Rightarrow> bytes list \<Rightarrow> bytes list list" where
  "build_levels sha hs = (if length hs \<le> 1 then [hs] else hs # build_levels sha (next_level sha hs))"
  by auto
termination by (relation "measure (\<lambda>(sha, hs). length hs)") (auto simp: length_next_level)

declare build_levels.simps [simp del]

record merkle_tree =
  mt_leaves :: "(ustring, bytes) dict"
  mt_ids :: "ustring list"
  mt_levels :: "bytes list list"

definition leaves_of :: "(bytes \<Rightarrow> bytes) \<Rightarrow> mesh_object list \<Rightarrow> (ustring, bytes) dict result" where
  "leaves_of sha objects = bindR (mapR (\<lambda>obj. bindR (leaf_hash sha obj) (\<lambda>h. Inr (mo_id obj, h))) objects)
     (\<lambda>entries. Inr (dict_update [] entries))"

definition make_tree :: "(bytes \<Rightarrow> bytes) \<Rightarrow> mesh_object list \<Rightarrow> merkle_tree result" where
  "make_tree sha objects = bindR (leaves_of sha objects) (\<lambda>leaves.
     let ids = sort (map fst leaves) in
     Inr \<lparr>mt_leaves = leaves, mt_ids = ids,
          mt_levels = build_levels sha (map (\<lambda>i. the (dict_get leaves i)) ids)\<rparr>)"

definition tree_root :: "(bytes \<Rightarrow> bytes) \<Rightarrow> merkle_tree \<Rightarrow> bytes" where
  "tree_root sha t = (if hd (mt_levels t) = [] then sha [] else hd (last (mt_levels t)))"

definition divergent_ids :: "merkle_tree \<Rightarrow> merkle_tree \<Rightarrow> ustring list" where
  "divergent_ids t u = filter (\<lambda>i. dict_get (mt_leaves t) i \<noteq> dict_get (mt_leaves u) i)
     (sort (remdups (mt_ids t @ mt_ids u)))"

definition gossip :: "bytes \<Rightarrow> bytes \<Rightarrow> bool" where
  "gossip local_root remote_root = (local_root \<noteq> remote_root)"

subsection \<open>Reconciliation\<close>

datatype resolution = FETCH_REMOTE | SEND_LOCAL | UNION | SUPERSEDED | REMOVE_WINS | CONFLICT



definition supersession_pair :: "mesh_object \<Rightarrow> mesh_object \<Rightarrow> bool" where
  "supersession_pair lo ro = (mo_superseded_by lo = JStr (mo_id ro) \<or> mo_superseded_by ro = JStr (mo_id lo))"

definition resolve_pair :: "mesh_object \<Rightarrow> mesh_object \<Rightarrow> resolution" where
  "resolve_pair lo ro =
     (if dominates (mo_vector lo) (mo_vector ro) then SEND_LOCAL
      else if dominates (mo_vector ro) (mo_vector lo) then FETCH_REMOTE
      else if mo_kind lo \<in> IMMUTABLE_KINDS then UNION
      else if mo_tombstone lo \<or> mo_tombstone ro then REMOVE_WINS
      else if mo_kind lo \<in> SUPERSESSION_KINDS \<and> supersession_pair lo ro then SUPERSEDED
      else CONFLICT)"

definition failed_assertion :: "'a result" where
  "failed_assertion = Inl (OtherErr ''AssertionError'')"



subsection \<open>Applying a plan\<close>



definition fetched :: "mesh_object option \<Rightarrow> mesh_object \<Rightarrow> mesh_object" where
  "fetched lo ro = ro\<lparr>mo_vector := (case lo of Some lo \<Rightarrow> merge_vectors (mo_vector ro) (mo_vector lo)
     | None \<Rightarrow> mo_vector ro)\<rparr>"



definition removed :: "mesh_object option \<Rightarrow> mesh_object option \<Rightarrow> mesh_object result" where
  "removed lo ro =
     (let winner = (case lo of Some l \<Rightarrow> if mo_tombstone l then lo else ro | None \<Rightarrow> ro) in
      case winner of
        None \<Rightarrow> failed_assertion
      | Some w \<Rightarrow> Inr (w\<lparr>mo_tombstone := True,
          mo_vector := (case (lo, ro) of (Some l, Some r) \<Rightarrow> merge_vectors (mo_vector l) (mo_vector r)
            | _ \<Rightarrow> mo_vector w)\<rparr>))"





subsection \<open>Dominance and the causal order\<close>

text \<open>A vector of edits: every replica once, every count positive.\<close>

definition vector_ok :: "version_vector \<Rightarrow> bool" where
  "vector_ok v = (dict_wf v \<and> (\<forall>(replica, n) \<in> set v. 1 \<le> n))"

text \<open>What the docstring calls at least as new: \<open>v\<close> has seen every edit \<open>w\<close> has seen.\<close>

definition has_seen :: "version_vector \<Rightarrow> version_vector \<Rightarrow> bool" where
  "has_seen v w = (\<forall>replica. count_of w replica \<le> count_of v replica)"

definition same_edits :: "version_vector \<Rightarrow> version_vector \<Rightarrow> bool" where
  "same_edits v w = (\<forall>replica. count_of v replica = count_of w replica)"

lemma count_of_absent: "replica \<notin> fst ` set v \<Longrightarrow> count_of v replica = 0"
  by (simp add: count_of_def dict_default_def map_of_eq_None_iff [symmetric] split: option.split)

lemma count_of_present: "vector_ok v \<Longrightarrow> (replica, n) \<in> set v \<Longrightarrow> count_of v replica = n"
  by (simp add: count_of_def dict_default_def vector_ok_def)

lemma count_of_pos: "vector_ok v \<Longrightarrow> 0 < count_of v replica \<longleftrightarrow> replica \<in> fst ` set v"
  using count_of_absent count_of_present by (fastforce simp: vector_ok_def)

lemma count_of_nonneg: "vector_ok v \<Longrightarrow> 0 \<le> count_of v replica"
  using count_of_pos [of v replica] count_of_absent [of replica v] by fastforce

lemma dominates_loop_iff:
  "dominates_loop v s w = (if \<exists>(r, n) \<in> set w. count_of v r < n then None
     else Some (s \<or> (\<exists>(r, n) \<in> set w. n < count_of v r)))"
  by (induction v s w rule: dominates_loop.induct) auto

lemma dominates_iff:
  assumes "vector_ok v" "vector_ok w"
  shows "dominates v w \<longleftrightarrow> has_seen v w \<and>
    ((\<exists>r \<in> fst ` set w. count_of w r < count_of v r) \<or> (w = [] \<and> v \<noteq> []))"
proof -
  have "(\<forall>(r, n) \<in> set w. n \<le> count_of v r) \<longleftrightarrow> has_seen v w"
    using count_of_present [OF assms(2)] count_of_absent [of _ w] count_of_nonneg [OF assms(1)]
    by (fastforce simp: has_seen_def image_iff)
  moreover have "(\<exists>(r, n) \<in> set w. n < count_of v r) \<longleftrightarrow> (\<exists>r \<in> fst ` set w. count_of w r < count_of v r)"
  proof -
    have "(\<exists>(r, n) \<in> set w. n < count_of v r) \<longleftrightarrow> (\<exists>(r, n) \<in> set w. count_of w r < count_of v r)"
      by (rule bex_cong) (use count_of_present [OF assms(2)] in auto)
    then show ?thesis by force
  qed
  ultimately show ?thesis
    by (auto simp: dominates_def dominates_loop_iff not_less)
qed



lemma merge_vector_ok: "vector_ok v \<Longrightarrow> vector_ok w \<Longrightarrow> vector_ok (merge_vectors v w)"
  unfolding merge_vectors_def
proof (induction w arbitrary: v)
  case (Cons p w)
  obtain q n where p: "p = (q, n)" by (cases p)
  have "vector_ok w" "1 \<le> n" using Cons.prems(2) p by (auto simp: vector_ok_def)
  moreover have "vector_ok (dict_set q (max (count_of v q) n) v)"
    using Cons.prems(1) \<open>1 \<le> n\<close> by (auto simp: vector_ok_def keeps set_dict_set)
  ultimately show ?case using Cons.IH p by simp
qed simp

lemma bump_vector_ok: "vector_ok v \<Longrightarrow> vector_ok (bump r v)"
  using count_of_nonneg [of v r] by (auto simp: bump_def vector_ok_def keeps set_dict_set)

lemma dominates_sees: "vector_ok v \<Longrightarrow> vector_ok w \<Longrightarrow> dominates v w \<Longrightarrow> count_of w r \<le> count_of v r"
  using dominates_iff [of v w] by (simp add: has_seen_def)

lemma dominates_more:
  assumes "vector_ok v" "vector_ok w" "dominates v w"
  obtains r where "count_of w r < count_of v r"
proof (cases "w = []")
  case True
  then have "v \<noteq> []" using assms(3) dominates_iff [OF assms(1,2)] by auto
  then obtain r n v' where "v = (r, n) # v'" by (cases v) auto
  then have "0 < count_of v r" using count_of_pos [OF assms(1), of r] by simp
  moreover have "count_of w r = 0" using True by (simp add: count_of_absent)
  ultimately show thesis using that [of r] by simp
next
  case False
  then show thesis using assms(3) dominates_iff [OF assms(1,2)] that by blast
qed

lemma dominates_asym: "vector_ok v \<Longrightarrow> vector_ok w \<Longrightarrow> dominates v w \<Longrightarrow> \<not> dominates w v"
  using dominates_more dominates_sees by (meson not_less)

lemma dominates_trans:
  assumes "vector_ok v" "vector_ok w" "vector_ok u" "dominates v w" "dominates w u"
  shows "dominates v u"
proof -
  have vw: "count_of w r \<le> count_of v r" and wu: "count_of u r \<le> count_of w r" for r
    using dominates_sees assms by blast+
  obtain r where r: "count_of u r < count_of w r" using dominates_more [OF assms(2,3,5)] by blast
  have "(\<exists>r \<in> fst ` set u. count_of u r < count_of v r) \<or> (u = [] \<and> v \<noteq> [])"
  proof (cases "u = []")
    case True
    then have "0 < count_of v r" using r vw [of r] count_of_nonneg [OF assms(3), of r] by linarith
    then have "v \<noteq> []" by (auto simp: count_of_absent)
    then show ?thesis using True by simp
  next
    case False
    then obtain q where "q \<in> fst ` set u" "count_of u q < count_of w q"
      using assms(5) dominates_iff [OF assms(2,3)] by blast
    then show ?thesis using vw [of q] by (intro disjI1 bexI [of _ q]) linarith
  qed
  moreover have "has_seen v u" using vw wu order_trans unfolding has_seen_def by blast
  ultimately show ?thesis using dominates_iff [OF assms(1,3)] by blast
qed

text \<open>
  Dominance is a strict causal order that misses new replicas: it holds when the first vector
  has seen every edit of the second and some edit the second has not, except when every edit
  the second lacks comes from replicas it has never heard of.  Merging gives the least
  vector that has seen both sides.
\<close>

lemma dominance_is_causal:
  assumes "vector_ok v" "vector_ok w"
  shows "dominates v w \<longleftrightarrow> has_seen v w \<and> \<not> has_seen w v \<and>
         \<not> (w \<noteq> [] \<and> (\<forall>r \<in> fst ` set w. count_of v r = count_of w r))"
proof
  assume d: "dominates v w"
  obtain r where "count_of w r < count_of v r" using dominates_more [OF assms d] by blast
  then have "\<not> has_seen w v" unfolding has_seen_def by (meson not_less)
  moreover have "has_seen v w" "w \<noteq> [] \<longrightarrow> (\<exists>r \<in> fst ` set w. count_of w r < count_of v r)"
    using d dominates_iff [OF assms] by blast+
  ultimately show "has_seen v w \<and> \<not> has_seen w v \<and> \<not> (w \<noteq> [] \<and> (\<forall>r \<in> fst ` set w. count_of v r = count_of w r))"
    by (metis less_irrefl)
next
  assume h: "has_seen v w \<and> \<not> has_seen w v \<and> \<not> (w \<noteq> [] \<and> (\<forall>r \<in> fst ` set w. count_of v r = count_of w r))"
  show "dominates v w"
  proof (cases "w = []")
    case True
    then have "v \<noteq> []" using h by auto
    then show ?thesis using True h dominates_iff [OF assms] by blast
  next
    case False
    then obtain r where "r \<in> fst ` set w" "count_of v r \<noteq> count_of w r" using h by blast
    moreover have "count_of w r \<le> count_of v r" using h by (simp add: has_seen_def)
    ultimately show ?thesis using h dominates_iff [OF assms] by (metis order_le_neq_trans)
  qed
qed

subsection \<open>Equal roots\<close>

text \<open>The tree behind a root: its leaves are the texts of the objects, its nodes those of the pairs.\<close>

datatype hash_tree = Leaf bytes | Node hash_tree hash_tree

fun hash_of :: "(bytes \<Rightarrow> bytes) \<Rightarrow> hash_tree \<Rightarrow> bytes" where
  "hash_of sha (Leaf t) = sha t"
| "hash_of sha (Node l r) = sha (node_text (hash_of sha l) (hash_of sha r))"

fun hashed :: "(bytes \<Rightarrow> bytes) \<Rightarrow> hash_tree \<Rightarrow> bytes set" where
  "hashed sha (Leaf t) = {t}"
| "hashed sha (Node l r) = insert (node_text (hash_of sha l) (hash_of sha r)) (hashed sha l \<union> hashed sha r)"

fun leaf_texts :: "hash_tree \<Rightarrow> bytes set" where
  "leaf_texts (Leaf t) = {t}"
| "leaf_texts (Node l r) = leaf_texts l \<union> leaf_texts r"

definition no_collision :: "(bytes \<Rightarrow> bytes) \<Rightarrow> bytes set \<Rightarrow> bool" where
  "no_collision sha T = (inj_on sha T \<and> (\<forall>t \<in> T. length (sha t) = 32))"

lemma hash_of_text: "\<exists>t \<in> hashed sha T. hash_of sha T = sha t"
  by (cases T) simp_all

lemma hash_length: "no_collision sha S \<Longrightarrow> hashed sha T \<subseteq> S \<Longrightarrow> length (hash_of sha T) = 32"
  using hash_of_text [of sha T] by (auto simp: no_collision_def)

lemma hash_injective:
  assumes S: "no_collision sha S"
  shows "hashed sha T \<subseteq> S \<Longrightarrow> hashed sha U \<subseteq> S \<Longrightarrow> \<forall>t \<in> leaf_texts T \<union> leaf_texts U. \<exists>r. t = 0 # r \<Longrightarrow>
    hash_of sha T = hash_of sha U \<Longrightarrow> T = U"
proof (induction T arbitrary: U)
  case (Leaf t)
  have inj: "x \<in> S \<Longrightarrow> y \<in> S \<Longrightarrow> sha x = sha y \<Longrightarrow> x = y" for x y using S by (auto simp: no_collision_def dest: inj_onD)
  show ?case
  proof (cases U)
    case (Leaf u) then show ?thesis using Leaf.prems inj by simp
  next
    case (Node l r)
    then have "t = node_text (hash_of sha l) (hash_of sha r)" using Leaf.prems inj by simp
    then show ?thesis using Leaf.prems(3) by (auto simp: node_text_def)
  qed
next
  case (Node l r)
  have inj: "x \<in> S \<Longrightarrow> y \<in> S \<Longrightarrow> sha x = sha y \<Longrightarrow> x = y" for x y using S by (auto simp: no_collision_def dest: inj_onD)
  show ?case
  proof (cases U)
    case (Leaf u)
    then have "u = node_text (hash_of sha l) (hash_of sha r)" using Node.prems inj by simp
    then show ?thesis using Node.prems(3) Leaf by (auto simp: node_text_def)
  next
    case (Node l' r')
    then have "node_text (hash_of sha l) (hash_of sha r) = node_text (hash_of sha l') (hash_of sha r')"
      using Node.prems inj by simp
    moreover have "length (hash_of sha l) = length (hash_of sha l')"
      using hash_length [OF S] Node.prems(1,2) Node by simp
    ultimately have "hash_of sha l = hash_of sha l'" "hash_of sha r = hash_of sha r'" by (simp_all add: node_text_def)
    moreover have "hashed sha l \<subseteq> S" "hashed sha r \<subseteq> S" "hashed sha l' \<subseteq> S" "hashed sha r' \<subseteq> S"
      using Node.prems(1,2) Node by auto
    moreover have "\<forall>t \<in> leaf_texts l \<union> leaf_texts l'. \<exists>r. t = 0 # r" "\<forall>t \<in> leaf_texts r \<union> leaf_texts r'. \<exists>r. t = 0 # r"
      using Node.prems(3) unfolding Node leaf_texts.simps by blast+
    ultimately have "l = l'" "r = r'" using Node.IH by blast+
    then show ?thesis using Node by simp
  qed
qed

fun pair_trees :: "hash_tree list \<Rightarrow> hash_tree list" where
  "pair_trees [] = []"
| "pair_trees [x] = [Node x x]"
| "pair_trees (x # y # ts) = Node x y # pair_trees ts"

lemma pair_trees_facts:
  "map (hash_of sha) (pair_trees ts) = next_level sha (map (hash_of sha) ts)"
  "(\<Union>t \<in> set (pair_trees ts). leaf_texts t) = (\<Union>t \<in> set ts. leaf_texts t)"
  "(\<Union>t \<in> set (pair_trees ts). hashed sha t) = set (pair_texts (map (hash_of sha) ts)) \<union> (\<Union>t \<in> set ts. hashed sha t)"
  by (induction ts rule: pair_trees.induct) (auto simp: next_level_def)

text \<open>The texts hashed above the leaves.\<close>

definition inner_texts :: "bytes list list \<Rightarrow> bytes set" where
  "inner_texts ls = (\<Union>l \<in> set (butlast ls). set (pair_texts l))"

lemma levels_tree:
  assumes "ts \<noteq> []"
  shows "\<exists>T. hd (last (build_levels sha (map (hash_of sha) ts))) = hash_of sha T
    \<and> leaf_texts T = (\<Union>t \<in> set ts. leaf_texts t)
    \<and> hashed sha T \<subseteq> inner_texts (build_levels sha (map (hash_of sha) ts)) \<union> (\<Union>t \<in> set ts. hashed sha t)"
  using assms
proof (induction "length ts" arbitrary: ts rule: less_induct)
  case less
  show ?case
  proof (cases "length ts \<le> 1")
    case True
    then obtain t where "ts = [t]" using less.prems by (cases ts) auto
    then show ?thesis by (intro exI [of _ t]) (simp add: build_levels.simps [of sha "[hash_of sha t]"])
  next
    case False
    let ?hs = "map (hash_of sha) ts" and ?us = "pair_trees ts"
    have next_eq: "next_level sha ?hs = map (hash_of sha) ?us" using pair_trees_facts(1) [of sha ts] by simp
    have "length (map (hash_of sha) ?us) = (length ts + 1) div 2" unfolding next_eq [symmetric] by (simp add: length_next_level)
    then have len: "length ?us < length ts" "?us \<noteq> []" using False by auto
    have lv: "build_levels sha ?hs = ?hs # build_levels sha (map (hash_of sha) ?us)"
      using False by (simp add: build_levels.simps [of sha ?hs] next_eq)
    have ne: "build_levels sha hs \<noteq> []" for hs by (subst build_levels.simps) simp
    obtain T where T: "hd (last (build_levels sha (map (hash_of sha) ?us))) = hash_of sha T"
      "leaf_texts T = (\<Union>t \<in> set ?us. leaf_texts t)"
      "hashed sha T \<subseteq> inner_texts (build_levels sha (map (hash_of sha) ?us)) \<union> (\<Union>t \<in> set ?us. hashed sha t)"
      using less.hyps [OF len] by blast
    have "inner_texts (build_levels sha ?hs) = set (pair_texts ?hs) \<union> inner_texts (build_levels sha (map (hash_of sha) ?us))"
      unfolding lv by (simp add: inner_texts_def ne)
    then show ?thesis
      using T ne unfolding pair_trees_facts lv by (intro exI [of _ T]) (auto simp: pair_trees_facts(2))
  qed
qed

text \<open>What an object's leaf is about: everything but the vector and the supersession edge.\<close>

definition content :: "mesh_object \<Rightarrow> ustring \<times> ustring \<times> bool \<times> bytes" where
  "content obj = (mo_id obj, mo_kind obj, mo_tombstone obj, mo_payload obj)"

definition plain_name :: "ustring \<Rightarrow> bool" where
  "plain_name s = (0 \<notin> set s \<and> code_points s \<and> encodable s)"

definition plain_object :: "mesh_object \<Rightarrow> bool" where
  "plain_object obj = (plain_name (mo_id obj) \<and> plain_name (mo_kind obj))"

lemma split_at_zero: "0 \<notin> set x \<Longrightarrow> 0 \<notin> set y \<Longrightarrow> x @ (0::nat) # r = y @ 0 # s \<longleftrightarrow> x = y \<and> r = s"
proof (induction x arbitrary: y)
  case Nil then show ?case by (cases y) auto
next
  case (Cons c x) then show ?case by (cases y) auto
qed

lemma zero_utf8: "0 \<in> set (utf8 s) \<longleftrightarrow> 0 \<in> set s"
  by (auto simp: utf8_def utf8_char_def)

lemma utf8_back: "plain_name s \<Longrightarrow> utf8_decode (utf8 s) = Some s"
proof (rule utf8_roundtrip)
  assume s: "plain_name s"
  then have "0 < n \<and> \<not> surrogate n" if "n \<in> set s" for n
    using that by (cases n) (auto simp: plain_name_def encodable_def list_ex_iff)
  then show "scalar_string s" by (auto simp: scalar_string_def)
qed (simp add: plain_name_def)

lemma utf8_inj: "plain_name s \<Longrightarrow> plain_name t \<Longrightarrow> utf8 s = utf8 t \<longleftrightarrow> s = t"
  using utf8_back [of s] utf8_back [of t] by (metis option.inject)

lemma leaf_text_inj:
  "plain_object p \<Longrightarrow> plain_object q \<Longrightarrow> leaf_text p = leaf_text q \<longleftrightarrow> content p = content q"
  using utf8_inj
  by (auto simp: leaf_text_def content_def plain_object_def split_at_zero zero_utf8 plain_name_def split: if_splits)

lemma dict_update_append: "dict_wf (d @ e) \<Longrightarrow> dict_update d e = d @ e"
proof (induction e arbitrary: d)
  case (Cons p e)
  obtain k v where p: "p = (k, v)" by (cases p)
  have "k \<notin> fst ` set d" using Cons.prems p by auto
  then have "dict_set k v d = d @ [(k, v)]" by (induction d) auto
  then show ?case using Cons.IH [of "d @ [p]"] Cons.prems by (simp add: dict_update_def p)
qed (simp add: dict_update_def)

definition leaf_entry :: "(bytes \<Rightarrow> bytes) \<Rightarrow> mesh_object \<Rightarrow> ustring \<times> bytes" where
  "leaf_entry sha obj = (mo_id obj, sha (leaf_text obj))"

lemma make_tree_leaves:
  assumes plain: "\<forall>obj \<in> set objects. plain_object obj" and ids: "distinct (map mo_id objects)"
  shows "make_tree sha objects = Inr \<lparr>mt_leaves = map (leaf_entry sha) objects, mt_ids = sort (map mo_id objects),
    mt_levels = build_levels sha (map (\<lambda>i. the (dict_get (map (leaf_entry sha) objects) i)) (sort (map mo_id objects)))\<rparr>"
proof -
  have "mapR (\<lambda>obj. bindR (leaf_hash sha obj) (\<lambda>h. Inr (mo_id obj, h))) objects = Inr (map (leaf_entry sha) objects)"
    by (rule mapR_Inr_map) (use plain in \<open>simp add: leaf_hash_def leaf_entry_def plain_object_def plain_name_def\<close>)
  moreover have "map (fst \<circ> leaf_entry sha) objects = map mo_id objects" by (simp add: leaf_entry_def)
  moreover have "dict_wf (map (leaf_entry sha) objects)" using ids by (simp add: leaf_entry_def comp_def)
  then have "dict_update [] (map (leaf_entry sha) objects) = map (leaf_entry sha) objects"
    using dict_update_append [of "[]" "map (leaf_entry sha) objects"] by simp
  ultimately show ?thesis by (simp add: make_tree_def leaves_of_def Let_def del: map_eq_conv)
qed

lemma leaf_found:
  assumes "distinct (map mo_id objects)"
  shows "dict_get (map (leaf_entry sha) objects) i = Some h \<longleftrightarrow> (\<exists>obj \<in> set objects. mo_id obj = i \<and> sha (leaf_text obj) = h)"
proof -
  have "dict_wf (map (leaf_entry sha) objects)" using assms by (simp add: leaf_entry_def comp_def)
  then have "dict_get (map (leaf_entry sha) objects) i = Some h \<longleftrightarrow> (i, h) \<in> set (map (leaf_entry sha) objects)" by simp
  then show ?thesis by (auto simp: leaf_entry_def)
qed

lemma root_tree:
  assumes ids: "distinct (map mo_id objects)" and some: "objects \<noteq> []"
    and t: "t = \<lparr>mt_leaves = map (leaf_entry sha) objects, mt_ids = sort (map mo_id objects),
      mt_levels = build_levels sha (map (\<lambda>i. the (dict_get (map (leaf_entry sha) objects) i)) (sort (map mo_id objects)))\<rparr>"
  shows "\<exists>T. tree_root sha t = hash_of sha T \<and> leaf_texts T = leaf_text ` set objects
    \<and> hashed sha T \<subseteq> inner_texts (mt_levels t) \<union> leaf_text ` set objects"
proof -
  define at where "at i = (THE obj. obj \<in> set objects \<and> mo_id obj = i)" for i
  have at: "at (mo_id obj) = obj" if "obj \<in> set objects" for obj
    unfolding at_def by (rule the_equality) (use that ids in \<open>auto simp: distinct_map inj_on_def\<close>)
  let ?ids = "sort (map mo_id objects)" and ?ts = "map (\<lambda>i. Leaf (leaf_text (at i))) (sort (map mo_id objects))"
  have hashes: "map (\<lambda>i. the (dict_get (map (leaf_entry sha) objects) i)) ?ids = map (hash_of sha) ?ts"
  proof -
    have "dict_get (map (leaf_entry sha) objects) (mo_id x) = Some (sha (leaf_text x))" if "x \<in> set objects" for x
      using leaf_found [OF ids, THEN iffD2] that by blast
    then show ?thesis using at by auto
  qed
  have texts: "(\<Union>t \<in> set ?ts. leaf_texts t) = leaf_text ` set objects" "(\<Union>t \<in> set ?ts. hashed sha t) = leaf_text ` set objects"
    using at by (auto simp: image_image)
  have ne: "?ts \<noteq> []" using some by (metis length_0_conv length_map length_sort)
  have "hd (build_levels sha (map (hash_of sha) ?ts)) = map (hash_of sha) ?ts"
    by (subst build_levels.simps) simp
  then have "tree_root sha t = hd (last (build_levels sha (map (hash_of sha) ?ts)))"
    using ne by (simp add: t tree_root_def hashes)
  then show ?thesis using levels_tree [OF ne, of sha] unfolding texts by (simp add: t hashes)
qed

lemma content_leaf: "content p = content q \<Longrightarrow> leaf_text p = leaf_text q \<and> mo_id p = mo_id q"
  by (simp add: content_def leaf_text_def)

lemma same_leaves:
  assumes ids: "distinct (map mo_id as)" "distinct (map mo_id bs)"
    and plain: "\<forall>obj \<in> set as \<union> set bs. plain_object obj"
    and inj: "inj_on sha (leaf_text ` (set as \<union> set bs))"
  shows "(\<forall>i. dict_get (map (leaf_entry sha) as) i = dict_get (map (leaf_entry sha) bs) i) \<longleftrightarrow> content ` set as = content ` set bs"
proof
  have one: "content ` set xs \<subseteq> content ` set ys"
    if xs: "distinct (map mo_id xs)" and ys: "distinct (map mo_id ys)" and sub: "set xs \<union> set ys \<subseteq> set as \<union> set bs"
      and eq: "\<forall>i. dict_get (map (leaf_entry sha) xs) i = dict_get (map (leaf_entry sha) ys) i" for xs ys
  proof (rule image_subsetI)
    fix x assume x: "x \<in> set xs"
    then have "dict_get (map (leaf_entry sha) ys) (mo_id x) = Some (sha (leaf_text x))"
      using leaf_found [OF xs] eq by metis
    then obtain y where y: "y \<in> set ys" "sha (leaf_text y) = sha (leaf_text x)" using leaf_found [OF ys] by blast
    then have "leaf_text y = leaf_text x" using inj_onD [OF inj y(2)] sub x y(1) by blast
    then have "content y = content x" using leaf_text_inj plain sub x y(1) by blast
    then show "content x \<in> content ` set ys" using y(1) by (metis image_eqI)
  qed
  assume "\<forall>i. dict_get (map (leaf_entry sha) as) i = dict_get (map (leaf_entry sha) bs) i"
  then show "content ` set as = content ` set bs" using one [OF ids] one [OF ids(2,1)] by (simp add: Un_commute subset_antisym)
next
  have one: "dict_get (map (leaf_entry sha) ys) i = Some h"
    if xs: "distinct (map mo_id xs)" and ys: "distinct (map mo_id ys)" and sub: "content ` set xs \<subseteq> content ` set ys"
      and get: "dict_get (map (leaf_entry sha) xs) i = Some h" for xs ys i h
  proof -
    obtain x where x: "x \<in> set xs" "mo_id x = i" "sha (leaf_text x) = h" using get leaf_found [OF xs] by blast
    then obtain y where y: "y \<in> set ys" "content x = content y" using sub x(1) by blast
    then show ?thesis using leaf_found [OF ys] x content_leaf [OF y(2)] by auto
  qed
  assume eq: "content ` set as = content ` set bs"
  have "dict_get (map (leaf_entry sha) as) i = Some h \<longleftrightarrow> dict_get (map (leaf_entry sha) bs) i = Some h" for i h
    using one [OF ids, of i h] one [OF ids(2,1), of i h] eq by blast
  then show "\<forall>i. dict_get (map (leaf_entry sha) as) i = dict_get (map (leaf_entry sha) bs) i" by (metis option.exhaust)
qed

lemma root_texts_differ: "no_collision sha S \<Longrightarrow> hashed sha T \<subseteq> S \<Longrightarrow> [] \<in> S \<Longrightarrow> (\<forall>t \<in> leaf_texts T. \<exists>r. t = 0 # r) \<Longrightarrow> hash_of sha T \<noteq> sha []"
proof -
  assume S: "no_collision sha S" "hashed sha T \<subseteq> S" "[] \<in> S" and leaf: "\<forall>t \<in> leaf_texts T. \<exists>r. t = 0 # r"
  obtain t where t: "t \<in> hashed sha T" "hash_of sha T = sha t" "t \<noteq> []"
    using leaf by (cases T) (auto simp: node_text_def)
  then show ?thesis using S by (auto simp: no_collision_def dest: inj_onD)
qed

text \<open>
  Equal roots mean equal contents, and unequal ones a divergent leaf, as long as SHA-256 has no
  collision among the texts the two trees hash and no id or kind holds a NUL character.
\<close>

lemma gossip_decides:
  assumes plain: "\<forall>obj \<in> set as \<union> set bs. plain_object obj"
    and ids: "distinct (map mo_id as)" "distinct (map mo_id bs)"
    and trees: "make_tree sha as = Inr ta" "make_tree sha bs = Inr tb"
    and sha: "no_collision sha ({[]} \<union> leaf_text ` (set as \<union> set bs) \<union> inner_texts (mt_levels ta) \<union> inner_texts (mt_levels tb))"
  shows "gossip (tree_root sha ta) (tree_root sha tb) \<longleftrightarrow> content ` set as \<noteq> content ` set bs"
    and "divergent_ids ta tb = [] \<longleftrightarrow> content ` set as = content ` set bs"
proof -
  let ?S = "{[]} \<union> leaf_text ` (set as \<union> set bs) \<union> inner_texts (mt_levels ta) \<union> inner_texts (mt_levels tb)"
  have inj: "inj_on sha (leaf_text ` (set as \<union> set bs))"
    by (rule inj_on_subset [of sha ?S]) (use sha in \<open>auto simp: no_collision_def\<close>)
  note same = same_leaves [OF ids plain inj]
  have plains: "\<forall>obj \<in> set as. plain_object obj" "\<forall>obj \<in> set bs. plain_object obj" using plain by auto
  note ta = make_tree_leaves [OF plains(1) ids(1), of sha, unfolded trees(1) sum.inject]
    and tb = make_tree_leaves [OF plains(2) ids(2), of sha, unfolded trees(2) sum.inject]
  have zero: "\<forall>t \<in> leaf_text ` (set as \<union> set bs). \<exists>r. t = 0 # r" by (auto simp: leaf_text_def)
  have keys: "dict_get (map (leaf_entry sha) xs) i = None" if "i \<notin> mo_id ` set xs" for xs i
    using that by (auto simp: map_of_eq_None_iff leaf_entry_def)
  show "divergent_ids ta tb = [] \<longleftrightarrow> content ` set as = content ` set bs"
    unfolding same [symmetric] using keys by (fastforce simp: divergent_ids_def ta tb filter_empty_conv)
  show "gossip (tree_root sha ta) (tree_root sha tb) \<longleftrightarrow> content ` set as \<noteq> content ` set bs"
  proof -
    have "tree_root sha ta = tree_root sha tb" if eq: "content ` set as = content ` set bs"
    proof -
      have leaves: "dict_get (map (leaf_entry sha) as) = dict_get (map (leaf_entry sha) bs)"
        using same eq by (simp add: fun_eq_iff)
      have "fst ` content ` set as = fst ` content ` set bs" using eq by simp
      then have "set (map mo_id as) = set (map mo_id bs)" by (simp add: image_image content_def)
      then have "sort (map mo_id as) = sort (map mo_id bs)" using ids by (intro sorted_distinct_set_unique) simp_all
      then show ?thesis by (simp add: ta tb tree_root_def leaves)
    qed
    moreover have "content ` set as = content ` set bs" if eq: "tree_root sha ta = tree_root sha tb"
    proof -
      have texts: "leaf_text ` set as = leaf_text ` set bs"
      proof (cases "as = [] \<or> bs = []")
        case True
        have root: "tree_root sha t \<noteq> sha []"
          if ne: "xs \<noteq> []" and dist: "distinct (map mo_id xs)" and sub: "set xs \<subseteq> set as \<union> set bs" "inner_texts (mt_levels t) \<subseteq> ?S"
            and t: "t = \<lparr>mt_leaves = map (leaf_entry sha) xs, mt_ids = sort (map mo_id xs),
              mt_levels = build_levels sha (map (\<lambda>i. the (dict_get (map (leaf_entry sha) xs) i)) (sort (map mo_id xs)))\<rparr>" for xs t
        proof -
          obtain T where T: "tree_root sha t = hash_of sha T" "leaf_texts T = leaf_text ` set xs"
            "hashed sha T \<subseteq> inner_texts (mt_levels t) \<union> leaf_text ` set xs"
            using root_tree [OF dist ne t] by blast
          have "hashed sha T \<subseteq> ?S" using T(3) sub by blast
          moreover have "\<forall>t \<in> leaf_texts T. \<exists>r. t = 0 # r" using T(2) zero sub(1) by blast
          ultimately show ?thesis using root_texts_differ [OF sha] T(1) by simp
        qed
        have none: "tree_root sha ta = sha []" if "as = []" using that ta by (simp add: tree_root_def build_levels.simps)
        have none': "tree_root sha tb = sha []" if "bs = []" using that tb by (simp add: tree_root_def build_levels.simps)
        show ?thesis using True root [OF _ ids(1) _ _ ta] root [OF _ ids(2) _ _ tb] none none' eq by auto
      next
        case False
        then have ne: "as \<noteq> []" "bs \<noteq> []" by auto
        obtain T where T: "tree_root sha ta = hash_of sha T" "leaf_texts T = leaf_text ` set as"
          "hashed sha T \<subseteq> inner_texts (mt_levels ta) \<union> leaf_text ` set as"
          using root_tree [OF ids(1) ne(1) ta] by blast
        obtain U where U: "tree_root sha tb = hash_of sha U" "leaf_texts U = leaf_text ` set bs"
          "hashed sha U \<subseteq> inner_texts (mt_levels tb) \<union> leaf_text ` set bs"
          using root_tree [OF ids(2) ne(2) tb] by blast
        have "hashed sha T \<subseteq> ?S" "hashed sha U \<subseteq> ?S" using T(3) U(3) by blast+
        moreover have "\<forall>t \<in> leaf_texts T \<union> leaf_texts U. \<exists>r. t = 0 # r" using T(2) U(2) zero by blast
        ultimately have "T = U" using hash_injective [OF sha] eq T(1) U(1) by simp
        then show ?thesis using T(2) U(2) by simp
      qed
      have one: "content ` set xs \<subseteq> content ` set ys"
        if texts: "leaf_text ` set xs \<subseteq> leaf_text ` set ys" and sub: "set xs \<union> set ys \<subseteq> set as \<union> set bs" for xs ys
      proof (rule image_subsetI)
        fix x assume x: "x \<in> set xs"
        then obtain y where "y \<in> set ys" "leaf_text x = leaf_text y" using texts by blast
        moreover from this have "content x = content y" using leaf_text_inj plain sub x by blast
        ultimately show "content x \<in> content ` set ys" by (metis image_eqI)
      qed
      show ?thesis using one [of as bs] one [of bs as] texts by (simp add: Un_commute subset_antisym)
    qed
    ultimately show ?thesis unfolding gossip_def by blast
  qed
qed

subsection \<open>Exchanging two states\<close>



text \<open>The decision for one id, and what it leaves under that id.\<close>

definition decision :: "mesh_object option \<Rightarrow> mesh_object option \<Rightarrow> resolution" where
  "decision lo ro = (case ro of None \<Rightarrow> SEND_LOCAL
     | Some r \<Rightarrow> (case lo of None \<Rightarrow> FETCH_REMOTE | Some l \<Rightarrow> resolve_pair l r))"

definition settled_object :: "mesh_object option \<Rightarrow> mesh_object option \<Rightarrow> mesh_object option" where
  "settled_object lo ro = (case decision lo ro of
       FETCH_REMOTE \<Rightarrow> map_option (fetched lo) ro
     | UNION \<Rightarrow> map_option (\<lambda>l. l\<lparr>mo_vector := merge_vectors (mo_vector l) (mo_vector (the ro))\<rparr>) lo
     | REMOVE_WINS \<Rightarrow> (case removed lo ro of Inr w \<Rightarrow> Some w | Inl _ \<Rightarrow> lo)
     | _ \<Rightarrow> lo)"
















subsection \<open>What both sides hold after an exchange\<close>









subsection \<open>A concrete exchange\<close>



subsection \<open>Where the contract fails\<close>

text \<open>
  A vector with every component at least as great and one greater need not dominate: the
  edits of a replica the other has not heard of are not counted.  A causally newer object is
  then taken for a concurrent one.
\<close>

theorem new_replica_not_dominating:
  "v \<noteq> [] \<Longrightarrow> vector_ok v \<Longrightarrow> replica \<notin> fst ` set v \<Longrightarrow>
    has_seen (bump replica v) v \<and> count_of v replica < count_of (bump replica v) replica \<and> \<not> dominates (bump replica v) v"
proof -
  assume v: "v \<noteq> []" "vector_ok v" "replica \<notin> fst ` set v"
  have bumped: "count_of (bump replica v) r = (if r = replica then 1 else count_of v r)" for r
    using count_of_absent [OF v(3)] by (simp add: bump_def count_of_def dict_default_def dict_simps)
  have "\<not> dominates (bump replica v) v"
    using v by (auto simp: dominates_iff [OF bump_vector_ok [OF v(2)] v(2)] bumped split: if_splits)
  then show ?thesis using bumped count_of_absent [OF v(3)] by (simp add: has_seen_def)
qed

text \<open>
  Equal vectors are the same write by the docstring, and yet \<open>concurrent_with\<close> and \<open>reconcile\<close>
  take them for concurrent ones: an object both replicas hold identically is a conflict.
\<close>

theorem same_write_conflicts:
  assumes "vector_ok (mo_vector obj)" "mo_kind obj \<notin> IMMUTABLE_KINDS" "\<not> mo_tombstone obj"
    "mo_superseded_by obj \<noteq> JStr (mo_id obj)"
  shows "concurrent_with (mo_vector obj) (mo_vector obj) \<and> resolve_pair obj obj = CONFLICT"
  using assms dominates_asym [OF assms(1,1)]
  by (auto simp: concurrent_with_def resolve_pair_def supersession_pair_def)

text \<open>
  Concurrent captures under one id keep their own payload on each side, with equal vectors:
  no later exchange can make the roots equal.
\<close>

theorem union_keeps_sides_apart:
  assumes "concurrent_with (mo_vector l) (mo_vector r)" "mo_kind l \<in> IMMUTABLE_KINDS" "mo_kind r = mo_kind l"
  shows "\<exists>p q. settled_object (Some l) (Some r) = Some p \<and> settled_object (Some r) (Some l) = Some q
    \<and> mo_payload p = mo_payload l \<and> mo_payload q = mo_payload r"
  using assms by (simp add: settled_object_def decision_def resolve_pair_def concurrent_with_def)

end
