(* ===== verification/Spec2Isabelle.thy ===== *)
theory Spec2Isabelle
  imports Lite_Facts Context_Assembly Working_Memory Lite_Convergence Lite_Dispatch Lite_Durability
    Ingress_Roundtrip Mesh_Core
begin

text \<open>
  A verification library for Memplex, a long-term memory layer for agents
  (\<open>src/memplex/\<close>).

  \<^bold>\<open>The program.\<close>  A service (\<open>service.py\<close>) keeps memory nodes, typed records of functions,
  facts, preferences and observations (\<open>models/\<close>), in a store.  The lite store
  (\<open>storage/lite/\<close>) holds them in memory and commits them as a pair of JSON files under a
  journal (\<open>durability.py\<close>).  Every read for a caller passes the authorization gate
  (\<open>authorization.py\<close>, \<open>factual_lineage.py\<close>) under a principal and a request context
  (\<open>auth.py\<close>); what goes into a prompt passes the injection guard
  (\<open>llm/injection_guard.py\<close>) and the context assembly (\<open>context.py\<close>).  Facts are
  bi-temporal (\<open>temporal.py\<close>) and are maintained by \<open>improve.py\<close>.  A hot tier
  (\<open>working_memory.py\<close>) keeps recent entries.  Nodes replicate: each change is an event of
  an outbox (\<open>storage/lite/sync_repository.py\<close>) in a wire format (\<open>sync_protocol.py\<close>); a
  dispatcher (\<open>sync_dispatcher.py\<close>) leases deliveries, sends them to peers, and pulls pages
  from them.  The other side of the wire is the HTTP interface (\<open>adapters/http_api.py\<close>): it
  opens encrypted bodies (\<open>sync_crypto.py\<close>), reads a batch strictly (\<open>sync_ingress.py\<close>),
  screens its memories for injections and hands it to the repository, and serves pages of
  the stream and of snapshots under signed cursors.

  \<^bold>\<open>Theories.\<close>  Definitions keep the names of the source where they can; the theory of a file
  follows its order.

    \<^item> Prelude: Python's strings, dictionaries with insertion order, stable sorts, exceptions
      as a sum (\<open>'a result\<close>), loops with fuel (\<open>run_loop\<close>) and the locale of loops with a
      decreasing measure.
    \<^item> Memory\_Model: \<open>models/memory.py\<close>, \<open>misc.py\<close>, \<open>graph.py\<close>, \<open>source.py\<close>.  A node is one
      record with a kind; an edge list has its validation.
    \<^item> Temporal: \<open>temporal.py\<close> and the scope half of \<open>capture_identity.py\<close>.
    \<^item> Fact\_Store, Lite\_Facts: \<open>improve.py\<close> and the batch supersession of \<open>service.py\<close>,
      proved in the locale \<open>fact_store\<close>, which the fact methods of \<open>storage/lite/store.py\<close>
      interpret.
    \<^item> Identity: \<open>auth.py\<close>.
    \<^item> Authorization: \<open>authorization.py\<close> and \<open>factual_lineage.py\<close>.  The two evaluators of
      derivation lineage (an explicit stack over a snapshot, a recursion over the store) run
      against the locales \<open>lookup_object\<close> and \<open>exact_lookup\<close>.
    \<^item> Injection\_Guard: \<open>llm/injection_guard.py\<close>, the pattern scan being a parameter.
    \<^item> Context\_Assembly: \<open>context.py\<close> and the context entry of \<open>service.py\<close>.
    \<^item> Working\_Memory: \<open>working_memory.py\<close>.
    \<^item> Sync\_Codec, Sync\_Protocol, Sync\_Pages: \<open>sync_protocol.py\<close> and the entry checks of
      \<open>sync_repository.py\<close>: canonical JSON, base64url, UTF-8 and UTF-16BE from the bytes up,
      versions, entity keys, events, batches, pages, snapshots, signed cursors.
    \<^item> Wire\_Nodes: \<open>to_dict\<close> and \<open>from_dict\<close> of the memory classes over JSON values.
    \<^item> Lite\_Sync, Lite\_Business: \<open>storage/lite/sync_repository.py\<close>, every method.  The
      first is the \<open>sync\<close> subtree of the memory document, the second what events do to the
      stored memories and edges (with the edge and name indexes of \<open>store.py\<close>).
    \<^item> Sync\_Invariants, Sync\_Steps, Sync\_Reach, Lite\_Sync\_Facts, Lite\_Convergence, Lite\_Work:
      the invariant of the repository, its preservation by every operation, the repository as
      a state machine over the locale \<open>sync_business\<close>, and the claims about it.
    \<^item> Sync\_Dispatcher, Dispatcher\_Facts, Lite\_Dispatch: \<open>sync_dispatcher.py\<close> over a record
      of ports (\<open>sync_ports\<close>), as actions on a world; the scheduler and worker threads are an
      inductive step relation.  The ports are then those of the lite store, with an arbitrary
      network and clocks; the locales \<open>delivery_ledger\<close> and \<open>port_invariant\<close> are interpreted
      on them.
    \<^item> Sync\_Crypto: \<open>sync_crypto.py\<close>, the whole file: base64 as the standard library reads
      it, the key ring and its cache, envelopes and rotation.
    \<^item> Wire\_Screening: the text collector of \<open>llm/injection_guard.py\<close> over serialised nodes
      and the screening of a batch in \<open>service.py\<close>.
    \<^item> Sync\_Ingress, Ingress\_Facts, Ingress\_Roundtrip: \<open>sync_ingress.py\<close> and the three \<open>/sync/v1\<close> routes of
      \<open>adapters/http_api.py\<close> as functions of the caller, the request and the node (its
      repository, its screening state and its key cache), over everything above; the traffic
      of a node is an inductive step relation.
    \<^item> Lite\_Validation, Lite\_Durability: \<open>storage/lite/durability.py\<close>, the validators of a
      stored document, and the commit protocol: three files, a journal that decides, recovery
      and load, with a crash or failure possible at every disk operation.
    \<^item> Mesh\_Core: \<open>peer_mesh.py\<close>, the whole file: version vectors, the Merkle tree of the
      objects of a replica, \<open>reconcile\<close> and \<open>apply_plan\<close>.

  \<^bold>\<open>State and effects.\<close>  A class with state is a record that its operations take and return; a
  raised exception is \<open>Inl\<close> of its class and the fixed part of its message (\<open>exn\<close> of the Prelude;
  subclasses are constructors of their own), and a mutation
  that is rolled back returns the old state.  Values from outside are JSON values.  Times
  are microseconds; the clock, fresh UUIDs and random numbers are arguments.

  \<^bold>\<open>What is shown.\<close>
    \<^item> Memory: closing contradicted facts loses no history; maintenance leaves one live fact per
      slot.
    \<^item> Access: a token authenticates one credential; a configured registry cannot be bypassed;
      binding projects or rejects; the lineage evaluators decide the inductive lineage
      relation and end; a derived record is shown only to callers who have all its sources in
      scope, and so is any visible node, transitively; the visibility stamped on a derived
      record is the one of the program's table, which alone can be wider than a session source;
      the assembled context holds only committed, visible, allowed and safe nodes within its
      token budget.
    \<^item> Bounds: the risk registry, the candidate cache and both containers of the working memory.
    \<^item> Wire: canonical bytes do not depend on entry order; events and cursors survive the wire;
      every fault of a cursor is one opaque error; batches are admitted exactly when well formed.
    \<^item> Repository: the invariant holds in every reachable state; the cached append equals the
      plain one; claims are exclusive; settling needs the running lease, of every row of an
      acknowledged batch; compaction drops only what nobody waits for; applying remote events
      refines an abstract replica (a last-writer-wins register and the remembered outcomes),
      and nodes that hold the same events after any runs, with local writes not dated behind
      the versions they replace, agree; work is bounded by the attempts, and due deliveries
      are handed out.
    \<^item> Dispatcher: slots are accounted for under every interleaving; only what a peer confirmed
      is marked delivered; retries land in their window; draining tells the truth and ends;
      pulling never moves the confirmed position back.
    \<^item> API: a batch is applied only for an enabled node, an authenticated caller and canonical
      bytes of a valid batch bound to that caller, and any other reply leaves the store alone;
      the canonical bytes of a valid batch of one
      node are accepted by another; all traffic keeps the invariant of the node; a cursor resumes exactly after its page for
      its own caller; envelopes survive key rotation and decryption fails closed (an exception
      of \<open>json.loads\<close> other than \<open>JSONDecodeError\<close> passes through it); every typed
      memory of a batch is judged over all its strings before it is stored.
    \<^item> Persistence: an accepted sync state is consistent; after any sequence of commits,
      failures, crashes and restarts a load returns the target of the last commit whose
      journal reached the disk; a commit is all or nothing; a refused load changes nothing.
    \<^item> Mesh: after an exchange both replicas hold every object, with the same content unless
      the two are concurrent and no rule decides; what is kept apart is not lost; equal roots
      are equal contents; dominance is the causal order except for replicas it has not heard of.

  \<^bold>\<open>Fuel and bounds.\<close>  Loops of the source that need not be structural run with fuel: the
  lineage evaluation (its property shows that some fuel is enough and more changes
  nothing), \<open>drain\<close> (its termination is shown from the clock passing the deadline).  Integers
  of Python are \<open>int\<close>; the limits the source imposes (4096 ids, 200 nodes, 500 events,
  4 MiB batches, 1200-byte keys, JavaScript-safe integers) are constants of the theories.

  \<^bold>\<open>Parameters.\<close>  SHA-256, HMAC and AES-GCM, \<open>json.loads\<close> and its tokenizer, the calendar text
  of a time, uuid5, Unicode case tables, the injection patterns, the HTTP network, and the
  semantic validator of the store are arguments; what a property needs of them is a named hypothesis at the values used
  (\<open>loads_back\<close>, \<open>time_back\<close>, \<open>sha_law\<close>, \<open>transport_ok\<close>, \<open>tokens_back\<close>), with a witness.
  \<open>json.loads\<close> returns a value, fails with \<open>JSONDecodeError\<close> or raises something else
  (\<open>loads_failure\<close>); its law is that canonical text comes back with the entries of every
  object in the order of the text (\<open>in_order\<close>).

  \<^bold>\<open>Not modelled.\<close>  PostgreSQL storage and migrations (SQL text is the logic there), the
  command line, the other HTTP routes, MCP and host adapters, configuration, logging, extraction from documents,
  calls to language models, the wiki, benchmarks, and release and readiness tooling: they are
  input, output and glue around other systems.  Of the lite store the retrieval indexes and the
  SQLite shadow are left, of \<open>service.py\<close> everything but the context entry, the batch
  supersession and the screening of a batch.  Locks are not modelled as such: an operation under a lock is one step.
  A file is the document read from it, so a torn write is an unreadable file.
\<close>

end
